(* ===== verification/Prelude.thy ===== *)
theory Prelude
  imports Main "HOL-Library.Word"
begin

text \<open>
  What every component shares: the machine types of the code, the proof of a fact about
  all byte values by going through them, and lemmas on lists that the parsers use.
  The development is for a 64-bit platform, so \<open>ngx_int_t\<close>, \<open>off_t\<close>, \<open>time_t\<close> and
  \<open>ssize_t\<close> are 64-bit signed and \<open>size_t\<close> is 64-bit unsigned.
\<close>

unbundle bit_operations_syntax

section \<open>Types\<close>

type_synonym u_char = "8 word"
type_synonym bytes = "u_char list"
type_synonym u32 = "32 word"
type_synonym u64 = "64 word"

text \<open>The bytes of a C string literal.\<close>

definition str_bytes :: "string \<Rightarrow> bytes" where
  "str_bytes s = map of_char s"

lemma str_bytes_simps [simp]:
  "str_bytes [] = []"
  "str_bytes (c # s) = of_char c # str_bytes s"
  by (simp_all add: str_bytes_def)

text \<open>The return codes of \<open>core/ngx_core.h\<close>.\<close>

datatype ngx_rc = NGX_OK | NGX_ERROR | NGX_AGAIN | NGX_BUSY | NGX_DONE | NGX_DECLINED | NGX_ABORT

text \<open>The bytes the parsers name, and the case-folding of \<open>ch | 0x20\<close>.\<close>

abbreviation (input) LF :: u_char where "LF \<equiv> 0x0a"
abbreviation (input) CR :: u_char where "CR \<equiv> 0x0d"

section \<open>All byte values\<close>

named_theorems byte_simps "rules that evaluate a byte classification"

definition all_bytes :: bytes where
  "all_bytes = map word_of_nat [0..<256]"

lemma set_all_bytes [simp]: "set all_bytes = UNIV"
proof -
  have "c \<in> set all_bytes" for c :: u_char
  proof -
    have "unat c < 256" using unsigned_less [of c] by simp
    then have "unat c \<in> set [0..<256]" by simp
    then have "word_of_nat (unat c) \<in> set all_bytes"
      unfolding all_bytes_def set_map by (rule imageI)
    then show ?thesis by simp
  qed
  then show ?thesis by auto
qed

lemma all_bytes_code: "all_bytes = [
     0, 1, 2, 3, 4, 5, 6, 7, 8, 9, 10, 11, 12, 13, 14, 15,
     16, 17, 18, 19, 20, 21, 22, 23, 24, 25, 26, 27, 28, 29, 30, 31,
     32, 33, 34, 35, 36, 37, 38, 39, 40, 41, 42, 43, 44, 45, 46, 47,
     48, 49, 50, 51, 52, 53, 54, 55, 56, 57, 58, 59, 60, 61, 62, 63,
     64, 65, 66, 67, 68, 69, 70, 71, 72, 73, 74, 75, 76, 77, 78, 79,
     80, 81, 82, 83, 84, 85, 86, 87, 88, 89, 90, 91, 92, 93, 94, 95,
     96, 97, 98, 99, 100, 101, 102, 103, 104, 105, 106, 107, 108, 109, 110, 111,
     112, 113, 114, 115, 116, 117, 118, 119, 120, 121, 122, 123, 124, 125, 126, 127,
     128, 129, 130, 131, 132, 133, 134, 135, 136, 137, 138, 139, 140, 141, 142, 143,
     144, 145, 146, 147, 148, 149, 150, 151, 152, 153, 154, 155, 156, 157, 158, 159,
     160, 161, 162, 163, 164, 165, 166, 167, 168, 169, 170, 171, 172, 173, 174, 175,
     176, 177, 178, 179, 180, 181, 182, 183, 184, 185, 186, 187, 188, 189, 190, 191,
     192, 193, 194, 195, 196, 197, 198, 199, 200, 201, 202, 203, 204, 205, 206, 207,
     208, 209, 210, 211, 212, 213, 214, 215, 216, 217, 218, 219, 220, 221, 222, 223,
     224, 225, 226, 227, 228, 229, 230, 231, 232, 233, 234, 235, 236, 237, 238, 239,
     240, 241, 242, 243, 244, 245, 246, 247, 248, 249, 250, 251, 252, 253, 254, 255]"
  unfolding all_bytes_def by (simp add: upt_rec)

text \<open>
  A property of one byte holds when it holds of all 256 values; \<open>all_bytes_code\<close> lets the
  simplifier check them.
\<close>

lemma all_byteI: "list_all P all_bytes \<Longrightarrow> P (c :: u_char)"
  using set_all_bytes by (metis UNIV_I list_all_iff)

lemma unat_byte_less [simp]: "unat (c :: u_char) < 256"
  using unsigned_less [of c] by simp

lemma uint_byte_bounds [simp]: "0 \<le> uint (c :: u_char)" "uint c < 256"
  using uint_bounded [of c] by auto

text \<open>A table indexed by a byte.\<close>

lemma table_nth: "tbl = map f all_bytes \<Longrightarrow> tbl ! unat (c :: u_char) = f c"
  by (simp add: all_bytes_def)

lemma replicate_numeral: "replicate (numeral k) x = x # replicate (pred_numeral k) x"
  by (simp add: numeral_eq_Suc)

section \<open>Lists\<close>

lemma takeWhile_all [simp]: "\<forall>x\<in>set xs. P x \<Longrightarrow> takeWhile P xs = xs"
  by (induction xs) auto

end
