(* ===== verification/Ngx_Number.thy ===== *)
theory Ngx_Number
  imports Prelude
begin

text \<open>
  Numbers in text: the decimal and hexadecimal readers of \<open>core/ngx_string.c\<close>
  (\<open>ngx_atoi\<close>, \<open>ngx_atofp\<close>, \<open>ngx_atosz\<close>, \<open>ngx_atoof\<close>, \<open>ngx_atotm\<close>, \<open>ngx_hextoi\<close>), the
  number printer \<open>ngx_sprintf_num\<close>, and the size, offset and time readers of
  \<open>core/ngx_parse.c\<close>. A C result of \<open>NGX_ERROR\<close> is \<open>None\<close>. The accumulators are signed
  64-bit in the code; here they are \<open>int\<close>s with the code's overflow guards, and the
  specifications show that no value above the type's maximum is ever built.
\<close>

section \<open>Decimal readers\<close>

definition NGX_MAX_INT_T_VALUE :: int where "NGX_MAX_INT_T_VALUE = 9223372036854775807"
definition NGX_MAX_SIZE_T_VALUE :: int where "NGX_MAX_SIZE_T_VALUE = 9223372036854775807"
definition NGX_MAX_OFF_T_VALUE :: int where "NGX_MAX_OFF_T_VALUE = 9223372036854775807"
definition NGX_MAX_TIME_T_VALUE :: int where "NGX_MAX_TIME_T_VALUE = 9223372036854775807"

lemmas max_defs = NGX_MAX_INT_T_VALUE_def NGX_MAX_SIZE_T_VALUE_def NGX_MAX_OFF_T_VALUE_def
  NGX_MAX_TIME_T_VALUE_def

definition is_digit :: "u_char \<Rightarrow> bool" where
  "is_digit c \<longleftrightarrow> 0x30 \<le> c \<and> c \<le> 0x39"

definition digit_val :: "u_char \<Rightarrow> int" where
  "digit_val c = uint c - 0x30"

text \<open>The loop the five readers share, with the caller's \<open>cutoff\<close> and \<open>cutlim\<close>.\<close>

fun ngx_ato_loop :: "int \<Rightarrow> int \<Rightarrow> bytes \<Rightarrow> int \<Rightarrow> int option" where
  "ngx_ato_loop cutoff cutlim [] value = Some value"
| "ngx_ato_loop cutoff cutlim (c # line) value =
     (if c < 0x30 \<or> c > 0x39 then None
      else if value \<ge> cutoff \<and> (value > cutoff \<or> digit_val c > cutlim) then None
      else ngx_ato_loop cutoff cutlim line (value * 10 + digit_val c))"

definition ngx_atoi :: "bytes \<Rightarrow> int option" where
  "ngx_atoi line =
     (if length line = 0 then None
      else ngx_ato_loop (NGX_MAX_INT_T_VALUE div 10) (NGX_MAX_INT_T_VALUE mod 10) line 0)"

definition ngx_atosz :: "bytes \<Rightarrow> int option" where
  "ngx_atosz line =
     (if length line = 0 then None
      else ngx_ato_loop (NGX_MAX_SIZE_T_VALUE div 10) (NGX_MAX_SIZE_T_VALUE mod 10) line 0)"

definition ngx_atoof :: "bytes \<Rightarrow> int option" where
  "ngx_atoof line =
     (if length line = 0 then None
      else ngx_ato_loop (NGX_MAX_OFF_T_VALUE div 10) (NGX_MAX_OFF_T_VALUE mod 10) line 0)"

definition ngx_atotm :: "bytes \<Rightarrow> int option" where
  "ngx_atotm line =
     (if length line = 0 then None
      else ngx_ato_loop (NGX_MAX_TIME_T_VALUE div 10) (NGX_MAX_TIME_T_VALUE mod 10) line 0)"

text \<open>
  The fixed-point reader: \<open>dot\<close> is 1 once the point was seen, and \<open>point\<close> counts the
  fraction digits still wanted.
\<close>

fun ngx_atofp_loop :: "int \<Rightarrow> int \<Rightarrow> bytes \<Rightarrow> int \<Rightarrow> nat \<Rightarrow> nat \<Rightarrow> (int \<times> nat) option" where
  "ngx_atofp_loop cutoff cutlim [] value dot point = Some (value, point)"
| "ngx_atofp_loop cutoff cutlim (c # line) value dot point =
     (if point = 0 then None
      else if c = 0x2e then
        (if dot \<noteq> 0 then None else ngx_atofp_loop cutoff cutlim line value 1 point)
      else if c < 0x30 \<or> c > 0x39 then None
      else if value \<ge> cutoff \<and> (value > cutoff \<or> digit_val c > cutlim) then None
      else ngx_atofp_loop cutoff cutlim line (value * 10 + digit_val c) dot (point - dot))"

fun ngx_atofp_scale :: "int \<Rightarrow> int \<Rightarrow> nat \<Rightarrow> int option" where
  "ngx_atofp_scale cutoff value 0 = Some value"
| "ngx_atofp_scale cutoff value (Suc point) =
     (if value > cutoff then None else ngx_atofp_scale cutoff (value * 10) point)"

definition ngx_atofp :: "bytes \<Rightarrow> nat \<Rightarrow> int option" where
  "ngx_atofp line point =
     (if length line = 0 then None
      else case ngx_atofp_loop (NGX_MAX_INT_T_VALUE div 10) (NGX_MAX_INT_T_VALUE mod 10)
                  line 0 0 point of
        None \<Rightarrow> None
      | Some (value, point') \<Rightarrow> ngx_atofp_scale (NGX_MAX_INT_T_VALUE div 10) value point')"

fun ngx_hextoi_loop :: "int \<Rightarrow> bytes \<Rightarrow> int \<Rightarrow> int option" where
  "ngx_hextoi_loop cutoff [] value = Some value"
| "ngx_hextoi_loop cutoff (c # line) value =
     (if value > cutoff then None
      else if 0x30 \<le> c \<and> c \<le> 0x39 then
        ngx_hextoi_loop cutoff line (value * 16 + (uint c - 0x30))
      else let d = c OR 0x20 in
        if 0x61 \<le> d \<and> d \<le> 0x66 then
          ngx_hextoi_loop cutoff line (value * 16 + (uint d - 0x61 + 10))
        else None)"

definition ngx_hextoi :: "bytes \<Rightarrow> int option" where
  "ngx_hextoi line =
     (if length line = 0 then None else ngx_hextoi_loop (NGX_MAX_INT_T_VALUE div 16) line 0)"

section \<open>The number printer\<close>

text \<open>The three do-while loops of \<open>ngx_sprintf_num\<close>: they fill \<open>temp\<close> from its end.\<close>

definition hex_digits :: bytes where "hex_digits = str_bytes ''0123456789abcdef''"
definition HEX_digits :: bytes where "HEX_digits = str_bytes ''0123456789ABCDEF''"

function sprintf_dec32 :: "u32 \<Rightarrow> bytes \<Rightarrow> bytes" where
  "sprintf_dec32 ui32 p =
     (let p' = (ucast (ui32 mod 10) + 0x30) # p; ui32' = ui32 div 10
      in if ui32' = 0 then p' else sprintf_dec32 ui32' p')"
  by pat_completeness auto
termination
proof (relation "measure (\<lambda>(u, p). unat u)", goal_cases)
  case 1
  show ?case by simp
next
  case (2 u p x y)
  then have "unat u div 10 \<noteq> 0"
    by (simp add: unat_div flip: unat_eq_zero)
  then show ?case using 2 by (simp add: unat_div)
qed

function sprintf_dec64 :: "u64 \<Rightarrow> bytes \<Rightarrow> bytes" where
  "sprintf_dec64 ui64 p =
     (let p' = (ucast (ui64 mod 10) + 0x30) # p; ui64' = ui64 div 10
      in if ui64' = 0 then p' else sprintf_dec64 ui64' p')"
  by pat_completeness auto
termination
proof (relation "measure (\<lambda>(u, p). unat u)", goal_cases)
  case 1
  show ?case by simp
next
  case (2 u p x y)
  then have "unat u div 10 \<noteq> 0"
    by (simp add: unat_div flip: unat_eq_zero)
  then show ?case using 2 by (simp add: unat_div)
qed

function sprintf_hex :: "bytes \<Rightarrow> u64 \<Rightarrow> bytes \<Rightarrow> bytes" where
  "sprintf_hex hex ui64 p =
     (let p' = (hex ! unat (ui64 AND 0xf)) # p; ui64' = drop_bit 4 ui64
      in if ui64' = 0 then p' else sprintf_hex hex ui64' p')"
  by pat_completeness auto
termination
proof (relation "measure (\<lambda>(h, u, p). unat u)", goal_cases)
  case 1
  show ?case by simp
next
  case (2 h u p x y)
  then have "unat u div 16 \<noteq> 0"
    by (simp add: drop_bit_eq_div unat_div flip: unat_eq_zero)
  then show ?case using 2 by (simp add: drop_bit_eq_div unat_div)
qed

declare sprintf_dec32.simps [simp del] sprintf_dec64.simps [simp del] sprintf_hex.simps [simp del]

text \<open>
  The padding loop writes \<open>zero\<close> while the number is shorter than \<open>width\<close> and the buffer
  has room; the copy after it is cut at the end of the buffer. \<open>room\<close> is \<open>last - buf\<close>.
\<close>

fun sprintf_pad :: "nat \<Rightarrow> u_char \<Rightarrow> nat \<Rightarrow> nat \<Rightarrow> bytes" where
  "sprintf_pad 0 zero width len = []"
| "sprintf_pad (Suc room) zero width len =
     (if len < width then zero # sprintf_pad room zero width (Suc len) else [])"

definition ngx_sprintf_num :: "nat \<Rightarrow> u64 \<Rightarrow> u_char \<Rightarrow> nat \<Rightarrow> nat \<Rightarrow> bytes" where
  "ngx_sprintf_num room ui64 zero hexadecimal width =
     (let p = (if hexadecimal = 0 then
                 (if ui64 \<le> 0xffffffff then sprintf_dec32 (ucast ui64) []
                  else sprintf_dec64 ui64 [])
               else if hexadecimal = 1 then sprintf_hex hex_digits ui64 []
               else sprintf_hex HEX_digits ui64 []);
          pad = sprintf_pad room zero width (length p)
      in pad @ take (room - length pad) p)"

section \<open>Sizes, offsets and times\<close>

definition ngx_parse_size :: "bytes \<Rightarrow> int option" where
  "ngx_parse_size line =
     (if length line = 0 then None
      else
        let unit = last line;
            (line', mx, scale) =
              (if unit = 0x4b \<or> unit = 0x6b \<comment> \<open>K k\<close>
               then (butlast line, NGX_MAX_SIZE_T_VALUE div 1024, 1024)
               else if unit = 0x4d \<or> unit = 0x6d \<comment> \<open>M m\<close>
               then (butlast line, NGX_MAX_SIZE_T_VALUE div (1024 * 1024), 1024 * 1024)
               else (line, NGX_MAX_SIZE_T_VALUE, 1))
        in case ngx_atosz line' of
             None \<Rightarrow> None
           | Some sz \<Rightarrow> if sz > mx then None else Some (sz * scale))"

definition ngx_parse_offset :: "bytes \<Rightarrow> int option" where
  "ngx_parse_offset line =
     (if length line = 0 then None
      else
        let unit = last line;
            (line', mx, scale) =
              (if unit = 0x4b \<or> unit = 0x6b \<comment> \<open>K k\<close>
               then (butlast line, NGX_MAX_OFF_T_VALUE div 1024, 1024)
               else if unit = 0x4d \<or> unit = 0x6d \<comment> \<open>M m\<close>
               then (butlast line, NGX_MAX_OFF_T_VALUE div (1024 * 1024), 1024 * 1024)
               else if unit = 0x47 \<or> unit = 0x67 \<comment> \<open>G g\<close>
               then (butlast line, NGX_MAX_OFF_T_VALUE div (1024 * 1024 * 1024),
                     1024 * 1024 * 1024)
               else (line, NGX_MAX_OFF_T_VALUE, 1))
        in case ngx_atoof line' of
             None \<Rightarrow> None
           | Some off \<Rightarrow> if off > mx then None else Some (off * scale))"

text \<open>The \<open>enum\<close> of \<open>ngx_parse_time\<close>, compared by its C value.\<close>

datatype time_step =
  st_start | st_year | st_month | st_week | st_day | st_hour | st_min | st_sec | st_msec | st_last

fun step_index :: "time_step \<Rightarrow> nat" where
  "step_index st_start = 0"
| "step_index st_year = 1"
| "step_index st_month = 2"
| "step_index st_week = 3"
| "step_index st_day = 4"
| "step_index st_hour = 5"
| "step_index st_min = 6"
| "step_index st_sec = 7"
| "step_index st_msec = 8"
| "step_index st_last = 9"

instantiation time_step :: linorder
begin

definition less_eq_time_step :: "time_step \<Rightarrow> time_step \<Rightarrow> bool" where
  "less_eq_time_step a b \<longleftrightarrow> step_index a \<le> step_index b"

definition less_time_step :: "time_step \<Rightarrow> time_step \<Rightarrow> bool" where
  "less_time_step a b \<longleftrightarrow> step_index a < step_index b"

instance
proof
  fix a b :: time_step
  assume "a \<le> b" and "b \<le> a"
  then show "a = b"
    by (cases a; cases b) (simp_all add: less_eq_time_step_def)
qed (auto simp: less_eq_time_step_def less_time_step_def)

end

text \<open>
  One unit character \<open>c\<close> (with \<open>p\<close> the text after it): the new step, the largest number
  the unit takes, its scale, and the text after the unit, or \<open>None\<close> for \<open>NGX_ERROR\<close>.
\<close>

definition parse_time_unit ::
  "u_char \<Rightarrow> bytes \<Rightarrow> bool \<Rightarrow> time_step \<Rightarrow> (time_step \<times> int \<times> int \<times> bytes) option" where
  "parse_time_unit c p is_sec step =
     (if c = 0x79 then \<comment> \<open>y\<close>
        (if step > st_start then None
         else Some (st_year, NGX_MAX_INT_T_VALUE div (60 * 60 * 24 * 365), 60 * 60 * 24 * 365, p))
      else if c = 0x4d then \<comment> \<open>M\<close>
        (if step \<ge> st_month then None
         else Some (st_month, NGX_MAX_INT_T_VALUE div (60 * 60 * 24 * 30), 60 * 60 * 24 * 30, p))
      else if c = 0x77 then \<comment> \<open>w\<close>
        (if step \<ge> st_week then None
         else Some (st_week, NGX_MAX_INT_T_VALUE div (60 * 60 * 24 * 7), 60 * 60 * 24 * 7, p))
      else if c = 0x64 then \<comment> \<open>d\<close>
        (if step \<ge> st_day then None
         else Some (st_day, NGX_MAX_INT_T_VALUE div (60 * 60 * 24), 60 * 60 * 24, p))
      else if c = 0x68 then \<comment> \<open>h\<close>
        (if step \<ge> st_hour then None
         else Some (st_hour, NGX_MAX_INT_T_VALUE div (60 * 60), 60 * 60, p))
      else if c = 0x6d then \<comment> \<open>m or ms\<close>
        (if p \<noteq> [] \<and> hd p = 0x73 then
           (if is_sec \<or> step \<ge> st_msec then None
            else Some (st_msec, NGX_MAX_INT_T_VALUE, 1, tl p))
         else if step \<ge> st_min then None
         else Some (st_min, NGX_MAX_INT_T_VALUE div 60, 60, p))
      else if c = 0x73 then \<comment> \<open>s\<close>
        (if step \<ge> st_sec then None
         else Some (st_sec, NGX_MAX_INT_T_VALUE, 1, p))
      else if c = 0x20 then \<comment> \<open>space\<close>
        (if step \<ge> st_sec then None
         else Some (st_last, NGX_MAX_INT_T_VALUE, 1, p))
      else None)"

text \<open>The part of the loop body after the switch: the new \<open>tot\<close>.\<close>

definition parse_time_add :: "bool \<Rightarrow> time_step \<Rightarrow> int \<Rightarrow> int \<Rightarrow> int \<Rightarrow> int \<Rightarrow> int option" where
  "parse_time_add is_sec step mx scale value tot =
     (let (scale', mx') =
        (if step \<noteq> st_msec \<and> \<not> is_sec then (scale * 1000, mx div 1000) else (scale, mx))
      in if value > mx' then None
         else let value' = value * scale' in
           if tot > NGX_MAX_INT_T_VALUE - value' then None
           else Some (tot + value'))"

lemma parse_time_unit_length:
  "parse_time_unit c p is_sec step = Some (step', mx, scale, p') \<Longrightarrow> length p' \<le> length p"
  by (auto simp: parse_time_unit_def split: if_splits)

function parse_time_loop ::
  "bytes \<Rightarrow> bool \<Rightarrow> time_step \<Rightarrow> bool \<Rightarrow> int \<Rightarrow> int \<Rightarrow> (bool \<times> int \<times> int) option" where
  "parse_time_loop [] is_sec step valid value tot = Some (valid, value, tot)"
| "parse_time_loop (c # p) is_sec step valid value tot =
     (if 0x30 \<le> c \<and> c \<le> 0x39 then
        (if value \<ge> NGX_MAX_INT_T_VALUE div 10
            \<and> (value > NGX_MAX_INT_T_VALUE div 10 \<or> digit_val c > NGX_MAX_INT_T_VALUE mod 10)
         then None
         else parse_time_loop p is_sec step True (value * 10 + digit_val c) tot)
      else
        case parse_time_unit c p is_sec step of
          None \<Rightarrow> None
        | Some (step', mx, scale, p') \<Rightarrow>
            (case parse_time_add is_sec step' mx scale value tot of
               None \<Rightarrow> None
             | Some tot' \<Rightarrow>
                 parse_time_loop (dropWhile (\<lambda>d. d = 0x20) p') is_sec step' valid 0 tot'))"
  by pat_completeness auto
termination
proof (relation "measure (\<lambda>(p, _). length p)", goal_cases)
  case (3 c p is_sec step valid v0 tot x step' y mx z scale p' tot')
  then have "length p' \<le> length p" by (auto dest: parse_time_unit_length)
  then show ?case
    using length_dropWhile_le [of "\<lambda>d. d = 0x20" p'] by simp
qed simp_all

definition ngx_parse_time :: "bytes \<Rightarrow> bool \<Rightarrow> int option" where
  "ngx_parse_time line is_sec =
     (case parse_time_loop line is_sec (if is_sec then st_start else st_month) False 0 0 of
        None \<Rightarrow> None
      | Some (valid, value, tot) \<Rightarrow>
          if \<not> valid then None
          else if \<not> is_sec \<and> value > NGX_MAX_INT_T_VALUE div 1000 then None
          else let value' = (if \<not> is_sec then value * 1000 else value) in
            if tot > NGX_MAX_INT_T_VALUE - value' then None
            else Some (tot + value'))"


section \<open>What the decimal readers compute\<close>

text \<open>The number a digit string denotes, started from \<open>v\<close>.\<close>

definition dec_from :: "int \<Rightarrow> bytes \<Rightarrow> int" where
  "dec_from v line = foldl (\<lambda>v c. v * 10 + digit_val c) v line"

abbreviation dec_value :: "bytes \<Rightarrow> int" where
  "dec_value line \<equiv> dec_from 0 line"

lemma dec_from_simps [simp]:
  "dec_from v [] = v"
  "dec_from v (c # line) = dec_from (v * 10 + digit_val c) line"
  "dec_from v (xs @ ys) = dec_from (dec_from v xs) ys"
  by (simp_all add: dec_from_def)

lemma is_digit_iff: "is_digit c \<longleftrightarrow> \<not> (c < 0x30 \<or> c > 0x39)"
  by (auto simp: is_digit_def not_less)

lemma is_digit_bounds: "is_digit c \<Longrightarrow> 0 \<le> digit_val c \<and> digit_val c \<le> 9"
  by (simp add: is_digit_def digit_val_def word_le_def)

lemma dec_from_ge: "0 \<le> v \<Longrightarrow> list_all is_digit line \<Longrightarrow> v \<le> dec_from v line"
proof (induction line arbitrary: v)
  case Nil
  then show ?case by simp
next
  case (Cons c line)
  then have d: "0 \<le> digit_val c" using is_digit_bounds by auto
  then have "v * 10 + digit_val c \<le> dec_from (v * 10 + digit_val c) line"
    using Cons by auto
  then show ?case using d Cons.prems(1) by simp
qed

lemma cutoff_iff:
  fixes v d m :: int
  assumes "0 \<le> d" "d \<le> 9"
  shows "(v \<ge> m div 10 \<and> (v > m div 10 \<or> d > m mod 10)) \<longleftrightarrow> v * 10 + d > m"
proof -
  have "m = 10 * (m div 10) + m mod 10" by simp
  moreover have "0 \<le> m mod 10" "m mod 10 < 10" by simp_all
  ultimately show ?thesis using assms by (smt (verit))
qed

lemma ngx_ato_loop_eq:
  "0 \<le> v \<Longrightarrow> v \<le> m \<Longrightarrow>
   ngx_ato_loop (m div 10) (m mod 10) line v =
     (if list_all is_digit line \<and> dec_from v line \<le> m then Some (dec_from v line) else None)"
proof (induction line arbitrary: v)
  case Nil
  then show ?case by simp
next
  case (Cons c line)
  show ?case
  proof (cases "is_digit c")
    case False
    then show ?thesis by (auto simp: is_digit_iff)
  next
    case True
    note d = is_digit_bounds [OF True]
    have nd: "\<not> (c < 0x30 \<or> c > 0x39)" using True by (simp add: is_digit_iff)
    show ?thesis
    proof (cases "v * 10 + digit_val c > m")
      case over: True
      have "\<not> (list_all is_digit line \<and> dec_from (v * 10 + digit_val c) line \<le> m)"
        using dec_from_ge [of "v * 10 + digit_val c" line] over d Cons.prems by auto
      with over nd True show ?thesis by (auto simp: cutoff_iff d)
    next
      case False
      with nd True Cons.IH [of "v * 10 + digit_val c"] Cons.prems d show ?thesis
        by (simp add: cutoff_iff d)
    qed
  qed
qed

lemma ngx_ato_spec:
  assumes "0 \<le> m"
  shows "(if length line = 0 then None else ngx_ato_loop (m div 10) (m mod 10) line 0) =
    (if line \<noteq> [] \<and> list_all is_digit line \<and> dec_value line \<le> m
     then Some (dec_value line) else None)"
  using ngx_ato_loop_eq [of 0 m line] assms by simp

lemma ngx_atosz_eq:
  "ngx_atosz line = (if line \<noteq> [] \<and> list_all is_digit line \<and> dec_value line \<le> NGX_MAX_SIZE_T_VALUE
     then Some (dec_value line) else None)"
  unfolding ngx_atosz_def by (rule ngx_ato_spec) (simp add: max_defs)

lemma ngx_atoof_eq:
  "ngx_atoof line = (if line \<noteq> [] \<and> list_all is_digit line \<and> dec_value line \<le> NGX_MAX_OFF_T_VALUE
     then Some (dec_value line) else None)"
  unfolding ngx_atoof_def by (rule ngx_ato_spec) (simp add: max_defs)

lemma ngx_atotm_eq:
  "ngx_atotm line = (if line \<noteq> [] \<and> list_all is_digit line \<and> dec_value line \<le> NGX_MAX_TIME_T_VALUE
     then Some (dec_value line) else None)"
  unfolding ngx_atotm_def by (rule ngx_ato_spec) (simp add: max_defs)

lemma ngx_atoi_eq:
  "ngx_atoi line = (if line \<noteq> [] \<and> list_all is_digit line \<and> dec_value line \<le> NGX_MAX_INT_T_VALUE
     then Some (dec_value line) else None)"
  unfolding ngx_atoi_def by (rule ngx_ato_spec) (simp add: max_defs)

lemma dec_value_nonneg: "list_all is_digit line \<Longrightarrow> 0 \<le> dec_value line"
  using dec_from_ge [of 0 line] by simp

section \<open>The fixed-point reader\<close>

lemma is_digit_not_point: "is_digit c \<Longrightarrow> c \<noteq> 0x2e"
  by (auto simp: is_digit_def)

lemma atofp_loop_int:
  "0 \<le> v \<Longrightarrow> v \<le> m \<Longrightarrow> 0 < point \<Longrightarrow> list_all is_digit ip \<Longrightarrow>
   ngx_atofp_loop (m div 10) (m mod 10) (ip @ rest) v 0 point =
     (if dec_from v ip \<le> m then ngx_atofp_loop (m div 10) (m mod 10) rest (dec_from v ip) 0 point
      else None)"
proof (induction ip arbitrary: v)
  case Nil
  then show ?case by simp
next
  case (Cons c ip)
  note d = is_digit_bounds [of c]
  have nd: "\<not> (c < 0x30 \<or> c > 0x39)" "c \<noteq> 0x2e" "0 \<le> digit_val c" "digit_val c \<le> 9"
    using Cons.prems d by (auto simp: is_digit_iff is_digit_not_point)
  show ?case
  proof (cases "v * 10 + digit_val c > m")
    case over: True
    have "v * 10 + digit_val c \<le> dec_from (v * 10 + digit_val c) ip"
      by (rule dec_from_ge) (use nd Cons.prems in auto)
    with over nd Cons.prems show ?thesis by (simp add: cutoff_iff)
  next
    case False
    with nd Cons.IH [of "v * 10 + digit_val c"] Cons.prems show ?thesis
      by (simp add: cutoff_iff)
  qed
qed

lemma atofp_loop_frac:
  "0 \<le> v \<Longrightarrow> v \<le> m \<Longrightarrow> list_all is_digit fp \<Longrightarrow>
   ngx_atofp_loop (m div 10) (m mod 10) fp v 1 point =
     (if length fp \<le> point \<and> dec_from v fp \<le> m
      then Some (dec_from v fp, point - length fp) else None)"
proof (induction fp arbitrary: v point)
  case Nil
  then show ?case by simp
next
  case (Cons c fp)
  note d = is_digit_bounds [of c]
  have nd: "\<not> (c < 0x30 \<or> c > 0x39)" "c \<noteq> 0x2e" "0 \<le> digit_val c" "digit_val c \<le> 9"
    using Cons.prems d by (auto simp: is_digit_iff is_digit_not_point)
  show ?case
  proof (cases "v * 10 + digit_val c > m")
    case over: True
    have "v * 10 + digit_val c \<le> dec_from (v * 10 + digit_val c) fp"
      by (rule dec_from_ge) (use nd Cons.prems in auto)
    with over nd Cons.prems show ?thesis by (simp add: cutoff_iff)
  next
    case False
    with nd Cons.IH [of "v * 10 + digit_val c" "point - 1"] Cons.prems show ?thesis
      by (cases point) (simp_all add: cutoff_iff)
  qed
qed

lemma atofp_scale_eq:
  "0 \<le> v \<Longrightarrow> v \<le> m \<Longrightarrow>
   ngx_atofp_scale (m div 10) v point = (if v * 10 ^ point \<le> m then Some (v * 10 ^ point) else None)"
proof (induction point arbitrary: v)
  case 0
  then show ?case by simp
next
  case (Suc point)
  show ?case
  proof (cases "v > m div 10")
    case True
    then have "m < v * 10" by linarith
    also have "v * 10 \<le> v * 10 * 10 ^ point" using Suc.prems by (simp add: mult_le_cancel_left1)
    finally show ?thesis using True by (simp add: mult.assoc)
  next
    case False
    then have "v * 10 \<le> m" by linarith
    then show ?thesis using False Suc.IH [of "v * 10"] Suc.prems by (simp add: mult.assoc)
  qed
qed


lemma ngx_atofp_int:
  assumes "ip \<noteq> []" "list_all is_digit ip" "0 < point"
  shows "ngx_atofp ip point =
    (if dec_value ip * 10 ^ point \<le> NGX_MAX_INT_T_VALUE
     then Some (dec_value ip * 10 ^ point) else None)"
proof -
  let ?m = NGX_MAX_INT_T_VALUE
  have m: "0 \<le> ?m" by (simp add: max_defs)
  have nn: "0 \<le> dec_value ip" using assms(2) by (rule dec_value_nonneg)
  then have le: "dec_value ip \<le> dec_value ip * 10 ^ point" by (simp add: mult_le_cancel_left1)
  show ?thesis
    using assms m nn le atofp_loop_int [of 0 ?m point ip "[]"] atofp_scale_eq [of "dec_value ip" ?m point]
    by (simp add: ngx_atofp_def)
qed

lemma ngx_atofp_point:
  assumes "list_all is_digit ip" "list_all is_digit fp" "0 < point"
  shows "ngx_atofp (ip @ 0x2e # fp) point =
    (if length fp \<le> point
        \<and> dec_value (ip @ fp) * 10 ^ (point - length fp) \<le> NGX_MAX_INT_T_VALUE
     then Some (dec_value (ip @ fp) * 10 ^ (point - length fp)) else None)"
proof -
  let ?m = NGX_MAX_INT_T_VALUE and ?i = "dec_value ip" and ?v = "dec_value (ip @ fp)"
  have m: "0 \<le> ?m" by (simp add: max_defs)
  have i: "0 \<le> ?i" using assms(1) by (rule dec_value_nonneg)
  have iv: "?i \<le> ?v" using dec_from_ge [OF i assms(2)] by simp
  have le: "?v \<le> ?v * 10 ^ (point - length fp)" using i iv by (simp add: mult_le_cancel_left1)
  have loop: "ngx_atofp_loop (?m div 10) (?m mod 10) (ip @ 0x2e # fp) 0 0 point =
    (if ?i \<le> ?m then ngx_atofp_loop (?m div 10) (?m mod 10) fp ?i 1 point else None)"
    using atofp_loop_int [of 0 ?m point ip "0x2e # fp"] assms m by simp
  show ?thesis
  proof (cases "?i \<le> ?m \<and> length fp \<le> point \<and> ?v \<le> ?m")
    case True
    then have "ngx_atofp_loop (?m div 10) (?m mod 10) (ip @ 0x2e # fp) 0 0 point =
      Some (?v, point - length fp)"
      using loop atofp_loop_frac [OF i _ assms(2), of ?m point] by simp
    then show ?thesis
      using True i iv atofp_scale_eq [of ?v ?m "point - length fp"] by (simp add: ngx_atofp_def)
  next
    case False
    then have "ngx_atofp_loop (?m div 10) (?m mod 10) (ip @ 0x2e # fp) 0 0 point = None"
      using loop atofp_loop_frac [OF i _ assms(2), of ?m point] by auto
    moreover have "\<not> (length fp \<le> point \<and> ?v * 10 ^ (point - length fp) \<le> ?m)"
      using False iv le by auto
    ultimately show ?thesis by (simp add: ngx_atofp_def)
  qed
qed

section \<open>The hexadecimal reader\<close>

definition is_hex :: "u_char \<Rightarrow> bool" where
  "is_hex c \<longleftrightarrow> is_digit c \<or> (0x61 \<le> c OR 0x20 \<and> c OR 0x20 \<le> 0x66)"

definition hex_val :: "u_char \<Rightarrow> int" where
  "hex_val c = (if is_digit c then uint c - 0x30 else uint (c OR 0x20) - 0x57)"

definition hex_from :: "int \<Rightarrow> bytes \<Rightarrow> int" where
  "hex_from v line = foldl (\<lambda>v c. v * 16 + hex_val c) v line"

abbreviation hex_value :: "bytes \<Rightarrow> int" where
  "hex_value line \<equiv> hex_from 0 line"

lemma hex_from_simps [simp]:
  "hex_from v [] = v"
  "hex_from v (c # line) = hex_from (v * 16 + hex_val c) line"
  "hex_from v (xs @ ys) = hex_from (hex_from v xs) ys"
  by (simp_all add: hex_from_def)

lemma is_hex_bounds: "is_hex c \<Longrightarrow> 0 \<le> hex_val c \<and> hex_val c \<le> 15"
  by (auto simp: is_hex_def hex_val_def is_digit_def word_le_def)

lemma hex_from_ge: "0 \<le> v \<Longrightarrow> list_all is_hex line \<Longrightarrow> v \<le> hex_from v line"
proof (induction line arbitrary: v)
  case Nil
  then show ?case by simp
next
  case (Cons c line)
  then have d: "0 \<le> hex_val c" using is_hex_bounds by auto
  then have "v * 16 + hex_val c \<le> hex_from (v * 16 + hex_val c) line"
    using Cons by auto
  then show ?case using d Cons.prems(1) by simp
qed

lemma ngx_hextoi_loop_eq:
  "0 \<le> v \<Longrightarrow> v \<le> 16 * k + 15 \<Longrightarrow>
   ngx_hextoi_loop k line v =
     (if list_all is_hex line \<and> hex_from v line \<le> 16 * k + 15 then Some (hex_from v line) else None)"
proof (induction line arbitrary: v)
  case Nil
  then show ?case by simp
next
  case (Cons c line)
  have unfold: "ngx_hextoi_loop k (c # line) v =
    (if v > k \<or> \<not> is_hex c then None else ngx_hextoi_loop k line (v * 16 + hex_val c))"
    by (auto simp: is_hex_def hex_val_def is_digit_def Let_def)
  show ?case
  proof (cases "is_hex c")
    case False
    then show ?thesis unfolding unfold by auto
  next
    case True
    note d = is_hex_bounds [OF True]
    show ?thesis
    proof (cases "v > k")
      case over: True
      have "\<not> (list_all is_hex line \<and> hex_from (v * 16 + hex_val c) line \<le> 16 * k + 15)"
        using hex_from_ge [of "v * 16 + hex_val c" line] over d Cons.prems by auto
      with over show ?thesis unfolding unfold by auto
    next
      case False
      with True d Cons show ?thesis unfolding unfold by simp
    qed
  qed
qed

lemma ngx_hextoi_eq:
  "ngx_hextoi line = (if line \<noteq> [] \<and> list_all is_hex line \<and> hex_value line \<le> NGX_MAX_INT_T_VALUE
     then Some (hex_value line) else None)"
proof -
  have "NGX_MAX_INT_T_VALUE = 16 * (NGX_MAX_INT_T_VALUE div 16) + 15" by (simp add: max_defs)
  then show ?thesis
    using ngx_hextoi_loop_eq [of 0 "NGX_MAX_INT_T_VALUE div 16" line]
    by (simp add: ngx_hextoi_def max_defs)
qed

section \<open>The printer's digits\<close>

lemma digit_of_mod64:
  fixes w :: u64
  shows "is_digit (ucast (w mod 10) + 0x30)" "digit_val (ucast (w mod 10) + 0x30) = uint w mod 10"
proof -
  have m: "uint (w mod 10) = uint w mod 10" by (simp add: uint_mod)
  have b: "0 \<le> uint w mod 10" "uint w mod 10 < 10" by simp_all
  have u: "uint (ucast (w mod 10) :: u_char) = uint w mod 10"
    using b by (simp add: unsigned_ucast_eq m take_bit_int_eq_self)
  then have "uint (ucast (w mod 10) + 0x30 :: u_char) = uint w mod 10 + 0x30"
    using b by (subst uint_add_lem [THEN iffD1]) simp_all
  then show "is_digit (ucast (w mod 10) + 0x30)"
    "digit_val (ucast (w mod 10) + 0x30) = uint w mod 10"
    using b by (simp_all add: is_digit_def digit_val_def word_le_def)
qed

lemma sprintf_dec64_digits: "list_all is_digit p \<Longrightarrow> list_all is_digit (sprintf_dec64 w p)"
  by (induction w p rule: sprintf_dec64.induct)
    (simp add: sprintf_dec64.simps [of _ p for p] Let_def digit_of_mod64)

lemma sprintf_dec64_value: "dec_value (sprintf_dec64 w p) = dec_from (uint w) p"
proof (induction w p rule: sprintf_dec64.induct)
  case (1 w p)
  have d: "uint (w div 10) = uint w div 10" by (simp add: uint_div)
  show ?case
  proof (cases "w div 10 = 0")
    case True
    then have "uint w div 10 = 0" using d by simp
    then have "uint w mod 10 = uint w" by presburger
    then show ?thesis using True
      by (simp add: sprintf_dec64.simps [of w p] Let_def digit_of_mod64)
  next
    case False
    then have "dec_value (sprintf_dec64 w p) =
        dec_from (uint w div 10) ((ucast (w mod 10) + 0x30) # p)"
      using 1 by (simp add: sprintf_dec64.simps [of w p] Let_def d)
    also have "\<dots> = dec_from (uint w) p" by (simp add: digit_of_mod64)
    finally show ?thesis .
  qed
qed

lemma sprintf_dec64_length:
  "uint w < 10 ^ Suc k \<Longrightarrow> length (sprintf_dec64 w p) \<le> length p + Suc k"
proof (induction k arbitrary: w p)
  case 0
  then have "w div 10 = 0" by (simp add: uint_div flip: uint_0_iff)
  then show ?case by (simp add: sprintf_dec64.simps [of w p] Let_def)
next
  case (Suc k)
  then have "uint (w div 10) < 10 ^ Suc k" by (simp add: uint_div)
  from Suc.IH [OF this, of "(ucast (w mod 10) + 0x30) # p"] show ?case
    by (simp add: sprintf_dec64.simps [of w p] Let_def)
qed

text \<open>The 32-bit loop prints what the 64-bit loop prints.\<close>

lemma uint_ucast_32_64 [simp]: "uint (ucast (u :: u32) :: u64) = uint u"
proof -
  have "uint u < 2 ^ 64" using uint_bounded [of u] by simp
  then show ?thesis by (simp add: unsigned_ucast_eq take_bit_int_eq_self)
qed

lemma sprintf_dec32_64: "sprintf_dec32 u p = sprintf_dec64 (ucast u) p"
proof (induction u p rule: sprintf_dec32.induct)
  case (1 u p)
  have q: "(ucast u :: u64) div 10 = ucast (u div 10)"
    by (simp add: word_uint_eq_iff uint_div)
  have z: "(ucast (u div 10) = (0 :: u64)) = (u div 10 = 0)"
    by (simp add: word_uint_eq_iff)
  have r: "(ucast ((ucast u :: u64) mod 10) :: u_char) = ucast (u mod 10)"
  proof -
    have "(ucast u :: u64) mod 10 = ucast (u mod 10)"
      by (simp add: word_uint_eq_iff uint_mod)
    then show ?thesis
      by (intro bit_word_eqI) (simp add: bit_simps)
  qed
  show ?case
    using 1 by (simp add: sprintf_dec32.simps [of u p] sprintf_dec64.simps [of "ucast u" p]
        Let_def q z r)
qed

lemma ucast_ucast_u32:
  assumes "w \<le> 0xffffffff"
  shows "ucast (ucast (w :: u64) :: u32) = w"
proof -
  have "uint w < 2 ^ 32" using assms by (simp add: word_le_def)
  then have "uint (ucast w :: u32) = uint w"
    by (simp add: unsigned_ucast_eq take_bit_int_eq_self)
  then show ?thesis by (simp add: word_uint_eq_iff)
qed

lemma hex_digit_char:
  assumes "i < 16"
  shows "is_hex (hex_digits ! i) \<and> hex_val (hex_digits ! i) = int i"
    and "is_hex (HEX_digits ! i) \<and> hex_val (HEX_digits ! i) = int i"
proof -
  let ?P = "\<lambda>hex i. is_hex (hex ! i) \<and> hex_val (hex ! i) = int i"
  have "list_all (?P hex_digits) [0..<16]" "list_all (?P HEX_digits) [0..<16]"
    by (simp_all add: upt_rec hex_digits_def HEX_digits_def is_hex_def is_digit_def hex_val_def)
  with assms show "?P hex_digits i" "?P HEX_digits i"
    by (simp_all add: list_all_iff)
qed

lemma and_0xf_64: "(w :: u64) AND 0xf = w mod 16"
  using take_bit_eq_mask [of 4 w] take_bit_eq_mod [of 4 w]
  by (simp add: mask_eq_exp_minus_1)

lemma sprintf_hex_step:
  assumes "\<And>i. i < 16 \<Longrightarrow> is_hex (hex ! i) \<and> hex_val (hex ! i) = int i"
  shows "is_hex (hex ! unat ((w :: u64) AND 0xf)) \<and>
    hex_val (hex ! unat (w AND 0xf)) = uint w mod 16"
proof -
  have "unat (w AND 0xf) < 16" "int (unat (w AND 0xf)) = uint w mod 16"
    by (simp_all add: and_0xf_64 unat_mod uint_mod zmod_int)
  then show ?thesis using assms [of "unat (w AND 0xf)"] by simp
qed

lemma sprintf_hex_value:
  assumes hex: "\<And>i. i < 16 \<Longrightarrow> is_hex (hex ! i) \<and> hex_val (hex ! i) = int i"
    and "list_all is_hex p"
  shows "list_all is_hex (sprintf_hex hex w p) \<and>
    hex_value (sprintf_hex hex w p) = hex_from (uint w) p"
  using assms
proof (induction hex w p rule: sprintf_hex.induct)
  case (1 hex w p)
  note step = sprintf_hex_step [OF "1.prems"(1), of w]
  have d: "uint (drop_bit 4 w) = uint w div 16"
    by (simp add: drop_bit_eq_div uint_div)
  show ?case
  proof (cases "drop_bit 4 w = 0")
    case True
    then have "uint w div 16 = 0" using d by simp
    then have "uint w mod 16 = uint w" by presburger
    then show ?thesis using True "1.prems" step
      by (simp add: sprintf_hex.simps [of hex w p] Let_def)
  next
    case False
    then have "sprintf_hex hex w p =
        sprintf_hex hex (drop_bit 4 w) ((hex ! unat (w AND 0xf)) # p)"
      by (simp add: sprintf_hex.simps [of hex w p] Let_def)
    moreover have "list_all is_hex (sprintf_hex hex (drop_bit 4 w) ((hex ! unat (w AND 0xf)) # p)) \<and>
        hex_value (sprintf_hex hex (drop_bit 4 w) ((hex ! unat (w AND 0xf)) # p)) =
        hex_from (uint (drop_bit 4 w)) ((hex ! unat (w AND 0xf)) # p)"
      by (rule "1.IH" [OF refl refl False "1.prems"(1)]) (use "1.prems" step in auto)
    ultimately show ?thesis using step d by simp
  qed
qed

lemma sprintf_pad_eq: "sprintf_pad room zero width len = replicate (min room (width - len)) zero"
proof (induction room arbitrary: len)
  case 0
  then show ?case by simp
next
  case (Suc room)
  show ?case
  proof (cases "len < width")
    case True
    then obtain k where "width = Suc (len + k)" by (auto simp: less_iff_Suc_add)
    then show ?thesis using Suc by simp
  qed simp
qed

lemma ngx_sprintf_num_dec:
  "ngx_sprintf_num room v zero 0 width =
     (let p = sprintf_dec64 v []; pad = replicate (min room (width - length p)) zero
      in pad @ take (room - length pad) p)"
  by (simp add: ngx_sprintf_num_def sprintf_pad_eq sprintf_dec32_64 ucast_ucast_u32 Let_def)

lemma sprintf_dec64_nonempty: "sprintf_dec64 w p \<noteq> []"
  by (induction w p rule: sprintf_dec64.induct)
    (simp add: sprintf_dec64.simps [of _ p for p] Let_def)

lemma sprintf_dec64_fits: "length (sprintf_dec64 w []) \<le> 20"
  using sprintf_dec64_length [of w 19 "[]"] uint_bounded [of w] by simp

lemma dec_from_zeros [simp]: "dec_from 0 (replicate n 0x30) = 0"
  by (induction n) (simp_all add: digit_val_def)

lemma is_digit_zeros [simp]: "list_all is_digit (replicate n 0x30)"
  by (induction n) (simp_all add: is_digit_def)

text \<open>
  Printing and reading decimal numbers are inverse: what \<open>ngx_sprintf_num\<close> prints for a
  number below 2^63, zero-padded to any width, is read back by \<open>ngx_atoi\<close> as that number,
  when the buffer has room for the number and the padding.
\<close>

theorem sprintf_num_atoi_roundtrip:
  assumes "uint v \<le> NGX_MAX_INT_T_VALUE" and "20 \<le> room" and "width \<le> room"
  shows "ngx_atoi (ngx_sprintf_num room v 0x30 0 width) = Some (uint v)"
proof -
  let ?p = "sprintf_dec64 v []"
  let ?n = "min room (width - length ?p)"
  have "length ?p \<le> room - ?n" using sprintf_dec64_fits [of v] assms by auto
  then have "ngx_sprintf_num room v 0x30 0 width = replicate ?n 0x30 @ ?p"
    by (simp add: ngx_sprintf_num_dec Let_def)
  moreover have "list_all is_digit (replicate ?n 0x30 @ ?p)"
    by (simp add: sprintf_dec64_digits)
  moreover have "dec_value (replicate ?n 0x30 @ ?p) = uint v"
    by (simp add: sprintf_dec64_value)
  ultimately show ?thesis
    using assms by (simp add: ngx_atoi_eq sprintf_dec64_nonempty)
qed


theorem sprintf_num_atoi_roundtrip_witness:
  "ngx_atoi (ngx_sprintf_num 25 1024 0x30 0 8) = Some 1024"
  using sprintf_num_atoi_roundtrip [of 1024 25 8] by (simp add: max_defs)

text \<open>
  The bytes \<open>ngx_sprintf_num\<close> writes, padding included, never pass the end of the
  buffer, in any of its three number formats.
\<close>

theorem sprintf_num_room: "length (ngx_sprintf_num room v zero hexadecimal width) \<le> room"
  by (simp add: ngx_sprintf_num_def sprintf_pad_eq Let_def)

lemma sprintf_hex_nonempty: "sprintf_hex hex w p \<noteq> []"
  by (induction hex w p rule: sprintf_hex.induct)
    (simp add: sprintf_hex.simps [of _ _ p for p] Let_def)

lemma sprintf_hex_length:
  "uint w < 16 ^ Suc k \<Longrightarrow> length (sprintf_hex hex w p) \<le> length p + Suc k"
proof (induction k arbitrary: w p)
  case 0
  then have "drop_bit 4 w = 0" by (simp add: drop_bit_eq_div uint_div flip: uint_0_iff)
  then show ?case by (simp add: sprintf_hex.simps [of hex w p] Let_def)
next
  case (Suc k)
  then have "uint (drop_bit 4 w) < 16 ^ Suc k" by (simp add: drop_bit_eq_div uint_div)
  from Suc.IH [OF this, of "(hex ! unat (w AND 0xf)) # p"] show ?case
    by (simp add: sprintf_hex.simps [of hex w p] Let_def)
qed

lemma sprintf_hex_fits: "length (sprintf_hex hex w []) \<le> 16"
  using sprintf_hex_length [of w 15 hex "[]"] uint_bounded [of w] by simp

text \<open>
  Hexadecimal printing, in lower or upper case, is read back by \<open>ngx_hextoi\<close>.
\<close>

theorem sprintf_num_hextoi_roundtrip:
  assumes "uint v \<le> NGX_MAX_INT_T_VALUE" and "16 \<le> room" and "hexadecimal \<noteq> 0"
  shows "ngx_hextoi (ngx_sprintf_num room v zero hexadecimal 0) = Some (uint v)"
proof -
  let ?hex = "if hexadecimal = 1 then hex_digits else HEX_digits"
  let ?p = "sprintf_hex ?hex v []"
  have hex: "is_hex (?hex ! i) \<and> hex_val (?hex ! i) = int i" if "i < 16" for i
    using hex_digit_char [OF that] by simp
  have "ngx_sprintf_num room v zero hexadecimal 0 = ?p"
    using assms sprintf_hex_fits [of ?hex v]
    by (simp add: ngx_sprintf_num_def sprintf_pad_eq Let_def split: if_splits)
  moreover have "list_all is_hex ?p \<and> hex_value ?p = uint v"
    using sprintf_hex_value [of ?hex "[]" v] hex by simp
  ultimately show ?thesis
    using assms by (simp add: ngx_hextoi_eq sprintf_hex_nonempty)
qed

theorem sprintf_num_hextoi_roundtrip_witness:
  "ngx_hextoi (ngx_sprintf_num 16 0xbeef 0x20 2 0) = Some 0xbeef"
  using sprintf_num_hextoi_roundtrip [of "0xbeef" 16 2 "0x20"] by (simp add: max_defs)

section \<open>Sizes and offsets\<close>

lemma div_scale_iff:
  fixes v m k :: int
  assumes "0 < k"
  shows "v > m div k \<longleftrightarrow> v * k > m"
proof -
  have e: "m = m div k * k + m mod k" by simp
  have b: "m mod k < k" "0 \<le> m mod k" using assms by simp_all
  have d: "(m div k + 1) * k = m div k * k + k" by (simp add: algebra_simps)
  show ?thesis
  proof
    assume "v > m div k"
    then have "(m div k + 1) * k \<le> v * k" using assms by (intro mult_right_mono) auto
    with d e b show "v * k > m" by linarith
  next
    assume gt: "v * k > m"
    show "v > m div k"
    proof (rule ccontr)
      assume "\<not> v > m div k"
      then have "v * k \<le> m div k * k" using assms by (intro mult_right_mono) auto
      with e b gt show False by linarith
    qed
  qed
qed

definition size_suffix :: "bytes \<Rightarrow> int \<Rightarrow> bool" where
  "size_suffix unit k \<longleftrightarrow> (unit, k) \<in> {([], 1), ([0x4b], 1024), ([0x6b], 1024),
     ([0x4d], 1024 * 1024), ([0x6d], 1024 * 1024)}"

definition offset_suffix :: "bytes \<Rightarrow> int \<Rightarrow> bool" where
  "offset_suffix unit k \<longleftrightarrow> size_suffix unit k \<or>
     (unit, k) \<in> {([0x47], 1024 * 1024 * 1024), ([0x67], 1024 * 1024 * 1024)}"

lemma last_digit_unit:
  assumes "ds \<noteq> []" "list_all is_digit ds"
  shows "is_digit (last ds)"
  using assms by (metis last_in_set list_all_iff)


lemma digit_not_unit:
  "is_digit c \<Longrightarrow> c \<noteq> 0x4b \<and> c \<noteq> 0x6b \<and> c \<noteq> 0x4d \<and> c \<noteq> 0x6d \<and> c \<noteq> 0x47 \<and> c \<noteq> 0x67"
  by (auto simp: is_digit_def)

text \<open>What both readers do with the digits \<open>ds\<close> before a suffix of scale \<open>k\<close>.\<close>

definition scaled :: "int \<Rightarrow> bytes \<Rightarrow> int \<Rightarrow> int option" where
  "scaled m ds k =
     (if ds \<noteq> [] \<and> list_all is_digit ds \<and> dec_value ds * k \<le> m
      then Some (dec_value ds * k) else None)"

lemma scaled_eq:
  assumes "1 \<le> k"
    and "ato = (if ds \<noteq> [] \<and> list_all is_digit ds \<and> dec_value ds \<le> m
                then Some (dec_value ds) else None)"
  shows "(case ato of None \<Rightarrow> None | Some v \<Rightarrow> if v > m div k then None else Some (v * k)) =
    scaled m ds k"
proof -
  have "dec_value ds \<le> dec_value ds * k" if "list_all is_digit ds"
    using dec_value_nonneg [OF that] assms(1) by (simp add: mult_le_cancel_left1)
  then show ?thesis using assms by (auto simp: scaled_def div_scale_iff not_less)
qed

lemma scaled_one:
  assumes "ato = (if ds \<noteq> [] \<and> list_all is_digit ds \<and> dec_value ds \<le> m
                then Some (dec_value ds) else None)"
  shows "(case ato of None \<Rightarrow> None | Some v \<Rightarrow> if m < v then None else Some (v * 1)) =
    scaled m ds 1"
  using scaled_eq [of 1, OF _ assms] by (simp cong: option.case_cong)

lemma ngx_parse_size_suffix:
  assumes "line \<noteq> []"
  obtains ds unit k where "line = ds @ unit" "size_suffix unit k"
    "ngx_parse_size line = scaled NGX_MAX_SIZE_T_VALUE ds k"
proof -
  have split: "line = butlast line @ [last line]" using assms by simp
  note sc = scaled_eq [OF _ ngx_atosz_eq]
  consider "last line = 0x4b \<or> last line = 0x6b" | "last line = 0x4d \<or> last line = 0x6d"
    | "last line \<notin> {0x4b, 0x6b, 0x4d, 0x6d}" by auto
  then show thesis
  proof cases
    case 1
    show thesis
      by (rule that [OF split, of 1024])
        (use 1 assms in \<open>auto simp: size_suffix_def ngx_parse_size_def sc\<close>)
  next
    case 2
    show thesis
      by (rule that [OF split, of "1024 * 1024"])
        (use 2 assms in \<open>auto simp: size_suffix_def ngx_parse_size_def sc\<close>)
  next
    case 3
    show thesis
      by (rule that [of line "[]" 1])
        (use 3 assms scaled_one [OF ngx_atosz_eq] in \<open>auto simp: size_suffix_def ngx_parse_size_def\<close>)
  qed
qed

lemma ngx_parse_size_scaled:
  assumes "ds \<noteq> []" "list_all is_digit ds" "size_suffix unit k"
  shows "ngx_parse_size (ds @ unit) = scaled NGX_MAX_SIZE_T_VALUE ds k"
  using assms digit_not_unit [OF last_digit_unit [OF assms(1,2)]]
    scaled_eq [OF _ ngx_atosz_eq, of k] scaled_one [OF ngx_atosz_eq]
  by (auto simp: ngx_parse_size_def size_suffix_def)

text \<open>
  \<open>ngx_parse_size\<close> accepts exactly the digit strings with an optional \<open>K\<close>/\<open>k\<close> or
  \<open>M\<close>/\<open>m\<close> suffix whose scaled value fits a \<open>ssize_t\<close>, and returns that value.
\<close>

theorem ngx_parse_size_iff:
  "ngx_parse_size line = Some n \<longleftrightarrow>
     (\<exists>ds unit k. line = ds @ unit \<and> size_suffix unit k \<and> ds \<noteq> [] \<and> list_all is_digit ds
        \<and> n = dec_value ds * k \<and> n \<le> NGX_MAX_SIZE_T_VALUE)"
  (is "?L \<longleftrightarrow> ?R")
proof
  assume L: ?L
  then have "line \<noteq> []" by (auto simp: ngx_parse_size_def)
  from ngx_parse_size_suffix [OF this] L show ?R
    by (metis scaled_def option.distinct(1) option.inject)
next
  assume ?R
  then show ?L by (auto simp: ngx_parse_size_scaled scaled_def)
qed

lemma ngx_parse_offset_suffix:
  assumes "line \<noteq> []"
  obtains ds unit k where "line = ds @ unit" "offset_suffix unit k"
    "ngx_parse_offset line = scaled NGX_MAX_OFF_T_VALUE ds k"
proof -
  have split: "line = butlast line @ [last line]" using assms by simp
  note sc = scaled_eq [OF _ ngx_atoof_eq]
  consider "last line = 0x4b \<or> last line = 0x6b" | "last line = 0x4d \<or> last line = 0x6d"
    | "last line = 0x47 \<or> last line = 0x67"
    | "last line \<notin> {0x4b, 0x6b, 0x4d, 0x6d, 0x47, 0x67}" by auto
  then show thesis
  proof cases
    case 1
    show thesis
      by (rule that [OF split, of 1024])
        (use 1 assms in \<open>auto simp: offset_suffix_def size_suffix_def ngx_parse_offset_def sc\<close>)
  next
    case 2
    show thesis
      by (rule that [OF split, of "1024 * 1024"])
        (use 2 assms in \<open>auto simp: offset_suffix_def size_suffix_def ngx_parse_offset_def sc\<close>)
  next
    case 3
    show thesis
      by (rule that [OF split, of "1024 * 1024 * 1024"])
        (use 3 assms in \<open>auto simp: offset_suffix_def size_suffix_def ngx_parse_offset_def sc\<close>)
  next
    case 4
    show thesis
      by (rule that [of line "[]" 1])
        (use 4 assms scaled_one [OF ngx_atoof_eq] in
          \<open>auto simp: offset_suffix_def size_suffix_def ngx_parse_offset_def\<close>)
  qed
qed

lemma ngx_parse_offset_scaled:
  assumes "ds \<noteq> []" "list_all is_digit ds" "offset_suffix unit k"
  shows "ngx_parse_offset (ds @ unit) = scaled NGX_MAX_OFF_T_VALUE ds k"
  using assms digit_not_unit [OF last_digit_unit [OF assms(1,2)]]
    scaled_eq [OF _ ngx_atoof_eq, of k] scaled_one [OF ngx_atoof_eq]
  by (auto simp: ngx_parse_offset_def offset_suffix_def size_suffix_def)

lemma ngx_parse_offset_iff:
  "ngx_parse_offset line = Some n \<longleftrightarrow>
     (\<exists>ds unit k. line = ds @ unit \<and> offset_suffix unit k \<and> ds \<noteq> [] \<and> list_all is_digit ds
        \<and> n = dec_value ds * k \<and> n \<le> NGX_MAX_OFF_T_VALUE)"
  (is "?L \<longleftrightarrow> ?R")
proof
  assume L: ?L
  then have "line \<noteq> []" by (auto simp: ngx_parse_offset_def)
  from ngx_parse_offset_suffix [OF this] L show ?R
    by (metis scaled_def option.distinct(1) option.inject)
next
  assume ?R
  then show ?L by (auto simp: ngx_parse_offset_scaled scaled_def)
qed

section \<open>Times\<close>

text \<open>
  A time is written as numbers with units, in strictly decreasing order of the units, and
  an optional number of seconds at the end. \<open>render\<close> writes such a list; \<open>unit_scale\<close> is
  what one unit counts, in seconds or, for a time in milliseconds, in milliseconds.
\<close>

fun unit_text :: "time_step \<Rightarrow> bytes" where
  "unit_text st_year = str_bytes ''y''"
| "unit_text st_month = str_bytes ''M''"
| "unit_text st_week = str_bytes ''w''"
| "unit_text st_day = str_bytes ''d''"
| "unit_text st_hour = str_bytes ''h''"
| "unit_text st_min = str_bytes ''m''"
| "unit_text st_sec = str_bytes ''s''"
| "unit_text st_msec = str_bytes ''ms''"
| "unit_text _ = []"

fun unit_secs :: "time_step \<Rightarrow> int" where
  "unit_secs st_year = 31536000"
| "unit_secs st_month = 2592000"
| "unit_secs st_week = 604800"
| "unit_secs st_day = 86400"
| "unit_secs st_hour = 3600"
| "unit_secs st_min = 60"
| "unit_secs st_sec = 1"
| "unit_secs _ = 0"

definition unit_scale :: "bool \<Rightarrow> time_step \<Rightarrow> int" where
  "unit_scale is_sec u =
     (if is_sec then unit_secs u else if u = st_msec then 1 else 1000 * unit_secs u)"

definition unit_ok :: "bool \<Rightarrow> time_step \<Rightarrow> bool" where
  "unit_ok is_sec u \<longleftrightarrow>
     u \<noteq> st_start \<and> u \<noteq> st_last \<and> (if is_sec then u \<noteq> st_msec else u > st_month)"

definition render :: "(bytes \<times> time_step) list \<Rightarrow> bytes" where
  "render items = concat (map (\<lambda>(ds, u). ds @ unit_text u) items)"

definition items_value :: "bool \<Rightarrow> (bytes \<times> time_step) list \<Rightarrow> int" where
  "items_value is_sec items = sum_list (map (\<lambda>(ds, u). dec_value ds * unit_scale is_sec u) items)"

definition items_ok :: "bool \<Rightarrow> time_step \<Rightarrow> (bytes \<times> time_step) list \<Rightarrow> bool" where
  "items_ok is_sec step items \<longleftrightarrow>
     sorted_wrt (<) (step # map snd items) \<and>
     list_all (\<lambda>(ds, u). ds \<noteq> [] \<and> list_all is_digit ds \<and> unit_ok is_sec u) items"


lemma parse_time_digits:
  assumes "0 \<le> v" "v \<le> NGX_MAX_INT_T_VALUE" "list_all is_digit ds"
  shows "parse_time_loop (ds @ rest) is_sec step valid v tot =
    (if dec_from v ds \<le> NGX_MAX_INT_T_VALUE
     then parse_time_loop rest is_sec step (valid \<or> ds \<noteq> []) (dec_from v ds) tot else None)"
  using assms
proof (induction ds arbitrary: v valid)
  case Nil
  then show ?case by simp
next
  case (Cons c ds)
  let ?m = NGX_MAX_INT_T_VALUE
  have c: "0x30 \<le> c \<and> c \<le> 0x39" "0 \<le> digit_val c" "digit_val c \<le> 9"
    using Cons.prems is_digit_bounds [of c] by (auto simp: is_digit_def)
  show ?case
  proof (cases "v * 10 + digit_val c > ?m")
    case True
    have "\<not> dec_from (v * 10 + digit_val c) ds \<le> ?m"
      using dec_from_ge [of "v * 10 + digit_val c" ds] True c Cons.prems by auto
    with True c show ?thesis by (simp add: cutoff_iff)
  next
    case False
    with c Cons.prems Cons.IH [of "v * 10 + digit_val c" True] show ?thesis
      by (simp add: cutoff_iff)
  qed
qed

lemma parse_time_add_eq:
  assumes "0 \<le> tot" "tot \<le> NGX_MAX_INT_T_VALUE" "0 < k"
  shows "parse_time_add is_sec step (NGX_MAX_INT_T_VALUE div k) k v tot =
    (let s = (if step \<noteq> st_msec \<and> \<not> is_sec then k * 1000 else k)
     in if tot + v * s \<le> NGX_MAX_INT_T_VALUE then Some (tot + v * s) else None)"
proof -
  let ?m = NGX_MAX_INT_T_VALUE
  let ?s = "if step \<noteq> st_msec \<and> \<not> is_sec then k * 1000 else k"
  have "parse_time_add is_sec step (?m div k) k v tot =
    (if v > ?m div ?s then None else if tot > ?m - v * ?s then None else Some (tot + v * ?s))"
    by (auto simp: parse_time_add_def Let_def zdiv_zmult2_eq)
  also have "v > ?m div ?s \<longleftrightarrow> v * ?s > ?m" using assms by (intro div_scale_iff) auto
  finally show ?thesis using assms by (auto simp: Let_def)
qed

text \<open>One unit of a rendered time: the unit's step and scale, and the text after it.\<close>

lemma parse_time_unit_ok:
  assumes "unit_ok is_sec u" "step < u" "rest = [] \<or> hd rest \<noteq> 0x73"
  obtains c p k where "unit_text u @ rest = c # p" "\<not> (0x30 \<le> c \<and> c \<le> 0x39)" "0 < k"
    "parse_time_unit c p is_sec step = Some (u, NGX_MAX_INT_T_VALUE div k, k, rest)"
    "(if u \<noteq> st_msec \<and> \<not> is_sec then k * 1000 else k) = unit_scale is_sec u"
  using assms
  by (cases u; cases is_sec; cases rest) (simp_all add: parse_time_unit_def unit_ok_def unit_scale_def less_time_step_def
    less_eq_time_step_def)


lemma step_less_trans: "(a :: time_step) < b \<Longrightarrow> b < c \<Longrightarrow> a < c"
  by (rule less_trans)

lemma unit_scale_pos: "unit_ok is_sec u \<Longrightarrow> 0 < unit_scale is_sec u"
  by (cases u) (auto simp: unit_ok_def unit_scale_def less_time_step_def)

lemma items_value_simps [simp]:
  "items_value is_sec [] = 0"
  "items_value is_sec ((ds, u) # items) = dec_value ds * unit_scale is_sec u + items_value is_sec items"
  by (simp_all add: items_value_def)

lemma render_simps [simp]:
  "render [] = []"
  "render ((ds, u) # items) = ds @ unit_text u @ render items"
  by (simp_all add: render_def)

lemma items_ok_Cons:
  "items_ok is_sec step ((ds, u) # items) \<longleftrightarrow>
     step < u \<and> unit_ok is_sec u \<and> ds \<noteq> [] \<and> list_all is_digit ds \<and> items_ok is_sec u items"
  by (auto simp: items_ok_def intro: less_trans)

lemma items_value_nonneg: "items_ok is_sec step items \<Longrightarrow> 0 \<le> items_value is_sec items"
proof (induction items arbitrary: step)
  case Nil
  then show ?case by simp
next
  case (Cons i items)
  obtain ds u where i: "i = (ds, u)" by (cases i)
  show ?case
    using Cons.prems Cons.IH [of u] dec_value_nonneg [of ds] unit_scale_pos [of is_sec u]
    by (simp add: i items_ok_Cons)
qed

lemma render_head:
  assumes "items_ok is_sec step items" "list_all is_digit tl_ds"
  shows "render items @ tl_ds = [] \<or> is_digit (hd (render items @ tl_ds))"
proof (cases items)
  case Nil
  then show ?thesis using assms(2) by (cases tl_ds) auto
next
  case (Cons i items')
  obtain ds u where i: "i = (ds, u)" by (cases i)
  show ?thesis using assms(1) by (cases ds) (simp_all add: Cons i items_ok_Cons)
qed

lemma parse_time_items:
  assumes "items_ok is_sec step items" "list_all is_digit tl_ds" "0 \<le> tot" "tot \<le> NGX_MAX_INT_T_VALUE"
  shows "parse_time_loop (render items @ tl_ds) is_sec step valid 0 tot =
    (if tot + items_value is_sec items \<le> NGX_MAX_INT_T_VALUE \<and> dec_value tl_ds \<le> NGX_MAX_INT_T_VALUE
     then Some (valid \<or> items \<noteq> [] \<or> tl_ds \<noteq> [], dec_value tl_ds, tot + items_value is_sec items)
     else None)"
  using assms
proof (induction items arbitrary: step valid tot)
  case Nil
  then show ?case
    using parse_time_digits [of 0 tl_ds "[]" is_sec step valid tot] by (simp add: max_defs)
next
  case (Cons i items)
  let ?m = NGX_MAX_INT_T_VALUE
  obtain ds u where i: "i = (ds, u)" by (cases i)
  let ?rest = "render items @ tl_ds" and ?v = "dec_value ds" and ?s = "unit_scale is_sec u"
  have ok: "step < u" "unit_ok is_sec u" "ds \<noteq> []" "list_all is_digit ds" "items_ok is_sec u items"
    using Cons.prems(1) by (simp_all add: i items_ok_Cons)
  have v: "0 \<le> ?v" using ok(4) by (rule dec_value_nonneg)
  have s: "0 < ?s" using ok(2) by (rule unit_scale_pos)
  have vs: "?v \<le> ?v * ?s" using v s by (simp add: mult_le_cancel_left1)
  have iv: "0 \<le> items_value is_sec items" using ok(5) by (rule items_value_nonneg)
  have hd: "?rest = [] \<or> is_digit (hd ?rest)"
    using ok(5) Cons.prems(2) by (rule render_head)
  then have ns: "?rest = [] \<or> hd ?rest \<noteq> 0x73" by (auto simp: is_digit_def)
  have drop: "dropWhile (\<lambda>d. d = 0x20) ?rest = ?rest"
    using hd by (cases ?rest) (auto simp: is_digit_def)
  obtain c p k where u: "unit_text u @ ?rest = c # p" "\<not> (0x30 \<le> c \<and> c \<le> 0x39)" "0 < k"
    "parse_time_unit c p is_sec step = Some (u, ?m div k, k, ?rest)"
    "(if u \<noteq> st_msec \<and> \<not> is_sec then k * 1000 else k) = ?s"
    using parse_time_unit_ok [OF ok(2,1) ns] by metis
  have add: "parse_time_add is_sec u (?m div k) k ?v tot =
    (if tot + ?v * ?s \<le> ?m then Some (tot + ?v * ?s) else None)"
    using parse_time_add_eq [OF Cons.prems(3,4) u(3), of is_sec u ?v] u(5) by (simp add: Let_def)
  have "parse_time_loop (render (i # items) @ tl_ds) is_sec step valid 0 tot =
    (if ?v \<le> ?m then parse_time_loop (c # p) is_sec step True ?v tot else None)"
    using parse_time_digits [of 0 ds "unit_text u @ ?rest" is_sec step valid tot] ok u(1)
    by (simp add: i max_defs)
  also have "parse_time_loop (c # p) is_sec step True ?v tot =
    (if tot + ?v * ?s \<le> ?m then parse_time_loop ?rest is_sec u True 0 (tot + ?v * ?s) else None)"
    using u(2,4) add drop by auto
  finally show ?case
    using Cons.IH [of u "tot + ?v * ?s" True] Cons.prems ok v vs iv by (auto simp: i add.assoc)
qed

text \<open>
  \<open>ngx_parse_time\<close> reads every well-formed time, numbers with units in strictly
  decreasing order and then optional plain seconds, as the sum of its parts (in seconds,
  or in milliseconds), and refuses it when that sum does not fit an \<open>ngx_int_t\<close>.
\<close>

theorem ngx_parse_time_render:
  assumes "items_ok is_sec (if is_sec then st_start else st_month) items"
    and "list_all is_digit tl_ds" and "items \<noteq> [] \<or> tl_ds \<noteq> []"
  shows "ngx_parse_time (render items @ tl_ds) is_sec =
    (let t = items_value is_sec items + dec_value tl_ds * (if is_sec then 1 else 1000)
     in if t \<le> NGX_MAX_INT_T_VALUE then Some t else None)"
proof -
  let ?m = NGX_MAX_INT_T_VALUE and ?v = "dec_value tl_ds"
  have iv: "0 \<le> items_value is_sec items" using assms(1) by (rule items_value_nonneg)
  have v: "0 \<le> ?v" using assms(2) by (rule dec_value_nonneg)
  have q: "(?v > ?m div 1000) = (?v * 1000 > ?m)" by (rule div_scale_iff) simp
  show ?thesis
    using parse_time_items [OF assms(1,2), of 0 False] assms(3) iv v q
    by (auto simp: ngx_parse_time_def Let_def max_defs)
qed

theorem ngx_parse_time_render_witness:
  "ngx_parse_time (str_bytes ''1h30m500ms7'') False = Some 5407500"
  using ngx_parse_time_render [of False
    "[(str_bytes ''1'', st_hour), (str_bytes ''30'', st_min), (str_bytes ''500'', st_msec)]"
    "str_bytes ''7''"]
  by (simp add: items_ok_def unit_ok_def less_time_step_def is_digit_def digit_val_def
    unit_scale_def max_defs)

end
