(* ===== verification/Ngx_Encoding.thy ===== *)
theory Ngx_Encoding
  imports Prelude
begin

text \<open>
  The text encodings of \<open>core/ngx_string.c\<close>: hexadecimal dump, base64, UTF-8 decoding, URI
  escaping and unescaping, HTML and JSON escaping. A destination buffer is the list of the
  bytes written to it; a call with \<open>dst == NULL\<close>, which only counts, is a definition of its
  own.
\<close>

section \<open>Hexadecimal dump\<close>

definition hex_dump_digits :: bytes where "hex_dump_digits = str_bytes ''0123456789abcdef''"

fun ngx_hex_dump :: "bytes \<Rightarrow> bytes" where
  "ngx_hex_dump [] = []"
| "ngx_hex_dump (c # src) =
     hex_dump_digits ! unat (drop_bit 4 c) # hex_dump_digits ! unat (c AND 0xf) # ngx_hex_dump src"

section \<open>Base64\<close>

fun ngx_encode_base64_internal :: "bytes \<Rightarrow> bool \<Rightarrow> bytes \<Rightarrow> bytes" where
  "ngx_encode_base64_internal basis padding (s0 # s1 # s2 # s) =
     [basis ! unat (drop_bit 2 s0 AND 0x3f),
      basis ! unat (push_bit 4 (s0 AND 3) OR drop_bit 4 s1),
      basis ! unat (push_bit 2 (s1 AND 0x0f) OR drop_bit 6 s2),
      basis ! unat (s2 AND 0x3f)] @ ngx_encode_base64_internal basis padding s"
| "ngx_encode_base64_internal basis padding [s0, s1] =
     [basis ! unat (drop_bit 2 s0 AND 0x3f),
      basis ! unat (push_bit 4 (s0 AND 3) OR drop_bit 4 s1),
      basis ! unat (push_bit 2 (s1 AND 0x0f))] @ (if padding then [0x3d] else [])"
| "ngx_encode_base64_internal basis padding [s0] =
     [basis ! unat (drop_bit 2 s0 AND 0x3f),
      basis ! unat (push_bit 4 (s0 AND 3))] @
     (if padding then [0x3d] else []) @ (if padding then [0x3d] else [])"
| "ngx_encode_base64_internal basis padding [] = []"

definition basis64 :: bytes where
  "basis64 = str_bytes ''ABCDEFGHIJKLMNOPQRSTUVWXYZabcdefghijklmnopqrstuvwxyz0123456789+/''"

definition basis64url :: bytes where
  "basis64url = str_bytes ''ABCDEFGHIJKLMNOPQRSTUVWXYZabcdefghijklmnopqrstuvwxyz0123456789-_''"

definition ngx_encode_base64 :: "bytes \<Rightarrow> bytes" where
  "ngx_encode_base64 src = ngx_encode_base64_internal basis64 True src"

definition ngx_encode_base64url :: "bytes \<Rightarrow> bytes" where
  "ngx_encode_base64url src = ngx_encode_base64_internal basis64url False src"

definition ngx_base64_encoded_length :: "nat \<Rightarrow> nat" where
  "ngx_base64_encoded_length len = ((len + 2) div 3) * 4"

definition ngx_base64_decoded_length :: "nat \<Rightarrow> nat" where
  "ngx_base64_decoded_length len = ((len + 3) div 4) * 3"

text \<open>The two decoding tables; 77 marks a byte outside the alphabet.\<close>

definition decode_basis64 :: bytes where
  "decode_basis64 = [
     77, 77, 77, 77, 77, 77, 77, 77, 77, 77, 77, 77, 77, 77, 77, 77,
     77, 77, 77, 77, 77, 77, 77, 77, 77, 77, 77, 77, 77, 77, 77, 77,
     77, 77, 77, 77, 77, 77, 77, 77, 77, 77, 77, 62, 77, 77, 77, 63,
     52, 53, 54, 55, 56, 57, 58, 59, 60, 61, 77, 77, 77, 77, 77, 77,
     77, 0, 1, 2, 3, 4, 5, 6, 7, 8, 9, 10, 11, 12, 13, 14,
     15, 16, 17, 18, 19, 20, 21, 22, 23, 24, 25, 77, 77, 77, 77, 77,
     77, 26, 27, 28, 29, 30, 31, 32, 33, 34, 35, 36, 37, 38, 39, 40,
     41, 42, 43, 44, 45, 46, 47, 48, 49, 50, 51, 77, 77, 77, 77, 77,
     77, 77, 77, 77, 77, 77, 77, 77, 77, 77, 77, 77, 77, 77, 77, 77,
     77, 77, 77, 77, 77, 77, 77, 77, 77, 77, 77, 77, 77, 77, 77, 77,
     77, 77, 77, 77, 77, 77, 77, 77, 77, 77, 77, 77, 77, 77, 77, 77,
     77, 77, 77, 77, 77, 77, 77, 77, 77, 77, 77, 77, 77, 77, 77, 77,
     77, 77, 77, 77, 77, 77, 77, 77, 77, 77, 77, 77, 77, 77, 77, 77,
     77, 77, 77, 77, 77, 77, 77, 77, 77, 77, 77, 77, 77, 77, 77, 77,
     77, 77, 77, 77, 77, 77, 77, 77, 77, 77, 77, 77, 77, 77, 77, 77,
     77, 77, 77, 77, 77, 77, 77, 77, 77, 77, 77, 77, 77, 77, 77, 77
  ]"

definition decode_basis64url :: bytes where
  "decode_basis64url = [
     77, 77, 77, 77, 77, 77, 77, 77, 77, 77, 77, 77, 77, 77, 77, 77,
     77, 77, 77, 77, 77, 77, 77, 77, 77, 77, 77, 77, 77, 77, 77, 77,
     77, 77, 77, 77, 77, 77, 77, 77, 77, 77, 77, 77, 77, 62, 77, 77,
     52, 53, 54, 55, 56, 57, 58, 59, 60, 61, 77, 77, 77, 77, 77, 77,
     77, 0, 1, 2, 3, 4, 5, 6, 7, 8, 9, 10, 11, 12, 13, 14,
     15, 16, 17, 18, 19, 20, 21, 22, 23, 24, 25, 77, 77, 77, 77, 63,
     77, 26, 27, 28, 29, 30, 31, 32, 33, 34, 35, 36, 37, 38, 39, 40,
     41, 42, 43, 44, 45, 46, 47, 48, 49, 50, 51, 77, 77, 77, 77, 77,
     77, 77, 77, 77, 77, 77, 77, 77, 77, 77, 77, 77, 77, 77, 77, 77,
     77, 77, 77, 77, 77, 77, 77, 77, 77, 77, 77, 77, 77, 77, 77, 77,
     77, 77, 77, 77, 77, 77, 77, 77, 77, 77, 77, 77, 77, 77, 77, 77,
     77, 77, 77, 77, 77, 77, 77, 77, 77, 77, 77, 77, 77, 77, 77, 77,
     77, 77, 77, 77, 77, 77, 77, 77, 77, 77, 77, 77, 77, 77, 77, 77,
     77, 77, 77, 77, 77, 77, 77, 77, 77, 77, 77, 77, 77, 77, 77, 77,
     77, 77, 77, 77, 77, 77, 77, 77, 77, 77, 77, 77, 77, 77, 77, 77,
     77, 77, 77, 77, 77, 77, 77, 77, 77, 77, 77, 77, 77, 77, 77, 77
  ]"

text \<open>
  The first loop of the decoder: the number of bytes before the first \<open>=\<close> or the end, or
  \<open>None\<close> (\<open>NGX_ERROR\<close>) at a byte outside the alphabet.
\<close>

fun decode_base64_scan :: "bytes \<Rightarrow> bytes \<Rightarrow> nat \<Rightarrow> nat option" where
  "decode_base64_scan basis [] len = Some len"
| "decode_base64_scan basis (c # src) len =
     (if c = 0x3d then Some len
      else if basis ! unat c = 77 then None
      else decode_base64_scan basis src (Suc len))"

fun decode_base64_groups :: "bytes \<Rightarrow> bytes \<Rightarrow> bytes" where
  "decode_base64_groups basis (s0 # s1 # s2 # s3 # s) =
     [push_bit 2 (basis ! unat s0) OR drop_bit 4 (basis ! unat s1),
      push_bit 4 (basis ! unat s1) OR drop_bit 2 (basis ! unat s2),
      push_bit 6 (basis ! unat s2) OR (basis ! unat s3)] @ decode_base64_groups basis s"
| "decode_base64_groups basis [s0, s1, s2] =
     [push_bit 2 (basis ! unat s0) OR drop_bit 4 (basis ! unat s1),
      push_bit 4 (basis ! unat s1) OR drop_bit 2 (basis ! unat s2)]"
| "decode_base64_groups basis [s0, s1] =
     [push_bit 2 (basis ! unat s0) OR drop_bit 4 (basis ! unat s1)]"
| "decode_base64_groups basis [s0] = []"
| "decode_base64_groups basis [] = []"

definition ngx_decode_base64_internal :: "bytes \<Rightarrow> bytes \<Rightarrow> bytes option" where
  "ngx_decode_base64_internal basis src =
     (case decode_base64_scan basis src 0 of
        None \<Rightarrow> None
      | Some len \<Rightarrow>
          if len mod 4 = 1 then None else Some (decode_base64_groups basis (take len src)))"

definition ngx_decode_base64 :: "bytes \<Rightarrow> bytes option" where
  "ngx_decode_base64 src = ngx_decode_base64_internal decode_basis64 src"

definition ngx_decode_base64url :: "bytes \<Rightarrow> bytes option" where
  "ngx_decode_base64url src = ngx_decode_base64_internal decode_basis64url src"

section \<open>UTF-8\<close>

text \<open>The continuation loop of \<open>ngx_utf8_decode\<close>; \<open>None\<close> is a byte below 0x80.\<close>

fun utf8_continue :: "nat \<Rightarrow> u32 \<Rightarrow> bytes \<Rightarrow> u32 option \<times> bytes" where
  "utf8_continue (Suc len) u (c # p) =
     (if (ucast c :: u32) < 0x80 then (None, p)
      else utf8_continue len (push_bit 6 u OR (ucast c AND 0x3f)) p)"
| "utf8_continue _ u p = (Some u, p)"

text \<open>
  \<open>ngx_utf8_decode c p\<close> decodes the sequence that starts with \<open>c\<close> and goes on in \<open>p\<close> (so
  \<open>n = length p + 1\<close>); it returns the code of the sequence and the bytes after it. An
  incomplete sequence leaves the position at \<open>c\<close>.
\<close>

definition ngx_utf8_decode :: "u_char \<Rightarrow> bytes \<Rightarrow> u32 \<times> bytes" where
  "ngx_utf8_decode c p =
     (let u = (ucast c :: u32) in
      if u < 0xc2 then (0xffffffff, p)
      else
        let (u, valid, len) =
          (if u \<ge> 0xf0 then (u AND 0x07, 0xffff, 3)
           else if u \<ge> 0xe0 then (u AND 0x0f, 0x7ff, 2)
           else (u AND 0x1f, 0x7f, 1))
        in if length p < len then (0xfffffffe, c # p)
           else case utf8_continue len u p of
             (None, p') \<Rightarrow> (0xffffffff, p')
           | (Some u', p') \<Rightarrow> (if u' > valid then u' else 0xffffffff, p'))"

lemma utf8_continue_length: "length (snd (utf8_continue len u p)) \<le> length p"
  by (induction len u p rule: utf8_continue.induct) auto

lemma ngx_utf8_decode_length:
  "\<not> fst (ngx_utf8_decode c p) > 0x10ffff \<Longrightarrow> length (snd (ngx_utf8_decode c p)) \<le> length p"
  using utf8_continue_length [of 1 _ p] utf8_continue_length [of 2 _ p]
    utf8_continue_length [of 3 _ p]
  by (auto simp: ngx_utf8_decode_def Let_def split: prod.splits option.splits if_splits)
    (metis snd_conv)+

text \<open>The loop of \<open>ngx_utf8_length\<close>: \<open>None\<close> when the text is not valid UTF-8.\<close>

function utf8_length_loop :: "bytes \<Rightarrow> nat \<Rightarrow> nat option" where
  "utf8_length_loop [] len = Some len"
| "utf8_length_loop (c # p) len =
     (if c < 0x80 then utf8_length_loop p (Suc len)
      else if fst (ngx_utf8_decode c p) > 0x10ffff then None
      else utf8_length_loop (snd (ngx_utf8_decode c p)) (Suc len))"
  by pat_completeness auto
termination
  by (relation "measure (\<lambda>(p, _). length p)")
    (auto simp: less_Suc_eq_le intro: ngx_utf8_decode_length)

definition ngx_utf8_length :: "bytes \<Rightarrow> nat" where
  "ngx_utf8_length p = (case utf8_length_loop p 0 of None \<Rightarrow> length p | Some len \<Rightarrow> len)"

section \<open>URI escaping\<close>

definition NGX_ESCAPE_REFRESH :: nat where "NGX_ESCAPE_REFRESH = 4"

definition escape_uri :: "u32 list" where
  "escape_uri = [0xffffffff, 0x80000029, 0x00000000, 0x80000000, 0xffffffff, 0xffffffff, 0xffffffff, 0xffffffff]"

definition escape_args :: "u32 list" where
  "escape_args = [0xffffffff, 0x88000869, 0x00000000, 0x80000000, 0xffffffff, 0xffffffff, 0xffffffff, 0xffffffff]"

definition escape_uri_component :: "u32 list" where
  "escape_uri_component = [0xffffffff, 0xfc009fff, 0x78000001, 0xb8000001, 0xffffffff, 0xffffffff, 0xffffffff, 0xffffffff]"

definition escape_html :: "u32 list" where
  "escape_html = [0xffffffff, 0x000000ad, 0x00000000, 0x80000000, 0xffffffff, 0xffffffff, 0xffffffff, 0xffffffff]"

definition escape_refresh :: "u32 list" where
  "escape_refresh = [0xffffffff, 0x00000085, 0x00000000, 0x80000000, 0xffffffff, 0xffffffff, 0xffffffff, 0xffffffff]"

definition escape_memcached :: "u32 list" where
  "escape_memcached = [0xffffffff, 0x00000021, 0x00000000, 0x00000000, 0x00000000, 0x00000000, 0x00000000, 0x00000000]"

definition escape_map :: "u32 list list" where
  "escape_map = [escape_uri, escape_args, escape_uri_component, escape_html, escape_refresh,
     escape_memcached, escape_memcached]"

definition must_escape :: "u32 list \<Rightarrow> u_char \<Rightarrow> bool" where
  "must_escape escape c \<longleftrightarrow> escape ! unat (drop_bit 5 c) AND push_bit (unat (c AND 0x1f)) 1 \<noteq> 0"

definition escape_hex :: bytes where "escape_hex = str_bytes ''0123456789ABCDEF''"

fun escape_uri_count :: "u32 list \<Rightarrow> bytes \<Rightarrow> nat \<Rightarrow> nat" where
  "escape_uri_count escape [] n = n"
| "escape_uri_count escape (c # src) n =
     escape_uri_count escape src (if must_escape escape c then Suc n else n)"

fun escape_uri_copy :: "u32 list \<Rightarrow> bytes \<Rightarrow> bytes" where
  "escape_uri_copy escape [] = []"
| "escape_uri_copy escape (c # src) =
     (if must_escape escape c
      then [0x25, escape_hex ! unat (drop_bit 4 c), escape_hex ! unat (c AND 0xf)]
      else [c]) @ escape_uri_copy escape src"

definition ngx_escape_uri_null :: "bytes \<Rightarrow> nat \<Rightarrow> nat" where
  "ngx_escape_uri_null src type = escape_uri_count (escape_map ! type) src 0"

definition ngx_escape_uri :: "bytes \<Rightarrow> nat \<Rightarrow> bytes" where
  "ngx_escape_uri src type = escape_uri_copy (escape_map ! type) src"

section \<open>URI unescaping\<close>

datatype unescape_state = sw_usual | sw_quoted | sw_quoted_second

definition NGX_UNESCAPE_URI :: u64 where "NGX_UNESCAPE_URI = 1"
definition NGX_UNESCAPE_REDIRECT :: u64 where "NGX_UNESCAPE_REDIRECT = 2"

text \<open>
  The value of the hex digit \<open>ch\<close>, as both quoted states read it: \<open>Inl\<close> for a decimal digit,
  \<open>Inr\<close> for a letter.
\<close>

definition unescape_digit :: "u_char \<Rightarrow> (u_char + u_char) option" where
  "unescape_digit ch =
     (if 0x30 \<le> ch \<and> ch \<le> 0x39 then Some (Inl (ch - 0x30))
      else let c = ch OR 0x20 in
        if 0x61 \<le> c \<and> c \<le> 0x66 then Some (Inr (c - 0x61 + 10)) else None)"

text \<open>
  What the second digit of a quoted character writes, and whether the loop stops; \<open>prev\<close> is
  the first digit, \<open>*(s - 2)\<close>, and \<open>ch0\<close> the second, \<open>*(s - 1)\<close>.
\<close>

definition unescape_second :: "u64 \<Rightarrow> u_char \<Rightarrow> u_char \<Rightarrow> u_char \<Rightarrow> bytes \<times> bool" where
  "unescape_second type decoded prev ch0 =
     (case unescape_digit ch0 of
        Some (Inl d) \<Rightarrow>
          (let ch = push_bit 4 decoded + d in
           if type AND NGX_UNESCAPE_REDIRECT \<noteq> 0 then
             (if ch > 0x25 \<and> ch < 0x7f then ([ch], False) else ([0x25, prev, ch0], False))
           else ([ch], False))
      | Some (Inr d) \<Rightarrow>
          (let ch = push_bit 4 decoded + d in
           if type AND NGX_UNESCAPE_URI \<noteq> 0 then
             (if ch = 0x3f then ([ch], True) else ([ch], False))
           else if type AND NGX_UNESCAPE_REDIRECT \<noteq> 0 then
             (if ch = 0x3f then ([ch], True)
              else if ch > 0x25 \<and> ch < 0x7f then ([ch], False)
              else ([0x25, prev, ch0], False))
           else ([ch], False))
      | None \<Rightarrow> ([], False))"

text \<open>The loop: the bytes written, and the source bytes left when it ends.\<close>

fun unescape_loop ::
  "u64 \<Rightarrow> unescape_state \<Rightarrow> u_char \<Rightarrow> u_char \<Rightarrow> bytes \<Rightarrow> bytes \<times> bytes" where
  "unescape_loop type state decoded prev [] = ([], [])"
| "unescape_loop type sw_usual decoded prev (ch # s) =
     (if ch = 0x3f \<and> type AND (NGX_UNESCAPE_URI OR NGX_UNESCAPE_REDIRECT) \<noteq> 0 then ([ch], s)
      else if ch = 0x25 then unescape_loop type sw_quoted decoded ch s
      else let (d, s') = unescape_loop type sw_usual decoded ch s in (ch # d, s'))"
| "unescape_loop type sw_quoted decoded prev (ch # s) =
     (case unescape_digit ch of
        Some (Inl d) \<Rightarrow> unescape_loop type sw_quoted_second d ch s
      | Some (Inr d) \<Rightarrow> unescape_loop type sw_quoted_second d ch s
      | None \<Rightarrow>
          let (d, s') = unescape_loop type sw_usual decoded ch s in (ch # d, s'))"
| "unescape_loop type sw_quoted_second decoded prev (ch # s) =
     (let (out, stop) = unescape_second type decoded prev ch in
      if stop then (out, s)
      else let (d, s') = unescape_loop type sw_usual decoded ch s in (out @ d, s'))"

definition ngx_unescape_uri :: "bytes \<Rightarrow> u64 \<Rightarrow> bytes \<times> bytes" where
  "ngx_unescape_uri src type = unescape_loop type sw_usual 0 0 src"

section \<open>HTML and JSON escaping\<close>

fun ngx_escape_html_null :: "bytes \<Rightarrow> nat \<Rightarrow> nat" where
  "ngx_escape_html_null [] len = len"
| "ngx_escape_html_null (c # src) len =
     ngx_escape_html_null src
       (if c = 0x3c then len + (length ''&lt;'' + 1 - 2)
        else if c = 0x3e then len + (length ''&gt;'' + 1 - 2)
        else if c = 0x26 then len + (length ''&amp;'' + 1 - 2)
        else if c = 0x22 then len + (length ''&quot;'' + 1 - 2)
        else len)"

fun ngx_escape_html :: "bytes \<Rightarrow> bytes" where
  "ngx_escape_html [] = []"
| "ngx_escape_html (ch # src) =
     (if ch = 0x3c then str_bytes ''&lt;''
      else if ch = 0x3e then str_bytes ''&gt;''
      else if ch = 0x26 then str_bytes ''&amp;''
      else if ch = 0x22 then str_bytes ''&quot;''
      else [ch]) @ ngx_escape_html src"

fun ngx_escape_json_null :: "bytes \<Rightarrow> nat \<Rightarrow> nat" where
  "ngx_escape_json_null [] len = len"
| "ngx_escape_json_null (ch # src) len =
     ngx_escape_json_null src
       (if ch = 0x5c \<or> ch = 0x22 then len + 1
        else if ch \<le> 0x1f then
          (if ch = 0x0a \<or> ch = 0x0d \<or> ch = 0x09 \<or> ch = 0x08 \<or> ch = 0x0c then len + 1
           else len + (6 + 1 - 2))
        else len)"

fun ngx_escape_json :: "bytes \<Rightarrow> bytes" where
  "ngx_escape_json [] = []"
| "ngx_escape_json (ch # src) =
     (if ch > 0x1f then (if ch = 0x5c \<or> ch = 0x22 then [0x5c] else []) @ [ch]
      else 0x5c #
        (if ch = 0x0a then [0x6e]
         else if ch = 0x0d then [0x72]
         else if ch = 0x09 then [0x74]
         else if ch = 0x08 then [0x62]
         else if ch = 0x0c then [0x66]
         else [0x75, 0x30, 0x30, 0x30 + drop_bit 4 ch,
               let c = ch AND 0xf in if c < 10 then 0x30 + c else 0x41 + c - 10]))
     @ ngx_escape_json src"


section \<open>Base64 round trip\<close>

lemma bits8: "n < 8 \<longleftrightarrow> n \<in> {0, 1, 2, 3, 4, 5, 6, 7 :: nat}"
  by auto

lemma no_bit_ge8 [simp]: "8 \<le> n \<Longrightarrow> \<not> bit (w :: u_char) n"
  using impossible_bit [of n w] by auto

lemma b64_idx:
  "unat (drop_bit 2 (s0 :: u_char) AND 0x3f) < 64"
  "unat (push_bit 4 ((s0 :: u_char) AND 3) OR drop_bit 4 s1) < 64"
  "unat (push_bit 2 ((s1 :: u_char) AND 0x0f) OR drop_bit 6 s2) < 64"
  "unat ((s2 :: u_char) AND 0x3f) < 64"
  "unat (push_bit 4 ((s0 :: u_char) AND 3)) < 64"
  "unat (push_bit 2 ((s1 :: u_char) AND 0x0f)) < 64"
proof -
  have lt: "unat w < 64" if "\<not> bit w 6" "\<not> bit w 7" for w :: u_char
  proof -
    have "take_bit 6 w = w"
      by (rule bit_word_eqI) (use that in \<open>auto simp: bit_simps bits8\<close>)
    then have "unat w = unat (take_bit 6 w)" by simp
    also have "\<dots> < 2 ^ 6"
      unfolding unsigned_take_bit_eq by (rule take_bit_nat_less_exp)
    finally show ?thesis by simp
  qed
  show "unat (drop_bit 2 (s0 :: u_char) AND 0x3f) < 64"
    "unat (push_bit 4 ((s0 :: u_char) AND 3) OR drop_bit 4 s1) < 64"
    "unat (push_bit 2 ((s1 :: u_char) AND 0x0f) OR drop_bit 6 s2) < 64"
    "unat ((s2 :: u_char) AND 0x3f) < 64"
    "unat (push_bit 4 ((s0 :: u_char) AND 3)) < 64"
    "unat (push_bit 2 ((s1 :: u_char) AND 0x0f)) < 64"
    by (rule lt; simp add: bit_simps)+
qed

lemma b64_bits:
  "push_bit 2 (drop_bit 2 (s0 :: u_char) AND 0x3f) OR
     drop_bit 4 (push_bit 4 (s0 AND 3) OR drop_bit 4 s1) = s0"
  "push_bit 4 (push_bit 4 ((s0 :: u_char) AND 3) OR drop_bit 4 s1) OR
     drop_bit 2 (push_bit 2 (s1 AND 0x0f) OR drop_bit 6 s2) = s1"
  "push_bit 6 (push_bit 2 ((s1 :: u_char) AND 0x0f) OR drop_bit 6 s2) OR (s2 AND 0x3f) = s2"
  "push_bit 2 (drop_bit 2 (s0 :: u_char) AND 0x3f) OR drop_bit 4 (push_bit 4 (s0 AND 3)) = s0"
  "push_bit 4 (push_bit 4 ((s0 :: u_char) AND 3) OR drop_bit 4 s1) OR
     drop_bit 2 (push_bit 2 (s1 AND 0x0f)) = s1"
  by (rule bit_word_eqI; auto simp: bit_simps bits8; simp add: numeral_2_eq_2 numeral_3_eq_3)+

lemmas b64_idx' = b64_idx [simplified]
lemmas b64_bits' = b64_bits [simplified]

lemma list3_induct [case_names 0 1 2 step]:
  assumes "P []" "\<And>a. P [a]" "\<And>a b. P [a, b]" "\<And>a b c s. P s \<Longrightarrow> P (a # b # c # s)"
  shows "P (s :: bytes)"
  using ngx_encode_base64_internal.induct [of "\<lambda>_ _ s. P s" "[]" True s] assms by blast

text \<open>What the alphabet and the decoding table of one variant owe each other.\<close>

locale base64_variant =
  fixes basis table :: bytes
  assumes table_basis: "i < 64 \<Longrightarrow> table ! unat (basis ! i) = word_of_nat i"
    and basis_not_pad: "i < 64 \<Longrightarrow> basis ! i \<noteq> 0x3d"
begin

lemma table_word: "unat (w :: u_char) < 64 \<Longrightarrow> table ! unat (basis ! unat w) = w"
  by (simp add: table_basis)

lemma table_valid: "unat (w :: u_char) < 64 \<Longrightarrow> table ! unat (basis ! unat w) \<noteq> 77"
  by (auto simp: table_basis word_of_nat_eq_iff)

lemma encode_pad:
  "ngx_encode_base64_internal basis padding src = ngx_encode_base64_internal basis False src @
     (if padding then replicate ((3 - length src mod 3) mod 3) 0x3d else [])"
proof (induction src rule: list3_induct)
  case 2
  show ?case by simp
next
  case (step a b c s)
  have "length (a # b # c # s) mod 3 = length s mod 3"
  proof -
    have "Suc (Suc (Suc n)) mod 3 = n mod 3" for n :: nat by presburger
    then show ?thesis by simp
  qed
  with step show ?case by simp
qed (simp_all add: numeral_2_eq_2)

lemma scan_body:
  "\<forall>c\<in>set body. c \<noteq> 0x3d \<and> table ! unat c \<noteq> 77 \<Longrightarrow> set pad \<subseteq> {0x3d} \<Longrightarrow>
   decode_base64_scan table (body @ pad) len = Some (len + length body)"
proof (induction body arbitrary: len)
  case Nil
  then show ?case by (cases pad) auto
qed auto

lemma body_valid:
  "c \<in> set (ngx_encode_base64_internal basis False src) \<Longrightarrow> c \<noteq> 0x3d \<and> table ! unat c \<noteq> 77"
  by (induction src rule: list3_induct)
    (auto simp: b64_idx' table_valid basis_not_pad)

lemma body_length: "length (ngx_encode_base64_internal basis False src) mod 4 \<noteq> 1"
  by (induction src rule: list3_induct) simp_all

lemma groups_body: "decode_base64_groups table (ngx_encode_base64_internal basis False src) = src"
  by (induction src rule: list3_induct) (simp_all add: table_word b64_idx' b64_bits')

lemma decode_encode:
  "ngx_decode_base64_internal table (ngx_encode_base64_internal basis padding src) = Some src"
proof -
  let ?body = "ngx_encode_base64_internal basis False src"
  let ?pad = "if padding then replicate ((3 - length src mod 3) mod 3) 0x3d else []"
  have "decode_base64_scan table (?body @ ?pad) 0 = Some (length ?body)"
    using scan_body [of ?body ?pad 0] body_valid [of _ src] by (auto simp: set_replicate_conv_if)
  then show ?thesis
    unfolding encode_pad [of padding]
    using body_length [of src] by (simp add: ngx_decode_base64_internal_def groups_body)
qed
end

interpretation b64: base64_variant basis64 decode_basis64
proof
  fix i :: nat
  assume i: "i < 64"
  have "list_all (\<lambda>i. decode_basis64 ! unat (basis64 ! i) = word_of_nat i \<and> basis64 ! i \<noteq> 0x3d) [0..<64]"
    by (simp add: upt_rec basis64_def decode_basis64_def)
  with i show "decode_basis64 ! unat (basis64 ! i) = word_of_nat i" "basis64 ! i \<noteq> 0x3d"
    by (auto simp: list_all_iff)
qed


interpretation b64url: base64_variant basis64url decode_basis64url
proof
  fix i :: nat
  assume i: "i < 64"
  have "list_all (\<lambda>i. decode_basis64url ! unat (basis64url ! i) = word_of_nat i
      \<and> basis64url ! i \<noteq> 0x3d) [0..<64]"
    by (simp add: upt_rec basis64url_def decode_basis64url_def)
  with i show "decode_basis64url ! unat (basis64url ! i) = word_of_nat i" "basis64url ! i \<noteq> 0x3d"
    by (auto simp: list_all_iff)
qed

text \<open>
  Base64 decoding inverts encoding, for both alphabets, with padding and without.
\<close>

theorem base64_roundtrip:
  "ngx_decode_base64 (ngx_encode_base64 src) = Some src \<and>
   ngx_decode_base64url (ngx_encode_base64url src) = Some src"
  unfolding ngx_decode_base64_def ngx_encode_base64_def ngx_decode_base64url_def
    ngx_encode_base64url_def
  by (simp add: b64.decode_encode b64url.decode_encode)

text \<open>
  The sizes callers allocate are enough: an encoding is at most
  \<open>ngx_base64_encoded_length\<close> of the source, and what a decoder accepts decodes to at most
  \<open>ngx_base64_decoded_length\<close> of it.
\<close>

lemma encode_length_le:
  "length (ngx_encode_base64_internal basis padding src) \<le> ngx_base64_encoded_length (length src)"
proof (induction src rule: list3_induct)
  case (step a b c s)
  have "(length s + 2 + 3) div 3 = (length s + 2) div 3 + 1" by (rule div_add_self2) simp
  moreover have "length (a # b # c # s) + 2 = length s + 2 + 3" by simp
  ultimately show ?case
    using step unfolding ngx_base64_encoded_length_def by (simp only:) simp
qed (simp_all add: ngx_base64_encoded_length_def)

lemma decode_groups_length:
  "length (decode_base64_groups basis src) \<le> ngx_base64_decoded_length (length src)"
proof (induction basis src rule: decode_base64_groups.induct)
  case (1 basis s0 s1 s2 s3 s)
  have "(length s + 3 + 4) div 4 = (length s + 3) div 4 + 1" by (rule div_add_self2) simp
  moreover have "length (s0 # s1 # s2 # s3 # s) + 3 = length s + 3 + 4" by simp
  ultimately show ?case
    using 1 unfolding ngx_base64_decoded_length_def by (simp only:) simp
qed (simp_all add: ngx_base64_decoded_length_def)

lemma ngx_base64_decoded_length_mono: "m \<le> n \<Longrightarrow> ngx_base64_decoded_length m \<le> ngx_base64_decoded_length n"
  by (simp add: ngx_base64_decoded_length_def div_le_mono)

theorem base64_lengths:
  "length (ngx_encode_base64 src) \<le> ngx_base64_encoded_length (length src) \<and>
   (case ngx_decode_base64 enc of None \<Rightarrow> True
    | Some dst \<Rightarrow> length dst \<le> ngx_base64_decoded_length (length enc))"
proof (intro conjI)
  show "length (ngx_encode_base64 src) \<le> ngx_base64_encoded_length (length src)"
    unfolding ngx_encode_base64_def by (rule encode_length_le)
  have "length (decode_base64_groups decode_basis64 (take len enc)) \<le>
      ngx_base64_decoded_length (length enc)" for len
    by (rule le_trans [OF decode_groups_length ngx_base64_decoded_length_mono]) simp
  then show "case ngx_decode_base64 enc of None \<Rightarrow> True
    | Some dst \<Rightarrow> length dst \<le> ngx_base64_decoded_length (length enc)"
    by (auto simp: ngx_decode_base64_def ngx_decode_base64_internal_def split: option.splits)
qed

section \<open>UTF-8\<close>

text \<open>The standard encoding of a code point from 0x80 on.\<close>

definition utf8_tail :: "nat \<Rightarrow> u_char" where
  "utf8_tail n = word_of_nat (0x80 + n mod 64)"

definition utf8_encode :: "nat \<Rightarrow> bytes" where
  "utf8_encode u =
     (if u < 0x80 then [word_of_nat u]
      else if u < 0x800 then [word_of_nat (0xc0 + u div 64), utf8_tail u]
      else if u < 0x10000 then
        [word_of_nat (0xe0 + u div 4096), utf8_tail (u div 64), utf8_tail u]
      else [word_of_nat (0xf0 + u div 262144), utf8_tail (u div 4096), utf8_tail (u div 64),
            utf8_tail u])"

lemma and_masks:
  fixes w :: "'a::len word"
  shows "w AND 0x3f = take_bit 6 w" "w AND 0x1f = take_bit 5 w" "w AND 0x0f = take_bit 4 w"
    "w AND 0x07 = take_bit 3 w" "w AND 0x03 = take_bit 2 w"
  by (simp_all add: take_bit_eq_mask mask_eq_exp_minus_1)

lemma unat_and_mask:
  fixes w :: "'a::len word"
  shows "unat (w AND 0x3f) = unat w mod 64" "unat (w AND 0x1f) = unat w mod 32"
  "unat (w AND 0x0f) = unat w mod 16" "unat (w AND 0x07) = unat w mod 8"
  unfolding and_masks unsigned_take_bit_eq by (simp_all add: take_bit_eq_mod)

lemma unat_shift6_or:
  assumes "unat u < 2 ^ 26"
  shows "unat (push_bit 6 (u :: u32) OR (w AND 0x3f)) = 64 * unat u + unat w mod 64"
proof -
  have "push_bit 6 u AND (w AND 0x3f) = 0"
    unfolding and_masks by (rule bit_word_eqI) (auto simp: bit_simps)
  then have "push_bit 6 u OR (w AND 0x3f) = push_bit 6 u + (w AND 0x3f)"
    by (rule disjunctive_add_eq_or [symmetric])
  moreover have p: "unat (push_bit 6 u) = 64 * unat u"
    unfolding unsigned_push_bit_eq using assms
    by (simp add: push_bit_eq_mult take_bit_nat_eq_self)
  moreover have "unat (push_bit 6 u + (w AND 0x3f)) = unat (push_bit 6 u) + unat (w AND 0x3f)"
  proof (rule unat_add_lem [THEN iffD1])
    have "unat w mod 64 < 64" by simp
    then show "unat (push_bit 6 u) + unat (w AND 0x3f) < 2 ^ LENGTH(32)"
      unfolding p unat_and_mask using assms by simp
  qed
  ultimately show ?thesis by (simp add: unat_and_mask)
qed

lemma unat_ucast_8_32 [simp]: "unat (ucast (c :: u_char) :: u32) = unat c"
proof -
  have "unat c < 2 ^ 32" by (rule less_trans [OF unat_byte_less]) simp
  then show ?thesis by (simp add: unsigned_ucast_eq take_bit_nat_eq_self)
qed

lemma unat_byte_of_nat: "n < 256 \<Longrightarrow> unat (word_of_nat n :: u_char) = n"
  by (simp add: unat_of_nat)

lemma utf8_tail_unat: "unat (utf8_tail n) = 0x80 + n mod 64"
proof -
  have "n mod 64 < 64" by simp
  then have "0x80 + n mod 64 < 256" by linarith
  then show ?thesis unfolding utf8_tail_def by (rule unat_byte_of_nat)
qed

text \<open>One continuation byte, and the whole tail of a sequence.\<close>

lemma utf8_step:
  assumes "unat w = x div 64" "x < 2 ^ 32"
  obtains w' where "utf8_continue (Suc len) w (utf8_tail x # p) = utf8_continue len w' p"
    "unat w' = x"
proof (rule that)
  have lt: "unat w < 2 ^ 26" using assms by (simp add: less_mult_imp_div_less)
  have m: "(0x80 + x mod 64) mod 64 = x mod 64"
    using mod_mult_self4 [of 64 2 "x mod 64"] by simp
  show "utf8_continue (Suc len) w (utf8_tail x # p) =
    utf8_continue len (push_bit 6 w OR (ucast (utf8_tail x) AND 0x3f)) p"
    by (simp add: word_less_nat_alt utf8_tail_unat)
  show "unat (push_bit 6 w OR (ucast (utf8_tail x) AND 0x3f)) = x"
    unfolding unat_shift6_or [OF lt] unat_ucast_8_32 utf8_tail_unat m assms(1) by simp
qed

lemma utf8_one:
  assumes "unat w = u div 64" "u < 2 ^ 32"
  shows "utf8_continue 1 w (utf8_tail u # p) = (Some (word_of_nat u), p)"
proof -
  obtain w' where "utf8_continue (Suc 0) w (utf8_tail u # p) = utf8_continue 0 w' p" "unat w' = u"
    using assms by (rule utf8_step)
  moreover have "word_of_nat u = w'" using \<open>unat w' = u\<close> by auto
  ultimately show ?thesis by simp
qed

lemma utf8_two:
  assumes "unat w = u div 64 div 64" "u < 2 ^ 32"
  shows "utf8_continue 2 w (utf8_tail (u div 64) # utf8_tail u # p) = (Some (word_of_nat u), p)"
proof -
  have "u div 64 < 2 ^ 32" using assms(2) by simp
  with assms(1) obtain w' where "utf8_continue (Suc 1) w (utf8_tail (u div 64) # utf8_tail u # p) =
      utf8_continue 1 w' (utf8_tail u # p)" "unat w' = u div 64"
    by (rule utf8_step)
  then show ?thesis using utf8_one [of w' u p] assms(2) by (simp add: numeral_2_eq_2)
qed

lemma utf8_three:
  assumes "unat w = u div 64 div 64 div 64" "u < 2 ^ 32"
  shows "utf8_continue 3 w (utf8_tail (u div 64 div 64) # utf8_tail (u div 64) # utf8_tail u # p) =
    (Some (word_of_nat u), p)"
proof -
  have "u div 64 div 64 < 2 ^ 32" using assms(2) by (simp add: less_mult_imp_div_less)
  with assms(1) obtain w' where "utf8_continue (Suc 2) w
      (utf8_tail (u div 64 div 64) # utf8_tail (u div 64) # utf8_tail u # p) =
      utf8_continue 2 w' (utf8_tail (u div 64) # utf8_tail u # p)" "unat w' = u div 64 div 64"
    by (rule utf8_step)
  then show ?thesis using utf8_two [of w' u p] assms(2) by (simp add: numeral_3_eq_3 numeral_2_eq_2)
qed

text \<open>The three lead byte classes.\<close>

lemma ngx_utf8_decode_1:
  assumes "0xc2 \<le> unat c" "unat c < 0xe0" "utf8_continue 1 (ucast c AND 0x1f) p = (Some u, p')"
    "0x7f < unat u" "p \<noteq> []"
  shows "ngx_utf8_decode c p = (u, p')"
proof -
  have "\<not> (ucast c :: u32) < 0xc2" "\<not> (ucast c :: u32) \<ge> 0xf0" "\<not> (ucast c :: u32) \<ge> 0xe0"
    "u > 0x7f" "\<not> length p < 1"
    using assms by (simp_all add: word_less_nat_alt word_le_nat_alt Suc_le_eq)
  with assms(3) show ?thesis by (simp add: ngx_utf8_decode_def)
qed

lemma ngx_utf8_decode_2:
  assumes "0xe0 \<le> unat c" "unat c < 0xf0" "utf8_continue 2 (ucast c AND 0x0f) p = (Some u, p')"
    "0x7ff < unat u" "2 \<le> length p"
  shows "ngx_utf8_decode c p = (u, p')"
proof -
  have "\<not> (ucast c :: u32) < 0xc2" "\<not> (ucast c :: u32) \<ge> 0xf0" "(ucast c :: u32) \<ge> 0xe0"
    "u > 0x7ff" "\<not> length p < 2"
    using assms by (simp_all add: word_less_nat_alt word_le_nat_alt)
  with assms(3) show ?thesis by (simp add: ngx_utf8_decode_def)
qed

lemma ngx_utf8_decode_3:
  assumes "0xf0 \<le> unat c" "utf8_continue 3 (ucast c AND 0x07) p = (Some u, p')"
    "0xffff < unat u" "3 \<le> length p"
  shows "ngx_utf8_decode c p = (u, p')"
proof -
  have "\<not> (ucast c :: u32) < 0xc2" "(ucast c :: u32) \<ge> 0xf0" "u > 0xffff" "\<not> length p < 3"
    using assms by (simp_all add: word_less_nat_alt word_le_nat_alt)
  with assms(2) show ?thesis by (simp add: ngx_utf8_decode_def)
qed

lemma lead_mods:
  "q < 32 \<Longrightarrow> (0xc0 + q) mod 32 = (q :: nat)"
  "q < 16 \<Longrightarrow> (0xe0 + q) mod 16 = (q :: nat)"
  "q < 8 \<Longrightarrow> (0xf0 + q) mod 8 = (q :: nat)"
  using mod_mult_self4 [of 32 6 q] mod_mult_self4 [of 16 14 q] mod_mult_self4 [of 8 30 q]
  by simp_all

lemma utf8_encode_decode:
  assumes "0x80 \<le> u" "u \<le> 0x10ffff"
  obtains c cs where "utf8_encode u = c # cs" "\<not> c < 0x80"
    "\<And>p. ngx_utf8_decode c (cs @ p) = (word_of_nat u, p)"
proof -
  have u32: "u < 2 ^ 32" using assms by simp
  have un: "unat (word_of_nat u :: u32) = u"
    using assms by (simp add: unat_of_nat)
  consider "u < 0x800" | "0x800 \<le> u" "u < 0x10000" | "0x10000 \<le> u" by linarith
  then show thesis
  proof cases
    case 1
    define c :: u_char where "c = word_of_nat (0xc0 + u div 64)"
    have q: "2 \<le> u div 64" "u div 64 < 32" using 1 assms by auto
    then have c: "unat c = 0xc0 + u div 64" unfolding c_def by (intro unat_byte_of_nat) simp
    have m: "(0xc0 + u div 64) mod 32 = u div 64" using q(2) by (rule lead_mods)
    have w: "unat ((ucast c :: u32) AND 0x1f) = u div 64"
      unfolding unat_and_mask unat_ucast_8_32 c m ..
    show thesis
    proof (rule that [of c "[utf8_tail u]"])
      show "utf8_encode u = [c, utf8_tail u]" using 1 assms by (simp add: utf8_encode_def c_def)
      show "\<not> c < 0x80" unfolding word_less_nat_alt c by simp
      show "ngx_utf8_decode c ([utf8_tail u] @ p) = (word_of_nat u, p)" for p
        by (rule ngx_utf8_decode_1)
          (use utf8_one [OF w u32, of p] q c assms un in simp_all)
    qed
  next
    case 2
    define c :: u_char where "c = word_of_nat (0xe0 + u div 4096)"
    have q: "u div 4096 < 16" using 2 by simp
    then have c: "unat c = 0xe0 + u div 4096" unfolding c_def by (intro unat_byte_of_nat) simp
    have d: "u div 4096 = u div 64 div 64" by (simp add: div_mult2_eq [symmetric])
    have m: "(0xe0 + u div 4096) mod 16 = u div 4096" using q by (rule lead_mods)
    have w: "unat ((ucast c :: u32) AND 0x0f) = u div 64 div 64"
      unfolding unat_and_mask unat_ucast_8_32 c m by (rule d)
    show thesis
    proof (rule that [of c "[utf8_tail (u div 64), utf8_tail u]"])
      show "utf8_encode u = [c, utf8_tail (u div 64), utf8_tail u]"
        using 2 by (simp add: utf8_encode_def c_def)
      show "\<not> c < 0x80" unfolding word_less_nat_alt c by simp
      show "ngx_utf8_decode c ([utf8_tail (u div 64), utf8_tail u] @ p) = (word_of_nat u, p)" for p
        by (rule ngx_utf8_decode_2)
          (use utf8_two [OF w u32, of p] q c 2 un in simp_all)
    qed
  next
    case 3
    define c :: u_char where "c = word_of_nat (0xf0 + u div 262144)"
    have q: "u div 262144 < 5" using assms by simp
    then have c: "unat c = 0xf0 + u div 262144" unfolding c_def by (intro unat_byte_of_nat) simp
    have d: "u div 262144 = u div 64 div 64 div 64" "u div 4096 = u div 64 div 64"
      by (simp_all add: div_mult2_eq [symmetric])
    have m: "(0xf0 + u div 262144) mod 8 = u div 262144" by (rule lead_mods) (use q in simp)
    have w: "unat ((ucast c :: u32) AND 0x07) = u div 64 div 64 div 64"
      unfolding unat_and_mask unat_ucast_8_32 c m by (rule d(1))
    show thesis
    proof (rule that [of c "[utf8_tail (u div 64 div 64), utf8_tail (u div 64), utf8_tail u]"])
      show "utf8_encode u = [c, utf8_tail (u div 64 div 64), utf8_tail (u div 64), utf8_tail u]"
        using 3 d by (simp add: utf8_encode_def c_def)
      show "\<not> c < 0x80" unfolding word_less_nat_alt c by simp
      show "ngx_utf8_decode c ([utf8_tail (u div 64 div 64), utf8_tail (u div 64), utf8_tail u] @ p) =
          (word_of_nat u, p)" for p
        by (rule ngx_utf8_decode_3)
          (use utf8_three [OF w u32, of p] q c 3 un in simp_all)
    qed
  qed
qed


lemma utf8_length_encoded:
  assumes "list_all (\<lambda>u. u \<le> 0x10ffff) us"
  shows "utf8_length_loop (concat (map utf8_encode us)) len = Some (len + length us)"
  using assms
proof (induction us arbitrary: len)
  case Nil
  then show ?case by simp
next
  case (Cons u us)
  show ?case
  proof (cases "u < 0x80")
    case True
    then have "(word_of_nat u :: u_char) < 0x80"
      using unat_byte_of_nat [of u] by (simp add: word_less_nat_alt)
    then show ?thesis using Cons True by (simp add: utf8_encode_def)
  next
    case False
    then obtain c cs where c: "utf8_encode u = c # cs" "\<not> c < 0x80"
      "\<And>p. ngx_utf8_decode c (cs @ p) = (word_of_nat u, p)"
      using utf8_encode_decode [of u] Cons.prems by auto
    have "\<not> (word_of_nat u :: u32) > 0x10ffff"
      using Cons.prems by (simp add: word_less_nat_alt unat_of_nat)
    then show ?thesis using Cons c by simp
  qed
qed

text \<open>
  The character count \<open>ngx_utf8_length\<close> returns for a correctly encoded text is its
  number of code points: each two-, three- and four-byte sequence is decoded to the code
  point it encodes and counts once.
\<close>

theorem utf8_length_correct:
  assumes "list_all (\<lambda>u. u \<le> 0x10ffff) us"
  shows "ngx_utf8_length (concat (map utf8_encode us)) = length us"
  using utf8_length_encoded [OF assms, of 0] by (simp add: ngx_utf8_length_def)

theorem utf8_length_correct_witness:
  "ngx_utf8_length (concat (map utf8_encode [0x41, 0xe9, 0x20ac, 0x1f600])) = 4"
  using utf8_length_correct [of "[0x41, 0xe9, 0x20ac, 0x1f600]"] by simp

section \<open>URI escaping\<close>

lemma escape_uri_count_acc: "escape_uri_count e src n = n + length (filter (must_escape e) src)"
  by (induction src arbitrary: n) auto

text \<open>
  The counting call of \<open>ngx_escape_uri\<close> sizes the buffer exactly: the copying call
  writes the source length and two more bytes for each byte counted.
\<close>

theorem escape_uri_size:
  "length (ngx_escape_uri src type) = length src + 2 * ngx_escape_uri_null src type"
proof -
  have "length (escape_uri_copy e src) = length src + 2 * length (filter (must_escape e) src)"
    for e by (induction src) auto
  then show ?thesis
    by (simp add: ngx_escape_uri_def ngx_escape_uri_null_def escape_uri_count_acc)
qed

lemma escape_hex_digit:
  assumes "i < 16"
  shows "unescape_digit (escape_hex ! i) =
    (if i < 10 then Some (Inl (word_of_nat i)) else Some (Inr (word_of_nat i)))"
proof -
  have "list_all (\<lambda>i. unescape_digit (escape_hex ! i) =
    (if i < 10 then Some (Inl (word_of_nat i)) else Some (Inr (word_of_nat i)))) [0..<16]"
    by (simp add: upt_rec escape_hex_def unescape_digit_def)
  with assms show ?thesis by (simp add: list_all_iff)
qed

lemma nibbles:
  "unat (drop_bit 4 (c :: u_char)) < 16" "unat ((c :: u_char) AND 0xf) < 16"
  "push_bit 4 (drop_bit 4 c) + (c AND 0xf) = (c :: u_char)"
proof -
  have "list_all (\<lambda>c :: u_char. unat (drop_bit 4 c) < 16 \<and> unat (c AND 0xf) < 16 \<and>
      push_bit 4 (drop_bit 4 c) + (c AND 0xf) = c) all_bytes"
    by (simp add: all_bytes_code)
  from all_byteI [OF this, of c] show
    "unat (drop_bit 4 (c :: u_char)) < 16" "unat ((c :: u_char) AND 0xf) < 16"
    "push_bit 4 (drop_bit 4 c) + (c AND 0xf) = (c :: u_char)" by auto
qed

lemma unescape_quoted_byte:
  "unescape_loop 0 sw_usual d prev
     (0x25 # escape_hex ! unat (drop_bit 4 c) # escape_hex ! unat (c AND 0xf) # s) =
   (let (t, s') = unescape_loop 0 sw_usual (drop_bit 4 c) (escape_hex ! unat (c AND 0xf)) s
    in (c # t, s'))"
  using nibbles [of c]
  by (auto simp: escape_hex_digit unescape_second_def Let_def split: if_splits)

lemma unescape_escape_copy:
  assumes "must_escape e 0x25"
  shows "unescape_loop 0 sw_usual d p (escape_uri_copy e src) = (src, [])"
proof (induction src arbitrary: d p)
  case Nil
  then show ?case by simp
next
  case (Cons c src)
  show ?case
  proof (cases "must_escape e c")
    case True
    then show ?thesis using Cons by (simp add: unescape_quoted_byte del: unescape_loop.simps)
  next
    case False
    then have "c \<noteq> 0x25" using assms by auto
    then show ?thesis using Cons False by simp
  qed
qed


lemma percent_escaped:
  assumes "type < length escape_map" "type \<noteq> NGX_ESCAPE_REFRESH"
  shows "must_escape (escape_map ! type) 0x25"
proof -
  have "list_all (\<lambda>t. t \<noteq> NGX_ESCAPE_REFRESH \<longrightarrow> must_escape (escape_map ! t) 0x25)
      [0..<length escape_map]"
    by (simp add: escape_map_def upt_rec must_escape_def NGX_ESCAPE_REFRESH_def escape_uri_def
      escape_args_def escape_uri_component_def escape_html_def escape_memcached_def)
  with assms show ?thesis by (simp add: list_all_iff)
qed

text \<open>
  Unescaping inverts escaping: what \<open>ngx_escape_uri\<close> writes in any mode but
  \<open>NGX_ESCAPE_REFRESH\<close> is turned back into the source by a plain \<open>ngx_unescape_uri\<close>.
\<close>

theorem unescape_escape_uri:
  assumes "type < length escape_map" and "type \<noteq> NGX_ESCAPE_REFRESH"
  shows "ngx_unescape_uri (ngx_escape_uri src type) 0 = (src, [])"
  unfolding ngx_unescape_uri_def ngx_escape_uri_def
  by (rule unescape_escape_copy [OF percent_escaped [OF assms]])

theorem unescape_escape_uri_witness:
  "ngx_unescape_uri (ngx_escape_uri (str_bytes ''a b%?'') 1) 0 = (str_bytes ''a b%?'', [])"
  by (rule unescape_escape_uri) (simp_all add: escape_map_def NGX_ESCAPE_REFRESH_def)

text \<open>
  \<open>NGX_ESCAPE_REFRESH\<close> is the exception: its table leaves the percent sign alone, although
  the comment over it lists the percent sign, so a source that already holds an escape is not
  preserved.
\<close>

theorem escape_refresh_percent:
  "ngx_escape_uri (str_bytes ''%41'') NGX_ESCAPE_REFRESH = str_bytes ''%41'' \<and>
   ngx_unescape_uri (ngx_escape_uri (str_bytes ''%41'') NGX_ESCAPE_REFRESH) 0 = (str_bytes ''A'', [])"
  by (simp add: ngx_escape_uri_def ngx_unescape_uri_def escape_map_def NGX_ESCAPE_REFRESH_def
    escape_refresh_def must_escape_def unescape_digit_def unescape_second_def)

text \<open>
  How far the unescaped text can be ahead of the source position: at most the bytes of a
  quoted character that are read but not yet written.
\<close>

fun pending :: "unescape_state \<Rightarrow> nat" where
  "pending sw_usual = 0"
| "pending sw_quoted = 1"
| "pending sw_quoted_second = 2"

lemma unescape_loop_length:
  "length (fst (unescape_loop t st d p s)) + length (snd (unescape_loop t st d p s))
     \<le> length s + pending st"
proof (induction t st d p s rule: unescape_loop.induct)
  case (3 type decoded prev ch s)
  then show ?case by (fastforce simp: Let_def split: option.splits sum.splits prod.splits)
next
  case (4 type decoded prev ch s)
  then show ?case
    by (fastforce simp: Let_def unescape_second_def split: option.splits sum.splits prod.splits if_splits)
qed (auto simp: Let_def split: prod.splits)

text \<open>
  \<open>ngx_unescape_uri\<close> can work in place: in every mode it writes no more bytes than it has
  read.
\<close>

theorem unescape_in_place:
  "length (fst (ngx_unescape_uri src type)) + length (snd (ngx_unescape_uri src type)) \<le> length src"
  using unescape_loop_length [of type sw_usual 0 0 src] by (simp add: ngx_unescape_uri_def)

section \<open>HTML and JSON escaping\<close>

lemma escape_html_null_acc:
  "ngx_escape_html_null src len + length src = len + length (ngx_escape_html src)"
  by (induction src arbitrary: len) (auto simp: algebra_simps)

lemma escape_json_null_acc:
  "ngx_escape_json_null src len + length src = len + length (ngx_escape_json src)"
proof (induction src arbitrary: len)
  case Nil
  then show ?case by simp
next
  case (Cons ch src)
  show ?case
  proof (cases "ch > 0x1f")
    case True
    then show ?thesis using Cons [of len] Cons [of "len + 1"] by (auto simp: not_less)
  next
    case False
    then have "ch \<noteq> 0x5c" "ch \<noteq> 0x22" "ch \<le> 0x1f" by auto
    then show ?thesis using False Cons [of "len + 1"] Cons [of "len + 5"] by (simp add: Let_def)
  qed
qed

text \<open>
  The escaped HTML text holds no byte that opens or closes a tag or an attribute, and its
  length is what the counting call announces.
\<close>

theorem escape_html_safe:
  "set (ngx_escape_html src) \<inter> {0x3c, 0x3e, 0x22} = {} \<and>
   length (ngx_escape_html src) = length src + ngx_escape_html_null src 0"
proof
  show "set (ngx_escape_html src) \<inter> {0x3c, 0x3e, 0x22} = {}"
    by (induction src) auto
  show "length (ngx_escape_html src) = length src + ngx_escape_html_null src 0"
    using escape_html_null_acc [of src 0] by simp
qed

text \<open>
  The reading of a JSON string body: a backslash and what follows it stand for one byte.
\<close>

definition json_hex :: "u_char \<Rightarrow> u_char" where
  "json_hex c = (if c \<le> 0x39 then c - 0x30 else c - 0x41 + 10)"

fun json_unescape :: "bytes \<Rightarrow> bytes" where
  "json_unescape (c # e # s) =
     (if c \<noteq> 0x5c then c # json_unescape (e # s)
      else if e = 0x6e then 0x0a # json_unescape s
      else if e = 0x72 then 0x0d # json_unescape s
      else if e = 0x74 then 0x09 # json_unescape s
      else if e = 0x62 then 0x08 # json_unescape s
      else if e = 0x66 then 0x0c # json_unescape s
      else if e = 0x75 then
        (case s of a # b # h # l # s' \<Rightarrow> (push_bit 4 (json_hex h) + json_hex l) # json_unescape s'
         | _ \<Rightarrow> [])
      else e # json_unescape s)"
| "json_unescape s = s"

lemma json_control:
  "ch \<le> 0x1f \<Longrightarrow>
   push_bit 4 (json_hex (0x30 + drop_bit 4 ch)) +
     json_hex (let c = ch AND 0xf in if c < 10 then 0x30 + c else 0x41 + c - 10) = (ch :: u_char) \<and>
   0x20 \<le> 0x30 + drop_bit 4 ch \<and>
   0x20 \<le> (let c = ch AND 0xf in if c < 10 then 0x30 + c else 0x41 + c - 10)"
  using all_byteI [of "\<lambda>ch. ch \<le> 0x1f \<longrightarrow>
   push_bit 4 (json_hex (0x30 + drop_bit 4 ch)) +
     json_hex (let c = ch AND 0xf in if c < 10 then 0x30 + c else 0x41 + c - 10) = ch \<and>
   0x20 \<le> 0x30 + drop_bit 4 ch \<and>
   0x20 \<le> (let c = ch AND 0xf in if c < 10 then 0x30 + c else 0x41 + c - 10)" ch]
  by (simp add: all_bytes_code json_hex_def Let_def)

lemma json_unescape_plain: "c \<noteq> 0x5c \<Longrightarrow> json_unescape (c # s) = c # json_unescape s"
  by (cases s) auto

lemma json_unescape_escape: "json_unescape (ngx_escape_json src) = src"
proof (induction src)
  case Nil
  then show ?case by simp
next
  case (Cons ch src)
  show ?case
  proof (cases "ch > 0x1f")
    case True
    then show ?thesis using Cons by (auto simp: json_unescape_plain)
  next
    case False
    then have "ch \<le> 0x1f" by simp
    from json_control [OF this] False show ?thesis using Cons by (simp add: Let_def)
  qed
qed

text \<open>
  The escaped JSON text has no control character, is sized by the counting call, and reads
  back as the source.
\<close>

theorem escape_json_roundtrip:
  "json_unescape (ngx_escape_json src) = src \<and> list_all (\<lambda>c. 0x20 \<le> c) (ngx_escape_json src) \<and>
   length (ngx_escape_json src) = length src + ngx_escape_json_null src 0"
proof (intro conjI)
  show "json_unescape (ngx_escape_json src) = src" by (rule json_unescape_escape)
  show "list_all (\<lambda>c. 0x20 \<le> c) (ngx_escape_json src)"
  proof (induction src)
    case Nil
    then show ?case by simp
  next
    case (Cons ch src)
    have "ch > 0x1f \<Longrightarrow> 0x20 \<le> ch" by unat_arith
    then show ?case using Cons json_control [of ch] by (auto simp: Let_def not_less)
  qed
  show "length (ngx_escape_json src) = length src + ngx_escape_json_null src 0"
    using escape_json_null_acc [of src 0] by simp
qed

end
