(* ===== verification/Upstream_RR.thy ===== *)
theory Upstream_RR
  imports Prelude
begin

text \<open>
  The weighted round-robin balancer, \<open>http/ngx_http_upstream_round_robin.c\<close>: building the
  peers from the configuration, the per-request data with its bitmap of tried peers, the
  choice of a peer (smooth weighted round robin), the fall-back to the backup group, and the
  accounting when a peer is released. Weights are \<open>ngx_int_t\<close> and modelled as \<open>int\<close> (configured weights
  are positive). The counters are \<open>ngx_uint_t\<close> words. The locks of
  shared zones and the SSL sessions are left out: each operation is one critical section.
\<close>

section \<open>Peers\<close>

record rr_peer =
  sockaddr :: bytes
  name :: bytes
  server :: bytes
  current_weight :: int
  effective_weight :: int
  weight :: int
  conns :: u64
  max_conns :: u64
  fails :: u64
  accessed :: int
  checked :: int
  max_fails :: u64
  fail_timeout :: int
  down :: bool

text \<open>A group of peers and, behind \<open>next\<close>, its backup group.\<close>

datatype rr_peers = RR_Peers
  (number: nat) (total_weight: int) (single: bool) (weighted: bool) (peers_name: bytes)
  (peer: "rr_peer list") (next_peers: "rr_peers option")

definition set_peer :: "rr_peer list \<Rightarrow> rr_peers \<Rightarrow> rr_peers" where
  "set_peer ps g = RR_Peers (number g) (total_weight g) (single g) (weighted g) (peers_name g) ps
     (next_peers g)"

definition set_next :: "rr_peers option \<Rightarrow> rr_peers \<Rightarrow> rr_peers" where
  "set_next nx g = RR_Peers (number g) (total_weight g) (single g) (weighted g) (peers_name g)
     (peer g) nx"

section \<open>Building the peers\<close>

record upstream_server =
  srv_name :: bytes
  addrs :: "(bytes \<times> bytes) list"
  srv_weight :: int
  srv_max_conns :: u64
  srv_max_fails :: u64
  srv_fail_timeout :: int
  srv_down :: bool
  backup :: bool

definition peer_of_addr :: "upstream_server \<Rightarrow> bytes \<times> bytes \<Rightarrow> rr_peer" where
  "peer_of_addr srv a =
     \<lparr>sockaddr = fst a, name = snd a, server = srv_name srv, current_weight = 0,
      effective_weight = srv_weight srv, weight = srv_weight srv, conns = 0,
      max_conns = srv_max_conns srv, fails = 0, accessed = 0, checked = 0,
      max_fails = srv_max_fails srv, fail_timeout = srv_fail_timeout srv, down = srv_down srv\<rparr>"

text \<open>The two counting loops and the two filling loops, for primary or backup servers.\<close>

fun count_servers :: "bool \<Rightarrow> upstream_server list \<Rightarrow> nat \<Rightarrow> int \<Rightarrow> nat \<times> int" where
  "count_servers b [] n w = (n, w)"
| "count_servers b (srv # servers) n w =
     (if backup srv \<noteq> b then count_servers b servers n w
      else count_servers b servers (n + length (addrs srv))
             (w + int (length (addrs srv)) * srv_weight srv))"

fun fill_peers :: "bool \<Rightarrow> upstream_server list \<Rightarrow> rr_peer list" where
  "fill_peers b [] = []"
| "fill_peers b (srv # servers) =
     (if backup srv \<noteq> b then fill_peers b servers
      else map (peer_of_addr srv) (addrs srv) @ fill_peers b servers)"

definition ngx_http_upstream_init_round_robin :: "bytes \<Rightarrow> upstream_server list \<Rightarrow> rr_peers option" where
  "ngx_http_upstream_init_round_robin host servers =
     (let (n, w) = count_servers False servers 0 0 in
      if n = 0 then None
      else
        let peers = RR_Peers n w (n = 1) (w \<noteq> int n) host (fill_peers False servers) None;
            (bn, bw) = count_servers True servers 0 0
        in if bn = 0 then Some peers
           else
             let bk = RR_Peers bn bw False (bw \<noteq> int bn) host (fill_peers True servers) None
             in Some (RR_Peers n w False (w \<noteq> int n) host (fill_peers False servers) (Some bk)))"

text \<open>
  An upstream that is only named in \<open>proxy_pass\<close>: one peer per address the host resolves to;
  the resolver is a parameter.
\<close>

definition init_round_robin_implicit ::
  "(bytes \<Rightarrow> nat \<Rightarrow> (bytes \<times> bytes) list option) \<Rightarrow> bytes \<Rightarrow> nat \<Rightarrow> rr_peers option" where
  "init_round_robin_implicit ngx_inet_resolve_host host port =
     (if port = 0 then None
      else case ngx_inet_resolve_host host port of None \<Rightarrow> None | Some as \<Rightarrow> Some
     (RR_Peers (length as) (int (length as)) (length as = 1) False host
       (map (\<lambda>a. \<lparr>sockaddr = fst a, name = snd a, server = [], current_weight = 0,
          effective_weight = 1, weight = 1, conns = 0, max_conns = 0, fails = 0, accessed = 0,
          checked = 0, max_fails = 1, fail_timeout = 10, down = False\<rparr>) as) None))"

section \<open>Per-request data\<close>

text \<open>
  \<open>rrp->peers\<close> is the group in use, given by how many \<open>next\<close> links lead to it; \<open>current\<close> is
  the index of the chosen peer in that group; \<open>tried\<close> is the bitmap of tried peers.
\<close>

record rr_peer_data =
  depth :: nat
  current :: "nat option"
  tried :: "u64 list"

record peer_connection =
  cached :: bool
  pc_sockaddr :: bytes
  pc_name :: bytes
  tries :: u64

definition ngx_http_upstream_tries :: "rr_peers \<Rightarrow> nat" where
  "ngx_http_upstream_tries p =
     number p + (case next_peers p of None \<Rightarrow> 0 | Some b \<Rightarrow> number b)"

definition tried_words :: "nat \<Rightarrow> nat" where
  "tried_words n = (n + (8 * 8 - 1)) div (8 * 8)"

definition ngx_http_upstream_init_round_robin_peer ::
  "rr_peers \<Rightarrow> peer_connection \<Rightarrow> rr_peer_data \<times> peer_connection" where
  "ngx_http_upstream_init_round_robin_peer peers pc =
     (let n = number peers;
          n = (case next_peers peers of None \<Rightarrow> n | Some b \<Rightarrow> if number b > n then number b else n);
          tr = (if n \<le> 8 * 8 then [0] else replicate (tried_words n) 0)
      in (\<lparr>depth = 0, current = None, tried = tr\<rparr>,
          pc\<lparr>tries := word_of_nat (ngx_http_upstream_tries peers)\<rparr>))"

definition is_tried :: "u64 list \<Rightarrow> nat \<Rightarrow> bool" where
  "is_tried tr i \<longleftrightarrow> (tr ! (i div 64)) AND push_bit (i mod 64) 1 \<noteq> 0"

definition mark_tried :: "u64 list \<Rightarrow> nat \<Rightarrow> u64 list" where
  "mark_tried tr p = tr[p div 64 := (tr ! (p div 64)) OR push_bit (p mod 64) 1]"

section \<open>Choosing a peer\<close>

text \<open>The four reasons the loop of \<open>ngx_http_upstream_get_peer\<close> skips a peer.\<close>

definition skip_peer :: "int \<Rightarrow> u64 list \<Rightarrow> nat \<Rightarrow> rr_peer \<Rightarrow> bool" where
  "skip_peer now tr i p \<longleftrightarrow>
     is_tried tr i \<or> down p
     \<or> (max_fails p \<noteq> 0 \<and> fails p \<ge> max_fails p \<and> now - checked p \<le> fail_timeout p)
     \<or> (max_conns p \<noteq> 0 \<and> conns p \<ge> max_conns p)"

definition raise_peer :: "rr_peer \<Rightarrow> rr_peer" where
  "raise_peer p =
     (let p1 = p\<lparr>current_weight := current_weight p + effective_weight p\<rparr> in
      if effective_weight p1 < weight p1
      then p1\<lparr>effective_weight := effective_weight p1 + 1\<rparr> else p1)"

text \<open>
  The loop, with \<open>best\<close> as the index \<open>p\<close> and the current weight of the best peer so far. It
  returns the updated peers, the best and the total.
\<close>

fun get_peer_loop :: "int \<Rightarrow> u64 list \<Rightarrow> nat \<Rightarrow> rr_peer list \<Rightarrow> (nat \<times> int) option \<Rightarrow> int
    \<Rightarrow> rr_peer list \<times> (nat \<times> int) option \<times> int" where
  "get_peer_loop now tr i [] best tot = ([], best, tot)"
| "get_peer_loop now tr i (p # ps) best tot =
     (if skip_peer now tr i p then
        (let (ps', best', tot') = get_peer_loop now tr (Suc i) ps best tot in (p # ps', best', tot'))
      else
        let p' = raise_peer p;
            best1 = (case best of
                       None \<Rightarrow> Some (i, current_weight p')
                     | Some (b, bw) \<Rightarrow>
                         if current_weight p' > bw then Some (i, current_weight p') else best);
            (ps', best', tot') =
              get_peer_loop now tr (Suc i) ps best1 (tot + effective_weight p)
        in (p' # ps', best', tot'))"

definition take_peer :: "int \<Rightarrow> int \<Rightarrow> rr_peer \<Rightarrow> rr_peer" where
  "take_peer now tot b =
     (let b1 = b\<lparr>current_weight := current_weight b - tot\<rparr> in
      if now - checked b1 > fail_timeout b1 then b1\<lparr>checked := now\<rparr> else b1)"

definition ngx_http_upstream_get_peer ::
  "int \<Rightarrow> u64 list \<Rightarrow> rr_peer list \<Rightarrow> (rr_peer list \<times> u64 list \<times> nat) option" where
  "ngx_http_upstream_get_peer now tr ps =
     (case get_peer_loop now tr 0 ps None 0 of
        (_, None, _) \<Rightarrow> None
      | (ps', Some (p, _), tot) \<Rightarrow>
          Some (ps'[p := take_peer now tot (ps' ! p)], mark_tried tr p, p))"

datatype rr_rc = RR_OK | RR_BUSY

text \<open>
  The handler: on success the chosen peer's connection count goes up; on failure it starts
  over with the backup group and a cleared bitmap.
\<close>

function ngx_http_upstream_get_round_robin_peer ::
  "int \<Rightarrow> rr_peers \<Rightarrow> rr_peer_data \<Rightarrow> peer_connection
    \<Rightarrow> rr_peers \<times> rr_peer_data \<times> peer_connection \<times> rr_rc" where
  "ngx_http_upstream_get_round_robin_peer now peers rrp pc =
     (let pc1 = pc\<lparr>cached := False\<rparr>;
          picked =
            (if single peers then
               (case peer peers of
                  p # _ \<Rightarrow>
                    if down p \<or> (max_conns p \<noteq> 0 \<and> conns p \<ge> max_conns p) then None
                    else Some (peer peers, tried rrp, 0)
                | [] \<Rightarrow> None)
             else ngx_http_upstream_get_peer now (tried rrp) (peer peers))
      in case picked of
           Some (ps, tr, i) \<Rightarrow>
             (set_peer (ps[i := (ps ! i)\<lparr>conns := conns (ps ! i) + 1\<rparr>]) peers,
              rrp\<lparr>current := Some i, tried := tr\<rparr>,
              pc1\<lparr>pc_sockaddr := sockaddr (ps ! i), pc_name := name (ps ! i)\<rparr>, RR_OK)
         | None \<Rightarrow>
             (case next_peers peers of
                Some bk \<Rightarrow>
                  (let rrp1 = rrp\<lparr>depth := Suc (depth rrp),
                         tried := replicate (tried_words (number bk)) 0
                                  @ drop (tried_words (number bk)) (tried rrp)\<rparr>;
                       (bk', rrp', pc', rc) =
                         ngx_http_upstream_get_round_robin_peer now bk rrp1 pc1
                   in if rc \<noteq> RR_BUSY then (set_next (Some bk') peers, rrp', pc', rc)
                      else (set_next (Some bk') peers, rrp',
                            pc'\<lparr>pc_name := peers_name peers\<rparr>, RR_BUSY))
              | None \<Rightarrow> (peers, rrp, pc1\<lparr>pc_name := peers_name peers\<rparr>, RR_BUSY)))"
  by pat_completeness auto
termination
  by (relation "measure (\<lambda>(now, peers, rrp, pc). size peers)")
    (auto, case_tac peers, auto)

section \<open>Releasing a peer\<close>

definition NGX_PEER_FAILED :: u64 where "NGX_PEER_FAILED = 4"

definition release_peer :: "int \<Rightarrow> u64 \<Rightarrow> rr_peer \<Rightarrow> rr_peer" where
  "release_peer now state p =
     (let p1 =
        (if state AND NGX_PEER_FAILED \<noteq> 0 then
           let p2 = p\<lparr>fails := fails p + 1, accessed := now, checked := now\<rparr>;
               p3 = (if max_fails p2 \<noteq> 0
                     then p2\<lparr>effective_weight :=
                            effective_weight p2 - weight p2 div uint (max_fails p2)\<rparr>
                     else p2)
           in if effective_weight p3 < 0 then p3\<lparr>effective_weight := 0\<rparr> else p3
         else if accessed p < checked p then p\<lparr>fails := 0\<rparr> else p)
      in p1\<lparr>conns := conns p1 - 1\<rparr>)"

fun free_at :: "nat \<Rightarrow> nat \<Rightarrow> int \<Rightarrow> u64 \<Rightarrow> rr_peers \<Rightarrow> rr_peers" where
  "free_at 0 i now state g =
     (let p = peer g ! i in
      set_peer ((peer g)[i := if single g then p\<lparr>conns := conns p - 1\<rparr>
                              else release_peer now state p]) g)"
| "free_at (Suc d) i now state g =
     set_next (map_option (free_at d i now state) (next_peers g)) g"

fun group_at :: "nat \<Rightarrow> rr_peers \<Rightarrow> rr_peers option" where
  "group_at 0 g = Some g"
| "group_at (Suc d) g = (case next_peers g of None \<Rightarrow> None | Some b \<Rightarrow> group_at d b)"

definition ngx_http_upstream_free_round_robin_peer ::
  "int \<Rightarrow> rr_peers \<Rightarrow> rr_peer_data \<Rightarrow> peer_connection \<Rightarrow> u64 \<Rightarrow> rr_peers \<times> peer_connection" where
  "ngx_http_upstream_free_round_robin_peer now peers rrp pc state =
     (case (group_at (depth rrp) peers, current rrp) of
        (Some g, Some i) \<Rightarrow>
          (free_at (depth rrp) i now state peers,
           if single g then pc\<lparr>tries := 0\<rparr>
           else if tries pc \<noteq> 0 then pc\<lparr>tries := tries pc - 1\<rparr> else pc)
      | _ \<Rightarrow> (peers, pc))"


section \<open>What the loop computes\<close>

definition loop_peers :: "int \<Rightarrow> u64 list \<Rightarrow> nat \<Rightarrow> rr_peer list \<Rightarrow> rr_peer list" where
  "loop_peers now tr i ps =
     map (\<lambda>k. if skip_peer now tr (i + k) (ps ! k) then ps ! k else raise_peer (ps ! k)) [0..<length ps]"

definition eligible_weight :: "int \<Rightarrow> u64 list \<Rightarrow> nat \<Rightarrow> rr_peer list \<Rightarrow> int" where
  "eligible_weight now tr i ps =
     (\<Sum>k<length ps. if skip_peer now tr (i + k) (ps ! k) then 0 else effective_weight (ps ! k))"

lemma loop_peers_simps [simp]:
  "loop_peers now tr i [] = []"
  "loop_peers now tr i (p # ps) =
     (if skip_peer now tr i p then p else raise_peer p) # loop_peers now tr (Suc i) ps"
  by (simp_all add: loop_peers_def upt_conv_Cons map_Suc_upt [symmetric] del: upt_Suc map_Suc_upt)

lemma eligible_weight_simps [simp]:
  "eligible_weight now tr i [] = 0"
  "eligible_weight now tr i (p # ps) =
     (if skip_peer now tr i p then 0 else effective_weight p) + eligible_weight now tr (Suc i) ps"
  by (simp_all add: eligible_weight_def sum.lessThan_Suc_shift
    del: sum.lessThan_Suc cong: if_cong)

lemma length_loop_peers [simp]: "length (loop_peers now tr i ps) = length ps"
  by (simp add: loop_peers_def)

lemma loop_peers_nth:
  "k < length ps \<Longrightarrow> loop_peers now tr i ps ! k =
     (if skip_peer now tr (i + k) (ps ! k) then ps ! k else raise_peer (ps ! k))"
  by (simp add: loop_peers_def)

lemma raise_peer_simps [simp]:
  "current_weight (raise_peer p) = current_weight p + effective_weight p"
  "weight (raise_peer p) = weight p" "down (raise_peer p) = down p"
  "conns (raise_peer p) = conns p" "max_conns (raise_peer p) = max_conns p"
  "fails (raise_peer p) = fails p" "max_fails (raise_peer p) = max_fails p"
  "checked (raise_peer p) = checked p" "fail_timeout (raise_peer p) = fail_timeout p"
  "effective_weight (raise_peer p) =
     (if effective_weight p < weight p then effective_weight p + 1 else effective_weight p)"
  by (simp_all add: raise_peer_def Let_def)

text \<open>The weight a peer competes with in one round, and the best after it.\<close>

definition bid :: "rr_peer \<Rightarrow> int" where
  "bid p = current_weight p + effective_weight p"

definition better :: "(nat \<times> int) option \<Rightarrow> nat \<Rightarrow> rr_peer \<Rightarrow> (nat \<times> int) option" where
  "better best i p =
     (case best of None \<Rightarrow> Some (i, bid p)
      | Some (b, bw) \<Rightarrow> if bid p > bw then Some (i, bid p) else best)"

lemma get_peer_loop_skip:
  "skip_peer now tr i p \<Longrightarrow> get_peer_loop now tr i (p # ps) best tot =
     (let r = get_peer_loop now tr (Suc i) ps best tot in (p # fst r, snd r))"
  by (simp add: Let_def split: prod.splits)

lemma get_peer_loop_take:
  "\<not> skip_peer now tr i p \<Longrightarrow> get_peer_loop now tr i (p # ps) best tot =
     (let r = get_peer_loop now tr (Suc i) ps (better best i p) (tot + effective_weight p)
      in (raise_peer p # fst r, snd r))"
  unfolding better_def bid_def raise_peer_simps(1) [symmetric]
  by (simp add: Let_def del: raise_peer_simps split: prod.splits)

lemmas get_peer_loop_cases = get_peer_loop.simps(1) get_peer_loop_skip get_peer_loop_take

declare get_peer_loop.simps(2) [simp del]

lemma get_peer_loop_peers:
  "fst (get_peer_loop now tr i ps best tot) = loop_peers now tr i ps"
  by (induction ps arbitrary: i best tot)
    (simp, case_tac "skip_peer now tr i a", simp_all add: get_peer_loop_cases Let_def)

lemma get_peer_loop_total:
  "snd (snd (get_peer_loop now tr i ps best tot)) = tot + eligible_weight now tr i ps"
  by (induction ps arbitrary: i best tot)
    (simp, case_tac "skip_peer now tr i a", simp_all add: get_peer_loop_cases Let_def)

text \<open>The eligible peers with their indices; the loop is a fold over them.\<close>

definition candidates :: "int \<Rightarrow> u64 list \<Rightarrow> nat \<Rightarrow> rr_peer list \<Rightarrow> (nat \<times> rr_peer) list" where
  "candidates now tr i ps = filter (\<lambda>(k, p). \<not> skip_peer now tr k p) (enumerate i ps)"

definition fold_better :: "(nat \<times> rr_peer) list \<Rightarrow> (nat \<times> int) option \<Rightarrow> (nat \<times> int) option" where
  "fold_better es best = foldl (\<lambda>b (k, p). better b k p) best es"

lemma get_peer_loop_best:
  "fst (snd (get_peer_loop now tr i ps best tot)) = fold_better (candidates now tr i ps) best"
  by (induction ps arbitrary: i best tot)
    (simp add: fold_better_def candidates_def, case_tac "skip_peer now tr i a",
      simp_all add: get_peer_loop_cases Let_def fold_better_def candidates_def)

lemma fold_better_spec:
  assumes "sorted_wrt (\<lambda>x y. fst x < fst y) es"
  shows "case fold_better es None of
      None \<Rightarrow> es = []
    | Some (b, bw) \<Rightarrow> (\<exists>p. (b, p) \<in> set es \<and> bw = bid p) \<and>
        (\<forall>(k, q)\<in>set es. bid q \<le> bw \<and> (k < b \<longrightarrow> bid q < bw))"
  using assms
proof (induction es rule: rev_induct)
  case Nil
  then show ?case by (simp add: fold_better_def)
next
  case (snoc e es)
  obtain k p where e: "e = (k, p)" by (cases e)
  have srt: "sorted_wrt (\<lambda>x y. fst x < fst y) es" and last: "\<forall>(j, q)\<in>set es. j < k"
    using snoc.prems by (auto simp: sorted_wrt_append e)
  have step: "fold_better (es @ [e]) None = better (fold_better es None) k p"
    by (simp add: fold_better_def e)
  show ?case
  proof (cases "fold_better es None")
    case None
    then have "es = []" using snoc.IH [OF srt] by simp
    then show ?thesis by (simp add: fold_better_def better_def e)
  next
    case (Some r)
    then show ?thesis using snoc.IH [OF srt] last unfolding step
      by (cases r) (fastforce simp: better_def e)
  qed
qed

lemma set_candidates:
  "(k, p) \<in> set (candidates now tr 0 ps) \<longleftrightarrow>
     k < length ps \<and> p = ps ! k \<and> \<not> skip_peer now tr k p"
  by (auto simp: candidates_def in_set_enumerate_eq)

lemma sorted_candidates: "sorted_wrt (\<lambda>x y. fst x < fst y) (candidates now tr i ps)"
  unfolding candidates_def
  by (rule sorted_wrt_filter) (simp add: sorted_wrt_iff_nth_less nth_enumerate_eq)

section \<open>What a choice does\<close>

lemma get_peer_eq:
  "ngx_http_upstream_get_peer now tr ps =
     (case fold_better (candidates now tr 0 ps) None of
        None \<Rightarrow> None
      | Some (p, _) \<Rightarrow>
          let qs = loop_peers now tr 0 ps
          in Some (qs[p := take_peer now (eligible_weight now tr 0 ps) (qs ! p)], mark_tried tr p, p))"
proof -
  obtain qs b t where l: "get_peer_loop now tr 0 ps None 0 = (qs, b, t)"
    by (cases "get_peer_loop now tr 0 ps None 0") auto
  have "qs = loop_peers now tr 0 ps" "b = fold_better (candidates now tr 0 ps) None"
    "t = eligible_weight now tr 0 ps"
    using get_peer_loop_peers [of now tr 0 ps None 0] get_peer_loop_best [of now tr 0 ps None 0]
      get_peer_loop_total [of now tr 0 ps None 0] by (simp_all add: l)
  then show ?thesis
    by (simp add: ngx_http_upstream_get_peer_def l Let_def split: option.splits prod.splits)
qed

lemma get_peer_None:
  "ngx_http_upstream_get_peer now tr ps = None \<longleftrightarrow> (\<forall>k<length ps. skip_peer now tr k (ps ! k))"
proof -
  have "ngx_http_upstream_get_peer now tr ps = None \<longleftrightarrow>
      fold_better (candidates now tr 0 ps) None = None"
    by (simp add: get_peer_eq Let_def split: option.splits prod.splits)
  also have "\<dots> \<longleftrightarrow> candidates now tr 0 ps = []"
    using fold_better_spec [OF sorted_candidates [of now tr 0 ps]]
    by (auto simp: fold_better_def split: option.splits)
  also have "\<dots> \<longleftrightarrow> (\<forall>k<length ps. skip_peer now tr k (ps ! k))"
    by (metis set_candidates last_in_set prod.collapse list.set(1) empty_iff)
  finally show ?thesis .
qed

lemma get_peer_Some:
  assumes "ngx_http_upstream_get_peer now tr ps = Some (ps', tr', p)"
  shows "p < length ps" "\<not> skip_peer now tr p (ps ! p)" "tr' = mark_tried tr p"
    "ps' = (loop_peers now tr 0 ps)
       [p := take_peer now (eligible_weight now tr 0 ps) (raise_peer (ps ! p))]"
    "\<forall>k<length ps. \<not> skip_peer now tr k (ps ! k) \<longrightarrow>
       bid (ps ! k) \<le> bid (ps ! p) \<and> (k < p \<longrightarrow> bid (ps ! k) < bid (ps ! p))"
proof -
  obtain bw where f: "fold_better (candidates now tr 0 ps) None = Some (p, bw)"
    and r: "tr' = mark_tried tr p" "ps' = (loop_peers now tr 0 ps)
       [p := take_peer now (eligible_weight now tr 0 ps) (loop_peers now tr 0 ps ! p)]"
    using assms by (auto simp: get_peer_eq Let_def split: option.splits)
  note s = fold_better_spec [OF sorted_candidates [of now tr 0 ps], unfolded f, simplified]
  from s show p: "p < length ps" "\<not> skip_peer now tr p (ps ! p)" by (auto simp: set_candidates)
  from r(1) show "tr' = mark_tried tr p" .
  from r(2) p show "ps' = (loop_peers now tr 0 ps)
       [p := take_peer now (eligible_weight now tr 0 ps) (raise_peer (ps ! p))]"
    by (simp add: loop_peers_nth)
  from s show "\<forall>k<length ps. \<not> skip_peer now tr k (ps ! k) \<longrightarrow>
       bid (ps ! k) \<le> bid (ps ! p) \<and> (k < p \<longrightarrow> bid (ps ! k) < bid (ps ! p))"
    by (fastforce simp: set_candidates)
qed

text \<open>
  \<open>ngx_http_upstream_get_peer\<close> finds no peer exactly when every peer is to be skipped;
  otherwise it takes an eligible peer whose raised current weight is the largest among the
  eligible ones, the first such peer, and marks it in the bitmap.
\<close>

theorem get_peer_selects:
  "case ngx_http_upstream_get_peer now tr ps of
     None \<Rightarrow> list_all (\<lambda>k. skip_peer now tr k (ps ! k)) [0..<length ps]
   | Some (ps', tr', p) \<Rightarrow> p < length ps \<and> \<not> skip_peer now tr p (ps ! p) \<and> tr' = mark_tried tr p \<and>
       list_all (\<lambda>k. skip_peer now tr k (ps ! k) \<or> bid (ps ! k) < bid (ps ! p)
          \<or> (bid (ps ! k) = bid (ps ! p) \<and> p \<le> k)) [0..<length ps]"
proof (cases "ngx_http_upstream_get_peer now tr ps")
  case None
  then have "\<forall>k<length ps. skip_peer now tr k (ps ! k)" by (simp only: get_peer_None)
  then show ?thesis unfolding None by (simp add: list_all_iff)
next
  case (Some r)
  obtain ps' tr' p where r: "r = (ps', tr', p)" by (cases r)
  note g = get_peer_Some [OF Some [unfolded r]]
  from g(5) have "\<forall>k<length ps. skip_peer now tr k (ps ! k) \<or> bid (ps ! k) < bid (ps ! p)
          \<or> (bid (ps ! k) = bid (ps ! p) \<and> p \<le> k)" by force
  with g(1-3) show ?thesis by (simp add: Some r list_all_iff)
qed

text \<open>The current weights always add up to what they added up to before.\<close>

definition weight_sum :: "rr_peer list \<Rightarrow> int" where
  "weight_sum ps = sum_list (map current_weight ps)"

lemma weight_sum_loop:
  "weight_sum (loop_peers now tr i ps) = weight_sum ps + eligible_weight now tr i ps"
  by (induction ps arbitrary: i) (auto simp: weight_sum_def)

lemma take_peer_simps [simp]:
  "current_weight (take_peer now t p) = current_weight p - t"
  "effective_weight (take_peer now t p) = effective_weight p" "weight (take_peer now t p) = weight p"
  "conns (take_peer now t p) = conns p" "max_conns (take_peer now t p) = max_conns p"
  "down (take_peer now t p) = down p" "fails (take_peer now t p) = fails p"
  "max_fails (take_peer now t p) = max_fails p"
  by (simp_all add: take_peer_def Let_def)

lemma weight_sum_update:
  "p < length ps \<Longrightarrow> weight_sum (ps[p := q]) = weight_sum ps - current_weight (ps ! p) + current_weight q"
proof (induction ps arbitrary: p)
  case (Cons a ps)
  then show ?case by (cases p) (simp_all add: weight_sum_def)
qed simp

text \<open>
  A choice keeps the sum of all current weights: what the eligible peers gain, the chosen
  peer pays.
\<close>

theorem get_peer_weight_sum:
  "case ngx_http_upstream_get_peer now tr ps of
     None \<Rightarrow> True
   | Some (ps', tr', p) \<Rightarrow> weight_sum ps' = weight_sum ps \<and> length ps' = length ps"
proof (cases "ngx_http_upstream_get_peer now tr ps")
  case (Some r)
  obtain ps' tr' p where r: "r = (ps', tr', p)" by (cases r)
  note g = get_peer_Some [OF Some [unfolded r]]
  have "loop_peers now tr 0 ps ! p = raise_peer (ps ! p)"
    using g(1,2) by (simp add: loop_peers_nth)
  then have "weight_sum ps' = weight_sum ps" unfolding g(4)
    using g(1) by (simp add: weight_sum_update weight_sum_loop)
  then show ?thesis by (simp add: Some r g(4))
qed simp

section \<open>Fairness\<close>

text \<open>
  A scheduler that raises every current weight by its weight, takes the largest and charges
  it the sum of the weights. The provider promises one round; the client's results are about
  any number of rounds.
\<close>

locale smooth_scheduler =
  fixes inv :: "'s \<Rightarrow> bool"
    and weights :: "'s \<Rightarrow> int list"
    and cws :: "'s \<Rightarrow> int list"
    and step :: "'i \<Rightarrow> 's \<Rightarrow> nat \<times> 's"
  assumes shape: "inv s \<Longrightarrow> length (cws s) = length (weights s) \<and> (\<forall>w\<in>set (weights s). 0 \<le> w)
      \<and> 0 < sum_list (weights s)"
    and step_keeps: "inv s \<Longrightarrow> step x s = (b, s') \<Longrightarrow> inv s' \<and> weights s' = weights s"
    and step_best: "inv s \<Longrightarrow> step x s = (b, s') \<Longrightarrow> b < length (weights s) \<and>
      (\<forall>i<length (weights s). cws s ! i + weights s ! i \<le> cws s ! b + weights s ! b)"
    and step_cws: "inv s \<Longrightarrow> step x s = (b, s') \<Longrightarrow> i < length (weights s) \<Longrightarrow>
      cws s' ! i = cws s ! i + weights s ! i - (if i = b then sum_list (weights s) else 0)"
begin

fun run :: "'i list \<Rightarrow> 's \<Rightarrow> nat list \<times> 's" where
  "run [] s = ([], s)"
| "run (x # xs) s =
     (let (b, s1) = step x s; (bs, s2) = run xs s1 in (b # bs, s2))"

definition balanced :: "'s \<Rightarrow> bool" where
  "balanced s \<longleftrightarrow> inv s \<and> (\<Sum>i<length (weights s). cws s ! i) = 0 \<and>
     (\<forall>i<length (weights s). - sum_list (weights s) < cws s ! i)"

lemma sum_weights: "inv s \<Longrightarrow> (\<Sum>i<length (weights s). weights s ! i) = sum_list (weights s)"
  by (simp add: sum_list_sum_nth atLeast0LessThan)

lemma step_balanced:
  assumes bal: "balanced s" and st: "step x s = (b, s')"
  shows "balanced s'"
proof -
  let ?n = "length (weights s)" and ?W = "sum_list (weights s)"
  have inv: "inv s" using bal by (simp add: balanced_def)
  note keeps = step_keeps [OF inv st] and best = step_best [OF inv st]
  have W: "0 < ?W" using shape [OF inv] by simp
  have bn: "b < ?n" using best by simp
  have "(\<Sum>i<?n. cws s' ! i) = (\<Sum>i<?n. cws s ! i + weights s ! i - (if i = b then ?W else 0))"
    by (rule sum.cong) (simp_all add: step_cws [OF inv st])
  also have "\<dots> = (\<Sum>i<?n. cws s ! i) + ?W - ?W"
    using bn by (simp add: sum.distrib sum_subtractf sum_weights [OF inv] sum.delta)
  finally have zero: "(\<Sum>i<?n. cws s' ! i) = 0" using bal by (simp add: balanced_def)
  have pos: "0 < cws s ! b + weights s ! b"
  proof (rule ccontr)
    assume "\<not> 0 < cws s ! b + weights s ! b"
    then have "(\<Sum>i<?n. cws s ! i + weights s ! i) \<le> 0"
      using best by (intro sum_nonpos) (fastforce dest: order_trans)
    then show False using bal W by (simp add: balanced_def sum.distrib sum_weights [OF inv])
  qed
  have "- ?W < cws s' ! i" if i: "i < ?n" for i
  proof (cases "i = b")
    case True
    then show ?thesis using pos i by (simp add: step_cws [OF inv st])
  next
    case False
    have "0 \<le> weights s ! i" using shape [OF inv] i by simp
    moreover have "- ?W < cws s ! i" using bal i by (simp add: balanced_def)
    ultimately show ?thesis using False i by (simp add: step_cws [OF inv st])
  qed
  with zero keeps show ?thesis by (simp add: balanced_def)
qed

lemma run_balanced:
  "balanced s \<Longrightarrow> run xs s = (bs, s') \<Longrightarrow> balanced s' \<and> weights s' = weights s"
proof (induction xs arbitrary: s bs)
  case (Cons x xs)
  obtain b s1 where st: "step x s = (b, s1)" by (cases "step x s")
  have "balanced s1" "weights s1 = weights s"
    using step_balanced [OF Cons.prems(1) st] step_keeps [OF _ st] Cons.prems(1)
    by (simp_all add: balanced_def)
  then show ?case using Cons st by (fastforce split: prod.splits)
qed simp

lemma run_account:
  "balanced s \<Longrightarrow> run xs s = (bs, s') \<Longrightarrow> i < length (weights s) \<Longrightarrow>
   cws s' ! i = cws s ! i + int (length xs) * weights s ! i - sum_list (weights s) * int (count_list bs i)"
proof (induction xs arbitrary: s bs)
  case (Cons x xs)
  obtain b s1 where st: "step x s = (b, s1)" by (cases "step x s")
  obtain bs' where rest: "run xs s1 = (bs', s')" and bs: "bs = b # bs'"
    using Cons.prems(2) st by (auto split: prod.splits)
  have inv: "inv s" using Cons.prems(1) by (simp add: balanced_def)
  have w: "weights s1 = weights s" using step_keeps [OF inv st] by simp
  have "cws s' ! i = cws s1 ! i + int (length xs) * weights s ! i - sum_list (weights s) * int (count_list bs' i)"
    using Cons.IH [OF step_balanced [OF Cons.prems(1) st] rest] Cons.prems(3) w by simp
  then show ?case
    using step_cws [OF inv st Cons.prems(3)] by (auto simp: bs algebra_simps split: if_splits)
qed simp

lemma run_picks_range: "inv s \<Longrightarrow> run xs s = (bs, s') \<Longrightarrow> set bs \<subseteq> {..<length (weights s)}"
proof (induction xs arbitrary: s bs)
  case (Cons x xs)
  obtain b s1 where st: "step x s = (b, s1)" by (cases "step x s")
  obtain bs' where rest: "run xs s1 = (bs', s')" and bs: "bs = b # bs'"
    using Cons.prems(2) st by (auto split: prod.splits)
  show ?case
    using Cons.IH [OF _ rest] step_keeps [OF Cons.prems(1) st] step_best [OF Cons.prems(1) st]
    by (simp add: bs)
qed simp

lemma length_run: "length (fst (run xs s)) = length xs"
  by (induction xs arbitrary: s) (simp_all add: split_beta Let_def)

theorem fair_round:
  assumes inv: "inv s" and zero: "\<forall>i<length (weights s). cws s ! i = 0"
    and len: "int (length xs) = sum_list (weights s)" and r: "run xs s = (bs, s')"
    and i: "i < length (weights s)"
  shows "int (count_list bs i) = weights s ! i \<and> cws s' ! i = 0"
proof -
  let ?n = "length (weights s)" and ?W = "sum_list (weights s)"
  have W: "0 < ?W" using shape [OF inv] by simp
  have bal: "balanced s" using inv zero W by (simp add: balanced_def)
  have acc: "cws s' ! j = ?W * (weights s ! j - int (count_list bs j))" if "j < ?n" for j
    using run_account [OF bal r that] zero that len by (simp add: algebra_simps)
  have le: "int (count_list bs j) \<le> weights s ! j" if "j < ?n" for j
  proof -
    have "- ?W < cws s' ! j"
      using run_balanced [OF bal r] that by (auto simp: balanced_def)
    then have "?W * (-1) < ?W * (weights s ! j - int (count_list bs j))" using acc [OF that] by simp
    then have "-1 < weights s ! j - int (count_list bs j)"
      by (rule mult_less_cancel_left_pos [OF W, THEN iffD1])
    then show ?thesis by simp
  qed
  have "(\<Sum>j<?n. int (count_list bs j)) = int (length bs)"
  proof -
    have "(\<Sum>j<?n. count_list bs j) = (\<Sum>j\<in>set bs. count_list bs j)"
      by (rule sum.mono_neutral_right)
        (use run_picks_range [OF inv r] in \<open>auto simp: count_list_0_iff\<close>)
    also have "\<dots> = length bs" by (simp add: sum_count_set)
    finally show ?thesis by (metis of_nat_sum)
  qed
  also have "\<dots> = ?W" using length_run [of xs s] r len by simp
  finally have eq: "(\<Sum>j<?n. weights s ! j - int (count_list bs j)) = 0"
    by (simp add: sum_subtractf sum_weights [OF inv])
  have "weights s ! i - int (count_list bs i) = 0"
    using sum_nonneg_0 [OF finite_lessThan _ eq] le i by (simp add: sum_nonneg_eq_0_iff eq)
  then show ?thesis using acc [OF i] by simp
qed

end

text \<open>The first choice of a new request, as an event at time \<open>now\<close>.\<close>

definition rr_request :: "int \<times> peer_connection \<Rightarrow> rr_peers \<Rightarrow> nat \<times> rr_peers" where
  "rr_request x peers =
     (let (rrp, pc) = ngx_http_upstream_init_round_robin_peer peers (snd x);
          (peers', rrp', pc', rc) = ngx_http_upstream_get_round_robin_peer (fst x) peers rrp pc
      in (case current rrp' of None \<Rightarrow> number peers | Some i \<Rightarrow> i, peers'))"

definition available :: "rr_peer \<Rightarrow> bool" where
  "available p \<longleftrightarrow> \<not> down p \<and> (max_fails p = 0 \<or> fails p < max_fails p) \<and> max_conns p = 0
     \<and> 0 \<le> weight p \<and> effective_weight p = weight p"

definition all_available :: "rr_peers \<Rightarrow> bool" where
  "all_available g \<longleftrightarrow> \<not> single g \<and> length (peer g) = number g \<and> list_all available (peer g)
     \<and> 0 < sum_list (map weight (peer g))"

lemma init_not_tried:
  assumes "i < number g"
  shows "\<not> is_tried (tried (fst (ngx_http_upstream_init_round_robin_peer g pc))) i"
proof -
  let ?m = "case next_peers g of None \<Rightarrow> number g
    | Some b \<Rightarrow> if number b > number g then number b else number g"
  have m: "number g \<le> ?m" by (auto split: option.splits)
  show ?thesis
  proof (cases "?m \<le> 64")
    case True
    then have "i div 64 = 0" using assms m by simp
    with True show ?thesis by (simp add: ngx_http_upstream_init_round_robin_peer_def is_tried_def Let_def)
  next
    case False
    have "i div 64 < tried_words ?m"
      using assms m div_le_mono [of "i + 64" "?m + 63" 64] by (simp add: tried_words_def)
    with False show ?thesis
      by (simp add: ngx_http_upstream_init_round_robin_peer_def is_tried_def Let_def)
  qed
qed

lemma available_not_skipped: "available p \<Longrightarrow> \<not> is_tried tr i \<Longrightarrow> \<not> skip_peer now tr i p"
  by (auto simp: available_def skip_peer_def not_le)

lemma set_peer_sel [simp]:
  "peer (set_peer ps g) = ps" "number (set_peer ps g) = number g" "single (set_peer ps g) = single g"
  "next_peers (set_peer ps g) = next_peers g" "total_weight (set_peer ps g) = total_weight g"
  by (simp_all add: set_peer_def)

lemma available_loop:
  assumes "list_all available ps" "\<forall>k<length ps. \<not> is_tried tr (i + k)"
  shows "loop_peers now tr i ps = map raise_peer ps"
    and "eligible_weight now tr i ps = sum_list (map weight ps)"
  using assms
proof (induction ps arbitrary: i)
  case (Cons p ps)
  case 1
  with Cons show ?case
    by (auto simp: available_not_skipped All_less_Suc2)
next
  case (Cons p ps)
  case 2
  with Cons show ?case
    by (auto simp: available_not_skipped All_less_Suc2 available_def)
qed simp_all

lemma rr_request_eq:
  assumes ok: "all_available g"
  obtains b where "b < number g"
    "\<forall>k<number g. current_weight (peer g ! k) + weight (peer g ! k)
       \<le> current_weight (peer g ! b) + weight (peer g ! b)"
    "rr_request x g =
      (let qs = (map raise_peer (peer g))[b := take_peer (fst x) (sum_list (map weight (peer g)))
                  (raise_peer (peer g ! b))]
       in (b, set_peer (qs[b := (qs ! b)\<lparr>conns := conns (qs ! b) + 1\<rparr>]) g))"
proof -
  obtain rrp pc where i: "ngx_http_upstream_init_round_robin_peer g (snd x) = (rrp, pc)"
    by (cases "ngx_http_upstream_init_round_robin_peer g (snd x)")
  let ?ps = "peer g"
  have len: "length ?ps = number g" and av: "list_all available ?ps" and ns: "\<not> single g"
    and W: "0 < sum_list (map weight ?ps)"
    using ok by (simp_all add: all_available_def)
  have nt: "\<forall>k<length ?ps. \<not> is_tried (tried rrp) (0 + k)"
    using init_not_tried [of _ g "snd x"] by (simp add: i len)
  note loop = available_loop [OF av nt, of "fst x"]
  have nsk: "\<forall>k<length ?ps. \<not> skip_peer (fst x) (tried rrp) k (?ps ! k)"
    using av nt by (simp add: list_all_length available_not_skipped)
  have "?ps \<noteq> []" using W by auto
  then have "ngx_http_upstream_get_peer (fst x) (tried rrp) ?ps \<noteq> None"
    using nsk by (simp only: get_peer_None) auto
  then obtain ps' tr' b where g: "ngx_http_upstream_get_peer (fst x) (tried rrp) ?ps = Some (ps', tr', b)"
    by auto
  note gs = get_peer_Some [OF g]
  show thesis
  proof (rule that [of b])
    show "b < number g" using gs(1) len by simp
    show "\<forall>k<number g. current_weight (?ps ! k) + weight (?ps ! k)
       \<le> current_weight (?ps ! b) + weight (?ps ! b)"
      using gs(1,5) nsk av len by (simp add: bid_def list_all_length available_def)
    show "rr_request x g =
      (let qs = (map raise_peer ?ps)[b := take_peer (fst x) (sum_list (map weight ?ps))
                  (raise_peer (?ps ! b))]
       in (b, set_peer (qs[b := (qs ! b)\<lparr>conns := conns (qs ! b) + 1\<rparr>]) g))"
      using ns gs(4) loop
      by (simp add: rr_request_def i ngx_http_upstream_get_round_robin_peer.simps [of "fst x" g] g Let_def)
  qed
qed


lemma take_peer_available [simp]: "available (take_peer now t p) = available p"
  by (simp add: available_def)

lemma raise_peer_available: "available p \<Longrightarrow> available (raise_peer p)"
  by (simp add: available_def)

lemma conns_update_simps [simp]:
  "available (p\<lparr>conns := c\<rparr>) = available p"
  by (simp add: available_def)

interpretation rr: smooth_scheduler all_available
  "\<lambda>g. map weight (peer g)" "\<lambda>g. map current_weight (peer g)" rr_request
proof
  fix s :: rr_peers
  assume "all_available s"
  then show "length (map current_weight (peer s)) = length (map weight (peer s)) \<and>
    (\<forall>w\<in>set (map weight (peer s)). 0 \<le> w) \<and> 0 < sum_list (map weight (peer s))"
    by (auto simp: all_available_def list_all_iff available_def)
next
  fix s s' b and x :: "int \<times> peer_connection"
  assume ok: "all_available s" and st: "rr_request x s = (b, s')"
  let ?t = "sum_list (map weight (peer s))"
  obtain c where c: "c < number s"
    "\<forall>k<number s. current_weight (peer s ! k) + weight (peer s ! k)
       \<le> current_weight (peer s ! c) + weight (peer s ! c)"
    "rr_request x s =
      (let qs = (map raise_peer (peer s))[c := take_peer (fst x) ?t (raise_peer (peer s ! c))]
       in (c, set_peer (qs[c := (qs ! c)\<lparr>conns := conns (qs ! c) + 1\<rparr>]) s))"
    by (rule rr_request_eq [OF ok])
  have len: "length (peer s) = number s" and av: "\<forall>p\<in>set (peer s). available p"
    using ok by (simp_all add: all_available_def list_all_iff)
  have b: "b = c" using c(3) st by (simp add: Let_def)
  have s': "s' = set_peer ((map raise_peer (peer s))[c :=
      (take_peer (fst x) ?t (raise_peer (peer s ! c)))\<lparr>conns := conns (peer s ! c) + 1\<rparr>]) s"
    using c(1,3) st len by (simp add: Let_def)
  have ws: "map weight (peer s') = map weight (peer s)"
    unfolding s' using c(1) len by (simp add: map_update comp_def) (metis list_update_id map_map nth_map)
  have "\<forall>p\<in>set (peer s'). available p"
    unfolding s' using av c(1) len
    by (auto simp: raise_peer_available dest!: set_update_subset_insert [THEN subsetD])
  then show "all_available s' \<and> map weight (peer s') = map weight (peer s)"
    using ok ws by (simp add: all_available_def list_all_iff s')
  show "b < length (map weight (peer s)) \<and>
    (\<forall>i<length (map weight (peer s)). map current_weight (peer s) ! i + map weight (peer s) ! i
      \<le> map current_weight (peer s) ! b + map weight (peer s) ! b)"
    using c b len by simp
  fix i
  assume "i < length (map weight (peer s))"
  then show "map current_weight (peer s') ! i = map current_weight (peer s) ! i + map weight (peer s) ! i
      - (if i = b then ?t else 0)"
    using av by (auto simp: s' b nth_list_update available_def)
qed

text \<open>A sequence of requests, each at its own time, with none released in between.\<close>

fun rr_requests :: "(int \<times> peer_connection) list \<Rightarrow> rr_peers \<Rightarrow> nat list \<times> rr_peers" where
  "rr_requests [] g = ([], g)"
| "rr_requests (x # xs) g =
     (let (b, g1) = rr_request x g; (bs, g2) = rr_requests xs g1 in (b # bs, g2))"

lemma rr_requests_run: "rr_requests xs g = rr.run xs g"
  by (induction xs arbitrary: g) (auto split: prod.splits)

text \<open>
  C16. Weighted round robin is fair: when all peers of a group are available and start with
  current weight 0, then of any sequence of as many requests as the weights add up to, each
  peer is chosen for exactly as many as its weight, and all current weights are 0 again.
\<close>

theorem round_robin_fair:
  assumes "all_available g" and "list_all (\<lambda>p. current_weight p = 0) (peer g)"
    and "int (length xs) = sum_list (map weight (peer g))"
    and "rr_requests xs g = (bs, g')" and "i < number g"
  shows "int (count_list bs i) = weight (peer g ! i) \<and> current_weight (peer g' ! i) = 0"
proof -
  have len: "length (peer g) = number g" using assms(1) by (simp add: all_available_def)
  have r: "rr.run xs g = (bs, g')" using assms(4) by (simp add: rr_requests_run)
  have zero: "\<forall>i<length (map weight (peer g)). map current_weight (peer g) ! i = 0"
    using assms(2) by (simp add: list_all_length)
  have i: "i < length (map weight (peer g))" using assms(5) len by simp
  have bal: "rr.balanced g"
    using assms(1,2) rr.shape [OF assms(1)] by (auto simp: rr.balanced_def list_all_length)
  have g': "length (peer g') = number g"
    using rr.run_balanced [OF bal r] len by (metis length_map)
  show ?thesis
    using rr.fair_round [OF assms(1) zero assms(3) r i] g' len assms(5) by simp
qed


text \<open>Three servers of weights 5, 1 and 1, as built from the configuration.\<close>

definition sample_servers :: "upstream_server list" where
  "sample_servers = map (\<lambda>w. \<lparr>srv_name = [], addrs = [([], [])], srv_weight = w, srv_max_conns = 0,
     srv_max_fails = 1, srv_fail_timeout = 10, srv_down = False, backup = False\<rparr>) [5, 1, 1]"

definition sample_group :: rr_peers where
  "sample_group = the (ngx_http_upstream_init_round_robin [] sample_servers)"

definition sample_pc :: peer_connection where
  "sample_pc = \<lparr>cached = False, pc_sockaddr = [], pc_name = [], tries = 0\<rparr>"

lemmas sample_defs = sample_group_def sample_servers_def sample_pc_def
  ngx_http_upstream_init_round_robin_def peer_of_addr_def

theorem round_robin_fair_witness:
  "int (count_list (fst (rr_requests (replicate 7 (0, sample_pc)) sample_group)) 0) = 5"
proof -
  obtain bs g' where r: "rr_requests (replicate 7 (0, sample_pc)) sample_group = (bs, g')"
    by (cases "rr_requests (replicate 7 (0, sample_pc)) sample_group")
  have "int (count_list bs 0) = weight (peer sample_group ! 0) \<and> current_weight (peer g' ! 0) = 0"
    by (rule round_robin_fair [OF _ _ _ r])
      (simp_all add: sample_defs all_available_def available_def)
  then show ?thesis by (simp add: r) (simp add: sample_defs)
qed

section \<open>Invariants of all operations\<close>

function chain_peers :: "rr_peers \<Rightarrow> rr_peer list" where
  "chain_peers g = peer g @ (case next_peers g of None \<Rightarrow> [] | Some b \<Rightarrow> chain_peers b)"
  by pat_completeness auto
termination by (relation "measure size") (auto, case_tac g, auto)

declare chain_peers.simps [simp del]

lemma set_next_sel [simp]:
  "peer (set_next nx g) = peer g" "next_peers (set_next nx g) = nx" "single (set_next nx g) = single g"
  by (simp_all add: set_next_def)

lemma chain_peers_set [simp]:
  "chain_peers (set_peer ps g) = ps @ (case next_peers g of None \<Rightarrow> [] | Some b \<Rightarrow> chain_peers b)"
  "chain_peers (set_next nx g) = peer g @ (case nx of None \<Rightarrow> [] | Some b \<Rightarrow> chain_peers b)"
  by (simp_all add: chain_peers.simps [of "set_peer ps g"] chain_peers.simps [of "set_next nx g"])

text \<open>The effective weight of a peer stays between 0 and its weight.\<close>

definition sane :: "rr_peer \<Rightarrow> bool" where
  "sane p \<longleftrightarrow> 0 \<le> effective_weight p \<and> effective_weight p \<le> weight p"

lemma sane_ops [simp]:
  "sane p \<Longrightarrow> sane (raise_peer p)" "sane (take_peer now t p) = sane p" "sane (p\<lparr>conns := c\<rparr>) = sane p"
  by (auto simp: sane_def)

lemma sane_release: "sane p \<Longrightarrow> sane (release_peer now st p)"
proof -
  assume s: "sane p"
  have "0 \<le> weight p div uint (max_fails p)"
    using s by (intro div_int_pos_iff [THEN iffD2]) (auto simp: sane_def)
  then show ?thesis using s by (auto simp: release_peer_def Let_def sane_def)
qed

lemma sane_update: "list_all sane ps \<Longrightarrow> sane q \<Longrightarrow> list_all sane (ps[i := q])"
  by (auto simp: list_all_iff dest!: set_update_subset_insert [THEN subsetD])

lemma sane_get_peer:
  assumes "ngx_http_upstream_get_peer now tr ps = Some (ps', tr', p)" "list_all sane ps"
  shows "list_all sane ps'"
proof -
  note g = get_peer_Some [OF assms(1)]
  have "list_all sane (loop_peers now tr 0 ps)"
    using assms(2) by (simp add: list_all_length loop_peers_nth)
  moreover have "sane (ps ! p)" using assms(2) g(1) by (simp add: list_all_length)
  ultimately show ?thesis unfolding g(4) by (intro sane_update) simp_all
qed

text \<open>The handler's choice in its own group, before the fall-back.\<close>

definition pick :: "int \<Rightarrow> rr_peers \<Rightarrow> rr_peer_data \<Rightarrow> (rr_peer list \<times> u64 list \<times> nat) option" where
  "pick now g rrp =
     (if single g then
        (case peer g of
           p # _ \<Rightarrow>
             if down p \<or> (max_conns p \<noteq> 0 \<and> conns p \<ge> max_conns p) then None
             else Some (peer g, tried rrp, 0)
         | [] \<Rightarrow> None)
      else ngx_http_upstream_get_peer now (tried rrp) (peer g))"

lemma get_rr_Some:
  "pick now g rrp = Some (ps, tr, i) \<Longrightarrow>
   ngx_http_upstream_get_round_robin_peer now g rrp pc =
     (set_peer (ps[i := (ps ! i)\<lparr>conns := conns (ps ! i) + 1\<rparr>]) g, rrp\<lparr>current := Some i, tried := tr\<rparr>,
      pc\<lparr>cached := False, pc_sockaddr := sockaddr (ps ! i), pc_name := name (ps ! i)\<rparr>, RR_OK)"
  by (simp add: ngx_http_upstream_get_round_robin_peer.simps [of now g rrp pc] pick_def [symmetric] Let_def)

lemma get_rr_None:
  "pick now g rrp = None \<Longrightarrow> next_peers g = None \<Longrightarrow>
   ngx_http_upstream_get_round_robin_peer now g rrp pc =
     (g, rrp, pc\<lparr>cached := False, pc_name := peers_name g\<rparr>, RR_BUSY)"
  by (simp add: ngx_http_upstream_get_round_robin_peer.simps [of now g rrp pc] pick_def [symmetric] Let_def)

declare ngx_http_upstream_get_round_robin_peer.simps [simp del]

definition backup_data :: "rr_peers \<Rightarrow> rr_peer_data \<Rightarrow> rr_peer_data" where
  "backup_data bk rrp = rrp\<lparr>depth := Suc (depth rrp),
     tried := replicate (tried_words (number bk)) 0 @ drop (tried_words (number bk)) (tried rrp)\<rparr>"

lemma get_rr_backup:
  assumes "pick now g rrp = None" "next_peers g = Some bk"
    and "ngx_http_upstream_get_round_robin_peer now bk (backup_data bk rrp) (pc\<lparr>cached := False\<rparr>) =
      (bk', rrp', pc', rc)"
  shows "ngx_http_upstream_get_round_robin_peer now g rrp pc =
    (set_next (Some bk') g, rrp', if rc = RR_BUSY then pc'\<lparr>pc_name := peers_name g\<rparr> else pc', rc)"
  using assms
  by (cases rc) (simp_all add: ngx_http_upstream_get_round_robin_peer.simps [of now g rrp pc]
    pick_def [symmetric] backup_data_def [symmetric] Let_def)

lemma pick_props:
  assumes "pick now g rrp = Some (ps, tr, i)"
  shows "i < length ps" "length ps = length (peer g)" "map conns ps = map conns (peer g)"
    "list_all sane (peer g) \<Longrightarrow> list_all sane ps"
proof -
  have "i < length ps \<and> length ps = length (peer g) \<and> map conns ps = map conns (peer g) \<and>
    (list_all sane (peer g) \<longrightarrow> list_all sane ps)"
  proof (cases "single g")
    case True
    then have "ps = peer g \<and> i = 0 \<and> peer g \<noteq> []"
      using assms by (auto simp: pick_def split: list.splits if_splits)
    then show ?thesis by simp
  next
    case False
    then have g: "ngx_http_upstream_get_peer now (tried rrp) (peer g) = Some (ps, tr, i)"
      using assms by (simp add: pick_def)
    note gs = get_peer_Some [OF g]
    have "map conns ps = map conns (peer g)" unfolding gs(4)
      by (rule nth_equalityI) (auto simp: nth_list_update loop_peers_nth gs(1))
    then show ?thesis using gs sane_get_peer [OF g] by simp
  qed
  then show "i < length ps" "length ps = length (peer g)" "map conns ps = map conns (peer g)"
    "list_all sane (peer g) \<Longrightarrow> list_all sane ps" by auto
qed


text \<open>A property of the result of the handler, by its own recursion.\<close>

lemma get_rr_induct:
  assumes ok: "\<And>g rrp pc ps tr i. pick now g rrp = Some (ps, tr, i) \<Longrightarrow>
      P g rrp (set_peer (ps[i := (ps ! i)\<lparr>conns := conns (ps ! i) + 1\<rparr>]) g)
        (rrp\<lparr>current := Some i, tried := tr\<rparr>) RR_OK"
    and busy: "\<And>g rrp. pick now g rrp = None \<Longrightarrow> next_peers g = None \<Longrightarrow> P g rrp g rrp RR_BUSY"
    and fallback: "\<And>g rrp bk bk' rrp' rc. pick now g rrp = None \<Longrightarrow> next_peers g = Some bk \<Longrightarrow>
      P bk (backup_data bk rrp) bk' rrp' rc \<Longrightarrow> P g rrp (set_next (Some bk') g) rrp' rc"
  shows "ngx_http_upstream_get_round_robin_peer now g rrp pc = (g', rrp', pc', rc) \<Longrightarrow> P g rrp g' rrp' rc"
proof (induction g arbitrary: rrp pc g' rrp' pc' rc rule: measure_induct_rule [of size])
  case (less g)
  consider ps tr i where "pick now g rrp = Some (ps, tr, i)"
    | "pick now g rrp = None" "next_peers g = None"
    | bk where "pick now g rrp = None" "next_peers g = Some bk"
    by (cases "pick now g rrp"; cases "next_peers g") auto
  then show ?case
  proof cases
    case 1
    with less.prems ok [OF 1] show ?thesis by (simp add: get_rr_Some)
  next
    case 2
    with less.prems busy [OF 2] show ?thesis by (simp add: get_rr_None)
  next
    case 3
    obtain bk' rrp'' pc'' rc' where b:
      "ngx_http_upstream_get_round_robin_peer now bk (backup_data bk rrp) (pc\<lparr>cached := False\<rparr>) =
        (bk', rrp'', pc'', rc')"
      by (cases "ngx_http_upstream_get_round_robin_peer now bk (backup_data bk rrp) (pc\<lparr>cached := False\<rparr>)")
        auto
    have "size bk < size g" using 3(2) by (cases g) simp
    then have "P bk (backup_data bk rrp) bk' rrp'' rc'" using b by (rule less.IH)
    then have "P g rrp (set_next (Some bk') g) rrp'' rc'" by (rule fallback [OF 3])
    then show ?thesis using less.prems get_rr_backup [OF 3 b] by simp
  qed
qed

lemma sane_get_rr:
  assumes "ngx_http_upstream_get_round_robin_peer now g rrp pc = (g', rrp', pc', rc)"
    and "list_all sane (chain_peers g)"
  shows "list_all sane (chain_peers g')"
proof -
  let ?P = "\<lambda>g rrp g' rrp' rc. list_all sane (chain_peers g) \<longrightarrow> list_all sane (chain_peers g')"
  have "?P g rrp g' rrp' rc" using assms(1)
  proof (rule get_rr_induct [where P = ?P, rotated 3])
    fix g rrp ps tr i
    assume p: "pick now g rrp = Some (ps, tr, i)"
    note pp = pick_props [OF p]
    have "list_all sane ps \<Longrightarrow> sane (ps ! i)" using pp(1) by (simp add: list_all_length)
    then show "list_all sane (chain_peers g) \<longrightarrow> list_all sane (chain_peers
        (set_peer (ps[i := (ps ! i)\<lparr>conns := conns (ps ! i) + 1\<rparr>]) g))"
      using pp(4) by (auto simp: chain_peers.simps [of g] intro: sane_update)
  qed (auto simp: chain_peers.simps split: option.splits)
  then show ?thesis using assms(2) by blast
qed

lemma sane_free_at:
  "list_all sane (chain_peers g) \<Longrightarrow> group_at d g = Some h \<Longrightarrow> i < length (peer h) \<Longrightarrow>
   list_all sane (chain_peers (free_at d i now st g))"
proof (induction d arbitrary: g)
  case 0
  then have "sane (peer g ! i)" by (auto simp: chain_peers.simps [of g] list_all_iff)
  with 0 show ?case
    by (auto simp: chain_peers.simps [of g] Let_def sane_release intro: sane_update)
next
  case (Suc d)
  then show ?case
    by (auto simp: chain_peers.simps [of g] split: option.splits)
qed

text \<open>How many connections are counted on all peers of a chain.\<close>

definition total_conns :: "rr_peers \<Rightarrow> u64" where
  "total_conns g = sum_list (map conns (chain_peers g))"

lemma sum_conns_update:
  "i < length ps \<Longrightarrow> sum_list (map conns (ps[i := q])) = sum_list (map conns ps) - conns (ps ! i) + conns q"
proof (induction ps arbitrary: i)
  case (Cons a ps)
  then show ?case by (cases i) simp_all
qed simp

lemma get_rr_conns:
  assumes "ngx_http_upstream_get_round_robin_peer now g rrp pc = (g', rrp', pc', rc)"
  shows "rc = RR_BUSY \<longrightarrow> total_conns g' = total_conns g"
    and "rc = RR_OK \<longrightarrow> total_conns g' = total_conns g + 1 \<and>
      (\<exists>d i h. depth rrp' = depth rrp + d \<and> current rrp' = Some i \<and> group_at d g' = Some h \<and> i < length (peer h))"
proof -
  let ?P = "\<lambda>g rrp g' rrp' rc. (rc = RR_BUSY \<longrightarrow> total_conns g' = total_conns g) \<and>
    (rc = RR_OK \<longrightarrow> total_conns g' = total_conns g + 1 \<and>
      (\<exists>d i h. depth rrp' = depth rrp + d \<and> current rrp' = Some i \<and> group_at d g' = Some h \<and> i < length (peer h)))"
  have "?P g rrp g' rrp' rc" using assms
  proof (rule get_rr_induct [where P = ?P, rotated 3])
    fix g rrp ps tr i
    assume p: "pick now g rrp = Some (ps, tr, i)"
    note pp = pick_props [OF p]
    show "?P g rrp (set_peer (ps[i := (ps ! i)\<lparr>conns := conns (ps ! i) + 1\<rparr>]) g)
        (rrp\<lparr>current := Some i, tried := tr\<rparr>) RR_OK"
      using pp(1,3) by (auto simp: total_conns_def sum_conns_update chain_peers.simps [of g]
        intro!: exI [of _ 0])
  next
    fix g rrp bk bk' rrp' rc
    assume "pick now g rrp = None" "next_peers g = Some bk" "?P bk (backup_data bk rrp) bk' rrp' rc"
    moreover have "group_at (Suc d) (set_next (Some bk') g) = group_at d bk'" for d by simp
    ultimately show "?P g rrp (set_next (Some bk') g) rrp' rc"
      by (force simp: total_conns_def chain_peers.simps [of g] backup_data_def simp del: group_at.simps)
  qed auto
  then show "rc = RR_BUSY \<longrightarrow> total_conns g' = total_conns g"
    and "rc = RR_OK \<longrightarrow> total_conns g' = total_conns g + 1 \<and>
      (\<exists>d i h. depth rrp' = depth rrp + d \<and> current rrp' = Some i \<and> group_at d g' = Some h \<and> i < length (peer h))"
    by auto
qed


lemma total_conns_free_at:
  "group_at d g = Some h \<Longrightarrow> i < length (peer h) \<Longrightarrow>
   total_conns (free_at d i now st g) = total_conns g - 1"
proof (induction d arbitrary: g)
  case 0
  have "conns (release_peer now st p) = conns p - 1" for p
    by (simp add: release_peer_def Let_def)
  moreover have "g = h" using 0 by simp
  ultimately show ?case
    using 0 by (simp add: total_conns_def chain_peers.simps [of h] Let_def sum_conns_update)
next
  case (Suc d)
  then show ?case
    by (auto simp: total_conns_def chain_peers.simps [of g] split: option.splits)
qed

text \<open>
  C38. In every group the effective weight of each peer stays between 0 and its weight, through
  any choice (with fall-back to the backup group) and any release, failed or not.
\<close>

theorem effective_weight_invariant:
  assumes "list_all sane (chain_peers g)" and "depth rrp = 0"
    and "ngx_http_upstream_get_round_robin_peer now g rrp pc = (g1, rrp1, pc1, RR_OK)"
  shows "list_all sane (chain_peers g1) \<and>
    list_all sane (chain_peers (fst (ngx_http_upstream_free_round_robin_peer now2 g1 rrp1 pc2 state)))"
proof -
  have g1: "list_all sane (chain_peers g1)" by (rule sane_get_rr [OF assms(3,1)])
  obtain i h where i: "current rrp1 = Some i" "group_at (depth rrp1) g1 = Some h" "i < length (peer h)"
    using get_rr_conns(2) [OF assms(3)] assms(2) by auto
  then show ?thesis
    using g1 sane_free_at [OF g1 i(2,3)] by (simp add: ngx_http_upstream_free_round_robin_peer_def)
qed

text \<open>
  C37. Connections are accounted for: a successful choice raises the total of all connection
  counts by one and the release of that peer, in whichever group it was found, lowers it again,
  for every release state.
\<close>

theorem connections_balanced:
  assumes "depth rrp = 0"
    and "ngx_http_upstream_get_round_robin_peer now g rrp pc = (g1, rrp1, pc1, RR_OK)"
  shows "total_conns g1 = total_conns g + 1 \<and>
    total_conns (fst (ngx_http_upstream_free_round_robin_peer now2 g1 rrp1 pc2 state)) = total_conns g"
proof -
  obtain i h where i: "current rrp1 = Some i" "group_at (depth rrp1) g1 = Some h" "i < length (peer h)"
    using get_rr_conns(2) [OF assms(2)] assms(1) by auto
  have "total_conns g1 = total_conns g + 1" using get_rr_conns(2) [OF assms(2)] by simp
  then show ?thesis using i
    by (simp add: ngx_http_upstream_free_round_robin_peer_def total_conns_free_at)
qed

lemma is_tried_mark:
  assumes "p div 64 < length tr"
  shows "is_tried (mark_tried tr p) j \<longleftrightarrow> j = p \<or> is_tried tr j"
proof -
  have bit: "(w AND push_bit n 1 \<noteq> 0) = bit w n" for w :: u64 and n
    by (rule bit_iff_and_push_bit_not_eq_0 [symmetric])
  have m: "n mod 64 < 64" for n :: nat by simp
  have eq: "j = p \<longleftrightarrow> j div 64 = p div 64 \<and> j mod 64 = p mod 64"
    by (metis div_mult_mod_eq)
  show ?thesis
    using assms m [of p] m [of j] unfolding is_tried_def mark_tried_def bit eq
    by (auto simp: nth_list_update bit_simps)
qed

section \<open>The tries of one request\<close>

text \<open>
  The handler starts at \<open>rrp->peers\<close>, the group that \<open>depth\<close> links lead to.
\<close>

fun get_peer_at :: "nat \<Rightarrow> int \<Rightarrow> rr_peers \<Rightarrow> rr_peer_data \<Rightarrow> peer_connection
    \<Rightarrow> rr_peers \<times> rr_peer_data \<times> peer_connection \<times> rr_rc" where
  "get_peer_at 0 now g rrp pc = ngx_http_upstream_get_round_robin_peer now g rrp pc"
| "get_peer_at (Suc d) now g rrp pc =
     (case next_peers g of
        None \<Rightarrow> (g, rrp, pc, RR_BUSY)
      | Some bk \<Rightarrow>
          let (bk', rrp', pc', rc) = get_peer_at d now bk rrp pc in (set_next (Some bk') g, rrp', pc', rc))"

text \<open>
  What happens while a request lives: it asks for a peer, it gives the peer back, and other
  requests leave the peers in another state. The result lists the peers it is given, each by its
  group and its index.
\<close>

datatype rr_event = Ask int | Give_back int u64 | Others rr_peers

fun request_run :: "rr_event list \<Rightarrow> rr_peers \<Rightarrow> rr_peer_data \<Rightarrow> peer_connection \<Rightarrow> (nat \<times> nat) list" where
  "request_run [] g rrp pc = []"
| "request_run (Ask now # es) g rrp pc =
     (case get_peer_at (depth rrp) now g rrp pc of
        (g', rrp', pc', RR_OK) \<Rightarrow> (depth rrp', the (current rrp')) # request_run es g' rrp' pc'
      | (g', rrp', pc', RR_BUSY) \<Rightarrow> request_run es g' rrp' pc')"
| "request_run (Give_back now state # es) g rrp pc =
     (case ngx_http_upstream_free_round_robin_peer now g rrp pc state of (g', pc') \<Rightarrow> request_run es g' rrp pc')"
| "request_run (Others g' # es) g rrp pc = request_run es g' rrp pc"

text \<open>What no request changes: the groups, and how many peers they have.\<close>

definition group_shape :: "rr_peers \<Rightarrow> bool \<times> nat \<times> nat" where
  "group_shape g = (single g, number g, length (peer g))"

definition same_shape :: "rr_peers \<Rightarrow> rr_peers \<Rightarrow> bool" where
  "same_shape g g' \<longleftrightarrow> (\<forall>d. map_option group_shape (group_at d g) = map_option group_shape (group_at d g'))"

definition bitmap_fits :: "rr_peers \<Rightarrow> nat \<Rightarrow> bool" where
  "bitmap_fits g n \<longleftrightarrow> (\<forall>d h. group_at d g = Some h \<longrightarrow> number h = length (peer h) \<and> number h \<le> 64 * n)"

lemma same_shape_refl [simp]: "same_shape g g"
  by (simp add: same_shape_def)

lemma same_shape_trans: "same_shape g h \<Longrightarrow> same_shape h k \<Longrightarrow> same_shape g k"
  by (simp add: same_shape_def)

lemma same_shape_set_peer: "length ps = length (peer g) \<Longrightarrow> same_shape g (set_peer ps g)"
proof -
  assume "length ps = length (peer g)"
  then have "map_option group_shape (group_at d g) = map_option group_shape (group_at d (set_peer ps g))" for d
    by (cases d) (simp_all add: group_shape_def set_peer_def)
  then show ?thesis by (simp add: same_shape_def)
qed

lemma same_shape_set_next:
  assumes "next_peers g = Some bk" "same_shape bk bk'"
  shows "same_shape g (set_next (Some bk') g)"
proof -
  have "map_option group_shape (group_at d g) = map_option group_shape (group_at d (set_next (Some bk') g))" for d
    using assms by (cases d) (simp_all add: group_shape_def set_next_def same_shape_def)
  then show ?thesis by (simp add: same_shape_def)
qed

lemma same_shape_next: "same_shape g g' \<Longrightarrow> next_peers g = Some bk \<Longrightarrow> next_peers g' = Some bk' \<Longrightarrow> same_shape bk bk'"
  unfolding same_shape_def by (metis group_at.simps(2) option.simps(5))

lemma same_shape_group:
  assumes "same_shape g g'"
  shows "group_at d g' = Some h' \<Longrightarrow>
    \<exists>h. group_at d g = Some h \<and> single h = single h' \<and> number h = number h' \<and> length (peer h) = length (peer h')"
proof -
  assume "group_at d g' = Some h'"
  moreover have "map_option group_shape (group_at d g) = map_option group_shape (group_at d g')"
    using assms by (simp add: same_shape_def)
  ultimately show ?thesis by (auto simp: group_shape_def)
qed

lemma bitmap_fits_shape:
  assumes "bitmap_fits g n" "same_shape g g'"
  shows "bitmap_fits g' n"
  unfolding bitmap_fits_def
proof (intro allI impI)
  fix d h' assume "group_at d g' = Some h'"
  then obtain h where "group_at d g = Some h" "number h = number h'" "length (peer h) = length (peer h')"
    using same_shape_group [OF assms(2), of d h'] by blast
  then show "number h' = length (peer h') \<and> number h' \<le> 64 * n" using assms(1) unfolding bitmap_fits_def by metis
qed

lemma bitmap_fits_next: "bitmap_fits g n \<Longrightarrow> next_peers g = Some bk \<Longrightarrow> bitmap_fits bk n"
  unfolding bitmap_fits_def by (metis group_at.simps(2) option.simps(5))

lemma bitmap_fits_own: "bitmap_fits g n \<Longrightarrow> number g = length (peer g) \<and> number g \<le> 64 * n"
  unfolding bitmap_fits_def by (metis group_at.simps(1))

text \<open>What one try does to the data of the request.\<close>

definition tried_on :: "rr_peers \<Rightarrow> rr_peer_data \<Rightarrow> rr_peers \<Rightarrow> rr_peer_data \<Rightarrow> rr_rc \<Rightarrow> bool" where
  "tried_on g rrp g' rrp' rc \<longleftrightarrow> same_shape g g' \<and> length (tried rrp') = length (tried rrp)
     \<and> depth rrp \<le> depth rrp'
     \<and> (depth rrp' = depth rrp \<longrightarrow> (\<forall>j. is_tried (tried rrp) j \<longrightarrow> is_tried (tried rrp') j))
     \<and> (rc = RR_OK \<longrightarrow> (\<exists>i h. current rrp' = Some i \<and> group_at (depth rrp' - depth rrp) g = Some h \<and> i < length (peer h)
         \<and> (\<not> single h \<longrightarrow> is_tried (tried rrp') i \<and> (depth rrp' = depth rrp \<longrightarrow> \<not> is_tried (tried rrp) i))))"

lemma tried_on_pick:
  assumes p: "pick now g rrp = Some (ps, tr, i)" and f: "bitmap_fits g (length (tried rrp))"
  shows "tried_on g rrp (set_peer (ps[i := (ps ! i)\<lparr>conns := conns (ps ! i) + 1\<rparr>]) g)
    (rrp\<lparr>current := Some i, tried := tr\<rparr>) RR_OK"
proof -
  note pp = pick_props [OF p]
  have shape: "same_shape g (set_peer (ps[i := (ps ! i)\<lparr>conns := conns (ps ! i) + 1\<rparr>]) g)"
    using pp(2) by (intro same_shape_set_peer) simp
  show ?thesis
  proof (cases "single g")
    case True
    then have "tr = tried rrp" using p by (auto simp: pick_def split: list.splits if_splits)
    then show ?thesis using shape pp(1,2) True by (simp add: tried_on_def)
  next
    case False
    then have g: "ngx_http_upstream_get_peer now (tried rrp) (peer g) = Some (ps, tr, i)"
      using p by (simp add: pick_def)
    note gs = get_peer_Some [OF g]
    have "i div 64 < length (tried rrp)"
      using bitmap_fits_own [OF f] gs(1) by (simp add: less_mult_imp_div_less)
    note mark = is_tried_mark [OF this]
    have "\<not> is_tried (tried rrp) i" using gs(2) by (simp add: skip_peer_def)
    then show ?thesis using shape gs(1) mark unfolding gs(3) by (auto simp: tried_on_def mark_tried_def)
  qed
qed

lemma tried_words_le: "number g \<le> 64 * n \<Longrightarrow> tried_words (number g) \<le> n"
  by (simp add: tried_words_def)

lemma tried_on_handler:
  assumes "ngx_http_upstream_get_round_robin_peer now g rrp pc = (g', rrp', pc', rc)"
    and "bitmap_fits g (length (tried rrp))"
  shows "tried_on g rrp g' rrp' rc"
proof -
  let ?P = "\<lambda>g rrp g' rrp' rc. bitmap_fits g (length (tried rrp)) \<longrightarrow> tried_on g rrp g' rrp' rc"
  have "?P g rrp g' rrp' rc" using assms(1)
  proof (rule get_rr_induct [where P = ?P, rotated 3])
    fix g rrp ps tr i
    assume "pick now g rrp = Some (ps, tr, i)"
    then show "?P g rrp (set_peer (ps[i := (ps ! i)\<lparr>conns := conns (ps ! i) + 1\<rparr>]) g)
        (rrp\<lparr>current := Some i, tried := tr\<rparr>) RR_OK"
      using tried_on_pick by blast
  next
    fix g rrp
    show "?P g rrp g rrp RR_BUSY" by (simp add: tried_on_def)
  next
    fix g rrp bk bk' rrp' rc
    assume nx: "next_peers g = Some bk" and IH: "?P bk (backup_data bk rrp) bk' rrp' rc"
    show "?P g rrp (set_next (Some bk') g) rrp' rc"
    proof
      assume f: "bitmap_fits g (length (tried rrp))"
      note fb = bitmap_fits_next [OF f nx]
      have "tried_words (number bk) \<le> length (tried rrp)"
        using bitmap_fits_own [OF fb] by (intro tried_words_le) simp
      then have len: "length (tried (backup_data bk rrp)) = length (tried rrp)" by (simp add: backup_data_def)
      then have b: "tried_on bk (backup_data bk rrp) bk' rrp' rc" using IH fb by simp
      have dep: "depth (backup_data bk rrp) = Suc (depth rrp)" by (simp add: backup_data_def)
      have grp: "group_at (depth rrp' - depth rrp) g = group_at (depth rrp' - Suc (depth rrp)) bk"
        if "Suc (depth rrp) \<le> depth rrp'"
        using that nx by (metis Suc_diff_le diff_Suc_Suc group_at.simps(2) option.simps(5))
      show "tried_on g rrp (set_next (Some bk') g) rrp' rc"
        using b len grp same_shape_set_next [OF nx] unfolding tried_on_def dep by auto
    qed
  qed
  then show ?thesis using assms(2) by blast
qed

lemma tried_on_at:
  assumes "get_peer_at d now g rrp pc = (g', rrp', pc', rc)" "bitmap_fits g (length (tried rrp))"
  shows "same_shape g g' \<and> length (tried rrp') = length (tried rrp) \<and> depth rrp \<le> depth rrp'
     \<and> (depth rrp' = depth rrp \<longrightarrow> (\<forall>j. is_tried (tried rrp) j \<longrightarrow> is_tried (tried rrp') j))
     \<and> (rc = RR_OK \<longrightarrow> (\<exists>i h. current rrp' = Some i \<and> group_at (d + (depth rrp' - depth rrp)) g = Some h \<and> i < length (peer h)
         \<and> (\<not> single h \<longrightarrow> is_tried (tried rrp') i \<and> (depth rrp' = depth rrp \<longrightarrow> \<not> is_tried (tried rrp) i))))"
  using assms
proof (induction d arbitrary: g g')
  case 0
  then have "tried_on g rrp g' rrp' rc" by (intro tried_on_handler) simp_all
  then show ?case by (simp add: tried_on_def)
next
  case (Suc d)
  show ?case
  proof (cases "next_peers g")
    case None
    then show ?thesis using Suc.prems(1) by simp
  next
    case (Some bk)
    obtain bk' where b: "get_peer_at d now bk rrp pc = (bk', rrp', pc', rc)" and g': "g' = set_next (Some bk') g"
      using Suc.prems(1) Some by (auto split: prod.splits)
    have "same_shape g g'" if "same_shape bk bk'" using same_shape_set_next [OF Some that] g' by simp
    moreover have "group_at (Suc d + (depth rrp' - depth rrp)) g = group_at (d + (depth rrp' - depth rrp)) bk"
      using Some by simp
    ultimately show ?thesis using Suc.IH [OF b bitmap_fits_next [OF Suc.prems(2) Some]] by metis
  qed
qed

lemma free_at_shape: "same_shape g (free_at d i now st g)"
proof (induction d arbitrary: g)
  case 0
  then show ?case by (simp add: Let_def same_shape_set_peer)
next
  case (Suc d)
  show ?case
  proof (cases "next_peers g")
    case None
    then have "set_next None g = g" by (cases g) (simp add: set_next_def)
    then show ?thesis using None by simp
  next
    case (Some bk)
    then show ?thesis using same_shape_set_next [OF Some Suc] by simp
  qed
qed

lemma free_shape:
  "ngx_http_upstream_free_round_robin_peer now g rrp pc st = (g', pc') \<Longrightarrow> same_shape g g'"
  by (auto simp: ngx_http_upstream_free_round_robin_peer_def free_at_shape split: option.splits)

text \<open>The peers that are not alone in their group.\<close>

definition of_several :: "rr_peers \<Rightarrow> nat \<times> nat \<Rightarrow> bool" where
  "of_several g x \<longleftrightarrow> (case group_at (fst x) g of None \<Rightarrow> False | Some h \<Rightarrow> \<not> single h)"

lemma of_several_shape: "same_shape g g' \<Longrightarrow> of_several g' x = of_several g x"
proof -
  assume "same_shape g g'"
  then have "map_option group_shape (group_at (fst x) g) = map_option group_shape (group_at (fst x) g')"
    by (simp add: same_shape_def)
  then show ?thesis
    by (cases "group_at (fst x) g"; cases "group_at (fst x) g'") (auto simp: of_several_def group_shape_def)
qed

lemma request_run_fresh:
  assumes "bitmap_fits g (length (tried rrp))" "\<forall>g'. Others g' \<in> set es \<longrightarrow> same_shape g g'"
  shows "distinct (filter (of_several g) (request_run es g rrp pc)) \<and>
    (\<forall>(d, i)\<in>set (request_run es g rrp pc). depth rrp \<le> d \<and> (\<exists>h. group_at d g = Some h \<and> i < length (peer h))
       \<and> (d = depth rrp \<and> of_several g (d, i) \<longrightarrow> \<not> is_tried (tried rrp) i))"
  using assms
proof (induction es g rrp pc rule: request_run.induct)
  case (1 g rrp pc)
  then show ?case by simp
next
  case (2 now es g rrp pc)
  obtain g' rrp' pc' rc where t: "get_peer_at (depth rrp) now g rrp pc = (g', rrp', pc', rc)"
    by (metis prod_cases4)
  note T = tried_on_at [OF t 2(3)]
  then have shape: "same_shape g g'" and len: "length (tried rrp') = length (tried rrp)" and le: "depth rrp \<le> depth rrp'"
    and keep: "depth rrp' = depth rrp \<Longrightarrow> is_tried (tried rrp) j \<Longrightarrow> is_tried (tried rrp') j" for j by auto
  have fits: "bitmap_fits g' (length (tried rrp'))" using bitmap_fits_shape [OF 2(3) shape] len by simp
  have others: "\<forall>h. Others h \<in> set es \<longrightarrow> same_shape g' h"
    using 2(4) shape unfolding same_shape_def by (metis list.set_intros(2))
  let ?rest = "request_run es g' rrp' pc'"
  have IH: "distinct (filter (of_several g') ?rest) \<and>
    (\<forall>(d, i)\<in>set ?rest. depth rrp' \<le> d \<and> (\<exists>h. group_at d g' = Some h \<and> i < length (peer h))
       \<and> (d = depth rrp' \<and> of_several g' (d, i) \<longrightarrow> \<not> is_tried (tried rrp') i))"
    using t fits others 2(1,2) by (cases rc) auto
  have sev: "of_several g' = of_several g" using of_several_shape [OF shape] by blast
  have grp: "\<exists>h. group_at d g = Some h \<and> i < length (peer h)" if "group_at d g' = Some h'" "i < length (peer h')" for d i h'
    using same_shape_group [OF shape that(1)] that(2) by auto
  have rest: "\<forall>(d, i)\<in>set ?rest. depth rrp \<le> d \<and> (\<exists>h. group_at d g = Some h \<and> i < length (peer h))
       \<and> (d = depth rrp \<and> of_several g (d, i) \<longrightarrow> \<not> is_tried (tried rrp) i)"
    using IH le keep grp unfolding sev by fastforce
  show ?case
  proof (cases rc)
    case RR_BUSY
    then show ?thesis using t IH rest unfolding sev by simp
  next
    case RR_OK
    then obtain i h where i: "current rrp' = Some i" "group_at (depth rrp') g = Some h" "i < length (peer h)"
      "\<not> single h \<longrightarrow> is_tried (tried rrp') i \<and> (depth rrp' = depth rrp \<longrightarrow> \<not> is_tried (tried rrp) i)"
      using T le by auto
    have "of_several g (depth rrp', i) = (\<not> single h)" using i(2) by (simp add: of_several_def)
    moreover have "(depth rrp', i) \<notin> set ?rest" if "\<not> single h"
      using IH i(4) that calculation unfolding sev by fastforce
    ultimately show ?thesis using t RR_OK IH rest i le unfolding sev by auto
  qed
next
  case (3 now st es g rrp pc)
  obtain g' pc' where t: "ngx_http_upstream_free_round_robin_peer now g rrp pc st = (g', pc')" by fastforce
  note shape = free_shape [OF t]
  have others: "\<forall>h. Others h \<in> set es \<longrightarrow> same_shape g' h"
    using 3(3) shape unfolding same_shape_def by (metis list.set_intros(2))
  have sev: "of_several g' = of_several g" using of_several_shape [OF shape] by blast
  have grp: "\<exists>h. group_at d g = Some h \<and> i < length (peer h)" if "group_at d g' = Some h'" "i < length (peer h')" for d i h'
    using same_shape_group [OF shape that(1)] that(2) by auto
  show ?case using 3(1) [OF t [symmetric] bitmap_fits_shape [OF 3(2) shape] others] t grp unfolding sev by fastforce
next
  case (4 g' es g rrp pc)
  then have shape: "same_shape g g'" by simp
  have others: "\<forall>h. Others h \<in> set es \<longrightarrow> same_shape g' h"
    using 4(3) shape unfolding same_shape_def by (metis list.set_intros(2))
  have sev: "of_several g' = of_several g" using of_several_shape [OF shape] by blast
  have grp: "\<exists>h. group_at d g = Some h \<and> i < length (peer h)" if "group_at d g' = Some h'" "i < length (peer h')" for d i h'
    using same_shape_group [OF shape that(1)] that(2) by auto
  show ?case using 4(1) [OF bitmap_fits_shape [OF 4(2) shape] others] grp unfolding sev by fastforce
qed

text \<open>A server group as the configuration builds it: the lists are as long as they say, a backup has no backup.\<close>

definition built_groups :: "rr_peers \<Rightarrow> bool" where
  "built_groups g \<longleftrightarrow> number g = length (peer g) \<and>
     (case next_peers g of None \<Rightarrow> True | Some bk \<Rightarrow> number bk = length (peer bk) \<and> next_peers bk = None)"

lemma built_groups_fits:
  assumes "built_groups g" "ngx_http_upstream_init_round_robin_peer g pc = (rrp, pc1)"
  shows "bitmap_fits g (length (tried rrp))"
  unfolding bitmap_fits_def
proof (intro allI impI)
  fix d h
  assume h: "group_at d g = Some h"
  have le: "n \<le> 64 * tried_words m" if "n \<le> m" for n m using that unfolding tried_words_def by presburger
  have "h = g \<or> next_peers g = Some h"
  proof (cases d)
    case (Suc e)
    then show ?thesis using h assms(1) by (cases e) (auto simp: built_groups_def split: option.splits)
  qed (use h in simp)
  then show "number h = length (peer h) \<and> number h \<le> 64 * length (tried rrp)"
    using assms le
    by (auto simp: built_groups_def ngx_http_upstream_init_round_robin_peer_def Let_def split: option.splits if_splits)
qed

text \<open>
  C22. A request is never given a peer of a group of several peers twice, and is given at most as many peers of
  the group as the group has: through the whole handler, with its fall-back to the backup group, for
  any number of tries and releases, whatever other requests do to the peers between them. (A group
  with one peer keeps no bitmap: there the code may come back to the peer when a kept connection
  has failed.)
\<close>

theorem request_never_retries:
  assumes "built_groups g" "ngx_http_upstream_init_round_robin_peer g pc = (rrp, pc1)"
    and "\<forall>g'. Others g' \<in> set es \<longrightarrow> same_shape g g'"
  shows "distinct (filter (of_several g) (request_run es g rrp pc1)) \<and>
    (\<forall>d h. group_at d g = Some h \<and> \<not> single h \<longrightarrow>
       length (filter (\<lambda>x. fst x = d) (request_run es g rrp pc1)) \<le> number h)"
proof -
  let ?run = "request_run es g rrp pc1"
  note fits = built_groups_fits [OF assms(1,2)]
  note F = request_run_fresh [OF fits assms(3), of pc1]
  have "length (filter (\<lambda>x. fst x = d) ?run) \<le> number h" if h: "group_at d g = Some h" "\<not> single h" for d h
  proof -
    have eq: "filter (\<lambda>x. fst x = d) ?run = filter (\<lambda>x. fst x = d) (filter (of_several g) ?run)"
      unfolding filter_filter using h by (intro filter_cong) (auto simp: of_several_def)
    have dist: "distinct (filter (\<lambda>x. fst x = d) ?run)"
      unfolding eq by (rule distinct_filter) (rule conjunct1 [OF F])
    have "number h = length (peer h)" using fits h(1) unfolding bitmap_fits_def by blast
    then have "snd x < number h" if "x \<in> set ?run" "fst x = d" for x
      using bspec [OF conjunct2 [OF F] that(1)] that(2) h(1) by (cases x) auto
    then have "set (filter (\<lambda>x. fst x = d) ?run) \<subseteq> {d} \<times> {..<number h}" by auto
    then have "card (set (filter (\<lambda>x. fst x = d) ?run)) \<le> card ({d} \<times> {..<number h})" by (intro card_mono) simp_all
    also have "card ({d} \<times> {..<number h}) = number h" by simp
    also have "card (set (filter (\<lambda>x. fst x = d) ?run)) = length (filter (\<lambda>x. fst x = d) ?run)"
      by (rule distinct_card [OF dist])
    finally show ?thesis .
  qed
  moreover have "distinct (filter (of_several g) ?run)" using F by (rule conjunct1)
  ultimately show ?thesis by blast
qed

definition sample_events :: "rr_event list" where
  "sample_events = [Ask 0, Give_back 1 NGX_PEER_FAILED, Ask 2, Others sample_group, Ask 3]"

theorem request_never_retries_witness:
  "\<exists>rrp pc. ngx_http_upstream_init_round_robin_peer sample_group sample_pc = (rrp, pc)
    \<and> distinct (filter (of_several sample_group) (request_run sample_events sample_group rrp pc))
    \<and> length (filter (\<lambda>x. fst x = 0) (request_run sample_events sample_group rrp pc)) \<le> 3"
proof -
  obtain rrp pc where i: "ngx_http_upstream_init_round_robin_peer sample_group sample_pc = (rrp, pc)" by fastforce
  have b: "built_groups sample_group" by (simp add: built_groups_def sample_defs)
  have g: "group_at 0 sample_group = Some sample_group" "\<not> single sample_group" "number sample_group = 3"
    by (simp_all add: sample_defs)
  have o: "\<forall>g'. Others g' \<in> set sample_events \<longrightarrow> same_shape sample_group g'" by (simp add: sample_events_def)
  from request_never_retries [OF b i o] g
  have "distinct (filter (of_several sample_group) (request_run sample_events sample_group rrp pc))
    \<and> length (filter (\<lambda>x. fst x = 0) (request_run sample_events sample_group rrp pc)) \<le> 3" by metis
  then show ?thesis using i by blast
qed

definition sample_data :: rr_peer_data where
  "sample_data = \<lparr>depth = 0, current = None, tried = [0]\<rparr>"

lemma sample_get:
  "\<exists>g1 rrp1 pc1. ngx_http_upstream_get_round_robin_peer 0 sample_group sample_data sample_pc =
     (g1, rrp1, pc1, RR_OK)"
  by (subst ngx_http_upstream_get_round_robin_peer.simps) (simp add: sample_defs
    sample_data_def ngx_http_upstream_get_peer_def get_peer_loop.simps skip_peer_def is_tried_def
    raise_peer_def Let_def)

theorem connections_balanced_witness:
  "\<exists>g1 rrp1. total_conns g1 = total_conns sample_group + 1 \<and>
     total_conns (fst (ngx_http_upstream_free_round_robin_peer 1 g1 rrp1 sample_pc NGX_PEER_FAILED)) =
       total_conns sample_group"
proof -
  obtain g1 rrp1 pc1 where
    "ngx_http_upstream_get_round_robin_peer 0 sample_group sample_data sample_pc = (g1, rrp1, pc1, RR_OK)"
    using sample_get by blast
  from connections_balanced [OF _ this, of 1 sample_pc NGX_PEER_FAILED] show ?thesis
    by (auto simp: sample_data_def)
qed

theorem effective_weight_invariant_witness:
  "\<exists>g1 rrp1. list_all sane (chain_peers g1) \<and>
     list_all sane (chain_peers
       (fst (ngx_http_upstream_free_round_robin_peer 1 g1 rrp1 sample_pc NGX_PEER_FAILED)))"
proof -
  obtain g1 rrp1 pc1 where
    "ngx_http_upstream_get_round_robin_peer 0 sample_group sample_data sample_pc = (g1, rrp1, pc1, RR_OK)"
    using sample_get by blast
  moreover have "list_all sane (chain_peers sample_group)"
    by (subst chain_peers.simps) (simp add: sample_defs sane_def)
  ultimately show ?thesis
    using effective_weight_invariant [of sample_group sample_data 0 sample_pc g1 rrp1 pc1 1 sample_pc
      NGX_PEER_FAILED]
    by (auto simp: sample_data_def)
qed


end
