(* ===== verification/Http_Chunked.thy ===== *)
theory Http_Chunked
  imports Ngx_Number
begin

text \<open>
  The chunked transfer coding: \<open>ngx_http_parse_chunked\<close> (\<open>http/ngx_http_parse.c\<close>), its two
  callers \<open>ngx_http_request_body_chunked_filter\<close> and \<open>ngx_http_discard_request_body_filter\<close>
  (\<open>http/ngx_http_request_body.c\<close>), and the encoder \<open>ngx_http_chunked_body_filter\<close>
  (\<open>http/modules/ngx_http_chunked_filter_module.c\<close>). A buffer is the list of its bytes from
  \<open>pos\<close> to \<open>last\<close>. The size of a chunk is an \<open>off_t\<close> that is never negative, a \<open>nat\<close> here;
  \<open>chunked_no_overflow\<close> bounds it.
\<close>

section \<open>The parser\<close>

datatype chunked_state =
    sw_chunk_start | sw_chunk_size | sw_chunk_extension | sw_chunk_extension_almost_done
  | sw_chunk_data | sw_after_data | sw_after_data_almost_done
  | sw_last_chunk_extension | sw_last_chunk_extension_almost_done
  | sw_trailer | sw_trailer_almost_done | sw_trailer_header | sw_trailer_header_almost_done

record ngx_http_chunked_t =
  ck_state :: chunked_state
  ck_size :: nat
  ck_length :: nat

definition MAX_OFF_T :: nat where "MAX_OFF_T = nat NGX_MAX_OFF_T_VALUE"

text \<open>One byte: a new state and size, or the jump to \<open>data\<close>, \<open>done\<close> or \<open>invalid\<close>.\<close>

datatype chunked_step = Next chunked_state nat | Goto_data | Goto_done | Goto_invalid

text \<open>The value of a hexadecimal digit, lower or upper case.\<close>

definition chunk_digit :: "u_char \<Rightarrow> nat option" where
  "chunk_digit ch =
     (if ch \<ge> 0x30 \<and> ch \<le> 0x39 then Some (unat ch - 0x30)
      else let c = ch OR 0x20 in
        if c \<ge> 0x61 \<and> c \<le> 0x66 then Some (unat c - 0x61 + 10) else None)"

definition chunk_size_step :: "u_char \<Rightarrow> nat \<Rightarrow> chunked_step" where
  "chunk_size_step ch sz =
     (if sz > MAX_OFF_T div 16 then Goto_invalid
      else case chunk_digit ch of
        Some d \<Rightarrow> Next sw_chunk_size (sz * 16 + d)
      | None \<Rightarrow>
          if sz = 0 then
            (if ch = CR then Next sw_last_chunk_extension_almost_done sz
             else if ch = LF then Next sw_trailer sz
             else if ch = 0x3b \<or> ch = 0x20 \<or> ch = 0x09 then Next sw_last_chunk_extension sz
             else Goto_invalid)
          else
            (if ch = CR then Next sw_chunk_extension_almost_done sz
             else if ch = LF then Next sw_chunk_data sz
             else if ch = 0x3b \<or> ch = 0x20 \<or> ch = 0x09 then Next sw_chunk_extension sz
             else Goto_invalid))"

fun chunk_step :: "u_char \<Rightarrow> chunked_state \<Rightarrow> nat \<Rightarrow> chunked_step" where
  "chunk_step ch sw_chunk_start sz =
     (case chunk_digit ch of Some d \<Rightarrow> Next sw_chunk_size d | None \<Rightarrow> Goto_invalid)"
| "chunk_step ch sw_chunk_size sz = chunk_size_step ch sz"
| "chunk_step ch sw_chunk_extension sz =
     (if ch = CR then Next sw_chunk_extension_almost_done sz
      else if ch = LF then Next sw_chunk_data sz else Next sw_chunk_extension sz)"
| "chunk_step ch sw_chunk_extension_almost_done sz =
     (if ch = LF then Next sw_chunk_data sz else Goto_invalid)"
| "chunk_step ch sw_chunk_data sz = Goto_data"
| "chunk_step ch sw_after_data sz =
     (if ch = CR then Next sw_after_data_almost_done sz
      else if ch = LF then Next sw_chunk_start sz else Next sw_after_data sz)"
| "chunk_step ch sw_after_data_almost_done sz =
     (if ch = LF then Next sw_chunk_start sz else Goto_invalid)"
| "chunk_step ch sw_last_chunk_extension sz =
     (if ch = CR then Next sw_last_chunk_extension_almost_done sz
      else if ch = LF then Next sw_trailer sz else Next sw_last_chunk_extension sz)"
| "chunk_step ch sw_last_chunk_extension_almost_done sz =
     (if ch = LF then Next sw_trailer sz else Goto_invalid)"
| "chunk_step ch sw_trailer sz =
     (if ch = CR then Next sw_trailer_almost_done sz
      else if ch = LF then Goto_done else Next sw_trailer_header sz)"
| "chunk_step ch sw_trailer_almost_done sz = (if ch = LF then Goto_done else Goto_invalid)"
| "chunk_step ch sw_trailer_header sz =
     (if ch = CR then Next sw_trailer_header_almost_done sz
      else if ch = LF then Next sw_trailer sz else Next sw_trailer_header sz)"
| "chunk_step ch sw_trailer_header_almost_done sz =
     (if ch = LF then Next sw_trailer sz else Goto_invalid)"

text \<open>The loop: how it ends, the bytes from \<open>pos\<close> on, the state and the size.\<close>

fun chunk_loop :: "bytes \<Rightarrow> chunked_state \<Rightarrow> nat \<Rightarrow> ngx_rc \<times> bytes \<times> chunked_state \<times> nat" where
  "chunk_loop [] st sz = (NGX_AGAIN, [], st, sz)"
| "chunk_loop (ch # b) st sz =
     (case chunk_step ch st sz of
        Next st' sz' \<Rightarrow> chunk_loop b st' sz'
      | Goto_data \<Rightarrow> (NGX_OK, ch # b, st, sz)
      | Goto_done \<Rightarrow> (NGX_DONE, b, st, sz)
      | Goto_invalid \<Rightarrow> (NGX_ERROR, ch # b, st, sz))"

text \<open>The amount of data still to come at least.\<close>

fun chunk_length :: "chunked_state \<Rightarrow> nat \<Rightarrow> nat" where
  "chunk_length sw_chunk_start sz = 3"
| "chunk_length sw_chunk_size sz = 1 + (if sz \<noteq> 0 then sz + 4 else 1)"
| "chunk_length sw_chunk_extension sz = 1 + sz + 4"
| "chunk_length sw_chunk_extension_almost_done sz = 1 + sz + 4"
| "chunk_length sw_chunk_data sz = sz + 4"
| "chunk_length sw_after_data sz = 4"
| "chunk_length sw_after_data_almost_done sz = 4"
| "chunk_length sw_last_chunk_extension sz = 2"
| "chunk_length sw_last_chunk_extension_almost_done sz = 2"
| "chunk_length sw_trailer sz = 1"
| "chunk_length sw_trailer_almost_done sz = 1"
| "chunk_length sw_trailer_header sz = 2"
| "chunk_length sw_trailer_header_almost_done sz = 2"

definition chunk_resume :: "chunked_state \<Rightarrow> nat \<Rightarrow> chunked_state" where
  "chunk_resume st sz = (if st = sw_chunk_data \<and> sz = 0 then sw_after_data else st)"

definition ngx_http_parse_chunked ::
  "bytes \<Rightarrow> ngx_http_chunked_t \<Rightarrow> ngx_rc \<times> bytes \<times> ngx_http_chunked_t" where
  "ngx_http_parse_chunked b ctx =
     (let (rc, b', st, sz) = chunk_loop b (chunk_resume (ck_state ctx) (ck_size ctx)) (ck_size ctx)
      in if rc = NGX_ERROR then (NGX_ERROR, b, ctx\<lparr>ck_size := sz\<rparr>)
         else if rc = NGX_DONE then (NGX_DONE, b', ctx\<lparr>ck_state := sw_chunk_start, ck_size := sz\<rparr>)
         else if sz > MAX_OFF_T - 5 then (NGX_ERROR, b', ctx\<lparr>ck_state := st, ck_size := sz\<rparr>)
         else (rc, b', \<lparr>ck_state = st, ck_size = sz, ck_length = chunk_length st sz\<rparr>))"

section \<open>Reading a request body\<close>

text \<open>
  \<open>rest\<close> is \<open>rb->rest\<close>, negative before the first call; \<open>content_length_n\<close> counts the body
  bytes that were read.
\<close>

record request_body =
  chunked :: ngx_http_chunked_t
  rest :: int
  content_length_n :: nat

datatype body_rc = Body_ok | Bad_request | Entity_too_large

text \<open>
  The parser returns \<open>NGX_OK\<close> only with data to take, so each turn of the inner loops
  consumes some of the buffer.
\<close>

lemma chunk_loop_rest:
  "chunk_loop b st sz = (rc, b', st', sz') \<Longrightarrow> length b' \<le> length b
     \<and> (rc = NGX_OK \<longrightarrow> st' = sw_chunk_data \<and> b' \<noteq> []
          \<and> (length b' < length b \<or> (st' = st \<and> sz' = sz)))"
proof (induction b st sz rule: chunk_loop.induct)
  case (2 ch b st sz)
  then show ?case
    by (cases "chunk_step ch st sz"; cases st) (auto split: if_splits option.splits simp: chunk_size_step_def)
qed auto

lemma parse_chunked_progress:
  assumes "ngx_http_parse_chunked b ctx = (NGX_OK, b', ctx')"
  shows "length (drop (ck_size ctx') b') < length b"
proof -
  obtain rc b1 st sz where l:
    "chunk_loop b (chunk_resume (ck_state ctx) (ck_size ctx)) (ck_size ctx) = (rc, b1, st, sz)"
    by (metis prod_cases4)
  have "rc = NGX_OK" "b1 = b'" "ck_size ctx' = sz"
    using assms by (auto simp: ngx_http_parse_chunked_def l split: if_splits)
  then have "length b' \<le> length b \<and> 0 < length b' \<and> (length b' < length b \<or> 0 < ck_size ctx')"
    using chunk_loop_rest [OF l] by (auto simp: chunk_resume_def split: if_splits)
  then show ?thesis unfolding length_drop by linarith
qed

text \<open>
  The inner loop of \<open>ngx_http_request_body_chunked_filter\<close> on one buffer: the data buffers
  for the next filter, whether the last buffer is among them, what is left of the buffer.
  \<open>limit\<close> is \<open>client_max_body_size\<close>; the comparison is one of \<open>off_t\<close> values.
\<close>

function body_chunked_buf :: "int \<Rightarrow> bytes \<Rightarrow> request_body
    \<Rightarrow> body_rc \<times> bytes list \<times> bool \<times> bytes \<times> request_body" where
  "body_chunked_buf limit b rb =
     (let (rc, b', ctx) = ngx_http_parse_chunked b (chunked rb);
          rb1 = rb\<lparr>chunked := ctx\<rparr>
      in case rc of
           NGX_OK \<Rightarrow>
             if limit \<noteq> 0 \<and> limit - int (content_length_n rb) < int (ck_size ctx)
             then (Entity_too_large, [], False, b', rb1)
             else
               let rb2 =
                 (if length b' > ck_size ctx
                  then rb1\<lparr>content_length_n := content_length_n rb + ck_size ctx,
                           chunked := ctx\<lparr>ck_size := 0\<rparr>\<rparr>
                  else rb1\<lparr>content_length_n := content_length_n rb + length b',
                           chunked := ctx\<lparr>ck_size := ck_size ctx - length b'\<rparr>\<rparr>);
                   (r, out, last, b3, rb3) = body_chunked_buf limit (drop (ck_size ctx) b') rb2
               in (r, take (ck_size ctx) b' # out, last, b3, rb3)
         | NGX_DONE \<Rightarrow> (Body_ok, [], True, b', rb1\<lparr>rest := 0\<rparr>)
         | NGX_AGAIN \<Rightarrow> (Body_ok, [], False, b', rb1\<lparr>rest := int (ck_length ctx)\<rparr>)
         | _ \<Rightarrow> (Bad_request, [], False, b', rb1))"
  by pat_completeness auto
termination
  by (relation "measure (\<lambda>(limit, b, rb). length b)") (auto dest!: parse_chunked_progress [OF sym])

declare body_chunked_buf.simps [simp del]

text \<open>The loop over the chain of buffers. An error drops what was collected for the next filter.\<close>

fun body_chunked_chain :: "int \<Rightarrow> bytes list \<Rightarrow> request_body
    \<Rightarrow> body_rc \<times> bytes list \<times> bytes list \<times> request_body" where
  "body_chunked_chain limit [] rb = (Body_ok, [], [], rb)"
| "body_chunked_chain limit (b # bs) rb =
     (let (r, out, last, b', rb') = body_chunked_buf limit b rb
      in if r \<noteq> Body_ok then (r, [], b' # bs, rb')
         else let (r2, out2, bs', rb2) = body_chunked_chain limit bs rb'
              in (r2, if r2 \<noteq> Body_ok then [] else out @ out2, b' # bs', rb2))"

definition ngx_http_request_body_chunked_filter :: "int \<Rightarrow> bytes list \<Rightarrow> request_body
    \<Rightarrow> body_rc \<times> bytes list \<times> bytes list \<times> request_body" where
  "ngx_http_request_body_chunked_filter limit bs rb =
     body_chunked_chain limit bs
       (if rest rb = -1
        then \<lparr>chunked = \<lparr>ck_state = sw_chunk_start, ck_size = 0, ck_length = 0\<rparr>,
              rest = 3, content_length_n = 0\<rparr>
        else rb)"

text \<open>\<open>ngx_http_discard_request_body_filter\<close> in its chunked branch.\<close>

function discard_chunked :: "bytes \<Rightarrow> request_body \<Rightarrow> body_rc \<times> bytes \<times> request_body" where
  "discard_chunked b rb =
     (let (rc, b', ctx) = ngx_http_parse_chunked b (chunked rb);
          rb1 = rb\<lparr>chunked := ctx\<rparr>
      in case rc of
           NGX_OK \<Rightarrow>
             if length b' > ck_size ctx
             then discard_chunked (drop (ck_size ctx) b') (rb1\<lparr>chunked := ctx\<lparr>ck_size := 0\<rparr>\<rparr>)
             else discard_chunked []
                    (rb1\<lparr>chunked := ctx\<lparr>ck_size := ck_size ctx - length b'\<rparr>\<rparr>)
         | NGX_DONE \<Rightarrow> (Body_ok, b', rb1\<lparr>content_length_n := 0\<rparr>)
         | NGX_AGAIN \<Rightarrow> (Body_ok, b', rb1\<lparr>content_length_n := ck_length ctx\<rparr>)
         | _ \<Rightarrow> (Bad_request, b', rb1))"
  by pat_completeness auto
termination
proof (relation "measure (\<lambda>(b, rb). length b)", goal_cases)
  case 1 show ?case by simp
next
  case (2 b rb x rc y b' ctx rb1)
  then show ?case using parse_chunked_progress [of b "chunked rb" b' ctx] by simp
next
  case (3 b rb x rc y b' ctx rb1)
  then show ?case using parse_chunked_progress [of b "chunked rb" b' ctx] by simp
qed

declare discard_chunked.simps [simp del]

section \<open>Writing a response body\<close>

text \<open>
  One call of the body filter: the contents of the buffers of the chain, and whether the last
  of them has \<open>last_buf\<close>. The trailers are the headers of \<open>headers_out.trailers\<close> whose
  \<open>hash\<close> is not 0, each a key and a value.
\<close>

definition trailer_line :: "bytes \<times> bytes \<Rightarrow> bytes" where
  "trailer_line h = fst h @ [0x3a, 0x20] @ snd h @ [CR, LF]"

definition ngx_http_chunked_create_trailers :: "(bytes \<times> bytes \<times> bool) list \<Rightarrow> bytes" where
  "ngx_http_chunked_create_trailers hs =
     (let live = map (\<lambda>(k, v, _). (k, v)) (filter (\<lambda>(k, v, hash). hash) hs);
          len = sum_list (map (\<lambda>(k, v). length k + 2 + length v + 2) live)
      in if len = 0 then [CR, LF, 0x30, CR, LF, CR, LF]
         else [CR, LF, 0x30, CR, LF] @ concat (map trailer_line live) @ [CR, LF])"

definition ngx_http_chunked_body_filter ::
  "(bytes \<times> bytes \<times> bool) list \<Rightarrow> bytes list \<Rightarrow> bool \<Rightarrow> bytes" where
  "ngx_http_chunked_body_filter trailers chain last_buf =
     (let sz = length (concat chain);
          head = (if sz \<noteq> 0 then ngx_sprintf_num 21 (word_of_nat sz) 0x20 1 0 @ [CR, LF] else []);
          tail = (if last_buf
                  then drop (if sz = 0 then 2 else 0) (ngx_http_chunked_create_trailers trailers)
                  else if sz > 0 then [CR, LF] else [])
      in head @ concat chain @ tail)"


section \<open>The coding byte by byte\<close>

text \<open>
  The specification: the body data, how the input ends, what is left of it and the state,
  computed one byte at a time without buffers.
\<close>

fun body_run :: "bytes \<Rightarrow> chunked_state \<Rightarrow> nat \<Rightarrow> bytes \<times> ngx_rc \<times> bytes \<times> chunked_state \<times> nat" where
  "body_run [] st sz =
     ([], if sz > MAX_OFF_T - 5 then NGX_ERROR else NGX_AGAIN, [], chunk_resume st sz, sz)"
| "body_run (ch # b) st sz =
     (if st = sw_chunk_data \<and> 0 < sz then map_prod ((#) ch) id (body_run b st (sz - 1))
      else case chunk_step ch (chunk_resume st sz) sz of
          Next st' sz' \<Rightarrow> body_run b st' sz'
        | Goto_done \<Rightarrow> ([], NGX_DONE, b, sw_chunk_start, sz)
        | _ \<Rightarrow> ([], NGX_ERROR, ch # b, st, sz))"

definition run_rc :: "bytes \<Rightarrow> chunked_state \<Rightarrow> nat \<Rightarrow> ngx_rc" where
  "run_rc b st sz = fst (snd (body_run b st sz))"

text \<open>What holds of the state and the size between bytes.\<close>

definition chunk_ok :: "chunked_state \<Rightarrow> nat \<Rightarrow> bool" where
  "chunk_ok st sz \<longleftrightarrow> (if st = sw_chunk_size then sz \<le> MAX_OFF_T else sz \<le> MAX_OFF_T div 16)
     \<and> (st = sw_chunk_extension \<or> st = sw_chunk_extension_almost_done \<longrightarrow> 0 < sz)"

lemma MAX_OFF_T_code: "MAX_OFF_T = 9223372036854775807"
  by (simp add: MAX_OFF_T_def max_defs)

lemma chunk_digit_le: "chunk_digit ch = Some d \<Longrightarrow> d \<le> 15"
  by (rule all_byteI [of "\<lambda>ch. \<forall>d. chunk_digit ch = Some d \<longrightarrow> d \<le> 15", rule_format])
    (simp_all add: all_bytes_code chunk_digit_def)

lemma chunk_size_bound: "sz \<le> MAX_OFF_T div 16 \<Longrightarrow> d \<le> 15 \<Longrightarrow> sz * 16 + d \<le> MAX_OFF_T"
  by (simp add: MAX_OFF_T_code)

lemma chunk_step_ok:
  assumes "chunk_step ch st sz = Next st' sz'" and "chunk_ok st sz"
  shows "chunk_ok st' sz' \<and> (st' = sw_chunk_data \<longrightarrow> 0 < sz')"
proof -
  have "d \<le> MAX_OFF_T" if "chunk_digit ch = Some d" for d
    using chunk_digit_le [OF that] by (simp add: MAX_OFF_T_code)
  moreover note chunk_size_bound [OF _ chunk_digit_le]
  ultimately show ?thesis
    using assms by (cases st) (auto simp: chunk_ok_def chunk_size_step_def split: if_splits option.splits)
qed

lemma chunk_step_kind:
  "chunk_step ch st sz = Goto_data \<longleftrightarrow> st = sw_chunk_data"
  by (cases st) (auto simp: chunk_size_step_def split: if_splits option.splits)

lemma chunk_resume_simps [simp]:
  "chunk_resume (chunk_resume st sz) sz = chunk_resume st sz"
  "chunk_resume sw_chunk_data sz = sw_chunk_data \<longleftrightarrow> 0 < sz"
  "st \<noteq> sw_chunk_data \<Longrightarrow> chunk_resume st sz = st"
  "chunk_resume st sz = sw_chunk_data \<longleftrightarrow> st = sw_chunk_data \<and> 0 < sz"
  "chunk_resume sw_chunk_data (Suc n) = sw_chunk_data"
  by (auto simp: chunk_resume_def)

lemma chunk_ok_resume: "chunk_ok st sz \<Longrightarrow> chunk_ok (chunk_resume st sz) sz"
  by (auto simp: chunk_ok_def chunk_resume_def)

lemma body_run_resume: "body_run b (chunk_resume st sz) sz = body_run b st sz"
proof (cases "st = sw_chunk_data \<and> sz = 0")
  case True
  then have "chunk_resume st sz = sw_after_data" by (simp add: chunk_resume_def)
  with True show ?thesis by (cases b) simp_all
next
  case False
  then have "chunk_resume st sz = st" by (auto simp: chunk_resume_def)
  then show ?thesis by simp
qed

lemma small_size: "chunk_ok st sz \<Longrightarrow> st \<noteq> sw_chunk_size \<Longrightarrow> sz \<le> MAX_OFF_T - 5"
  by (auto simp: chunk_ok_def MAX_OFF_T_code)

text \<open>The parser's loop is the specification up to the next chunk data.\<close>

lemma body_run_loop:
  assumes "chunk_loop b st sz = (rc, b', st', sz')" and "chunk_ok st sz"
    and "st = sw_chunk_data \<longrightarrow> 0 < sz"
  shows "chunk_ok st' sz' \<and> (st' = sw_chunk_data \<longrightarrow> 0 < sz') \<and>
     (case rc of
       NGX_AGAIN \<Rightarrow> b' = [] \<and> body_run b st sz
          = ([], if sz' > MAX_OFF_T - 5 then NGX_ERROR else NGX_AGAIN, [], st', sz')
     | NGX_OK \<Rightarrow> st' = sw_chunk_data \<and> 0 < sz' \<and> b' \<noteq> [] \<and> body_run b st sz = body_run b' st' sz'
     | NGX_DONE \<Rightarrow> chunk_ok sw_chunk_start sz' \<and> body_run b st sz = ([], NGX_DONE, b', sw_chunk_start, sz')
     | NGX_ERROR \<Rightarrow> run_rc b st sz = NGX_ERROR
     | _ \<Rightarrow> False)"
  using assms
proof (induction b st sz rule: chunk_loop.induct)
  case (1 st sz)
  then show ?case by (auto simp: chunk_resume_def)
next
  case (2 ch b st sz)
  show ?case
  proof (cases "st = sw_chunk_data")
    case True
    then show ?thesis using 2 by auto
  next
    case False
    then have res: "chunk_resume st sz = st" by simp
    show ?thesis
    proof (cases "chunk_step ch st sz")
      case (Next st1 sz1)
      have run: "body_run (ch # b) st sz = body_run b st1 sz1" using False Next res by simp
      have ok: "chunk_ok st1 sz1" "st1 = sw_chunk_data \<longrightarrow> 0 < sz1"
        using chunk_step_ok [OF Next 2(3)] by auto
      have "chunk_loop b st1 sz1 = (rc, b', st', sz')" using 2(2) Next by simp
      from 2(1) [OF Next this ok] show ?thesis unfolding run_rc_def run .
    next
      case Goto_data
      then show ?thesis using False chunk_step_kind by simp
    next
      case Goto_done
      moreover from this have "st \<noteq> sw_chunk_size"
        by (auto simp: chunk_size_step_def split: if_splits option.splits)
      ultimately show ?thesis using 2 False res by (auto simp: chunk_ok_def)
    next
      case Goto_invalid
      then show ?thesis using 2 False res by (auto simp: run_rc_def)
    qed
  qed
qed

lemma body_run_data:
  "body_run b sw_chunk_data n =
     map_prod ((@) (take n b)) id (body_run (drop n b) sw_chunk_data (n - length b))"
proof (induction n arbitrary: b)
  case 0
  then show ?case by (simp add: prod.map_id0)
next
  case (Suc n)
  show ?case
  proof (cases b)
    case Nil
    then show ?thesis by (simp add: chunk_resume_def)
  next
    case (Cons ch b')
    then show ?thesis using Suc [of b'] by (simp add: prod.map_comp o_def)
  qed
qed

lemma body_run_append:
  "body_run xs st sz = (d, NGX_AGAIN, r, st', sz') \<Longrightarrow>
   body_run (xs @ ys) st sz = map_prod ((@) d) id (body_run ys st' sz')"
proof (induction xs st sz arbitrary: d rule: body_run.induct)
  case (1 st sz)
  then show ?case by (auto simp: body_run_resume prod.map_id0 split: if_splits)
next
  case (2 ch b st sz)
  show ?case
  proof (cases "st = sw_chunk_data \<and> 0 < sz")
    case True
    with 2(3) obtain d' where "d = ch # d'" "body_run b st (sz - 1) = (d', NGX_AGAIN, r, st', sz')"
      by (cases "body_run b st (sz - 1)") auto
    then show ?thesis using 2(1) True by (simp add: prod.map_comp o_def)
  next
    case False
    then show ?thesis using 2 by (auto split: chunked_step.splits)
  qed
qed

lemma body_run_error_append:
  "run_rc xs st sz = NGX_ERROR \<Longrightarrow> chunk_ok st sz \<Longrightarrow> run_rc (xs @ ys) st sz = NGX_ERROR"
proof (induction xs st sz rule: body_run.induct)
  case (1 st sz)
  show ?case
  proof (cases ys)
    case Nil
    then show ?thesis using 1 by simp
  next
    case (Cons c ys')
    have "sz > MAX_OFF_T - 5" using 1 by (auto simp: run_rc_def split: if_splits)
    moreover from this have "st = sw_chunk_size" using small_size 1(2) not_less by blast
    ultimately show ?thesis
      by (simp add: Cons run_rc_def chunk_size_step_def MAX_OFF_T_code)
  qed
next
  case (2 ch b st sz)
  show ?case
  proof (cases "st = sw_chunk_data \<and> 0 < sz")
    case True
    then have "chunk_ok st (sz - 1)" using 2(4) by (auto simp: chunk_ok_def)
    then show ?thesis using 2(1,3) True by (auto simp: run_rc_def)
  next
    case False
    then show ?thesis
      using 2(2-4) chunk_step_ok [OF _ chunk_ok_resume [OF 2(4)], of ch]
      by (auto simp: run_rc_def split: chunked_step.splits)
  qed
qed

section \<open>The request body filter implements the specification\<close>

text \<open>What of the announced data of a chunk is still to come.\<close>

definition pending :: "chunked_state \<Rightarrow> nat \<Rightarrow> nat" where
  "pending st sz = (if st = sw_chunk_data then sz else 0)"

abbreviation run_of :: "bytes \<Rightarrow> ngx_http_chunked_t \<Rightarrow> bytes \<times> ngx_rc \<times> bytes \<times> chunked_state \<times> nat" where
  "run_of b ctx \<equiv> body_run b (ck_state ctx) (ck_size ctx)"

abbreviation ctx_ok :: "ngx_http_chunked_t \<Rightarrow> bool" where
  "ctx_ok ctx \<equiv> chunk_ok (ck_state ctx) (ck_size ctx)"

lemma parse_chunked_run:
  assumes "ngx_http_parse_chunked b ctx = (rc, b', ctx')" and "ctx_ok ctx"
  shows "case rc of
       NGX_AGAIN \<Rightarrow> ctx_ok ctx' \<and> run_of b ctx = ([], NGX_AGAIN, b', ck_state ctx', ck_size ctx')
         \<and> ck_length ctx' = chunk_length (ck_state ctx') (ck_size ctx')
     | NGX_OK \<Rightarrow> ctx_ok ctx' \<and> ck_state ctx' = sw_chunk_data \<and> 0 < ck_size ctx' \<and> b' \<noteq> []
         \<and> run_of b ctx = body_run b' sw_chunk_data (ck_size ctx')
     | NGX_DONE \<Rightarrow> ctx_ok ctx' \<and> run_of b ctx = ([], NGX_DONE, b', ck_state ctx', ck_size ctx')
     | NGX_ERROR \<Rightarrow> run_rc b (ck_state ctx) (ck_size ctx) = NGX_ERROR
     | _ \<Rightarrow> False"
proof -
  let ?st = "chunk_resume (ck_state ctx) (ck_size ctx)"
  obtain rc0 b1 st sz where l: "chunk_loop b ?st (ck_size ctx) = (rc0, b1, st, sz)"
    by (metis prod_cases4)
  show ?thesis
    using body_run_loop [OF l chunk_ok_resume [OF assms(2)]] small_size [of st sz] assms(1)
    by (cases rc0) (auto simp: ngx_http_parse_chunked_def l body_run_resume run_rc_def split: if_splits)
qed


lemma chunk_ok_smaller: "chunk_ok sw_chunk_data n \<Longrightarrow> m \<le> n \<Longrightarrow> chunk_ok sw_chunk_data m"
  by (auto simp: chunk_ok_def)

text \<open>One turn of the inner loop takes the same data as the specification.\<close>

lemma body_run_take:
  assumes "ctx' = (if length b' > ck_size ctx then ctx\<lparr>ck_size := 0\<rparr>
                   else ctx\<lparr>ck_size := ck_size ctx - length b'\<rparr>)"
    and "ck_state ctx = sw_chunk_data"
  shows "body_run b' sw_chunk_data (ck_size ctx) =
    map_prod ((@) (take (ck_size ctx) b')) id (run_of (drop (ck_size ctx) b') ctx')"
  using body_run_data [of b' "ck_size ctx"] assms by auto

definition body_result ::
  "bytes list \<Rightarrow> bool \<Rightarrow> bytes \<Rightarrow> request_body \<Rightarrow> bytes \<times> ngx_rc \<times> bytes \<times> chunked_state \<times> nat" where
  "body_result out fin b' rb' =
     (concat out, if fin then NGX_DONE else NGX_AGAIN, b', ck_state (chunked rb'), ck_size (chunked rb'))"

lemma body_chunked_buf_run:
  assumes "body_chunked_buf limit b rb = (r, out, fin, b', rb')" and "ctx_ok (chunked rb)"
  shows "case r of
      Body_ok \<Rightarrow> ctx_ok (chunked rb') \<and> run_of b (chunked rb) = body_result out fin b' rb'
        \<and> content_length_n rb' = content_length_n rb + length (concat out)
        \<and> rest rb' = (if fin then 0
             else int (chunk_length (ck_state (chunked rb')) (ck_size (chunked rb'))))
    | Bad_request \<Rightarrow> run_rc b (ck_state (chunked rb)) (ck_size (chunked rb)) = NGX_ERROR
    | Entity_too_large \<Rightarrow> limit \<noteq> 0 \<and>
        (case run_of b (chunked rb) of (d, rc, _, st, sz) \<Rightarrow>
           limit < int (content_length_n rb + length d + (if rc = NGX_AGAIN then pending st sz else 0))
           \<or> rc = NGX_ERROR)"
  using assms
proof (induction b arbitrary: rb r out fin b' rb' rule: length_induct)
  case (1 b)
  obtain rc b1 ctx where p: "ngx_http_parse_chunked b (chunked rb) = (rc, b1, ctx)"
    by (metis prod_cases3)
  note run = parse_chunked_run [OF p 1(3)]
  show ?case
  proof (cases rc)
    case NGX_OK
    let ?n = "ck_size ctx"
    let ?over = "limit \<noteq> 0 \<and> limit - int (content_length_n rb) < int ?n"
    define ctx2 where "ctx2 = (if length b1 > ?n then ctx\<lparr>ck_size := 0\<rparr>
                   else ctx\<lparr>ck_size := ?n - length b1\<rparr>)"
    define rb2 where "rb2 = rb\<lparr>content_length_n := content_length_n rb + length (take ?n b1), chunked := ctx2\<rparr>"
    have ctx: "ctx_ok ctx" "ck_state ctx = sw_chunk_data" "0 < ?n"
      using run by (auto simp: NGX_OK)
    have r0: "run_of b (chunked rb) = map_prod ((@) (take ?n b1)) id (run_of (drop ?n b1) ctx2)"
      using run body_run_take [OF ctx2_def ctx(2)] by (simp add: NGX_OK)
    have ok2: "ctx_ok (chunked rb2)"
    proof -
      have "chunk_ok sw_chunk_data (ck_size ctx2)"
        by (rule chunk_ok_smaller [OF ctx(1) [unfolded ctx(2)]]) (simp add: ctx2_def)
      then show ?thesis
        by (cases "?n < length b1") (simp_all add: rb2_def ctx2_def ctx(2))
    qed
    have rb2: "rb2 = (if length b1 > ?n
                  then rb\<lparr>content_length_n := content_length_n rb + ?n, chunked := ctx\<lparr>ck_size := 0\<rparr>\<rparr>
                  else rb\<lparr>content_length_n := content_length_n rb + length b1,
                           chunked := ctx\<lparr>ck_size := ?n - length b1\<rparr>\<rparr>)"
      by (simp add: rb2_def ctx2_def)
    show ?thesis
    proof (cases ?over)
      case True
      then have r: "r = Entity_too_large"
        using 1(2) by (simp add: body_chunked_buf.simps [of limit b] p NGX_OK)
      obtain d rc2 b2 st sz where d: "run_of (drop ?n b1) ctx2 = (d, rc2, b2, st, sz)"
        by (metis prod_cases5)
      have "?n \<le> length (take ?n b1 @ d) + (if rc2 = NGX_AGAIN then pending st sz else 0) \<or> rc2 = NGX_ERROR"
      proof (cases "?n \<le> length b1")
        case False
        then have "(d, rc2, b2, st, sz) = ([], if sz > MAX_OFF_T - 5 then NGX_ERROR else NGX_AGAIN, [], sw_chunk_data, ?n - length b1)"
          using d by (auto simp: ctx2_def ctx(2) split: if_splits)
        with False show ?thesis by (simp add: pending_def)
      qed simp
      with True r d r0 show ?thesis by (auto simp del: length_take length_append)
    next
      case False
      obtain r2 out2 fin2 b3 rb3 where rec:
        "body_chunked_buf limit (drop ?n b1) rb2 = (r2, out2, fin2, b3, rb3)"
        by (metis prod_cases5)
      have res: "r = r2" "out = take ?n b1 # out2" "fin = fin2" "b' = b3" "rb' = rb3"
        using 1(2) False rec
        by (auto simp: body_chunked_buf.simps [of limit b] p NGX_OK Let_def rb2 split: if_splits)
      have "length (drop ?n b1) < length b" using parse_chunked_progress p unfolding NGX_OK by blast
      note IH = 1(1) [rule_format, OF this rec ok2]
      have c2: "chunked rb2 = ctx2" "content_length_n rb2 = content_length_n rb + length (take ?n b1)"
        by (simp_all add: rb2_def)
      show ?thesis
        using IH unfolding res c2 run_rc_def r0
        by (cases r2) (auto simp: body_result_def split: prod.splits)
    qed
  qed (use run 1(2) in \<open>auto simp: body_chunked_buf.simps [of limit b] p body_result_def\<close>)
qed


section \<open>The buffers of a body\<close>

lemma body_run_kinds:
  "body_run b st sz = (d, rc, r, st', sz') \<Longrightarrow>
   (rc = NGX_AGAIN \<and> r = []) \<or> rc = NGX_ERROR
   \<or> (rc = NGX_DONE \<and> (\<forall>ys. body_run (b @ ys) st sz = (d, NGX_DONE, r @ ys, st', sz')))"
proof (induction b st sz arbitrary: d rule: body_run.induct)
  case (1 st sz)
  then show ?case by (auto split: if_splits)
next
  case (2 ch b st sz)
  show ?case
  proof (cases "st = sw_chunk_data \<and> 0 < sz")
    case True
    with 2(3) obtain d' where d: "d = ch # d'" "body_run b st (sz - 1) = (d', rc, r, st', sz')"
      by (cases "body_run b st (sz - 1)") auto
    from 2(1) [OF True d(2)] True d(1) show ?thesis by auto
  next
    case False
    then show ?thesis using 2(2) [OF False] 2(3)
      by (cases "chunk_step ch (chunk_resume st sz) sz") auto
  qed
qed

text \<open>Splitting a body that is read without error.\<close>

lemma body_run_split:
  assumes "body_run (xs @ ys) st sz = (d, NGX_DONE, [], st', sz')" and "ys \<noteq> []" and "chunk_ok st sz"
  obtains d1 st1 sz1 d2 where "body_run xs st sz = (d1, NGX_AGAIN, [], st1, sz1)" "d = d1 @ d2"
    "body_run ys st1 sz1 = (d2, NGX_DONE, [], st', sz')"
proof -
  obtain d1 rc1 r1 st1 sz1 where x: "body_run xs st sz = (d1, rc1, r1, st1, sz1)"
    by (metis prod_cases5)
  have "rc1 \<noteq> NGX_ERROR"
    using body_run_error_append [OF _ assms(3), of xs ys] assms(1) x by (auto simp: run_rc_def)
  moreover have "rc1 \<noteq> NGX_DONE"
    using body_run_kinds [OF x] assms(1,2) by fastforce
  ultimately have a: "rc1 = NGX_AGAIN" "r1 = []" using body_run_kinds [OF x] by auto
  from body_run_append [OF x [unfolded a], of ys] assms(1)
  have "map_prod ((@) d1) id (body_run ys st1 sz1) = (d, NGX_DONE, [], st', sz')" by simp
  then obtain d2 where "d = d1 @ d2" "body_run ys st1 sz1 = (d2, NGX_DONE, [], st', sz')"
    by (cases "body_run ys st1 sz1") auto
  with x a that show ?thesis by simp
qed

lemma body_run_pending:
  assumes "body_run b sw_chunk_data n = (d, NGX_DONE, r, st, sz)"
  shows "n \<le> length d"
proof (cases "n \<le> length b")
  case True
  then have "n = length (take n b)" by simp
  also have "\<dots> \<le> length d"
    using assms unfolding body_run_data [of b]
    by (cases "body_run (drop n b) sw_chunk_data (n - length b)") auto
  finally show ?thesis .
next
  case False
  then show ?thesis using assms unfolding body_run_data [of b] by (auto split: if_splits)
qed

text \<open>
  A body that the specification reads to its end is read by the filter however it is cut into
  buffers, when the limit allows it.
\<close>

lemma body_chunked_chain_run:
  assumes "run_of (concat bs) (chunked rb) = (d, NGX_DONE, [], st, sz)" and "ctx_ok (chunked rb)"
    and "list_all (\<lambda>b. b \<noteq> []) bs" and "bs \<noteq> []"
    and "limit = 0 \<or> int (content_length_n rb + length d) \<le> limit"
    and "body_chunked_chain limit bs rb = (r, out, left, rb')"
  shows "r = Body_ok \<and> concat out = d \<and> concat left = [] \<and> rest rb' = 0
    \<and> content_length_n rb' = content_length_n rb + length d"
  using assms
proof (induction bs arbitrary: rb d r out left rb')
  case Nil
  then show ?case by simp
next
  case (Cons b bs)
  obtain r1 out1 fin b' rb1 where f: "body_chunked_buf limit b rb = (r1, out1, fin, b', rb1)"
    by (metis prod_cases5)
  note run = body_chunked_buf_run [OF f Cons.prems(2)]
  show ?case
  proof (cases "bs = []")
    case True
    then show ?thesis using Cons.prems run f
      by (cases r1) (auto simp: body_result_def run_rc_def pending_def split: if_splits prod.splits)
  next
    case False
    then have ne: "concat bs \<noteq> []" using Cons.prems(3) by (cases bs) auto
    from Cons.prems(1) have "body_run (b @ concat bs) (ck_state (chunked rb)) (ck_size (chunked rb)) = (d, NGX_DONE, [], st, sz)"
      by simp
    from body_run_split [OF this ne Cons.prems(2)]
    obtain d1 st1 sz1 d2 where
      s: "run_of b (chunked rb) = (d1, NGX_AGAIN, [], st1, sz1)" "d = d1 @ d2"
      "body_run (concat bs) st1 sz1 = (d2, NGX_DONE, [], st, sz)" .
    have pend: "pending st1 sz1 \<le> length d2"
      using body_run_pending s(3) by (auto simp: pending_def)
    have r1: "r1 = Body_ok"
      using run s(1) pend Cons.prems(5) s(2) by (cases r1) (auto simp: run_rc_def)
    then have b: "ctx_ok (chunked rb1)" "concat out1 = d1" "fin = False" "b' = []"
        "ck_state (chunked rb1) = st1" "ck_size (chunked rb1) = sz1"
        "content_length_n rb1 = content_length_n rb + length d1"
      using run s(1) by (auto simp: body_result_def split: if_splits)
    obtain r2 out2 left2 rb2 where rec: "body_chunked_chain limit bs rb1 = (r2, out2, left2, rb2)"
      by (metis prod_cases4)
    have all: "list_all (\<lambda>b. b \<noteq> []) bs" using Cons.prems(3) by simp
    have lim: "limit = 0 \<or> int (content_length_n rb1 + length d2) \<le> limit"
      using Cons.prems(5) s(2) b(7) by auto
    have run1: "run_of (concat bs) (chunked rb1) = (d2, NGX_DONE, [], st, sz)" using s(3) b(5,6) by simp
    from Cons.IH [OF run1 b(1) all False lim rec] Cons.prems(6) f rec r1 b s(2)
    show ?thesis by auto
  qed
qed


section \<open>What the encoder writes is read back\<close>

lemma chunk_digit_hex:
  assumes "is_hex c"
  shows "chunk_digit c = Some (nat (hex_val c))"
proof -
  have "is_hex c \<longrightarrow> chunk_digit c = Some (nat (hex_val c))"
    by (rule all_byteI [of "\<lambda>c. is_hex c \<longrightarrow> chunk_digit c = Some (nat (hex_val c))"])
      (simp add: all_bytes_code chunk_digit_def is_hex_def hex_val_def is_digit_def digit_val_def)
  with assms show ?thesis by simp
qed

lemma body_run_digits:
  "list_all is_hex ds \<Longrightarrow> hex_from (int v) ds \<le> int MAX_OFF_T \<Longrightarrow>
   body_run (ds @ r) sw_chunk_size v = body_run r sw_chunk_size (nat (hex_from (int v) ds))"
proof (induction ds arbitrary: v)
  case Nil
  then show ?case by simp
next
  case (Cons c ds)
  have hex: "is_hex c" "list_all is_hex ds" using Cons.prems by simp_all
  have b: "0 \<le> hex_val c" "hex_val c \<le> 15" using is_hex_bounds [OF hex(1)] by auto
  let ?w = "v * 16 + nat (hex_val c)"
  have w: "int ?w = int v * 16 + hex_val c" using b by simp
  have "int ?w \<le> hex_from (int ?w) ds" by (rule hex_from_ge [OF _ hex(2)]) simp
  also have "\<dots> \<le> int MAX_OFF_T" using Cons.prems(2) by (simp only: w hex_from_simps)
  finally have "?w \<le> MAX_OFF_T" by (simp only: of_nat_le_iff)
  then have "\<not> v > MAX_OFF_T div 16" by (simp add: MAX_OFF_T_code)
  then have "body_run ((c # ds) @ r) sw_chunk_size v = body_run (ds @ r) sw_chunk_size ?w"
    by (simp add: chunk_size_step_def chunk_digit_hex [OF hex(1)])
  also have "\<dots> = body_run r sw_chunk_size (nat (hex_from (int ?w) ds))"
    using Cons.prems(2) by (intro Cons.IH [OF hex(2)]) (simp only: w hex_from_simps)
  finally show ?case by (simp only: w hex_from_simps)
qed

lemma body_run_number:
  assumes "ds \<noteq> []" and "list_all is_hex ds" and "hex_value ds \<le> int MAX_OFF_T"
  shows "body_run (ds @ r) sw_chunk_start z = body_run r sw_chunk_size (nat (hex_value ds))"
proof -
  obtain c cs where ds: "ds = c # cs" using assms(1) by (cases ds) auto
  have hex: "is_hex c" "list_all is_hex cs" using assms(2) ds by simp_all
  have "int (nat (hex_val c)) = hex_val c" using is_hex_bounds [OF hex(1)] by simp
  then show ?thesis
    using body_run_digits [OF hex(2), of "nat (hex_val c)" r] assms(3)
    by (simp add: ds chunk_digit_hex [OF hex(1)])
qed

definition chunk_head :: "nat \<Rightarrow> bytes" where
  "chunk_head n = ngx_sprintf_num 21 (word_of_nat n) 0x20 1 0"

lemma chunk_head_value:
  assumes "n \<le> MAX_OFF_T"
  shows "chunk_head n \<noteq> [] \<and> list_all is_hex (chunk_head n) \<and> hex_value (chunk_head n) = int n"
proof -
  let ?v = "word_of_nat n :: u64"
  have v: "uint ?v = int n"
    using assms by (simp add: MAX_OFF_T_code unsigned_of_nat take_bit_eq_mod)
  have "chunk_head n = sprintf_hex hex_digits ?v []"
    using sprintf_hex_fits [of hex_digits ?v]
    by (simp add: chunk_head_def ngx_sprintf_num_def sprintf_pad_eq Let_def)
  then show ?thesis
    using sprintf_hex_value [of hex_digits "[]" ?v] hex_digit_char v by (simp add: sprintf_hex_nonempty)
qed

lemma map_prod_append: "map_prod ((@) a) id (map_prod ((@) b) id x) = map_prod ((@) (a @ b)) id x"
  by (cases x) simp

lemma body_run_chunk:
  assumes "c \<noteq> []" and "length c \<le> MAX_OFF_T div 16"
  shows "body_run (chunk_head (length c) @ [CR, LF] @ c @ [CR, LF] @ r) sw_chunk_start z =
    map_prod ((@) c) id (body_run r sw_chunk_start 0)"
proof -
  let ?n = "length c"
  have n: "?n \<le> MAX_OFF_T" "0 < ?n" using assms by (simp_all add: MAX_OFF_T_code)
  note h = chunk_head_value [OF n(1)]
  have nd: "chunk_digit CR = None" "chunk_digit LF = None" by (simp_all add: chunk_digit_def)
  have "body_run (chunk_head ?n @ [CR, LF] @ c @ [CR, LF] @ r) sw_chunk_start z =
      body_run ([CR, LF] @ c @ [CR, LF] @ r) sw_chunk_size ?n"
    using body_run_number [of "chunk_head ?n"] h n by simp
  also have "\<dots> = body_run (c @ [CR, LF] @ r) sw_chunk_data ?n"
    using assms n by (simp add: chunk_size_step_def nd)
  also have "\<dots> = map_prod ((@) c) id (body_run ([CR, LF] @ r) sw_chunk_data 0)"
    by (subst body_run_data) simp
  also have "body_run ([CR, LF] @ r) sw_chunk_data 0 = body_run r sw_chunk_start 0"
    by (simp add: chunk_resume_def)
  finally show ?thesis .
qed

definition no_crlf :: "bytes \<Rightarrow> bool" where
  "no_crlf xs = list_all (\<lambda>c. c \<noteq> CR \<and> c \<noteq> LF) xs"

lemma body_run_header:
  "no_crlf xs \<Longrightarrow> body_run (xs @ CR # LF # r) sw_trailer_header z = body_run r sw_trailer z"
  by (induction xs) (simp_all add: no_crlf_def)

definition trailer_ok :: "bytes \<times> bytes \<times> bool \<Rightarrow> bool" where
  "trailer_ok h = (case h of (k, v, hash) \<Rightarrow> \<not> hash \<or> (k \<noteq> [] \<and> no_crlf k \<and> no_crlf v))"

lemma body_run_trailer_line:
  assumes "k \<noteq> []" and "no_crlf k" and "no_crlf v"
  shows "body_run (trailer_line (k, v) @ r) sw_trailer z = body_run r sw_trailer z"
proof -
  obtain c cs where k: "k = c # cs" using assms(1) by (cases k) auto
  have "no_crlf (cs @ [0x3a, 0x20] @ v)" "c \<noteq> CR" "c \<noteq> LF"
    using assms by (auto simp: k no_crlf_def)
  then show ?thesis using body_run_header [of "cs @ [0x3a, 0x20] @ v" r z]
    by (simp add: k trailer_line_def)
qed

lemma body_run_trailers:
  "list_all (\<lambda>(k, v). k \<noteq> [] \<and> no_crlf k \<and> no_crlf v) hs \<Longrightarrow>
   body_run (concat (map trailer_line hs) @ r) sw_trailer z = body_run r sw_trailer z"
proof (induction hs)
  case (Cons h hs)
  then show ?case by (cases h) (simp add: body_run_trailer_line)
qed simp

lemma body_run_last:
  assumes "list_all trailer_ok trailers"
  shows "body_run (drop 2 (ngx_http_chunked_create_trailers trailers)) sw_chunk_start z =
      ([], NGX_DONE, [], sw_chunk_start, 0)
    \<and> take 2 (ngx_http_chunked_create_trailers trailers) = [CR, LF]"
proof -
  define live where "live = map (\<lambda>(k, v, _). (k, v)) (filter (\<lambda>(k, v, hash). hash) trailers)"
  have ok: "list_all (\<lambda>(k, v). k \<noteq> [] \<and> no_crlf k \<and> no_crlf v) live"
    using assms by (auto simp: live_def list_all_iff trailer_ok_def)
  have "sum_list (map (\<lambda>(k, v). length k + 2 + length v + 2) live) = 0 \<longleftrightarrow> live = []"
    by (cases live) auto
  then have enc: "ngx_http_chunked_create_trailers trailers =
      [CR, LF, 0x30, CR, LF] @ concat (map trailer_line live) @ [CR, LF]"
    by (auto simp: ngx_http_chunked_create_trailers_def live_def [symmetric] Let_def)
  have dig: "chunk_digit 0x30 = Some 0" "chunk_digit CR = None" by (simp_all add: chunk_digit_def)
  have "body_run (drop 2 (ngx_http_chunked_create_trailers trailers)) sw_chunk_start z =
      body_run (concat (map trailer_line live) @ [CR, LF]) sw_trailer 0"
    unfolding enc by (simp add: dig chunk_size_step_def)
  also have "\<dots> = ([], NGX_DONE, [], sw_chunk_start, 0)"
    by (subst body_run_trailers [OF ok]) simp
  finally show ?thesis by (simp add: enc)
qed

text \<open>A response: the chains of the calls of the body filter, and the chain of the last call.\<close>

definition chunked_encode :: "(bytes \<times> bytes \<times> bool) list \<Rightarrow> bytes list list \<Rightarrow> bytes list \<Rightarrow> bytes" where
  "chunked_encode trailers calls fin =
     concat (map (\<lambda>c. ngx_http_chunked_body_filter trailers c False) calls)
     @ ngx_http_chunked_body_filter trailers fin True"

lemma body_filter_False:
  "ngx_http_chunked_body_filter trailers c False =
     (if concat c = [] then [] else chunk_head (length (concat c)) @ [CR, LF] @ concat c @ [CR, LF])"
  by (auto simp: ngx_http_chunked_body_filter_def chunk_head_def Let_def simp del: length_concat concat_eq_Nil_conv)

lemma body_filter_True:
  "list_all trailer_ok trailers \<Longrightarrow> ngx_http_chunked_body_filter trailers c True =
     (if concat c = [] then drop 2 (ngx_http_chunked_create_trailers trailers)
      else chunk_head (length (concat c)) @ [CR, LF] @ concat c @ [CR, LF]
        @ drop 2 (ngx_http_chunked_create_trailers trailers))"
  using body_run_last [of trailers] append_take_drop_id [of 2 "ngx_http_chunked_create_trailers trailers"]
  by (auto simp: ngx_http_chunked_body_filter_def chunk_head_def Let_def simp del: length_concat concat_eq_Nil_conv append_take_drop_id)

lemma body_run_encode:
  assumes "list_all trailer_ok trailers"
    and "list_all (\<lambda>c. length (concat c) \<le> MAX_OFF_T div 16) (calls @ [fin])"
  shows "body_run (chunked_encode trailers calls fin) sw_chunk_start 0 =
     (concat (concat (calls @ [fin])), NGX_DONE, [], sw_chunk_start, 0)"
  using assms(2)
proof (induction calls)
  case Nil
  then show ?case
    using body_run_last [OF assms(1)] body_run_chunk [of "concat fin"]
    by (simp add: chunked_encode_def body_filter_True [OF assms(1)] del: length_concat concat_eq_Nil_conv)
next
  case (Cons c calls)
  then show ?case
    using body_run_chunk [of "concat c"]
    by (simp add: chunked_encode_def body_filter_False del: length_concat concat_eq_Nil_conv)
qed


definition fresh_body :: request_body where
  "fresh_body = \<lparr>chunked = \<lparr>ck_state = sw_chunk_start, ck_size = 0, ck_length = 0\<rparr>,
     rest = 3, content_length_n = 0\<rparr>"

lemma filter_first:
  "rest rb = -1 \<Longrightarrow> ngx_http_request_body_chunked_filter limit bs rb = body_chunked_chain limit bs fresh_body"
  by (simp add: ngx_http_request_body_chunked_filter_def fresh_body_def)

lemma fresh_count: "content_length_n fresh_body = 0"
  by (simp add: fresh_body_def)

lemma fresh_ok [simp]: "ctx_ok (chunked fresh_body)"
  by (simp add: fresh_body_def chunk_ok_def)

text \<open>
  The calls that read a body: each gets the chain of buffers that has arrived, until the end of the
  body or an error (\<open>ngx_http_do_read_client_request_body\<close>).
\<close>

fun body_calls :: "int \<Rightarrow> bytes list list \<Rightarrow> request_body \<Rightarrow> body_rc \<times> bytes list \<times> bytes list \<times> request_body" where
  "body_calls limit [] rb = (Body_ok, [], [], rb)"
| "body_calls limit (bs # calls) rb =
     (let (r, out, left, rb') = ngx_http_request_body_chunked_filter limit bs rb in
      if r \<noteq> Body_ok \<or> rest rb' = 0 then (r, out, left @ concat calls, rb')
      else let (r2, out2, left2, rb2) = body_calls limit calls rb' in (r2, out @ out2, left @ left2, rb2))"

definition started :: "request_body \<Rightarrow> request_body" where
  "started rb = (if rest rb = -1 then fresh_body else rb)"

lemma filter_started: "ngx_http_request_body_chunked_filter limit bs rb = body_chunked_chain limit bs (started rb)"
  by (simp add: ngx_http_request_body_chunked_filter_def fresh_body_def started_def)

lemma chunk_length_pos: "0 < chunk_length st sz"
  by (cases st) simp_all

text \<open>The buffers before the end of a body.\<close>

lemma body_chunked_chain_prefix:
  assumes "run_of (concat bs @ ys) (chunked rb) = (d, NGX_DONE, [], st, sz)" and "ys \<noteq> []" and "ctx_ok (chunked rb)"
    and "list_all (\<lambda>b. b \<noteq> []) bs"
    and "limit = 0 \<or> int (content_length_n rb + length d) \<le> limit"
    and "body_chunked_chain limit bs rb = (r, out, left, rb')"
  shows "r = Body_ok \<and> concat left = [] \<and> ctx_ok (chunked rb') \<and> (bs \<noteq> [] \<longrightarrow> 0 < rest rb')
    \<and> content_length_n rb' = content_length_n rb + length (concat out)
    \<and> (\<exists>d2. d = concat out @ d2 \<and> run_of ys (chunked rb') = (d2, NGX_DONE, [], st, sz))"
  using assms
proof (induction bs arbitrary: rb d r out left rb')
  case Nil
  then show ?case by auto
next
  case (Cons b bs)
  obtain r1 out1 fin b' rb1 where f: "body_chunked_buf limit b rb = (r1, out1, fin, b', rb1)"
    by (metis prod_cases5)
  note run = body_chunked_buf_run [OF f Cons.prems(3)]
  have ne: "concat bs @ ys \<noteq> []" using Cons.prems(2) by simp
  from Cons.prems(1) have "body_run (b @ concat bs @ ys) (ck_state (chunked rb)) (ck_size (chunked rb)) = (d, NGX_DONE, [], st, sz)"
    by simp
  from body_run_split [OF this ne Cons.prems(3)]
  obtain d1 st1 sz1 d2 where
    s: "run_of b (chunked rb) = (d1, NGX_AGAIN, [], st1, sz1)" "d = d1 @ d2"
    "body_run (concat bs @ ys) st1 sz1 = (d2, NGX_DONE, [], st, sz)" .
  have pend: "pending st1 sz1 \<le> length d2" using body_run_pending s(3) by (auto simp: pending_def)
  have r1: "r1 = Body_ok" using run s(1) pend Cons.prems(5) s(2) by (cases r1) (auto simp: run_rc_def)
  then have b: "ctx_ok (chunked rb1)" "concat out1 = d1" "b' = []" "ck_state (chunked rb1) = st1" "ck_size (chunked rb1) = sz1"
      "content_length_n rb1 = content_length_n rb + length d1" "0 < rest rb1"
    using run s(1) chunk_length_pos by (auto simp: body_result_def split: if_splits)
  obtain r2 out2 left2 rb2 where rec: "body_chunked_chain limit bs rb1 = (r2, out2, left2, rb2)"
    by (metis prod_cases4)
  have lim: "limit = 0 \<or> int (content_length_n rb1 + length d2) \<le> limit" using Cons.prems(5) s(2) b(6) by auto
  have run1: "run_of (concat bs @ ys) (chunked rb1) = (d2, NGX_DONE, [], st, sz)" using s(3) b(4,5) by simp
  have all: "list_all (\<lambda>b. b \<noteq> []) bs" using Cons.prems(4) by simp
  note IH = Cons.IH [OF run1 Cons.prems(2) b(1) all lim rec]
  have "bs = [] \<Longrightarrow> rb2 = rb1" using rec by simp
  then show ?case using IH Cons.prems(6) f rec r1 b s(2) by (cases "bs = []") auto
qed

lemma body_calls_run:
  assumes "run_of (concat (concat calls)) (chunked (started rb)) = (d, NGX_DONE, [], st, sz)" and "ctx_ok (chunked (started rb))"
    and "list_all (\<lambda>bs. bs \<noteq> [] \<and> list_all (\<lambda>b. b \<noteq> []) bs) calls" and "calls \<noteq> []"
    and "limit = 0 \<or> int (content_length_n (started rb) + length d) \<le> limit"
    and "body_calls limit calls rb = (r, out, left, rb')"
  shows "r = Body_ok \<and> concat out = d \<and> concat left = [] \<and> rest rb' = 0
    \<and> content_length_n rb' = content_length_n (started rb) + length d"
  using assms
proof (induction calls arbitrary: rb d r out left rb')
  case Nil
  then show ?case by simp
next
  case (Cons bs calls)
  obtain r1 out1 left1 rb1 where f: "body_chunked_chain limit bs (started rb) = (r1, out1, left1, rb1)"
    by (metis prod_cases4)
  have bs: "bs \<noteq> []" "list_all (\<lambda>b. b \<noteq> []) bs" using Cons.prems(3) by simp_all
  show ?case
  proof (cases "calls = []")
    case True
    then have "run_of (concat bs) (chunked (started rb)) = (d, NGX_DONE, [], st, sz)" using Cons.prems(1) by simp
    from body_chunked_chain_run [OF this Cons.prems(2) bs(2,1) Cons.prems(5) f]
    show ?thesis using True Cons.prems(6) f by (simp add: filter_started)
  next
    case False
    then obtain c cs where calls: "calls = c # cs" by (cases calls) auto
    then have "c \<noteq> [] \<and> list_all (\<lambda>b. b \<noteq> []) c" using Cons.prems(3) by simp
    then have ne: "concat (concat calls) \<noteq> []" using calls by (cases c) auto
    from Cons.prems(1) have "run_of (concat bs @ concat (concat calls)) (chunked (started rb)) = (d, NGX_DONE, [], st, sz)" by simp
    from body_chunked_chain_prefix [OF this ne Cons.prems(2) bs(2) Cons.prems(5) f] bs(1)
    obtain d2 where p: "r1 = Body_ok" "concat left1 = []" "ctx_ok (chunked rb1)" "0 < rest rb1"
      "content_length_n rb1 = content_length_n (started rb) + length (concat out1)" "d = concat out1 @ d2"
      "run_of (concat (concat calls)) (chunked rb1) = (d2, NGX_DONE, [], st, sz)" by auto
    have st1: "started rb1 = rb1" using p(4) by (simp add: started_def)
    obtain r2 out2 left2 rb2 where rec: "body_calls limit calls rb1 = (r2, out2, left2, rb2)" by (metis prod_cases4)
    have all: "list_all (\<lambda>bs. bs \<noteq> [] \<and> list_all (\<lambda>b. b \<noteq> []) bs) calls" using Cons.prems(3) by simp
    have lim: "limit = 0 \<or> int (content_length_n rb1 + length d2) \<le> limit" using Cons.prems(5) p(5,6) by auto
    from Cons.IH [of rb1 d2, unfolded st1, OF p(7,3) all False lim rec]
    show ?thesis using Cons.prems(6) f p rec by (auto simp: filter_started)
  qed
qed

text \<open>
  C2. A body written by any sequence of calls of the chunked body filter is read back by the request
  body filter however it is cut into buffers, and the buffers into calls, on the way: the data is
  the data that was written, the end is recognised, no byte is left over, and the counted
  length is the length of the data. The trailers may be any whose names are not empty and whose names
  and values have no CR and no LF.
\<close>

theorem chunked_roundtrip:
  assumes "list_all trailer_ok trailers"
    and "list_all (\<lambda>c. length (concat c) \<le> MAX_OFF_T div 16) (writes @ [fin])"
    and "concat (concat calls) = chunked_encode trailers writes fin"
    and "list_all (\<lambda>bs. bs \<noteq> [] \<and> list_all (\<lambda>b. b \<noteq> []) bs) calls"
    and "limit = 0 \<or> int (length (concat (concat (writes @ [fin])))) \<le> limit" and "rest rb = -1"
  shows "case body_calls limit calls rb of (r, out, left, rb') \<Rightarrow>
    r = Body_ok \<and> concat out = concat (concat (writes @ [fin])) \<and> concat left = []
    \<and> rest rb' = 0 \<and> content_length_n rb' = length (concat (concat (writes @ [fin])))"
proof -
  let ?d = "concat (concat (writes @ [fin]))"
  obtain r out left rb' where f: "body_calls limit calls rb = (r, out, left, rb')" by (metis prod_cases4)
  have st: "started rb = fresh_body" using assms(6) by (simp add: started_def)
  have run: "run_of (concat (concat calls)) (chunked fresh_body) = (?d, NGX_DONE, [], sw_chunk_start, 0)"
    using body_run_encode [OF assms(1,2)] assms(3) by (simp add: fresh_body_def)
  then have "calls \<noteq> []" by (auto split: if_splits)
  from body_calls_run [of calls rb, unfolded st, OF run fresh_ok assms(4) this _ f] assms(5)
  show ?thesis by (simp add: f fresh_count)
qed

lemma body_run_length:
  "body_run b st sz = (d, NGX_DONE, r, st', sz') \<Longrightarrow> chunk_length (chunk_resume st sz) sz + length r \<le> length b"
proof (induction b st sz arbitrary: d rule: body_run.induct)
  case (1 st sz)
  then show ?case by (simp split: if_splits)
next
  case (2 ch b st sz)
  show ?case
  proof (cases "st = sw_chunk_data \<and> 0 < sz")
    case True
    with 2(3) obtain d' where "body_run b st (sz - 1) = (d', NGX_DONE, r, st', sz')"
      by (cases "body_run b st (sz - 1)") auto
    from 2(1) [OF True this] True show ?thesis
      by (cases "sz = 1") (auto simp: chunk_resume_def)
  next
    case False
    let ?st = "chunk_resume st sz"
    have ne: "?st \<noteq> sw_chunk_data" using False by auto
    show ?thesis
    proof (cases "chunk_step ch ?st sz")
      case (Next st1 sz1)
      then have "body_run b st1 sz1 = (d, NGX_DONE, r, st', sz')" using 2(3) False by auto
      note IH = 2(2) [OF False Next this]
      have "chunk_length ?st sz \<le> Suc (chunk_length (chunk_resume st1 sz1) sz1)"
        using Next ne
        by (cases "?st") (auto simp: chunk_size_step_def chunk_resume_def split: if_splits option.splits)
      then show ?thesis using IH by simp
    next
      case Goto_done
      then have "chunk_length ?st sz = 1"
        by (cases "?st") (auto simp: chunk_size_step_def split: if_splits option.splits)
      then show ?thesis using 2(3) False Goto_done by auto
    qed (use 2(3) False in auto)
  qed
qed

lemma chunk_length_resume: "chunk_length (chunk_resume st sz) sz = chunk_length st sz"
  by (simp add: chunk_resume_def)

lemma body_chunked_chain_state:
  "body_chunked_chain limit bs rb = (Body_ok, out, left, rb') \<Longrightarrow> ctx_ok (chunked rb) \<Longrightarrow> bs \<noteq> [] \<Longrightarrow>
   ctx_ok (chunked rb') \<and> (rest rb' = 0
     \<or> rest rb' = int (chunk_length (ck_state (chunked rb')) (ck_size (chunked rb'))))"
proof (induction bs arbitrary: rb out left)
  case Nil
  then show ?case by simp
next
  case (Cons b bs)
  obtain r1 out1 fin b' rb1 where f: "body_chunked_buf limit b rb = (r1, out1, fin, b', rb1)"
    by (metis prod_cases5)
  then have r1: "r1 = Body_ok" using Cons.prems(1) by (auto split: prod.splits if_splits)
  obtain r2 out2 left2 rb2 where rec: "body_chunked_chain limit bs rb1 = (r2, out2, left2, rb2)"
    by (metis prod_cases4)
  have r2: "r2 = Body_ok" "rb2 = rb'" using Cons.prems(1) f r1 rec by auto
  note run = body_chunked_buf_run [OF f Cons.prems(2), unfolded r1, simplified]
  show ?case
  proof (cases "bs = []")
    case True
    then show ?thesis using run rec r2 by auto
  next
    case False
    then show ?thesis using run Cons.IH [OF rec [unfolded r2]] by auto
  qed
qed

text \<open>
  The amount of data the filter asks for is never too much: whatever was read so far, if
  some more input completes the body, then \<open>rest\<close> bytes of it belong to the body, so a read of
  \<open>rest\<close> bytes takes nothing of a pipelined request.
\<close>

theorem chunked_rest_bound:
  assumes "rest rb = -1" and "bs \<noteq> []"
    and "ngx_http_request_body_chunked_filter limit bs rb = (Body_ok, out, left, rb1)"
    and "body_chunked_buf limit b2 rb1 = (Body_ok, out2, True, left2, rb2)"
  shows "rest rb1 + int (length left2) \<le> int (length b2)"
proof -
  from body_chunked_chain_state [OF assms(3) [unfolded filter_first [OF assms(1)]] fresh_ok assms(2)]
  have st: "ctx_ok (chunked rb1)"
    "rest rb1 \<le> int (chunk_length (ck_state (chunked rb1)) (ck_size (chunked rb1)))" by auto
  from body_chunked_buf_run [OF assms(4) st(1)]
  have "run_of b2 (chunked rb1) = body_result out2 True left2 rb2" by simp
  from body_run_length [OF this [unfolded body_result_def, simplified]] st(2)
  show ?thesis by (simp add: chunk_length_resume)
qed

lemma body_chunked_buf_limit:
  "body_chunked_buf limit b rb = (r, out, fin, b', rb') \<Longrightarrow> limit \<noteq> 0 \<Longrightarrow>
   int (content_length_n rb) \<le> limit \<Longrightarrow> int (content_length_n rb') \<le> limit"
proof (induction b arbitrary: rb r out fin b' rb' rule: length_induct)
  case (1 b)
  obtain rc b1 ctx where p: "ngx_http_parse_chunked b (chunked rb) = (rc, b1, ctx)"
    by (metis prod_cases3)
  show ?case
  proof (cases "rc = NGX_OK \<and> \<not> limit - int (content_length_n rb) < int (ck_size ctx)")
    case True
    define rb2 where "rb2 = (if length b1 > ck_size ctx
                  then rb\<lparr>content_length_n := content_length_n rb + ck_size ctx,
                           chunked := ctx\<lparr>ck_size := 0\<rparr>\<rparr>
                  else rb\<lparr>content_length_n := content_length_n rb + length b1,
                           chunked := ctx\<lparr>ck_size := ck_size ctx - length b1\<rparr>\<rparr>)"
    obtain r2 out2 fin2 b3 rb3 where rec:
      "body_chunked_buf limit (drop (ck_size ctx) b1) rb2 = (r2, out2, fin2, b3, rb3)"
      by (metis prod_cases5)
    have "rb3 = rb'"
      using 1(2) True rec
      by (auto simp: body_chunked_buf.simps [of limit b] p Let_def rb2_def split: if_splits)
    moreover have "length (drop (ck_size ctx) b1) < length b"
      using parse_chunked_progress p True by blast
    moreover have "int (content_length_n rb2) \<le> limit" using True by (auto simp: rb2_def)
    ultimately show ?thesis using 1(1,3) rec by blast
  next
    case False
    then show ?thesis using 1(2-4)
      by (auto simp: body_chunked_buf.simps [of limit b] p Let_def split: ngx_rc.splits if_splits)
  qed
qed

lemma body_chunked_chain_limit:
  "body_chunked_chain limit bs rb = (r, out, left, rb') \<Longrightarrow> limit \<noteq> 0 \<Longrightarrow>
   int (content_length_n rb) \<le> limit \<Longrightarrow> int (content_length_n rb') \<le> limit"
proof (induction bs arbitrary: rb r out left)
  case (Cons b bs)
  then show ?case
    by (auto split: prod.splits if_splits dest: body_chunked_buf_limit)
qed simp

lemma body_chunked_chain_count:
  "body_chunked_chain limit bs rb = (Body_ok, out, left, rb') \<Longrightarrow> ctx_ok (chunked rb) \<Longrightarrow>
   content_length_n rb' = content_length_n rb + length (concat out)"
proof (induction bs arbitrary: rb out left)
  case Nil
  then show ?case by simp
next
  case (Cons b bs)
  obtain r1 out1 fin b' rb1 where f: "body_chunked_buf limit b rb = (r1, out1, fin, b', rb1)"
    by (metis prod_cases5)
  then have r1: "r1 = Body_ok" using Cons.prems(1) by (auto split: prod.splits if_splits)
  obtain r2 out2 left2 rb2 where rec: "body_chunked_chain limit bs rb1 = (r2, out2, left2, rb2)"
    by (metis prod_cases4)
  have r2: "r2 = Body_ok" "rb2 = rb'" "out = out1 @ out2" using Cons.prems(1) f r1 rec by auto
  note run = body_chunked_buf_run [OF f Cons.prems(2), unfolded r1, simplified]
  show ?case using run Cons.IH [OF rec [unfolded r2]] r2 by simp
qed

lemma body_chunked_chain_next:
  assumes "body_chunked_chain limit bs rb = (Body_ok, out, left, rb')" "ctx_ok (chunked rb)" "rest rb \<noteq> -1"
  shows "ctx_ok (chunked rb') \<and> rest rb' \<noteq> -1"
proof (cases "bs = []")
  case True
  then show ?thesis using assms by simp
next
  case False
  then show ?thesis using body_chunked_chain_state [OF assms(1,2) False] by auto
qed

lemma body_calls_count:
  assumes "body_calls limit calls rb = (r, out, left, rb')" "limit \<noteq> 0" "ctx_ok (chunked (started rb))"
    "int (content_length_n (started rb)) \<le> limit" "calls \<noteq> []"
  shows "int (content_length_n rb') \<le> limit \<and> int (content_length_n (started rb) + length (concat out)) \<le> limit
    \<and> (r = Body_ok \<longrightarrow> content_length_n rb' = content_length_n (started rb) + length (concat out))"
  using assms
proof (induction calls arbitrary: rb r out left)
  case (Cons bs calls)
  obtain r1 out1 left1 rb1 where f: "body_chunked_chain limit bs (started rb) = (r1, out1, left1, rb1)"
    by (metis prod_cases4)
  have lim: "int (content_length_n rb1) \<le> limit" by (rule body_chunked_chain_limit [OF f Cons.prems(2,4)])
  have drop: "out1 = []" if "r1 \<noteq> Body_ok" using f that by (cases bs) (auto split: prod.splits if_splits)
  show ?case
  proof (cases "r1 \<noteq> Body_ok \<or> rest rb1 = 0 \<or> calls = []")
    case True
    then have "r = r1" "rb' = rb1" "out = out1 \<or> r1 = Body_ok \<and> concat out = concat out1"
      using Cons.prems(1) f by (auto simp: filter_started split: if_splits)
    then show ?thesis
      using lim drop body_chunked_chain_count [of limit bs "started rb" out1 left1 rb1] f Cons.prems(3,4) by (cases "r1 = Body_ok") auto
  next
    case False
    obtain r2 out2 left2 rb2 where rec: "body_calls limit calls rb1 = (r2, out2, left2, rb2)" by (metis prod_cases4)
    have f': "body_chunked_chain limit bs (started rb) = (Body_ok, out1, left1, rb1)" using f False by simp
    have "rest (started rb) \<noteq> -1" by (simp add: started_def fresh_body_def)
    then have nx: "ctx_ok (chunked rb1)" "started rb1 = rb1"
      using body_chunked_chain_next [OF f' Cons.prems(3)] by (simp_all add: started_def)
    have eq: "r = r2" "out = out1 @ out2" "rb' = rb2" using Cons.prems(1) f False rec by (auto simp: filter_started)
    show ?thesis
      using Cons.IH [of rb1 r2 out2 left2] rec nx lim Cons.prems(2) False eq
        body_chunked_chain_count [OF f' Cons.prems(3)] by simp
  qed
qed simp

text \<open>
  C26. \<open>client_max_body_size\<close> is kept over all the calls that read a chunked body: what they pass on and
  what \<open>content_length_n\<close> counts is never longer than the limit, also when the body is refused, and the
  count of a body that is accepted is its length.
\<close>

theorem chunked_body_limit:
  assumes "rest rb = -1" and "0 < limit" and "calls \<noteq> []"
    and "body_calls limit calls rb = (r, out, left, rb')"
  shows "int (content_length_n rb') \<le> limit \<and> int (length (concat out)) \<le> limit
    \<and> (r = Body_ok \<longrightarrow> content_length_n rb' = length (concat out))"
proof -
  have st: "started rb = fresh_body" using assms(1) by (simp add: started_def)
  show ?thesis using body_calls_count [OF assms(4)] assms(2,3) by (simp add: st fresh_count)
qed

lemma chunk_loop_size:
  "chunk_loop b st sz = (rc, b', st', sz') \<Longrightarrow> chunk_ok st sz \<Longrightarrow> sz' \<le> MAX_OFF_T"
proof (induction b st sz rule: chunk_loop.induct)
  case (1 st sz)
  then show ?case by (auto simp: chunk_ok_def split: if_splits)
next
  case (2 ch b st sz)
  have "sz \<le> MAX_OFF_T" using 2(3) by (auto simp: chunk_ok_def split: if_splits)
  then show ?case using 2 chunk_step_ok [of ch st sz] by (auto split: chunked_step.splits)
qed

text \<open>
  C28. No signed overflow: from the first byte of a body on, in every outcome of the parser the
  chunk size fits an \<open>off_t\<close>, the state stays well-formed for the next call, and so do the
  lengths computed from it.
\<close>

theorem chunked_no_overflow:
  assumes "ctx_ok ctx" and "ck_length ctx \<le> MAX_OFF_T"
    and "ngx_http_parse_chunked b ctx = (rc, b', ctx')"
  shows "ck_size ctx' \<le> MAX_OFF_T \<and> ck_length ctx' \<le> MAX_OFF_T \<and> (if rc = NGX_ERROR then True else ctx_ok ctx')"
proof -
  let ?st = "chunk_resume (ck_state ctx) (ck_size ctx)"
  obtain rc0 b1 st sz where l: "chunk_loop b ?st (ck_size ctx) = (rc0, b1, st, sz)"
    by (metis prod_cases4)
  have len: "chunk_length st sz \<le> MAX_OFF_T" if "sz \<le> MAX_OFF_T - 5"
    using that by (cases st) (auto simp: MAX_OFF_T_code)
  have "ck_size ctx' \<le> MAX_OFF_T \<and> ck_length ctx' \<le> MAX_OFF_T"
    using assms(2,3) chunk_loop_size [OF l chunk_ok_resume [OF assms(1)]] len
    by (auto simp: ngx_http_parse_chunked_def l split: if_splits)
  then show ?thesis using parse_chunked_run [OF assms(3,1)] by (cases rc) auto
qed

text \<open>
  Discarding a body reads exactly what reading it without a limit reads: the same outcome,
  the same bytes left in the buffer and the same parser state.
\<close>

theorem discard_reads_same:
  "case (discard_chunked b rb, body_chunked_buf 0 b rb2) of
     ((r, left, rb'), (r2, out, fin, left2, rb2')) \<Rightarrow>
       if chunked rb = chunked rb2 then r = r2 \<and> left = left2 \<and> chunked rb' = chunked rb2' else True"
proof -
  have "case (discard_chunked b rb, body_chunked_buf 0 b rb2) of
     ((r, left, rb'), (r2, out, fin, left2, rb2')) \<Rightarrow> r = r2 \<and> left = left2 \<and> chunked rb' = chunked rb2'"
    if "chunked rb = chunked rb2"
    using that
  proof (induction b arbitrary: rb rb2 rule: length_induct)
    case (1 b)
    obtain rc b1 ctx where p: "ngx_http_parse_chunked b (chunked rb2) = (rc, b1, ctx)"
      by (metis prod_cases3)
    show ?case
    proof (cases "rc = NGX_OK")
      case True
      define ctx2 where "ctx2 = (if length b1 > ck_size ctx then ctx\<lparr>ck_size := 0\<rparr>
          else ctx\<lparr>ck_size := ck_size ctx - length b1\<rparr>)"
      let ?l = "drop (ck_size ctx) b1"
      define rb3 where "rb3 = rb2\<lparr>content_length_n := content_length_n rb2 + length (take (ck_size ctx) b1), chunked := ctx2\<rparr>"
      have len: "length ?l < length b" using parse_chunked_progress p True by blast
      have ch: "chunked (rb\<lparr>chunked := ctx2\<rparr>) = chunked rb3" by (simp add: rb3_def)
      have IH: "case (discard_chunked ?l (rb\<lparr>chunked := ctx2\<rparr>), body_chunked_buf 0 ?l rb3) of
         ((r, left, rb'), (r2, out, fin, left2, rb2')) \<Rightarrow> r = r2 \<and> left = left2 \<and> chunked rb' = chunked rb2'"
        by (rule 1(1) [rule_format, OF len ch])
      have d: "discard_chunked b rb = discard_chunked ?l (rb\<lparr>chunked := ctx2\<rparr>)"
        using 1(2) by (simp add: discard_chunked.simps [of b] p True ctx2_def)
      have f: "body_chunked_buf 0 b rb2 =
         (case body_chunked_buf 0 ?l rb3 of (r, out, fin, b3, rb4) \<Rightarrow> (r, take (ck_size ctx) b1 # out, fin, b3, rb4))"
        by (simp add: body_chunked_buf.simps [of 0 b] p True rb3_def ctx2_def split: prod.split)
      show ?thesis using IH unfolding d f by (auto split: prod.splits)
    next
      case False
      then show ?thesis using 1(2)
        by (cases rc) (simp_all add: discard_chunked.simps [of b] body_chunked_buf.simps [of 0 b] p)
    qed
  qed
  then show ?thesis by (auto split: prod.splits)
qed

definition unread_body :: request_body where
  "unread_body = fresh_body\<lparr>rest := -1\<rparr>"

text \<open>\<open>abc\<close> and a trailer \<open>x: y\<close>, cut inside the chunk and inside the trailer.\<close>

definition sample_trailers :: "(bytes \<times> bytes \<times> bool) list" where
  "sample_trailers = [([0x78], [0x79], True)]"

definition sample_bufs :: "bytes list" where
  "sample_bufs = [[0x33, CR], [LF, 0x61], [0x62, 0x63, CR, LF, 0x30, CR, LF, 0x78, 0x3a],
     [0x20, 0x79, CR, LF, CR, LF]]"

lemma sample_head: "chunk_head 3 = [0x33]"
  by (simp add: chunk_head_def ngx_sprintf_num_def sprintf_pad_eq sprintf_hex.simps hex_digits_def Let_def)

lemma sample_encode: "concat sample_bufs = chunked_encode sample_trailers [[[0x61], [0x62, 0x63]]] []"
proof -
  have "ngx_http_chunked_body_filter sample_trailers [[0x61], [0x62, 0x63]] False =
      [0x33, CR, LF, 0x61, 0x62, 0x63, CR, LF]"
    using sample_head by (simp add: body_filter_False numeral_3_eq_3)
  then show ?thesis
    by (simp add: sample_bufs_def chunked_encode_def sample_trailers_def ngx_http_chunked_body_filter_def
      ngx_http_chunked_create_trailers_def trailer_line_def)
qed

theorem chunked_roundtrip_witness:
  "case body_calls 3 (map (\<lambda>b. [b]) sample_bufs) unread_body of (r, out, left, rb') \<Rightarrow>
    r = Body_ok \<and> concat out = [0x61, 0x62, 0x63] \<and> concat left = []
    \<and> rest rb' = 0 \<and> content_length_n rb' = 3"
  using chunked_roundtrip [of sample_trailers "[[[0x61], [0x62, 0x63]]]" "[]" "map (\<lambda>b. [b]) sample_bufs" 3 unread_body]
    sample_encode
  by (simp add: sample_trailers_def trailer_ok_def no_crlf_def MAX_OFF_T_code sample_bufs_def unread_body_def numeral_3_eq_3)

theorem chunked_body_limit_witness:
  "content_length_n (snd (snd (snd (body_calls 3 (map (\<lambda>b. [b]) sample_bufs) unread_body)))) \<le> 3"
proof -
  obtain r out left rb' where f: "body_calls 3 (map (\<lambda>b. [b]) sample_bufs) unread_body = (r, out, left, rb')"
    by (metis prod_cases4)
  have "rest unread_body = -1" "map (\<lambda>b. [b]) sample_bufs \<noteq> []" by (simp_all add: unread_body_def sample_bufs_def)
  from chunked_body_limit [OF this(1) _ this(2) f] show ?thesis by (simp add: f)
qed

lemma sample_first:
  "body_chunked_chain 0 [[0x33, LF, 0x61]] fresh_body =
    (Body_ok, [[0x61]], [[]], \<lparr>chunked = \<lparr>ck_state = sw_chunk_data, ck_size = 2, ck_length = 6\<rparr>,
       rest = 6, content_length_n = 1\<rparr>)"
  by (simp add: fresh_body_def body_chunked_buf.simps ngx_http_parse_chunked_def chunk_resume_def
    chunk_digit_def chunk_size_step_def MAX_OFF_T_code)

theorem chunked_rest_bound_witness:
  "(6 :: int) + int (length [0x47 :: u_char]) \<le> int (length [0x62, 0x63, LF, 0x30, LF, LF, 0x47 :: u_char])"
proof -
  let ?rb = "\<lparr>chunked = \<lparr>ck_state = sw_chunk_data, ck_size = 2, ck_length = 6\<rparr>, rest = 6, content_length_n = 1\<rparr>"
  have "body_chunked_buf 0 [0x62, 0x63, LF, 0x30, LF, LF, 0x47] ?rb = (Body_ok, [[0x62, 0x63]], True, [0x47],
     \<lparr>chunked = \<lparr>ck_state = sw_chunk_start, ck_size = 0, ck_length = 6\<rparr>, rest = 0, content_length_n = 3\<rparr>)"
    by (simp add: body_chunked_buf.simps ngx_http_parse_chunked_def chunk_resume_def
    chunk_digit_def chunk_size_step_def MAX_OFF_T_code)
  from chunked_rest_bound [OF _ _ _ this, of unread_body "[[0x33, LF, 0x61]]" "[[0x61]]" "[[]]"] sample_first
  show ?thesis by (simp add: filter_first unread_body_def)
qed

theorem chunked_no_overflow_witness:
  "ck_size (snd (snd (ngx_http_parse_chunked [0x33, LF, 0x61] (chunked fresh_body)))) \<le> MAX_OFF_T"
proof -
  obtain rc b' ctx' where f: "ngx_http_parse_chunked [0x33, LF, 0x61] (chunked fresh_body) = (rc, b', ctx')"
    by (metis prod_cases3)
  show ?thesis using chunked_no_overflow [OF fresh_ok _ f] by (simp add: f) (simp add: fresh_body_def)
qed


end
