(* ===== verification/Http_Scan.thy ===== *)
theory Http_Scan
  imports Prelude
begin

text \<open>
  The shape the HTTP parsers share (\<open>http/ngx_http_parse.c\<close>): a loop
  \<open>for (p = b->pos; p < b->last; p++)\<close> around a switch on a state that is kept in the request
  between calls. A parser is a function of the bytes received so far, the position and the
  request; pointers into the buffer are positions in it. The interface \<open>byte_scanner\<close> asks
  that a step looks at no byte after the current one; what follows for every parser is that
  a call that runs out of input can be resumed when more has arrived.
\<close>

datatype ('r, 'e) scan_step = Go 'r | Stop 'e 'r

text \<open>
  The loop: \<open>None\<close> when the input ends (\<open>NGX_AGAIN\<close>), otherwise what stopped it and where.
\<close>

function scan :: "(bytes \<Rightarrow> nat \<Rightarrow> 'r \<Rightarrow> ('r, 'e) scan_step) \<Rightarrow> bytes \<Rightarrow> nat \<Rightarrow> 'r \<Rightarrow> 'e option \<times> nat \<times> 'r" where
  "scan step b p r =
     (if p < length b
      then (case step b p r of Go r' \<Rightarrow> scan step b (Suc p) r' | Stop e r' \<Rightarrow> (Some e, p, r'))
      else (None, p, r))"
  by pat_completeness auto
termination by (relation "measure (\<lambda>(step, b, p, r). length b - p)") auto

declare scan.simps [simp del]

lemma scan_end: "length b \<le> p \<Longrightarrow> scan step b p r = (None, p, r)"
  by (simp add: scan.simps)

lemma scan_Go: "p < length b \<Longrightarrow> step b p r = Go r' \<Longrightarrow> scan step b p r = scan step b (Suc p) r'"
  by (simp add: scan.simps [of step b p])

lemma scan_Stop: "p < length b \<Longrightarrow> step b p r = Stop e r' \<Longrightarrow> scan step b p r = (Some e, p, r')"
  by (simp add: scan.simps [of step b p])

locale byte_scanner =
  fixes step :: "bytes \<Rightarrow> nat \<Rightarrow> 'r \<Rightarrow> ('r, 'e) scan_step"
  assumes step_append: "p < length b \<Longrightarrow> step (b @ rest) p r = step b p r"
begin

lemma scan_append:
  "scan step (b @ rest) p r =
     (case scan step b p r of
        (None, q, r') \<Rightarrow> scan step (b @ rest) q r'
      | (Some e, q, r') \<Rightarrow> (Some e, q, r'))"
proof (induction "length b - p" arbitrary: p r)
  case 0
  then show ?case by (simp add: scan_end [of b])
next
  case (Suc n)
  then have p: "p < length b" by simp
  then have p': "p < length (b @ rest)" by simp
  show ?case
  proof (cases "step b p r")
    case (Go r')
    have "n = length b - Suc p" using Suc(2) by simp
    from Suc(1) [OF this, of r'] show ?thesis
      using scan_Go [of p b step r r', OF p Go] scan_Go [of p "b @ rest" step r r'] p' Go step_append [OF p] by simp
  next
    case (Stop e r')
    then show ?thesis
      using scan_Stop [of p b step r e r', OF p Stop] scan_Stop [of p "b @ rest" step r e r'] p' step_append [OF p] by simp
  qed
qed

text \<open>A call that ran out of input is resumed at the end of that input.\<close>

lemma scan_resume:
  "scan step b p r = (None, q, r') \<Longrightarrow> scan step (b @ rest) p r = scan step (b @ rest) q r'"
  by (simp add: scan_append [of b])

lemma scan_stop_append:
  "scan step b p r = (Some e, q, r') \<Longrightarrow> scan step (b @ rest) p r = (Some e, q, r')"
  by (simp add: scan_append [of b])

end

text \<open>
  A property of the request that every step keeps, for the bytes before the position.
\<close>

lemma scan_invariant:
  assumes "scan step b p r = (e, q, r')" and "I p r" and "p \<le> length b"
    and "\<And>p r r'. p < length b \<Longrightarrow> I p r \<Longrightarrow> step b p r = Go r' \<Longrightarrow> I (Suc p) r'"
  shows "case e of
      None \<Rightarrow> q = length b \<and> I q r'
    | Some x \<Rightarrow> p \<le> q \<and> q < length b \<and> (\<exists>r1. I q r1 \<and> step b q r1 = Stop x r')"
  using assms(1-3)
proof (induction "length b - p" arbitrary: p r)
  case 0
  then show ?case by (simp add: scan_end)
next
  case (Suc n)
  then have p: "p < length b" by simp
  show ?case
  proof (cases "step b p r")
    case (Go r1)
    have n: "n = length b - Suc p" using Suc(2) by simp
    have "scan step b (Suc p) r1 = (e, q, r')" using Suc(3) scan_Go [of p b step r r1, OF p Go] by simp
    from Suc(1) [OF n this assms(4) [OF p Suc(4) Go]] p show ?thesis by (auto split: option.splits)
  next
    case (Stop x r1)
    then show ?thesis using Suc(3,4) scan_Stop [of p b step r x r1, OF p Stop] p by auto
  qed
qed

section \<open>The text between two positions\<close>

definition slice :: "bytes \<Rightarrow> nat \<Rightarrow> nat \<Rightarrow> bytes" where
  "slice b s e = take (e - s) (drop s b)"

lemma length_slice [simp]: "s \<le> e \<Longrightarrow> e \<le> length b \<Longrightarrow> length (slice b s e) = e - s"
  by (simp add: slice_def)

lemma slice_Suc: "s \<le> e \<Longrightarrow> e < length b \<Longrightarrow> slice b s (Suc e) = slice b s e @ [b ! e]"
  by (simp add: slice_def Suc_diff_le take_Suc_conv_app_nth)

lemma nth_slice: "i < e - s \<Longrightarrow> e \<le> length b \<Longrightarrow> slice b s e ! i = b ! (s + i)"
  by (simp add: slice_def)

text \<open>A run over bytes that keep the parser in a loop.\<close>

lemma scan_while:
  assumes "\<And>i. p \<le> i \<Longrightarrow> i < q \<Longrightarrow> step b i r = Go r" and "p \<le> q" and "q \<le> length b"
  shows "scan step b p r = scan step b q r"
  using assms
proof (induction "q - p" arbitrary: p)
  case 0
  then show ?case by simp
next
  case (Suc n)
  then have "p < length b" "step b p r = Go r" by simp_all
  then have "scan step b p r = scan step b (Suc p) r" by (rule scan_Go)
  also have "\<dots> = scan step b q r" using Suc by (intro Suc(1)) simp_all
  finally show ?case .
qed

end
