(* ===== verification/Http_Request_Line.thy ===== *)
theory Http_Request_Line
  imports Http_Scan
begin

text \<open>
  \<open>ngx_http_parse_request_line\<close> of \<open>http/ngx_http_parse.c\<close>: one definition per state of its
  switch, composed as the switch composes them (fall-through is a call of the next state, the
  \<open>p--\<close> of the two \<open>http_09\<close> states is a call of the state that then reads the same byte).
  A pointer is a position in the buffer of received bytes, \<open>None\<close> for \<open>NULL\<close>. The build is
  the Unix one: the blocks under \<open>NGX_WIN32\<close> are left out. The comparisons
  \<open>ngx_strNcmp\<close> are modelled in their word-wide variant, which compares all the bytes.
\<close>

section \<open>State and request\<close>

datatype rl_state =
    sw_start | sw_method | sw_spaces_before_uri | sw_schema | sw_schema_slash
  | sw_schema_slash_slash | sw_host_start | sw_host | sw_host_end | sw_host_ip_literal | sw_port
  | sw_host_http_09 | sw_after_slash_in_uri | sw_check_uri | sw_check_uri_http_09 | sw_uri
  | sw_http_09 | sw_http_H | sw_http_HT | sw_http_HTT | sw_http_HTTP | sw_first_major_digit
  | sw_major_digit | sw_first_minor_digit | sw_minor_digit | sw_spaces_after_digit
  | sw_almost_done

datatype http_method =
    NGX_HTTP_UNKNOWN | NGX_HTTP_GET | NGX_HTTP_HEAD | NGX_HTTP_POST | NGX_HTTP_PUT
  | NGX_HTTP_DELETE | NGX_HTTP_MKCOL | NGX_HTTP_COPY | NGX_HTTP_MOVE | NGX_HTTP_OPTIONS
  | NGX_HTTP_PROPFIND | NGX_HTTP_PROPPATCH | NGX_HTTP_LOCK | NGX_HTTP_UNLOCK | NGX_HTTP_PATCH
  | NGX_HTTP_TRACE

record http_request =
  rl_state :: rl_state
  req_method :: http_method
  request_start :: "nat option"
  method_end :: "nat option"
  schema_start :: "nat option"
  schema_end :: "nat option"
  host_start :: "nat option"
  host_end :: "nat option"
  port_end :: "nat option"
  uri_start :: "nat option"
  uri_end :: "nat option"
  uri_ext :: "nat option"
  args_start :: "nat option"
  http_protocol :: "nat option"
  request_end :: "nat option"
  complex_uri :: bool
  quoted_uri :: bool
  plus_in_uri :: bool
  space_in_uri :: bool
  http_major :: nat
  http_minor :: nat
  http_version :: nat

datatype rl_result =
    RL_DONE | NGX_HTTP_PARSE_INVALID_METHOD | NGX_HTTP_PARSE_INVALID_REQUEST
  | NGX_HTTP_PARSE_INVALID_VERSION

type_synonym rl_step = "(http_request, rl_result) scan_step"

abbreviation goto_state :: "rl_state \<Rightarrow> http_request \<Rightarrow> rl_step" where
  "goto_state st r \<equiv> Go (r\<lparr>rl_state := st\<rparr>)"

abbreviation invalid :: "http_request \<Rightarrow> rl_step" where
  "invalid r \<equiv> Stop NGX_HTTP_PARSE_INVALID_REQUEST r"

text \<open>The table of the bytes that need no look in a URI.\<close>

definition usual_table :: "u32 list" where
  "usual_table = [0xffffdbfe, 0x7fff37d6, 0xffffffff, 0xffffffff,
     0xffffffff, 0xffffffff, 0xffffffff, 0xffffffff]"

definition usual :: "u_char \<Rightarrow> bool" where
  "usual ch \<longleftrightarrow> (usual_table ! unat (drop_bit 5 ch)) AND push_bit (unat (ch AND 0x1f)) 1 \<noteq> 0"

definition is_alpha_fold :: "u_char \<Rightarrow> bool" where
  "is_alpha_fold ch \<longleftrightarrow> (let c = ch OR 0x20 in c \<ge> 0x61 \<and> c \<le> 0x7a)"

definition is_dec_digit :: "u_char \<Rightarrow> bool" where
  "is_dec_digit ch \<longleftrightarrow> ch \<ge> 0x30 \<and> ch \<le> 0x39"

definition is_method_char :: "u_char \<Rightarrow> bool" where
  "is_method_char ch \<longleftrightarrow> \<not> ((ch < 0x41 \<or> ch > 0x5a) \<and> ch \<noteq> 0x5f \<and> ch \<noteq> 0x2d)"

section \<open>The method\<close>

text \<open>The switch over the length \<open>p - m\<close>; no match keeps the method.\<close>

definition mem_is :: "bytes \<Rightarrow> nat \<Rightarrow> string \<Rightarrow> bool" where
  "mem_is b m s \<longleftrightarrow> take (length s) (drop m b) = str_bytes s"

definition request_method :: "bytes \<Rightarrow> nat \<Rightarrow> nat \<Rightarrow> http_method \<Rightarrow> http_method" where
  "request_method b m n old =
     (if n = 3 then
        (if mem_is b m ''GET '' then NGX_HTTP_GET
         else if mem_is b m ''PUT '' then NGX_HTTP_PUT else old)
      else if n = 4 then
        (if b ! (m + 1) = 0x4f then
           (if mem_is b m ''POST'' then NGX_HTTP_POST
            else if mem_is b m ''COPY'' then NGX_HTTP_COPY
            else if mem_is b m ''MOVE'' then NGX_HTTP_MOVE
            else if mem_is b m ''LOCK'' then NGX_HTTP_LOCK else old)
         else if mem_is b m ''HEAD'' then NGX_HTTP_HEAD else old)
      else if n = 5 then
        (if mem_is b m ''MKCOL'' then NGX_HTTP_MKCOL
         else if mem_is b m ''PATCH'' then NGX_HTTP_PATCH
         else if mem_is b m ''TRACE'' then NGX_HTTP_TRACE else old)
      else if n = 6 then
        (if mem_is b m ''DELETE'' then NGX_HTTP_DELETE
         else if mem_is b m ''UNLOCK'' then NGX_HTTP_UNLOCK else old)
      else if n = 7 then (if mem_is b m ''OPTIONS '' then NGX_HTTP_OPTIONS else old)
      else if n = 8 then (if mem_is b m ''PROPFIND'' then NGX_HTTP_PROPFIND else old)
      else if n = 9 then (if mem_is b m ''PROPPATCH'' then NGX_HTTP_PROPPATCH else old)
      else old)"

definition rl_start :: "nat \<Rightarrow> u_char \<Rightarrow> http_request \<Rightarrow> rl_step" where
  "rl_start p ch r =
     (let r = r\<lparr>request_start := Some p\<rparr> in
      if ch = CR \<or> ch = LF then Go r
      else if \<not> is_method_char ch then Stop NGX_HTTP_PARSE_INVALID_METHOD r
      else goto_state sw_method r)"

definition rl_method :: "bytes \<Rightarrow> nat \<Rightarrow> u_char \<Rightarrow> http_request \<Rightarrow> rl_step" where
  "rl_method b p ch r =
     (if ch = 0x20 then
        let r = r\<lparr>method_end := Some (p - 1)\<rparr>; m = the (request_start r)
        in goto_state sw_spaces_before_uri (r\<lparr>req_method := request_method b m (p - m) (req_method r)\<rparr>)
      else if \<not> is_method_char ch then Stop NGX_HTTP_PARSE_INVALID_METHOD r
      else Go r)"

section \<open>An absolute URI: schema, host and port\<close>

definition rl_spaces_before_uri :: "nat \<Rightarrow> u_char \<Rightarrow> http_request \<Rightarrow> rl_step" where
  "rl_spaces_before_uri p ch r =
     (if ch = 0x2f then goto_state sw_after_slash_in_uri (r\<lparr>uri_start := Some p\<rparr>)
      else if is_alpha_fold ch then goto_state sw_schema (r\<lparr>schema_start := Some p\<rparr>)
      else if ch = 0x20 then Go r
      else invalid r)"

definition rl_schema :: "nat \<Rightarrow> u_char \<Rightarrow> http_request \<Rightarrow> rl_step" where
  "rl_schema p ch r =
     (if is_alpha_fold ch then Go r
      else if is_dec_digit ch \<or> ch = 0x2b \<or> ch = 0x2d \<or> ch = 0x2e then Go r
      else if ch = 0x3a then goto_state sw_schema_slash (r\<lparr>schema_end := Some p\<rparr>)
      else invalid r)"

definition rl_schema_slash :: "u_char \<Rightarrow> http_request \<Rightarrow> rl_step" where
  "rl_schema_slash ch r = (if ch = 0x2f then goto_state sw_schema_slash_slash r else invalid r)"

definition rl_schema_slash_slash :: "u_char \<Rightarrow> http_request \<Rightarrow> rl_step" where
  "rl_schema_slash_slash ch r = (if ch = 0x2f then goto_state sw_host_start r else invalid r)"

text \<open>The single slash of the schema stands for the URI of a request without a path.\<close>

definition uri_of_schema :: "http_request \<Rightarrow> http_request" where
  "uri_of_schema r =
     r\<lparr>uri_start := map_option (\<lambda>e. e + 1) (schema_end r),
       uri_end := map_option (\<lambda>e. e + 2) (schema_end r)\<rparr>"

definition rl_host_end :: "nat \<Rightarrow> u_char \<Rightarrow> http_request \<Rightarrow> rl_step" where
  "rl_host_end p ch r =
     (let r = r\<lparr>host_end := Some p\<rparr> in
      if ch = 0x3a then goto_state sw_port r
      else if ch = 0x2f then goto_state sw_after_slash_in_uri (r\<lparr>uri_start := Some p\<rparr>)
      else if ch = 0x20 then goto_state sw_host_http_09 (uri_of_schema r)
      else invalid r)"

definition rl_host :: "nat \<Rightarrow> u_char \<Rightarrow> http_request \<Rightarrow> rl_step" where
  "rl_host p ch r =
     (if is_alpha_fold ch then Go r
      else if is_dec_digit ch \<or> ch = 0x2e \<or> ch = 0x2d then Go r
      else rl_host_end p ch r)"

definition rl_host_start :: "nat \<Rightarrow> u_char \<Rightarrow> http_request \<Rightarrow> rl_step" where
  "rl_host_start p ch r =
     (let r = r\<lparr>host_start := Some p\<rparr> in
      if ch = 0x5b then goto_state sw_host_ip_literal r
      else rl_host p ch (r\<lparr>rl_state := sw_host\<rparr>))"

definition rl_host_ip_literal :: "u_char \<Rightarrow> http_request \<Rightarrow> rl_step" where
  "rl_host_ip_literal ch r =
     (if is_dec_digit ch then Go r
      else if is_alpha_fold ch then Go r
      else if ch = 0x3a then Go r
      else if ch = 0x5d then goto_state sw_host_end r
      else if ch = 0x2d \<or> ch = 0x2e \<or> ch = 0x5f \<or> ch = 0x7e then Go r
      else if ch = 0x21 \<or> ch = 0x24 \<or> ch = 0x26 \<or> ch = 0x27 \<or> ch = 0x28 \<or> ch = 0x29
        \<or> ch = 0x2a \<or> ch = 0x2b \<or> ch = 0x2c \<or> ch = 0x3b \<or> ch = 0x3d then Go r
      else invalid r)"

definition rl_port :: "nat \<Rightarrow> u_char \<Rightarrow> http_request \<Rightarrow> rl_step" where
  "rl_port p ch r =
     (if is_dec_digit ch then Go r
      else if ch = 0x2f
        then goto_state sw_after_slash_in_uri (r\<lparr>port_end := Some p, uri_start := Some p\<rparr>)
      else if ch = 0x20 then goto_state sw_host_http_09 (uri_of_schema (r\<lparr>port_end := Some p\<rparr>))
      else invalid r)"

definition rl_host_http_09 :: "nat \<Rightarrow> u_char \<Rightarrow> http_request \<Rightarrow> rl_step" where
  "rl_host_http_09 p ch r =
     (if ch = 0x20 then Go r
      else if ch = CR then goto_state sw_almost_done (r\<lparr>http_minor := 9\<rparr>)
      else if ch = LF then Stop RL_DONE (r\<lparr>http_minor := 9\<rparr>)
      else if ch = 0x48 then goto_state sw_http_H (r\<lparr>http_protocol := Some p\<rparr>)
      else invalid r)"

section \<open>The URI\<close>

definition rl_after_slash_in_uri :: "nat \<Rightarrow> u_char \<Rightarrow> http_request \<Rightarrow> rl_step" where
  "rl_after_slash_in_uri p ch r =
     (if usual ch then goto_state sw_check_uri r
      else if ch = 0x20 then goto_state sw_check_uri_http_09 (r\<lparr>uri_end := Some p\<rparr>)
      else if ch = CR then goto_state sw_almost_done (r\<lparr>uri_end := Some p, http_minor := 9\<rparr>)
      else if ch = LF then Stop RL_DONE (r\<lparr>uri_end := Some p, http_minor := 9\<rparr>)
      else if ch = 0x2e then goto_state sw_uri (r\<lparr>complex_uri := True\<rparr>)
      else if ch = 0x25 then goto_state sw_uri (r\<lparr>quoted_uri := True\<rparr>)
      else if ch = 0x2f then goto_state sw_uri (r\<lparr>complex_uri := True\<rparr>)
      else if ch = 0x3f then goto_state sw_uri (r\<lparr>args_start := Some (p + 1)\<rparr>)
      else if ch = 0x23 then goto_state sw_uri (r\<lparr>complex_uri := True\<rparr>)
      else if ch = 0x2b then Go (r\<lparr>plus_in_uri := True\<rparr>)
      else if ch = 0 then invalid r
      else goto_state sw_check_uri r)"

definition rl_check_uri :: "nat \<Rightarrow> u_char \<Rightarrow> http_request \<Rightarrow> rl_step" where
  "rl_check_uri p ch r =
     (if usual ch then Go r
      else if ch = 0x2f then goto_state sw_after_slash_in_uri (r\<lparr>uri_ext := None\<rparr>)
      else if ch = 0x2e then Go (r\<lparr>uri_ext := Some (p + 1)\<rparr>)
      else if ch = 0x20 then goto_state sw_check_uri_http_09 (r\<lparr>uri_end := Some p\<rparr>)
      else if ch = CR then goto_state sw_almost_done (r\<lparr>uri_end := Some p, http_minor := 9\<rparr>)
      else if ch = LF then Stop RL_DONE (r\<lparr>uri_end := Some p, http_minor := 9\<rparr>)
      else if ch = 0x25 then goto_state sw_uri (r\<lparr>quoted_uri := True\<rparr>)
      else if ch = 0x3f then goto_state sw_uri (r\<lparr>args_start := Some (p + 1)\<rparr>)
      else if ch = 0x23 then goto_state sw_uri (r\<lparr>complex_uri := True\<rparr>)
      else if ch = 0x2b then Go (r\<lparr>plus_in_uri := True\<rparr>)
      else if ch = 0 then invalid r
      else Go r)"

definition rl_uri :: "nat \<Rightarrow> u_char \<Rightarrow> http_request \<Rightarrow> rl_step" where
  "rl_uri p ch r =
     (if usual ch then Go r
      else if ch = 0x20 then goto_state sw_http_09 (r\<lparr>uri_end := Some p\<rparr>)
      else if ch = CR then goto_state sw_almost_done (r\<lparr>uri_end := Some p, http_minor := 9\<rparr>)
      else if ch = LF then Stop RL_DONE (r\<lparr>uri_end := Some p, http_minor := 9\<rparr>)
      else if ch = 0x23 then Go (r\<lparr>complex_uri := True\<rparr>)
      else if ch = 0 then invalid r
      else Go r)"

definition rl_check_uri_http_09 :: "nat \<Rightarrow> u_char \<Rightarrow> http_request \<Rightarrow> rl_step" where
  "rl_check_uri_http_09 p ch r =
     (if ch = 0x20 then Go r
      else if ch = CR then goto_state sw_almost_done (r\<lparr>http_minor := 9\<rparr>)
      else if ch = LF then Stop RL_DONE (r\<lparr>http_minor := 9\<rparr>)
      else if ch = 0x48 then goto_state sw_http_H (r\<lparr>http_protocol := Some p\<rparr>)
      else rl_check_uri p ch (r\<lparr>space_in_uri := True, rl_state := sw_check_uri\<rparr>))"

definition rl_http_09 :: "nat \<Rightarrow> u_char \<Rightarrow> http_request \<Rightarrow> rl_step" where
  "rl_http_09 p ch r =
     (if ch = 0x20 then Go r
      else if ch = CR then goto_state sw_almost_done (r\<lparr>http_minor := 9\<rparr>)
      else if ch = LF then Stop RL_DONE (r\<lparr>http_minor := 9\<rparr>)
      else if ch = 0x48 then goto_state sw_http_H (r\<lparr>http_protocol := Some p\<rparr>)
      else rl_uri p ch (r\<lparr>space_in_uri := True, rl_state := sw_uri\<rparr>))"

section \<open>The protocol version\<close>

definition rl_expect :: "u_char \<Rightarrow> rl_state \<Rightarrow> u_char \<Rightarrow> http_request \<Rightarrow> rl_step" where
  "rl_expect c st ch r = (if ch = c then goto_state st r else invalid r)"

definition rl_first_major_digit :: "u_char \<Rightarrow> http_request \<Rightarrow> rl_step" where
  "rl_first_major_digit ch r =
     (if ch < 0x31 \<or> ch > 0x39 then invalid r
      else let r = r\<lparr>http_major := unat ch - 0x30\<rparr> in
        if http_major r > 1 then Stop NGX_HTTP_PARSE_INVALID_VERSION r
        else goto_state sw_major_digit r)"

definition rl_major_digit :: "u_char \<Rightarrow> http_request \<Rightarrow> rl_step" where
  "rl_major_digit ch r =
     (if ch = 0x2e then goto_state sw_first_minor_digit r
      else if \<not> is_dec_digit ch then invalid r
      else let r = r\<lparr>http_major := http_major r * 10 + (unat ch - 0x30)\<rparr> in
        if http_major r > 1 then Stop NGX_HTTP_PARSE_INVALID_VERSION r else Go r)"

definition rl_first_minor_digit :: "u_char \<Rightarrow> http_request \<Rightarrow> rl_step" where
  "rl_first_minor_digit ch r =
     (if \<not> is_dec_digit ch then invalid r
      else goto_state sw_minor_digit (r\<lparr>http_minor := unat ch - 0x30\<rparr>))"

definition rl_minor_digit :: "u_char \<Rightarrow> http_request \<Rightarrow> rl_step" where
  "rl_minor_digit ch r =
     (if ch = CR then goto_state sw_almost_done r
      else if ch = LF then Stop RL_DONE r
      else if ch = 0x20 then goto_state sw_spaces_after_digit r
      else if \<not> is_dec_digit ch then invalid r
      else if http_minor r > 99 then invalid r
      else Go (r\<lparr>http_minor := http_minor r * 10 + (unat ch - 0x30)\<rparr>))"

definition rl_spaces_after_digit :: "u_char \<Rightarrow> http_request \<Rightarrow> rl_step" where
  "rl_spaces_after_digit ch r =
     (if ch = 0x20 then Go r
      else if ch = CR then goto_state sw_almost_done r
      else if ch = LF then Stop RL_DONE r
      else invalid r)"

definition rl_almost_done :: "nat \<Rightarrow> u_char \<Rightarrow> http_request \<Rightarrow> rl_step" where
  "rl_almost_done p ch r =
     (let r = r\<lparr>request_end := Some (p - 1)\<rparr> in
      if ch = LF then Stop RL_DONE r else invalid r)"

section \<open>The switch, the loop and the end\<close>

definition rl_step :: "bytes \<Rightarrow> nat \<Rightarrow> http_request \<Rightarrow> rl_step" where
  "rl_step b p r =
     (let ch = b ! p in
      case rl_state r of
        sw_start \<Rightarrow> rl_start p ch r
      | sw_method \<Rightarrow> rl_method b p ch r
      | sw_spaces_before_uri \<Rightarrow> rl_spaces_before_uri p ch r
      | sw_schema \<Rightarrow> rl_schema p ch r
      | sw_schema_slash \<Rightarrow> rl_schema_slash ch r
      | sw_schema_slash_slash \<Rightarrow> rl_schema_slash_slash ch r
      | sw_host_start \<Rightarrow> rl_host_start p ch r
      | sw_host \<Rightarrow> rl_host p ch r
      | sw_host_end \<Rightarrow> rl_host_end p ch r
      | sw_host_ip_literal \<Rightarrow> rl_host_ip_literal ch r
      | sw_port \<Rightarrow> rl_port p ch r
      | sw_host_http_09 \<Rightarrow> rl_host_http_09 p ch r
      | sw_after_slash_in_uri \<Rightarrow> rl_after_slash_in_uri p ch r
      | sw_check_uri \<Rightarrow> rl_check_uri p ch r
      | sw_check_uri_http_09 \<Rightarrow> rl_check_uri_http_09 p ch r
      | sw_uri \<Rightarrow> rl_uri p ch r
      | sw_http_09 \<Rightarrow> rl_http_09 p ch r
      | sw_http_H \<Rightarrow> rl_expect 0x54 sw_http_HT ch r
      | sw_http_HT \<Rightarrow> rl_expect 0x54 sw_http_HTT ch r
      | sw_http_HTT \<Rightarrow> rl_expect 0x50 sw_http_HTTP ch r
      | sw_http_HTTP \<Rightarrow> rl_expect 0x2f sw_first_major_digit ch r
      | sw_first_major_digit \<Rightarrow> rl_first_major_digit ch r
      | sw_major_digit \<Rightarrow> rl_major_digit ch r
      | sw_first_minor_digit \<Rightarrow> rl_first_minor_digit ch r
      | sw_minor_digit \<Rightarrow> rl_minor_digit ch r
      | sw_spaces_after_digit \<Rightarrow> rl_spaces_after_digit ch r
      | sw_almost_done \<Rightarrow> rl_almost_done p ch r)"

datatype rl_rc = RL_OK | RL_AGAIN | RL_INVALID rl_result | NGX_HTTP_PARSE_INVALID_09_METHOD

text \<open>
  The result, the new \<open>b->pos\<close> and the request. The state is a local variable of the code: it is
  stored when the input ends and after the line, but not by the returns out of the switch.
\<close>

definition ngx_http_parse_request_line ::
  "bytes \<Rightarrow> nat \<Rightarrow> http_request \<Rightarrow> rl_rc \<times> nat \<times> http_request" where
  "ngx_http_parse_request_line b pos r =
     (case scan rl_step b pos r of
        (None, p, r1) \<Rightarrow> (RL_AGAIN, p, r1)
      | (Some RL_DONE, p, r1) \<Rightarrow>
          (let r2 = (if request_end r1 = None then r1\<lparr>request_end := Some p\<rparr> else r1);
               r3 = r2\<lparr>http_version := http_major r2 * 1000 + http_minor r2, rl_state := sw_start\<rparr>
           in if http_version r3 = 9 \<and> req_method r3 \<noteq> NGX_HTTP_GET
              then (NGX_HTTP_PARSE_INVALID_09_METHOD, p + 1, r3)
              else (RL_OK, p + 1, r3))
      | (Some e, p, r1) \<Rightarrow> (RL_INVALID e, pos, r1\<lparr>rl_state := rl_state r\<rparr>))"

definition request_init :: http_request where
  "request_init = \<lparr>rl_state = sw_start, req_method = NGX_HTTP_UNKNOWN, request_start = None,
     method_end = None, schema_start = None, schema_end = None, host_start = None,
     host_end = None, port_end = None, uri_start = None, uri_end = None, uri_ext = None,
     args_start = None, http_protocol = None, request_end = None, complex_uri = False,
     quoted_uri = False, plus_in_uri = False, space_in_uri = False, http_major = 0,
     http_minor = 0, http_version = 1000\<rparr>"


section \<open>A step looks only at the bytes received\<close>

lemma mem_is_append: "m + length s \<le> length b \<Longrightarrow> mem_is (b @ rest) m s = mem_is b m s"
  by (simp add: mem_is_def)

lemma request_method_append:
  assumes "p < length b"
  shows "request_method (b @ rest) m (p - m) old = request_method b m (p - m) old"
proof -
  have "mem_is (b @ rest) m s = mem_is b m s" if "length s \<le> p - m + 1" "3 \<le> p - m" for s
    using that assms by (intro mem_is_append) auto
  moreover have "(b @ rest) ! (m + 1) = b ! (m + 1)" if "p - m = 4"
  proof -
    have "m + 1 < length b" using that assms by linarith
    then show ?thesis by (simp add: nth_append)
  qed
  ultimately show ?thesis unfolding request_method_def by (auto simp del: nth_append_length)
qed

lemma rl_step_append: "p < length b \<Longrightarrow> rl_step (b @ rest) p r = rl_step b p r"
  by (cases "rl_state r") (simp_all add: rl_step_def nth_append rl_method_def request_method_append Let_def)

interpretation rl: byte_scanner rl_step
  by unfold_locales (rule rl_step_append)

section \<open>The invariant of the states\<close>

definition clean :: "bytes \<Rightarrow> nat \<Rightarrow> nat \<Rightarrow> bool" where
  "clean b u v \<longleftrightarrow> (\<forall>i. u \<le> i \<and> i < v \<longrightarrow> b ! i \<noteq> 0 \<and> b ! i \<noteq> CR \<and> b ! i \<noteq> LF)"

definition in_method :: "bytes \<Rightarrow> nat \<Rightarrow> nat option \<Rightarrow> bool" where
  "in_method b p ms \<longleftrightarrow>
     (case ms of None \<Rightarrow> False | Some s \<Rightarrow> s < p \<and> (\<forall>i. s \<le> i \<and> i < p \<longrightarrow> is_method_char (b ! i)))"

definition has_method :: "bytes \<Rightarrow> nat \<Rightarrow> nat option \<Rightarrow> nat option \<Rightarrow> http_method \<Rightarrow> bool" where
  "has_method b p ms me m \<longleftrightarrow>
     (case (ms, me) of (Some s, Some e) \<Rightarrow> s \<le> e \<and> e + 1 < p \<and> b ! (e + 1) = 0x20
        \<and> (\<forall>i. s \<le> i \<and> i \<le> e \<longrightarrow> is_method_char (b ! i))
        \<and> m = request_method b s (e + 1 - s) NGX_HTTP_UNKNOWN
      | _ \<Rightarrow> False)"

definition in_uri :: "bytes \<Rightarrow> nat \<Rightarrow> nat option \<Rightarrow> nat option \<Rightarrow> bool" where
  "in_uri b p me us \<longleftrightarrow>
     (case (me, us) of (Some e, Some u) \<Rightarrow> e < u \<and> u < p \<and> b ! u = 0x2f \<and> clean b u p | _ \<Rightarrow> False)"

definition has_uri :: "bytes \<Rightarrow> nat \<Rightarrow> nat option \<Rightarrow> nat option \<Rightarrow> nat option \<Rightarrow> bool" where
  "has_uri b p me us ue \<longleftrightarrow>
     (case (me, us, ue) of
        (Some e, Some u, Some v) \<Rightarrow> e < u \<and> u < v \<and> v < p \<and> b ! u = 0x2f \<and> clean b u v
      | _ \<Rightarrow> False)"

definition has_schema :: "bytes \<Rightarrow> nat \<Rightarrow> nat option \<Rightarrow> nat option \<Rightarrow> bool" where
  "has_schema b p me se \<longleftrightarrow>
     (case (me, se) of
        (Some e, Some c) \<Rightarrow> e < c \<and> c + 1 < p \<and> b ! (c + 1) = 0x2f
      | _ \<Rightarrow> False)"

definition rl_inv :: "bytes \<Rightarrow> nat \<Rightarrow> http_request \<Rightarrow> bool" where
  "rl_inv b p r \<longleftrightarrow> request_end r = None \<and> http_major r \<le> 1 \<and> http_minor r \<le> 999 \<and>
     (let hm = has_method b p (request_start r) (method_end r) (req_method r);
          iu = in_uri b p (method_end r) (uri_start r);
          hu = has_uri b p (method_end r) (uri_start r) (uri_end r);
          hs = has_schema b p (method_end r) (schema_end r) in
      case rl_state r of
        sw_start \<Rightarrow> req_method r = NGX_HTTP_UNKNOWN
      | sw_method \<Rightarrow> in_method b p (request_start r) \<and> req_method r = NGX_HTTP_UNKNOWN
      | sw_spaces_before_uri \<Rightarrow> hm
      | sw_schema \<Rightarrow> hm
      | sw_schema_slash \<Rightarrow> hm \<and> schema_end r = Some (p - 1) \<and> the (method_end r) < p - 1
      | sw_schema_slash_slash \<Rightarrow> hm \<and> hs
      | sw_host_start \<Rightarrow> hm \<and> hs
      | sw_host \<Rightarrow> hm \<and> hs
      | sw_host_end \<Rightarrow> hm \<and> hs
      | sw_host_ip_literal \<Rightarrow> hm \<and> hs
      | sw_port \<Rightarrow> hm \<and> hs
      | sw_after_slash_in_uri \<Rightarrow> hm \<and> iu
      | sw_check_uri \<Rightarrow> hm \<and> iu
      | sw_uri \<Rightarrow> hm \<and> iu
      | sw_check_uri_http_09 \<Rightarrow> hm \<and> iu \<and> hu
      | sw_http_09 \<Rightarrow> hm \<and> iu \<and> hu
      | _ \<Rightarrow> hm \<and> hu)"

lemma clean_Suc: "clean b u (Suc p) \<longleftrightarrow> (u \<le> p \<longrightarrow> clean b u p \<and> b ! p \<noteq> 0 \<and> b ! p \<noteq> CR \<and> b ! p \<noteq> LF)"
  by (auto simp: clean_def less_Suc_eq)

lemma clean_same [simp]: "clean b u u"
  by (auto simp: clean_def)

lemma inv_mono:
  "has_method b p ms me m \<Longrightarrow> has_method b (Suc p) ms me m"
  "has_uri b p me us ue \<Longrightarrow> has_uri b (Suc p) me us ue"
  "has_schema b p me se \<Longrightarrow> has_schema b (Suc p) me se"
  by (auto simp: has_method_def has_uri_def has_schema_def split: option.splits)

lemma in_method_start: "is_method_char (b ! p) \<Longrightarrow> in_method b (Suc p) (Some p)"
  by (auto simp: in_method_def less_Suc_eq_le dest: le_antisym)

lemma in_method_Suc: "in_method b p ms \<Longrightarrow> is_method_char (b ! p) \<Longrightarrow> in_method b (Suc p) ms"
  by (auto simp: in_method_def less_Suc_eq split: option.splits)

lemma has_method_end:
  assumes "in_method b p ms" and "b ! p = 0x20"
  shows "has_method b (Suc p) ms (Some (p - 1)) (request_method b (the ms) (p - the ms) NGX_HTTP_UNKNOWN)"
proof -
  from assms obtain s where "ms = Some s" "s < p" by (auto simp: in_method_def split: option.splits)
  with assms show ?thesis by (cases p) (auto simp: in_method_def has_method_def Suc_diff_le less_Suc_eq_le)
qed

lemma in_uri_start:
  "has_method b p ms me m \<Longrightarrow> b ! p = 0x2f \<Longrightarrow> in_uri b (Suc p) me (Some p)"
  by (auto simp: has_method_def in_uri_def clean_def le_less_Suc_eq split: option.splits)

lemma in_uri_Suc:
  "in_uri b p me us \<Longrightarrow> b ! p \<noteq> 0 \<Longrightarrow> b ! p \<noteq> CR \<Longrightarrow> b ! p \<noteq> LF \<Longrightarrow> in_uri b (Suc p) me us"
  by (auto simp: in_uri_def clean_Suc split: option.splits)

lemma has_uri_end: "in_uri b p me us \<Longrightarrow> has_uri b (Suc p) me us (Some p)"
  by (auto simp: in_uri_def has_uri_def split: option.splits)

lemma has_schema_slash:
  "has_method b p ms me m \<Longrightarrow> the me < p - 1 \<Longrightarrow> b ! p = 0x2f \<Longrightarrow>
   has_schema b (Suc p) me (Some (p - 1))"
  by (auto simp: has_schema_def has_method_def split: option.splits)

lemma has_uri_schema:
  "has_schema b p me se \<Longrightarrow>
   has_uri b (Suc p) me (map_option (\<lambda>e. e + 1) se) (map_option (\<lambda>e. e + 2) se)"
  by (auto simp: has_schema_def has_uri_def clean_Suc split: option.splits)

lemma schema_colon: "has_method b p ms me m \<Longrightarrow> the me < p"
  by (auto simp: has_method_def split: option.splits)

lemma usual_clean: "usual ch \<Longrightarrow> ch \<noteq> 0 \<and> ch \<noteq> CR \<and> ch \<noteq> LF \<and> ch \<noteq> 0x20"
  by (auto simp: usual_def usual_table_def)

lemmas rl_step_defs = rl_start_def rl_method_def rl_spaces_before_uri_def rl_schema_def
  rl_schema_slash_def rl_schema_slash_slash_def rl_host_start_def rl_host_def rl_host_end_def
  rl_host_ip_literal_def rl_port_def rl_host_http_09_def rl_after_slash_in_uri_def
  rl_check_uri_def rl_check_uri_http_09_def rl_uri_def rl_http_09_def rl_expect_def
  rl_first_major_digit_def rl_major_digit_def rl_first_minor_digit_def rl_minor_digit_def
  rl_spaces_after_digit_def rl_almost_done_def

lemma digit_le: "is_dec_digit ch \<Longrightarrow> unat ch - 0x30 \<le> 9"
  by (auto simp: is_dec_digit_def word_le_nat_alt)

lemma rl_inv_Go:
  assumes "rl_inv b p r" and "rl_step b p r = Go r'"
  shows "rl_inv b (Suc p) r'"
proof -
  show ?thesis
  proof (cases "rl_state r")
    case sw_start
    then show ?thesis using assms by (auto simp: rl_inv_def rl_step_def rl_start_def Let_def in_method_start split: if_splits)
  next
    case sw_method
    then show ?thesis using assms by (auto simp: rl_inv_def rl_step_def rl_method_def Let_def in_method_Suc has_method_end [simplified] split: if_splits)
  next
    case sw_spaces_before_uri
    then show ?thesis using assms by (auto simp: rl_inv_def rl_step_def rl_spaces_before_uri_def Let_def inv_mono in_uri_start split: if_splits)
  next
    case sw_schema
    then show ?thesis using assms by (auto simp: rl_inv_def rl_step_def rl_schema_def Let_def inv_mono schema_colon split: if_splits)
  next
    case sw_schema_slash
    then show ?thesis using assms by (auto simp: rl_inv_def rl_step_def rl_schema_slash_def Let_def inv_mono has_schema_slash [simplified] split: if_splits)
  qed (use assms in \<open>auto simp: rl_inv_def rl_step_def rl_step_defs uri_of_schema_def Let_def inv_mono in_uri_start in_uri_Suc has_uri_end has_uri_schema [simplified] dest: usual_clean digit_le split: if_splits\<close>)
qed


lemma rl_inv_Stop:
  assumes "rl_inv b p r" and "rl_step b p r = Stop RL_DONE r'"
  shows "b ! p = LF \<and> has_method b (Suc p) (request_start r') (method_end r') (req_method r')
    \<and> has_uri b (Suc p) (method_end r') (uri_start r') (uri_end r')
    \<and> (request_end r' = None \<or> request_end r' = Some (p - 1) \<and> the (uri_end r') \<le> p - 1 \<and> 0 < p)
    \<and> http_major r' \<le> 1 \<and> http_minor r' \<le> 999"
proof -
  have end_le: "the ve \<le> p - 1 \<and> 0 < p" if "has_uri b p me us ve" for me us ve
    using that by (auto simp: has_uri_def split: option.splits)
  show ?thesis
    using assms
    by (cases "rl_state r")
      (auto simp: rl_inv_def rl_step_def rl_step_defs Let_def inv_mono has_uri_end has_uri_schema [simplified]
        dest: usual_clean end_le [simplified] split: if_splits)
qed


section \<open>The method names\<close>

definition method_of_name :: "bytes \<Rightarrow> http_method" where
  "method_of_name name =
     (case map_of
        [(str_bytes ''GET'', NGX_HTTP_GET), (str_bytes ''HEAD'', NGX_HTTP_HEAD),
         (str_bytes ''POST'', NGX_HTTP_POST), (str_bytes ''PUT'', NGX_HTTP_PUT),
         (str_bytes ''DELETE'', NGX_HTTP_DELETE), (str_bytes ''MKCOL'', NGX_HTTP_MKCOL),
         (str_bytes ''COPY'', NGX_HTTP_COPY), (str_bytes ''MOVE'', NGX_HTTP_MOVE),
         (str_bytes ''OPTIONS'', NGX_HTTP_OPTIONS), (str_bytes ''PROPFIND'', NGX_HTTP_PROPFIND),
         (str_bytes ''PROPPATCH'', NGX_HTTP_PROPPATCH), (str_bytes ''LOCK'', NGX_HTTP_LOCK),
         (str_bytes ''UNLOCK'', NGX_HTTP_UNLOCK), (str_bytes ''PATCH'', NGX_HTTP_PATCH),
         (str_bytes ''TRACE'', NGX_HTTP_TRACE)] name
      of Some m \<Rightarrow> m | None \<Rightarrow> NGX_HTTP_UNKNOWN)"

lemma mem_is_slice: "mem_is b m s \<longleftrightarrow> slice b m (m + length s) = str_bytes s"
  by (simp add: mem_is_def slice_def)

lemma request_method_name:
  assumes "s + n < length b" and "b ! (s + n) = 0x20"
  shows "request_method b s n NGX_HTTP_UNKNOWN = method_of_name (slice b s (s + n))"
proof -
  define nm where "nm = slice b s (s + n)"
  have len: "length nm = n" using assms by (simp add: nm_def)
  have sp: "mem_is b s (x @ '' '') \<longleftrightarrow> nm = str_bytes x" if "length x = n" for x
    using that slice_Suc [of s "s + n" b] assms by (simp add: mem_is_slice str_bytes_def nm_def)
  have eq: "mem_is b s x \<longleftrightarrow> nm = str_bytes x" if "length x = n" for x
    using that by (simp add: mem_is_slice nm_def)
  have ne: "nm \<noteq> str_bytes k" if "length k \<noteq> n" for k
    using that len by (auto simp: str_bytes_def)
  note sps = sp [of "''GET''"] sp [of "''PUT''"] sp [of "''OPTIONS''"]
  have o1: "b ! Suc s = nm ! 1" if "n = 4" using that assms by (simp add: nth_slice nm_def)
  consider "n = 3" | "n = 4" | "n = 5" | "n = 6" | "n = 7" | "n = 8" | "n = 9" | "n \<notin> {3..9}"
    by force
  then show ?thesis
  proof cases
    case 1
    then obtain a b' c where x: "nm = [a, b', c]"
      using len by (auto simp: length_Suc_conv eval_nat_numeral)
    from 1 show ?thesis unfolding nm_def [symmetric]
      by (simp add: request_method_def method_of_name_def sps [simplified] eq x)
  next
    case 2
    then obtain a b' c d where x: "nm = [a, b', c, d]"
      using len by (auto simp: length_Suc_conv eval_nat_numeral)
    from 2 show ?thesis unfolding nm_def [symmetric]
      by (simp add: request_method_def method_of_name_def sps [simplified] eq x o1)
  next
    case 3
    then obtain a b' c d e where x: "nm = [a, b', c, d, e]"
      using len by (auto simp: length_Suc_conv eval_nat_numeral)
    from 3 show ?thesis unfolding nm_def [symmetric]
      by (simp add: request_method_def method_of_name_def sps [simplified] eq x)
  next
    case 4
    then obtain a b' c d e f where x: "nm = [a, b', c, d, e, f]"
      using len by (auto simp: length_Suc_conv eval_nat_numeral)
    from 4 show ?thesis unfolding nm_def [symmetric]
      by (simp add: request_method_def method_of_name_def sps [simplified] eq x)
  next
    case 5
    then obtain a b' c d e f g where x: "nm = [a, b', c, d, e, f, g]"
      using len by (auto simp: length_Suc_conv eval_nat_numeral)
    from 5 show ?thesis unfolding nm_def [symmetric]
      by (simp add: request_method_def method_of_name_def sps [simplified] eq x)
  next
    case 6
    then obtain a b' c d e f g h where x: "nm = [a, b', c, d, e, f, g, h]"
      using len by (auto simp: length_Suc_conv eval_nat_numeral)
    from 6 show ?thesis unfolding nm_def [symmetric]
      by (simp add: request_method_def method_of_name_def sps [simplified] eq x)
  next
    case 7
    then obtain a b' c d e f g h i where x: "nm = [a, b', c, d, e, f, g, h, i]"
      using len by (auto simp: length_Suc_conv eval_nat_numeral)
    from 7 show ?thesis unfolding nm_def [symmetric]
      by (simp add: request_method_def method_of_name_def sps [simplified] eq x)
  next
    case 8
    then have n: "n \<noteq> 3" "n \<noteq> 4" "n \<noteq> 5" "n \<noteq> 6" "n \<noteq> 7" "n \<noteq> 8" "n \<noteq> 9" by auto
    then have "map_of kvs nm = None" if "list_all (\<lambda>k. length k \<in> {3..9}) (map fst kvs)" for kvs :: "(bytes \<times> http_method) list"
      using that 8 len by (induction kvs) auto
    then have "method_of_name nm = NGX_HTTP_UNKNOWN"
      unfolding method_of_name_def by (simp add: str_bytes_def del: map_of.simps)
    then show ?thesis unfolding nm_def [symmetric] using n by (simp add: request_method_def)
  qed
qed


section \<open>Accepted request lines\<close>

lemma list_all_slice:
  "v \<le> length b \<Longrightarrow> (\<And>i. u \<le> i \<Longrightarrow> i < v \<Longrightarrow> P (b ! i)) \<Longrightarrow> list_all P (slice b u v)"
  by (auto simp: list_all_length slice_def)

lemma parse_ok_cases:
  assumes "ngx_http_parse_request_line b pos r0 = (RL_OK, q, r)"
  obtains p r1 where "scan rl_step b pos r0 = (Some RL_DONE, p, r1)" "q = Suc p"
    "r = r1\<lparr>request_end := (if request_end r1 = None then Some p else request_end r1),
        http_version := http_major r1 * 1000 + http_minor r1, rl_state := sw_start\<rparr>"
    "http_version r = 9 \<longrightarrow> req_method r = NGX_HTTP_GET"
proof -
  obtain x p r1 where sc: "scan rl_step b pos r0 = (x, p, r1)" by (metis prod_cases3)
  with assms have "x = Some RL_DONE"
    by (auto simp: ngx_http_parse_request_line_def split: option.splits rl_result.splits)
  with assms sc that show ?thesis
    by (cases "request_end r1") (auto simp: ngx_http_parse_request_line_def Let_def split: if_splits)
qed

text \<open>
  C1. An accepted request line is well-formed and its pointers are in order: the method name is
  a run of method characters and \<open>req_method\<close> is its code, the URI starts with a slash, is not
  empty and holds no NUL, CR or LF, all of it lies inside the bytes received, the version is at
  most 1999 and a version 0.9 request is a GET.
\<close>

theorem request_line_safe:
  assumes "ngx_http_parse_request_line b pos request_init = (RL_OK, q, r)" and "pos \<le> length b"
  shows "case (request_start r, method_end r, uri_start r, uri_end r, request_end r) of
      (Some s, Some e, Some u, Some v, Some t) \<Rightarrow>
        s \<le> e \<and> e < u \<and> u < v \<and> v \<le> t \<and> t < q \<and> q \<le> length b \<and> b ! (q - 1) = LF
        \<and> list_all is_method_char (slice b s (e + 1))
        \<and> req_method r = method_of_name (slice b s (e + 1))
        \<and> b ! u = 0x2f \<and> list_all (\<lambda>c. c \<noteq> 0 \<and> c \<noteq> CR \<and> c \<noteq> LF) (slice b u v)
        \<and> http_version r \<le> 1999 \<and> (if http_version r = 9 then req_method r = NGX_HTTP_GET else True)
    | _ \<Rightarrow> False"
proof -
  from parse_ok_cases [OF assms(1)] obtain p r1 where
    sc: "scan rl_step b pos request_init = (Some RL_DONE, p, r1)" and q: "q = Suc p"
    and r: "r = r1\<lparr>request_end := (if request_end r1 = None then Some p else request_end r1),
        http_version := http_major r1 * 1000 + http_minor r1, rl_state := sw_start\<rparr>"
    and v9: "http_version r = 9 \<longrightarrow> req_method r = NGX_HTTP_GET" .
  have "rl_inv b pos request_init" by (simp add: rl_inv_def request_init_def)
  moreover have "rl_inv b (Suc p) r'" if "rl_inv b p r" "rl_step b p r = Go r'" for p r r'
    by (rule rl_inv_Go [OF that])
  ultimately obtain r2 where p: "p < length b" and st: "rl_inv b p r2" "rl_step b p r2 = Stop RL_DONE r1"
    using scan_invariant [where I = "rl_inv b", OF sc _ assms(2)] by auto
  note S = rl_inv_Stop [OF st]
  from S obtain s e u v where
    f: "request_start r1 = Some s" "method_end r1 = Some e" "uri_start r1 = Some u" "uri_end r1 = Some v"
    and m: "s \<le> e" "e + 1 < Suc p" "b ! (e + 1) = 0x20" "\<forall>i. s \<le> i \<and> i \<le> e \<longrightarrow> is_method_char (b ! i)"
      "req_method r1 = request_method b s (e + 1 - s) NGX_HTTP_UNKNOWN"
    and w: "e < u" "u < v" "v < Suc p" "b ! u = 0x2f" "clean b u v"
    by (auto simp: has_method_def has_uri_def split: option.splits)
  have "req_method r1 = method_of_name (slice b s (e + 1))"
    using request_method_name [of s "e + 1 - s" b] m p by simp
  moreover have "list_all is_method_char (slice b s (e + 1))"
    using m p by (intro list_all_slice) auto
  moreover have "list_all (\<lambda>c. c \<noteq> 0 \<and> c \<noteq> CR \<and> c \<noteq> LF) (slice b u v)"
    using w p by (intro list_all_slice) (auto simp: clean_def)
  moreover obtain t where "request_end r = Some t" "v \<le> t" "t < q"
    using S w f q by (auto simp: r)
  ultimately show ?thesis using S f m w p q v9 by (simp add: r)
qed

text \<open>
  C39. A request line may arrive in pieces: when the parser runs out of input, parsing what has
  been received with more behind it, from the saved position and state, gives the result, the
  position and the request that parsing all of it at once gives. An invalid line leaves
  \<open>b->pos\<close> and the state where the last call found them, and the other fields agree.
\<close>

theorem request_line_resume:
  assumes "ngx_http_parse_request_line b pos r = (RL_AGAIN, q, r1)"
  shows "case (ngx_http_parse_request_line (b @ b2) pos r, ngx_http_parse_request_line (b @ b2) q r1) of
    ((rc, p, x), (rc', p', x')) \<Rightarrow> rc = rc' \<and>
      (case rc of
         RL_INVALID e \<Rightarrow> p = pos \<and> p' = q \<and> rl_state x = rl_state r \<and> x' = x\<lparr>rl_state := rl_state r1\<rparr>
       | _ \<Rightarrow> p = p' \<and> x = x')"
proof -
  have "scan rl_step b pos r = (None, q, r1)"
    using assms
    by (auto simp: ngx_http_parse_request_line_def Let_def split: option.splits rl_result.splits prod.splits if_splits)
  from rl.scan_resume [OF this, of b2] show ?thesis
    by (auto simp: ngx_http_parse_request_line_def Let_def split: option.splits rl_result.splits prod.splits)
qed

section \<open>Well-formed request lines are accepted\<close>

text \<open>What the bytes of a URI leave alone.\<close>

definition same_line :: "http_request \<Rightarrow> http_request \<Rightarrow> bool" where
  "same_line r r' \<longleftrightarrow> request_start r' = request_start r \<and> method_end r' = method_end r
     \<and> req_method r' = req_method r \<and> uri_start r' = uri_start r \<and> request_end r' = request_end r"

abbreviation uri_states :: "rl_state set" where
  "uri_states \<equiv> {sw_after_slash_in_uri, sw_check_uri, sw_uri}"

lemma uri_char_step:
  assumes "rl_state r \<in> uri_states" and "b ! p \<notin> {0, CR, LF, 0x20}"
  shows "\<exists>r'. rl_step b p r = Go r' \<and> rl_state r' \<in> uri_states \<and> same_line r r'"
  using assms
  by (auto simp: rl_step_def rl_after_slash_in_uri_def rl_check_uri_def rl_uri_def same_line_def Let_def)

lemma scan_uri_chars:
  assumes "p \<le> q" and "q \<le> length b" and "rl_state r \<in> uri_states"
    and "\<And>i. p \<le> i \<Longrightarrow> i < q \<Longrightarrow> b ! i \<notin> {0, CR, LF, 0x20}"
  shows "\<exists>r'. scan rl_step b p r = scan rl_step b q r' \<and> rl_state r' \<in> uri_states \<and> same_line r r'"
  using assms
proof (induction "q - p" arbitrary: p r)
  case 0
  then show ?case by (auto simp: same_line_def)
next
  case (Suc n)
  have p: "p < length b" "b ! p \<notin> {0, CR, LF, 0x20}" using Suc by auto
  from uri_char_step [OF Suc(5) p(2)] obtain r1 where
    r1: "rl_step b p r = Go r1" "rl_state r1 \<in> uri_states" "same_line r r1" by blast
  have "\<exists>r'. scan rl_step b (Suc p) r1 = scan rl_step b q r' \<and> rl_state r' \<in> uri_states \<and> same_line r1 r'"
    using Suc r1(2) by (intro Suc(1)) auto
  with r1 scan_Go [of p b rl_step r r1] p(1) show ?case by (auto simp: same_line_def)
qed

lemma uri_space_step:
  assumes "rl_state r \<in> uri_states" and "b ! p = 0x20"
  shows "\<exists>st. rl_step b p r = Go (r\<lparr>uri_end := Some p, rl_state := st\<rparr>) \<and> st \<in> {sw_check_uri_http_09, sw_http_09}"
proof -
  have "\<not> usual 0x20" by (simp add: usual_def usual_table_def)
  then show ?thesis using assms
    by (auto simp: rl_step_def rl_after_slash_in_uri_def rl_check_uri_def rl_uri_def Let_def)
qed

lemma scan_protocol:
  assumes "rl_state r \<in> {sw_check_uri_http_09, sw_http_09}" and "is_dec_digit d"
    and "b = pre @ [0x48, 0x54, 0x54, 0x50, 0x2f, 0x31, 0x2e, d, CR, LF] @ b2"
  shows "scan rl_step b (length pre) r = (Some RL_DONE, length pre + 9,
    r\<lparr>http_protocol := Some (length pre), http_major := 1, http_minor := unat d - 0x30,
      request_end := Some (length pre + 8), rl_state := sw_almost_done\<rparr>)"
proof -
  let ?L = "length pre"
  define n where "n = ?L"
  have len: "n + 9 < length b" by (simp add: assms(3) n_def)
  have nth: "b ! (n + i) = ([0x48, 0x54, 0x54, 0x50, 0x2f, 0x31, 0x2e, d, CR, LF] @ b2) ! i" for i
    by (simp add: assms(3) n_def)
  note byte = nth [of 0, simplified] nth [of 1, simplified] nth [of 2, simplified] nth [of 3, simplified]
    nth [of 4, simplified] nth [of 5, simplified] nth [of 6, simplified] nth [of 7, simplified]
    nth [of 8, simplified] nth [of 9, simplified]
  have dig: "d \<noteq> CR" "d \<noteq> LF" "d \<noteq> 0x20" using assms(2) by (auto simp: is_dec_digit_def)
  have go: "scan rl_step b p x = scan rl_step b q x'"
    if "p < length b" "rl_step b p x = Go x'" "q = Suc p" for p q x x'
    using scan_Go [of p b rl_step x x', OF that(1,2)] that(3) by simp
  note defs = rl_step_def rl_step_defs Let_def
  have "scan rl_step b n r = scan rl_step b (n + 1) (r\<lparr>http_protocol := Some n, rl_state := sw_http_H\<rparr>)"
    using assms(1) len byte by (intro go) (auto simp: defs)
  also have "scan rl_step b (n + 1) (r\<lparr>http_protocol := Some n, rl_state := sw_http_H\<rparr>) = scan rl_step b (n + 2) (r\<lparr>http_protocol := Some n, rl_state := sw_http_HT\<rparr>)"
    using len byte assms(2) dig by (intro go) (simp_all add: defs)
  also have "scan rl_step b (n + 2) (r\<lparr>http_protocol := Some n, rl_state := sw_http_HT\<rparr>) = scan rl_step b (n + 3) (r\<lparr>http_protocol := Some n, rl_state := sw_http_HTT\<rparr>)"
    using len byte assms(2) dig by (intro go) (simp_all add: defs)
  also have "scan rl_step b (n + 3) (r\<lparr>http_protocol := Some n, rl_state := sw_http_HTT\<rparr>) = scan rl_step b (n + 4) (r\<lparr>http_protocol := Some n, rl_state := sw_http_HTTP\<rparr>)"
    using len byte assms(2) dig by (intro go) (simp_all add: defs)
  also have "scan rl_step b (n + 4) (r\<lparr>http_protocol := Some n, rl_state := sw_http_HTTP\<rparr>) = scan rl_step b (n + 5) (r\<lparr>http_protocol := Some n, rl_state := sw_first_major_digit\<rparr>)"
    using len byte assms(2) dig by (intro go) (simp_all add: defs)
  also have "scan rl_step b (n + 5) (r\<lparr>http_protocol := Some n, rl_state := sw_first_major_digit\<rparr>) = scan rl_step b (n + 6) (r\<lparr>http_protocol := Some n, http_major := 1, rl_state := sw_major_digit\<rparr>)"
    using len byte assms(2) dig by (intro go) (simp_all add: defs)
  also have "scan rl_step b (n + 6) (r\<lparr>http_protocol := Some n, http_major := 1, rl_state := sw_major_digit\<rparr>) = scan rl_step b (n + 7) (r\<lparr>http_protocol := Some n, http_major := 1, rl_state := sw_first_minor_digit\<rparr>)"
    using len byte assms(2) dig by (intro go) (simp_all add: defs)
  also have "scan rl_step b (n + 7) (r\<lparr>http_protocol := Some n, http_major := 1, rl_state := sw_first_minor_digit\<rparr>) = scan rl_step b (n + 8) (r\<lparr>http_protocol := Some n, http_major := 1, http_minor := unat d - 0x30, rl_state := sw_minor_digit\<rparr>)"
    using len byte assms(2) dig by (intro go) (simp_all add: defs)
  also have "scan rl_step b (n + 8) (r\<lparr>http_protocol := Some n, http_major := 1, http_minor := unat d - 0x30, rl_state := sw_minor_digit\<rparr>) = scan rl_step b (n + 9) (r\<lparr>http_protocol := Some n, http_major := 1, http_minor := unat d - 0x30, rl_state := sw_almost_done\<rparr>)"
    using len byte assms(2) dig by (intro go) (simp_all add: defs)
  also have "scan rl_step b (n + 9) (r\<lparr>http_protocol := Some n, http_major := 1, http_minor := unat d - 0x30, rl_state := sw_almost_done\<rparr>)
    = (Some RL_DONE, n + 9, r\<lparr>http_protocol := Some n, http_major := 1, http_minor := unat d - 0x30,
        request_end := Some (n + 8), rl_state := sw_almost_done\<rparr>)"
    using len byte by (intro scan_Stop) (simp_all add: defs)
  finally show ?thesis by (simp add: n_def)
qed

text \<open>
  C23. A request line in the form that clients send is accepted and its parts are found: for any
  method token, any URI in origin form (a slash and then no space, NUL, CR or LF), any version
  1.d with one digit d, with single spaces between the three and CR LF at the end, the method,
  the URI and the version the parser reports are the ones that were sent, and parsing stops
  right after the line. (A URI in absolute form, the URI of version 0.9, a bare LF, and the
  asterisk, which the code refuses, are outside of this property.)
\<close>

theorem request_line_accepts:
  assumes "m \<noteq> []" and "list_all is_method_char m" and "is_dec_digit d"
    and "list_all (\<lambda>c. c \<noteq> 0 \<and> c \<noteq> CR \<and> c \<noteq> LF \<and> c \<noteq> 0x20) u"
    and "line = m @ [0x20, 0x2f] @ u @ [0x20] @ str_bytes ''HTTP/1.'' @ [d, CR, LF]"
  shows "case ngx_http_parse_request_line (line @ b2) 0 request_init of (rc, q, r) \<Rightarrow>
    rc = RL_OK \<and> q = length line
    \<and> slice line (the (request_start r)) (the (method_end r) + 1) = m
    \<and> req_method r = method_of_name m
    \<and> slice line (the (uri_start r)) (the (uri_end r)) = 0x2f # u
    \<and> http_version r = 1000 + (unat d - 0x30)"
proof -
  define b where "b = line @ b2"
  let ?n = "length m" and ?k = "length u"
  define pre where "pre = m @ [0x20, 0x2f] @ u @ [0x20]"
  have b: "b = pre @ [0x48, 0x54, 0x54, 0x50, 0x2f, 0x31, 0x2e, d, CR, LF] @ b2"
    by (simp add: b_def assms(5) pre_def)
  have lpre: "length pre = ?n + ?k + 3" by (simp add: pre_def)
  have lb: "?n + ?k + 13 \<le> length b" unfolding b length_append lpre by simp
  have bm: "b ! i = m ! i" if "i < ?n" for i
    using that by (simp add: b_def assms(5) nth_append)
  have bn: "b ! ?n = 0x20" "b ! Suc ?n = 0x2f" by (simp_all add: b_def assms(5) nth_append)
  have bu: "b ! (?n + 2 + i) = u ! i" if "i < ?k" for i
    using that by (simp add: b_def assms(5) nth_append)
  have bs: "b ! (?n + 2 + ?k) = 0x20" by (simp add: b_def assms(5) nth_append)
  have n0: "0 < ?n" using assms(1) by simp
  have mc: "is_method_char (b ! i)" if "i < ?n" for i
    using assms(2) that by (simp add: bm list_all_length)
  have ncr: "b ! 0 \<noteq> CR" "b ! 0 \<noteq> LF" using mc [OF n0] by (auto simp: is_method_char_def)
  have nsp: "b ! i \<noteq> 0x20" if "i < ?n" for i using mc [OF that] by (auto simp: is_method_char_def)
  let ?r1 = "request_init\<lparr>request_start := Some 0, rl_state := sw_method\<rparr>"
  have "scan rl_step b 0 request_init = scan rl_step b (Suc 0) ?r1"
  proof (rule scan_Go)
    show "0 < length b" using lb by linarith
    show "rl_step b 0 request_init = Go ?r1"
      using mc [OF n0] ncr by (simp add: rl_step_def rl_start_def request_init_def)
  qed
  also have "\<dots> = scan rl_step b ?n ?r1"
    using n0 lb mc nsp by (intro scan_while) (auto simp: rl_step_def rl_method_def Suc_le_eq)
  also have "\<dots> = scan rl_step b (Suc ?n) (?r1\<lparr>method_end := Some (?n - 1),
      req_method := request_method b 0 ?n NGX_HTTP_UNKNOWN, rl_state := sw_spaces_before_uri\<rparr>)"
    (is "_ = scan rl_step b _ ?r2")
    using lb bn by (intro scan_Go) (simp_all add: rl_step_def rl_method_def request_init_def)
  also have "\<dots> = scan rl_step b (Suc (Suc ?n)) (?r2\<lparr>uri_start := Some (Suc ?n), rl_state := sw_after_slash_in_uri\<rparr>)"
    (is "_ = scan rl_step b _ ?r3")
    using lb bn by (intro scan_Go) (simp_all add: rl_step_def rl_spaces_before_uri_def)
  finally have s3: "scan rl_step b 0 request_init = scan rl_step b (?n + 2) ?r3" by simp
  have "b ! i \<notin> {0, CR, LF, 0x20}" if "?n + 2 \<le> i" "i < ?n + 2 + ?k" for i
  proof -
    obtain j where j: "i = ?n + 2 + j" "j < ?k" using \<open>?n + 2 \<le> i\<close> \<open>i < ?n + 2 + ?k\<close>
      by (metis le_Suc_ex nat_add_left_cancel_less)
    then show ?thesis using assms(4) bu [OF j(2)] by (simp add: list_all_length)
  qed
  from scan_uri_chars [where b = b and r = ?r3 and p = "?n + 2" and q = "?n + 2 + ?k", OF _ _ _ this] lb obtain r4 where
    r4: "scan rl_step b (?n + 2) ?r3 = scan rl_step b (?n + 2 + ?k) r4" "rl_state r4 \<in> uri_states"
      "same_line ?r3 r4" by auto
  from uri_space_step [OF r4(2) bs] obtain st where
    st: "rl_step b (?n + 2 + ?k) r4 = Go (r4\<lparr>uri_end := Some (?n + 2 + ?k), rl_state := st\<rparr>)"
      "st \<in> {sw_check_uri_http_09, sw_http_09}" by blast
  define r5 where "r5 = r4\<lparr>uri_end := Some (?n + 2 + ?k), rl_state := st\<rparr>"
  have "scan rl_step b (?n + 2 + ?k) r4 = scan rl_step b (length pre) r5"
    using scan_Go [of "?n + 2 + ?k" b rl_step r4 r5] st lb lpre by (simp add: r5_def add_ac numeral_3_eq_3)
  with s3 r4(1) have s5: "scan rl_step b 0 request_init = scan rl_step b (length pre) r5" by simp
  have "rl_state r5 \<in> {sw_check_uri_http_09, sw_http_09}" using st(2) by (simp add: r5_def)
  from scan_protocol [OF this assms(3) b] s5
  have sc: "scan rl_step b 0 request_init = (Some RL_DONE, length pre + 9,
    r5\<lparr>http_protocol := Some (length pre), http_major := 1, http_minor := unat d - 0x30,
      request_end := Some (length pre + 8), rl_state := sw_almost_done\<rparr>)" by simp
  have line: "slice b 0 ?n = m" "slice line 0 ?n = m" "slice line (Suc ?n) (?n + 2 + ?k) = 0x2f # u"
    by (simp_all add: b_def assms(5) slice_def)
  have meth: "request_method b 0 ?n NGX_HTTP_UNKNOWN = method_of_name m"
    using request_method_name [of 0 ?n b] lb bn line by simp
  have flds: "request_start r5 = Some 0" "method_end r5 = Some (?n - 1)" "req_method r5 = method_of_name m"
      "uri_start r5 = Some (Suc ?n)" "uri_end r5 = Some (?n + 2 + ?k)"
    using r4(3) meth by (simp_all add: r5_def same_line_def)
  have ll: "length line = length pre + 10" by (simp add: assms(5) pre_def)
  show ?thesis
    unfolding b_def [symmetric] ngx_http_parse_request_line_def sc
    using flds line n0 ll by simp
qed

section \<open>Witnesses\<close>

lemma usual_slash: "\<not> usual 0x2f" "\<not> usual 0x0a" "\<not> usual 0x20"
  by (simp_all add: usual_def usual_table_def)

definition sample_line :: bytes where
  "sample_line = [0x47, 0x45, 0x54, 0x20, 0x2f, LF]"

definition sample_request :: http_request where
  "sample_request = request_init\<lparr>request_start := Some 0, method_end := Some 2, req_method := NGX_HTTP_GET,
     uri_start := Some 4, uri_end := Some 5, http_minor := 9, http_version := 9, request_end := Some 5\<rparr>"

lemma sample_parse: "ngx_http_parse_request_line sample_line 0 request_init = (RL_OK, 6, sample_request)"
  by (simp add: ngx_http_parse_request_line_def scan.simps rl_step_def rl_start_def rl_method_def
    rl_spaces_before_uri_def rl_after_slash_in_uri_def is_method_char_def request_method_def mem_is_def
    sample_line_def sample_request_def request_init_def usual_slash Let_def numeral_2_eq_2 [symmetric])

theorem request_line_safe_witness:
  "list_all (\<lambda>c. c \<noteq> 0 \<and> c \<noteq> CR \<and> c \<noteq> LF) (slice sample_line 4 5) \<and> req_method sample_request = NGX_HTTP_GET"
  using request_line_safe [OF sample_parse] by (simp add: sample_request_def)

lemma sample_parse_part:
  "ngx_http_parse_request_line (take 2 sample_line) 0 request_init =
     (RL_AGAIN, 2, request_init\<lparr>request_start := Some 0, rl_state := sw_method\<rparr>)"
  by (simp add: ngx_http_parse_request_line_def scan.simps rl_step_def rl_start_def rl_method_def
    is_method_char_def sample_line_def request_init_def Let_def numeral_2_eq_2 [symmetric])

theorem request_line_resume_witness:
  "fst (ngx_http_parse_request_line sample_line 2 (request_init\<lparr>request_start := Some 0, rl_state := sw_method\<rparr>)) = RL_OK"
  using request_line_resume [OF sample_parse_part, of "drop 2 sample_line"] sample_parse
  by (auto split: prod.splits)

theorem request_line_accepts_witness:
  "slice (str_bytes ''GET / HTTP/1.1'' @ [CR, LF])
     (the (uri_start (snd (snd (ngx_http_parse_request_line (str_bytes ''GET / HTTP/1.1'' @ [CR, LF]) 0 request_init)))))
     (the (uri_end (snd (snd (ngx_http_parse_request_line (str_bytes ''GET / HTTP/1.1'' @ [CR, LF]) 0 request_init))))) = [0x2f]"
proof -
  have "str_bytes ''GET / HTTP/1.1'' @ [CR, LF] =
      str_bytes ''GET'' @ [0x20, 0x2f] @ [] @ [0x20] @ str_bytes ''HTTP/1.'' @ [0x31, CR, LF]" by simp
  from request_line_accepts [OF _ _ _ _ this, of "[]"] show ?thesis
    by (simp add: is_method_char_def is_dec_digit_def split: prod.splits)
qed


end
