(* ===== verification/Http_Header_Line.thy ===== *)
theory Http_Header_Line
  imports Http_Scan
begin

text \<open>
  \<open>ngx_http_parse_header_line\<close> of \<open>http/ngx_http_parse.c\<close>, one definition per state of its
  switch, and what \<open>ngx_http_process_request_headers\<close> takes from a parsed line. The locals
  \<open>hash\<close> and \<open>i\<close> live in the fields they are loaded from and stored to; a call that fails or
  ends the header does not store them. A pointer is a position in the received bytes.
\<close>

section \<open>State\<close>

datatype hl_state =
    hl_start | hl_name | hl_space_before_value | hl_value | hl_space_after_value
  | hl_ignore_line | hl_almost_done | hl_header_almost_done

record header_line =
  hl_state :: hl_state
  header_hash :: u64
  lowcase_index :: nat
  lowcase_header :: bytes
  invalid_header :: bool
  header_name_start :: nat
  header_name_end :: nat
  header_start :: nat
  header_end :: nat

datatype hl_result = HL_DONE | HL_HEADER_DONE | NGX_HTTP_PARSE_INVALID_HEADER

type_synonym hl_step = "(header_line, hl_result) scan_step"

definition NGX_HTTP_LC_HEADER_LEN :: nat where "NGX_HTTP_LC_HEADER_LEN = 32"

definition ngx_hash :: "u64 \<Rightarrow> u_char \<Rightarrow> u64" where
  "ngx_hash key c = key * 31 + ucast c"

text \<open>The table that folds a byte of a name to lower case, 0 for a byte that a name must not have.\<close>

definition lowcase_table :: bytes where
  "lowcase_table =
     replicate 32 0
     @ replicate 13 0 @ str_bytes ''-'' @ replicate 2 0 @ str_bytes ''0123456789'' @ replicate 6 0
     @ replicate 1 0 @ str_bytes ''abcdefghijklmnopqrstuvwxyz'' @ replicate 5 0
     @ replicate 1 0 @ str_bytes ''abcdefghijklmnopqrstuvwxyz'' @ replicate 5 0
     @ replicate 32 0 @ replicate 32 0 @ replicate 32 0 @ replicate 32 0"

definition lowcase :: "u_char \<Rightarrow> u_char" where
  "lowcase ch = lowcase_table ! unat ch"

section \<open>The states of the switch\<close>

definition first_name_char :: "u_char \<Rightarrow> header_line \<Rightarrow> header_line" where
  "first_name_char c r =
     r\<lparr>header_hash := ngx_hash 0 c, lowcase_header := (lowcase_header r)[0 := c], lowcase_index := 1\<rparr>"

definition next_name_char :: "u_char \<Rightarrow> header_line \<Rightarrow> header_line" where
  "next_name_char c r =
     r\<lparr>header_hash := ngx_hash (header_hash r) c,
       lowcase_header := (lowcase_header r)[lowcase_index r := c],
       lowcase_index := (lowcase_index r + 1) AND (NGX_HTTP_LC_HEADER_LEN - 1)\<rparr>"

definition hl_start_step :: "bool \<Rightarrow> nat \<Rightarrow> u_char \<Rightarrow> header_line \<Rightarrow> hl_step" where
  "hl_start_step allow_underscores p ch r0 =
     (let r = r0\<lparr>header_name_start := p, invalid_header := False\<rparr> in
      if ch = CR then Go (r\<lparr>header_end := p, hl_state := hl_header_almost_done\<rparr>)
      else if ch = LF then Stop HL_HEADER_DONE (r\<lparr>header_end := p\<rparr>)
      else
        let r = r\<lparr>hl_state := hl_name\<rparr>; c = lowcase ch in
        if c \<noteq> 0 then Go (first_name_char c r)
        else if ch = 0x5f then
          (if allow_underscores then Go (first_name_char ch r) else Go (r\<lparr>invalid_header := True\<rparr>))
        else if ch = 0 then Stop NGX_HTTP_PARSE_INVALID_HEADER r
        else Go (r\<lparr>invalid_header := True\<rparr>))"

definition hl_name_step :: "bool \<Rightarrow> bool \<Rightarrow> bytes \<Rightarrow> nat \<Rightarrow> u_char \<Rightarrow> header_line \<Rightarrow> hl_step" where
  "hl_name_step allow_underscores upstream b p ch r =
     (let c = lowcase ch in
      if c \<noteq> 0 then Go (next_name_char c r)
      else if ch = 0x5f then
        (if allow_underscores then Go (next_name_char ch r) else Go (r\<lparr>invalid_header := True\<rparr>))
      else if ch = 0x3a then Go (r\<lparr>header_name_end := p, hl_state := hl_space_before_value\<rparr>)
      else if ch = CR then
        Go (r\<lparr>header_name_end := p, header_start := p, header_end := p, hl_state := hl_almost_done\<rparr>)
      else if ch = LF then
        Stop HL_DONE (r\<lparr>header_name_end := p, header_start := p, header_end := p\<rparr>)
      else if ch = 0x2f \<and> upstream \<and> p - header_name_start r = 4
          \<and> take 4 (drop (header_name_start r) b) = str_bytes ''HTTP''
        then Go (r\<lparr>hl_state := hl_ignore_line\<rparr>)
      else if ch = 0 then Stop NGX_HTTP_PARSE_INVALID_HEADER r
      else Go (r\<lparr>invalid_header := True\<rparr>))"

definition hl_space_before_value_step :: "nat \<Rightarrow> u_char \<Rightarrow> header_line \<Rightarrow> hl_step" where
  "hl_space_before_value_step p ch r =
     (if ch = 0x20 then Go r
      else if ch = CR then Go (r\<lparr>header_start := p, header_end := p, hl_state := hl_almost_done\<rparr>)
      else if ch = LF then Stop HL_DONE (r\<lparr>header_start := p, header_end := p\<rparr>)
      else if ch = 0 then Stop NGX_HTTP_PARSE_INVALID_HEADER r
      else Go (r\<lparr>header_start := p, hl_state := hl_value\<rparr>))"

definition hl_value_step :: "nat \<Rightarrow> u_char \<Rightarrow> header_line \<Rightarrow> hl_step" where
  "hl_value_step p ch r =
     (if ch = 0x20 then Go (r\<lparr>header_end := p, hl_state := hl_space_after_value\<rparr>)
      else if ch = CR then Go (r\<lparr>header_end := p, hl_state := hl_almost_done\<rparr>)
      else if ch = LF then Stop HL_DONE (r\<lparr>header_end := p\<rparr>)
      else if ch = 0 then Stop NGX_HTTP_PARSE_INVALID_HEADER r
      else Go r)"

definition hl_space_after_value_step :: "u_char \<Rightarrow> header_line \<Rightarrow> hl_step" where
  "hl_space_after_value_step ch r =
     (if ch = 0x20 then Go r
      else if ch = CR then Go (r\<lparr>hl_state := hl_almost_done\<rparr>)
      else if ch = LF then Stop HL_DONE r
      else if ch = 0 then Stop NGX_HTTP_PARSE_INVALID_HEADER r
      else Go (r\<lparr>hl_state := hl_value\<rparr>))"

definition hl_ignore_line_step :: "u_char \<Rightarrow> header_line \<Rightarrow> hl_step" where
  "hl_ignore_line_step ch r = (if ch = LF then Go (r\<lparr>hl_state := hl_start\<rparr>) else Go r)"

definition hl_almost_done_step :: "u_char \<Rightarrow> header_line \<Rightarrow> hl_step" where
  "hl_almost_done_step ch r =
     (if ch = LF then Stop HL_DONE r else if ch = CR then Go r
      else Stop NGX_HTTP_PARSE_INVALID_HEADER r)"

definition hl_header_almost_done_step :: "u_char \<Rightarrow> header_line \<Rightarrow> hl_step" where
  "hl_header_almost_done_step ch r =
     (if ch = LF then Stop HL_HEADER_DONE r else Stop NGX_HTTP_PARSE_INVALID_HEADER r)"

definition hl_step :: "bool \<Rightarrow> bool \<Rightarrow> bytes \<Rightarrow> nat \<Rightarrow> header_line \<Rightarrow> hl_step" where
  "hl_step allow_underscores upstream b p r =
     (let ch = b ! p in
      case hl_state r of
        hl_start \<Rightarrow> hl_start_step allow_underscores p ch r
      | hl_name \<Rightarrow> hl_name_step allow_underscores upstream b p ch r
      | hl_space_before_value \<Rightarrow> hl_space_before_value_step p ch r
      | hl_value \<Rightarrow> hl_value_step p ch r
      | hl_space_after_value \<Rightarrow> hl_space_after_value_step ch r
      | hl_ignore_line \<Rightarrow> hl_ignore_line_step ch r
      | hl_almost_done \<Rightarrow> hl_almost_done_step ch r
      | hl_header_almost_done \<Rightarrow> hl_header_almost_done_step ch r)"

text \<open>
  The code, the position the buffer is left at, and the request. The calls that do not store
  the locals, and those that fail, which do not store the state either, keep the old values.
\<close>

datatype hl_code = HL_OK | HL_AGAIN | HL_PARSE_HEADER_DONE | HL_PARSE_INVALID_HEADER

definition ngx_http_parse_header_line ::
    "bool \<Rightarrow> bool \<Rightarrow> bytes \<Rightarrow> nat \<Rightarrow> header_line \<Rightarrow> hl_code \<times> nat \<times> header_line" where
  "ngx_http_parse_header_line allow_underscores upstream b pos r =
     (case scan (hl_step allow_underscores upstream) b pos r of
        (None, p, r') \<Rightarrow> (HL_AGAIN, p, r')
      | (Some HL_DONE, p, r') \<Rightarrow> (HL_OK, p + 1, r'\<lparr>hl_state := hl_start\<rparr>)
      | (Some HL_HEADER_DONE, p, r') \<Rightarrow>
          (HL_PARSE_HEADER_DONE, p + 1,
           r'\<lparr>hl_state := hl_start, header_hash := header_hash r, lowcase_index := lowcase_index r\<rparr>)
      | (Some NGX_HTTP_PARSE_INVALID_HEADER, p, r') \<Rightarrow>
          (HL_PARSE_INVALID_HEADER, pos,
           r'\<lparr>hl_state := hl_state r, header_hash := header_hash r, lowcase_index := lowcase_index r\<rparr>))"

section \<open>The parsed header\<close>

record table_elt =
  elt_hash :: u64
  elt_key :: bytes
  elt_value :: bytes
  elt_lowcase_key :: bytes

definition ngx_tolower :: "u_char \<Rightarrow> u_char" where
  "ngx_tolower c = (if c \<ge> 0x41 \<and> c \<le> 0x5a then c OR 0x20 else c)"

definition request_header :: "bytes \<Rightarrow> header_line \<Rightarrow> table_elt" where
  "request_header b r =
     (let key = slice b (header_name_start r) (header_name_end r) in
      \<lparr>elt_hash = header_hash r, elt_key = key,
       elt_value = slice b (header_start r) (header_end r),
       elt_lowcase_key =
         (if length key = lowcase_index r then take (length key) (lowcase_header r)
          else map ngx_tolower key)\<rparr>)"


section \<open>The loop\<close>

lemma hl_step_append:
  "p < length b \<Longrightarrow> header_name_start r + 4 \<le> p \<or> \<not> (hl_state r = hl_name \<and> p - header_name_start r = 4) \<Longrightarrow>
   hl_step us up (b @ rest) p r = hl_step us up b p r"
  by (auto simp: hl_step_def hl_name_step_def nth_append Let_def split: hl_state.splits)

lemma hl_step_append_all:
  assumes "p < length b"
  shows "hl_step us up (b @ rest) p r = hl_step us up b p r"
proof (rule hl_step_append [OF assms])
  show "header_name_start r + 4 \<le> p \<or> \<not> (hl_state r = hl_name \<and> p - header_name_start r = 4)" by arith
qed

interpretation hl: byte_scanner "hl_step us up" for us up
  by unfold_locales (rule hl_step_append_all)

section \<open>Lower case\<close>

lemma lowcase_eq:
  "lowcase c = (if c \<ge> 0x41 \<and> c \<le> 0x5a then c + 0x20
     else if (c \<ge> 0x61 \<and> c \<le> 0x7a) \<or> (c \<ge> 0x30 \<and> c \<le> 0x39) \<or> c = 0x2d then c else 0)"
proof -
  have "lowcase_table = map (\<lambda>c. if c \<ge> 0x41 \<and> c \<le> 0x5a then c + 0x20
     else if (c \<ge> 0x61 \<and> c \<le> 0x7a) \<or> (c \<ge> 0x30 \<and> c \<le> 0x39) \<or> c = 0x2d then c else 0) all_bytes"
    by (simp add: all_bytes_code lowcase_table_def word_le_nat_alt replicate_numeral)
  then show ?thesis unfolding lowcase_def by (rule table_nth)
qed

text \<open>The bytes of a name that is not marked invalid.\<close>

definition name_byte :: "bool \<Rightarrow> u_char \<Rightarrow> bool" where
  "name_byte us c \<longleftrightarrow> lowcase c \<noteq> 0 \<or> (us \<and> c = 0x5f)"

lemma lowcase_tolower: "lowcase c \<noteq> 0 \<Longrightarrow> lowcase c = ngx_tolower c"
proof -
  have "list_all (\<lambda>c. c \<ge> 0x41 \<and> c \<le> 0x5a \<longrightarrow> c OR 0x20 = c + 0x20) all_bytes"
    by (simp add: all_bytes_code word_le_nat_alt)
  then have "c \<ge> 0x41 \<and> c \<le> 0x5a \<longrightarrow> c OR 0x20 = c + 0x20" by (rule all_byteI)
  then show "lowcase c \<noteq> 0 \<Longrightarrow> ?thesis" by (auto simp: lowcase_eq ngx_tolower_def)
qed

lemma lowcase_special [simp]: "lowcase LF = 0" "lowcase CR = 0" "lowcase 0 = 0" "lowcase 0x3a = 0" "lowcase 0x20 = 0"
    "lowcase 0x5f = 0" "lowcase 0x2f = 0"
  by (simp_all add: lowcase_eq)

lemma tolower_underscore [simp]: "ngx_tolower 0x5f = 0x5f"
  by (simp add: ngx_tolower_def)


section \<open>The invariant\<close>

text \<open>No byte that ends a line or a C string.\<close>

definition clean_byte :: "u_char \<Rightarrow> bool" where
  "clean_byte c \<longleftrightarrow> c \<noteq> 0 \<and> c \<noteq> CR \<and> c \<noteq> LF"

text \<open>What is known of the name \<open>w\<close>: the saved hash and lower case are its own unless it is marked invalid.\<close>

definition name_ok :: "bool \<Rightarrow> bytes \<Rightarrow> header_line \<Rightarrow> bool" where
  "name_ok us w r \<longleftrightarrow> w \<noteq> [] \<and> list_all clean_byte w \<and>
     (\<not> invalid_header r \<longrightarrow> list_all (name_byte us) w
        \<and> header_hash r = foldl ngx_hash 0 (map ngx_tolower w)
        \<and> lowcase_index r = length w mod 32
        \<and> (length w \<le> 32 \<longrightarrow> take (length w) (lowcase_header r) = map ngx_tolower w))"

definition saved_ok :: "header_line \<Rightarrow> bool" where
  "saved_ok r \<longleftrightarrow> length (lowcase_header r) = 32 \<and> lowcase_index r < 32"

definition named :: "bool \<Rightarrow> bytes \<Rightarrow> nat \<Rightarrow> header_line \<Rightarrow> bool" where
  "named us b p r \<longleftrightarrow> header_name_start r < header_name_end r \<and> header_name_end r \<le> p
     \<and> name_ok us (slice b (header_name_start r) (header_name_end r)) r"

definition valued :: "bytes \<Rightarrow> nat \<Rightarrow> header_line \<Rightarrow> bool" where
  "valued b p r \<longleftrightarrow> header_name_end r \<le> header_start r \<and> header_start r \<le> header_end r \<and> header_end r \<le> p
     \<and> list_all clean_byte (slice b (header_start r) (header_end r))"

definition hl_inv :: "bool \<Rightarrow> bytes \<Rightarrow> nat \<Rightarrow> header_line \<Rightarrow> bool" where
  "hl_inv us b p r \<longleftrightarrow> saved_ok r \<and>
     (case hl_state r of
        hl_name \<Rightarrow> header_name_start r < p \<and> name_ok us (slice b (header_name_start r) p) r
      | hl_space_before_value \<Rightarrow> named us b p r
      | hl_value \<Rightarrow> named us b p r \<and> header_name_end r \<le> header_start r \<and> header_start r < p
          \<and> list_all clean_byte (slice b (header_start r) p)
      | hl_space_after_value \<Rightarrow> named us b p r \<and> valued b p r \<and> list_all clean_byte (slice b (header_start r) p)
      | hl_almost_done \<Rightarrow> named us b p r \<and> valued b p r
      | _ \<Rightarrow> True)"

definition hl_done :: "bool \<Rightarrow> bytes \<Rightarrow> nat \<Rightarrow> header_line \<Rightarrow> bool" where
  "hl_done us b p r \<longleftrightarrow> saved_ok r \<and> named us b p r \<and> valued b p r"

lemma slice_same [simp]: "slice b i i = []"
  by (simp add: slice_def)

lemma slice_one: "i < length b \<Longrightarrow> slice b i (Suc i) = [b ! i]"
  by (simp add: slice_Suc)

lemma and_31: "n AND (NGX_HTTP_LC_HEADER_LEN - Suc 0) = n mod 32" for n :: nat
proof -
  have "NGX_HTTP_LC_HEADER_LEN - Suc 0 = mask 5" by (simp add: NGX_HTTP_LC_HEADER_LEN_def mask_eq_exp_minus_1)
  then show ?thesis by (simp only: take_bit_eq_mask [symmetric] take_bit_eq_mod) simp
qed

lemma saved_first: "saved_ok r \<Longrightarrow> saved_ok (first_name_char c r)"
  by (simp add: saved_ok_def first_name_char_def)

lemma saved_next: "saved_ok r \<Longrightarrow> saved_ok (next_name_char c r)"
  by (simp add: saved_ok_def next_name_char_def and_31)

lemma name_first:
  assumes "saved_ok r" and "\<not> invalid_header r" and "name_byte us ch" and "c = ngx_tolower ch" and "clean_byte ch"
  shows "name_ok us [ch] (first_name_char c r)"
proof -
  obtain x xs where "lowcase_header r = x # xs" using assms(1) by (cases "lowcase_header r") (auto simp: saved_ok_def)
  then show ?thesis using assms by (simp add: name_ok_def first_name_char_def)
qed

lemma name_next:
  assumes s: "saved_ok r" and n: "name_ok us w r" and b: "name_byte us ch" and c: "c = ngx_tolower ch" and ok: "clean_byte ch"
  shows "name_ok us (w @ [ch]) (next_name_char c r)"
proof (cases "invalid_header r")
  case True
  then show ?thesis using n ok by (simp add: name_ok_def next_name_char_def)
next
  case False
  have i: "lowcase_index r = length w mod 32" using n False by (simp add: name_ok_def)
  have "take (Suc (length w)) ((lowcase_header r)[lowcase_index r := c]) = map ngx_tolower w @ [c]" if "length w < 32"
    using that n False s i by (simp add: name_ok_def saved_ok_def take_Suc_conv_app_nth)
  then show ?thesis using n False b c ok i
    by (auto simp: name_ok_def next_name_char_def and_31 mod_Suc_eq)
qed

lemma name_invalid: "name_ok us w r \<or> w = [] \<Longrightarrow> clean_byte ch \<Longrightarrow> name_ok us (w @ [ch]) (r\<lparr>invalid_header := True\<rparr>)"
  by (auto simp: name_ok_def)

lemma name_char: "lowcase ch \<noteq> 0 \<Longrightarrow> name_byte us ch \<and> lowcase ch = ngx_tolower ch \<and> clean_byte ch"
  using lowcase_tolower [of ch] by (auto simp: name_byte_def clean_byte_def)

lemma name_ok_update [simp]:
  "name_ok us w (r\<lparr>hl_state := st\<rparr>) = name_ok us w r" "name_ok us w (r\<lparr>header_name_start := i\<rparr>) = name_ok us w r"
  "name_ok us w (r\<lparr>header_name_end := i\<rparr>) = name_ok us w r" "name_ok us w (r\<lparr>header_start := i\<rparr>) = name_ok us w r"
  "name_ok us w (r\<lparr>header_end := i\<rparr>) = name_ok us w r"
  by (simp_all add: name_ok_def)

lemma saved_ok_update [simp]:
  "saved_ok (r\<lparr>hl_state := st\<rparr>) = saved_ok r" "saved_ok (r\<lparr>header_name_start := i\<rparr>) = saved_ok r"
  "saved_ok (r\<lparr>header_name_end := i\<rparr>) = saved_ok r" "saved_ok (r\<lparr>header_start := i\<rparr>) = saved_ok r"
  "saved_ok (r\<lparr>header_end := i\<rparr>) = saved_ok r" "saved_ok (r\<lparr>invalid_header := x\<rparr>) = saved_ok r"
  by (simp_all add: saved_ok_def)

lemmas hl_steps = hl_start_step_def hl_name_step_def hl_space_before_value_step_def hl_value_step_def
  hl_space_after_value_step_def hl_ignore_line_step_def hl_almost_done_step_def hl_header_almost_done_step_def

lemma named_mono: "named us b p r \<Longrightarrow> p \<le> q \<Longrightarrow> named us b q r"
  by (simp add: named_def)

lemma valued_mono: "valued b p r \<Longrightarrow> p \<le> q \<Longrightarrow> valued b q r"
  by (simp add: valued_def)

lemma hl_inv_Go:
  assumes p: "p < length b" and I: "hl_inv us b p r" and go: "hl_step us up b p r = Go r'"
  shows "hl_inv us b (Suc p) r'"
proof (cases "hl_state r")
  case hl_start
  let ?r = "r\<lparr>header_name_start := p, invalid_header := False, hl_state := hl_name\<rparr>"
  have sv: "saved_ok ?r" using I by (simp add: hl_inv_def)
  have first: "hl_inv us b (Suc p) (first_name_char c ?r)"
    if "name_byte us (b ! p)" "c = ngx_tolower (b ! p)" "clean_byte (b ! p)" for c
    using name_first [OF sv _ that] saved_first [OF sv, of c] p
    by (simp add: hl_inv_def first_name_char_def slice_one)
  have bad: "hl_inv us b (Suc p) (?r\<lparr>invalid_header := True\<rparr>)" if "clean_byte (b ! p)"
    using name_invalid [of us "[]" ?r, OF _ that] sv p by (simp add: hl_inv_def slice_one)
  have L: "lowcase (b ! p) \<noteq> 0 \<Longrightarrow> hl_inv us b (Suc p) (first_name_char (lowcase (b ! p)) ?r)"
    using name_char [of "b ! p"] first by blast
  have U: "b ! p = 0x5f \<Longrightarrow> us \<Longrightarrow> hl_inv us b (Suc p) (first_name_char 0x5f ?r)"
    by (rule first) (simp_all add: name_byte_def clean_byte_def)
  have C: "hl_inv us b (Suc p) (r\<lparr>header_name_start := p, invalid_header := False, header_end := p,
      hl_state := hl_header_almost_done\<rparr>)"
    using I by (simp add: hl_inv_def)
  have go': "hl_start_step us p (b ! p) r = Go r'" using go hl_start by (simp add: hl_step_def Let_def)
  consider (cr) "b ! p = CR" | (letter) "b ! p \<noteq> CR" "b ! p \<noteq> LF" "lowcase (b ! p) \<noteq> 0"
    | (under) "b ! p = 0x5f" "us" | (bad) "b ! p \<noteq> CR" "b ! p \<noteq> LF" "lowcase (b ! p) = 0" "b ! p \<noteq> 0" "b ! p = 0x5f \<longrightarrow> \<not> us"
    using go' by (auto simp: hl_start_step_def Let_def split: if_splits)
  then show ?thesis
  proof cases
    case cr
    then show ?thesis using go' C by (simp add: hl_start_step_def Let_def)
  next
    case letter
    then have "r' = first_name_char (lowcase (b ! p)) ?r" using go' by (simp add: hl_start_step_def Let_def)
    then show ?thesis using L letter by simp
  next
    case under
    then have "r' = first_name_char 0x5f ?r" using go' by (simp add: hl_start_step_def Let_def)
    then show ?thesis using U under by simp
  next
    case bad': bad
    then have "r' = ?r\<lparr>invalid_header := True\<rparr>" using go' by (auto simp: hl_start_step_def Let_def split: if_splits)
    then show ?thesis using bad bad' by (simp add: clean_byte_def)
  qed
next
  case hl_name
  have lt: "header_name_start r < p" and n: "name_ok us (slice b (header_name_start r) p) r" and sv: "saved_ok r"
    using I hl_name by (auto simp: hl_inv_def)
  have sl: "slice b (header_name_start r) (Suc p) = slice b (header_name_start r) p @ [b ! p]"
    using lt p by (simp add: slice_Suc)
  have char: "hl_inv us b (Suc p) (next_name_char c r)"
    if "name_byte us (b ! p)" "c = ngx_tolower (b ! p)" "clean_byte (b ! p)" for c
    using name_next [OF sv n that] saved_next [OF sv, of c] lt hl_name sl
    by (simp add: hl_inv_def next_name_char_def)
  have bad: "hl_inv us b (Suc p) (r\<lparr>invalid_header := True\<rparr>)" if "clean_byte (b ! p)"
    using name_invalid [OF disjI1 [OF n] that] sv lt hl_name sl by (simp add: hl_inv_def)
  have L: "lowcase (b ! p) \<noteq> 0 \<Longrightarrow> hl_inv us b (Suc p) (next_name_char (lowcase (b ! p)) r)"
    using name_char [of "b ! p"] char by blast
  have U: "b ! p = 0x5f \<Longrightarrow> us \<Longrightarrow> hl_inv us b (Suc p) (next_name_char 0x5f r)"
    by (rule char) (simp_all add: name_byte_def clean_byte_def)
  have go': "hl_name_step us up b p (b ! p) r = Go r'" using go hl_name by (simp add: hl_step_def Let_def)
  consider (letter) "lowcase (b ! p) \<noteq> 0" | (under) "b ! p = 0x5f" us
    | (colon) "b ! p = 0x3a" | (cr) "b ! p = CR" | (ignore) "r' = r\<lparr>hl_state := hl_ignore_line\<rparr>"
    | (bad) "clean_byte (b ! p)" "r' = r\<lparr>invalid_header := True\<rparr>"
    using go' by (auto simp: hl_name_step_def Let_def clean_byte_def split: if_splits)
  then show ?thesis
  proof cases
    case letter
    then have "r' = next_name_char (lowcase (b ! p)) r" using go' by (simp add: hl_name_step_def Let_def)
    then show ?thesis using L letter by simp
  next
    case under
    then have "r' = next_name_char 0x5f r" using go' by (simp add: hl_name_step_def Let_def)
    then show ?thesis using U under by simp
  next
    case colon
    then show ?thesis using go' lt n sv by (auto simp: hl_name_step_def Let_def hl_inv_def named_def)
  next
    case cr
    then show ?thesis using go' lt n sv by (auto simp: hl_name_step_def Let_def hl_inv_def named_def valued_def)
  next
    case ignore
    then show ?thesis using sv by (simp add: hl_inv_def)
  next
    case bad': bad
    then show ?thesis using bad by simp
  qed
next
  case hl_space_before_value
  then show ?thesis using I go p
    by (auto simp: hl_inv_def hl_step_def Let_def hl_space_before_value_step_def slice_one clean_byte_def
        named_def valued_def split: if_splits)
next
  case hl_value
  then show ?thesis using I go p
    by (auto simp: hl_inv_def hl_step_def Let_def hl_value_step_def slice_Suc clean_byte_def
        named_def valued_def split: if_splits)
next
  case hl_space_after_value
  then show ?thesis using I go p
    by (auto simp: hl_inv_def hl_step_def Let_def hl_space_after_value_step_def slice_Suc clean_byte_def
        named_def valued_def split: if_splits)
next
  case hl_ignore_line
  then show ?thesis using I go by (auto simp: hl_inv_def hl_step_def Let_def hl_ignore_line_step_def saved_ok_def split: if_splits)
next
  case hl_almost_done
  then show ?thesis using I go
    by (auto simp: hl_inv_def hl_step_def Let_def hl_almost_done_step_def split: if_splits intro: named_mono valued_mono)
next
  case hl_header_almost_done
  then show ?thesis using I go by (auto simp: hl_step_def Let_def hl_header_almost_done_step_def split: if_splits)
qed

lemma hl_inv_Stop:
  assumes p: "p < length b" and I: "hl_inv us b p r" and stop: "hl_step us up b p r = Stop HL_DONE r'"
  shows "hl_done us b p r'"
  using assms
  by (cases "hl_state r")
    (auto simp: hl_inv_def hl_done_def hl_step_def Let_def hl_steps clean_byte_def named_def valued_def split: if_splits)

lemma hl_parse_done:
  assumes ok: "ngx_http_parse_header_line us up b pos r = (HL_OK, q, r')" and "hl_state r = hl_start"
    and "saved_ok r" and "pos \<le> length b"
  shows "pos < q \<and> q \<le> length b \<and> hl_state r' = hl_start \<and> hl_done us b (q - 1) r'"
proof -
  obtain p r1 where s: "scan (hl_step us up) b pos r = (Some HL_DONE, p, r1)"
    and q: "q = p + 1" and r': "r' = r1\<lparr>hl_state := hl_start\<rparr>"
    using ok by (auto simp: ngx_http_parse_header_line_def split: prod.splits option.splits hl_result.splits)
  have "hl_inv us b pos r" using assms(2,3) by (simp add: hl_inv_def)
  from scan_invariant [where I = "hl_inv us b", OF s this assms(4)] hl_inv_Go [where us = us and up = up]
  have "pos \<le> p \<and> p < length b \<and> (\<exists>r2. hl_inv us b p r2 \<and> hl_step us up b p r2 = Stop HL_DONE r1)" by simp
  then have "hl_done us b p r1" "pos \<le> p" "p < length b" using hl_inv_Stop by blast+
  then show ?thesis using q r' by (simp add: hl_done_def named_def valued_def)
qed


section \<open>Reading a line\<close>

lemma hl_parse_scan:
  "scan (hl_step us up) b p r = (Some HL_DONE, q, r') \<Longrightarrow>
   ngx_http_parse_header_line us up b p r = (HL_OK, q + 1, r'\<lparr>hl_state := hl_start\<rparr>)"
  by (simp add: ngx_http_parse_header_line_def)

text \<open>The bytes of a name keep the parser in the name and leave the pointers alone.\<close>

lemma scan_name:
  assumes "p + length w \<le> length b" and "slice b p (p + length w) = w" and "list_all (\<lambda>c. lowcase c \<noteq> 0) w"
    and "hl_state r = hl_name"
  shows "\<exists>h i l. scan (hl_step us up) b p r
    = scan (hl_step us up) b (p + length w) (r\<lparr>header_hash := h, lowcase_index := i, lowcase_header := l\<rparr>)"
  using assms
proof (induction w arbitrary: p r)
  case Nil
  have "scan (hl_step us up) b p r = scan (hl_step us up) b (p + length [])
      (r\<lparr>header_hash := header_hash r, lowcase_index := lowcase_index r, lowcase_header := lowcase_header r\<rparr>)" by simp
  then show ?case by blast
next
  case (Cons c w)
  have p: "p < length b" using Cons.prems(1) by simp
  have c: "b ! p = c" and w: "slice b (Suc p) (Suc p + length w) = w"
    using Cons.prems(1,2) by (auto simp: slice_def take_Suc drop_Suc Cons_nth_drop_Suc [symmetric, OF p])
  have "hl_step us up b p r = Go (next_name_char (lowcase c) r)"
    using Cons.prems(3,4) c by (simp add: hl_step_def hl_name_step_def Let_def)
  then have s: "scan (hl_step us up) b p r = scan (hl_step us up) b (Suc p) (next_name_char (lowcase c) r)"
    by (rule scan_Go [OF p])
  have "hl_state (next_name_char (lowcase c) r) = hl_name" using Cons.prems(4) by (simp add: next_name_char_def)
  with Cons.IH [of "Suc p" "next_name_char (lowcase c) r"] Cons.prems(1,3) w
  obtain h i l where "scan (hl_step us up) b (Suc p) (next_name_char (lowcase c) r)
      = scan (hl_step us up) b (Suc p + length w)
          ((next_name_char (lowcase c) r)\<lparr>header_hash := h, lowcase_index := i, lowcase_header := l\<rparr>)"
    by auto
  then have "scan (hl_step us up) b p r = scan (hl_step us up) b (p + length (c # w))
      (r\<lparr>header_hash := h, lowcase_index := i, lowcase_header := l\<rparr>)"
    using s by (simp add: next_name_char_def)
  then show ?case by blast
qed

text \<open>The bytes of a value; after a byte that is not a space the end is still open.\<close>

lemma scan_value:
  assumes "p + length w \<le> length b" and "slice b p (p + length w) = w" and "list_all clean_byte w"
    and "hl_state r = hl_value \<or> hl_state r = hl_space_after_value"
  shows "\<exists>e st. scan (hl_step us up) b p r = scan (hl_step us up) b (p + length w) (r\<lparr>header_end := e, hl_state := st\<rparr>)
    \<and> (if w = [] then st = hl_state r else st = (if List.last w = 0x20 then hl_space_after_value else hl_value))"
  using assms
proof (induction w arbitrary: p r)
  case Nil
  have "scan (hl_step us up) b p r = scan (hl_step us up) b (p + length [])
      (r\<lparr>header_end := header_end r, hl_state := hl_state r\<rparr>)" by simp
  then show ?case by (intro exI [of _ "header_end r"] exI [of _ "hl_state r"]) simp
next
  case (Cons c w)
  have p: "p < length b" using Cons.prems(1) by simp
  have c: "b ! p = c" and w: "slice b (Suc p) (Suc p + length w) = w"
    using Cons.prems(1,2) by (auto simp: slice_def take_Suc drop_Suc Cons_nth_drop_Suc [symmetric, OF p])
  define st1 where "st1 = (if c = 0x20 then hl_space_after_value else hl_value)"
  have st1: "st1 = hl_value \<or> st1 = hl_space_after_value" by (simp add: st1_def)
  have "\<exists>e. hl_step us up b p r = Go (r\<lparr>header_end := e, hl_state := st1\<rparr>)"
  proof (cases "hl_state r = hl_value")
    case True
    then show ?thesis using Cons.prems(3) c
      by (intro exI [of _ "if c = 0x20 then p else header_end r"])
        (auto simp: hl_step_def hl_value_step_def Let_def clean_byte_def st1_def)
  next
    case False
    then show ?thesis using Cons.prems(3,4) c
      by (intro exI [of _ "header_end r"]) (auto simp: hl_step_def hl_space_after_value_step_def Let_def clean_byte_def st1_def)
  qed
  then obtain e where "hl_step us up b p r = Go (r\<lparr>header_end := e, hl_state := st1\<rparr>)" by blast
  then have s: "scan (hl_step us up) b p r = scan (hl_step us up) b (Suc p) (r\<lparr>header_end := e, hl_state := st1\<rparr>)"
    by (rule scan_Go [OF p])
  from Cons.IH [of "Suc p" "r\<lparr>header_end := e, hl_state := st1\<rparr>"] Cons.prems(1,3) w st1
  obtain e' st' where "scan (hl_step us up) b (Suc p) (r\<lparr>header_end := e, hl_state := st1\<rparr>)
      = scan (hl_step us up) b (Suc p + length w) (r\<lparr>header_end := e', hl_state := st'\<rparr>)"
    and st': "if w = [] then st' = st1 else st' = (if List.last w = 0x20 then hl_space_after_value else hl_value)"
    by auto
  then have "scan (hl_step us up) b p r = scan (hl_step us up) b (p + length (c # w))
      (r\<lparr>header_end := e', hl_state := st'\<rparr>)" using s by simp
  then show ?case using st' by (intro exI [of _ e'] exI [of _ st']) (auto simp: st1_def)
qed

definition header_text :: "bytes \<Rightarrow> bytes \<Rightarrow> bytes" where
  "header_text name val = name @ [0x3a, 0x20] @ val @ [CR, LF]"

definition value_text :: "bytes \<Rightarrow> bool" where
  "value_text v \<longleftrightarrow> list_all clean_byte v \<and> (v = [] \<or> (hd v \<noteq> 0x20 \<and> List.last v \<noteq> 0x20))"

lemma slice_mid: "b = xs @ w @ ys \<Longrightarrow> i = length xs \<Longrightarrow> j = i + length w \<Longrightarrow> slice b i j = w"
  by (simp add: slice_def)

text \<open>The value, from its first byte to the end of the line.\<close>

lemma scan_value_line:
  assumes b: "b = xs @ val @ [CR, LF] @ post" and val: "value_text val"
    and st: "hl_state r = hl_space_before_value"
  shows "scan (hl_step us up) b (length xs) r = (Some HL_DONE, length xs + length val + 1,
      r\<lparr>header_start := length xs, header_end := length xs + length val, hl_state := hl_almost_done\<rparr>)"
proof -
  let ?e = "length xs + length val"
  have lf: "scan (hl_step us up) b (Suc ?e) r' = (Some HL_DONE, Suc ?e, r')" if "hl_state r' = hl_almost_done" for r'
    using that b by (intro scan_Stop) (auto simp: hl_step_def hl_almost_done_step_def Let_def nth_append)
  have cr: "b ! ?e = CR" "?e < length b" using b by (simp_all add: nth_append)
  show ?thesis
  proof (cases val)
    case Nil
    let ?r = "r\<lparr>header_start := length xs, header_end := length xs, hl_state := hl_almost_done\<rparr>"
    have "hl_step us up b (length xs) r = Go ?r"
      using cr st Nil by (simp add: hl_step_def hl_space_before_value_step_def Let_def)
    then have "scan (hl_step us up) b (length xs) r = scan (hl_step us up) b (Suc (length xs)) ?r"
      using cr Nil by (intro scan_Go) auto
    then show ?thesis using lf [of ?r] Nil by simp
  next
    case (Cons c w)
    let ?r1 = "r\<lparr>header_start := length xs, hl_state := hl_value\<rparr>"
    have c: "b ! length xs = c" "length xs < length b" using b Cons by (simp_all add: nth_append)
    have "hl_step us up b (length xs) r = Go ?r1"
      using c st val Cons by (auto simp: hl_step_def hl_space_before_value_step_def Let_def value_text_def clean_byte_def)
    then have s1: "scan (hl_step us up) b (length xs) r = scan (hl_step us up) b (Suc (length xs)) ?r1"
      using c by (intro scan_Go) auto
    have "slice b (Suc (length xs)) (Suc (length xs) + length w) = w"
      using b Cons by (intro slice_mid [of b "xs @ [c]" w "[CR, LF] @ post"]) auto
    then obtain e st' where s2: "scan (hl_step us up) b (Suc (length xs)) ?r1
        = scan (hl_step us up) b ?e (?r1\<lparr>header_end := e, hl_state := st'\<rparr>)"
      and st': "if w = [] then st' = hl_value else st' = (if List.last w = 0x20 then hl_space_after_value else hl_value)"
      using scan_value [of "Suc (length xs)" w b ?r1 us up] val Cons b by (auto simp: value_text_def)
    have "st' = hl_value" using st' val Cons by (auto simp: value_text_def split: if_splits)
    then have "hl_step us up b ?e (?r1\<lparr>header_end := e, hl_state := st'\<rparr>)
        = Go (r\<lparr>header_start := length xs, header_end := ?e, hl_state := hl_almost_done\<rparr>)"
      using cr by (simp add: hl_step_def hl_value_step_def Let_def)
    then have "scan (hl_step us up) b ?e (?r1\<lparr>header_end := e, hl_state := st'\<rparr>)
        = scan (hl_step us up) b (Suc ?e) (r\<lparr>header_start := length xs, header_end := ?e, hl_state := hl_almost_done\<rparr>)"
      using cr by (intro scan_Go) auto
    then show ?thesis using s1 s2 lf by simp
  qed
qed

lemma scan_header_text:
  assumes b: "b = pre @ header_text name val @ post" and name: "name \<noteq> []" "list_all (\<lambda>c. lowcase c \<noteq> 0) name"
    and val: "value_text val" and st: "hl_state r = hl_start"
  shows "\<exists>r'. scan (hl_step us up) b (length pre) r = (Some HL_DONE, length (pre @ header_text name val) - 1, r')
    \<and> header_name_start r' = length pre \<and> header_name_end r' = length pre + length name
    \<and> header_start r' = length pre + length name + 2 \<and> header_end r' = length pre + length name + 2 + length val
    \<and> \<not> invalid_header r'"
proof -
  obtain c w where w: "name = c # w" using name(1) by (cases name) auto
  let ?n = "length pre + length name"
  have c: "b ! length pre = c" "length pre < length b" "lowcase c \<noteq> 0" "c \<noteq> CR" "c \<noteq> LF"
    using b w name(2) by (auto simp: header_text_def nth_append)
  let ?r1 = "first_name_char (lowcase c) (r\<lparr>header_name_start := length pre, invalid_header := False, hl_state := hl_name\<rparr>)"
  have "hl_step us up b (length pre) r = Go ?r1"
    using c st by (simp add: hl_step_def hl_start_step_def Let_def)
  then have s1: "scan (hl_step us up) b (length pre) r = scan (hl_step us up) b (Suc (length pre)) ?r1"
    using c by (intro scan_Go) auto
  have "slice b (Suc (length pre)) (Suc (length pre) + length w) = w"
    using b w by (intro slice_mid [of b "pre @ [c]" w "[0x3a, 0x20] @ val @ [CR, LF] @ post"]) (auto simp: header_text_def)
  moreover have "Suc (length pre) + length w \<le> length b" using b w by (simp add: header_text_def)
  moreover have "hl_state ?r1 = hl_name" by (simp add: first_name_char_def)
  ultimately obtain h i l where s2: "scan (hl_step us up) b (Suc (length pre)) ?r1
      = scan (hl_step us up) b ?n (?r1\<lparr>header_hash := h, lowcase_index := i, lowcase_header := l\<rparr>)"
    using scan_name [of "Suc (length pre)" w b ?r1 us up] name(2) w by auto
  let ?r2 = "?r1\<lparr>header_hash := h, lowcase_index := i, lowcase_header := l\<rparr>"
  let ?r3 = "?r2\<lparr>header_name_end := ?n, hl_state := hl_space_before_value\<rparr>"
  have colon: "b ! ?n = 0x3a" "b ! Suc ?n = 0x20" "Suc ?n < length b" using b by (auto simp: header_text_def nth_append)
  have "hl_step us up b ?n ?r2 = Go ?r3" "hl_step us up b (Suc ?n) ?r3 = Go ?r3"
    using colon by (simp_all add: hl_step_def hl_name_step_def hl_space_before_value_step_def Let_def first_name_char_def)
  then have s3: "scan (hl_step us up) b ?n ?r2 = scan (hl_step us up) b (?n + 2) ?r3"
    using colon by (simp add: scan_Go)
  have "scan (hl_step us up) b (?n + 2) ?r3 = (Some HL_DONE, ?n + 2 + length val + 1,
      ?r3\<lparr>header_start := ?n + 2, header_end := ?n + 2 + length val, hl_state := hl_almost_done\<rparr>)"
    using scan_value_line [of b "pre @ name @ [0x3a, 0x20]" val post ?r3 us up] b val
    by (simp add: header_text_def add.assoc)
  then show ?thesis using s1 s2 s3 by (simp add: header_text_def first_name_char_def)
qed


section \<open>The properties\<close>

lemma done_header:
  assumes "hl_done us b p r"
  shows "let h = request_header b r in
    elt_key h \<noteq> [] \<and> list_all clean_byte (elt_key h) \<and> list_all clean_byte (elt_value h)
    \<and> (if invalid_header r then True
       else list_all (name_byte us) (elt_key h) \<and> elt_lowcase_key h = map ngx_tolower (elt_key h)
         \<and> elt_hash h = foldl ngx_hash 0 (map ngx_tolower (elt_key h)))"
proof -
  let ?w = "slice b (header_name_start r) (header_name_end r)"
  have n: "name_ok us ?w r" and v: "list_all clean_byte (slice b (header_start r) (header_end r))"
    and s: "lowcase_index r < 32"
    using assms by (simp_all add: hl_done_def named_def valued_def saved_ok_def)
  have "take (length ?w) (lowcase_header r) = map ngx_tolower ?w"
    if "\<not> invalid_header r" "length ?w = lowcase_index r"
    using n that s unfolding name_ok_def by auto
  then show ?thesis using n v by (auto simp: request_header_def Let_def name_ok_def)
qed

text \<open>
  C14. A header line that is accepted is safe to use: with the parser at the start of a line, a
  parse that answers OK leaves the buffer behind the line, the name is not empty, no name and no
  value has a NUL, CR or LF byte in it, the saved index stays below the size of
  \<open>lowcase_header\<close>; and a name that is not marked invalid has only letters, digits and hyphens (underscores when
  they are allowed), and the lower case and the hash stored with it are those of the name.
\<close>

theorem header_line_safe:
  assumes "ngx_http_parse_header_line us up b pos r = (HL_OK, q, r')" and "hl_state r = hl_start"
    and "saved_ok r" and "pos \<le> length b"
  shows "pos < q \<and> q \<le> length b \<and> saved_ok r' \<and> hl_state r' = hl_start \<and>
    (let h = request_header b r' in
      elt_key h \<noteq> [] \<and> list_all clean_byte (elt_key h) \<and> list_all clean_byte (elt_value h)
      \<and> (if invalid_header r' then True
         else list_all (name_byte us) (elt_key h) \<and> elt_lowcase_key h = map ngx_tolower (elt_key h)
           \<and> elt_hash h = foldl ngx_hash 0 (map ngx_tolower (elt_key h))))"
  using hl_parse_done [OF assms] done_header [of us b "q - 1" r'] by (auto simp: hl_done_def)

text \<open>
  C24. A header \<open>name: value\<close> with a proper name and a value without control bytes and outer
  spaces is read back: name, value, lower case and hash, with the buffer left behind the line.
\<close>

theorem header_line_roundtrip:
  assumes "name \<noteq> []" and "list_all (\<lambda>c. lowcase c \<noteq> 0) name" and "value_text val"
    and "hl_state r = hl_start" and "saved_ok r"
  shows "case ngx_http_parse_header_line us up (pre @ header_text name val @ post) (length pre) r of
    (rc, q, r') \<Rightarrow> rc = HL_OK \<and> q = length (pre @ header_text name val) \<and> \<not> invalid_header r'
      \<and> request_header (pre @ header_text name val @ post) r'
        = \<lparr>elt_hash = foldl ngx_hash 0 (map ngx_tolower name), elt_key = name, elt_value = val,
           elt_lowcase_key = map ngx_tolower name\<rparr>"
proof -
  let ?b = "pre @ header_text name val @ post"
  obtain r1 where s: "scan (hl_step us up) ?b (length pre) r = (Some HL_DONE, length (pre @ header_text name val) - 1, r1)"
    and f: "header_name_start r1 = length pre" "header_name_end r1 = length pre + length name"
      "header_start r1 = length pre + length name + 2" "header_end r1 = length pre + length name + 2 + length val"
      "\<not> invalid_header r1"
    using scan_header_text [OF refl assms(1-4)] by blast
  let ?r = "r1\<lparr>hl_state := hl_start\<rparr>"
  have ok: "ngx_http_parse_header_line us up ?b (length pre) r = (HL_OK, length (pre @ header_text name val), ?r)"
    using hl_parse_scan [OF s] by (simp add: header_text_def)
  have k: "elt_key (request_header ?b ?r) = name" "elt_value (request_header ?b ?r) = val"
    using f slice_mid [of ?b pre name "[0x3a, 0x20] @ val @ [CR, LF] @ post"]
      slice_mid [of ?b "pre @ name @ [0x3a, 0x20]" val "[CR, LF] @ post"]
    by (simp_all add: request_header_def Let_def header_text_def)
  have "hl_done us ?b (length (pre @ header_text name val) - 1) ?r"
    using hl_parse_done [OF ok assms(4,5)] by simp
  from done_header [OF this] k f(5) show ?thesis unfolding ok by (simp add: Let_def)
qed

text \<open>
  C40. The header may arrive in any two pieces: when the first call has read all it was given,
  the second gives what one call on the whole input gives, code, position, pointers, lower case
  and hash for a line that is read, the code when it fails or the header ends.
\<close>

theorem header_line_resume:
  assumes "ngx_http_parse_header_line us up b pos r = (HL_AGAIN, p, r1)"
  shows "case ngx_http_parse_header_line us up (b @ rest) p r1 of
      (HL_OK, res) \<Rightarrow> ngx_http_parse_header_line us up (b @ rest) pos r = (HL_OK, res)
    | (HL_AGAIN, res) \<Rightarrow> ngx_http_parse_header_line us up (b @ rest) pos r = (HL_AGAIN, res)
    | (rc, _) \<Rightarrow> fst (ngx_http_parse_header_line us up (b @ rest) pos r) = rc"
proof -
  have "scan (hl_step us up) b pos r = (None, p, r1)"
    using assms by (auto simp: ngx_http_parse_header_line_def split: prod.splits option.splits hl_result.splits)
  from hl.scan_resume [OF this] have "scan (hl_step us up) (b @ rest) pos r = scan (hl_step us up) (b @ rest) p r1" .
  then show ?thesis
    by (auto simp: ngx_http_parse_header_line_def split: prod.splits option.splits hl_result.splits)
qed

section \<open>Witnesses\<close>

definition fresh_header :: header_line where
  "fresh_header = \<lparr>hl_state = hl_start, header_hash = 0, lowcase_index = 0, lowcase_header = replicate 32 0,
     invalid_header = False, header_name_start = 0, header_name_end = 0, header_start = 0, header_end = 0\<rparr>"

lemma fresh_saved: "saved_ok fresh_header" "hl_state fresh_header = hl_start"
  by (simp_all add: fresh_header_def saved_ok_def)

lemmas hl_eval = ngx_http_parse_header_line_def scan.simps hl_step_def hl_steps first_name_char_def next_name_char_def
  fresh_header_def lowcase_eq Let_def word_le_nat_alt and_31 ngx_hash_def

lemma first_bytes: "take 4 ((replicate 32 (0 :: u_char))[0 := a, Suc 0 := b, 2 := c, 3 := d]) = [a, b, c, d]"
  by (simp add: numeral_eq_Suc)

text \<open>
  Two lines of which the first has a name of one letter and the second a name that starts with
  a forbidden byte: the second is marked invalid, but its lower case and hash are those
  of \<open>host\<close>, made of the letter of the line before and the rest of the name, because the first
  byte does not reset what is saved. Where invalid names are let through, the line is taken for a \<open>Host\<close> header.
\<close>

theorem header_name_stale:
  "case ngx_http_parse_header_line False False (str_bytes ''H:x'' @ [LF] @ str_bytes ''%ost:y'' @ [LF]) 0 fresh_header of
    (rc1, q, r1) \<Rightarrow>
      (case ngx_http_parse_header_line False False (str_bytes ''H:x'' @ [LF] @ str_bytes ''%ost:y'' @ [LF]) q r1 of
        (rc2, _, r2) \<Rightarrow> rc1 = HL_OK \<and> rc2 = HL_OK \<and> invalid_header r2 \<and>
          request_header (str_bytes ''H:x'' @ [LF] @ str_bytes ''%ost:y'' @ [LF]) r2
          = \<lparr>elt_hash = foldl ngx_hash 0 (str_bytes ''host''), elt_key = str_bytes ''%ost'',
             elt_value = str_bytes ''y'', elt_lowcase_key = str_bytes ''host''\<rparr>)"
  by (simp add: hl_eval request_header_def slice_def first_bytes numeral_2_eq_2 [symmetric])

abbreviation sample_header :: bytes where
  "sample_header \<equiv> header_text (str_bytes ''Host'') (str_bytes ''a'')"

lemma sample_letters: "list_all (\<lambda>c. lowcase c \<noteq> 0) (str_bytes ''Host'')" "value_text (str_bytes ''a'')"
  by (simp_all add: lowcase_eq value_text_def clean_byte_def word_le_nat_alt)

theorem header_line_roundtrip_witness:
  "fst (ngx_http_parse_header_line False False (sample_header @ [CR, LF]) 0 fresh_header) = HL_OK"
  using header_line_roundtrip [OF _ sample_letters fresh_saved(2,1), where us = False and up = False and pre = "[]" and post = "[CR, LF]"]
  by (auto split: prod.splits)

lemma sample_header_parse:
  obtains r' where "ngx_http_parse_header_line False False sample_header 0 fresh_header = (HL_OK, 9, r')"
    and "elt_key (request_header sample_header r') = str_bytes ''Host''"
  using header_line_roundtrip [OF _ sample_letters fresh_saved(2,1), where us = False and up = False and pre = "[]" and post = "[]"]
  by (auto simp: header_text_def split: prod.splits)

theorem header_line_safe_witness:
  "\<exists>r'. ngx_http_parse_header_line False False sample_header 0 fresh_header = (HL_OK, 9, r')
    \<and> list_all clean_byte (elt_value (request_header sample_header r')) \<and> saved_ok r'"
proof -
  obtain r' where p: "ngx_http_parse_header_line False False sample_header 0 fresh_header = (HL_OK, 9, r')"
    by (rule sample_header_parse)
  show ?thesis using header_line_safe [OF p fresh_saved(2,1)] p by (auto simp: Let_def)
qed

theorem header_line_resume_witness:
  "case ngx_http_parse_header_line False False (str_bytes ''H'') 0 fresh_header of (rc, p, r1) \<Rightarrow>
     rc = HL_AGAIN \<and> fst (ngx_http_parse_header_line False False (str_bytes ''H'' @ [LF]) p r1)
       = fst (ngx_http_parse_header_line False False (str_bytes ''H'' @ [LF]) 0 fresh_header)"
proof -
  obtain p r1 where a: "ngx_http_parse_header_line False False (str_bytes ''H'') 0 fresh_header = (HL_AGAIN, p, r1)"
    by (simp add: hl_eval)
  show ?thesis using header_line_resume [OF a, of "[LF]"] a by (auto split: prod.splits hl_code.splits)
qed


end
