(* ===== verification/Http_Complex_Uri.thy ===== *)
theory Http_Complex_Uri
  imports Http_Request_Line Ngx_Encoding "HOL-Library.Sublist"
begin

text \<open>
  \<open>ngx_http_parse_complex_uri\<close> of \<open>http/ngx_http_parse.c\<close> and the part of
  \<open>ngx_http_process_request_uri\<close> (\<open>http/ngx_http_request.c\<close>) that calls it: decoding of
  escapes, removal of dot segments and merging of slashes. The source is the list of the bytes
  from \<open>uri_start\<close> to \<open>uri_end\<close>; the bytes written so far are the list \<open>out\<close>, so \<open>u\<close> is its
  length and \<open>uri_ext\<close> a position in it. The build is the Unix one.
\<close>

section \<open>The parser\<close>

datatype cu_state = cu_usual | cu_slash | cu_dot | cu_dot_dot | cu_quoted | cu_quoted_second

record complex_uri_ctx =
  cu_state :: cu_state
  quoted_state :: cu_state
  decoded :: u_char
  out :: bytes
  ext_pos :: "nat option"
  cu_plus :: bool
  cu_quoted_uri :: bool

text \<open>What a byte does: the loop goes on, or \<open>goto args\<close>, \<open>goto done\<close>, an invalid request.\<close>

datatype cu_step = CU_go complex_uri_ctx | CU_args complex_uri_ctx | CU_done complex_uri_ctx | CU_invalid

definition put :: "cu_state \<Rightarrow> u_char \<Rightarrow> complex_uri_ctx \<Rightarrow> complex_uri_ctx" where
  "put st ch x = x\<lparr>cu_state := st, out := out x @ [ch]\<rparr>"

text \<open>The loop that goes back over the segment before \<open>/../\<close>, from \<open>u\<close> on.\<close>

function back_to_slash :: "bytes \<Rightarrow> int \<Rightarrow> bytes option" where
  "back_to_slash w u =
     (if u < 0 then None
      else if w ! nat u = 0x2f then Some (take (nat u + 1) w)
      else back_to_slash w (u - 1))"
  by pat_completeness auto
termination by (relation "measure (\<lambda>(w, u). nat (u + 1))") auto

declare back_to_slash.simps [simp del]

definition cu_plus_or_put :: "u_char \<Rightarrow> complex_uri_ctx \<Rightarrow> cu_step" where
  "cu_plus_or_put ch x = CU_go (put cu_usual ch (if ch = 0x2b then x\<lparr>cu_plus := True\<rparr> else x))"

definition start_quote :: "complex_uri_ctx \<Rightarrow> complex_uri_ctx" where
  "start_quote x = x\<lparr>quoted_state := cu_state x, cu_state := cu_quoted\<rparr>"

definition step_usual :: "u_char \<Rightarrow> complex_uri_ctx \<Rightarrow> cu_step" where
  "step_usual ch x =
     (if usual ch then CU_go (put (cu_state x) ch x)
      else if ch = 0x2f then CU_go (put cu_slash ch (x\<lparr>ext_pos := None\<rparr>))
      else if ch = 0x25 then CU_go (start_quote x)
      else if ch = 0x3f then CU_args x
      else if ch = 0x23 then CU_done x
      else if ch = 0x2e
        then CU_go (put (cu_state x) ch (x\<lparr>ext_pos := Some (length (out x) + 1)\<rparr>))
      else CU_go (put (cu_state x) ch (if ch = 0x2b then x\<lparr>cu_plus := True\<rparr> else x)))"

definition step_slash :: "bool \<Rightarrow> u_char \<Rightarrow> complex_uri_ctx \<Rightarrow> cu_step" where
  "step_slash merge_slashes ch x =
     (if usual ch then CU_go (put cu_usual ch x)
      else if ch = 0x2f
        then CU_go (if \<not> merge_slashes then put cu_slash ch x else x)
      else if ch = 0x2e then CU_go (put cu_dot ch x)
      else if ch = 0x25 then CU_go (start_quote x)
      else if ch = 0x3f then CU_args x
      else if ch = 0x23 then CU_done x
      else cu_plus_or_put ch x)"

definition step_dot :: "u_char \<Rightarrow> complex_uri_ctx \<Rightarrow> cu_step" where
  "step_dot ch x =
     (if usual ch then CU_go (put cu_usual ch x)
      else if ch = 0x2f
        then CU_go (x\<lparr>cu_state := cu_slash, out := take (length (out x) - 1) (out x)\<rparr>)
      else if ch = 0x2e then CU_go (put cu_dot_dot ch x)
      else if ch = 0x25 then CU_go (start_quote x)
      else if ch = 0x3f then CU_args x
      else if ch = 0x23 then CU_done x
      else cu_plus_or_put ch x)"

definition step_dot_dot :: "u_char \<Rightarrow> complex_uri_ctx \<Rightarrow> cu_step" where
  "step_dot_dot ch x =
     (if usual ch then CU_go (put cu_usual ch x)
      else if ch = 0x2f then
        (case back_to_slash (out x) (int (length (out x)) - 5) of
           None \<Rightarrow> CU_invalid
         | Some o' \<Rightarrow> CU_go (x\<lparr>cu_state := cu_slash, out := o'\<rparr>))
      else if ch = 0x25 then CU_go (start_quote x)
      else if ch = 0x3f then CU_args x
      else if ch = 0x23 then CU_done x
      else cu_plus_or_put ch x)"

text \<open>The states outside an escape; a decoded byte is read again in the state before the escape.\<close>

definition step_plain :: "bool \<Rightarrow> u_char \<Rightarrow> complex_uri_ctx \<Rightarrow> cu_step" where
  "step_plain merge_slashes ch x =
     (case cu_state x of
        cu_usual \<Rightarrow> step_usual ch x
      | cu_slash \<Rightarrow> step_slash merge_slashes ch x
      | cu_dot \<Rightarrow> step_dot ch x
      | cu_dot_dot \<Rightarrow> step_dot_dot ch x
      | _ \<Rightarrow> CU_invalid)"

definition step_quoted :: "u_char \<Rightarrow> complex_uri_ctx \<Rightarrow> cu_step" where
  "step_quoted ch x0 =
     (let x = x0\<lparr>cu_quoted_uri := True\<rparr> in
      if is_dec_digit ch then CU_go (x\<lparr>decoded := ch - 0x30, cu_state := cu_quoted_second\<rparr>)
      else let c = ch OR 0x20 in
        if c \<ge> 0x61 \<and> c \<le> 0x66
        then CU_go (x\<lparr>decoded := c - 0x61 + 10, cu_state := cu_quoted_second\<rparr>)
        else CU_invalid)"

definition step_quoted_second :: "bool \<Rightarrow> u_char \<Rightarrow> complex_uri_ctx \<Rightarrow> cu_step" where
  "step_quoted_second merge_slashes ch x =
     (if is_dec_digit ch then
        (let ch = push_bit 4 (decoded x) + (ch - 0x30) in
         if ch = 0x25 \<or> ch = 0x23 then CU_go (put cu_usual ch x)
         else if ch = 0 then CU_invalid
         else step_plain merge_slashes ch (x\<lparr>cu_state := quoted_state x\<rparr>))
      else let c = ch OR 0x20 in
        if c \<ge> 0x61 \<and> c \<le> 0x66 then
          (let ch = push_bit 4 (decoded x) + (c - 0x61) + 10 in
           if ch = 0x3f then CU_go (put cu_usual ch x)
           else step_plain merge_slashes ch
             ((if ch = 0x2b then x\<lparr>cu_plus := True\<rparr> else x)\<lparr>cu_state := quoted_state x\<rparr>))
        else CU_invalid)"

definition complex_step :: "bool \<Rightarrow> u_char \<Rightarrow> complex_uri_ctx \<Rightarrow> cu_step" where
  "complex_step merge_slashes ch x =
     (case cu_state x of
        cu_quoted \<Rightarrow> step_quoted ch x
      | cu_quoted_second \<Rightarrow> step_quoted_second merge_slashes ch x
      | _ \<Rightarrow> step_plain merge_slashes ch x)"

text \<open>
  The whole loop: the context at \<open>done\<close> or \<open>args\<close>, and for \<open>args\<close> the source behind the
  question mark.
\<close>

fun complex_loop :: "bool \<Rightarrow> bytes \<Rightarrow> complex_uri_ctx \<Rightarrow> (complex_uri_ctx \<times> bytes option) option" where
  "complex_loop merge_slashes [] x = Some (x, None)"
| "complex_loop merge_slashes (ch # src) x =
     (case complex_step merge_slashes ch x of
        CU_go x' \<Rightarrow> complex_loop merge_slashes src x'
      | CU_args x' \<Rightarrow> Some (x', Some src)
      | CU_done x' \<Rightarrow> Some (x', None)
      | CU_invalid \<Rightarrow> None)"

text \<open>The request after the call: the path, the extension, the arguments and two flags.\<close>

record parsed_uri =
  uri :: bytes
  exten :: "bytes option"
  args :: bytes
  uri_plus :: bool
  uri_quoted :: bool

definition complex_start :: "bool \<Rightarrow> bool \<Rightarrow> complex_uri_ctx" where
  "complex_start pl quoted = \<lparr>cu_state = cu_usual, quoted_state = cu_usual, decoded = 0, out = [],
     ext_pos = None, cu_plus = pl, cu_quoted_uri = quoted\<rparr>"

definition ngx_http_parse_complex_uri :: "bool \<Rightarrow> bool \<Rightarrow> bool \<Rightarrow> bytes \<Rightarrow> parsed_uri option" where
  "ngx_http_parse_complex_uri merge_slashes pl quoted src =
     (case complex_loop merge_slashes src (complex_start pl quoted) of
        None \<Rightarrow> None
      | Some (x, a) \<Rightarrow>
          Some \<lparr>uri = out x, exten = map_option (\<lambda>e. drop e (out x)) (ext_pos x),
            args = (case a of None \<Rightarrow> [] | Some s \<Rightarrow> takeWhile (\<lambda>c. c \<noteq> 0x23) s),
            uri_plus = cu_plus x, uri_quoted = cu_quoted_uri x\<rparr>)"



section \<open>The bytes written\<close>

abbreviation (input) SLASH :: u_char where "SLASH \<equiv> 0x2f"
abbreviation (input) DOT :: u_char where "DOT \<equiv> 0x2e"

text \<open>No segment but the last is a dot segment.\<close>

definition dot_free :: "bytes \<Rightarrow> bool" where
  "dot_free w \<longleftrightarrow> \<not> sublist [SLASH, DOT, SLASH] w \<and> \<not> sublist [SLASH, DOT, DOT, SLASH] w"

definition merged :: "bool \<Rightarrow> bytes \<Rightarrow> bool" where
  "merged merge_slashes w \<longleftrightarrow> \<not> (merge_slashes \<and> sublist [SLASH, SLASH] w)"

lemma sublist_snoc: "sublist xs (ys @ [y]) \<longleftrightarrow> suffix xs (ys @ [y]) \<or> sublist xs ys"
proof -
  have "sublist xs (ys @ [y]) \<longleftrightarrow> sublist (rev xs) (y # rev ys)"
    using sublist_rev [of xs "ys @ [y]"] by simp
  also have "\<dots> \<longleftrightarrow> prefix (rev xs) (rev (ys @ [y])) \<or> sublist (rev xs) (rev ys)"
    by (simp add: sublist_Cons_right)
  finally show ?thesis by (simp add: suffix_to_prefix sublist_rev)
qed

lemma suffix_snoc_snoc: "suffix (xs @ [c]) (w @ [d]) \<longleftrightarrow> c = d \<and> suffix xs w"
  by (auto simp: suffix_def)

lemmas suffix_simps = suffix_snoc_snoc [of "[]", simplified] suffix_snoc_snoc [of "[a]" for a, simplified]
  suffix_snoc_snoc [of "[a, b]" for a b, simplified] suffix_snoc_snoc [of "[a, b, c]" for a b c, simplified]

lemma dot_free_snoc:
  "dot_free (w @ [c]) \<longleftrightarrow> dot_free w \<and>
     \<not> (c = SLASH \<and> (suffix [SLASH, DOT] w \<or> suffix [SLASH, DOT, DOT] w))"
  by (auto simp: dot_free_def sublist_snoc suffix_simps)

lemma merged_snoc: "merged m (w @ [c]) \<longleftrightarrow> merged m w \<and> \<not> (m \<and> c = SLASH \<and> suffix [SLASH] w)"
  by (auto simp: merged_def sublist_snoc suffix_simps)

lemma sublist_in_take: "sublist xs (take n w) \<Longrightarrow> sublist xs w"
  using sublist_order.order_trans sublist_take by blast

lemma dot_free_take: "dot_free w \<Longrightarrow> dot_free (take n w)"
  using sublist_in_take by (auto simp: dot_free_def)

lemma merged_take: "merged m w \<Longrightarrow> merged m (take n w)"
  using sublist_in_take by (auto simp: merged_def)

lemma back_to_slash_Some:
  "back_to_slash w u = Some w' \<Longrightarrow> u < int (length w) \<Longrightarrow>
   \<exists>n. w' = take n w \<and> suffix [SLASH] w' \<and> n \<le> nat u + 1"
proof (induction w u rule: back_to_slash.induct)
  case (1 w u)
  show ?case
  proof (cases "u < 0")
    case True
    with 1(2) show ?thesis by (simp add: back_to_slash.simps)
  next
    case False
    show ?thesis
    proof (cases "w ! nat u = SLASH")
      case True
      have "take (nat u + 1) w = take (nat u) w @ [SLASH]"
        using True 1(3) False by (simp add: take_Suc_conv_app_nth)
      moreover have "w' = take (nat u + 1) w"
        using 1(2) False True by (simp add: back_to_slash.simps [of w u])
      ultimately have "w' = take (nat u + 1) w \<and> suffix [SLASH] w' \<and> nat u + 1 \<le> nat u + 1"
        by (simp add: suffix_simps)
      then show ?thesis by blast
    next
      case 2: False
      from 1(2) False 2 have "back_to_slash w (u - 1) = Some w'"
        by (simp add: back_to_slash.simps [of w u])
      with 1(1) [OF False 2] 1(3) show ?thesis by force
    qed
  qed
qed

section \<open>The invariant\<close>

text \<open>The state a byte outside an escape is read in, and how what was written then ends.\<close>

definition eff_state :: "complex_uri_ctx \<Rightarrow> cu_state" where
  "eff_state x = (if cu_state x = cu_quoted \<or> cu_state x = cu_quoted_second then quoted_state x else cu_state x)"

definition ends_as :: "cu_state \<Rightarrow> bytes \<Rightarrow> bool" where
  "ends_as st w \<longleftrightarrow>
     (case st of
        cu_usual \<Rightarrow> \<not> suffix [SLASH] w \<and> \<not> suffix [SLASH, DOT] w \<and> \<not> suffix [SLASH, DOT, DOT] w
      | cu_slash \<Rightarrow> suffix [SLASH] w
      | cu_dot \<Rightarrow> suffix [SLASH, DOT] w
      | cu_dot_dot \<Rightarrow> suffix [SLASH, DOT, DOT] w
      | _ \<Rightarrow> False)"

definition path_ok :: "bool \<Rightarrow> bytes \<Rightarrow> bool" where
  "path_ok m w \<longleftrightarrow> prefix [SLASH] w \<and> dot_free w \<and> merged m w \<and> 0 \<notin> set w"

definition cu_inv :: "bool \<Rightarrow> complex_uri_ctx \<Rightarrow> bool" where
  "cu_inv m x \<longleftrightarrow> path_ok m (out x) \<and> ends_as (eff_state x) (out x)"

lemma path_ok_snoc:
  "path_ok m w \<Longrightarrow> path_ok m (w @ [c]) \<longleftrightarrow> c \<noteq> 0 \<and>
     \<not> (c = SLASH \<and> (suffix [SLASH, DOT] w \<or> suffix [SLASH, DOT, DOT] w \<or> (m \<and> suffix [SLASH] w)))"
  by (auto simp: path_ok_def dot_free_snoc merged_snoc prefix_append)

lemma path_ok_take: "path_ok m w \<Longrightarrow> 0 < n \<Longrightarrow> path_ok m (take n w)"
  using dot_free_take [of w n] merged_take [of m w n] set_take_subset [of n w]
  by (cases w; cases n) (auto simp: path_ok_def)

lemma usual_byte: "usual c \<Longrightarrow> c \<noteq> 0 \<and> c \<noteq> SLASH \<and> c \<noteq> DOT"
  by (auto simp: usual_def usual_table_def)

lemma ends_as_usual:
  "c \<noteq> SLASH \<Longrightarrow> c \<noteq> DOT \<Longrightarrow> ends_as cu_usual (w @ [c])"
  "ends_as cu_usual w \<Longrightarrow> c \<noteq> SLASH \<Longrightarrow> ends_as cu_usual (w @ [c])"
  "ends_as cu_dot_dot w \<Longrightarrow> c \<noteq> SLASH \<Longrightarrow> ends_as cu_usual (w @ [c])"
  by (auto simp: ends_as_def suffix_simps) (auto simp: suffix_def)

lemma ends_as_put:
  "ends_as cu_slash (w @ [SLASH])"
  "ends_as cu_slash w \<Longrightarrow> ends_as cu_dot (w @ [DOT])"
  "ends_as cu_dot w \<Longrightarrow> ends_as cu_dot_dot (w @ [DOT])"
  by (auto simp: ends_as_def suffix_simps)

lemma ends_as_dot_drop: "ends_as cu_dot w \<Longrightarrow> ends_as cu_slash (take (length w - 1) w)"
  by (auto simp: ends_as_def suffix_def)

text \<open>A step that goes on or stops keeps the invariant.\<close>

fun step_ok :: "bool \<Rightarrow> cu_step \<Rightarrow> bool" where
  "step_ok m (CU_go x) = cu_inv m x"
| "step_ok m (CU_args x) = cu_inv m x"
| "step_ok m (CU_done x) = cu_inv m x"
| "step_ok m CU_invalid = True"

lemma eff_state_put [simp]: "st \<noteq> cu_quoted \<Longrightarrow> st \<noteq> cu_quoted_second \<Longrightarrow> eff_state (put st c x) = st"
  by (simp add: eff_state_def put_def)

lemma out_put [simp]: "out (put st c x) = out x @ [c]"
  by (simp add: put_def)

lemma start_quote_inv:
  "cu_inv m x \<Longrightarrow> cu_state x \<noteq> cu_quoted \<Longrightarrow> cu_state x \<noteq> cu_quoted_second \<Longrightarrow> cu_inv m (start_quote x)"
  by (auto simp: cu_inv_def eff_state_def start_quote_def)

lemma cu_inv_put:
  "path_ok m (out x @ [c]) \<Longrightarrow> ends_as st (out x @ [c]) \<Longrightarrow> cu_inv m (put st c x)"
  by (auto simp: cu_inv_def eff_state_def put_def ends_as_def)

lemma not_slash_ok: "path_ok m w \<Longrightarrow> c \<noteq> 0 \<Longrightarrow> c \<noteq> SLASH \<Longrightarrow> path_ok m (w @ [c])"
  by (simp add: path_ok_snoc)

lemma usual_slash_ok: "path_ok m w \<Longrightarrow> ends_as cu_usual w \<Longrightarrow> path_ok m (w @ [SLASH])"
  by (simp add: path_ok_snoc ends_as_def)

lemma slash_slash_ok: "path_ok m w \<Longrightarrow> ends_as cu_slash w \<Longrightarrow> \<not> m \<Longrightarrow> path_ok m (w @ [SLASH])"
  by (auto simp: path_ok_snoc ends_as_def suffix_def)

lemma cu_inv_update:
  "out x' = out x \<Longrightarrow> cu_state x' = cu_state x \<Longrightarrow> quoted_state x' = quoted_state x \<Longrightarrow> cu_inv m x' = cu_inv m x"
  by (simp add: cu_inv_def eff_state_def)

lemma cu_plus_or_put_ok:
  "path_ok m (out x) \<Longrightarrow> ch \<noteq> 0 \<Longrightarrow> ch \<noteq> SLASH \<Longrightarrow> ch \<noteq> DOT \<Longrightarrow> step_ok m (cu_plus_or_put ch x)"
  by (simp add: cu_plus_or_put_def cu_inv_put not_slash_ok ends_as_usual)

lemma step_usual_ok:
  assumes "cu_inv m x" and "ch \<noteq> 0" and "cu_state x = cu_usual"
  shows "step_ok m (step_usual ch x)"
proof -
  have p: "path_ok m (out x)" and e: "ends_as cu_usual (out x)"
    using assms by (auto simp: cu_inv_def eff_state_def)
  show ?thesis
    using p e assms usual_byte [of ch] start_quote_inv [OF assms(1)]
    by (simp add: step_usual_def cu_inv_put not_slash_ok usual_slash_ok ends_as_usual ends_as_put)
qed

lemma step_slash_ok:
  assumes "cu_inv m x" and "ch \<noteq> 0" and "cu_state x = cu_slash"
  shows "step_ok m (step_slash m ch x)"
proof -
  have p: "path_ok m (out x)" and e: "ends_as cu_slash (out x)"
    using assms by (auto simp: cu_inv_def eff_state_def)
  show ?thesis
    using p e assms usual_byte [of ch] start_quote_inv [OF assms(1)]
    by (cases m) (simp_all add: step_slash_def cu_inv_put not_slash_ok slash_slash_ok ends_as_usual
      ends_as_put cu_plus_or_put_ok)
qed

lemma step_dot_ok:
  assumes "cu_inv m x" and "ch \<noteq> 0" and "cu_state x = cu_dot"
  shows "step_ok m (step_dot ch x)"
proof -
  have p: "path_ok m (out x)" and e: "ends_as cu_dot (out x)"
    using assms by (auto simp: cu_inv_def eff_state_def)
  from e have "1 < length (out x)" by (auto simp: ends_as_def suffix_def)
  then have "cu_inv m (x\<lparr>cu_state := cu_slash, out := take (length (out x) - 1) (out x)\<rparr>)"
    using path_ok_take [OF p, of "length (out x) - 1"] ends_as_dot_drop [OF e]
    by (simp add: cu_inv_def eff_state_def)
  then show ?thesis
    using p e assms usual_byte [of ch] start_quote_inv [OF assms(1)]
    by (simp add: step_dot_def cu_inv_put not_slash_ok ends_as_usual ends_as_put cu_plus_or_put_ok)
qed

lemma step_dot_dot_ok:
  assumes "cu_inv m x" and "ch \<noteq> 0" and "cu_state x = cu_dot_dot"
  shows "step_ok m (step_dot_dot ch x)"
proof -
  have p: "path_ok m (out x)" and e: "ends_as cu_dot_dot (out x)"
    using assms by (auto simp: cu_inv_def eff_state_def)
  have "cu_inv m (x\<lparr>cu_state := cu_slash, out := w\<rparr>)"
    if b: "back_to_slash (out x) (int (length (out x)) - 5) = Some w" for w
  proof -
    from back_to_slash_Some [OF b] obtain n where n: "w = take n (out x)" "suffix [SLASH] w" by auto
    from n(2) have "w \<noteq> []" by (auto simp: suffix_def)
    then have "0 < n" using n(1) by (cases n) auto
    then show ?thesis using path_ok_take [OF p] n by (simp add: cu_inv_def eff_state_def ends_as_def)
  qed
  moreover have "step_ok m (cu_plus_or_put ch x)" if "ch \<noteq> SLASH"
    using p e that assms(2) by (simp add: cu_plus_or_put_def cu_inv_put not_slash_ok ends_as_usual)
  ultimately show ?thesis
    using p e assms usual_byte [of ch] start_quote_inv [OF assms(1)]
    by (auto simp: step_dot_dot_def cu_inv_put not_slash_ok ends_as_usual split: option.split)
qed

lemma step_plain_ok:
  assumes "cu_inv m x" and "ch \<noteq> 0"
  shows "step_ok m (step_plain m ch x)"
  using assms step_usual_ok step_slash_ok step_dot_ok step_dot_dot_ok
  by (cases "cu_state x") (simp_all add: step_plain_def)

lemma hex_letter_cases:
  assumes "0x61 \<le> c" "c \<le> (0x66 :: u_char)"
  shows "c - 0x61 + 10 \<in> {10, 11, 12, 13, 14, 15}"
proof -
  have "0x61 \<le> c \<and> c \<le> 0x66 \<longrightarrow> c - 0x61 + 10 \<in> {10, 11, 12, 13, 14, 15}"
    by (rule all_byteI [of "\<lambda>c. 0x61 \<le> c \<and> c \<le> 0x66 \<longrightarrow> c - 0x61 + 10 \<in> {10, 11, 12, 13, 14, 15}"])
      (simp add: all_bytes_code word_le_nat_alt)
  with assms show ?thesis by simp
qed

lemma decoded_letter_nonzero:
  assumes "0x61 \<le> c" "c \<le> (0x66 :: u_char)"
  shows "push_bit 4 d + (c - 0x61) + 10 \<noteq> 0"
proof -
  have k: "push_bit 4 d + k \<noteq> 0" if "k \<in> {10, 11, 12, 13, 14, 15 :: u_char}" for k
  proof
    assume "push_bit 4 d + k = 0"
    then have "16 * (d * 16 + k) = 0" by (simp add: push_bit_eq_mult)
    moreover have "16 * (d * 16 + k) = d * 256 + 16 * k" by (simp add: distrib_left)
    moreover have "(256 :: u_char) = 0" by simp
    ultimately have "16 * k = 0" by (simp only: mult_zero_right add_0)
    with that show False by auto
  qed
  show ?thesis using k [OF hex_letter_cases [OF assms]] by (simp add: add.assoc)
qed

lemma step_quoted_second_ok:
  assumes "cu_inv m x" and "cu_state x = cu_quoted_second"
  shows "step_ok m (step_quoted_second m ch x)"
proof -
  have p: "path_ok m (out x)" using assms by (simp add: cu_inv_def)
  have put: "cu_inv m (put cu_usual c x)" if "c \<noteq> 0" "c \<noteq> SLASH" "c \<noteq> DOT" for c
    using p that by (simp add: cu_inv_put not_slash_ok ends_as_usual)
  have bk: "cu_inv m (x\<lparr>cu_plus := b, cu_state := quoted_state x\<rparr>)"
      "cu_inv m (x\<lparr>cu_state := quoted_state x\<rparr>)" for b
    using assms by (simp_all add: cu_inv_def eff_state_def ends_as_def split: cu_state.splits)
  show ?thesis
  proof (cases "is_dec_digit ch")
    case True
    define v where "v = push_bit 4 (decoded x) + (ch - 0x30)"
    show ?thesis
      using True put [of v] bk(2) step_plain_ok [of m _ v]
      unfolding step_quoted_second_def Let_def v_def [symmetric] by auto
  next
    case False
    define v where "v = push_bit 4 (decoded x) + ((ch OR 0x20) - 0x61) + 10"
    have "v \<noteq> 0" if "0x61 \<le> ch OR 0x20" "ch OR 0x20 \<le> 0x66"
      unfolding v_def by (rule decoded_letter_nonzero [OF that])
    then show ?thesis
      using False put [of v] bk step_plain_ok [of m _ v]
      unfolding step_quoted_second_def Let_def v_def [symmetric] by auto
  qed
qed

lemma complex_step_ok:
  assumes "cu_inv m x"
    and "ch \<noteq> 0"
  shows "step_ok m (complex_step m ch x)"
proof (cases "cu_state x")
  case cu_quoted
  then have "cu_inv m (x\<lparr>cu_quoted_uri := True, decoded := d, cu_state := cu_quoted_second\<rparr>)" for d
    using assms by (simp add: cu_inv_def eff_state_def)
  then show ?thesis using cu_quoted by (simp add: complex_step_def step_quoted_def Let_def)
next
  case cu_quoted_second
  then show ?thesis using step_quoted_second_ok [OF assms(1)] by (simp add: complex_step_def)
qed (use step_plain_ok [OF assms] in \<open>simp_all add: complex_step_def\<close>)

lemma complex_loop_inv:
  "complex_loop m src x = Some (x', a) \<Longrightarrow> cu_inv m x \<Longrightarrow> 0 \<notin> set src \<Longrightarrow> cu_inv m x'"
proof (induction m src x rule: complex_loop.induct)
  case (2 m ch src x)
  then have "step_ok m (complex_step m ch x)" by (intro complex_step_ok) auto
  with 2 show ?case by (auto split: cu_step.splits)
qed simp

text \<open>A step writes at most one byte.\<close>

fun step_short :: "nat \<Rightarrow> cu_step \<Rightarrow> bool" where
  "step_short n (CU_go x) \<longleftrightarrow> length (out x) \<le> Suc n"
| "step_short n (CU_args x) \<longleftrightarrow> length (out x) \<le> n"
| "step_short n (CU_done x) \<longleftrightarrow> length (out x) \<le> n"
| "step_short n CU_invalid \<longleftrightarrow> True"

lemma out_start_quote [simp]: "out (start_quote x) = out x"
  by (simp add: start_quote_def)

lemma step_plain_short: "step_short (length (out x)) (step_plain m ch x)"
proof (cases "cu_state x")
  case cu_dot_dot
  have "length w \<le> Suc (length (out x))" if "back_to_slash (out x) (int (length (out x)) - 5) = Some w" for w
    using back_to_slash_Some [OF that] by auto
  then show ?thesis using cu_dot_dot
    by (auto simp: step_plain_def step_dot_dot_def cu_plus_or_put_def split: option.split)
qed (auto simp: step_plain_def step_usual_def step_slash_def step_dot_def cu_plus_or_put_def)

lemma complex_step_short: "step_short (length (out x)) (complex_step m ch x)"
proof (cases "cu_state x")
  case cu_quoted_second
  have "step_short (length (out x)) (step_plain m ch (x\<lparr>cu_state := st\<rparr>))"
    "step_short (length (out x)) (step_plain m ch (x\<lparr>cu_plus := b, cu_state := st\<rparr>))" for ch st b
    using step_plain_short [of "x\<lparr>cu_state := st\<rparr>"] step_plain_short [of "x\<lparr>cu_plus := b, cu_state := st\<rparr>"]
    by simp_all
  then show ?thesis using cu_quoted_second by (auto simp: complex_step_def step_quoted_second_def Let_def)
qed (use step_plain_short [of x m ch] in \<open>auto simp: complex_step_def step_quoted_def Let_def\<close>)

lemma complex_loop_length:
  "complex_loop m src x = Some (x', a) \<Longrightarrow>
   length (out x') + (case a of None \<Rightarrow> 0 | Some s \<Rightarrow> Suc (length s)) \<le> length (out x) + length src"
proof (induction m src x rule: complex_loop.induct)
  case (2 m ch src x)
  then show ?case using complex_step_short [of x m ch] by (cases "complex_step m ch x") force+
qed simp

text \<open>
  C7. Whatever a request line carries, an accepted path is normalised: it starts with a slash,
  has no NUL, no dot segment before its last segment and, with \<open>merge_slashes\<close>, no two slashes
  in a row; escapes do not get around this.
\<close>

theorem complex_uri_safe:
  assumes "ngx_http_parse_complex_uri m pl qd (SLASH # src) = Some r" and "0 \<notin> set src"
  shows "prefix [SLASH] (uri r) \<and> 0 \<notin> set (uri r) \<and> \<not> sublist [SLASH, DOT, SLASH] (uri r)
    \<and> \<not> sublist [SLASH, DOT, DOT, SLASH] (uri r) \<and> \<not> (m \<and> sublist [SLASH, SLASH] (uri r))"
proof -
  define x1 where "x1 = put cu_slash SLASH (complex_start pl qd)"
  have nu: "\<not> usual SLASH" by (simp add: usual_def usual_table_def)
  have "complex_step m SLASH (complex_start pl qd) = CU_go x1"
    by (simp add: complex_step_def complex_start_def step_plain_def step_usual_def nu x1_def put_def)
  with assms(1) obtain x a where x: "complex_loop m src x1 = Some (x, a)" "uri r = out x"
    by (auto simp: ngx_http_parse_complex_uri_def split: option.splits)
  have "cu_inv m x1"
    by (simp add: x1_def cu_inv_def complex_start_def path_ok_def dot_free_def merged_def ends_as_def
        sublist_Cons_right eff_state_def put_def)
  from complex_loop_inv [OF x(1) this assms(2)] show ?thesis
    by (auto simp: cu_inv_def path_ok_def dot_free_def merged_def x(2))
qed

text \<open>
  The path is written into memory of the size of the source: path and arguments together
  are never longer than the source they were read from.
\<close>

theorem complex_uri_fits:
  "case ngx_http_parse_complex_uri m pl qd src of
     None \<Rightarrow> True
   | Some r \<Rightarrow> length (uri r) + length (args r) \<le> length src"
proof (cases "complex_loop m src (complex_start pl qd)")
  case None
  then show ?thesis by (simp add: ngx_http_parse_complex_uri_def)
next
  case (Some r)
  obtain x a where r: "r = (x, a)" by (cases r)
  have t: "length (takeWhile P s) \<le> length s" for P and s :: bytes by (rule length_takeWhile_le)
  have "out (complex_start pl qd) = []" by (simp add: complex_start_def)
  with complex_loop_length [OF Some [unfolded r]] show ?thesis
    using t [of "\<lambda>c. c \<noteq> 0x23" "the a"]
    by (cases a) (simp_all add: ngx_http_parse_complex_uri_def Some r)
qed

section \<open>Escaping a normalised path and parsing it\<close>

lemma escape_uri_raw: "\<not> must_escape escape_uri c \<Longrightarrow> c \<noteq> 0 \<and> c \<noteq> 0x25 \<and> c \<noteq> 0x3f \<and> c \<noteq> 0x23"
  by (auto simp: must_escape_def escape_uri_def)

definition plain :: "cu_state \<Rightarrow> bool" where
  "plain st \<longleftrightarrow> st \<noteq> cu_quoted \<and> st \<noteq> cu_quoted_second"

lemma step_plain_goes:
  assumes "cu_inv m x" and "plain (cu_state x)" and "c \<noteq> 0x25" and "c \<noteq> 0x3f" and "c \<noteq> 0x23"
    and "path_ok m (out x @ [c])"
  shows "\<exists>x'. step_plain m c x = CU_go x' \<and> out x' = out x @ [c] \<and> plain (cu_state x')"
proof -
  have e: "ends_as (cu_state x) (out x)" and p: "path_ok m (out x)"
    using assms(1,2) by (auto simp: cu_inv_def eff_state_def plain_def)
  show ?thesis
    using assms(2-6) e path_ok_snoc [OF p]
    by (cases "cu_state x")
      (auto simp: plain_def step_plain_def step_usual_def step_slash_def step_dot_def step_dot_dot_def
        cu_plus_or_put_def ends_as_def put_def)
qed


lemma hex_letter_digit:
  assumes "i < 16"
  shows "if i < 10 then is_dec_digit (escape_hex ! i) \<and> escape_hex ! i - 0x30 = word_of_nat i
    else \<not> is_dec_digit (escape_hex ! i) \<and> 0x61 \<le> escape_hex ! i OR 0x20 \<and> escape_hex ! i OR 0x20 \<le> 0x66
      \<and> (escape_hex ! i OR 0x20) - 0x61 + 10 = word_of_nat i"
proof -
  have "list_all (\<lambda>i. if i < 10 then is_dec_digit (escape_hex ! i) \<and> escape_hex ! i - 0x30 = word_of_nat i
    else \<not> is_dec_digit (escape_hex ! i) \<and> 0x61 \<le> escape_hex ! i OR 0x20 \<and> escape_hex ! i OR 0x20 \<le> 0x66
      \<and> (escape_hex ! i OR 0x20) - 0x61 + 10 = word_of_nat i) [0..<16]"
    by (simp add: upt_rec escape_hex_def is_dec_digit_def)
  with assms show ?thesis by (simp add: list_all_iff)
qed

lemma special_nibbles:
  "c = 0x25 \<or> c = 0x23 \<Longrightarrow> unat ((c :: u_char) AND 0xf) < 10"
  "c = 0x3f \<Longrightarrow> \<not> unat ((c :: u_char) AND 0xf) < 10"
  by auto

text \<open>The three bytes of an escape put the byte they stand for, read in the state before them.\<close>

lemma escape_first_digit:
  fixes c :: u_char
  assumes "cu_state x = cu_quoted"
  shows "complex_step m (escape_hex ! unat (drop_bit 4 c)) x =
    CU_go (x\<lparr>cu_quoted_uri := True, decoded := drop_bit 4 c, cu_state := cu_quoted_second\<rparr>)"
  using hex_letter_digit [OF nibbles(1), of c] assms
  by (auto simp: complex_step_def step_quoted_def Let_def split: if_splits)

lemma escape_second_digit:
  fixes c :: u_char
  assumes "cu_state x = cu_quoted_second" and "decoded x = drop_bit 4 c" and "c \<noteq> 0"
    and "y = (if c = 0x2b then x\<lparr>cu_plus := True\<rparr> else x)"
  shows "complex_step m (escape_hex ! unat (c AND 0xf)) x =
    (if c = 0x25 \<or> c = 0x23 \<or> c = 0x3f then CU_go (put cu_usual c x)
     else step_plain m c (y\<lparr>cu_state := quoted_state x\<rparr>))"
proof -
  let ?l = "escape_hex ! unat (c AND 0xf)"
  have w: "word_of_nat (unat (c AND 0xf)) = c AND 0xf" by simp
  have plus: "\<not> unat ((0x2b :: u_char) AND 0xf) < 10" by simp
  show ?thesis
  proof (cases "unat (c AND 0xf) < 10")
    case True
    then have l: "is_dec_digit ?l" "?l - 0x30 = c AND 0xf"
      using hex_letter_digit [OF nibbles(2), of c] by simp_all
    have v: "push_bit 4 (decoded x) + (?l - 0x30) = c" unfolding l(2) assms(2) by (rule nibbles(3))
    have "c \<noteq> 0x3f" "c \<noteq> 0x2b" using True special_nibbles(2) [of c] plus by auto
    then show ?thesis
      using assms(1,3,4) l(1) unfolding complex_step_def step_quoted_second_def Let_def v by simp
  next
    case False
    then have l: "\<not> is_dec_digit ?l" "0x61 \<le> ?l OR 0x20" "?l OR 0x20 \<le> 0x66"
        "(?l OR 0x20) - 0x61 + 10 = c AND 0xf"
      using hex_letter_digit [OF nibbles(2), of c] by simp_all
    have v: "push_bit 4 (decoded x) + ((?l OR 0x20) - 0x61) + 10 = c"
      using nibbles(3) [of c] l(4) by (simp only: add.assoc assms(2))
    have "c \<noteq> 0x25" "c \<noteq> 0x23" using False special_nibbles(1) [of c] by auto
    then show ?thesis
      using assms(1,3,4) l(1-3) unfolding complex_step_def step_quoted_second_def Let_def v by simp
  qed
qed

lemma step_plain_quote: "plain (cu_state x) \<Longrightarrow> complex_step m 0x25 x = CU_go (start_quote x)"
proof -
  have "\<not> usual 0x25" by (simp add: usual_def usual_table_def)
  then show "plain (cu_state x) \<Longrightarrow> complex_step m 0x25 x = CU_go (start_quote x)"
    by (cases "cu_state x") (auto simp: plain_def complex_step_def step_plain_def step_usual_def
      step_slash_def step_dot_def step_dot_dot_def)
qed

lemma complex_step_plain: "plain (cu_state x) \<Longrightarrow> complex_step m c x = step_plain m c x"
  by (cases "cu_state x") (simp_all add: plain_def complex_step_def)

text \<open>One byte of a normalised path, raw or escaped.\<close>

definition escaped_byte :: "u_char \<Rightarrow> bytes" where
  "escaped_byte c =
     (if must_escape escape_uri c
      then [0x25, escape_hex ! unat (drop_bit 4 c), escape_hex ! unat (c AND 0xf)] else [c])"

lemma escaped_byte_step:
  assumes "cu_inv m x" and "plain (cu_state x)" and "path_ok m (out x @ [c])"
  shows "\<exists>x'. complex_loop m (escaped_byte c @ s) x = complex_loop m s x'
    \<and> out x' = out x @ [c] \<and> plain (cu_state x') \<and> cu_inv m x'"
proof -
  have c0: "c \<noteq> 0" using assms(3) by (auto simp: path_ok_def)
  have goes: "\<exists>x'. step_plain m c y = CU_go x' \<and> out x' = out x @ [c] \<and> plain (cu_state x') \<and> cu_inv m x'"
    if "cu_inv m y" "plain (cu_state y)" "out y = out x" "c \<noteq> 0x25" "c \<noteq> 0x3f" "c \<noteq> 0x23" for y
    using step_plain_goes [OF that(1,2,4-6)] step_plain_ok [OF that(1) c0] that(3) assms(3) by auto
  show ?thesis
  proof (cases "must_escape escape_uri c")
    case False
    then show ?thesis
      using goes [OF assms(1,2)] escape_uri_raw [OF False] complex_step_plain [OF assms(2)]
      by (auto simp: escaped_byte_def)
  next
    case True
    define x2 where "x2 = (start_quote x)\<lparr>cu_quoted_uri := True, decoded := drop_bit 4 c,
      cu_state := cu_quoted_second\<rparr>"
    define y where "y = (if c = 0x2b then x2\<lparr>cu_plus := True\<rparr> else x2)\<lparr>cu_state := quoted_state x2\<rparr>"
    have y: "out y = out x" "cu_state y = cu_state x"
      by (simp_all add: y_def x2_def start_quote_def)
    have "cu_inv m y" using assms(1,2) y by (simp add: cu_inv_def eff_state_def plain_def)
    have e: "complex_step m (escape_hex ! unat (c AND 0xf)) x2 =
        (if c = 0x25 \<or> c = 0x23 \<or> c = 0x3f then CU_go (put cu_usual c x2) else step_plain m c y)"
      unfolding y_def by (rule escape_second_digit) (simp_all add: x2_def c0)
    have "complex_step m (escape_hex ! unat (drop_bit 4 c)) (start_quote x) = CU_go x2"
      using escape_first_digit [of "start_quote x"] by (simp add: x2_def start_quote_def)
    then have loop: "complex_loop m (escaped_byte c @ s) x =
        (case complex_step m (escape_hex ! unat (c AND 0xf)) x2 of
           CU_go x' \<Rightarrow> complex_loop m s x' | CU_args x' \<Rightarrow> Some (x', Some s)
         | CU_done x' \<Rightarrow> Some (x', None) | CU_invalid \<Rightarrow> None)"
      using True step_plain_quote [OF assms(2)] by (simp add: escaped_byte_def)
    show ?thesis
    proof (cases "c = 0x25 \<or> c = 0x23 \<or> c = 0x3f")
      case True
      have x2: "out x2 = out x" by (simp add: x2_def start_quote_def)
      have "cu_inv m (put cu_usual c x2)"
        by (rule cu_inv_put) (use True assms(3) x2 in \<open>auto intro!: ends_as_usual(1)\<close>)
      moreover have "out (put cu_usual c x2) = out x @ [c]" "plain (cu_state (put cu_usual c x2))"
        by (simp_all add: x2) (simp add: put_def plain_def)
      moreover note True
      ultimately show ?thesis using loop e by auto
    next
      case False
      then show ?thesis
        using goes [OF \<open>cu_inv m y\<close>] assms(2) y loop e by auto
    qed
  qed
qed

lemma escape_uri_bytes: "ngx_escape_uri p 0 = concat (map escaped_byte p)"
  unfolding ngx_escape_uri_def by (induction p) (simp_all add: escape_map_def escaped_byte_def)

lemma path_ok_prefix: "path_ok m (w @ s) \<Longrightarrow> w \<noteq> [] \<Longrightarrow> path_ok m w"
  using path_ok_take [of m "w @ s" "length w"] by simp

lemma complex_loop_escaped:
  "cu_inv m x \<Longrightarrow> plain (cu_state x) \<Longrightarrow> path_ok m (out x @ s) \<Longrightarrow>
   \<exists>x'. complex_loop m (concat (map escaped_byte s)) x = Some (x', None) \<and> out x' = out x @ s"
proof (induction s arbitrary: x)
  case Nil
  then show ?case by simp
next
  case (Cons c s)
  have "path_ok m (out x @ [c])" using path_ok_prefix [of m "out x @ [c]" s] Cons.prems(3) by simp
  from escaped_byte_step [OF Cons.prems(1,2) this] obtain x' where
    x': "complex_loop m (escaped_byte c @ concat (map escaped_byte s)) x
        = complex_loop m (concat (map escaped_byte s)) x'"
      "out x' = out x @ [c]" "plain (cu_state x')" "cu_inv m x'" by blast
  from Cons.IH [OF x'(4,3)] x' Cons.prems(3) show ?case by simp
qed

text \<open>
  C25. Escaping and parsing are inverse: a normalised path (it starts with a slash, has no NUL,
  no dot segment before its last segment and no doubled slash when slashes are merged) that is
  escaped by \<open>ngx_escape_uri\<close> and sent is read back as the same path, without arguments.
\<close>

theorem complex_uri_roundtrip:
  assumes "path_ok m p"
  shows "map_option (\<lambda>r. (uri r, args r)) (ngx_http_parse_complex_uri m pl qd (ngx_escape_uri p 0)) = Some (p, [])"
proof -
  from assms obtain s where p: "p = SLASH # s" by (auto simp: path_ok_def prefix_def)
  define x1 where "x1 = put cu_slash SLASH (complex_start pl qd)"
  have nu: "\<not> usual SLASH" "\<not> must_escape escape_uri SLASH"
    by (simp_all add: usual_def usual_table_def must_escape_def escape_uri_def)
  have first: "complex_loop m (ngx_escape_uri p 0) (complex_start pl qd) = complex_loop m (concat (map escaped_byte s)) x1"
    by (simp add: escape_uri_bytes p escaped_byte_def nu complex_step_def complex_start_def step_plain_def
      step_usual_def x1_def put_def)
  have x1: "out x1 = [SLASH]" "plain (cu_state x1)" "eff_state x1 = cu_slash"
    by (simp_all add: x1_def complex_start_def plain_def eff_state_def put_def)
  have "path_ok m (out x1)" using path_ok_prefix [of m "[SLASH]" s] assms by (simp add: p x1)
  then have "cu_inv m x1" by (simp add: cu_inv_def x1 ends_as_def)
  from complex_loop_escaped [OF this x1(2), of s] assms first show ?thesis
    by (auto simp: ngx_http_parse_complex_uri_def x1 p)
qed

theorem complex_uri_safe_witness:
  "uri (the (ngx_http_parse_complex_uri True False True (str_bytes ''/a/%2e%2E//b'')))
    = str_bytes ''/b'' \<and> \<not> sublist [SLASH, DOT, DOT, SLASH]
       (uri (the (ngx_http_parse_complex_uri True False True (str_bytes ''/a/%2e%2E//b''))))"
proof -
  have us: "usual 0x61" "usual 0x62" "\<not> usual 0x2f" "\<not> usual 0x25" "\<not> usual 0x2e"
    by (simp_all add: usual_def usual_table_def)
  have p: "ngx_http_parse_complex_uri True False True (SLASH # str_bytes ''a/%2e%2E//b'') =
      Some \<lparr>uri = str_bytes ''/b'', exten = None, args = [], uri_plus = False, uri_quoted = True\<rparr>"
    by (simp add: ngx_http_parse_complex_uri_def complex_start_def complex_step_def step_plain_def
      step_usual_def step_slash_def step_dot_def step_dot_dot_def us put_def start_quote_def step_quoted_def
      step_quoted_second_def is_dec_digit_def back_to_slash.simps Let_def)
  from complex_uri_safe [OF p] p show ?thesis by simp
qed

theorem complex_uri_roundtrip_witness:
  "map_option (\<lambda>r. (uri r, args r)) (ngx_http_parse_complex_uri True False False
     (ngx_escape_uri (str_bytes ''/a b?c/..'') 0)) = Some (str_bytes ''/a b?c/..'', [])"
  by (rule complex_uri_roundtrip) (simp add: path_ok_def dot_free_def merged_def sublist_Cons_right)

text \<open>
  A dot segment at the very end is left in the path, although the same segment before a
  slash is removed.
\<close>

theorem complex_uri_trailing_dots:
  "map_option uri (ngx_http_parse_complex_uri m False False (str_bytes ''/a/..'')) = Some (str_bytes ''/a/..'')
   \<and> map_option uri (ngx_http_parse_complex_uri m False False (str_bytes ''/a/../'')) = Some (str_bytes ''/'')"
proof -
  have us: "usual 0x61" "\<not> usual 0x2f" "\<not> usual 0x2e"
    by (simp_all add: usual_def usual_table_def)
  show ?thesis
    by (simp add: ngx_http_parse_complex_uri_def complex_start_def complex_step_def step_plain_def
      step_usual_def step_slash_def step_dot_def step_dot_dot_def us put_def back_to_slash.simps)
qed


end
