(* ===== verification/Step_Machine.thy ===== *)
theory Step_Machine
  imports Prelude
begin

text \<open>
  Processes that interleave: the states a step relation reaches, runs, and the interface
  \<open>step_invariant\<close> of a predicate that holds at the start and is kept by every step.
  The backing-off of the lock loops is here as well, since all the locks share it.
\<close>

inductive reach :: "('s \<Rightarrow> bool) \<Rightarrow> ('s \<Rightarrow> 's \<Rightarrow> bool) \<Rightarrow> 's \<Rightarrow> bool"
  for init :: "'s \<Rightarrow> bool" and step :: "'s \<Rightarrow> 's \<Rightarrow> bool"
where
  reach_init: "init s \<Longrightarrow> reach init step s"
| reach_step: "reach init step s \<Longrightarrow> step s t \<Longrightarrow> reach init step t"

lemma reach_steps: "step\<^sup>*\<^sup>* s t \<Longrightarrow> reach init step s \<Longrightarrow> reach init step t"
  by (induction rule: rtranclp_induct) (auto intro: reach_step)

locale step_invariant =
  fixes init :: "'s \<Rightarrow> bool" and step :: "'s \<Rightarrow> 's \<Rightarrow> bool" and I :: "'s \<Rightarrow> bool"
  assumes I_init: "init s \<Longrightarrow> I s"
    and I_step: "I s \<Longrightarrow> step s t \<Longrightarrow> I t"
begin

lemma reach_I: "reach init step s \<Longrightarrow> I s"
  by (induction rule: reach.induct) (auto intro: I_init I_step)

end

section \<open>Spinning\<close>

text \<open>
  A lock loop tries, then on a machine with several processors tries again after 1, 2, 4, ...
  pauses while that number is below \<open>spin\<close>, then yields and starts over. \<open>n\<close> is the number of
  pauses before the next try, 0 for the first try of a turn.
\<close>

definition next_spin :: "nat \<Rightarrow> nat \<Rightarrow> nat \<Rightarrow> nat" where
  "next_spin ncpu spin n =
     (let m = (if n = 0 then 1 else 2 * n) in if ncpu > 1 \<and> m < spin then m else 0)"

end
