(* ===== verification/Ngx_Rwlock.thy ===== *)
theory Ngx_Rwlock
  imports Step_Machine
begin

text \<open>
  The read-write lock of \<open>core/ngx_rwlock.c\<close>, run by any number of processes that
  interleave between the accesses to the lock word: each read of \<open>*lock\<close>, each compare-and-set
  and the store of the downgrade is one step. \<open>rw_hold\<close> is what a process holds; the code
  has no such variable, it records when a call returned and is used by the statements only.
\<close>

section \<open>The calls, one access at a time\<close>

definition NGX_RWLOCK_SPIN :: nat where "NGX_RWLOCK_SPIN = 2048"
definition NGX_RWLOCK_WLOCK :: u64 where "NGX_RWLOCK_WLOCK = - 1"

datatype rw_pc =
    RW_idle
  | RW_wtest nat | RW_wcas nat
  | RW_rtest nat | RW_rcas nat u64
  | RW_unlock | RW_unlock_w | RW_unlock_r u64
  | RW_downgrade | RW_downgrade_store

datatype rw_mode = RW_none | RW_read | RW_write

record rw_state =
  rw_lock :: u64
  rw_pc :: "nat \<Rightarrow> rw_pc"
  rw_hold :: "nat \<Rightarrow> rw_mode"

definition rw_goto :: "nat \<Rightarrow> rw_pc \<Rightarrow> rw_state \<Rightarrow> rw_state" where
  "rw_goto p c s = s\<lparr>rw_pc := (rw_pc s)(p := c)\<rparr>"

text \<open>A call returns with a new lock word and the process holding \<open>m\<close>.\<close>

definition rw_return :: "nat \<Rightarrow> u64 \<Rightarrow> rw_mode \<Rightarrow> rw_state \<Rightarrow> rw_state" where
  "rw_return p w m s = s\<lparr>rw_lock := w, rw_pc := (rw_pc s)(p := RW_idle), rw_hold := (rw_hold s)(p := m)\<rparr>"

definition rw_next_spin :: "nat \<Rightarrow> nat \<Rightarrow> nat" where
  "rw_next_spin ncpu n = next_spin ncpu NGX_RWLOCK_SPIN n"

text \<open>\<open>ngx_rwlock_wlock\<close>: the test, then the compare-and-set.\<close>

definition rw_wtest :: "nat \<Rightarrow> nat \<Rightarrow> nat \<Rightarrow> rw_state \<Rightarrow> rw_state" where
  "rw_wtest ncpu p n s =
     rw_goto p (if rw_lock s = 0 then RW_wcas n else RW_wtest (rw_next_spin ncpu n)) s"

definition rw_wcas :: "nat \<Rightarrow> nat \<Rightarrow> nat \<Rightarrow> rw_state \<Rightarrow> rw_state" where
  "rw_wcas ncpu p n s =
     (if rw_lock s = 0 then rw_return p NGX_RWLOCK_WLOCK RW_write s
      else rw_goto p (RW_wtest (rw_next_spin ncpu n)) s)"

text \<open>\<open>ngx_rwlock_rlock\<close>: \<open>readers\<close> is read once and compared twice.\<close>

definition rw_rtest :: "nat \<Rightarrow> nat \<Rightarrow> nat \<Rightarrow> rw_state \<Rightarrow> rw_state" where
  "rw_rtest ncpu p n s =
     (let readers = rw_lock s in
      rw_goto p (if readers \<noteq> NGX_RWLOCK_WLOCK then RW_rcas n readers
                 else RW_rtest (rw_next_spin ncpu n)) s)"

definition rw_rcas :: "nat \<Rightarrow> nat \<Rightarrow> nat \<Rightarrow> u64 \<Rightarrow> rw_state \<Rightarrow> rw_state" where
  "rw_rcas ncpu p n readers s =
     (if rw_lock s = readers then rw_return p (readers + 1) RW_read s
      else rw_goto p (RW_rtest (rw_next_spin ncpu n)) s)"

text \<open>
  \<open>ngx_rwlock_unlock\<close>: the result of the first compare-and-set is ignored; the loop of a
  reader reads the word again after a failure, without another comparison.
\<close>

definition rw_unlock :: "nat \<Rightarrow> rw_state \<Rightarrow> rw_state" where
  "rw_unlock p s =
     rw_goto p (if rw_lock s = NGX_RWLOCK_WLOCK then RW_unlock_w else RW_unlock_r (rw_lock s)) s"

definition rw_unlock_w :: "nat \<Rightarrow> rw_state \<Rightarrow> rw_state" where
  "rw_unlock_w p s =
     rw_return p (if rw_lock s = NGX_RWLOCK_WLOCK then 0 else rw_lock s) RW_none s"

definition rw_unlock_r :: "nat \<Rightarrow> u64 \<Rightarrow> rw_state \<Rightarrow> rw_state" where
  "rw_unlock_r p readers s =
     (if rw_lock s = readers then rw_return p (readers - 1) RW_none s
      else rw_goto p (RW_unlock_r (rw_lock s)) s)"

text \<open>\<open>ngx_rwlock_downgrade\<close>: a test and a plain store.\<close>

definition rw_downgrade :: "nat \<Rightarrow> rw_state \<Rightarrow> rw_state" where
  "rw_downgrade p s =
     rw_goto p (if rw_lock s = NGX_RWLOCK_WLOCK then RW_downgrade_store else RW_idle) s"

definition rw_downgrade_store :: "nat \<Rightarrow> rw_state \<Rightarrow> rw_state" where
  "rw_downgrade_store p s = rw_return p 1 RW_read s"

text \<open>
  The interleaving: process \<open>p\<close> of \<open>procs\<close> processes starts a call that its client may make
  (nobody locks twice, only a holder unlocks, only a writer downgrades) or does the next access
  of the call it is in.
\<close>

inductive rw_step :: "nat \<Rightarrow> nat \<Rightarrow> rw_state \<Rightarrow> rw_state \<Rightarrow> bool" for ncpu procs :: nat where
  "p < procs \<Longrightarrow> rw_pc s p = RW_idle \<Longrightarrow> rw_hold s p = RW_none \<Longrightarrow> rw_step ncpu procs s (rw_goto p (RW_wtest 0) s)"
| "p < procs \<Longrightarrow> rw_pc s p = RW_idle \<Longrightarrow> rw_hold s p = RW_none \<Longrightarrow> rw_step ncpu procs s (rw_goto p (RW_rtest 0) s)"
| "p < procs \<Longrightarrow> rw_pc s p = RW_idle \<Longrightarrow> rw_hold s p \<noteq> RW_none \<Longrightarrow> rw_step ncpu procs s (rw_goto p RW_unlock s)"
| "p < procs \<Longrightarrow> rw_pc s p = RW_idle \<Longrightarrow> rw_hold s p = RW_write \<Longrightarrow> rw_step ncpu procs s (rw_goto p RW_downgrade s)"
| "p < procs \<Longrightarrow> rw_pc s p = RW_wtest n \<Longrightarrow> rw_step ncpu procs s (rw_wtest ncpu p n s)"
| "p < procs \<Longrightarrow> rw_pc s p = RW_wcas n \<Longrightarrow> rw_step ncpu procs s (rw_wcas ncpu p n s)"
| "p < procs \<Longrightarrow> rw_pc s p = RW_rtest n \<Longrightarrow> rw_step ncpu procs s (rw_rtest ncpu p n s)"
| "p < procs \<Longrightarrow> rw_pc s p = RW_rcas n readers \<Longrightarrow> rw_step ncpu procs s (rw_rcas ncpu p n readers s)"
| "p < procs \<Longrightarrow> rw_pc s p = RW_unlock \<Longrightarrow> rw_step ncpu procs s (rw_unlock p s)"
| "p < procs \<Longrightarrow> rw_pc s p = RW_unlock_w \<Longrightarrow> rw_step ncpu procs s (rw_unlock_w p s)"
| "p < procs \<Longrightarrow> rw_pc s p = RW_unlock_r readers \<Longrightarrow> rw_step ncpu procs s (rw_unlock_r p readers s)"
| "p < procs \<Longrightarrow> rw_pc s p = RW_downgrade \<Longrightarrow> rw_step ncpu procs s (rw_downgrade p s)"
| "p < procs \<Longrightarrow> rw_pc s p = RW_downgrade_store \<Longrightarrow> rw_step ncpu procs s (rw_downgrade_store p s)"

definition rw_init :: "rw_state \<Rightarrow> bool" where
  "rw_init s \<longleftrightarrow> rw_lock s = 0 \<and> (\<forall>p. rw_pc s p = RW_idle \<and> rw_hold s p = RW_none)"

abbreviation rw_reach :: "nat \<Rightarrow> nat \<Rightarrow> rw_state \<Rightarrow> bool" where
  "rw_reach ncpu procs \<equiv> reach rw_init (rw_step ncpu procs)"

section \<open>The lock word counts the holders\<close>

definition rw_readers :: "nat \<Rightarrow> (nat \<Rightarrow> rw_mode) \<Rightarrow> nat set" where
  "rw_readers procs hold = {p. p < procs \<and> hold p = RW_read}"

text \<open>What a process in the middle of a call holds.\<close>

fun rw_pc_ok :: "rw_pc \<Rightarrow> rw_mode \<Rightarrow> bool" where
  "rw_pc_ok RW_idle h = True"
| "rw_pc_ok (RW_wtest n) h = (h = RW_none)"
| "rw_pc_ok (RW_wcas n) h = (h = RW_none)"
| "rw_pc_ok (RW_rtest n) h = (h = RW_none)"
| "rw_pc_ok (RW_rcas n r) h = (h = RW_none \<and> r \<noteq> NGX_RWLOCK_WLOCK)"
| "rw_pc_ok RW_unlock h = (h \<noteq> RW_none)"
| "rw_pc_ok RW_unlock_w h = (h = RW_write)"
| "rw_pc_ok (RW_unlock_r r) h = (h = RW_read \<and> r \<noteq> NGX_RWLOCK_WLOCK)"
| "rw_pc_ok RW_downgrade h = (h = RW_write)"
| "rw_pc_ok RW_downgrade_store h = (h = RW_write)"

definition rw_word_ok :: "nat \<Rightarrow> u64 \<Rightarrow> (nat \<Rightarrow> rw_mode) \<Rightarrow> bool" where
  "rw_word_ok procs w hold \<longleftrightarrow>
     (if \<exists>p. hold p = RW_write
      then w = NGX_RWLOCK_WLOCK \<and> rw_readers procs hold = {}
        \<and> (\<forall>p q. p \<noteq> q \<longrightarrow> hold p \<noteq> RW_write \<or> hold q \<noteq> RW_write)
      else w = word_of_nat (card (rw_readers procs hold)))"

definition rw_inv :: "nat \<Rightarrow> rw_state \<Rightarrow> bool" where
  "rw_inv procs s \<longleftrightarrow> rw_word_ok procs (rw_lock s) (rw_hold s) \<and> (\<forall>p. rw_pc_ok (rw_pc s p) (rw_hold s p))
     \<and> (\<forall>p. procs \<le> p \<longrightarrow> rw_hold s p = RW_none)"


lemma finite_readers: "finite (rw_readers procs hold)"
  by (simp add: rw_readers_def)

lemma word_of_card:
  assumes "procs < 2 ^ 64 - 1"
  shows "word_of_nat (card (rw_readers procs hold)) \<noteq> NGX_RWLOCK_WLOCK"
    and "word_of_nat (card (rw_readers procs hold)) = (0 :: u64) \<longleftrightarrow> rw_readers procs hold = {}"
proof -
  have "rw_readers procs hold \<subseteq> {..<procs}" by (auto simp: rw_readers_def)
  then have c: "card (rw_readers procs hold) \<le> procs" using card_mono [of "{..<procs}"] by simp
  have u: "unat (word_of_nat (card (rw_readers procs hold)) :: u64) = card (rw_readers procs hold)"
    using c assms by (simp add: unat_of_nat)
  have "unat NGX_RWLOCK_WLOCK = 2 ^ 64 - 1"
    by (simp add: NGX_RWLOCK_WLOCK_def unsigned_minus_1_eq_mask mask_eq_exp_minus_1)
  then show "word_of_nat (card (rw_readers procs hold)) \<noteq> NGX_RWLOCK_WLOCK" using u c assms by auto
  show "word_of_nat (card (rw_readers procs hold)) = (0 :: u64) \<longleftrightarrow> rw_readers procs hold = {}"
    using u finite_readers by (metis card_0_eq unat_0 unat_eq_zero)
qed

text \<open>What the lock word says of the holders, and the holders of the lock word.\<close>

lemma lock_zero:
  assumes "procs < 2 ^ 64 - 1" and "rw_word_ok procs 0 hold"
  shows "hold p \<noteq> RW_write \<and> rw_readers procs hold = {}"
  using assms word_of_card [OF assms(1), of hold]
  by (auto simp: rw_word_ok_def NGX_RWLOCK_WLOCK_def split: if_splits)

lemma lock_read:
  assumes "rw_word_ok procs w hold" and "w \<noteq> NGX_RWLOCK_WLOCK"
  shows "hold p \<noteq> RW_write \<and> w = word_of_nat (card (rw_readers procs hold))"
  using assms by (auto simp: rw_word_ok_def split: if_splits)

lemma hold_write_lock:
  "rw_word_ok procs w hold \<Longrightarrow> hold p = RW_write \<Longrightarrow>
   w = NGX_RWLOCK_WLOCK \<and> rw_readers procs hold = {} \<and> (\<forall>q. q \<noteq> p \<longrightarrow> hold q \<noteq> RW_write)"
  by (auto simp: rw_word_ok_def split: if_splits)

lemma hold_read_lock:
  assumes "procs < 2 ^ 64 - 1" and "rw_word_ok procs w hold" and "hold p = RW_read" and "p < procs"
  shows "w \<noteq> NGX_RWLOCK_WLOCK"
proof -
  have "p \<in> rw_readers procs hold" using assms(3,4) by (simp add: rw_readers_def)
  then show ?thesis using assms(2) word_of_card(1) [OF assms(1)]
    by (auto simp: rw_word_ok_def split: if_splits)
qed

lemma rw_readers_upd:
  "p < procs \<Longrightarrow> rw_readers procs (hold(p := m)) =
     (if m = RW_read then insert p (rw_readers procs hold) else rw_readers procs hold - {p})"
  by (auto simp: rw_readers_def)

text \<open>The five ways a call returns.\<close>

lemma return_write:
  assumes "procs < 2 ^ 64 - 1" and "rw_word_ok procs 0 hold" and "p < procs"
  shows "rw_word_ok procs NGX_RWLOCK_WLOCK (hold(p := RW_write))"
  using lock_zero [OF assms(1,2)] rw_readers_upd [OF assms(3)]
  by (auto simp: rw_word_ok_def)

lemma return_read:
  assumes "rw_word_ok procs w hold" and "w \<noteq> NGX_RWLOCK_WLOCK" and "p < procs" and "hold p = RW_none"
  shows "rw_word_ok procs (w + 1) (hold(p := RW_read))"
proof -
  have "p \<notin> rw_readers procs hold" using assms(4) by (simp add: rw_readers_def)
  then have "card (rw_readers procs (hold(p := RW_read))) = Suc (card (rw_readers procs hold))"
    by (simp add: rw_readers_upd [OF assms(3)] finite_readers)
  then show ?thesis using lock_read [OF assms(1,2)] by (auto simp: rw_word_ok_def)
qed

lemma release_read:
  assumes "rw_word_ok procs w hold" and "w \<noteq> NGX_RWLOCK_WLOCK" and "p < procs" and "hold p = RW_read"
  shows "rw_word_ok procs (w - 1) (hold(p := RW_none))"
proof -
  let ?h = "hold(p := RW_none)"
  have "p \<in> rw_readers procs hold" using assms(3,4) by (simp add: rw_readers_def)
  then have c: "card (rw_readers procs hold) = Suc (card (rw_readers procs ?h))"
    using card_Suc_Diff1 [OF finite_readers] by (simp add: rw_readers_upd [OF assms(3)])
  have no: "?h q \<noteq> RW_write" for q using lock_read [OF assms(1,2), of q] by simp
  have "w - 1 = word_of_nat (card (rw_readers procs ?h))"
    using lock_read [OF assms(1,2)] c by simp
  with no show ?thesis unfolding rw_word_ok_def by simp
qed

lemma release_write:
  assumes "rw_word_ok procs w hold" and "hold p = RW_write" and "p < procs"
  shows "rw_word_ok procs 0 (hold(p := RW_none))" and "rw_word_ok procs 1 (hold(p := RW_read))"
proof -
  note H = hold_write_lock [OF assms(1,2)]
  have r: "rw_readers procs (hold(p := RW_none)) = {}" "rw_readers procs (hold(p := RW_read)) = {p}"
    using H by (simp_all add: rw_readers_upd [OF assms(3)])
  show "rw_word_ok procs 0 (hold(p := RW_none))" "rw_word_ok procs 1 (hold(p := RW_read))"
    using H unfolding rw_word_ok_def r by simp_all
qed

lemma rw_inv_goto:
  "rw_inv procs s \<Longrightarrow> rw_pc_ok c (rw_hold s p) \<Longrightarrow> rw_inv procs (rw_goto p c s)"
  by (auto simp: rw_inv_def rw_goto_def)

lemma rw_inv_return:
  "rw_inv procs s \<Longrightarrow> p < procs \<Longrightarrow> rw_word_ok procs w ((rw_hold s)(p := m)) \<Longrightarrow>
   rw_inv procs (rw_return p w m s)"
  by (auto simp: rw_inv_def rw_return_def)

lemma rw_inv_step:
  assumes n: "procs < 2 ^ 64 - 1" and I: "rw_inv procs s" and st: "rw_step ncpu procs s t"
  shows "rw_inv procs t"
proof -
  have w: "rw_word_ok procs (rw_lock s) (rw_hold s)" and pcs: "rw_pc_ok (rw_pc s p) (rw_hold s p)" for p
    using I by (auto simp: rw_inv_def)
  note go = rw_inv_goto [OF I] and ret = rw_inv_return [OF I]
  from st show ?thesis
  proof cases
    case (5 p n)
    then show ?thesis using pcs [of p] by (auto simp: rw_wtest_def intro: go)
  next
    case (6 p n)
    then show ?thesis using pcs [of p] return_write [OF assms(1)] w
      by (auto simp: rw_wcas_def intro: go ret)
  next
    case (7 p n)
    then show ?thesis using pcs [of p] by (auto simp: rw_rtest_def Let_def intro: go)
  next
    case (8 p n readers)
    then show ?thesis using pcs [of p] return_read [OF w]
      by (auto simp: rw_rcas_def intro: go ret)
  next
    case (9 p)
    then show ?thesis using pcs [of p] hold_write_lock [OF w, of p] hold_read_lock [OF n w, of p]
      by (cases "rw_hold s p") (auto simp: rw_unlock_def intro: go)
  next
    case (10 p)
    then show ?thesis using pcs [of p] hold_write_lock [OF w, of p] release_write [OF w, of p]
      by (auto simp: rw_unlock_w_def intro: ret)
  next
    case (11 p readers)
    then show ?thesis using pcs [of p] hold_read_lock [OF n w, of p] release_read [OF w]
      by (auto simp: rw_unlock_r_def intro: go ret)
  next
    case (12 p)
    then show ?thesis using pcs [of p] by (auto simp: rw_downgrade_def intro: go)
  next
    case (13 p)
    then show ?thesis using pcs [of p] release_write [OF w, of p]
      by (auto simp: rw_downgrade_store_def intro: ret)
  qed (auto intro: go)
qed

lemma rw_inv_init: "rw_init s \<Longrightarrow> rw_inv procs s"
  by (auto simp: rw_init_def rw_inv_def rw_word_ok_def rw_readers_def)

interpretation rw: step_invariant rw_init "rw_step ncpu procs" "\<lambda>s. procs < 2 ^ 64 - 1 \<longrightarrow> rw_inv procs s"
  for ncpu procs
  by unfold_locales (auto intro: rw_inv_init rw_inv_step)

lemma rw_reach_inv: "procs < 2 ^ 64 - 1 \<Longrightarrow> rw_reach ncpu procs s \<Longrightarrow> rw_inv procs s"
  using rw.reach_I by blast

text \<open>
  C19. The read-write lock excludes: in every state that up to \<open>2 ^ 64 - 2\<close> processes can reach by
  locking, unlocking and downgrading in any interleaving, a process that holds the lock for
  writing is the only holder and the lock word is \<open>NGX_RWLOCK_WLOCK\<close>, and while no process holds
  it for writing the word is the number of its readers, so that it is 0 again as soon as the last
  holder has left.
\<close>

theorem rwlock_exclusion:
  assumes "procs < 2 ^ 64 - 1" and "rw_reach ncpu procs s"
  shows "(\<forall>p. rw_hold s p = RW_write \<longrightarrow>
      (\<forall>q. q = p \<or> rw_hold s q = RW_none) \<and> rw_lock s = NGX_RWLOCK_WLOCK) \<and>
    ((\<forall>p. rw_hold s p \<noteq> RW_write) \<longrightarrow> rw_lock s = word_of_nat (card (rw_readers procs (rw_hold s))))"
proof -
  have I: "rw_inv procs s" by (rule rw_reach_inv [OF assms])
  then have w: "rw_word_ok procs (rw_lock s) (rw_hold s)" by (simp add: rw_inv_def)
  have only: "q = p \<or> rw_hold s q = RW_none" if p: "rw_hold s p = RW_write" for p q
  proof (cases "rw_hold s q")
    case RW_read
    then have "q < procs" using I by (metis rw_inv_def not_le rw_mode.distinct(1))
    then have "q \<in> rw_readers procs (rw_hold s)" using RW_read by (simp add: rw_readers_def)
    then show ?thesis using hold_write_lock [OF w p] by auto
  next
    case RW_write
    then show ?thesis using hold_write_lock [OF w p] by auto
  qed simp
  have "rw_lock s = word_of_nat (card (rw_readers procs (rw_hold s)))" if "\<forall>p. rw_hold s p \<noteq> RW_write"
    using w that by (auto simp: rw_word_ok_def split: if_splits)
  then show ?thesis using only hold_write_lock [OF w] by blast
qed

text \<open>
  Nothing is lost: when no process holds the lock and none is inside a call, the word is 0
  again and a writer alone takes the lock in three steps.
\<close>

theorem rwlock_progress:
  assumes "procs < 2 ^ 64 - 1" and "rw_reach ncpu procs s" and "p < procs"
    and "\<forall>q. rw_pc s q = RW_idle \<and> rw_hold s q = RW_none"
  shows "rw_lock s = 0 \<and> (\<exists>t. (rw_step ncpu procs)\<^sup>*\<^sup>* s t \<and> rw_hold t p = RW_write)"
proof -
  have "rw_word_ok procs (rw_lock s) (rw_hold s)" using rw_reach_inv [OF assms(1,2)] by (simp add: rw_inv_def)
  then have z: "rw_lock s = 0" using assms(4) by (simp add: rw_word_ok_def rw_readers_def)
  let ?s1 = "rw_goto p (RW_wtest 0) s" and ?s2 = "rw_goto p (RW_wcas 0) (rw_goto p (RW_wtest 0) s)"
  have "rw_step ncpu procs s ?s1" using assms(3,4) by (intro rw_step.intros(1)) auto
  moreover have "rw_step ncpu procs ?s1 ?s2"
    using rw_step.intros(5) [of p procs ?s1 0 ncpu] assms(3) z by (simp add: rw_wtest_def rw_goto_def)
  moreover have "rw_step ncpu procs ?s2 (rw_return p NGX_RWLOCK_WLOCK RW_write ?s2)"
    using rw_step.intros(6) [of p procs ?s2 0 ncpu] assms(3) z by (simp add: rw_wcas_def rw_goto_def)
  ultimately have "(rw_step ncpu procs)\<^sup>*\<^sup>* s (rw_return p NGX_RWLOCK_WLOCK RW_write ?s2)"
    by (meson converse_rtranclp_into_rtranclp rtranclp.rtrancl_refl)
  moreover have "rw_hold (rw_return p NGX_RWLOCK_WLOCK RW_write ?s2) p = RW_write"
    by (simp add: rw_return_def)
  ultimately show ?thesis using z by blast
qed

section \<open>Witnesses\<close>

definition rw_free :: rw_state where
  "rw_free = \<lparr>rw_lock = 0, rw_pc = (\<lambda>p. RW_idle), rw_hold = (\<lambda>p. RW_none)\<rparr>"

lemma rw_free_reach: "rw_reach 2 3 rw_free"
  by (rule reach_init) (simp add: rw_init_def rw_free_def)

text \<open>Process 1 locks for writing.\<close>

definition rw_locked :: rw_state where
  "rw_locked = rw_wcas 2 1 0 (rw_wtest 2 1 0 (rw_goto 1 (RW_wtest 0) rw_free))"

lemma rw_locked_reach: "rw_reach 2 3 rw_locked"
proof -
  let ?s1 = "rw_goto 1 (RW_wtest 0) rw_free"
  have "rw_step 2 3 rw_free ?s1" by (intro rw_step.intros(1)) (simp_all add: rw_free_def)
  moreover have "rw_step 2 3 ?s1 (rw_wtest 2 1 0 ?s1)"
    by (intro rw_step.intros(5)) (simp_all add: rw_goto_def)
  moreover have "rw_step 2 3 (rw_wtest 2 1 0 ?s1) rw_locked"
    unfolding rw_locked_def
    by (intro rw_step.intros(6)) (simp_all add: rw_goto_def rw_wtest_def rw_free_def)
  ultimately show ?thesis using rw_free_reach by (meson reach_step)
qed

theorem rwlock_exclusion_witness:
  "rw_hold rw_locked 1 = RW_write \<and> rw_hold rw_locked 2 = RW_none \<and> rw_lock rw_locked = NGX_RWLOCK_WLOCK"
proof -
  have h: "rw_hold rw_locked 1 = RW_write"
    by (simp add: rw_locked_def rw_wcas_def rw_wtest_def rw_goto_def rw_return_def rw_free_def)
  have "(\<forall>q. q = 1 \<or> rw_hold rw_locked q = RW_none) \<and> rw_lock rw_locked = NGX_RWLOCK_WLOCK"
    using rwlock_exclusion [OF _ rw_locked_reach] h by simp
  then have "2 = (1 :: nat) \<or> rw_hold rw_locked 2 = RW_none" "rw_lock rw_locked = NGX_RWLOCK_WLOCK" by blast+
  with h show ?thesis by simp
qed

theorem rwlock_progress_witness:
  "\<exists>t. (rw_step 2 3)\<^sup>*\<^sup>* rw_free t \<and> rw_hold t 1 = RW_write"
  using rwlock_progress [OF _ rw_free_reach, of 1] by (simp add: rw_free_def)


end
