(* ===== verification/Ngx_Shmtx.thy ===== *)
theory Ngx_Shmtx
  imports Step_Machine
begin

text \<open>
  The mutex in shared memory of \<open>core/ngx_shmtx.c\<close>, in the build with atomic operations and
  POSIX semaphores. Processes are their pids; each access to the lock word, to the wait counter
  and to the semaphore is one step, so that every interleaving is a run. \<open>sh_hold\<close> says which
  processes a call has returned to with the lock, and is used by the statements only. The
  semaphore is the library's: \<open>sem_wait\<close> blocks while its value is 0 and is restarted when it is
  interrupted, the other errors of \<open>sem_wait\<close> and \<open>sem_post\<close> are not modelled. A process may
  die outside the calls, with or without the lock.
\<close>

section \<open>The calls, one access at a time\<close>

datatype sh_pc =
    SH_idle | SH_dead
  | SH_trytest | SH_trycas
  | SH_test nat | SH_cas nat | SH_add | SH_test2 | SH_cas2 | SH_undo | SH_sleep
  | SH_unlock | SH_force u64 | SH_wread | SH_wcas u64 | SH_post

record shmtx =
  sh_lock :: u64
  sh_wait :: u64
  sh_sem :: nat
  sh_pc :: "u64 \<Rightarrow> sh_pc"
  sh_hold :: "u64 \<Rightarrow> bool"

text \<open>The settings of a mutex that do not change: \<open>ngx_ncpu\<close>, \<open>spin\<close> and \<open>semaphore\<close>.\<close>

record shmtx_conf =
  ncpu :: nat
  spin :: nat
  semaphore :: bool

definition sh_goto :: "u64 \<Rightarrow> sh_pc \<Rightarrow> shmtx \<Rightarrow> shmtx" where
  "sh_goto p c s = s\<lparr>sh_pc := (sh_pc s)(p := c)\<rparr>"

definition sh_take :: "u64 \<Rightarrow> sh_pc \<Rightarrow> shmtx \<Rightarrow> shmtx" where
  "sh_take p c s = sh_goto p c (s\<lparr>sh_lock := p, sh_hold := (sh_hold s)(p := True)\<rparr>)"

text \<open>\<open>ngx_shmtx_trylock\<close>\<close>

definition sh_trytest :: "u64 \<Rightarrow> shmtx \<Rightarrow> shmtx" where
  "sh_trytest p s = sh_goto p (if sh_lock s = 0 then SH_trycas else SH_idle) s"

definition sh_trycas :: "u64 \<Rightarrow> shmtx \<Rightarrow> shmtx" where
  "sh_trycas p s = (if sh_lock s = 0 then sh_take p SH_idle s else sh_goto p SH_idle s)"

text \<open>
  \<open>ngx_shmtx_lock\<close>: after a failure the next pause, or the end of a turn, which is the
  semaphore or a yield. (The code doubles the pause in a word: with a \<open>spin\<close> above \<open>2 ^ 63\<close> it would
  wrap to 0 and never reach the end of a turn; nginx sets \<open>spin\<close> to 2048, or to \<open>-1\<close> for the
  accept mutex, which is only tried.)
\<close>

definition sh_retry :: "shmtx_conf \<Rightarrow> nat \<Rightarrow> sh_pc" where
  "sh_retry cf n =
     (let m = next_spin (ncpu cf) (spin cf) n in
      if m \<noteq> 0 then SH_test m else if semaphore cf then SH_add else SH_test 0)"

definition sh_test :: "shmtx_conf \<Rightarrow> u64 \<Rightarrow> nat \<Rightarrow> shmtx \<Rightarrow> shmtx" where
  "sh_test cf p n s = sh_goto p (if sh_lock s = 0 then SH_cas n else sh_retry cf n) s"

definition sh_cas :: "shmtx_conf \<Rightarrow> u64 \<Rightarrow> nat \<Rightarrow> shmtx \<Rightarrow> shmtx" where
  "sh_cas cf p n s = (if sh_lock s = 0 then sh_take p SH_idle s else sh_goto p (sh_retry cf n) s)"

definition sh_add :: "u64 \<Rightarrow> shmtx \<Rightarrow> shmtx" where
  "sh_add p s = sh_goto p SH_test2 (s\<lparr>sh_wait := sh_wait s + 1\<rparr>)"

definition sh_test2 :: "u64 \<Rightarrow> shmtx \<Rightarrow> shmtx" where
  "sh_test2 p s = sh_goto p (if sh_lock s = 0 then SH_cas2 else SH_sleep) s"

definition sh_cas2 :: "u64 \<Rightarrow> shmtx \<Rightarrow> shmtx" where
  "sh_cas2 p s = (if sh_lock s = 0 then sh_take p SH_undo s else sh_goto p SH_sleep s)"

definition sh_undo :: "u64 \<Rightarrow> shmtx \<Rightarrow> shmtx" where
  "sh_undo p s = sh_goto p SH_idle (s\<lparr>sh_wait := sh_wait s + (- 1)\<rparr>)"

definition sh_awake :: "u64 \<Rightarrow> shmtx \<Rightarrow> shmtx" where
  "sh_awake p s = sh_goto p (SH_test 0) (s\<lparr>sh_sem := sh_sem s - 1\<rparr>)"

text \<open>\<open>ngx_shmtx_unlock\<close> and \<open>ngx_shmtx_force_unlock\<close>, which go on to \<open>ngx_shmtx_wakeup\<close>.\<close>

definition sh_release :: "shmtx_conf \<Rightarrow> u64 \<Rightarrow> u64 \<Rightarrow> shmtx \<Rightarrow> shmtx" where
  "sh_release cf p pid s =
     (if sh_lock s = pid
      then sh_goto p (if semaphore cf then SH_wread else SH_idle)
             (s\<lparr>sh_lock := 0, sh_hold := (sh_hold s)(pid := False)\<rparr>)
      else sh_goto p SH_idle s)"

definition sh_wread :: "u64 \<Rightarrow> shmtx \<Rightarrow> shmtx" where
  "sh_wread p s = sh_goto p (if sint (sh_wait s) \<le> 0 then SH_idle else SH_wcas (sh_wait s)) s"

definition sh_wcas :: "u64 \<Rightarrow> u64 \<Rightarrow> shmtx \<Rightarrow> shmtx" where
  "sh_wcas p w s =
     (if sh_wait s = w then sh_goto p SH_post (s\<lparr>sh_wait := w - 1\<rparr>) else sh_goto p SH_wread s)"

definition sh_post :: "u64 \<Rightarrow> shmtx \<Rightarrow> shmtx" where
  "sh_post p s = sh_goto p SH_idle (s\<lparr>sh_sem := sh_sem s + 1\<rparr>)"

text \<open>
  The interleaving of the processes \<open>P\<close>: a process outside the calls starts one (the lock is
  not taken twice, the lock is forced only when its holder is dead), dies, or a process does
  its next access.
\<close>

inductive sh_step :: "shmtx_conf \<Rightarrow> u64 set \<Rightarrow> shmtx \<Rightarrow> shmtx \<Rightarrow> bool" for cf :: shmtx_conf and P :: "u64 set" where
  start_try: "p \<in> P \<Longrightarrow> sh_pc s p = SH_idle \<Longrightarrow> \<not> sh_hold s p \<Longrightarrow> sh_step cf P s (sh_goto p SH_trytest s)"
| start_lock: "p \<in> P \<Longrightarrow> sh_pc s p = SH_idle \<Longrightarrow> \<not> sh_hold s p \<Longrightarrow> sh_step cf P s (sh_goto p (SH_test 0) s)"
| start_unlock: "p \<in> P \<Longrightarrow> sh_pc s p = SH_idle \<Longrightarrow> sh_step cf P s (sh_goto p SH_unlock s)"
| start_force: "p \<in> P \<Longrightarrow> sh_pc s p = SH_idle \<Longrightarrow> q \<in> P \<Longrightarrow> sh_pc s q = SH_dead \<Longrightarrow>
    sh_step cf P s (sh_goto p (SH_force q) s)"
| die: "p \<in> P \<Longrightarrow> sh_pc s p = SH_idle \<Longrightarrow> sh_step cf P s (sh_goto p SH_dead s)"
| trytest: "p \<in> P \<Longrightarrow> sh_pc s p = SH_trytest \<Longrightarrow> sh_step cf P s (sh_trytest p s)"
| trycas: "p \<in> P \<Longrightarrow> sh_pc s p = SH_trycas \<Longrightarrow> sh_step cf P s (sh_trycas p s)"
| test: "p \<in> P \<Longrightarrow> sh_pc s p = SH_test n \<Longrightarrow> sh_step cf P s (sh_test cf p n s)"
| cas: "p \<in> P \<Longrightarrow> sh_pc s p = SH_cas n \<Longrightarrow> sh_step cf P s (sh_cas cf p n s)"
| add: "p \<in> P \<Longrightarrow> sh_pc s p = SH_add \<Longrightarrow> sh_step cf P s (sh_add p s)"
| test2: "p \<in> P \<Longrightarrow> sh_pc s p = SH_test2 \<Longrightarrow> sh_step cf P s (sh_test2 p s)"
| cas2: "p \<in> P \<Longrightarrow> sh_pc s p = SH_cas2 \<Longrightarrow> sh_step cf P s (sh_cas2 p s)"
| undo: "p \<in> P \<Longrightarrow> sh_pc s p = SH_undo \<Longrightarrow> sh_step cf P s (sh_undo p s)"
| awake: "p \<in> P \<Longrightarrow> sh_pc s p = SH_sleep \<Longrightarrow> 0 < sh_sem s \<Longrightarrow> sh_step cf P s (sh_awake p s)"
| unlock: "p \<in> P \<Longrightarrow> sh_pc s p = SH_unlock \<Longrightarrow> sh_step cf P s (sh_release cf p p s)"
| force: "p \<in> P \<Longrightarrow> sh_pc s p = SH_force q \<Longrightarrow> sh_step cf P s (sh_release cf p q s)"
| wread: "p \<in> P \<Longrightarrow> sh_pc s p = SH_wread \<Longrightarrow> sh_step cf P s (sh_wread p s)"
| wcas: "p \<in> P \<Longrightarrow> sh_pc s p = SH_wcas w \<Longrightarrow> sh_step cf P s (sh_wcas p w s)"
| post: "p \<in> P \<Longrightarrow> sh_pc s p = SH_post \<Longrightarrow> sh_step cf P s (sh_post p s)"

definition sh_init :: "shmtx \<Rightarrow> bool" where
  "sh_init s \<longleftrightarrow> sh_lock s = 0 \<and> sh_wait s = 0 \<and> sh_sem s = 0
     \<and> (\<forall>p. sh_pc s p = SH_idle \<and> \<not> sh_hold s p)"

abbreviation sh_reach :: "shmtx_conf \<Rightarrow> u64 set \<Rightarrow> shmtx \<Rightarrow> bool" where
  "sh_reach cf P \<equiv> reach sh_init (sh_step cf P)"

section \<open>Counting processes\<close>

definition cnt :: "u64 set \<Rightarrow> (sh_pc \<Rightarrow> bool) \<Rightarrow> (u64 \<Rightarrow> sh_pc) \<Rightarrow> int" where
  "cnt P f pc = (\<Sum>q\<in>P. of_bool (f (pc q)))"

lemma cnt_upd:
  assumes "finite P" and "p \<in> P"
  shows "cnt P f (pc(p := c)) = cnt P f pc + of_bool (f c) - of_bool (f (pc p))"
proof -
  note r = sum.remove [OF assms]
  have "(\<Sum>q\<in>P - {p}. of_bool (f ((pc(p := c)) q)) :: int) = (\<Sum>q\<in>P - {p}. of_bool (f (pc q)))"
    by (rule sum.cong) simp_all
  then show ?thesis unfolding cnt_def r [of "\<lambda>q. of_bool (f ((pc(p := c)) q)) :: int"]
      r [of "\<lambda>q. of_bool (f (pc q)) :: int"] by simp
qed

lemma cnt_nonneg: "0 \<le> cnt P f pc"
  unfolding cnt_def by (rule sum_nonneg) simp

lemma cnt_le: "cnt P f pc \<le> int (card P)"
  using sum_bounded_above [of P "\<lambda>q. of_bool (f (pc q))" "1 :: int"] unfolding cnt_def by simp

lemma cnt_pos: "finite P \<Longrightarrow> 0 < cnt P f pc \<Longrightarrow> \<exists>q\<in>P. f (pc q)"
  unfolding cnt_def by (metis (mono_tags, lifting) less_irrefl of_bool_eq(1) sum.neutral)

lemma cnt_mem: "finite P \<Longrightarrow> p \<in> P \<Longrightarrow> f (pc p) \<Longrightarrow> 0 < cnt P f pc"
  using cnt_nonneg [of "P - {p}" f pc] unfolding cnt_def
  by (simp only: sum.remove [of P p]) simp

lemma sint_small: "- (2 ^ 62) \<le> k \<Longrightarrow> k \<le> 2 ^ 62 \<Longrightarrow> sint (word_of_int k :: u64) = k"
  by (simp add: signed_of_int signed_take_bit_int_eq_self)

section \<open>The invariant\<close>

text \<open>A process that has announced itself as a waiter; one that will still look at the lock.\<close>

fun sh_waits :: "sh_pc \<Rightarrow> bool" where
  "sh_waits SH_test2 = True" | "sh_waits SH_cas2 = True" | "sh_waits SH_undo = True"
| "sh_waits SH_sleep = True" | "sh_waits _ = False"

fun sh_posts :: "sh_pc \<Rightarrow> bool" where
  "sh_posts SH_post = True" | "sh_posts _ = False"

fun sh_active :: "sh_pc \<Rightarrow> bool" where
  "sh_active (SH_test n) = True" | "sh_active (SH_cas n) = True" | "sh_active SH_add = True"
| "sh_active SH_test2 = True" | "sh_active SH_cas2 = True" | "sh_active SH_wread = True"
| "sh_active (SH_wcas w) = True" | "sh_active SH_post = True" | "sh_active _ = False"

text \<open>Where a process can be when it holds the lock, and when it does not.\<close>

definition sh_pc_ok :: "bool \<Rightarrow> (u64 \<Rightarrow> sh_pc) \<Rightarrow> sh_pc \<Rightarrow> bool \<Rightarrow> bool" where
  "sh_pc_ok sema pc c h \<longleftrightarrow>
     (h \<longrightarrow> (case c of SH_idle \<Rightarrow> True | SH_dead \<Rightarrow> True | SH_undo \<Rightarrow> True | SH_unlock \<Rightarrow> True | SH_force q \<Rightarrow> True | _ \<Rightarrow> False))
     \<and> (c = SH_undo \<longrightarrow> h)
     \<and> (case c of SH_force q \<Rightarrow> pc q = SH_dead | _ \<Rightarrow> True)
     \<and> (case c of SH_wcas w \<Rightarrow> 0 < sint w | _ \<Rightarrow> True)
     \<and> (sh_waits c \<or> c = SH_add \<longrightarrow> sema)"

definition sh_lock_ok :: "u64 set \<Rightarrow> u64 \<Rightarrow> (u64 \<Rightarrow> bool) \<Rightarrow> bool" where
  "sh_lock_ok P l hold \<longleftrightarrow> l \<in> insert 0 P \<and> (\<forall>p. hold p \<longleftrightarrow> p \<in> P \<and> l = p)"

definition sh_wait_ok :: "u64 set \<Rightarrow> u64 \<Rightarrow> nat \<Rightarrow> (u64 \<Rightarrow> sh_pc) \<Rightarrow> bool" where
  "sh_wait_ok P w sem pc \<longleftrightarrow>
     w = word_of_int (cnt P sh_waits pc - int sem - cnt P sh_posts pc)
     \<and> int sem + cnt P sh_posts pc \<le> int (card P)"

definition sh_live :: "u64 set \<Rightarrow> u64 \<Rightarrow> nat \<Rightarrow> (u64 \<Rightarrow> sh_pc) \<Rightarrow> bool" where
  "sh_live P l sem pc \<longleftrightarrow> (l = 0 \<and> 0 < cnt P sh_waits pc \<longrightarrow> 0 < sem \<or> 0 < cnt P sh_active pc)"

definition sh_inv :: "shmtx_conf \<Rightarrow> u64 set \<Rightarrow> shmtx \<Rightarrow> bool" where
  "sh_inv cf P s \<longleftrightarrow>
     sh_lock_ok P (sh_lock s) (sh_hold s)
     \<and> (\<forall>p. sh_pc_ok (semaphore cf) (sh_pc s) (sh_pc s p) (sh_hold s p))
     \<and> sh_wait_ok P (sh_wait s) (sh_sem s) (sh_pc s)
     \<and> sh_live P (sh_lock s) (sh_sem s) (sh_pc s)"

lemmas sh_ops = sh_trytest_def sh_trycas_def sh_test_def sh_cas_def sh_add_def sh_test2_def sh_cas2_def
  sh_undo_def sh_awake_def sh_release_def sh_wread_def sh_wcas_def sh_post_def sh_goto_def sh_take_def

lemma sh_retry_cases:
  obtains m where "sh_retry cf n = SH_test m" | "sh_retry cf n = SH_add" "semaphore cf"
  unfolding sh_retry_def Let_def by (metis (full_types))

lemma sh_lock_take: "0 \<notin> P \<Longrightarrow> sh_lock_ok P 0 h \<Longrightarrow> p \<in> P \<Longrightarrow> sh_lock_ok P p (h(p := True))"
  by (auto simp: sh_lock_ok_def)

lemma sh_lock_release: "0 \<notin> P \<Longrightarrow> sh_lock_ok P l h \<Longrightarrow> sh_lock_ok P 0 (h(l := False))"
  by (auto simp: sh_lock_ok_def)

lemma sh_lock_step:
  assumes "0 \<notin> P" and "sh_lock_ok P (sh_lock s) (sh_hold s)" and "sh_step cf P s t"
  shows "sh_lock_ok P (sh_lock t) (sh_hold t)"
  using assms(3)
  by cases (use assms(1,2) sh_lock_take [OF assms(1)] sh_lock_release [OF assms(1,2)] in
    \<open>auto simp: sh_ops simp del: fun_upd_apply\<close>)

lemma sh_pc_upd:
  assumes "\<forall>q. sh_pc_ok sema pc (pc q) (h q)" and "pc p \<noteq> SH_dead"
    and "sh_pc_ok sema (pc(p := c)) c (h' p)"
    and "\<forall>q. q \<noteq> p \<longrightarrow> h' q = h q \<or> \<not> h' q \<and> pc q \<noteq> SH_undo"
  shows "\<forall>q. sh_pc_ok sema (pc(p := c)) ((pc(p := c)) q) (h' q)"
proof
  fix q
  show "sh_pc_ok sema (pc(p := c)) ((pc(p := c)) q) (h' q)"
  proof (cases "q = p")
    case False
    have "pc q = SH_force r \<Longrightarrow> r \<noteq> p" for r
      using assms(1) [rule_format, of q] assms(2) by (auto simp: sh_pc_ok_def)
    then show ?thesis using assms(1) [rule_format, of q] assms(4) False
      by (cases "pc q") (auto simp: sh_pc_ok_def)
  qed (use assms(3) in simp)
qed

lemma sh_pc_retry: "sh_pc_ok (semaphore cf) pc (sh_retry cf n) False"
  by (rule sh_retry_cases [of cf n]) (auto simp: sh_pc_ok_def)

lemma sh_pc_simps [simp]:
  "sh_pc_ok m pc SH_idle h" "sh_pc_ok m pc SH_dead h"
  "sh_pc_ok m pc SH_trytest h \<longleftrightarrow> \<not> h" "sh_pc_ok m pc SH_trycas h \<longleftrightarrow> \<not> h"
  "sh_pc_ok m pc (SH_test n) h \<longleftrightarrow> \<not> h" "sh_pc_ok m pc (SH_cas n) h \<longleftrightarrow> \<not> h"
  "sh_pc_ok m pc SH_add h \<longleftrightarrow> \<not> h \<and> m" "sh_pc_ok m pc SH_test2 h \<longleftrightarrow> \<not> h \<and> m"
  "sh_pc_ok m pc SH_cas2 h \<longleftrightarrow> \<not> h \<and> m" "sh_pc_ok m pc SH_undo h \<longleftrightarrow> h \<and> m"
  "sh_pc_ok m pc SH_sleep h \<longleftrightarrow> \<not> h \<and> m" "sh_pc_ok m pc SH_unlock h"
  "sh_pc_ok m pc (SH_force q) h \<longleftrightarrow> pc q = SH_dead" "sh_pc_ok m pc SH_wread h \<longleftrightarrow> \<not> h"
  "sh_pc_ok m pc (SH_wcas w) h \<longleftrightarrow> \<not> h \<and> 0 < sint w" "sh_pc_ok m pc SH_post h \<longleftrightarrow> \<not> h"
  by (auto simp: sh_pc_ok_def)

lemma sh_pc_release:
  assumes l: "sh_lock_ok P (sh_lock s) (sh_hold s)"
    and I: "\<forall>p. sh_pc_ok (semaphore cf) (sh_pc s) (sh_pc s p) (sh_hold s p)"
    and p: "sh_pc s p \<noteq> SH_dead" and q: "q = p \<or> sh_pc s q = SH_dead"
  shows "\<forall>r. sh_pc_ok (semaphore cf) (sh_pc (sh_release cf p q s)) (sh_pc (sh_release cf p q s) r)
    (sh_hold (sh_release cf p q s) r)"
proof (cases "sh_lock s = q")
  case True
  have "sh_hold s p \<Longrightarrow> q = p" using l True by (auto simp: sh_lock_ok_def)
  then have h: "\<not> ((sh_hold s)(q := False)) p" by auto
  have "\<forall>r. r \<noteq> p \<longrightarrow> ((sh_hold s)(q := False)) r = sh_hold s r
      \<or> \<not> ((sh_hold s)(q := False)) r \<and> sh_pc s r \<noteq> SH_undo"
    using q by auto
  note u = sh_pc_upd [OF I p _ this]
  show ?thesis using u [of SH_wread] u [of SH_idle] h True
    unfolding sh_release_def sh_goto_def by (cases "semaphore cf") (simp_all del: fun_upd_apply)
next
  case False
  then show ?thesis using sh_pc_upd [OF I p, of SH_idle "sh_hold s"]
    unfolding sh_release_def sh_goto_def by (simp del: fun_upd_apply)
qed

lemma sh_pc_step:
  assumes l: "sh_lock_ok P (sh_lock s) (sh_hold s)"
    and I: "\<forall>p. sh_pc_ok (semaphore cf) (sh_pc s) (sh_pc s p) (sh_hold s p)" and st: "sh_step cf P s t"
  shows "\<forall>p. sh_pc_ok (semaphore cf) (sh_pc t) (sh_pc t p) (sh_hold t p)"
proof -
  have no: "sh_pc s p = SH_trytest \<Longrightarrow> \<not> sh_hold s p" "sh_pc s p = SH_trycas \<Longrightarrow> \<not> sh_hold s p"
    "sh_pc s p = SH_sleep \<Longrightarrow> \<not> sh_hold s p" "sh_pc s p = SH_post \<Longrightarrow> \<not> sh_hold s p"
    "sh_pc s p = SH_wcas v \<Longrightarrow> \<not> sh_hold s p"
    "sh_pc s p = SH_add \<Longrightarrow> \<not> sh_hold s p \<and> semaphore cf"
    "sh_pc s p = SH_test2 \<Longrightarrow> \<not> sh_hold s p \<and> semaphore cf"
    "sh_pc s p = SH_cas2 \<Longrightarrow> \<not> sh_hold s p \<and> semaphore cf" for p v
    using I [rule_format, of p] by simp_all
  have I': "\<forall>p. sh_pc_ok True (sh_pc s) (sh_pc s p) (sh_hold s p)" if "semaphore cf"
    using I that by simp
  from st show ?thesis
proof cases
  case (unlock p)
  show ?thesis unfolding unlock(1) by (rule sh_pc_release [OF l I]) (simp_all add: unlock)
next
  case (force p q)
  have "sh_pc s q = SH_dead" using I [rule_format, of p] force by simp
  then show ?thesis unfolding force(1) by (intro sh_pc_release [OF l I]) (simp_all add: force)
next
  case (start_force p q)
  then have "q \<noteq> p" by auto
  then show ?thesis unfolding start_force(1) using start_force sh_pc_upd [OF I, of p "SH_force q" "sh_hold s"]
    by (simp add: sh_goto_def)
next
  case (wread p)
  then show ?thesis using I [rule_format, of p] sh_pc_upd [OF I, of p SH_idle "sh_hold s"]
      sh_pc_upd [OF I, of p "SH_wcas (sh_wait s)" "sh_hold s"]
    unfolding sh_wread_def sh_goto_def by (simp del: fun_upd_apply)
next
  case (cas p n)
  then show ?thesis using sh_pc_retry I [rule_format, of p]
    by (auto simp: sh_ops simp del: fun_upd_apply intro!: sh_pc_upd [OF I, rule_format]) simp_all
next
  case (test p n)
  then show ?thesis using sh_pc_retry I [rule_format, of p]
    by (auto simp: sh_ops simp del: fun_upd_apply intro!: sh_pc_upd [OF I, rule_format])
qed (auto simp: sh_ops no fun_upd_same fun_upd_other simp del: fun_upd_apply
    intro!: sh_pc_upd [OF I, rule_format] sh_pc_upd [OF I', rule_format])
qed

lemma sh_wait_value:
  assumes "card P < 2 ^ 62" and w: "sh_wait_ok P w sem pc"
  shows "sint w = cnt P sh_waits pc - (int sem + cnt P sh_posts pc)"
proof -
  let ?w = "cnt P sh_waits pc" and ?n = "int sem + cnt P sh_posts pc"
  have c: "int (card P) < 2 ^ 62" using assms(1) by (metis of_nat_less_iff of_nat_numeral of_nat_power)
  have v: "w = word_of_int (?w - ?n)" and n: "?n \<le> int (card P)"
    using w by (simp_all add: sh_wait_ok_def algebra_simps)
  show ?thesis
    unfolding v using n c cnt_nonneg [of P sh_waits pc] cnt_nonneg [of P sh_posts pc] cnt_le [of P sh_waits pc]
    by (intro sint_small) linarith+
qed

lemma sh_wait_step:
  assumes P: "finite P" "card P < 2 ^ 62"
    and w: "sh_wait_ok P (sh_wait s) (sh_sem s) (sh_pc s)"
    and I: "\<forall>p. sh_pc_ok (semaphore cf) (sh_pc s) (sh_pc s p) (sh_hold s p)" and st: "sh_step cf P s t"
  shows "sh_wait_ok P (sh_wait t) (sh_sem t) (sh_pc t)"
  using st
proof cases
  case (wcas p v)
  show ?thesis
  proof (cases "sh_wait s = v")
    case True
    let ?w = "cnt P sh_waits (sh_pc s)" and ?n = "int (sh_sem s) + cnt P sh_posts (sh_pc s)"
    have v: "v = word_of_int (?w - ?n)" and n: "?n \<le> int (card P)"
      using w True by (simp_all add: sh_wait_ok_def algebra_simps)
    have "0 < sint v" using I [rule_format, of p] wcas by simp
    moreover have "sint v = ?w - ?n" using sh_wait_value [OF P(2) w] True by simp
    ultimately have "?n < ?w" by simp
    then have "?n + 1 \<le> int (card P)" using cnt_le [of P sh_waits "sh_pc s"] by linarith
    moreover have "v - 1 = word_of_int (?w - ?n - 1)" unfolding v by simp
    ultimately show ?thesis using wcas True
      by (simp add: sh_ops sh_wait_ok_def cnt_upd [OF P(1)] algebra_simps del: fun_upd_apply)
  next
    case False
    then show ?thesis using w wcas
      by (simp add: sh_ops sh_wait_ok_def cnt_upd [OF P(1)] del: fun_upd_apply)
  qed
next
  case (cas p n)
  then show ?thesis using w by (cases rule: sh_retry_cases [of cf n])
    (auto simp: sh_ops sh_wait_ok_def cnt_upd [OF P(1)] simp del: fun_upd_apply)
next
  case (test p n)
  then show ?thesis using w by (cases rule: sh_retry_cases [of cf n])
    (auto simp: sh_ops sh_wait_ok_def cnt_upd [OF P(1)] simp del: fun_upd_apply)
qed (use w in \<open>auto simp: sh_ops sh_wait_ok_def cnt_upd [OF P(1)] simp del: fun_upd_apply\<close>)

lemma sh_live_step:
  assumes P: "finite P" "card P < 2 ^ 62" "0 \<notin> P" and l: "sh_lock_ok P (sh_lock s) (sh_hold s)"
    and w: "sh_wait_ok P (sh_wait s) (sh_sem s) (sh_pc s)" and v: "sh_live P (sh_lock s) (sh_sem s) (sh_pc s)"
    and I: "\<forall>p. sh_pc_ok (semaphore cf) (sh_pc s) (sh_pc s p) (sh_hold s p)" and st: "sh_step cf P s t"
  shows "sh_live P (sh_lock t) (sh_sem t) (sh_pc t)"
proof -
  have z: "cnt P sh_waits (sh_pc s) = 0" if "\<not> semaphore cf"
  proof -
    have "\<not> sh_waits (sh_pc s q)" for q using I [rule_format, of q] that by (auto simp: sh_pc_ok_def)
    then show ?thesis using cnt_pos [OF P(1), of sh_waits "sh_pc s"] cnt_nonneg [of P sh_waits "sh_pc s"] by force
  qed
  from st show ?thesis
proof cases
  case (wread p)
  show ?thesis
  proof (cases "sint (sh_wait s) \<le> 0")
    case True
    let ?w = "cnt P sh_waits (sh_pc s)" and ?n = "int (sh_sem s) + cnt P sh_posts (sh_pc s)"
    have "sint (sh_wait s) = ?w - ?n" by (rule sh_wait_value [OF P(2) w])
    then have le: "?w \<le> ?n" using True by simp
    have "0 < sh_sem s \<or> 0 < cnt P sh_active ((sh_pc s)(p := SH_idle))" if "0 < ?w"
    proof (cases "0 < sh_sem s")
      case False
      then have "0 < cnt P sh_posts (sh_pc s)" using le that by linarith
      then obtain q where q: "q \<in> P" "sh_posts (sh_pc s q)" using cnt_pos [OF P(1)] by blast
      then have "q \<noteq> p" "sh_active (((sh_pc s)(p := SH_idle)) q)"
        using wread by (cases "sh_pc s q"; auto)+
      then show ?thesis using cnt_mem [OF P(1) q(1)] by blast
    qed simp
    then show ?thesis using wread True
      by (auto simp: sh_ops sh_live_def cnt_upd [OF P(1), of p sh_waits] simp del: fun_upd_apply)
  next
    case False
    then show ?thesis using v wread
      by (simp add: sh_ops sh_live_def cnt_upd [OF P(1)] del: fun_upd_apply)
  qed
next
  case (add p)
  then show ?thesis using v cnt_mem [OF P(1), of p sh_active "sh_pc s"]
    by (auto simp: sh_ops sh_live_def cnt_upd [OF P(1)] simp del: fun_upd_apply)
next
  case (cas2 p)
  then show ?thesis using v P(3)
    by (auto simp: sh_ops sh_live_def cnt_upd [OF P(1)] simp del: fun_upd_apply)
next
  case (cas p n)
  then show ?thesis using v P(3) by (cases rule: sh_retry_cases [of cf n])
    (auto simp: sh_ops sh_live_def cnt_upd [OF P(1)] simp del: fun_upd_apply)
next
  case (test p n)
  then show ?thesis using v P(3) by (cases rule: sh_retry_cases [of cf n])
    (auto simp: sh_ops sh_live_def cnt_upd [OF P(1)] simp del: fun_upd_apply)
next
  case (undo p)
  then show ?thesis using v l P(3) I [rule_format, of p]
    by (auto simp: sh_ops sh_live_def sh_lock_ok_def cnt_upd [OF P(1)] simp del: fun_upd_apply)
qed (use v z cnt_nonneg [of P sh_active "sh_pc s"] in 
  \<open>auto simp: sh_ops sh_live_def cnt_upd [OF P(1)] simp del: fun_upd_apply\<close>)
qed

lemma sh_inv_step:
  assumes "finite P \<and> card P < 2 ^ 62 \<and> 0 \<notin> P" and "sh_inv cf P s" and "sh_step cf P s t"
  shows "sh_inv cf P t"
proof -
  have P: "finite P" "card P < 2 ^ 62" "0 \<notin> P" using assms(1) by auto
  have l: "sh_lock_ok P (sh_lock s) (sh_hold s)"
    and I: "\<forall>p. sh_pc_ok (semaphore cf) (sh_pc s) (sh_pc s p) (sh_hold s p)"
    and w: "sh_wait_ok P (sh_wait s) (sh_sem s) (sh_pc s)" and v: "sh_live P (sh_lock s) (sh_sem s) (sh_pc s)"
    using assms(2) by (simp_all add: sh_inv_def)
  show ?thesis unfolding sh_inv_def
    using sh_lock_step [OF P(3) l assms(3)] sh_pc_step [OF l I assms(3)]
      sh_wait_step [OF P(1,2) w I assms(3)] sh_live_step [OF P l w v I assms(3)] by blast
qed

lemma sh_inv_init: "0 \<notin> P \<Longrightarrow> sh_init s \<Longrightarrow> sh_inv cf P s"
  by (simp add: sh_inv_def sh_init_def sh_lock_ok_def sh_wait_ok_def sh_live_def cnt_def) metis

interpretation sh: step_invariant sh_init "sh_step cf P"
    "\<lambda>s. finite P \<and> card P < 2 ^ 62 \<and> 0 \<notin> P \<longrightarrow> sh_inv cf P s" for cf P
  by unfold_locales (auto intro: sh_inv_init sh_inv_step)

text \<open>
  C18. The shared mutex excludes: for any set of fewer than \<open>2 ^ 62\<close> processes with pids other
  than 0, in every interleaving of \<open>ngx_shmtx_trylock\<close>, \<open>ngx_shmtx_lock\<close>, \<open>ngx_shmtx_unlock\<close>, of
  the death of processes and of \<open>ngx_shmtx_force_unlock\<close> for dead ones, with or without the
  semaphore, the lock word is the pid of the one process that has the lock, and 0 when none has.
\<close>

theorem shmtx_exclusion:
  assumes "finite P" and "card P < 2 ^ 62" and "0 \<notin> P" and "sh_reach cf P s"
  shows "sh_hold s p = (sh_lock s \<noteq> 0 \<and> sh_lock s = p)"
  using sh.reach_I [OF assms(4)] assms(1-3) by (auto simp: sh_inv_def sh_lock_ok_def)

text \<open>
  C17. No wakeup is lost: when a process sleeps on the semaphore while the lock is free and the
  semaphore is 0, some other process is at a step of \<open>ngx_shmtx_lock\<close> or of
  \<open>ngx_shmtx_wakeup\<close> that still looks at the lock or posts the semaphore, in every reachable
  state; so the processes never all wait for a lock that nobody has.
\<close>

theorem shmtx_no_lost_wakeup:
  assumes "finite P" and "card P < 2 ^ 62" and "0 \<notin> P" and "sh_reach cf P s"
    and "p \<in> P" and "sh_pc s p = SH_sleep" and "sh_lock s = 0" and "sh_sem s = 0"
  shows "\<exists>q\<in>P. sh_active (sh_pc s q)"
proof -
  have "sh_live P (sh_lock s) (sh_sem s) (sh_pc s)"
    using sh.reach_I [OF assms(4)] assms(1-3) by (auto simp: sh_inv_def)
  moreover have "0 < cnt P sh_waits (sh_pc s)" using assms by (intro cnt_mem) auto
  ultimately show ?thesis using cnt_pos [OF assms(1)] assms(7,8) by (auto simp: sh_live_def)
qed

section \<open>Witnesses\<close>

text \<open>Process 1 locks, process 2 goes to sleep, process 1 unlocks.\<close>

abbreviation sh_cf :: shmtx_conf where
  "sh_cf \<equiv> \<lparr>ncpu = 1, spin = 2048, semaphore = True\<rparr>"

definition sh_free :: shmtx where
  "sh_free = \<lparr>sh_lock = 0, sh_wait = 0, sh_sem = 0, sh_pc = (\<lambda>p. SH_idle), sh_hold = (\<lambda>p. False)\<rparr>"

definition sh_taken :: shmtx where
  "sh_taken = sh_cas sh_cf 1 0 (sh_test sh_cf 1 0 (sh_goto 1 (SH_test 0) sh_free))"

definition sh_slept :: shmtx where
  "sh_slept = sh_test2 2 (sh_add 2 (sh_test sh_cf 2 0 (sh_goto 2 (SH_test 0) sh_taken)))"

definition sh_freed :: shmtx where
  "sh_freed = sh_release sh_cf 1 1 (sh_goto 1 SH_unlock sh_slept)"

lemmas sh_sample = sh_ops sh_free_def sh_retry_def next_spin_def

lemmas sh_reach_step = reach_step [where step = "sh_step cf P" for cf P]

lemma sh_taken_reach: "sh_reach sh_cf {1, 2} sh_taken"
proof -
  have "sh_reach sh_cf {1, 2} sh_free" by (rule reach_init) (simp add: sh_init_def sh_free_def)
  then show ?thesis unfolding sh_taken_def
    by (intro sh_reach_step [OF _ sh_step.cas] sh_reach_step [OF _ sh_step.test] sh_reach_step [OF _ sh_step.start_lock])
      (simp_all add: sh_sample)
qed

lemma sh_slept_reach: "sh_reach sh_cf {1, 2} sh_slept"
proof -
  note sh_taken_reach
  then show ?thesis unfolding sh_slept_def
    by (intro sh_reach_step [OF _ sh_step.test2] sh_reach_step [OF _ sh_step.add]
        sh_reach_step [OF _ sh_step.test] sh_reach_step [OF _ sh_step.start_lock])
      (simp_all add: sh_taken_def sh_sample)
qed

lemma sh_freed_reach: "sh_reach sh_cf {1, 2} sh_freed"
proof -
  note sh_slept_reach
  then show ?thesis unfolding sh_freed_def
    by (intro sh_reach_step [OF _ sh_step.unlock] sh_reach_step [OF _ sh_step.start_unlock])
      (simp_all add: sh_slept_def sh_taken_def sh_sample)
qed

theorem shmtx_exclusion_witness: "sh_hold sh_taken 1 \<and> \<not> sh_hold sh_taken 2"
proof -
  have "sh_lock sh_taken = 1" by (simp add: sh_taken_def sh_sample)
  then show ?thesis using shmtx_exclusion [OF _ _ _ sh_taken_reach, of 1]
      shmtx_exclusion [OF _ _ _ sh_taken_reach, of 2] by simp
qed

theorem shmtx_no_lost_wakeup_witness:
  "sh_lock sh_freed = 0 \<and> sh_pc sh_freed 2 = SH_sleep \<and> (\<exists>q\<in>{1, 2}. sh_active (sh_pc sh_freed q))"
proof -
  have v: "sh_lock sh_freed = 0" "sh_pc sh_freed 2 = SH_sleep" "sh_sem sh_freed = 0"
    by (simp_all add: sh_freed_def sh_slept_def sh_taken_def sh_sample)
  have "\<exists>q\<in>{1, 2}. sh_active (sh_pc sh_freed q)"
    using shmtx_no_lost_wakeup [OF _ _ _ sh_freed_reach, of 2] v by simp
  with v show ?thesis by blast
qed


end
