(* ===== verification/Ngx_Radix_Tree.thy ===== *)
theory Ngx_Radix_Tree
  imports Prelude "HOL-Library.Sublist" "HOL-Library.Multiset"
begin

text \<open>
  The radix trees of \<open>core/ngx_radix_tree.c\<close>, for 32 and 128 bit keys. A tree lives in a heap of
  nodes with their three pointers; freed nodes are chained through \<open>right\<close>, new ones are cut from
  pages of the pool. An address is a number, a pointer an option. The pages that the calls of
  \<open>ngx_pmemalign\<close> return are listed in the state, \<open>None\<close> for a failure.
\<close>

section \<open>Nodes\<close>

definition NGX_RADIX_NO_VALUE :: u64 where "NGX_RADIX_NO_VALUE = - 1"

record radix_node =
  rn_right :: "nat option"
  rn_left :: "nat option"
  rn_parent :: "nat option"
  rn_value :: u64

type_synonym radix_heap = "nat \<Rightarrow> radix_node"

record radix_tree =
  rt_heap :: radix_heap
  rt_root :: nat
  rt_free :: "nat option"
  rt_start :: nat
  rt_size :: nat
  rt_pages :: "nat option list"

definition sizeof_radix_node :: nat where "sizeof_radix_node = 32"
definition ngx_pagesize :: nat where "ngx_pagesize = 4096"

definition ngx_radix_alloc :: "radix_tree \<Rightarrow> radix_tree \<times> nat option" where
  "ngx_radix_alloc s =
     (case rt_free s of
        Some p \<Rightarrow> (s\<lparr>rt_free := rn_right (rt_heap s p)\<rparr>, Some p)
      | None \<Rightarrow>
          if rt_size s < sizeof_radix_node
          then (case rt_pages s of
                  Some a # ps \<Rightarrow>
                    (s\<lparr>rt_start := a + sizeof_radix_node, rt_size := ngx_pagesize - sizeof_radix_node, rt_pages := ps\<rparr>, Some a)
                | None # ps \<Rightarrow> (s\<lparr>rt_start := 0, rt_pages := ps\<rparr>, None)
                | [] \<Rightarrow> (s\<lparr>rt_start := 0\<rparr>, None))
          else (s\<lparr>rt_start := rt_start s + sizeof_radix_node, rt_size := rt_size s - sizeof_radix_node\<rparr>,
                Some (rt_start s)))"

definition radix_child :: "radix_heap \<Rightarrow> bool \<Rightarrow> nat \<Rightarrow> nat option" where
  "radix_child h b a = (if b then rn_right (h a) else rn_left (h a))"

definition set_child :: "bool \<Rightarrow> nat \<Rightarrow> nat option \<Rightarrow> radix_heap \<Rightarrow> radix_heap" where
  "set_child b a p h = h(a := (if b then (h a)\<lparr>rn_right := p\<rparr> else (h a)\<lparr>rn_left := p\<rparr>))"

definition set_value :: "nat \<Rightarrow> u64 \<Rightarrow> radix_tree \<Rightarrow> radix_tree" where
  "set_value a v s = s\<lparr>rt_heap := (rt_heap s)(a := (rt_heap s a)\<lparr>rn_value := v\<rparr>)\<rparr>"

section \<open>Keys\<close>

text \<open>
  The loops go down one level for each bit of the mask, from the highest, until the first that
  is not set; the list says at each level whether the key's bit takes them to the right. A key
  of 128 bits is read from memory byte by byte.
\<close>

lemma half_less: "b AND m \<noteq> 0 \<Longrightarrow> unat (drop_bit (Suc 0) b) < unat b" for b m :: "'a::len word"
proof -
  assume "b AND m \<noteq> 0"
  then have "0 < unat b" by (auto simp: unat_gt_0)
  then show ?thesis by (simp add: unat_drop_bit_eq drop_bit_Suc unat_div)
qed

function mask_path32 :: "u32 \<Rightarrow> u32 \<Rightarrow> u32 \<Rightarrow> bool list" where
  "mask_path32 key msk b =
     (if b AND msk \<noteq> 0 then (key AND b \<noteq> 0) # mask_path32 key msk (drop_bit 1 b) else [])"
  by pat_completeness auto
termination
  by (relation "measure (\<lambda>(key, msk, b). unat b)") (auto intro: half_less)

function mask_path128 :: "(nat \<Rightarrow> u_char) \<Rightarrow> (nat \<Rightarrow> u_char) \<Rightarrow> nat \<Rightarrow> u_char \<Rightarrow> bool list" where
  "mask_path128 key msk i b =
     (if i < 16 \<and> b AND msk i \<noteq> 0
      then (key i AND b \<noteq> 0)
           # (if drop_bit 1 b = 0 then mask_path128 key msk (i + 1) 0x80
              else mask_path128 key msk i (drop_bit 1 b))
      else [])"
  by pat_completeness auto
termination
  by (relation "measures [\<lambda>(key, msk, i, b). 16 - i, \<lambda>(key, msk, i, b). unat b]") (auto intro: half_less)

declare mask_path32.simps [simp del] mask_path128.simps [simp del]

text \<open>The way down of a lookup, which does not look at a mask: one more than the bits of a key.\<close>

definition key_path32 :: "u32 \<Rightarrow> bool list" where
  "key_path32 key = map (\<lambda>d. key AND drop_bit d 0x80000000 \<noteq> 0) [0..<33]"

definition key_path128 :: "(nat \<Rightarrow> u_char) \<Rightarrow> bool list" where
  "key_path128 key = map (\<lambda>d. key (d div 8) AND drop_bit (d mod 8) 0x80 \<noteq> 0) [0..<129]"

section \<open>Insertion, deletion, lookup\<close>

fun radix_descend :: "radix_heap \<Rightarrow> bool list \<Rightarrow> nat \<Rightarrow> nat \<times> nat option \<times> bool list" where
  "radix_descend h [] a = (a, Some a, [])"
| "radix_descend h (b # bs) a =
     (case radix_child h b a of None \<Rightarrow> (a, None, b # bs) | Some c \<Rightarrow> radix_descend h bs c)"

definition radix_new :: "bool \<Rightarrow> nat \<Rightarrow> nat \<Rightarrow> radix_tree \<Rightarrow> radix_tree" where
  "radix_new b a n s =
     s\<lparr>rt_heap := set_child b a (Some n)
        ((rt_heap s)(n := \<lparr>rn_right = None, rn_left = None, rn_parent = Some a, rn_value = NGX_RADIX_NO_VALUE\<rparr>))\<rparr>"

fun radix_grow :: "bool list \<Rightarrow> radix_tree \<Rightarrow> nat \<Rightarrow> radix_tree \<times> nat option" where
  "radix_grow [] s a = (s, Some a)"
| "radix_grow (b # bs) s a =
     (case ngx_radix_alloc s of
        (s', None) \<Rightarrow> (s', None)
      | (s', Some n) \<Rightarrow> radix_grow bs (radix_new b a n s') n)"

definition radix_insert :: "bool list \<Rightarrow> u64 \<Rightarrow> radix_tree \<Rightarrow> ngx_rc \<times> radix_tree" where
  "radix_insert path v s =
     (case radix_descend (rt_heap s) path (rt_root s) of
        (a, Some _, _) \<Rightarrow>
          if rn_value (rt_heap s a) \<noteq> NGX_RADIX_NO_VALUE then (NGX_BUSY, s) else (NGX_OK, set_value a v s)
      | (a, None, rest) \<Rightarrow>
          (case radix_grow rest s a of
             (s', None) \<Rightarrow> (NGX_ERROR, s')
           | (s', Some n) \<Rightarrow> (NGX_OK, set_value n v s')))"

definition ngx_radix32tree_insert :: "u32 \<Rightarrow> u32 \<Rightarrow> u64 \<Rightarrow> radix_tree \<Rightarrow> ngx_rc \<times> radix_tree" where
  "ngx_radix32tree_insert key msk v = radix_insert (mask_path32 key msk 0x80000000) v"

definition ngx_radix128tree_insert ::
    "(nat \<Rightarrow> u_char) \<Rightarrow> (nat \<Rightarrow> u_char) \<Rightarrow> u64 \<Rightarrow> radix_tree \<Rightarrow> ngx_rc \<times> radix_tree" where
  "ngx_radix128tree_insert key msk v = radix_insert (mask_path128 key msk 0 0x80) v"

text \<open>
  \<open>ngx_radix32tree_delete\<close>. A node without children is unlinked and put on the free list, then
  its parents as long as they have neither children nor a value, up to the root; the loop is
  bounded by the number of levels. \<open>None\<close> is the access to the parent of the root, a null
  pointer.
\<close>

fun radix_locate :: "radix_heap \<Rightarrow> bool list \<Rightarrow> nat option \<Rightarrow> nat option" where
  "radix_locate h (b # bs) (Some a) = radix_locate h bs (radix_child h b a)"
| "radix_locate h bs p = p"

definition has_children :: "radix_heap \<Rightarrow> nat \<Rightarrow> bool" where
  "has_children h a \<longleftrightarrow> rn_right (h a) \<noteq> None \<or> rn_left (h a) \<noteq> None"

definition radix_unlink :: "nat \<Rightarrow> nat \<Rightarrow> radix_tree \<Rightarrow> radix_tree" where
  "radix_unlink p a s =
     (let h = set_child (rn_right (rt_heap s p) = Some a) p None (rt_heap s) in
      s\<lparr>rt_heap := h(a := (h a)\<lparr>rn_right := rt_free s\<rparr>), rt_free := Some a\<rparr>)"

fun radix_prune :: "nat \<Rightarrow> nat \<Rightarrow> radix_tree \<Rightarrow> radix_tree option" where
  "radix_prune 0 a s = None"
| "radix_prune (Suc k) a s =
     (case rn_parent (rt_heap s a) of
        None \<Rightarrow> None
      | Some p \<Rightarrow>
          (let s' = radix_unlink p a s; h = rt_heap s' in
           if has_children h p \<or> rn_value (h p) \<noteq> NGX_RADIX_NO_VALUE \<or> rn_parent (h p) = None
           then Some s' else radix_prune k p s'))"

definition radix_delete :: "bool list \<Rightarrow> radix_tree \<Rightarrow> (ngx_rc \<times> radix_tree) option" where
  "radix_delete path s =
     (case radix_locate (rt_heap s) path (Some (rt_root s)) of
        None \<Rightarrow> Some (NGX_ERROR, s)
      | Some a \<Rightarrow>
          if has_children (rt_heap s) a
          then if rn_value (rt_heap s a) \<noteq> NGX_RADIX_NO_VALUE
               then Some (NGX_OK, set_value a NGX_RADIX_NO_VALUE s) else Some (NGX_ERROR, s)
          else map_option (Pair NGX_OK) (radix_prune (Suc (length path)) a s))"

definition ngx_radix32tree_delete :: "u32 \<Rightarrow> u32 \<Rightarrow> radix_tree \<Rightarrow> (ngx_rc \<times> radix_tree) option" where
  "ngx_radix32tree_delete key msk = radix_delete (mask_path32 key msk 0x80000000)"

definition ngx_radix128tree_delete ::
    "(nat \<Rightarrow> u_char) \<Rightarrow> (nat \<Rightarrow> u_char) \<Rightarrow> radix_tree \<Rightarrow> (ngx_rc \<times> radix_tree) option" where
  "ngx_radix128tree_delete key msk = radix_delete (mask_path128 key msk 0 0x80)"

text \<open>The lookups; \<open>None\<close> is a walk that goes on below the last level.\<close>

fun radix_find :: "radix_heap \<Rightarrow> bool list \<Rightarrow> nat option \<Rightarrow> u64 \<Rightarrow> u64 option" where
  "radix_find h bs None v = Some v"
| "radix_find h [] (Some a) v = None"
| "radix_find h (b # bs) (Some a) v =
     radix_find h bs (radix_child h b a)
       (if rn_value (h a) \<noteq> NGX_RADIX_NO_VALUE then rn_value (h a) else v)"

definition ngx_radix32tree_find :: "u32 \<Rightarrow> radix_tree \<Rightarrow> u64 option" where
  "ngx_radix32tree_find key s =
     radix_find (rt_heap s) (key_path32 key) (Some (rt_root s)) NGX_RADIX_NO_VALUE"

definition ngx_radix128tree_find :: "(nat \<Rightarrow> u_char) \<Rightarrow> radix_tree \<Rightarrow> u64 option" where
  "ngx_radix128tree_find key s =
     radix_find (rt_heap s) (key_path128 key) (Some (rt_root s)) NGX_RADIX_NO_VALUE"

section \<open>The abstraction\<close>

text \<open>What is stored under each prefix, and the longest prefix of a key that has a value.\<close>

definition radix_map :: "radix_tree \<Rightarrow> bool list \<Rightarrow> u64" where
  "radix_map s path =
     (case radix_locate (rt_heap s) path (Some (rt_root s)) of
        None \<Rightarrow> NGX_RADIX_NO_VALUE | Some a \<Rightarrow> rn_value (rt_heap s a))"

fun longest_match :: "(bool list \<Rightarrow> u64) \<Rightarrow> bool list \<Rightarrow> u64" where
  "longest_match m [] = m []"
| "longest_match m (b # bs) =
     (let v = longest_match (\<lambda>p. m (b # p)) bs in if v \<noteq> NGX_RADIX_NO_VALUE then v else m [])"

section \<open>The shape of the heap\<close>

datatype rtree = Tip | Node (raddr: nat) (rval: u64) (rleft: rtree) (rright: rtree)

fun rptr :: "rtree \<Rightarrow> nat option" where
  "rptr Tip = None" | "rptr (Node a v l r) = Some a"

fun raddrs :: "rtree \<Rightarrow> nat list" where
  "raddrs Tip = []" | "raddrs (Node a v l r) = a # raddrs l @ raddrs r"

fun rheight :: "rtree \<Rightarrow> nat" where
  "rheight Tip = 0" | "rheight (Node a v l r) = Suc (max (rheight l) (rheight r))"

text \<open>The heap holds the tree, with the parent of its root.\<close>

fun rep :: "radix_heap \<Rightarrow> nat option \<Rightarrow> rtree \<Rightarrow> bool" where
  "rep h par Tip = True"
| "rep h par (Node a v l r) \<longleftrightarrow>
     h a = \<lparr>rn_right = rptr r, rn_left = rptr l, rn_parent = par, rn_value = v\<rparr>
     \<and> rep h (Some a) l \<and> rep h (Some a) r"

fun fchain :: "radix_heap \<Rightarrow> nat option \<Rightarrow> nat list \<Rightarrow> bool" where
  "fchain h p [] \<longleftrightarrow> p = None"
| "fchain h p (x # xs) \<longleftrightarrow> p = Some x \<and> fchain h (rn_right (h x)) xs"

definition cells :: "nat \<Rightarrow> nat \<Rightarrow> nat list" where
  "cells a n = map (\<lambda>i. a + sizeof_radix_node * i) [0..<n div sizeof_radix_node]"

definition page_cells :: "nat option list \<Rightarrow> nat list" where
  "page_cells ps = concat (map (\<lambda>p. case p of None \<Rightarrow> [] | Some a \<Rightarrow> cells a ngx_pagesize) ps)"

text \<open>The free memory: the free list and the nodes not yet cut.\<close>

definition rfree :: "radix_tree \<Rightarrow> nat list \<Rightarrow> nat multiset" where
  "rfree s xs = mset xs + mset (cells (rt_start s) (rt_size s)) + mset (page_cells (rt_pages s))"

text \<open>A tree and the free memory of a state: every node is in one place only.\<close>

definition radix_at :: "radix_tree \<Rightarrow> nat option \<Rightarrow> rtree \<Rightarrow> nat list \<Rightarrow> bool" where
  "radix_at s par t xs \<longleftrightarrow>
     rep (rt_heap s) par t \<and> fchain (rt_heap s) (rt_free s) xs
     \<and> (\<forall>x. count (mset (raddrs t) + rfree s xs) x \<le> 1)"

definition radix_inv :: "nat \<Rightarrow> radix_tree \<Rightarrow> bool" where
  "radix_inv w s \<longleftrightarrow>
     (\<exists>t xs. radix_at s None t xs \<and> rptr t = Some (rt_root s) \<and> rheight t \<le> Suc w)"


section \<open>Subtrees\<close>

fun rsub :: "rtree \<Rightarrow> bool list \<Rightarrow> rtree" where
  "rsub t [] = t"
| "rsub Tip (b # bs) = Tip"
| "rsub (Node a v l r) (b # bs) = rsub (if b then r else l) bs"

fun rput :: "rtree \<Rightarrow> bool list \<Rightarrow> rtree \<Rightarrow> rtree" where
  "rput t [] u = u"
| "rput Tip (b # bs) u = Tip"
| "rput (Node a v l r) (b # bs) u = (if b then Node a v l (rput r bs u) else Node a v (rput l bs u) r)"

fun rpar :: "nat option \<Rightarrow> rtree \<Rightarrow> bool list \<Rightarrow> nat option" where
  "rpar par t [] = par"
| "rpar par Tip (b # bs) = None"
| "rpar par (Node a v l r) (b # bs) = rpar (Some a) (if b then r else l) bs"

fun rvalue :: "rtree \<Rightarrow> u64" where
  "rvalue Tip = NGX_RADIX_NO_VALUE" | "rvalue (Node a v l r) = v"

abbreviation rlookup :: "rtree \<Rightarrow> bool list \<Rightarrow> u64" where
  "rlookup t path \<equiv> rvalue (rsub t path)"

lemma rsub_Tip [simp]: "rsub Tip bs = Tip"
  by (cases bs) auto

lemma rput_Tip: "rput Tip bs u = (if bs = [] then u else Tip)"
  by (cases bs) auto

lemma rsub_append: "rsub t (xs @ ys) = rsub (rsub t xs) ys"
  by (induction t xs rule: rsub.induct) auto

lemma rptr_None [simp]: "rptr t = None \<longleftrightarrow> t = Tip"
  by (cases t) auto

lemma rep_child: "rep h par (Node a v l r) \<Longrightarrow> radix_child h b a = rptr (if b then r else l)"
  by (simp add: radix_child_def)

lemma rep_rsub: "rep h par t \<Longrightarrow> rsub t bs \<noteq> Tip \<Longrightarrow> rep h (rpar par t bs) (rsub t bs)"
  by (induction par t bs rule: rpar.induct) auto

lemma set_raddrs_rsub: "set (raddrs (rsub t bs)) \<subseteq> set (raddrs t)"
  by (induction t bs rule: rsub.induct) auto

lemma rep_frame: "rep h par t \<Longrightarrow> (\<And>x. x \<in> set (raddrs t) \<Longrightarrow> h' x = h x) \<Longrightarrow> rep h' par t"
  by (induction t arbitrary: par) auto

lemma fchain_frame: "fchain h p xs \<Longrightarrow> (\<And>x. x \<in> set xs \<Longrightarrow> h' x = h x) \<Longrightarrow> fchain h' p xs"
  by (induction xs arbitrary: p) auto

lemma rptr_rput: "bs \<noteq> [] \<Longrightarrow> rptr (rput t bs u) = rptr t"
  by (cases bs; cases t) auto

lemma rput_rptr: "rptr u = rptr (rsub t bs) \<Longrightarrow> rptr (rput t bs u) = rptr t"
  by (cases "bs = []") (auto simp: rptr_rput)

text \<open>A heap changed inside a subtree only.\<close>

lemma rep_rput:
  assumes "rep h par t" and "distinct (raddrs t)" and "rsub t bs \<noteq> Tip"
    and "\<And>x. x \<in> set (raddrs t) \<Longrightarrow> x \<notin> set (raddrs (rsub t bs)) \<Longrightarrow> h' x = h x"
    and "rep h' (rpar par t bs) u" and "rptr u = rptr (rsub t bs)"
  shows "rep h' par (rput t bs u)"
  using assms
proof (induction t bs arbitrary: par rule: rsub.induct)
  case (3 a v l r b bs)
  have ha: "h a = \<lparr>rn_right = rptr r, rn_left = rptr l, rn_parent = par, rn_value = v\<rparr>"
    and l: "rep h (Some a) l" and r: "rep h (Some a) r" using "3.prems"(1) by auto
  have d: "a \<notin> set (raddrs l)" "a \<notin> set (raddrs r)" "distinct (raddrs l)" "distinct (raddrs r)"
    "set (raddrs l) \<inter> set (raddrs r) = {}" using "3.prems"(2) by auto
  note same = "3.prems"(4)
  show ?case
  proof (cases b)
    case True
    have sub: "set (raddrs (rsub r bs)) \<subseteq> set (raddrs r)" by (rule set_raddrs_rsub)
    have "a \<notin> set (raddrs (rsub r bs))" using sub d(2) by blast
    then have "h' a = h a" using same [of a] True by simp
    moreover have "rep h' (Some a) l"
    proof (rule rep_frame [OF l])
      fix x assume x: "x \<in> set (raddrs l)"
      then have "x \<notin> set (raddrs (rsub r bs))" using sub d(5) by blast
      then show "h' x = h x" using same [of x] True x by simp
    qed
    moreover have "rep h' (Some a) (rput r bs u)"
      using "3.IH"[of "Some a"] r d(4) "3.prems"(3,5,6) same True by simp
    ultimately show ?thesis using ha "3.prems"(6) True by (simp add: rput_rptr)
  next
    case False
    have sub: "set (raddrs (rsub l bs)) \<subseteq> set (raddrs l)" by (rule set_raddrs_rsub)
    have "a \<notin> set (raddrs (rsub l bs))" using sub d(1) by blast
    then have "h' a = h a" using same [of a] False by simp
    moreover have "rep h' (Some a) r"
    proof (rule rep_frame [OF r])
      fix x assume x: "x \<in> set (raddrs r)"
      then have "x \<notin> set (raddrs (rsub l bs))" using sub d(5) by blast
      then show "h' x = h x" using same [of x] False x by simp
    qed
    moreover have "rep h' (Some a) (rput l bs u)"
      using "3.IH"[of "Some a"] l d(3) "3.prems"(3,5,6) same False by simp
    ultimately show ?thesis using ha "3.prems"(6) False by (simp add: rput_rptr)
  qed
qed auto

lemma mset_rput:
  "rsub t bs \<noteq> Tip \<Longrightarrow>
   mset (raddrs (rput t bs u)) + mset (raddrs (rsub t bs)) = mset (raddrs t) + mset (raddrs u)"
  by (induction t bs rule: rsub.induct) (auto simp: ac_simps split: if_splits)

lemma rsub_rput: "rsub t bs \<noteq> Tip \<Longrightarrow> rsub (rput t bs u) (bs @ ys) = rsub u ys"
  by (induction t bs rule: rsub.induct) auto

lemma rlookup_rput:
  "rsub t bs \<noteq> Tip \<Longrightarrow>
   rlookup (rput t bs u) q = (if prefix bs q then rlookup u (drop (length bs) q) else rlookup t q)"
proof (induction t bs arbitrary: q rule: rsub.induct)
  case (3 a v l r b bs)
  then show ?case by (cases q) auto
qed auto

lemma rheight_rput: "rheight (rput t bs u) \<le> max (rheight t) (length bs + rheight u)"
  by (induction t bs u rule: rput.induct) (simp_all split: if_splits, linarith+)

lemma rheight_rsub: "rsub t bs \<noteq> Tip \<Longrightarrow> length bs + rheight (rsub t bs) \<le> rheight t"
  by (induction t bs rule: rsub.induct) (auto simp: le_max_iff_disj split: if_splits)

lemma rpar_root: "rsub t bs \<noteq> Tip \<Longrightarrow> rpar None t bs = None \<longleftrightarrow> bs = []"
proof (cases bs)
  case (Cons b bs')
  have "rsub t cs \<noteq> Tip \<Longrightarrow> par \<noteq> None \<Longrightarrow> rpar par t cs \<noteq> None" for par t cs
    by (induction par t cs rule: rpar.induct) auto
  then show "rsub t bs \<noteq> Tip \<Longrightarrow> ?thesis" using Cons by (cases t) auto
qed auto

section \<open>Lookups\<close>

lemma radix_locate_None [simp]: "radix_locate h bs None = None"
  by (cases bs) auto

lemma radix_locate_rep: "rep h par t \<Longrightarrow> radix_locate h bs (rptr t) = rptr (rsub t bs)"
proof (induction t bs arbitrary: par rule: rsub.induct)
  case (3 a v l r b bs)
  then show ?case by (auto simp: radix_child_def)
qed auto

lemma rep_value: "rep h par t \<Longrightarrow> rsub t bs = Node a v l r \<Longrightarrow>
    h a = \<lparr>rn_right = rptr r, rn_left = rptr l, rn_parent = rpar par t bs, rn_value = v\<rparr>"
  using rep_rsub [of h par t bs] by auto

lemma radix_map_rep:
  "rep (rt_heap s) None t \<Longrightarrow> rptr t = Some (rt_root s) \<Longrightarrow> radix_map s = rlookup t"
proof
  fix bs
  assume "rep (rt_heap s) None t" "rptr t = Some (rt_root s)"
  then show "radix_map s bs = rlookup t bs"
    using radix_locate_rep [of "rt_heap s" None t bs] rep_value [of "rt_heap s" None t bs]
    by (cases "rsub t bs") (auto simp: radix_map_def)
qed

lemma rheight_0 [simp]: "rheight t = 0 \<longleftrightarrow> t = Tip"
  by (cases t) auto

lemma longest_match_none: "longest_match (\<lambda>p. NGX_RADIX_NO_VALUE) bs = NGX_RADIX_NO_VALUE"
  by (induction bs) auto

lemma radix_find_rep:
  "rep h par t \<Longrightarrow> rheight t \<le> Suc (length bs) \<Longrightarrow>
   radix_find h (bs @ [b]) (rptr t) v =
     Some (if longest_match (rlookup t) bs = NGX_RADIX_NO_VALUE then v else longest_match (rlookup t) bs)"
proof (induction bs arbitrary: t par v)
  case Nil
  then show ?case by (cases t) (auto simp: radix_child_def)
next
  case (Cons c bs)
  show ?case
  proof (cases t)
    case Tip
    then show ?thesis by (simp add: longest_match_none)
  next
    case (Node a w l r)
    then show ?thesis using Cons.IH [of "Some a" "if c then r else l"] Cons.prems
      by (auto simp: radix_child_def Let_def)
  qed
qed


section \<open>Memory\<close>

lemma count_distinct: "(\<forall>x. count (mset xs) x \<le> Suc 0) \<Longrightarrow> distinct xs"
proof (induction xs)
  case (Cons y xs)
  have "count (mset xs) y = 0" using Cons.prems [rule_format, of y] by simp
  then have "y \<notin> set xs" by (metis count_mset_0_iff)
  moreover have "\<forall>x. count (mset xs) x \<le> Suc 0"
    using Cons.prems by (metis count_add_mset le_SucI le_trans mset.simps(2) nat_le_linear not_less_eq_eq)
  ultimately show ?case using Cons.IH by simp
qed simp

lemma cells_first:
  "sizeof_radix_node \<le> n \<Longrightarrow> cells a n = a # cells (a + sizeof_radix_node) (n - sizeof_radix_node)"
proof -
  assume n: "sizeof_radix_node \<le> n"
  then have "n div sizeof_radix_node = Suc ((n - sizeof_radix_node) div sizeof_radix_node)"
    by (simp add: sizeof_radix_node_def le_div_geq)
  then show ?thesis
    unfolding cells_def by (simp add: upt_conv_Cons map_Suc_upt [symmetric] algebra_simps del: upt_Suc)
qed

lemma cells_none: "n < sizeof_radix_node \<Longrightarrow> cells a n = []"
  by (simp add: cells_def)

lemma radix_alloc_mem:
  assumes "ngx_radix_alloc s = (s', q)" and "fchain (rt_heap s) (rt_free s) xs"
  obtains xs' where "rt_heap s' = rt_heap s" and "rt_root s' = rt_root s"
    and "fchain (rt_heap s') (rt_free s') xs'"
    and "rfree s' xs' + (case q of None \<Rightarrow> {#} | Some n \<Rightarrow> {#n#}) \<subseteq># rfree s xs"
proof (cases xs)
  case (Cons x ys)
  then show ?thesis using assms that [of ys] by (auto simp: ngx_radix_alloc_def rfree_def)
next
  case Nil
  have page: "cells a ngx_pagesize = a # cells (a + sizeof_radix_node) (ngx_pagesize - sizeof_radix_node)" for a
    by (rule cells_first) (simp add: sizeof_radix_node_def ngx_pagesize_def)
  show ?thesis
  proof (cases "rt_size s < sizeof_radix_node")
    case True
    show ?thesis
    proof (cases "rt_pages s")
      case Nil
      then show ?thesis using \<open>xs = []\<close> True assms that [of "[]"] by (auto simp: ngx_radix_alloc_def rfree_def cells_none)
    next
      case (Cons p ps)
      then show ?thesis using \<open>xs = []\<close> True assms that [of "[]"]
        by (cases p) (auto simp: ngx_radix_alloc_def rfree_def page_cells_def page cells_none)
    qed
  next
    case False
    then show ?thesis using Nil assms that [of "[]"] cells_first [of "rt_size s" "rt_start s"]
      by (auto simp: ngx_radix_alloc_def rfree_def)
  qed
qed

lemma radix_at_apart:
  assumes "radix_at s par t xs"
  shows "distinct (raddrs t)" and "x \<in> set (raddrs t) \<Longrightarrow> x \<notin># rfree s xs"
    and "x \<in> set xs \<Longrightarrow> x \<in># rfree s xs"
proof -
  have c: "\<forall>x. count (mset (raddrs t)) x + count (rfree s xs) x \<le> Suc 0"
    using assms by (simp add: radix_at_def)
  then have "\<forall>x. count (mset (raddrs t)) x \<le> Suc 0" by (meson add_leD1)
  then show "distinct (raddrs t)" by (rule count_distinct)
  show "x \<in> set (raddrs t) \<Longrightarrow> x \<notin># rfree s xs"
  proof
    assume x: "x \<in> set (raddrs t)" "x \<in># rfree s xs"
    then have "0 < count (mset (raddrs t)) x" "0 < count (rfree s xs) x" by (simp_all add: count_mset_gt_0)
    then show False using c [rule_format, of x] by linarith
  qed
  show "x \<in> set xs \<Longrightarrow> x \<in># rfree s xs" by (simp add: rfree_def)
qed

lemma radix_at_less:
  assumes "\<forall>x. count (mset (raddrs t) + rfree s xs) x \<le> 1"
    and "mset (raddrs u) + rfree s' ys \<subseteq># mset (raddrs t) + rfree s xs"
    and "rep (rt_heap s') par u" and "fchain (rt_heap s') (rt_free s') ys"
  shows "radix_at s' par u ys"
  using assms unfolding radix_at_def by (meson le_trans mset_subset_eq_count)

section \<open>Growing a branch\<close>

lemma radix_new_fields [simp]:
  "rt_free (radix_new b a n s) = rt_free s" "rt_root (radix_new b a n s) = rt_root s"
  "rfree (radix_new b a n s) xs = rfree s xs"
  by (simp_all add: radix_new_def rfree_def)

lemma radix_new_heap:
  assumes "n \<noteq> a"
  shows "rt_heap (radix_new b a n s) n =
      \<lparr>rn_right = None, rn_left = None, rn_parent = Some a, rn_value = NGX_RADIX_NO_VALUE\<rparr>"
    and "rt_heap (radix_new b a n s) a =
      (if b then (rt_heap s a)\<lparr>rn_right := Some n\<rparr> else (rt_heap s a)\<lparr>rn_left := Some n\<rparr>)"
    and "x \<noteq> a \<Longrightarrow> x \<noteq> n \<Longrightarrow> rt_heap (radix_new b a n s) x = rt_heap s x"
  using assms by (simp_all add: radix_new_def set_child_def)

text \<open>A step that changes the heap at one subtree, and one that grows a branch there.\<close>

definition local_change ::
    "radix_tree \<Rightarrow> nat option \<Rightarrow> rtree \<Rightarrow> nat list \<Rightarrow> radix_tree \<Rightarrow> rtree \<Rightarrow> nat list \<Rightarrow> bool" where
  "local_change s par t xs s' u ys \<longleftrightarrow>
     rep (rt_heap s') par u \<and> fchain (rt_heap s') (rt_free s') ys \<and> rptr u = rptr t
     \<and> mset (raddrs u) + rfree s' ys \<subseteq># mset (raddrs t) + rfree s xs
     \<and> (\<forall>x. x \<notin> set (raddrs t) \<longrightarrow> x \<notin># rfree s xs \<longrightarrow> rt_heap s' x = rt_heap s x)
     \<and> rt_root s' = rt_root s"

definition grown ::
    "radix_tree \<Rightarrow> nat option \<Rightarrow> rtree \<Rightarrow> nat list \<Rightarrow> bool list \<Rightarrow> radix_tree \<Rightarrow> nat option \<Rightarrow> rtree \<Rightarrow> nat list \<Rightarrow> bool" where
  "grown s par t xs path s' q u ys \<longleftrightarrow>
     local_change s par t xs s' u ys
     \<and> rlookup u = rlookup t \<and> rheight u \<le> max (rheight t) (Suc (length path))
     \<and> (case q of None \<Rightarrow> True | Some n \<Rightarrow> rptr (rsub u path) = Some n)"

lemma rlookup_grow:
  assumes "(if b then r else l) = Tip" and "\<forall>q. rlookup u q = NGX_RADIX_NO_VALUE"
  shows "rlookup (rput (Node a v l r) [b] u) = rlookup (Node a v l r)"
proof
  fix q show "rlookup (rput (Node a v l r) [b] u) q = rlookup (Node a v l r) q"
    using assms by (cases q) (auto split: if_splits)
qed

text \<open>The new node is a leaf of its own, apart from the node it hangs on.\<close>

lemma radix_new_at:
  assumes at: "radix_at s par (Node a v l r) xs" and al: "ngx_radix_alloc s = (s1, Some n)"
  obtains xs1 where "rt_heap s1 = rt_heap s" and "rt_root s1 = rt_root s" and "n \<noteq> a" and "n \<in># rfree s xs"
    and "rfree s1 xs1 + {#n#} \<subseteq># rfree s xs" and "a \<notin># rfree s1 xs1"
    and "radix_at (radix_new b a n s1) (Some a) (Node n NGX_RADIX_NO_VALUE Tip Tip) xs1"
proof -
  let ?t = "Node a v l r" and ?n = "Node n NGX_RADIX_NO_VALUE Tip Tip" and ?s2 = "radix_new b a n s1"
  have fc: "fchain (rt_heap s) (rt_free s) xs"
    and cnt: "\<forall>x. count (mset (raddrs ?t) + rfree s xs) x \<le> 1" using at unfolding radix_at_def by blast+
  from radix_alloc_mem [OF al fc] obtain xs1 where h1: "rt_heap s1 = rt_heap s" "rt_root s1 = rt_root s"
    and f1: "fchain (rt_heap s1) (rt_free s1) xs1" and mn: "rfree s1 xs1 + {#n#} \<subseteq># rfree s xs" by auto
  have nin: "n \<in># rfree s xs" and sub1: "x \<in># rfree s1 xs1 \<Longrightarrow> x \<in># rfree s xs" for x
    using mset_subset_eqD [OF mn] by auto
  have na: "n \<noteq> a" using radix_at_apart(2) [OF at, of a] nin by auto
  have c1: "count (rfree s1 xs1 + {#n#}) x \<le> 1" for x
    using mset_subset_eq_count [OF mn, of x] cnt [rule_format, of x] unfolding count_union by linarith
  have nf: "n \<notin># rfree s1 xs1" using c1 [of n] by (auto simp: count_eq_zero_iff)
  have af: "a \<notin># rfree s1 xs1" using sub1 [of a] radix_at_apart(2) [OF at, of a] by auto
  have "fchain (rt_heap ?s2) (rt_free ?s2) xs1"
    unfolding radix_new_fields
  proof (rule fchain_frame [OF f1])
    fix x assume "x \<in> set xs1"
    then have "x \<in># rfree s1 xs1" by (simp add: rfree_def)
    then show "rt_heap ?s2 x = rt_heap s1 x" using nf af by (intro radix_new_heap(3) na) auto
  qed
  moreover have "count (mset (raddrs ?n) + rfree ?s2 xs1) x \<le> 1" for x using c1 [of x] by simp
  ultimately have "radix_at ?s2 (Some a) ?n xs1"
    by (simp add: radix_at_def radix_new_heap(1) [OF na])
  then show ?thesis using that h1 na nin mn af by blast
qed

text \<open>The tree grown at the new node is put below the old one.\<close>

lemma grown_branch:
  assumes at: "radix_at s par (Node a v l r) xs" and tip: "(if b then r else l) = Tip"
    and h1: "rt_heap s1 = rt_heap s" "rt_root s1 = rt_root s" and na: "n \<noteq> a" and nin: "n \<in># rfree s xs"
    and mn: "rfree s1 xs1 + {#n#} \<subseteq># rfree s xs" and af: "a \<notin># rfree s1 xs1"
    and g: "grown (radix_new b a n s1) (Some a) (Node n NGX_RADIX_NO_VALUE Tip Tip) xs1 bs s' q u ys"
  shows "grown s par (Node a v l r) xs (b # bs) s' q (rput (Node a v l r) [b] u) ys"
proof -
  let ?t = "Node a v l r" and ?n = "Node n NGX_RADIX_NO_VALUE Tip Tip" and ?s2 = "radix_new b a n s1"
  let ?u = "rput ?t [b] u"
  have rp: "rep (rt_heap s) par ?t" using at unfolding radix_at_def by blast
  have h2: "rt_heap s' x = rt_heap ?s2 x" if "x \<noteq> n" "x \<notin># rfree s1 xs1" for x
    using g that by (simp add: grown_def local_change_def)
  have ha: "rt_heap s' a = (if b then (rt_heap s a)\<lparr>rn_right := Some n\<rparr> else (rt_heap s a)\<lparr>rn_left := Some n\<rparr>)"
    using h2 [of a] na af radix_new_heap(2) [OF na, of b s1] h1(1) by simp
  have far: "rt_heap s' x = rt_heap s x" if "x \<noteq> a" "x \<notin># rfree s xs" for x
  proof -
    have "x \<noteq> n" "x \<notin># rfree s1 xs1" using that(2) nin mset_subset_eqD [OF mn, of x] by auto
    then show ?thesis using h2 [of x] that radix_new_heap(3) [OF na, of x b s1] h1(1) by auto
  qed
  have "rep (rt_heap s') (Some a) l" and "rep (rt_heap s') (Some a) r"
    using rp radix_at_apart(1,2) [OF at] by (auto intro!: rep_frame [of "rt_heap s"] far)
  then have "rep (rt_heap s') par ?u"
    using g rp tip ha by (auto simp: grown_def local_change_def)
  moreover have "mset (raddrs ?u) + rfree s' ys \<subseteq># mset (raddrs ?t) + rfree s xs"
  proof -
    have "mset (raddrs u) + rfree s' ys \<subseteq># {#n#} + rfree s1 xs1" using g by (simp add: grown_def local_change_def)
    also have "\<dots> \<subseteq># rfree s xs" using mn by (simp add: add.commute)
    finally have "mset (raddrs u) + rfree s' ys \<subseteq># rfree s xs" .
    moreover have "mset (raddrs ?u) = mset (raddrs ?t) + mset (raddrs u)" using tip by (auto simp: ac_simps)
    ultimately show ?thesis by (simp add: add.assoc)
  qed
  moreover have "rlookup ?u = rlookup ?t"
  proof (rule rlookup_grow [OF tip])
    have "rlookup ?n p = NGX_RADIX_NO_VALUE" for p by (cases p) auto
    moreover have "rlookup u = rlookup ?n" using g unfolding grown_def local_change_def by blast
    ultimately show "\<forall>p. rlookup u p = NGX_RADIX_NO_VALUE" by metis
  qed
  moreover have "rheight ?u \<le> max (rheight ?t) (Suc (length (b # bs)))"
    using g by (auto simp: grown_def local_change_def le_max_iff_disj)
  moreover have "case q of None \<Rightarrow> True | Some n \<Rightarrow> rptr (rsub ?u (b # bs)) = Some n"
    using g by (auto simp: grown_def local_change_def split: option.splits)
  ultimately show ?thesis using g far h1(2) unfolding grown_def local_change_def by auto
qed

lemma radix_grow_ok:
  assumes "radix_at s par (Node a v l r) xs" and "path \<noteq> [] \<longrightarrow> (if hd path then r else l) = Tip"
    and "radix_grow path s a = (s', q)"
  shows "\<exists>u ys. grown s par (Node a v l r) xs path s' q u ys"
  using assms
proof (induction path arbitrary: s par a v l r xs)
  case Nil
  have "grown s par (Node a v l r) xs [] s' q (Node a v l r) xs"
    using Nil by (auto simp: grown_def local_change_def radix_at_def)
  then show ?case by blast
next
  case (Cons b bs)
  let ?t = "Node a v l r"
  have rp: "rep (rt_heap s) par ?t" and fc: "fchain (rt_heap s) (rt_free s) xs"
    using Cons.prems(1) unfolding radix_at_def by blast+
  have tip: "(if b then r else l) = Tip" using Cons.prems(2) by simp
  obtain s1 p where al: "ngx_radix_alloc s = (s1, p)" by (cases "ngx_radix_alloc s")
  show ?case
  proof (cases p)
    case None
    from radix_alloc_mem [OF al fc] obtain xs1 where "rt_heap s1 = rt_heap s" "rt_root s1 = rt_root s"
      "fchain (rt_heap s1) (rt_free s1) xs1" "rfree s1 xs1 \<subseteq># rfree s xs" using None by auto
    then have "grown s par ?t xs (b # bs) s' q ?t xs1"
      using Cons.prems(3) al None rp by (auto simp: grown_def local_change_def)
    then show ?thesis by blast
  next
    case (Some n)
    obtain xs1 where new: "rt_heap s1 = rt_heap s" "rt_root s1 = rt_root s" "n \<noteq> a" "n \<in># rfree s xs"
      "rfree s1 xs1 + {#n#} \<subseteq># rfree s xs" "a \<notin># rfree s1 xs1"
      and at: "radix_at (radix_new b a n s1) (Some a) (Node n NGX_RADIX_NO_VALUE Tip Tip) xs1"
      using radix_new_at [OF Cons.prems(1) al [unfolded Some], of b] by blast
    have "radix_grow bs (radix_new b a n s1) n = (s', q)" using Cons.prems(3) al Some by simp
    from Cons.IH [OF at _ this] obtain u ys
      where "grown (radix_new b a n s1) (Some a) (Node n NGX_RADIX_NO_VALUE Tip Tip) xs1 bs s' q u ys" by auto
    from grown_branch [OF Cons.prems(1) tip new this] show ?thesis by blast
  qed
qed


section \<open>Changes below a node\<close>

lemma mset_rsub: "mset (raddrs (rsub t bs)) \<subseteq># mset (raddrs t)"
proof (induction t bs rule: rsub.induct)
  case (3 a v l r b bs)
  have "mset (raddrs (if b then r else l)) \<subseteq># mset (raddrs (Node a v l r))"
    by (auto intro: subset_mset.trans [OF _ mset_subset_eq_add_left] simp: subseteq_mset_def)
  then show ?case using 3 subset_mset.trans by (metis rsub.simps(3))
qed auto

lemma radix_at_rsub:
  assumes "radix_at s par t xs" and "rsub t bs \<noteq> Tip"
  shows "radix_at s (rpar par t bs) (rsub t bs) xs"
proof -
  have "mset (raddrs (rsub t bs)) + rfree s xs \<subseteq># mset (raddrs t) + rfree s xs" using mset_rsub by simp
  then show ?thesis using assms rep_rsub [of "rt_heap s" par t bs] unfolding radix_at_def
    by (meson le_trans mset_subset_eq_count)
qed

lemma local_change_at:
  "radix_at s par t xs \<Longrightarrow> local_change s par t xs s' u ys \<Longrightarrow> radix_at s' par u ys"
  unfolding radix_at_def local_change_def by (meson le_trans mset_subset_eq_count)

lemma local_change_rput:
  assumes at: "radix_at s par t xs" and sub: "rsub t bs \<noteq> Tip"
    and c: "local_change s (rpar par t bs) (rsub t bs) xs s' u ys"
  shows "local_change s par t xs s' (rput t bs u) ys"
proof -
  have far: "rt_heap s' x = rt_heap s x" if "x \<notin> set (raddrs (rsub t bs))" "x \<notin># rfree s xs" for x
    using c that unfolding local_change_def by blast
  have "rep (rt_heap s') par (rput t bs u)"
  proof (rule rep_rput [OF _ radix_at_apart(1) [OF at] sub])
    show "rep (rt_heap s) par t" using at unfolding radix_at_def by blast
    show "rep (rt_heap s') (rpar par t bs) u" "rptr u = rptr (rsub t bs)"
      using c unfolding local_change_def by blast+
    show "rt_heap s' x = rt_heap s x" if "x \<in> set (raddrs t)" "x \<notin> set (raddrs (rsub t bs))" for x
      using far that radix_at_apart(2) [OF at] by blast
  qed
  moreover have "mset (raddrs (rput t bs u)) + rfree s' ys \<subseteq># mset (raddrs t) + rfree s xs"
  proof -
    have "mset (raddrs (rput t bs u)) + rfree s' ys + mset (raddrs (rsub t bs))
        = mset (raddrs t) + (mset (raddrs u) + rfree s' ys)"
      using mset_rput [OF sub, of u] by (simp add: ac_simps)
    also have "\<dots> \<subseteq># mset (raddrs t) + (mset (raddrs (rsub t bs)) + rfree s xs)"
      using c unfolding local_change_def by simp
    finally show ?thesis by (simp add: ac_simps)
  qed
  moreover have "rptr (rput t bs u) = rptr t"
    using c unfolding local_change_def by (intro rput_rptr) blast
  moreover have "rt_heap s' x = rt_heap s x" if "x \<notin> set (raddrs t)" "x \<notin># rfree s xs" for x
    using far that set_raddrs_rsub by blast
  ultimately show ?thesis using c unfolding local_change_def by blast
qed

lemma set_value_fields [simp]:
  "rt_free (set_value a v s) = rt_free s" "rt_root (set_value a v s) = rt_root s"
  "rfree (set_value a v s) xs = rfree s xs"
  by (simp_all add: set_value_def rfree_def)

lemma set_value_change:
  assumes at: "radix_at s par t xs" and sub: "rsub t bs = Node a v l r"
  shows "local_change s par t xs (set_value a v' s) (rput t bs (Node a v' l r)) xs"
proof (rule local_change_rput [OF at])
  show "rsub t bs \<noteq> Tip" using sub by simp
  then have n: "radix_at s (rpar par t bs) (Node a v l r) xs" using radix_at_rsub [OF at] sub by metis
  then have rp: "rep (rt_heap s) (rpar par t bs) (Node a v l r)" and fc: "fchain (rt_heap s) (rt_free s) xs"
    unfolding radix_at_def by blast+
  have h: "rt_heap (set_value a v' s) x = (if x = a then (rt_heap s a)\<lparr>rn_value := v'\<rparr> else rt_heap s x)" for x
    by (simp add: set_value_def)
  have "rep (rt_heap (set_value a v' s)) (Some a) l" "rep (rt_heap (set_value a v' s)) (Some a) r"
    using rp radix_at_apart(1) [OF n] by (auto intro!: rep_frame [of "rt_heap s"] simp: h)
  moreover have "fchain (rt_heap (set_value a v' s)) (rt_free s) xs"
    using radix_at_apart(2,3) [OF n] by (intro fchain_frame [OF fc]) (auto simp: h)
  ultimately show "local_change s (rpar par t bs) (rsub t bs) xs (set_value a v' s) (Node a v' l r) xs"
    using rp by (simp add: local_change_def sub h)
qed

lemma rlookup_set:
  "rsub t bs = Node a v l r \<Longrightarrow> rlookup (rput t bs (Node a v' l r)) = (rlookup t)(bs := v')"
proof
  fix q
  assume s: "rsub t bs = Node a v l r"
  show "rlookup (rput t bs (Node a v' l r)) q = ((rlookup t)(bs := v')) q"
  proof (cases "prefix bs q")
    case True
    then obtain ys where "q = bs @ ys" by (auto simp: prefix_def)
    then show ?thesis using s by (cases ys) (auto simp: rlookup_rput rsub_append [of t bs])
  qed (use s in \<open>auto simp: rlookup_rput\<close>)
qed

lemma rlookup_same:
  assumes "rsub t bs \<noteq> Tip" and "rlookup u = rlookup (rsub t bs)"
  shows "rlookup (rput t bs u) = rlookup t"
proof
  fix q show "rlookup (rput t bs u) q = rlookup t q"
    using assms by (auto simp: rlookup_rput prefix_def rsub_append dest: fun_cong)
qed

section \<open>Insertion\<close>

lemma radix_descend_rep:
  assumes "rep h par t" and "rptr t = Some c" and "radix_descend h bs c = (a, nxt, rest)"
  shows "\<exists>pre v l r. bs = pre @ rest \<and> rsub t pre = Node a v l r
    \<and> (if rest = [] then nxt = Some a else nxt = None \<and> (if hd rest then r else l) = Tip)"
  using assms
proof (induction bs arbitrary: par t c)
  case Nil
  then show ?case by (cases t) auto
next
  case (Cons b bs)
  obtain v l r where t: "t = Node c v l r" using Cons.prems(2) by (cases t) auto
  show ?case
  proof (cases "if b then r else l")
    case Tip
    then have "radix_child h b c = None" using rep_child [of h par c v l r b] Cons.prems(1) t by simp
    then have "(a, nxt, rest) = (c, None, b # bs)" using Cons.prems(3) by simp
    then show ?thesis using Tip t by (intro exI [of _ "[]"]) auto
  next
    case (Node c' v' l' r')
    then have "radix_child h b c = Some c'" using rep_child [of h par c v l r b] Cons.prems(1) t by simp
    then have "radix_descend h bs c' = (a, nxt, rest)" using Cons.prems(3) by simp
    moreover have "rep h (Some c) (if b then r else l)" using Cons.prems(1) t by auto
    ultimately obtain pre w x y where "bs = pre @ rest" "rsub (if b then r else l) pre = Node a w x y"
      "if rest = [] then nxt = Some a else nxt = None \<and> (if hd rest then y else x) = Tip"
      using Cons.IH [of "Some c" "if b then r else l" c'] Node by auto
    then show ?thesis using t by (intro exI [of _ "b # pre"] exI [of _ w] exI [of _ x] exI [of _ y]) auto
  qed
qed

lemma radix_invI:
  "local_change s None t xs s' u ys \<Longrightarrow> radix_at s None t xs \<Longrightarrow> rptr t = Some (rt_root s) \<Longrightarrow>
   rheight u \<le> Suc w \<Longrightarrow> radix_inv w s' \<and> radix_map s' = rlookup u"
proof -
  assume c: "local_change s None t xs s' u ys" and at: "radix_at s None t xs"
    and r: "rptr t = Some (rt_root s)" and h: "rheight u \<le> Suc w"
  have at': "radix_at s' None u ys" by (rule local_change_at [OF at c])
  have r': "rptr u = Some (rt_root s')" using c r by (simp add: local_change_def)
  have "radix_map s' = rlookup u" using at' r' unfolding radix_at_def by (intro radix_map_rep) auto
  then show ?thesis using at' r' h unfolding radix_inv_def by blast
qed

lemma local_change_trans:
  assumes at: "radix_at s par t xs" and c: "local_change s par t xs s' u ys" and c': "local_change s' par u ys s'' v zs"
  shows "local_change s par t xs s'' v zs"
proof -
  have "set (raddrs u) \<union> set_mset (rfree s' ys) \<subseteq> set (raddrs t) \<union> set_mset (rfree s xs)"
    using c unfolding local_change_def by (metis set_mset_mono set_mset_mset set_mset_union)
  then show ?thesis using c c' unfolding local_change_def by (auto intro: subset_mset.trans)
qed

text \<open>
  What each answer of an insertion means for the map from prefixes to values.
\<close>

definition insert_spec :: "nat \<Rightarrow> bool list \<Rightarrow> u64 \<Rightarrow> radix_tree \<Rightarrow> ngx_rc \<Rightarrow> radix_tree \<Rightarrow> bool" where
  "insert_spec w path v s rc s' \<longleftrightarrow> radix_inv w s' \<and>
     (case rc of
        NGX_OK \<Rightarrow> radix_map s path = NGX_RADIX_NO_VALUE \<and> radix_map s' = (radix_map s)(path := v)
      | NGX_BUSY \<Rightarrow> radix_map s path \<noteq> NGX_RADIX_NO_VALUE \<and> s' = s
      | NGX_ERROR \<Rightarrow> radix_map s' = radix_map s
      | _ \<Rightarrow> False)"

lemma radix_set_value_inv:
  assumes at: "radix_at s None t xs" and r: "rptr t = Some (rt_root s)" and h: "rheight t \<le> Suc w"
    and sub: "rsub t path = Node a x l r"
  shows "radix_inv w (set_value a v s) \<and> radix_map (set_value a v s) = (rlookup t)(path := v)"
proof -
  have "length path + rheight (rsub t path) \<le> rheight t" using sub by (intro rheight_rsub) simp
  then have "rheight (rput t path (Node a v l r)) \<le> Suc w"
    using rheight_rput [of t path "Node a v l r"] h sub by simp
  then show ?thesis
    using radix_invI [OF set_value_change [OF at sub, of v] at r] rlookup_set [OF sub] by simp
qed

lemma radix_insert_ok:
  assumes inv: "radix_inv w s" and len: "length path \<le> w" and ins: "radix_insert path v s = (rc, s')"
  shows "insert_spec w path v s rc s'"
proof -
  obtain t xs where at: "radix_at s None t xs" and r: "rptr t = Some (rt_root s)" and h: "rheight t \<le> Suc w"
    using inv by (auto simp: radix_inv_def)
  have rp: "rep (rt_heap s) None t" using at by (simp add: radix_at_def)
  note m = radix_map_rep [OF rp r]
  obtain a nxt rest where d: "radix_descend (rt_heap s) path (rt_root s) = (a, nxt, rest)"
    by (metis prod_cases3)
  obtain pre x lt rt where p: "path = pre @ rest" and sub: "rsub t pre = Node a x lt rt"
    and c: "if rest = [] then nxt = Some a else nxt = None \<and> (if hd rest then rt else lt) = Tip"
    using radix_descend_rep [OF rp r d] by blast
  have val: "rn_value (rt_heap s a) = x" using rep_value [OF rp sub] by simp
  show ?thesis
  proof (cases "rest = []")
    case True
    then show ?thesis using ins d c sub val p m inv radix_set_value_inv [OF at r h, of path a x lt rt v]
      by (auto simp: radix_insert_def insert_spec_def split: if_splits)
  next
    case False
    obtain s1 q where g: "radix_grow rest s a = (s1, q)" by (cases "radix_grow rest s a")
    have sub': "rsub t pre \<noteq> Tip" using sub by simp
    have "radix_at s (rpar None t pre) (Node a x lt rt) xs" using radix_at_rsub [OF at sub'] sub by simp
    from radix_grow_ok [OF this _ g] c False obtain u ys
      where gr: "grown s (rpar None t pre) (Node a x lt rt) xs rest s1 q u ys" by auto
    let ?t = "rput t pre u"
    have lc: "local_change s None t xs s1 ?t ys"
      using gr sub by (intro local_change_rput [OF at sub']) (simp add: grown_def)
    have look: "rlookup ?t = rlookup t"
      using gr sub by (intro rlookup_same [OF sub']) (simp add: grown_def)
    have "length pre + rheight (rsub t pre) \<le> rheight t" by (rule rheight_rsub [OF sub'])
    then have hg: "rheight ?t \<le> Suc w"
      using gr h len p sub rheight_rput [of t pre u] by (auto simp: grown_def le_max_iff_disj)
    note inv1 = radix_invI [OF lc at r hg]
    have free: "rlookup t path = NGX_RADIX_NO_VALUE"
      using c False p sub by (cases rest) (auto simp: rsub_append)
    show ?thesis
    proof (cases q)
      case None
      then show ?thesis using ins d c False g inv1 look m by (auto simp: radix_insert_def insert_spec_def)
    next
      case (Some n)
      have "rptr (rsub ?t path) = Some n" using gr Some p by (simp add: grown_def rsub_rput [OF sub'])
      then obtain y l' r' where n: "rsub ?t path = Node n y l' r'" by (cases "rsub ?t path") auto
      have "rptr ?t = Some (rt_root s1)" using lc r by (simp add: local_change_def)
      from radix_set_value_inv [OF local_change_at [OF at lc] this hg n]
      show ?thesis using ins d c False g Some look m free by (auto simp: radix_insert_def insert_spec_def)
    qed
  qed
qed


section \<open>Deletion\<close>

lemma rsub_snoc:
  "rsub t (bs @ [b]) = Node a v l r \<Longrightarrow> \<exists>p w l' r'. rsub t bs = Node p w l' r' \<and> (if b then r' else l') = Node a v l r"
  by (cases "rsub t bs") (auto simp: rsub_append)

text \<open>The unlinking of a leaf changes the tree at its parent.\<close>

lemma radix_unlink_change:
  assumes at: "radix_at s par (Node p w l r) xs" and leaf: "(if b then r else l) = Node a v Tip Tip"
  shows "local_change s par (Node p w l r) xs (radix_unlink p a s) (rput (Node p w l r) [b] Tip) (a # xs)"
proof -
  let ?s = "radix_unlink p a s" and ?t = "Node p w l r"
  have rp: "rep (rt_heap s) par ?t" and fc: "fchain (rt_heap s) (rt_free s) xs"
    using at unfolding radix_at_def by blast+
  have dist: "distinct (raddrs ?t)" and free: "x \<in> set xs \<Longrightarrow> x \<notin> set (raddrs ?t)" for x
    using radix_at_apart [OF at] by blast+
  have pa: "p \<noteq> a" using dist leaf by (auto split: if_splits)
  have hp: "rt_heap s p = \<lparr>rn_right = rptr r, rn_left = rptr l, rn_parent = par, rn_value = w\<rparr>" using rp by simp
  have side: "(rn_right (rt_heap s p) = Some a) = b"
    using dist leaf hp by (cases r) (auto split: if_splits)
  have h: "rt_heap ?s x = (if x = a then (rt_heap s a)\<lparr>rn_right := rt_free s\<rparr> else
      if x = p then (if b then (rt_heap s p)\<lparr>rn_right := None\<rparr> else (rt_heap s p)\<lparr>rn_left := None\<rparr>)
      else rt_heap s x)" for x
    using pa by (simp add: radix_unlink_def side set_child_def Let_def)
  have other: "rep (rt_heap ?s) (Some p) (if b then l else r)"
  proof (rule rep_frame)
    show "rep (rt_heap s) (Some p) (if b then l else r)" using rp by simp
    fix x assume x: "x \<in> set (raddrs (if b then l else r))"
    have "a \<in> set (raddrs (if b then r else l))" unfolding leaf by simp
    then have "x \<noteq> a" "x \<noteq> p" using x dist by (cases b; auto)+
    then show "rt_heap ?s x = rt_heap s x" by (simp add: h)
  qed
  have "rep (rt_heap ?s) par (rput ?t [b] Tip)"
    using other leaf pa by (simp add: h hp split: if_splits)
  moreover have "fchain (rt_heap ?s) (rt_free ?s) (a # xs)"
  proof -
    have "fchain (rt_heap ?s) (rt_free s) xs"
      using free leaf by (intro fchain_frame [OF fc]) (auto simp: h split: if_splits)
    moreover have "rt_free ?s = Some a" by (simp add: radix_unlink_def Let_def)
    ultimately show ?thesis by (simp add: h)
  qed
  moreover have "mset (raddrs (rput ?t [b] Tip)) + rfree ?s (a # xs) = mset (raddrs ?t) + rfree s xs"
    using leaf by (auto simp: rfree_def radix_unlink_def Let_def split: if_splits)
  moreover have "rt_heap ?s x = rt_heap s x" if "x \<notin> set (raddrs ?t)" for x
    using that leaf by (auto simp: h split: if_splits)
  moreover have "rt_root ?s = rt_root s" by (simp add: radix_unlink_def Let_def)
  ultimately show ?thesis by (simp add: local_change_def)
qed

lemma rlookup_cut:
  assumes "rsub t bs = Node p w l r" and "(if b then r else l) = Node a v Tip Tip"
  shows "rlookup (rput t bs (rput (Node p w l r) [b] Tip)) = (rlookup t)(bs @ [b] := NGX_RADIX_NO_VALUE)"
proof
  fix q
  have tip: "rlookup (Node a v Tip Tip) (c # cs) = NGX_RADIX_NO_VALUE" for c cs by simp
  show "rlookup (rput t bs (rput (Node p w l r) [b] Tip)) q = ((rlookup t)(bs @ [b] := NGX_RADIX_NO_VALUE)) q"
  proof (cases "prefix bs q")
    case True
    then obtain ys where q: "q = bs @ ys" by (auto simp: prefix_def)
    have "rlookup (rput (Node p w l r) [b] Tip) ys = ((rlookup (Node p w l r))([b] := NGX_RADIX_NO_VALUE)) ys"
      using assms(2) by (cases ys; cases "tl ys") (auto split: if_splits)
    then show ?thesis using assms(1) q by (auto simp: rlookup_rput rsub_append [of t bs])
  next
    case False
    then show ?thesis using assms(1) by (auto simp: rlookup_rput)
  qed
qed

lemma radix_prune_ok:
  assumes "radix_at s None t xs" and "rptr t = Some (rt_root s)"
    and "rsub t path = Node a v Tip Tip" and "path \<noteq> []" and "length path \<le> k"
  shows "\<exists>s' u ys. radix_prune k a s = Some s' \<and> local_change s None t xs s' u ys
    \<and> rlookup u = (rlookup t)(path := NGX_RADIX_NO_VALUE) \<and> rheight u \<le> rheight t"
  using assms
proof (induction path arbitrary: s t xs a v k rule: rev_induct)
  case (snoc b bs)
  note at = snoc.prems(1)
  obtain p w l r where sub: "rsub t bs = Node p w l r" and leaf: "(if b then r else l) = Node a v Tip Tip"
    using rsub_snoc [OF snoc.prems(3)] by blast
  have sub': "rsub t bs \<noteq> Tip" using sub by simp
  let ?u = "rput (Node p w l r) [b] Tip" and ?s = "radix_unlink p a s"
  let ?t = "rput t bs ?u"
  have rp: "rep (rt_heap s) None t" using at by (simp add: radix_at_def)
  have "radix_at s (rpar None t bs) (Node p w l r) xs" using radix_at_rsub [OF at sub'] sub by simp
  then have "local_change s (rpar None t bs) (Node p w l r) xs ?s ?u (a # xs)"
    by (rule radix_unlink_change [OF _ leaf])
  then have c: "local_change s None t xs ?s ?t (a # xs)"
    using sub by (intro local_change_rput [OF at sub']) simp
  have at': "radix_at ?s None ?t (a # xs)" by (rule local_change_at [OF at c])
  have look: "rlookup ?t = (rlookup t)(bs @ [b] := NGX_RADIX_NO_VALUE)" by (rule rlookup_cut [OF sub leaf])
  have "length bs + rheight (rsub t bs) \<le> rheight t" by (rule rheight_rsub [OF sub'])
  moreover have "rheight ?u \<le> rheight (Node p w l r)" by (auto simp: le_max_iff_disj)
  ultimately have hgt: "rheight ?t \<le> rheight t" using rheight_rput [of t bs ?u] sub by simp
  have up: "rn_parent (rt_heap s a) = Some p"
  proof -
    have "rep (rt_heap s) (Some p) (if b then r else l)" using rep_rsub [OF rp sub'] sub by simp
    then show ?thesis using leaf by simp
  qed
  obtain k' where k: "k = Suc k'" using snoc.prems(5) by (cases k) auto
  have subt: "rsub ?t bs = ?u" using rsub_rput [OF sub', of ?u "[]"] by simp
  then obtain l' r' where u: "?u = Node p w l' r'" by (cases b) auto
  have hp: "rt_heap ?s p = \<lparr>rn_right = rptr r', rn_left = rptr l', rn_parent = rpar None ?t bs, rn_value = w\<rparr>"
    using at' subt u by (intro rep_value) (simp_all add: radix_at_def)
  have root: "rpar None ?t bs = None \<longleftrightarrow> bs = []" using subt u by (intro rpar_root) simp
  show ?case
  proof (cases "has_children (rt_heap ?s) p \<or> w \<noteq> NGX_RADIX_NO_VALUE \<or> bs = []")
    case True
    then have "radix_prune k a s = Some ?s" using up root by (auto simp: k hp)
    then show ?thesis using c look hgt by blast
  next
    case False
    then have tips: "l' = Tip" "r' = Tip" by (auto simp: has_children_def hp)
    have "radix_prune k a s = radix_prune k' p ?s" using up root False by (auto simp: k hp)
    moreover have "\<exists>s' u' ys. radix_prune k' p ?s = Some s' \<and> local_change ?s None ?t (a # xs) s' u' ys
        \<and> rlookup u' = (rlookup ?t)(bs := NGX_RADIX_NO_VALUE) \<and> rheight u' \<le> rheight ?t"
      using False snoc.prems(2,5) k c tips subt u
      by (intro snoc.IH [OF at', of p w]) (auto simp: local_change_def)
    moreover have "(rlookup ?t)(bs := NGX_RADIX_NO_VALUE) = rlookup ?t"
      using False subt u by (intro fun_upd_idem) simp
    ultimately show ?thesis using look hgt local_change_trans [OF at c] by (metis le_trans)
  qed
qed simp

definition delete_spec :: "nat \<Rightarrow> bool list \<Rightarrow> radix_tree \<Rightarrow> ngx_rc \<Rightarrow> radix_tree \<Rightarrow> bool" where
  "delete_spec w path s rc s' \<longleftrightarrow> radix_inv w s' \<and>
     (case rc of
        NGX_OK \<Rightarrow> radix_map s' = (radix_map s)(path := NGX_RADIX_NO_VALUE)
      | NGX_ERROR \<Rightarrow> radix_map s path = NGX_RADIX_NO_VALUE \<and> s' = s
      | _ \<Rightarrow> False)"

text \<open>The root is the one leaf that cannot be taken out.\<close>

lemma radix_delete_ok:
  assumes inv: "radix_inv w s"
  shows "case radix_delete path s of
      None \<Rightarrow> path = [] \<and> \<not> has_children (rt_heap s) (rt_root s)
    | Some (rc, s') \<Rightarrow> delete_spec w path s rc s'"
proof -
  obtain t xs where at: "radix_at s None t xs" and r: "rptr t = Some (rt_root s)" and h: "rheight t \<le> Suc w"
    using inv by (auto simp: radix_inv_def)
  have rp: "rep (rt_heap s) None t" using at by (simp add: radix_at_def)
  note m = radix_map_rep [OF rp r] and loc = radix_locate_rep [OF rp, of path, unfolded r]
  show ?thesis
  proof (cases "rsub t path")
    case Tip
    then show ?thesis using loc m inv by (simp add: radix_delete_def delete_spec_def)
  next
    case (Node a v l rr)
    have ha: "rt_heap s a = \<lparr>rn_right = rptr rr, rn_left = rptr l, rn_parent = rpar None t path, rn_value = v\<rparr>"
      by (rule rep_value [OF rp Node])
    show ?thesis
    proof (cases "has_children (rt_heap s) a")
      case True
      then show ?thesis using loc Node ha m inv radix_set_value_inv [OF at r h Node]
        by (auto simp: radix_delete_def delete_spec_def)
    next
      case False
      then have "rsub t path = Node a v Tip Tip" using Node ha by (auto simp: has_children_def)
      note leaf = radix_prune_ok [OF at r this]
      show ?thesis
      proof (cases "path = []")
        case True
        then have "a = rt_root s" using Node r by simp
        moreover have "radix_prune (Suc (length path)) a s = None" using ha True by simp
        ultimately show ?thesis using True False loc Node by (simp add: radix_delete_def)
      next
        case False
        obtain s' u ys where p: "radix_prune (Suc (length path)) a s = Some s'"
          and c: "local_change s None t xs s' u ys" and look: "rlookup u = (rlookup t)(path := NGX_RADIX_NO_VALUE)"
          and hgt: "rheight u \<le> rheight t" using leaf [OF False, of "Suc (length path)"] by auto
        have "radix_inv w s' \<and> radix_map s' = rlookup u" using hgt h by (intro radix_invI [OF c at r]) simp
        then show ?thesis using \<open>\<not> has_children (rt_heap s) a\<close> loc Node p look m
          by (simp add: radix_delete_def delete_spec_def)
      qed
    qed
  qed
qed


section \<open>Keys and masks\<close>

definition key_bits32 :: "u32 \<Rightarrow> bool list" where
  "key_bits32 key = map (\<lambda>d. key AND drop_bit d 0x80000000 \<noteq> 0) [0..<32]"

definition key_bits128 :: "(nat \<Rightarrow> u_char) \<Rightarrow> bool list" where
  "key_bits128 key = map (\<lambda>d. key (d div 8) AND drop_bit (d mod 8) 0x80 \<noteq> 0) [0..<128]"

lemma key_path32_bits: "key_path32 key = key_bits32 key @ [False]"
proof -
  have "[0..<33] = [0..<32] @ [32 :: nat]" by (simp add: upt_rec)
  moreover have "drop_bit 32 0x80000000 = (0 :: u32)" by (simp add: drop_bit_eq_div)
  ultimately show ?thesis unfolding key_path32_def key_bits32_def by simp
qed

lemma key_path128_bits: "key_path128 key = key_bits128 key @ [key 16 AND 0x80 \<noteq> 0]"
proof -
  have "[0..<129] = [0..<128] @ [128 :: nat]" by (simp add: upt_rec)
  then show ?thesis unfolding key_path128_def key_bits128_def by simp
qed

lemma drop_bit_less: "unat b < 2 ^ Suc n \<Longrightarrow> unat (drop_bit (Suc 0) b) < 2 ^ n" for b :: "'a::len word"
  by (auto simp: unat_drop_bit_eq drop_bit_Suc unat_div less_mult_imp_div_less mult.commute)

lemma mask_path32_length: "unat b < 2 ^ n \<Longrightarrow> length (mask_path32 key msk b) \<le> n"
proof (induction n arbitrary: b)
  case 0
  then have "b = 0" by (simp add: unat_eq_zero)
  then show ?case by (simp add: mask_path32.simps)
next
  case (Suc n)
  then show ?case using drop_bit_less [of b n] by (subst mask_path32.simps) auto
qed

lemma mask_path128_length:
  "unat b < 2 ^ n \<Longrightarrow> i < 16 \<Longrightarrow> length (mask_path128 key msk i b) \<le> 8 * (15 - i) + n"
proof (induction key msk i b arbitrary: n rule: mask_path128.induct)
  case (1 key msk i b)
  show ?case
  proof (cases "b AND msk i \<noteq> 0")
    case True
    then have "b \<noteq> 0" by auto
    then obtain m where n: "n = Suc m" using "1.prems"(1) by (cases n) (auto simp: unat_eq_zero)
    show ?thesis
    proof (cases "drop_bit 1 b = 0")
      case z: True
      show ?thesis
      proof (cases "i = 15")
        case True
        then have "mask_path128 key msk (i + 1) 0x80 = []" by (simp add: mask_path128.simps)
        then show ?thesis using z True n by (subst mask_path128.simps) simp
      next
        case False
        then have "length (mask_path128 key msk (i + 1) 0x80) \<le> 8 * (15 - (i + 1)) + 8"
          using "1.IH"(1) [of 8] "1.prems"(2) z \<open>b AND msk i \<noteq> 0\<close> by simp
        then show ?thesis using z n False "1.prems"(2) by (subst mask_path128.simps) auto
      qed
    next
      case nz: False
      have "length (mask_path128 key msk i (drop_bit 1 b)) \<le> 8 * (15 - i) + m"
        using "1.IH"(2) [of m] "1.prems" nz \<open>b AND msk i \<noteq> 0\<close> n drop_bit_less [of b m] by simp
      then show ?thesis using nz n by (subst mask_path128.simps) auto
    qed
  next
    case False
    then show ?thesis by (subst mask_path128.simps) simp
  qed
qed

section \<open>Trees as maps from prefixes\<close>

text \<open>The insertions and deletions of a client, and the same on a map, given the answers.\<close>

datatype 'k radix_op = Radix_insert 'k 'k u64 | Radix_delete 'k 'k

fun radix_run ::
  "('k \<Rightarrow> 'k \<Rightarrow> u64 \<Rightarrow> 's \<Rightarrow> ngx_rc \<times> 's) \<Rightarrow> ('k \<Rightarrow> 'k \<Rightarrow> 's \<Rightarrow> (ngx_rc \<times> 's) option) \<Rightarrow>
   'k radix_op list \<Rightarrow> 's \<Rightarrow> (ngx_rc list \<times> 's) option" where
  "radix_run ins del [] s = Some ([], s)"
| "radix_run ins del (Radix_insert key msk v # ops) s =
     (case ins key msk v s of (rc, s') \<Rightarrow> map_option (map_prod (Cons rc) id) (radix_run ins del ops s'))"
| "radix_run ins del (Radix_delete key msk # ops) s =
     (case del key msk s of None \<Rightarrow> None
      | Some (rc, s') \<Rightarrow> map_option (map_prod (Cons rc) id) (radix_run ins del ops s'))"

fun map_step :: "('k \<Rightarrow> 'k \<Rightarrow> bool list) \<Rightarrow> 'k radix_op \<Rightarrow> ngx_rc \<Rightarrow> (bool list \<Rightarrow> u64) \<Rightarrow> bool list \<Rightarrow> u64" where
  "map_step pf (Radix_insert key msk v) rc m = (if rc = NGX_OK then m(pf key msk := v) else m)"
| "map_step pf (Radix_delete key msk) rc m = (if rc = NGX_OK then m(pf key msk := NGX_RADIX_NO_VALUE) else m)"

fun map_run :: "('k \<Rightarrow> 'k \<Rightarrow> bool list) \<Rightarrow> 'k radix_op list \<Rightarrow> ngx_rc list \<Rightarrow> (bool list \<Rightarrow> u64) \<Rightarrow> bool list \<Rightarrow> u64" where
  "map_run pf (p # ops) (rc # rcs) m = map_run pf ops rcs (map_step pf p rc m)"
| "map_run pf _ _ m = m"

text \<open>What a client relies on.\<close>

locale prefix_tree =
  fixes pf :: "'k \<Rightarrow> 'k \<Rightarrow> bool list"
    and ins :: "'k \<Rightarrow> 'k \<Rightarrow> u64 \<Rightarrow> 's \<Rightarrow> ngx_rc \<times> 's"
    and del :: "'k \<Rightarrow> 'k \<Rightarrow> 's \<Rightarrow> (ngx_rc \<times> 's) option"
    and find :: "'f \<Rightarrow> 's \<Rightarrow> u64 option"
    and bits :: "'f \<Rightarrow> bool list"
    and ok :: "'s \<Rightarrow> bool"
    and mp :: "'s \<Rightarrow> bool list \<Rightarrow> u64"
  assumes ins_ok: "ok s \<Longrightarrow> ins key msk v s = (rc, s') \<Longrightarrow>
      ok s' \<and> mp s' = map_step pf (Radix_insert key msk v) rc (mp s)"
    and del_ok: "ok s \<Longrightarrow> del key msk s = Some (rc, s') \<Longrightarrow>
      ok s' \<and> mp s' = map_step pf (Radix_delete key msk) rc (mp s)"
    and find_ok: "ok s \<Longrightarrow> find x s = Some (longest_match (mp s) (bits x))"
begin

lemma run_refines:
  "ok s \<Longrightarrow> radix_run ins del ops s = Some (rcs, s') \<Longrightarrow> ok s' \<and> mp s' = map_run pf ops rcs (mp s)"
proof (induction ops arbitrary: s rcs)
  case (Cons p ops)
  show ?case
  proof (cases p)
    case (Radix_insert key msk v)
    obtain rc s1 where i: "ins key msk v s = (rc, s1)" by (cases "ins key msk v s")
    then obtain rcs' where "radix_run ins del ops s1 = Some (rcs', s')" "rcs = rc # rcs'"
      using Cons.prems(2) Radix_insert by auto
    then show ?thesis using Cons.IH [of s1 rcs'] ins_ok [OF Cons.prems(1) i] Radix_insert by simp
  next
    case (Radix_delete key msk)
    then obtain rc s1 rcs' where d: "del key msk s = Some (rc, s1)"
      "radix_run ins del ops s1 = Some (rcs', s')" "rcs = rc # rcs'"
      using Cons.prems(2) by (auto split: option.splits)
    then show ?thesis using Cons.IH [of s1 rcs'] del_ok [OF Cons.prems(1) d(1)] Radix_delete by simp
  qed
qed auto

lemma find_after_run:
  "ok s \<Longrightarrow> radix_run ins del ops s = Some (rcs, s') \<Longrightarrow>
   find x s' = Some (longest_match (map_run pf ops rcs (mp s)) (bits x))"
  using run_refines find_ok by metis

end

lemma insert_spec_step:
  "insert_spec w path v s rc s' \<Longrightarrow> pf key msk = path \<Longrightarrow>
   radix_inv w s' \<and> radix_map s' = map_step pf (Radix_insert key msk v) rc (radix_map s)"
  by (cases rc) (auto simp: insert_spec_def)

lemma delete_spec_step:
  "delete_spec w path s rc s' \<Longrightarrow> pf key msk = path \<Longrightarrow>
   radix_inv w s' \<and> radix_map s' = map_step pf (Radix_delete key msk) rc (radix_map s)"
  by (cases rc) (auto simp: delete_spec_def)

lemma radix_find_inv:
  assumes "radix_inv w s" and "length bs = w"
  shows "radix_find (rt_heap s) (bs @ [b]) (Some (rt_root s)) NGX_RADIX_NO_VALUE
    = Some (longest_match (radix_map s) bs)"
proof -
  obtain t xs where at: "radix_at s None t xs" and r: "rptr t = Some (rt_root s)" and h: "rheight t \<le> Suc w"
    using assms(1) by (auto simp: radix_inv_def)
  have rp: "rep (rt_heap s) None t" using at by (simp add: radix_at_def)
  show ?thesis using radix_find_rep [OF rp, of bs b NGX_RADIX_NO_VALUE] h assms(2) r
    by (simp add: radix_map_rep [OF rp r] split: if_splits)
qed

abbreviation path32 :: "u32 \<Rightarrow> u32 \<Rightarrow> bool list" where
  "path32 key msk \<equiv> mask_path32 key msk 0x80000000"

abbreviation path128 :: "(nat \<Rightarrow> u_char) \<Rightarrow> (nat \<Rightarrow> u_char) \<Rightarrow> bool list" where
  "path128 key msk \<equiv> mask_path128 key msk 0 0x80"

lemma radix_delete_Some:
  "radix_inv w s \<Longrightarrow> radix_delete path s = Some (rc, s') \<Longrightarrow> delete_spec w path s rc s'"
  using radix_delete_ok [of w s path] by simp

interpretation radix32: prefix_tree path32 ngx_radix32tree_insert ngx_radix32tree_delete ngx_radix32tree_find
  key_bits32 "radix_inv 32" radix_map
proof
  fix s s' :: radix_tree and key msk :: u32 and v rc
  assume inv: "radix_inv 32 s"
  have len: "length (path32 key msk) \<le> 32" by (rule mask_path32_length) simp
  show "radix_inv 32 s' \<and> radix_map s' = map_step path32 (Radix_insert key msk v) rc (radix_map s)"
    if "ngx_radix32tree_insert key msk v s = (rc, s')"
    using radix_insert_ok [OF inv len] that by (intro insert_spec_step) (auto simp: ngx_radix32tree_insert_def)
  show "radix_inv 32 s' \<and> radix_map s' = map_step path32 (Radix_delete key msk) rc (radix_map s)"
    if "ngx_radix32tree_delete key msk s = Some (rc, s')"
    using radix_delete_Some [OF inv] that by (intro delete_spec_step) (simp_all add: ngx_radix32tree_delete_def)
  show "ngx_radix32tree_find key s = Some (longest_match (radix_map s) (key_bits32 key))"
    by (simp add: ngx_radix32tree_find_def key_path32_bits radix_find_inv [OF inv] key_bits32_def)
qed

interpretation radix128: prefix_tree path128 ngx_radix128tree_insert ngx_radix128tree_delete ngx_radix128tree_find
  key_bits128 "radix_inv 128" radix_map
proof
  fix s s' :: radix_tree and key msk :: "nat \<Rightarrow> u_char" and v rc
  assume inv: "radix_inv 128 s"
  have len: "length (path128 key msk) \<le> 128" using mask_path128_length [where b = "0x80" and n = 8 and i = 0 and key = key and msk = msk] by simp
  show "radix_inv 128 s' \<and> radix_map s' = map_step path128 (Radix_insert key msk v) rc (radix_map s)"
    if "ngx_radix128tree_insert key msk v s = (rc, s')"
    using radix_insert_ok [OF inv len] that by (intro insert_spec_step) (auto simp: ngx_radix128tree_insert_def)
  show "radix_inv 128 s' \<and> radix_map s' = map_step path128 (Radix_delete key msk) rc (radix_map s)"
    if "ngx_radix128tree_delete key msk s = Some (rc, s')"
    using radix_delete_Some [OF inv] that by (intro delete_spec_step) (simp_all add: ngx_radix128tree_delete_def)
  show "ngx_radix128tree_find key s = Some (longest_match (radix_map s) (key_bits128 key))"
    by (simp add: ngx_radix128tree_find_def key_path128_bits radix_find_inv [OF inv] key_bits128_def)
qed


section \<open>A new tree\<close>

text \<open>
  Preallocation inserts every prefix of the lengths 1 to \<open>preallocate\<close> without a value; the keys
  of one length are 0, \<open>inc\<close>, 2 * \<open>inc\<close> and so on until the sum wraps to 0, which is after
  \<open>2 ^ level\<close> of them. \<open>preallocate\<close> is at most 32.
\<close>

fun prealloc_keys :: "nat \<Rightarrow> u32 \<Rightarrow> u32 \<Rightarrow> u32 \<Rightarrow> radix_tree \<Rightarrow> radix_tree option" where
  "prealloc_keys 0 key inc msk s = Some s"
| "prealloc_keys (Suc n) key inc msk s =
     (case ngx_radix32tree_insert key msk NGX_RADIX_NO_VALUE s of
        (NGX_OK, s') \<Rightarrow> prealloc_keys n (key + inc) inc msk s'
      | _ \<Rightarrow> None)"

fun prealloc_levels :: "nat \<Rightarrow> nat \<Rightarrow> u32 \<Rightarrow> u32 \<Rightarrow> radix_tree \<Rightarrow> radix_tree option" where
  "prealloc_levels 0 level inc msk s = Some s"
| "prealloc_levels (Suc n) level inc msk s =
     (let msk = drop_bit 1 msk OR 0x80000000 in
      case prealloc_keys (2 ^ level) 0 inc msk s of
        None \<Rightarrow> None
      | Some s' \<Rightarrow> prealloc_levels n (Suc level) (drop_bit 1 inc) msk s')"

definition default_prealloc :: nat where
  "default_prealloc =
     (if ngx_pagesize div sizeof_radix_node = 128 then 6
      else if ngx_pagesize div sizeof_radix_node = 256 then 7 else 8)"

definition ngx_radix_tree_create :: "radix_heap \<Rightarrow> nat option list \<Rightarrow> int \<Rightarrow> radix_tree option" where
  "ngx_radix_tree_create h pages preallocate =
     (case ngx_radix_alloc
          \<lparr>rt_heap = h, rt_root = 0, rt_free = None, rt_start = 0, rt_size = 0, rt_pages = pages\<rparr> of
        (s, None) \<Rightarrow> None
      | (s, Some p) \<Rightarrow>
          let s = s\<lparr>rt_root := p, rt_heap := (rt_heap s)(p :=
                \<lparr>rn_right = None, rn_left = None, rn_parent = None, rn_value = NGX_RADIX_NO_VALUE\<rparr>)\<rparr> in
          if preallocate = 0 then Some s
          else prealloc_levels (if preallocate = - 1 then default_prealloc else nat preallocate)
                 1 0x80000000 0 s)"

lemma prealloc_wraps:
  assumes "0 < level" and "level \<le> 32"
  shows "of_nat (2 ^ level) * (drop_bit (level - 1) 0x80000000 :: u32) = 0"
proof -
  have shift: "push_bit level (drop_bit (level - 1) (push_bit k 1)) = (0 :: u32)" if "31 \<le> k" for k
    using assms that by (intro bit_word_eqI) (auto simp: bit_push_bit_iff bit_drop_bit_eq bit_1_iff bit_exp_iff)
  have "of_nat (2 ^ level) * (drop_bit (level - 1) 0x80000000 :: u32)
      = push_bit level (drop_bit (level - 1) (push_bit 31 1))"
    by (simp add: push_bit_eq_mult mult.commute)
  then show ?thesis using shift [of 31] by simp
qed

definition empty_map :: "bool list \<Rightarrow> u64" where "empty_map = (\<lambda>p. NGX_RADIX_NO_VALUE)"

lemma prealloc_keys_empty:
  "radix_inv 32 s \<Longrightarrow> radix_map s = empty_map \<Longrightarrow> prealloc_keys n key inc msk s = Some s' \<Longrightarrow>
   radix_inv 32 s' \<and> radix_map s' = empty_map"
proof (induction n arbitrary: key s)
  case (Suc n)
  obtain rc s1 where i: "ngx_radix32tree_insert key msk NGX_RADIX_NO_VALUE s = (rc, s1)"
    by (cases "ngx_radix32tree_insert key msk NGX_RADIX_NO_VALUE s")
  then have "radix_inv 32 s1 \<and> radix_map s1 = empty_map"
    using radix32.ins_ok [OF Suc.prems(1) i] Suc.prems(2) by (auto simp: empty_map_def)
  moreover have "prealloc_keys n (key + inc) inc msk s1 = Some s'"
    using Suc.prems(3) i by (cases rc) auto
  ultimately show ?case using Suc.IH by blast
qed auto

lemma prealloc_levels_empty:
  "radix_inv 32 s \<Longrightarrow> radix_map s = empty_map \<Longrightarrow> prealloc_levels n level inc msk s = Some s' \<Longrightarrow>
   radix_inv 32 s' \<and> radix_map s' = empty_map"
proof (induction n arbitrary: level inc msk s)
  case (Suc n)
  obtain s1 where k: "prealloc_keys (2 ^ level) 0 inc (drop_bit 1 msk OR 0x80000000) s = Some s1"
    and l: "prealloc_levels n (Suc level) (drop_bit 1 inc) (drop_bit 1 msk OR 0x80000000) s1 = Some s'"
    using Suc.prems(3) by (auto simp: Let_def split: option.splits)
  show ?case using Suc.IH [OF _ _ l] prealloc_keys_empty [OF Suc.prems(1,2) k] by blast
qed simp

lemma create_empty:
  assumes "ngx_radix_tree_create h pages preallocate = Some s" and "distinct (page_cells pages)"
  shows "radix_inv 32 s \<and> radix_map s = empty_map"
proof -
  let ?s0 = "\<lparr>rt_heap = h, rt_root = 0, rt_free = None, rt_start = 0, rt_size = 0, rt_pages = pages\<rparr>"
  obtain s1 p where al: "ngx_radix_alloc ?s0 = (s1, Some p)"
    using assms(1) by (auto simp: ngx_radix_tree_create_def split: prod.splits option.splits)
  define s2 where "s2 = s1\<lparr>rt_root := p, rt_heap := (rt_heap s1)(p :=
      \<lparr>rn_right = None, rn_left = None, rn_parent = None, rn_value = NGX_RADIX_NO_VALUE\<rparr>)\<rparr>"
  have "fchain (rt_heap ?s0) (rt_free ?s0) []" by simp
  from radix_alloc_mem [OF al this] obtain xs where f: "fchain (rt_heap s1) (rt_free s1) xs"
    and m: "rfree s1 xs + {#p#} \<subseteq># rfree ?s0 []" by auto
  have c: "count (rfree s1 xs + {#p#}) x \<le> 1" for x
  proof -
    have "count (rfree s1 xs + {#p#}) x \<le> count (mset (page_cells pages)) x"
      using mset_subset_eq_count [OF m, of x] by (simp add: rfree_def cells_none sizeof_radix_node_def)
    also have "\<dots> \<le> 1" using assms(2) by (simp add: distinct_count_atmost_1)
    finally show ?thesis .
  qed
  have "p \<notin> set xs"
  proof
    assume "p \<in> set xs"
    then have "p \<in># rfree s1 xs" by (simp add: rfree_def)
    then show False using c [of p] by (auto simp: count_eq_zero_iff)
  qed
  then have "fchain (rt_heap s2) (rt_free s2) xs" using f by (auto simp: s2_def intro: fchain_frame)
  moreover have "count (mset (raddrs (Node p NGX_RADIX_NO_VALUE Tip Tip)) + rfree s2 xs) x \<le> 1" for x
    using c [of x] by (simp add: s2_def rfree_def)
  ultimately have at: "radix_at s2 None (Node p NGX_RADIX_NO_VALUE Tip Tip) xs"
    by (simp add: radix_at_def s2_def)
  then have inv: "radix_inv 32 s2" unfolding radix_inv_def
    by (intro exI [of _ "Node p NGX_RADIX_NO_VALUE Tip Tip"] exI [of _ xs]) (simp add: s2_def)
  have "radix_map s2 = rlookup (Node p NGX_RADIX_NO_VALUE Tip Tip)"
    using at by (intro radix_map_rep) (simp_all add: radix_at_def s2_def)
  moreover have "rlookup (Node p NGX_RADIX_NO_VALUE Tip Tip) q = NGX_RADIX_NO_VALUE" for q
    by (cases q) auto
  ultimately have "radix_map s2 = empty_map" by (simp add: empty_map_def)
  note empty = prealloc_levels_empty [OF inv this] and start = inv this
  have "ngx_radix_tree_create h pages preallocate = (if preallocate = 0 then Some s2
      else prealloc_levels (if preallocate = - 1 then default_prealloc else nat preallocate) 1 0x80000000 0 s2)"
    unfolding ngx_radix_tree_create_def al s2_def by (simp only: prod.case option.case Let_def)
  then show ?thesis using empty start assms(1) by (metis option.inject)
qed

text \<open>
  The loop over the mask, against the mask of \<open>k\<close> ones from the top: the key's first \<open>k\<close> bits.
\<close>

definition net_mask32 :: "nat \<Rightarrow> u32" where
  "net_mask32 k = push_bit (32 - k) (- 1)"

lemma top_bit32: "d < 32 \<Longrightarrow> drop_bit d (0x80000000 :: u32) = push_bit (31 - d) 1"
proof -
  assume d: "d < 32"
  have "(0x80000000 :: u32) = push_bit 31 1" by simp
  then have "drop_bit d (0x80000000 :: u32) = drop_bit d (push_bit d (push_bit (31 - d) 1))"
    using d by (simp only: push_bit_push_bit) simp
  moreover have "drop_bit d (push_bit d (push_bit (31 - d) (1 :: u32))) = push_bit (31 - d) 1"
    using d by (intro bit_eqI) (auto simp: bit_simps)
  ultimately show ?thesis by simp
qed

lemma mask_path32_from:
  "d \<le> k \<Longrightarrow> k \<le> 32 \<Longrightarrow>
   mask_path32 key (net_mask32 k) (drop_bit d 0x80000000) = map (\<lambda>i. key AND drop_bit i 0x80000000 \<noteq> 0) [d..<k]"
proof (induction "k - d" arbitrary: d)
  case 0
  then have d: "d = k" by simp
  have "drop_bit k 0x80000000 AND net_mask32 k = 0"
  proof (cases "k < 32")
    case True
    then show ?thesis unfolding top_bit32 [OF True] net_mask32_def by (intro bit_eqI) (auto simp: bit_simps)
  next
    case False
    then have "k = 32" using 0 by simp
    then show ?thesis by simp
  qed
  then show ?case unfolding d by (subst mask_path32.simps) simp
next
  case (Suc n)
  then have d: "d < k" "d < 32" by linarith+
  have "bit (drop_bit d 0x80000000 AND net_mask32 k) (31 - d)"
    unfolding top_bit32 [OF d(2)] net_mask32_def using d by (auto simp: bit_simps)
  then have on: "drop_bit d 0x80000000 AND net_mask32 k \<noteq> 0" by auto
  have "drop_bit 1 (drop_bit d (0x80000000 :: u32)) = drop_bit (Suc d) 0x80000000" by (simp add: drop_bit_Suc)
  then have "mask_path32 key (net_mask32 k) (drop_bit d 0x80000000) =
      (key AND drop_bit d 0x80000000 \<noteq> 0) # mask_path32 key (net_mask32 k) (drop_bit (Suc d) 0x80000000)"
    using on by (subst mask_path32.simps) simp
  moreover have "mask_path32 key (net_mask32 k) (drop_bit (Suc d) 0x80000000)
      = map (\<lambda>i. key AND drop_bit i 0x80000000 \<noteq> 0) [Suc d..<k]"
    using Suc by (intro Suc.hyps(1)) simp_all
  ultimately show ?case using d(1) by (simp add: upt_conv_Cons)
qed

lemma path32_net: "k \<le> 32 \<Longrightarrow> mask_path32 key (net_mask32 k) 0x80000000 = take k (key_bits32 key)"
  using mask_path32_from [of 0 k key] by (simp add: key_bits32_def take_map min_def)

section \<open>The properties\<close>

text \<open>
  C15. Refinement of the 32-bit radix tree: after any sequence of \<open>ngx_radix32tree_insert\<close> and
  \<open>ngx_radix32tree_delete\<close> on a new tree, of any preallocation and with any failures of
  the allocator, a lookup ends and gives the value of the longest prefix of the key in the map that the
  successful operations make, and \<open>NGX_RADIX_NO_VALUE\<close> when no prefix is in it.
  The prefix under which the map holds an address with a mask of \<open>k\<close> ones is its first \<open>k\<close> bits.
\<close>

theorem radix32_refines:
  assumes "ngx_radix_tree_create h pages preallocate = Some s" and "distinct (page_cells pages)"
    and "radix_run ngx_radix32tree_insert ngx_radix32tree_delete ops s = Some (rcs, s')"
  shows "ngx_radix32tree_find key s' = Some (longest_match (map_run path32 ops rcs empty_map) (key_bits32 key))
    \<and> (\<forall>k\<le>32. \<forall>addr. path32 addr (net_mask32 k) = take k (key_bits32 addr))"
proof
  show "ngx_radix32tree_find key s' = Some (longest_match (map_run path32 ops rcs empty_map) (key_bits32 key))"
    using create_empty [OF assms(1,2)] radix32.find_after_run [OF _ assms(3)] by metis
  show "\<forall>k\<le>32. \<forall>addr. path32 addr (net_mask32 k) = take k (key_bits32 addr)" by (simp add: path32_net)
qed

text \<open>
  The same for the keys of 128 bits; the byte that the lookup reads behind the key does not
  matter.
\<close>

theorem radix128_refines:
  assumes "ngx_radix_tree_create h pages 0 = Some s" and "distinct (page_cells pages)"
    and "radix_run ngx_radix128tree_insert ngx_radix128tree_delete ops s = Some (rcs, s')"
  shows "ngx_radix128tree_find key s' = Some (longest_match (map_run path128 ops rcs empty_map) (key_bits128 key))"
proof -
  have "radix_inv 128 s" "radix_map s = empty_map"
    using create_empty [OF assms(1,2)] by (auto simp: radix_inv_def)
  then show ?thesis using radix128.find_after_run [OF _ assms(3)] by metis
qed

text \<open>
  C36. The answers of the 32-bit tree: \<open>NGX_BUSY\<close> exactly for a prefix that has a value, which
  changes nothing; a failed allocation loses no prefix; a deletion answers \<open>NGX_ERROR\<close> only for
  a prefix without a value; and the one deletion that does not return is that of the empty prefix from a tree
  that holds nothing else, where the loop goes on to the parent of the root.
\<close>

theorem radix32_answers:
  assumes "radix_inv 32 s"
  shows "(case ngx_radix32tree_insert key msk v s of (rc, s') \<Rightarrow> insert_spec 32 (path32 key msk) v s rc s')
    \<and> (case ngx_radix32tree_delete key msk s of
         None \<Rightarrow> 0x80000000 AND msk = 0 \<and> \<not> has_children (rt_heap s) (rt_root s)
       | Some (rc, s') \<Rightarrow> delete_spec 32 (path32 key msk) s rc s')"
proof -
  have "length (path32 key msk) \<le> 32" by (rule mask_path32_length) simp
  then have "case ngx_radix32tree_insert key msk v s of (rc, s') \<Rightarrow> insert_spec 32 (path32 key msk) v s rc s'"
    using radix_insert_ok [OF assms] by (auto simp: ngx_radix32tree_insert_def split: prod.splits)
  moreover have "path32 key msk = [] \<longleftrightarrow> 0x80000000 AND msk = 0" by (simp add: mask_path32.simps)
  ultimately show ?thesis using radix_delete_ok [OF assms, of "path32 key msk"]
    by (auto simp: ngx_radix32tree_delete_def split: option.splits)
qed

section \<open>Witnesses\<close>

lemma distinct_cells: "distinct (cells a n)"
  by (simp add: cells_def distinct_map inj_on_def sizeof_radix_node_def)

lemma distinct_page: "distinct (page_cells [Some a])"
  by (simp add: page_cells_def distinct_cells)

abbreviation sample_heap :: radix_heap where
  "sample_heap \<equiv> (\<lambda>a. \<lparr>rn_right = None, rn_left = None, rn_parent = None, rn_value = 0\<rparr>)"

definition sample_tree :: radix_tree where
  "sample_tree = the (ngx_radix_tree_create sample_heap [Some 4096] 0)"

lemma sample_create: "ngx_radix_tree_create sample_heap [Some 4096] 0 = Some sample_tree"
  by (simp add: sample_tree_def ngx_radix_tree_create_def ngx_radix_alloc_def sizeof_radix_node_def Let_def)

lemmas radix_eval = ngx_radix32tree_insert_def ngx_radix128tree_insert_def ngx_radix32tree_delete_def
  radix_insert_def radix_delete_def mask_path32.simps mask_path128.simps ngx_radix_alloc_def radix_new_def
  set_child_def radix_child_def set_value_def has_children_def radix_unlink_def sizeof_radix_node_def
  ngx_pagesize_def NGX_RADIX_NO_VALUE_def Let_def drop_bit_Suc

definition sample_ops :: "u32 radix_op list" where
  "sample_ops = [Radix_insert 0x80000000 0x80000000 5, Radix_insert 0xC0000000 0xC0000000 7,
     Radix_insert 0x80000000 0x80000000 6, Radix_delete 0xC0000000 0xC0000000]"

lemma sample_tree_eq: "sample_tree =
    \<lparr>rt_heap = sample_heap(4096 := \<lparr>rn_right = None, rn_left = None, rn_parent = None, rn_value = - 1\<rparr>),
     rt_root = 4096, rt_free = None, rt_start = 4128, rt_size = 4064, rt_pages = []\<rparr>"
  by (simp add: sample_tree_def ngx_radix_tree_create_def radix_eval)

lemma sample_run:
  "map_option fst (radix_run ngx_radix32tree_insert ngx_radix32tree_delete sample_ops sample_tree)
    = Some [NGX_OK, NGX_OK, NGX_BUSY, NGX_OK]"
  by (simp add: sample_ops_def sample_tree_eq radix_eval)

lemma key_bits_Cons:
  "key_bits32 key = (key AND 0x80000000 \<noteq> 0) # map (\<lambda>d. key AND drop_bit d 0x80000000 \<noteq> 0) [1..<32]"
  "key_bits128 k = (k 0 AND 0x80 \<noteq> 0) # map (\<lambda>d. k (d div 8) AND drop_bit (d mod 8) 0x80 \<noteq> 0) [1..<128]"
  unfolding key_bits32_def key_bits128_def by (subst upt_conv_Cons; simp)+

lemma longest_match_first: "longest_match (\<lambda>p. if p = [] then v else NGX_RADIX_NO_VALUE) bs = v"
  by (cases bs) (simp_all add: longest_match_none Let_def)

theorem radix32_refines_witness:
  "\<exists>s'. radix_run ngx_radix32tree_insert ngx_radix32tree_delete sample_ops sample_tree
      = Some ([NGX_OK, NGX_OK, NGX_BUSY, NGX_OK], s') \<and> ngx_radix32tree_find 0xC0000001 s' = Some 5"
proof -
  obtain s' where r: "radix_run ngx_radix32tree_insert ngx_radix32tree_delete sample_ops sample_tree
      = Some ([NGX_OK, NGX_OK, NGX_BUSY, NGX_OK], s')" using sample_run by auto
  let ?m = "map_run path32 sample_ops [NGX_OK, NGX_OK, NGX_BUSY, NGX_OK] empty_map"
  have "?m = (\<lambda>p. if p = [True] then 5 else NGX_RADIX_NO_VALUE)"
    by (auto simp: sample_ops_def empty_map_def mask_path32.simps drop_bit_Suc fun_eq_iff)
  then have "longest_match ?m (key_bits32 0xC0000001) = 5"
    using longest_match_first [of 5] by (simp add: key_bits_Cons NGX_RADIX_NO_VALUE_def)
  then show ?thesis
    using conjunct1 [OF radix32_refines [OF sample_create distinct_page r, of "0xC0000001"]] r by auto
qed

definition sample_ops128 :: "(nat \<Rightarrow> u_char) radix_op list" where
  "sample_ops128 = [Radix_insert (\<lambda>i. 0xff) (\<lambda>i. if i = 0 then 0x80 else 0) 5]"

theorem radix128_refines_witness:
  "\<exists>s'. radix_run ngx_radix128tree_insert ngx_radix128tree_delete sample_ops128 sample_tree
      = Some ([NGX_OK], s') \<and> ngx_radix128tree_find (\<lambda>i. 0xfe) s' = Some 5"
proof -
  obtain s' where r: "radix_run ngx_radix128tree_insert ngx_radix128tree_delete sample_ops128 sample_tree
      = Some ([NGX_OK], s')" by (auto simp: sample_ops128_def sample_tree_eq radix_eval)
  let ?m = "map_run path128 sample_ops128 [NGX_OK] empty_map"
  have "?m = (\<lambda>p. if p = [True] then 5 else NGX_RADIX_NO_VALUE)"
    by (auto simp: sample_ops128_def empty_map_def mask_path128.simps drop_bit_Suc fun_eq_iff)
  then have "longest_match ?m (key_bits128 (\<lambda>i. 0xfe)) = 5"
    using longest_match_first [of 5] by (simp add: key_bits_Cons NGX_RADIX_NO_VALUE_def)
  then show ?thesis using radix128_refines [OF sample_create distinct_page r, of "\<lambda>i. 0xfe"] r by auto
qed

theorem radix32_answers_witness:
  "fst (ngx_radix32tree_insert 0 0 1 sample_tree) = NGX_OK \<and> ngx_radix32tree_delete 0 0 sample_tree = None
   \<and> insert_spec 32 [] 1 sample_tree NGX_OK (snd (ngx_radix32tree_insert 0 0 1 sample_tree))"
proof -
  have inv: "radix_inv 32 sample_tree" using create_empty [OF sample_create distinct_page] by blast
  have e: "fst (ngx_radix32tree_insert 0 0 1 sample_tree) = NGX_OK" "ngx_radix32tree_delete 0 0 sample_tree = None"
    by (simp_all add: sample_tree_eq radix_eval)
  have "path32 0 0 = []" by (simp add: mask_path32.simps)
  then show ?thesis using radix32_answers [OF inv, of 0 0 1] e by (cases "ngx_radix32tree_insert 0 0 1 sample_tree") auto
qed


end
