(* ===== verification/H2_Huffman_Table.thy ===== *)
theory H2_Huffman_Table
  imports Prelude
begin

text \<open>
  The tables of the Huffman code of HTTP/2: the decoding automaton of
  \<open>http/v2/ngx_http_v2_huff_decode.c\<close>, four bits at a step, and the codes of
  \<open>http/v2/ngx_http_v2_huff_encode.c\<close>, entry by entry. The code tree is given as well, one
  bit at a step, and the tables are checked against it: the decoding table row by row, the codes
  as paths of the tree.
\<close>

section \<open>The decoding table\<close>

text \<open>\<open>next\<close>, \<open>emit\<close>, \<open>sym\<close> and \<open>ending\<close> of an entry.\<close>

datatype huff_decode_code = HD (code_next: u_char) (code_emit: u_char) (code_sym: u_char) (code_ending: u_char)

definition huff_rows_0 :: "huff_decode_code list list" where
  "huff_rows_0 = [
     [HD 0x04 0 0x00 0, HD 0x05 0 0x00 0, HD 0x07 0 0x00 0, HD 0x08 0 0x00 0,
      HD 0x0b 0 0x00 0, HD 0x0c 0 0x00 0, HD 0x10 0 0x00 0, HD 0x13 0 0x00 0,
      HD 0x19 0 0x00 0, HD 0x1c 0 0x00 0, HD 0x20 0 0x00 0, HD 0x23 0 0x00 0,
      HD 0x2a 0 0x00 0, HD 0x31 0 0x00 0, HD 0x39 0 0x00 0, HD 0x40 0 0x00 1],
     [HD 0x00 1 0x30 1, HD 0x00 1 0x31 1, HD 0x00 1 0x32 1, HD 0x00 1 0x61 1,
      HD 0x00 1 0x63 1, HD 0x00 1 0x65 1, HD 0x00 1 0x69 1, HD 0x00 1 0x6f 1,
      HD 0x00 1 0x73 1, HD 0x00 1 0x74 1, HD 0x0d 0 0x00 0, HD 0x0e 0 0x00 0,
      HD 0x11 0 0x00 0, HD 0x12 0 0x00 0, HD 0x14 0 0x00 0, HD 0x15 0 0x00 0],
     [HD 0x01 1 0x30 0, HD 0x16 1 0x30 1, HD 0x01 1 0x31 0, HD 0x16 1 0x31 1,
      HD 0x01 1 0x32 0, HD 0x16 1 0x32 1, HD 0x01 1 0x61 0, HD 0x16 1 0x61 1,
      HD 0x01 1 0x63 0, HD 0x16 1 0x63 1, HD 0x01 1 0x65 0, HD 0x16 1 0x65 1,
      HD 0x01 1 0x69 0, HD 0x16 1 0x69 1, HD 0x01 1 0x6f 0, HD 0x16 1 0x6f 1],
     [HD 0x02 1 0x30 0, HD 0x09 1 0x30 0, HD 0x17 1 0x30 0, HD 0x28 1 0x30 1,
      HD 0x02 1 0x31 0, HD 0x09 1 0x31 0, HD 0x17 1 0x31 0, HD 0x28 1 0x31 1,
      HD 0x02 1 0x32 0, HD 0x09 1 0x32 0, HD 0x17 1 0x32 0, HD 0x28 1 0x32 1,
      HD 0x02 1 0x61 0, HD 0x09 1 0x61 0, HD 0x17 1 0x61 0, HD 0x28 1 0x61 1],
     [HD 0x03 1 0x30 0, HD 0x06 1 0x30 0, HD 0x0a 1 0x30 0, HD 0x0f 1 0x30 0,
      HD 0x18 1 0x30 0, HD 0x1f 1 0x30 0, HD 0x29 1 0x30 0, HD 0x38 1 0x30 1,
      HD 0x03 1 0x31 0, HD 0x06 1 0x31 0, HD 0x0a 1 0x31 0, HD 0x0f 1 0x31 0,
      HD 0x18 1 0x31 0, HD 0x1f 1 0x31 0, HD 0x29 1 0x31 0, HD 0x38 1 0x31 1],
     [HD 0x03 1 0x32 0, HD 0x06 1 0x32 0, HD 0x0a 1 0x32 0, HD 0x0f 1 0x32 0,
      HD 0x18 1 0x32 0, HD 0x1f 1 0x32 0, HD 0x29 1 0x32 0, HD 0x38 1 0x32 1,
      HD 0x03 1 0x61 0, HD 0x06 1 0x61 0, HD 0x0a 1 0x61 0, HD 0x0f 1 0x61 0,
      HD 0x18 1 0x61 0, HD 0x1f 1 0x61 0, HD 0x29 1 0x61 0, HD 0x38 1 0x61 1],
     [HD 0x02 1 0x63 0, HD 0x09 1 0x63 0, HD 0x17 1 0x63 0, HD 0x28 1 0x63 1,
      HD 0x02 1 0x65 0, HD 0x09 1 0x65 0, HD 0x17 1 0x65 0, HD 0x28 1 0x65 1,
      HD 0x02 1 0x69 0, HD 0x09 1 0x69 0, HD 0x17 1 0x69 0, HD 0x28 1 0x69 1,
      HD 0x02 1 0x6f 0, HD 0x09 1 0x6f 0, HD 0x17 1 0x6f 0, HD 0x28 1 0x6f 1],
     [HD 0x03 1 0x63 0, HD 0x06 1 0x63 0, HD 0x0a 1 0x63 0, HD 0x0f 1 0x63 0,
      HD 0x18 1 0x63 0, HD 0x1f 1 0x63 0, HD 0x29 1 0x63 0, HD 0x38 1 0x63 1,
      HD 0x03 1 0x65 0, HD 0x06 1 0x65 0, HD 0x0a 1 0x65 0, HD 0x0f 1 0x65 0,
      HD 0x18 1 0x65 0, HD 0x1f 1 0x65 0, HD 0x29 1 0x65 0, HD 0x38 1 0x65 1],
     [HD 0x03 1 0x69 0, HD 0x06 1 0x69 0, HD 0x0a 1 0x69 0, HD 0x0f 1 0x69 0,
      HD 0x18 1 0x69 0, HD 0x1f 1 0x69 0, HD 0x29 1 0x69 0, HD 0x38 1 0x69 1,
      HD 0x03 1 0x6f 0, HD 0x06 1 0x6f 0, HD 0x0a 1 0x6f 0, HD 0x0f 1 0x6f 0,
      HD 0x18 1 0x6f 0, HD 0x1f 1 0x6f 0, HD 0x29 1 0x6f 0, HD 0x38 1 0x6f 1],
     [HD 0x01 1 0x73 0, HD 0x16 1 0x73 1, HD 0x01 1 0x74 0, HD 0x16 1 0x74 1,
      HD 0x00 1 0x20 1, HD 0x00 1 0x25 1, HD 0x00 1 0x2d 1, HD 0x00 1 0x2e 1,
      HD 0x00 1 0x2f 1, HD 0x00 1 0x33 1, HD 0x00 1 0x34 1, HD 0x00 1 0x35 1,
      HD 0x00 1 0x36 1, HD 0x00 1 0x37 1, HD 0x00 1 0x38 1, HD 0x00 1 0x39 1],
     [HD 0x02 1 0x73 0, HD 0x09 1 0x73 0, HD 0x17 1 0x73 0, HD 0x28 1 0x73 1,
      HD 0x02 1 0x74 0, HD 0x09 1 0x74 0, HD 0x17 1 0x74 0, HD 0x28 1 0x74 1,
      HD 0x01 1 0x20 0, HD 0x16 1 0x20 1, HD 0x01 1 0x25 0, HD 0x16 1 0x25 1,
      HD 0x01 1 0x2d 0, HD 0x16 1 0x2d 1, HD 0x01 1 0x2e 0, HD 0x16 1 0x2e 1],
     [HD 0x03 1 0x73 0, HD 0x06 1 0x73 0, HD 0x0a 1 0x73 0, HD 0x0f 1 0x73 0,
      HD 0x18 1 0x73 0, HD 0x1f 1 0x73 0, HD 0x29 1 0x73 0, HD 0x38 1 0x73 1,
      HD 0x03 1 0x74 0, HD 0x06 1 0x74 0, HD 0x0a 1 0x74 0, HD 0x0f 1 0x74 0,
      HD 0x18 1 0x74 0, HD 0x1f 1 0x74 0, HD 0x29 1 0x74 0, HD 0x38 1 0x74 1],
     [HD 0x02 1 0x20 0, HD 0x09 1 0x20 0, HD 0x17 1 0x20 0, HD 0x28 1 0x20 1,
      HD 0x02 1 0x25 0, HD 0x09 1 0x25 0, HD 0x17 1 0x25 0, HD 0x28 1 0x25 1,
      HD 0x02 1 0x2d 0, HD 0x09 1 0x2d 0, HD 0x17 1 0x2d 0, HD 0x28 1 0x2d 1,
      HD 0x02 1 0x2e 0, HD 0x09 1 0x2e 0, HD 0x17 1 0x2e 0, HD 0x28 1 0x2e 1],
     [HD 0x03 1 0x20 0, HD 0x06 1 0x20 0, HD 0x0a 1 0x20 0, HD 0x0f 1 0x20 0,
      HD 0x18 1 0x20 0, HD 0x1f 1 0x20 0, HD 0x29 1 0x20 0, HD 0x38 1 0x20 1,
      HD 0x03 1 0x25 0, HD 0x06 1 0x25 0, HD 0x0a 1 0x25 0, HD 0x0f 1 0x25 0,
      HD 0x18 1 0x25 0, HD 0x1f 1 0x25 0, HD 0x29 1 0x25 0, HD 0x38 1 0x25 1]]"

definition huff_rows_1 :: "huff_decode_code list list" where
  "huff_rows_1 = [
     [HD 0x03 1 0x2d 0, HD 0x06 1 0x2d 0, HD 0x0a 1 0x2d 0, HD 0x0f 1 0x2d 0,
      HD 0x18 1 0x2d 0, HD 0x1f 1 0x2d 0, HD 0x29 1 0x2d 0, HD 0x38 1 0x2d 1,
      HD 0x03 1 0x2e 0, HD 0x06 1 0x2e 0, HD 0x0a 1 0x2e 0, HD 0x0f 1 0x2e 0,
      HD 0x18 1 0x2e 0, HD 0x1f 1 0x2e 0, HD 0x29 1 0x2e 0, HD 0x38 1 0x2e 1],
     [HD 0x01 1 0x2f 0, HD 0x16 1 0x2f 1, HD 0x01 1 0x33 0, HD 0x16 1 0x33 1,
      HD 0x01 1 0x34 0, HD 0x16 1 0x34 1, HD 0x01 1 0x35 0, HD 0x16 1 0x35 1,
      HD 0x01 1 0x36 0, HD 0x16 1 0x36 1, HD 0x01 1 0x37 0, HD 0x16 1 0x37 1,
      HD 0x01 1 0x38 0, HD 0x16 1 0x38 1, HD 0x01 1 0x39 0, HD 0x16 1 0x39 1],
     [HD 0x02 1 0x2f 0, HD 0x09 1 0x2f 0, HD 0x17 1 0x2f 0, HD 0x28 1 0x2f 1,
      HD 0x02 1 0x33 0, HD 0x09 1 0x33 0, HD 0x17 1 0x33 0, HD 0x28 1 0x33 1,
      HD 0x02 1 0x34 0, HD 0x09 1 0x34 0, HD 0x17 1 0x34 0, HD 0x28 1 0x34 1,
      HD 0x02 1 0x35 0, HD 0x09 1 0x35 0, HD 0x17 1 0x35 0, HD 0x28 1 0x35 1],
     [HD 0x03 1 0x2f 0, HD 0x06 1 0x2f 0, HD 0x0a 1 0x2f 0, HD 0x0f 1 0x2f 0,
      HD 0x18 1 0x2f 0, HD 0x1f 1 0x2f 0, HD 0x29 1 0x2f 0, HD 0x38 1 0x2f 1,
      HD 0x03 1 0x33 0, HD 0x06 1 0x33 0, HD 0x0a 1 0x33 0, HD 0x0f 1 0x33 0,
      HD 0x18 1 0x33 0, HD 0x1f 1 0x33 0, HD 0x29 1 0x33 0, HD 0x38 1 0x33 1],
     [HD 0x03 1 0x34 0, HD 0x06 1 0x34 0, HD 0x0a 1 0x34 0, HD 0x0f 1 0x34 0,
      HD 0x18 1 0x34 0, HD 0x1f 1 0x34 0, HD 0x29 1 0x34 0, HD 0x38 1 0x34 1,
      HD 0x03 1 0x35 0, HD 0x06 1 0x35 0, HD 0x0a 1 0x35 0, HD 0x0f 1 0x35 0,
      HD 0x18 1 0x35 0, HD 0x1f 1 0x35 0, HD 0x29 1 0x35 0, HD 0x38 1 0x35 1],
     [HD 0x02 1 0x36 0, HD 0x09 1 0x36 0, HD 0x17 1 0x36 0, HD 0x28 1 0x36 1,
      HD 0x02 1 0x37 0, HD 0x09 1 0x37 0, HD 0x17 1 0x37 0, HD 0x28 1 0x37 1,
      HD 0x02 1 0x38 0, HD 0x09 1 0x38 0, HD 0x17 1 0x38 0, HD 0x28 1 0x38 1,
      HD 0x02 1 0x39 0, HD 0x09 1 0x39 0, HD 0x17 1 0x39 0, HD 0x28 1 0x39 1],
     [HD 0x03 1 0x36 0, HD 0x06 1 0x36 0, HD 0x0a 1 0x36 0, HD 0x0f 1 0x36 0,
      HD 0x18 1 0x36 0, HD 0x1f 1 0x36 0, HD 0x29 1 0x36 0, HD 0x38 1 0x36 1,
      HD 0x03 1 0x37 0, HD 0x06 1 0x37 0, HD 0x0a 1 0x37 0, HD 0x0f 1 0x37 0,
      HD 0x18 1 0x37 0, HD 0x1f 1 0x37 0, HD 0x29 1 0x37 0, HD 0x38 1 0x37 1],
     [HD 0x03 1 0x38 0, HD 0x06 1 0x38 0, HD 0x0a 1 0x38 0, HD 0x0f 1 0x38 0,
      HD 0x18 1 0x38 0, HD 0x1f 1 0x38 0, HD 0x29 1 0x38 0, HD 0x38 1 0x38 1,
      HD 0x03 1 0x39 0, HD 0x06 1 0x39 0, HD 0x0a 1 0x39 0, HD 0x0f 1 0x39 0,
      HD 0x18 1 0x39 0, HD 0x1f 1 0x39 0, HD 0x29 1 0x39 0, HD 0x38 1 0x39 1],
     [HD 0x1a 0 0x00 0, HD 0x1b 0 0x00 0, HD 0x1d 0 0x00 0, HD 0x1e 0 0x00 0,
      HD 0x21 0 0x00 0, HD 0x22 0 0x00 0, HD 0x24 0 0x00 0, HD 0x25 0 0x00 0,
      HD 0x2b 0 0x00 0, HD 0x2e 0 0x00 0, HD 0x32 0 0x00 0, HD 0x35 0 0x00 0,
      HD 0x3a 0 0x00 0, HD 0x3d 0 0x00 0, HD 0x41 0 0x00 0, HD 0x44 0 0x00 1],
     [HD 0x00 1 0x3d 1, HD 0x00 1 0x41 1, HD 0x00 1 0x5f 1, HD 0x00 1 0x62 1,
      HD 0x00 1 0x64 1, HD 0x00 1 0x66 1, HD 0x00 1 0x67 1, HD 0x00 1 0x68 1,
      HD 0x00 1 0x6c 1, HD 0x00 1 0x6d 1, HD 0x00 1 0x6e 1, HD 0x00 1 0x70 1,
      HD 0x00 1 0x72 1, HD 0x00 1 0x75 1, HD 0x26 0 0x00 0, HD 0x27 0 0x00 0],
     [HD 0x01 1 0x3d 0, HD 0x16 1 0x3d 1, HD 0x01 1 0x41 0, HD 0x16 1 0x41 1,
      HD 0x01 1 0x5f 0, HD 0x16 1 0x5f 1, HD 0x01 1 0x62 0, HD 0x16 1 0x62 1,
      HD 0x01 1 0x64 0, HD 0x16 1 0x64 1, HD 0x01 1 0x66 0, HD 0x16 1 0x66 1,
      HD 0x01 1 0x67 0, HD 0x16 1 0x67 1, HD 0x01 1 0x68 0, HD 0x16 1 0x68 1],
     [HD 0x02 1 0x3d 0, HD 0x09 1 0x3d 0, HD 0x17 1 0x3d 0, HD 0x28 1 0x3d 1,
      HD 0x02 1 0x41 0, HD 0x09 1 0x41 0, HD 0x17 1 0x41 0, HD 0x28 1 0x41 1,
      HD 0x02 1 0x5f 0, HD 0x09 1 0x5f 0, HD 0x17 1 0x5f 0, HD 0x28 1 0x5f 1,
      HD 0x02 1 0x62 0, HD 0x09 1 0x62 0, HD 0x17 1 0x62 0, HD 0x28 1 0x62 1],
     [HD 0x03 1 0x3d 0, HD 0x06 1 0x3d 0, HD 0x0a 1 0x3d 0, HD 0x0f 1 0x3d 0,
      HD 0x18 1 0x3d 0, HD 0x1f 1 0x3d 0, HD 0x29 1 0x3d 0, HD 0x38 1 0x3d 1,
      HD 0x03 1 0x41 0, HD 0x06 1 0x41 0, HD 0x0a 1 0x41 0, HD 0x0f 1 0x41 0,
      HD 0x18 1 0x41 0, HD 0x1f 1 0x41 0, HD 0x29 1 0x41 0, HD 0x38 1 0x41 1],
     [HD 0x03 1 0x5f 0, HD 0x06 1 0x5f 0, HD 0x0a 1 0x5f 0, HD 0x0f 1 0x5f 0,
      HD 0x18 1 0x5f 0, HD 0x1f 1 0x5f 0, HD 0x29 1 0x5f 0, HD 0x38 1 0x5f 1,
      HD 0x03 1 0x62 0, HD 0x06 1 0x62 0, HD 0x0a 1 0x62 0, HD 0x0f 1 0x62 0,
      HD 0x18 1 0x62 0, HD 0x1f 1 0x62 0, HD 0x29 1 0x62 0, HD 0x38 1 0x62 1]]"

definition huff_rows_2 :: "huff_decode_code list list" where
  "huff_rows_2 = [
     [HD 0x02 1 0x64 0, HD 0x09 1 0x64 0, HD 0x17 1 0x64 0, HD 0x28 1 0x64 1,
      HD 0x02 1 0x66 0, HD 0x09 1 0x66 0, HD 0x17 1 0x66 0, HD 0x28 1 0x66 1,
      HD 0x02 1 0x67 0, HD 0x09 1 0x67 0, HD 0x17 1 0x67 0, HD 0x28 1 0x67 1,
      HD 0x02 1 0x68 0, HD 0x09 1 0x68 0, HD 0x17 1 0x68 0, HD 0x28 1 0x68 1],
     [HD 0x03 1 0x64 0, HD 0x06 1 0x64 0, HD 0x0a 1 0x64 0, HD 0x0f 1 0x64 0,
      HD 0x18 1 0x64 0, HD 0x1f 1 0x64 0, HD 0x29 1 0x64 0, HD 0x38 1 0x64 1,
      HD 0x03 1 0x66 0, HD 0x06 1 0x66 0, HD 0x0a 1 0x66 0, HD 0x0f 1 0x66 0,
      HD 0x18 1 0x66 0, HD 0x1f 1 0x66 0, HD 0x29 1 0x66 0, HD 0x38 1 0x66 1],
     [HD 0x03 1 0x67 0, HD 0x06 1 0x67 0, HD 0x0a 1 0x67 0, HD 0x0f 1 0x67 0,
      HD 0x18 1 0x67 0, HD 0x1f 1 0x67 0, HD 0x29 1 0x67 0, HD 0x38 1 0x67 1,
      HD 0x03 1 0x68 0, HD 0x06 1 0x68 0, HD 0x0a 1 0x68 0, HD 0x0f 1 0x68 0,
      HD 0x18 1 0x68 0, HD 0x1f 1 0x68 0, HD 0x29 1 0x68 0, HD 0x38 1 0x68 1],
     [HD 0x01 1 0x6c 0, HD 0x16 1 0x6c 1, HD 0x01 1 0x6d 0, HD 0x16 1 0x6d 1,
      HD 0x01 1 0x6e 0, HD 0x16 1 0x6e 1, HD 0x01 1 0x70 0, HD 0x16 1 0x70 1,
      HD 0x01 1 0x72 0, HD 0x16 1 0x72 1, HD 0x01 1 0x75 0, HD 0x16 1 0x75 1,
      HD 0x00 1 0x3a 1, HD 0x00 1 0x42 1, HD 0x00 1 0x43 1, HD 0x00 1 0x44 1],
     [HD 0x02 1 0x6c 0, HD 0x09 1 0x6c 0, HD 0x17 1 0x6c 0, HD 0x28 1 0x6c 1,
      HD 0x02 1 0x6d 0, HD 0x09 1 0x6d 0, HD 0x17 1 0x6d 0, HD 0x28 1 0x6d 1,
      HD 0x02 1 0x6e 0, HD 0x09 1 0x6e 0, HD 0x17 1 0x6e 0, HD 0x28 1 0x6e 1,
      HD 0x02 1 0x70 0, HD 0x09 1 0x70 0, HD 0x17 1 0x70 0, HD 0x28 1 0x70 1],
     [HD 0x03 1 0x6c 0, HD 0x06 1 0x6c 0, HD 0x0a 1 0x6c 0, HD 0x0f 1 0x6c 0,
      HD 0x18 1 0x6c 0, HD 0x1f 1 0x6c 0, HD 0x29 1 0x6c 0, HD 0x38 1 0x6c 1,
      HD 0x03 1 0x6d 0, HD 0x06 1 0x6d 0, HD 0x0a 1 0x6d 0, HD 0x0f 1 0x6d 0,
      HD 0x18 1 0x6d 0, HD 0x1f 1 0x6d 0, HD 0x29 1 0x6d 0, HD 0x38 1 0x6d 1],
     [HD 0x03 1 0x6e 0, HD 0x06 1 0x6e 0, HD 0x0a 1 0x6e 0, HD 0x0f 1 0x6e 0,
      HD 0x18 1 0x6e 0, HD 0x1f 1 0x6e 0, HD 0x29 1 0x6e 0, HD 0x38 1 0x6e 1,
      HD 0x03 1 0x70 0, HD 0x06 1 0x70 0, HD 0x0a 1 0x70 0, HD 0x0f 1 0x70 0,
      HD 0x18 1 0x70 0, HD 0x1f 1 0x70 0, HD 0x29 1 0x70 0, HD 0x38 1 0x70 1],
     [HD 0x02 1 0x72 0, HD 0x09 1 0x72 0, HD 0x17 1 0x72 0, HD 0x28 1 0x72 1,
      HD 0x02 1 0x75 0, HD 0x09 1 0x75 0, HD 0x17 1 0x75 0, HD 0x28 1 0x75 1,
      HD 0x01 1 0x3a 0, HD 0x16 1 0x3a 1, HD 0x01 1 0x42 0, HD 0x16 1 0x42 1,
      HD 0x01 1 0x43 0, HD 0x16 1 0x43 1, HD 0x01 1 0x44 0, HD 0x16 1 0x44 1],
     [HD 0x03 1 0x72 0, HD 0x06 1 0x72 0, HD 0x0a 1 0x72 0, HD 0x0f 1 0x72 0,
      HD 0x18 1 0x72 0, HD 0x1f 1 0x72 0, HD 0x29 1 0x72 0, HD 0x38 1 0x72 1,
      HD 0x03 1 0x75 0, HD 0x06 1 0x75 0, HD 0x0a 1 0x75 0, HD 0x0f 1 0x75 0,
      HD 0x18 1 0x75 0, HD 0x1f 1 0x75 0, HD 0x29 1 0x75 0, HD 0x38 1 0x75 1],
     [HD 0x02 1 0x3a 0, HD 0x09 1 0x3a 0, HD 0x17 1 0x3a 0, HD 0x28 1 0x3a 1,
      HD 0x02 1 0x42 0, HD 0x09 1 0x42 0, HD 0x17 1 0x42 0, HD 0x28 1 0x42 1,
      HD 0x02 1 0x43 0, HD 0x09 1 0x43 0, HD 0x17 1 0x43 0, HD 0x28 1 0x43 1,
      HD 0x02 1 0x44 0, HD 0x09 1 0x44 0, HD 0x17 1 0x44 0, HD 0x28 1 0x44 1],
     [HD 0x03 1 0x3a 0, HD 0x06 1 0x3a 0, HD 0x0a 1 0x3a 0, HD 0x0f 1 0x3a 0,
      HD 0x18 1 0x3a 0, HD 0x1f 1 0x3a 0, HD 0x29 1 0x3a 0, HD 0x38 1 0x3a 1,
      HD 0x03 1 0x42 0, HD 0x06 1 0x42 0, HD 0x0a 1 0x42 0, HD 0x0f 1 0x42 0,
      HD 0x18 1 0x42 0, HD 0x1f 1 0x42 0, HD 0x29 1 0x42 0, HD 0x38 1 0x42 1],
     [HD 0x03 1 0x43 0, HD 0x06 1 0x43 0, HD 0x0a 1 0x43 0, HD 0x0f 1 0x43 0,
      HD 0x18 1 0x43 0, HD 0x1f 1 0x43 0, HD 0x29 1 0x43 0, HD 0x38 1 0x43 1,
      HD 0x03 1 0x44 0, HD 0x06 1 0x44 0, HD 0x0a 1 0x44 0, HD 0x0f 1 0x44 0,
      HD 0x18 1 0x44 0, HD 0x1f 1 0x44 0, HD 0x29 1 0x44 0, HD 0x38 1 0x44 1],
     [HD 0x2c 0 0x00 0, HD 0x2d 0 0x00 0, HD 0x2f 0 0x00 0, HD 0x30 0 0x00 0,
      HD 0x33 0 0x00 0, HD 0x34 0 0x00 0, HD 0x36 0 0x00 0, HD 0x37 0 0x00 0,
      HD 0x3b 0 0x00 0, HD 0x3c 0 0x00 0, HD 0x3e 0 0x00 0, HD 0x3f 0 0x00 0,
      HD 0x42 0 0x00 0, HD 0x43 0 0x00 0, HD 0x45 0 0x00 0, HD 0x48 0 0x00 1],
     [HD 0x00 1 0x45 1, HD 0x00 1 0x46 1, HD 0x00 1 0x47 1, HD 0x00 1 0x48 1,
      HD 0x00 1 0x49 1, HD 0x00 1 0x4a 1, HD 0x00 1 0x4b 1, HD 0x00 1 0x4c 1,
      HD 0x00 1 0x4d 1, HD 0x00 1 0x4e 1, HD 0x00 1 0x4f 1, HD 0x00 1 0x50 1,
      HD 0x00 1 0x51 1, HD 0x00 1 0x52 1, HD 0x00 1 0x53 1, HD 0x00 1 0x54 1]]"

definition huff_rows_3 :: "huff_decode_code list list" where
  "huff_rows_3 = [
     [HD 0x01 1 0x45 0, HD 0x16 1 0x45 1, HD 0x01 1 0x46 0, HD 0x16 1 0x46 1,
      HD 0x01 1 0x47 0, HD 0x16 1 0x47 1, HD 0x01 1 0x48 0, HD 0x16 1 0x48 1,
      HD 0x01 1 0x49 0, HD 0x16 1 0x49 1, HD 0x01 1 0x4a 0, HD 0x16 1 0x4a 1,
      HD 0x01 1 0x4b 0, HD 0x16 1 0x4b 1, HD 0x01 1 0x4c 0, HD 0x16 1 0x4c 1],
     [HD 0x02 1 0x45 0, HD 0x09 1 0x45 0, HD 0x17 1 0x45 0, HD 0x28 1 0x45 1,
      HD 0x02 1 0x46 0, HD 0x09 1 0x46 0, HD 0x17 1 0x46 0, HD 0x28 1 0x46 1,
      HD 0x02 1 0x47 0, HD 0x09 1 0x47 0, HD 0x17 1 0x47 0, HD 0x28 1 0x47 1,
      HD 0x02 1 0x48 0, HD 0x09 1 0x48 0, HD 0x17 1 0x48 0, HD 0x28 1 0x48 1],
     [HD 0x03 1 0x45 0, HD 0x06 1 0x45 0, HD 0x0a 1 0x45 0, HD 0x0f 1 0x45 0,
      HD 0x18 1 0x45 0, HD 0x1f 1 0x45 0, HD 0x29 1 0x45 0, HD 0x38 1 0x45 1,
      HD 0x03 1 0x46 0, HD 0x06 1 0x46 0, HD 0x0a 1 0x46 0, HD 0x0f 1 0x46 0,
      HD 0x18 1 0x46 0, HD 0x1f 1 0x46 0, HD 0x29 1 0x46 0, HD 0x38 1 0x46 1],
     [HD 0x03 1 0x47 0, HD 0x06 1 0x47 0, HD 0x0a 1 0x47 0, HD 0x0f 1 0x47 0,
      HD 0x18 1 0x47 0, HD 0x1f 1 0x47 0, HD 0x29 1 0x47 0, HD 0x38 1 0x47 1,
      HD 0x03 1 0x48 0, HD 0x06 1 0x48 0, HD 0x0a 1 0x48 0, HD 0x0f 1 0x48 0,
      HD 0x18 1 0x48 0, HD 0x1f 1 0x48 0, HD 0x29 1 0x48 0, HD 0x38 1 0x48 1],
     [HD 0x02 1 0x49 0, HD 0x09 1 0x49 0, HD 0x17 1 0x49 0, HD 0x28 1 0x49 1,
      HD 0x02 1 0x4a 0, HD 0x09 1 0x4a 0, HD 0x17 1 0x4a 0, HD 0x28 1 0x4a 1,
      HD 0x02 1 0x4b 0, HD 0x09 1 0x4b 0, HD 0x17 1 0x4b 0, HD 0x28 1 0x4b 1,
      HD 0x02 1 0x4c 0, HD 0x09 1 0x4c 0, HD 0x17 1 0x4c 0, HD 0x28 1 0x4c 1],
     [HD 0x03 1 0x49 0, HD 0x06 1 0x49 0, HD 0x0a 1 0x49 0, HD 0x0f 1 0x49 0,
      HD 0x18 1 0x49 0, HD 0x1f 1 0x49 0, HD 0x29 1 0x49 0, HD 0x38 1 0x49 1,
      HD 0x03 1 0x4a 0, HD 0x06 1 0x4a 0, HD 0x0a 1 0x4a 0, HD 0x0f 1 0x4a 0,
      HD 0x18 1 0x4a 0, HD 0x1f 1 0x4a 0, HD 0x29 1 0x4a 0, HD 0x38 1 0x4a 1],
     [HD 0x03 1 0x4b 0, HD 0x06 1 0x4b 0, HD 0x0a 1 0x4b 0, HD 0x0f 1 0x4b 0,
      HD 0x18 1 0x4b 0, HD 0x1f 1 0x4b 0, HD 0x29 1 0x4b 0, HD 0x38 1 0x4b 1,
      HD 0x03 1 0x4c 0, HD 0x06 1 0x4c 0, HD 0x0a 1 0x4c 0, HD 0x0f 1 0x4c 0,
      HD 0x18 1 0x4c 0, HD 0x1f 1 0x4c 0, HD 0x29 1 0x4c 0, HD 0x38 1 0x4c 1],
     [HD 0x01 1 0x4d 0, HD 0x16 1 0x4d 1, HD 0x01 1 0x4e 0, HD 0x16 1 0x4e 1,
      HD 0x01 1 0x4f 0, HD 0x16 1 0x4f 1, HD 0x01 1 0x50 0, HD 0x16 1 0x50 1,
      HD 0x01 1 0x51 0, HD 0x16 1 0x51 1, HD 0x01 1 0x52 0, HD 0x16 1 0x52 1,
      HD 0x01 1 0x53 0, HD 0x16 1 0x53 1, HD 0x01 1 0x54 0, HD 0x16 1 0x54 1],
     [HD 0x02 1 0x4d 0, HD 0x09 1 0x4d 0, HD 0x17 1 0x4d 0, HD 0x28 1 0x4d 1,
      HD 0x02 1 0x4e 0, HD 0x09 1 0x4e 0, HD 0x17 1 0x4e 0, HD 0x28 1 0x4e 1,
      HD 0x02 1 0x4f 0, HD 0x09 1 0x4f 0, HD 0x17 1 0x4f 0, HD 0x28 1 0x4f 1,
      HD 0x02 1 0x50 0, HD 0x09 1 0x50 0, HD 0x17 1 0x50 0, HD 0x28 1 0x50 1],
     [HD 0x03 1 0x4d 0, HD 0x06 1 0x4d 0, HD 0x0a 1 0x4d 0, HD 0x0f 1 0x4d 0,
      HD 0x18 1 0x4d 0, HD 0x1f 1 0x4d 0, HD 0x29 1 0x4d 0, HD 0x38 1 0x4d 1,
      HD 0x03 1 0x4e 0, HD 0x06 1 0x4e 0, HD 0x0a 1 0x4e 0, HD 0x0f 1 0x4e 0,
      HD 0x18 1 0x4e 0, HD 0x1f 1 0x4e 0, HD 0x29 1 0x4e 0, HD 0x38 1 0x4e 1],
     [HD 0x03 1 0x4f 0, HD 0x06 1 0x4f 0, HD 0x0a 1 0x4f 0, HD 0x0f 1 0x4f 0,
      HD 0x18 1 0x4f 0, HD 0x1f 1 0x4f 0, HD 0x29 1 0x4f 0, HD 0x38 1 0x4f 1,
      HD 0x03 1 0x50 0, HD 0x06 1 0x50 0, HD 0x0a 1 0x50 0, HD 0x0f 1 0x50 0,
      HD 0x18 1 0x50 0, HD 0x1f 1 0x50 0, HD 0x29 1 0x50 0, HD 0x38 1 0x50 1],
     [HD 0x02 1 0x51 0, HD 0x09 1 0x51 0, HD 0x17 1 0x51 0, HD 0x28 1 0x51 1,
      HD 0x02 1 0x52 0, HD 0x09 1 0x52 0, HD 0x17 1 0x52 0, HD 0x28 1 0x52 1,
      HD 0x02 1 0x53 0, HD 0x09 1 0x53 0, HD 0x17 1 0x53 0, HD 0x28 1 0x53 1,
      HD 0x02 1 0x54 0, HD 0x09 1 0x54 0, HD 0x17 1 0x54 0, HD 0x28 1 0x54 1],
     [HD 0x03 1 0x51 0, HD 0x06 1 0x51 0, HD 0x0a 1 0x51 0, HD 0x0f 1 0x51 0,
      HD 0x18 1 0x51 0, HD 0x1f 1 0x51 0, HD 0x29 1 0x51 0, HD 0x38 1 0x51 1,
      HD 0x03 1 0x52 0, HD 0x06 1 0x52 0, HD 0x0a 1 0x52 0, HD 0x0f 1 0x52 0,
      HD 0x18 1 0x52 0, HD 0x1f 1 0x52 0, HD 0x29 1 0x52 0, HD 0x38 1 0x52 1],
     [HD 0x03 1 0x53 0, HD 0x06 1 0x53 0, HD 0x0a 1 0x53 0, HD 0x0f 1 0x53 0,
      HD 0x18 1 0x53 0, HD 0x1f 1 0x53 0, HD 0x29 1 0x53 0, HD 0x38 1 0x53 1,
      HD 0x03 1 0x54 0, HD 0x06 1 0x54 0, HD 0x0a 1 0x54 0, HD 0x0f 1 0x54 0,
      HD 0x18 1 0x54 0, HD 0x1f 1 0x54 0, HD 0x29 1 0x54 0, HD 0x38 1 0x54 1]]"

definition huff_rows_4 :: "huff_decode_code list list" where
  "huff_rows_4 = [
     [HD 0x00 1 0x55 1, HD 0x00 1 0x56 1, HD 0x00 1 0x57 1, HD 0x00 1 0x59 1,
      HD 0x00 1 0x6a 1, HD 0x00 1 0x6b 1, HD 0x00 1 0x71 1, HD 0x00 1 0x76 1,
      HD 0x00 1 0x77 1, HD 0x00 1 0x78 1, HD 0x00 1 0x79 1, HD 0x00 1 0x7a 1,
      HD 0x46 0 0x00 0, HD 0x47 0 0x00 0, HD 0x49 0 0x00 0, HD 0x4a 0 0x00 1],
     [HD 0x01 1 0x55 0, HD 0x16 1 0x55 1, HD 0x01 1 0x56 0, HD 0x16 1 0x56 1,
      HD 0x01 1 0x57 0, HD 0x16 1 0x57 1, HD 0x01 1 0x59 0, HD 0x16 1 0x59 1,
      HD 0x01 1 0x6a 0, HD 0x16 1 0x6a 1, HD 0x01 1 0x6b 0, HD 0x16 1 0x6b 1,
      HD 0x01 1 0x71 0, HD 0x16 1 0x71 1, HD 0x01 1 0x76 0, HD 0x16 1 0x76 1],
     [HD 0x02 1 0x55 0, HD 0x09 1 0x55 0, HD 0x17 1 0x55 0, HD 0x28 1 0x55 1,
      HD 0x02 1 0x56 0, HD 0x09 1 0x56 0, HD 0x17 1 0x56 0, HD 0x28 1 0x56 1,
      HD 0x02 1 0x57 0, HD 0x09 1 0x57 0, HD 0x17 1 0x57 0, HD 0x28 1 0x57 1,
      HD 0x02 1 0x59 0, HD 0x09 1 0x59 0, HD 0x17 1 0x59 0, HD 0x28 1 0x59 1],
     [HD 0x03 1 0x55 0, HD 0x06 1 0x55 0, HD 0x0a 1 0x55 0, HD 0x0f 1 0x55 0,
      HD 0x18 1 0x55 0, HD 0x1f 1 0x55 0, HD 0x29 1 0x55 0, HD 0x38 1 0x55 1,
      HD 0x03 1 0x56 0, HD 0x06 1 0x56 0, HD 0x0a 1 0x56 0, HD 0x0f 1 0x56 0,
      HD 0x18 1 0x56 0, HD 0x1f 1 0x56 0, HD 0x29 1 0x56 0, HD 0x38 1 0x56 1],
     [HD 0x03 1 0x57 0, HD 0x06 1 0x57 0, HD 0x0a 1 0x57 0, HD 0x0f 1 0x57 0,
      HD 0x18 1 0x57 0, HD 0x1f 1 0x57 0, HD 0x29 1 0x57 0, HD 0x38 1 0x57 1,
      HD 0x03 1 0x59 0, HD 0x06 1 0x59 0, HD 0x0a 1 0x59 0, HD 0x0f 1 0x59 0,
      HD 0x18 1 0x59 0, HD 0x1f 1 0x59 0, HD 0x29 1 0x59 0, HD 0x38 1 0x59 1],
     [HD 0x02 1 0x6a 0, HD 0x09 1 0x6a 0, HD 0x17 1 0x6a 0, HD 0x28 1 0x6a 1,
      HD 0x02 1 0x6b 0, HD 0x09 1 0x6b 0, HD 0x17 1 0x6b 0, HD 0x28 1 0x6b 1,
      HD 0x02 1 0x71 0, HD 0x09 1 0x71 0, HD 0x17 1 0x71 0, HD 0x28 1 0x71 1,
      HD 0x02 1 0x76 0, HD 0x09 1 0x76 0, HD 0x17 1 0x76 0, HD 0x28 1 0x76 1],
     [HD 0x03 1 0x6a 0, HD 0x06 1 0x6a 0, HD 0x0a 1 0x6a 0, HD 0x0f 1 0x6a 0,
      HD 0x18 1 0x6a 0, HD 0x1f 1 0x6a 0, HD 0x29 1 0x6a 0, HD 0x38 1 0x6a 1,
      HD 0x03 1 0x6b 0, HD 0x06 1 0x6b 0, HD 0x0a 1 0x6b 0, HD 0x0f 1 0x6b 0,
      HD 0x18 1 0x6b 0, HD 0x1f 1 0x6b 0, HD 0x29 1 0x6b 0, HD 0x38 1 0x6b 1],
     [HD 0x03 1 0x71 0, HD 0x06 1 0x71 0, HD 0x0a 1 0x71 0, HD 0x0f 1 0x71 0,
      HD 0x18 1 0x71 0, HD 0x1f 1 0x71 0, HD 0x29 1 0x71 0, HD 0x38 1 0x71 1,
      HD 0x03 1 0x76 0, HD 0x06 1 0x76 0, HD 0x0a 1 0x76 0, HD 0x0f 1 0x76 0,
      HD 0x18 1 0x76 0, HD 0x1f 1 0x76 0, HD 0x29 1 0x76 0, HD 0x38 1 0x76 1],
     [HD 0x01 1 0x77 0, HD 0x16 1 0x77 1, HD 0x01 1 0x78 0, HD 0x16 1 0x78 1,
      HD 0x01 1 0x79 0, HD 0x16 1 0x79 1, HD 0x01 1 0x7a 0, HD 0x16 1 0x7a 1,
      HD 0x00 1 0x26 1, HD 0x00 1 0x2a 1, HD 0x00 1 0x2c 1, HD 0x00 1 0x3b 1,
      HD 0x00 1 0x58 1, HD 0x00 1 0x5a 1, HD 0x4b 0 0x00 0, HD 0x4e 0 0x00 1],
     [HD 0x02 1 0x77 0, HD 0x09 1 0x77 0, HD 0x17 1 0x77 0, HD 0x28 1 0x77 1,
      HD 0x02 1 0x78 0, HD 0x09 1 0x78 0, HD 0x17 1 0x78 0, HD 0x28 1 0x78 1,
      HD 0x02 1 0x79 0, HD 0x09 1 0x79 0, HD 0x17 1 0x79 0, HD 0x28 1 0x79 1,
      HD 0x02 1 0x7a 0, HD 0x09 1 0x7a 0, HD 0x17 1 0x7a 0, HD 0x28 1 0x7a 1],
     [HD 0x03 1 0x77 0, HD 0x06 1 0x77 0, HD 0x0a 1 0x77 0, HD 0x0f 1 0x77 0,
      HD 0x18 1 0x77 0, HD 0x1f 1 0x77 0, HD 0x29 1 0x77 0, HD 0x38 1 0x77 1,
      HD 0x03 1 0x78 0, HD 0x06 1 0x78 0, HD 0x0a 1 0x78 0, HD 0x0f 1 0x78 0,
      HD 0x18 1 0x78 0, HD 0x1f 1 0x78 0, HD 0x29 1 0x78 0, HD 0x38 1 0x78 1],
     [HD 0x03 1 0x79 0, HD 0x06 1 0x79 0, HD 0x0a 1 0x79 0, HD 0x0f 1 0x79 0,
      HD 0x18 1 0x79 0, HD 0x1f 1 0x79 0, HD 0x29 1 0x79 0, HD 0x38 1 0x79 1,
      HD 0x03 1 0x7a 0, HD 0x06 1 0x7a 0, HD 0x0a 1 0x7a 0, HD 0x0f 1 0x7a 0,
      HD 0x18 1 0x7a 0, HD 0x1f 1 0x7a 0, HD 0x29 1 0x7a 0, HD 0x38 1 0x7a 1],
     [HD 0x01 1 0x26 0, HD 0x16 1 0x26 1, HD 0x01 1 0x2a 0, HD 0x16 1 0x2a 1,
      HD 0x01 1 0x2c 0, HD 0x16 1 0x2c 1, HD 0x01 1 0x3b 0, HD 0x16 1 0x3b 1,
      HD 0x01 1 0x58 0, HD 0x16 1 0x58 1, HD 0x01 1 0x5a 0, HD 0x16 1 0x5a 1,
      HD 0x4c 0 0x00 0, HD 0x4d 0 0x00 0, HD 0x4f 0 0x00 0, HD 0x51 0 0x00 1],
     [HD 0x02 1 0x26 0, HD 0x09 1 0x26 0, HD 0x17 1 0x26 0, HD 0x28 1 0x26 1,
      HD 0x02 1 0x2a 0, HD 0x09 1 0x2a 0, HD 0x17 1 0x2a 0, HD 0x28 1 0x2a 1,
      HD 0x02 1 0x2c 0, HD 0x09 1 0x2c 0, HD 0x17 1 0x2c 0, HD 0x28 1 0x2c 1,
      HD 0x02 1 0x3b 0, HD 0x09 1 0x3b 0, HD 0x17 1 0x3b 0, HD 0x28 1 0x3b 1]]"

definition huff_rows_5 :: "huff_decode_code list list" where
  "huff_rows_5 = [
     [HD 0x03 1 0x26 0, HD 0x06 1 0x26 0, HD 0x0a 1 0x26 0, HD 0x0f 1 0x26 0,
      HD 0x18 1 0x26 0, HD 0x1f 1 0x26 0, HD 0x29 1 0x26 0, HD 0x38 1 0x26 1,
      HD 0x03 1 0x2a 0, HD 0x06 1 0x2a 0, HD 0x0a 1 0x2a 0, HD 0x0f 1 0x2a 0,
      HD 0x18 1 0x2a 0, HD 0x1f 1 0x2a 0, HD 0x29 1 0x2a 0, HD 0x38 1 0x2a 1],
     [HD 0x03 1 0x2c 0, HD 0x06 1 0x2c 0, HD 0x0a 1 0x2c 0, HD 0x0f 1 0x2c 0,
      HD 0x18 1 0x2c 0, HD 0x1f 1 0x2c 0, HD 0x29 1 0x2c 0, HD 0x38 1 0x2c 1,
      HD 0x03 1 0x3b 0, HD 0x06 1 0x3b 0, HD 0x0a 1 0x3b 0, HD 0x0f 1 0x3b 0,
      HD 0x18 1 0x3b 0, HD 0x1f 1 0x3b 0, HD 0x29 1 0x3b 0, HD 0x38 1 0x3b 1],
     [HD 0x02 1 0x58 0, HD 0x09 1 0x58 0, HD 0x17 1 0x58 0, HD 0x28 1 0x58 1,
      HD 0x02 1 0x5a 0, HD 0x09 1 0x5a 0, HD 0x17 1 0x5a 0, HD 0x28 1 0x5a 1,
      HD 0x00 1 0x21 1, HD 0x00 1 0x22 1, HD 0x00 1 0x28 1, HD 0x00 1 0x29 1,
      HD 0x00 1 0x3f 1, HD 0x50 0 0x00 0, HD 0x52 0 0x00 0, HD 0x54 0 0x00 1],
     [HD 0x03 1 0x58 0, HD 0x06 1 0x58 0, HD 0x0a 1 0x58 0, HD 0x0f 1 0x58 0,
      HD 0x18 1 0x58 0, HD 0x1f 1 0x58 0, HD 0x29 1 0x58 0, HD 0x38 1 0x58 1,
      HD 0x03 1 0x5a 0, HD 0x06 1 0x5a 0, HD 0x0a 1 0x5a 0, HD 0x0f 1 0x5a 0,
      HD 0x18 1 0x5a 0, HD 0x1f 1 0x5a 0, HD 0x29 1 0x5a 0, HD 0x38 1 0x5a 1],
     [HD 0x01 1 0x21 0, HD 0x16 1 0x21 1, HD 0x01 1 0x22 0, HD 0x16 1 0x22 1,
      HD 0x01 1 0x28 0, HD 0x16 1 0x28 1, HD 0x01 1 0x29 0, HD 0x16 1 0x29 1,
      HD 0x01 1 0x3f 0, HD 0x16 1 0x3f 1, HD 0x00 1 0x27 1, HD 0x00 1 0x2b 1,
      HD 0x00 1 0x7c 1, HD 0x53 0 0x00 0, HD 0x55 0 0x00 0, HD 0x58 0 0x00 1],
     [HD 0x02 1 0x21 0, HD 0x09 1 0x21 0, HD 0x17 1 0x21 0, HD 0x28 1 0x21 1,
      HD 0x02 1 0x22 0, HD 0x09 1 0x22 0, HD 0x17 1 0x22 0, HD 0x28 1 0x22 1,
      HD 0x02 1 0x28 0, HD 0x09 1 0x28 0, HD 0x17 1 0x28 0, HD 0x28 1 0x28 1,
      HD 0x02 1 0x29 0, HD 0x09 1 0x29 0, HD 0x17 1 0x29 0, HD 0x28 1 0x29 1],
     [HD 0x03 1 0x21 0, HD 0x06 1 0x21 0, HD 0x0a 1 0x21 0, HD 0x0f 1 0x21 0,
      HD 0x18 1 0x21 0, HD 0x1f 1 0x21 0, HD 0x29 1 0x21 0, HD 0x38 1 0x21 1,
      HD 0x03 1 0x22 0, HD 0x06 1 0x22 0, HD 0x0a 1 0x22 0, HD 0x0f 1 0x22 0,
      HD 0x18 1 0x22 0, HD 0x1f 1 0x22 0, HD 0x29 1 0x22 0, HD 0x38 1 0x22 1],
     [HD 0x03 1 0x28 0, HD 0x06 1 0x28 0, HD 0x0a 1 0x28 0, HD 0x0f 1 0x28 0,
      HD 0x18 1 0x28 0, HD 0x1f 1 0x28 0, HD 0x29 1 0x28 0, HD 0x38 1 0x28 1,
      HD 0x03 1 0x29 0, HD 0x06 1 0x29 0, HD 0x0a 1 0x29 0, HD 0x0f 1 0x29 0,
      HD 0x18 1 0x29 0, HD 0x1f 1 0x29 0, HD 0x29 1 0x29 0, HD 0x38 1 0x29 1],
     [HD 0x02 1 0x3f 0, HD 0x09 1 0x3f 0, HD 0x17 1 0x3f 0, HD 0x28 1 0x3f 1,
      HD 0x01 1 0x27 0, HD 0x16 1 0x27 1, HD 0x01 1 0x2b 0, HD 0x16 1 0x2b 1,
      HD 0x01 1 0x7c 0, HD 0x16 1 0x7c 1, HD 0x00 1 0x23 1, HD 0x00 1 0x3e 1,
      HD 0x56 0 0x00 0, HD 0x57 0 0x00 0, HD 0x59 0 0x00 0, HD 0x5a 0 0x00 1],
     [HD 0x03 1 0x3f 0, HD 0x06 1 0x3f 0, HD 0x0a 1 0x3f 0, HD 0x0f 1 0x3f 0,
      HD 0x18 1 0x3f 0, HD 0x1f 1 0x3f 0, HD 0x29 1 0x3f 0, HD 0x38 1 0x3f 1,
      HD 0x02 1 0x27 0, HD 0x09 1 0x27 0, HD 0x17 1 0x27 0, HD 0x28 1 0x27 1,
      HD 0x02 1 0x2b 0, HD 0x09 1 0x2b 0, HD 0x17 1 0x2b 0, HD 0x28 1 0x2b 1],
     [HD 0x03 1 0x27 0, HD 0x06 1 0x27 0, HD 0x0a 1 0x27 0, HD 0x0f 1 0x27 0,
      HD 0x18 1 0x27 0, HD 0x1f 1 0x27 0, HD 0x29 1 0x27 0, HD 0x38 1 0x27 1,
      HD 0x03 1 0x2b 0, HD 0x06 1 0x2b 0, HD 0x0a 1 0x2b 0, HD 0x0f 1 0x2b 0,
      HD 0x18 1 0x2b 0, HD 0x1f 1 0x2b 0, HD 0x29 1 0x2b 0, HD 0x38 1 0x2b 1],
     [HD 0x02 1 0x7c 0, HD 0x09 1 0x7c 0, HD 0x17 1 0x7c 0, HD 0x28 1 0x7c 1,
      HD 0x01 1 0x23 0, HD 0x16 1 0x23 1, HD 0x01 1 0x3e 0, HD 0x16 1 0x3e 1,
      HD 0x00 1 0x00 1, HD 0x00 1 0x24 1, HD 0x00 1 0x40 1, HD 0x00 1 0x5b 1,
      HD 0x00 1 0x5d 1, HD 0x00 1 0x7e 1, HD 0x5b 0 0x00 0, HD 0x5c 0 0x00 1],
     [HD 0x03 1 0x7c 0, HD 0x06 1 0x7c 0, HD 0x0a 1 0x7c 0, HD 0x0f 1 0x7c 0,
      HD 0x18 1 0x7c 0, HD 0x1f 1 0x7c 0, HD 0x29 1 0x7c 0, HD 0x38 1 0x7c 1,
      HD 0x02 1 0x23 0, HD 0x09 1 0x23 0, HD 0x17 1 0x23 0, HD 0x28 1 0x23 1,
      HD 0x02 1 0x3e 0, HD 0x09 1 0x3e 0, HD 0x17 1 0x3e 0, HD 0x28 1 0x3e 1],
     [HD 0x03 1 0x23 0, HD 0x06 1 0x23 0, HD 0x0a 1 0x23 0, HD 0x0f 1 0x23 0,
      HD 0x18 1 0x23 0, HD 0x1f 1 0x23 0, HD 0x29 1 0x23 0, HD 0x38 1 0x23 1,
      HD 0x03 1 0x3e 0, HD 0x06 1 0x3e 0, HD 0x0a 1 0x3e 0, HD 0x0f 1 0x3e 0,
      HD 0x18 1 0x3e 0, HD 0x1f 1 0x3e 0, HD 0x29 1 0x3e 0, HD 0x38 1 0x3e 1]]"

definition huff_rows_6 :: "huff_decode_code list list" where
  "huff_rows_6 = [
     [HD 0x01 1 0x00 0, HD 0x16 1 0x00 1, HD 0x01 1 0x24 0, HD 0x16 1 0x24 1,
      HD 0x01 1 0x40 0, HD 0x16 1 0x40 1, HD 0x01 1 0x5b 0, HD 0x16 1 0x5b 1,
      HD 0x01 1 0x5d 0, HD 0x16 1 0x5d 1, HD 0x01 1 0x7e 0, HD 0x16 1 0x7e 1,
      HD 0x00 1 0x5e 1, HD 0x00 1 0x7d 1, HD 0x5d 0 0x00 0, HD 0x5e 0 0x00 1],
     [HD 0x02 1 0x00 0, HD 0x09 1 0x00 0, HD 0x17 1 0x00 0, HD 0x28 1 0x00 1,
      HD 0x02 1 0x24 0, HD 0x09 1 0x24 0, HD 0x17 1 0x24 0, HD 0x28 1 0x24 1,
      HD 0x02 1 0x40 0, HD 0x09 1 0x40 0, HD 0x17 1 0x40 0, HD 0x28 1 0x40 1,
      HD 0x02 1 0x5b 0, HD 0x09 1 0x5b 0, HD 0x17 1 0x5b 0, HD 0x28 1 0x5b 1],
     [HD 0x03 1 0x00 0, HD 0x06 1 0x00 0, HD 0x0a 1 0x00 0, HD 0x0f 1 0x00 0,
      HD 0x18 1 0x00 0, HD 0x1f 1 0x00 0, HD 0x29 1 0x00 0, HD 0x38 1 0x00 1,
      HD 0x03 1 0x24 0, HD 0x06 1 0x24 0, HD 0x0a 1 0x24 0, HD 0x0f 1 0x24 0,
      HD 0x18 1 0x24 0, HD 0x1f 1 0x24 0, HD 0x29 1 0x24 0, HD 0x38 1 0x24 1],
     [HD 0x03 1 0x40 0, HD 0x06 1 0x40 0, HD 0x0a 1 0x40 0, HD 0x0f 1 0x40 0,
      HD 0x18 1 0x40 0, HD 0x1f 1 0x40 0, HD 0x29 1 0x40 0, HD 0x38 1 0x40 1,
      HD 0x03 1 0x5b 0, HD 0x06 1 0x5b 0, HD 0x0a 1 0x5b 0, HD 0x0f 1 0x5b 0,
      HD 0x18 1 0x5b 0, HD 0x1f 1 0x5b 0, HD 0x29 1 0x5b 0, HD 0x38 1 0x5b 1],
     [HD 0x02 1 0x5d 0, HD 0x09 1 0x5d 0, HD 0x17 1 0x5d 0, HD 0x28 1 0x5d 1,
      HD 0x02 1 0x7e 0, HD 0x09 1 0x7e 0, HD 0x17 1 0x7e 0, HD 0x28 1 0x7e 1,
      HD 0x01 1 0x5e 0, HD 0x16 1 0x5e 1, HD 0x01 1 0x7d 0, HD 0x16 1 0x7d 1,
      HD 0x00 1 0x3c 1, HD 0x00 1 0x60 1, HD 0x00 1 0x7b 1, HD 0x5f 0 0x00 1],
     [HD 0x03 1 0x5d 0, HD 0x06 1 0x5d 0, HD 0x0a 1 0x5d 0, HD 0x0f 1 0x5d 0,
      HD 0x18 1 0x5d 0, HD 0x1f 1 0x5d 0, HD 0x29 1 0x5d 0, HD 0x38 1 0x5d 1,
      HD 0x03 1 0x7e 0, HD 0x06 1 0x7e 0, HD 0x0a 1 0x7e 0, HD 0x0f 1 0x7e 0,
      HD 0x18 1 0x7e 0, HD 0x1f 1 0x7e 0, HD 0x29 1 0x7e 0, HD 0x38 1 0x7e 1],
     [HD 0x02 1 0x5e 0, HD 0x09 1 0x5e 0, HD 0x17 1 0x5e 0, HD 0x28 1 0x5e 1,
      HD 0x02 1 0x7d 0, HD 0x09 1 0x7d 0, HD 0x17 1 0x7d 0, HD 0x28 1 0x7d 1,
      HD 0x01 1 0x3c 0, HD 0x16 1 0x3c 1, HD 0x01 1 0x60 0, HD 0x16 1 0x60 1,
      HD 0x01 1 0x7b 0, HD 0x16 1 0x7b 1, HD 0x60 0 0x00 0, HD 0x6e 0 0x00 1],
     [HD 0x03 1 0x5e 0, HD 0x06 1 0x5e 0, HD 0x0a 1 0x5e 0, HD 0x0f 1 0x5e 0,
      HD 0x18 1 0x5e 0, HD 0x1f 1 0x5e 0, HD 0x29 1 0x5e 0, HD 0x38 1 0x5e 1,
      HD 0x03 1 0x7d 0, HD 0x06 1 0x7d 0, HD 0x0a 1 0x7d 0, HD 0x0f 1 0x7d 0,
      HD 0x18 1 0x7d 0, HD 0x1f 1 0x7d 0, HD 0x29 1 0x7d 0, HD 0x38 1 0x7d 1],
     [HD 0x02 1 0x3c 0, HD 0x09 1 0x3c 0, HD 0x17 1 0x3c 0, HD 0x28 1 0x3c 1,
      HD 0x02 1 0x60 0, HD 0x09 1 0x60 0, HD 0x17 1 0x60 0, HD 0x28 1 0x60 1,
      HD 0x02 1 0x7b 0, HD 0x09 1 0x7b 0, HD 0x17 1 0x7b 0, HD 0x28 1 0x7b 1,
      HD 0x61 0 0x00 0, HD 0x65 0 0x00 0, HD 0x6f 0 0x00 0, HD 0x85 0 0x00 1],
     [HD 0x03 1 0x3c 0, HD 0x06 1 0x3c 0, HD 0x0a 1 0x3c 0, HD 0x0f 1 0x3c 0,
      HD 0x18 1 0x3c 0, HD 0x1f 1 0x3c 0, HD 0x29 1 0x3c 0, HD 0x38 1 0x3c 1,
      HD 0x03 1 0x60 0, HD 0x06 1 0x60 0, HD 0x0a 1 0x60 0, HD 0x0f 1 0x60 0,
      HD 0x18 1 0x60 0, HD 0x1f 1 0x60 0, HD 0x29 1 0x60 0, HD 0x38 1 0x60 1],
     [HD 0x03 1 0x7b 0, HD 0x06 1 0x7b 0, HD 0x0a 1 0x7b 0, HD 0x0f 1 0x7b 0,
      HD 0x18 1 0x7b 0, HD 0x1f 1 0x7b 0, HD 0x29 1 0x7b 0, HD 0x38 1 0x7b 1,
      HD 0x62 0 0x00 0, HD 0x63 0 0x00 0, HD 0x66 0 0x00 0, HD 0x69 0 0x00 0,
      HD 0x70 0 0x00 0, HD 0x77 0 0x00 0, HD 0x86 0 0x00 0, HD 0x99 0 0x00 1],
     [HD 0x00 1 0x5c 1, HD 0x00 1 0xc3 1, HD 0x00 1 0xd0 1, HD 0x64 0 0x00 0,
      HD 0x67 0 0x00 0, HD 0x68 0 0x00 0, HD 0x6a 0 0x00 0, HD 0x6b 0 0x00 0,
      HD 0x71 0 0x00 0, HD 0x74 0 0x00 0, HD 0x78 0 0x00 0, HD 0x7e 0 0x00 0,
      HD 0x87 0 0x00 0, HD 0x8e 0 0x00 0, HD 0x9a 0 0x00 0, HD 0xa9 0 0x00 1],
     [HD 0x01 1 0x5c 0, HD 0x16 1 0x5c 1, HD 0x01 1 0xc3 0, HD 0x16 1 0xc3 1,
      HD 0x01 1 0xd0 0, HD 0x16 1 0xd0 1, HD 0x00 1 0x80 1, HD 0x00 1 0x82 1,
      HD 0x00 1 0x83 1, HD 0x00 1 0xa2 1, HD 0x00 1 0xb8 1, HD 0x00 1 0xc2 1,
      HD 0x00 1 0xe0 1, HD 0x00 1 0xe2 1, HD 0x6c 0 0x00 0, HD 0x6d 0 0x00 0],
     [HD 0x02 1 0x5c 0, HD 0x09 1 0x5c 0, HD 0x17 1 0x5c 0, HD 0x28 1 0x5c 1,
      HD 0x02 1 0xc3 0, HD 0x09 1 0xc3 0, HD 0x17 1 0xc3 0, HD 0x28 1 0xc3 1,
      HD 0x02 1 0xd0 0, HD 0x09 1 0xd0 0, HD 0x17 1 0xd0 0, HD 0x28 1 0xd0 1,
      HD 0x01 1 0x80 0, HD 0x16 1 0x80 1, HD 0x01 1 0x82 0, HD 0x16 1 0x82 1]]"

definition huff_rows_7 :: "huff_decode_code list list" where
  "huff_rows_7 = [
     [HD 0x03 1 0x5c 0, HD 0x06 1 0x5c 0, HD 0x0a 1 0x5c 0, HD 0x0f 1 0x5c 0,
      HD 0x18 1 0x5c 0, HD 0x1f 1 0x5c 0, HD 0x29 1 0x5c 0, HD 0x38 1 0x5c 1,
      HD 0x03 1 0xc3 0, HD 0x06 1 0xc3 0, HD 0x0a 1 0xc3 0, HD 0x0f 1 0xc3 0,
      HD 0x18 1 0xc3 0, HD 0x1f 1 0xc3 0, HD 0x29 1 0xc3 0, HD 0x38 1 0xc3 1],
     [HD 0x03 1 0xd0 0, HD 0x06 1 0xd0 0, HD 0x0a 1 0xd0 0, HD 0x0f 1 0xd0 0,
      HD 0x18 1 0xd0 0, HD 0x1f 1 0xd0 0, HD 0x29 1 0xd0 0, HD 0x38 1 0xd0 1,
      HD 0x02 1 0x80 0, HD 0x09 1 0x80 0, HD 0x17 1 0x80 0, HD 0x28 1 0x80 1,
      HD 0x02 1 0x82 0, HD 0x09 1 0x82 0, HD 0x17 1 0x82 0, HD 0x28 1 0x82 1],
     [HD 0x03 1 0x80 0, HD 0x06 1 0x80 0, HD 0x0a 1 0x80 0, HD 0x0f 1 0x80 0,
      HD 0x18 1 0x80 0, HD 0x1f 1 0x80 0, HD 0x29 1 0x80 0, HD 0x38 1 0x80 1,
      HD 0x03 1 0x82 0, HD 0x06 1 0x82 0, HD 0x0a 1 0x82 0, HD 0x0f 1 0x82 0,
      HD 0x18 1 0x82 0, HD 0x1f 1 0x82 0, HD 0x29 1 0x82 0, HD 0x38 1 0x82 1],
     [HD 0x01 1 0x83 0, HD 0x16 1 0x83 1, HD 0x01 1 0xa2 0, HD 0x16 1 0xa2 1,
      HD 0x01 1 0xb8 0, HD 0x16 1 0xb8 1, HD 0x01 1 0xc2 0, HD 0x16 1 0xc2 1,
      HD 0x01 1 0xe0 0, HD 0x16 1 0xe0 1, HD 0x01 1 0xe2 0, HD 0x16 1 0xe2 1,
      HD 0x00 1 0x99 1, HD 0x00 1 0xa1 1, HD 0x00 1 0xa7 1, HD 0x00 1 0xac 1],
     [HD 0x02 1 0x83 0, HD 0x09 1 0x83 0, HD 0x17 1 0x83 0, HD 0x28 1 0x83 1,
      HD 0x02 1 0xa2 0, HD 0x09 1 0xa2 0, HD 0x17 1 0xa2 0, HD 0x28 1 0xa2 1,
      HD 0x02 1 0xb8 0, HD 0x09 1 0xb8 0, HD 0x17 1 0xb8 0, HD 0x28 1 0xb8 1,
      HD 0x02 1 0xc2 0, HD 0x09 1 0xc2 0, HD 0x17 1 0xc2 0, HD 0x28 1 0xc2 1],
     [HD 0x03 1 0x83 0, HD 0x06 1 0x83 0, HD 0x0a 1 0x83 0, HD 0x0f 1 0x83 0,
      HD 0x18 1 0x83 0, HD 0x1f 1 0x83 0, HD 0x29 1 0x83 0, HD 0x38 1 0x83 1,
      HD 0x03 1 0xa2 0, HD 0x06 1 0xa2 0, HD 0x0a 1 0xa2 0, HD 0x0f 1 0xa2 0,
      HD 0x18 1 0xa2 0, HD 0x1f 1 0xa2 0, HD 0x29 1 0xa2 0, HD 0x38 1 0xa2 1],
     [HD 0x03 1 0xb8 0, HD 0x06 1 0xb8 0, HD 0x0a 1 0xb8 0, HD 0x0f 1 0xb8 0,
      HD 0x18 1 0xb8 0, HD 0x1f 1 0xb8 0, HD 0x29 1 0xb8 0, HD 0x38 1 0xb8 1,
      HD 0x03 1 0xc2 0, HD 0x06 1 0xc2 0, HD 0x0a 1 0xc2 0, HD 0x0f 1 0xc2 0,
      HD 0x18 1 0xc2 0, HD 0x1f 1 0xc2 0, HD 0x29 1 0xc2 0, HD 0x38 1 0xc2 1],
     [HD 0x02 1 0xe0 0, HD 0x09 1 0xe0 0, HD 0x17 1 0xe0 0, HD 0x28 1 0xe0 1,
      HD 0x02 1 0xe2 0, HD 0x09 1 0xe2 0, HD 0x17 1 0xe2 0, HD 0x28 1 0xe2 1,
      HD 0x01 1 0x99 0, HD 0x16 1 0x99 1, HD 0x01 1 0xa1 0, HD 0x16 1 0xa1 1,
      HD 0x01 1 0xa7 0, HD 0x16 1 0xa7 1, HD 0x01 1 0xac 0, HD 0x16 1 0xac 1],
     [HD 0x03 1 0xe0 0, HD 0x06 1 0xe0 0, HD 0x0a 1 0xe0 0, HD 0x0f 1 0xe0 0,
      HD 0x18 1 0xe0 0, HD 0x1f 1 0xe0 0, HD 0x29 1 0xe0 0, HD 0x38 1 0xe0 1,
      HD 0x03 1 0xe2 0, HD 0x06 1 0xe2 0, HD 0x0a 1 0xe2 0, HD 0x0f 1 0xe2 0,
      HD 0x18 1 0xe2 0, HD 0x1f 1 0xe2 0, HD 0x29 1 0xe2 0, HD 0x38 1 0xe2 1],
     [HD 0x02 1 0x99 0, HD 0x09 1 0x99 0, HD 0x17 1 0x99 0, HD 0x28 1 0x99 1,
      HD 0x02 1 0xa1 0, HD 0x09 1 0xa1 0, HD 0x17 1 0xa1 0, HD 0x28 1 0xa1 1,
      HD 0x02 1 0xa7 0, HD 0x09 1 0xa7 0, HD 0x17 1 0xa7 0, HD 0x28 1 0xa7 1,
      HD 0x02 1 0xac 0, HD 0x09 1 0xac 0, HD 0x17 1 0xac 0, HD 0x28 1 0xac 1],
     [HD 0x03 1 0x99 0, HD 0x06 1 0x99 0, HD 0x0a 1 0x99 0, HD 0x0f 1 0x99 0,
      HD 0x18 1 0x99 0, HD 0x1f 1 0x99 0, HD 0x29 1 0x99 0, HD 0x38 1 0x99 1,
      HD 0x03 1 0xa1 0, HD 0x06 1 0xa1 0, HD 0x0a 1 0xa1 0, HD 0x0f 1 0xa1 0,
      HD 0x18 1 0xa1 0, HD 0x1f 1 0xa1 0, HD 0x29 1 0xa1 0, HD 0x38 1 0xa1 1],
     [HD 0x03 1 0xa7 0, HD 0x06 1 0xa7 0, HD 0x0a 1 0xa7 0, HD 0x0f 1 0xa7 0,
      HD 0x18 1 0xa7 0, HD 0x1f 1 0xa7 0, HD 0x29 1 0xa7 0, HD 0x38 1 0xa7 1,
      HD 0x03 1 0xac 0, HD 0x06 1 0xac 0, HD 0x0a 1 0xac 0, HD 0x0f 1 0xac 0,
      HD 0x18 1 0xac 0, HD 0x1f 1 0xac 0, HD 0x29 1 0xac 0, HD 0x38 1 0xac 1],
     [HD 0x72 0 0x00 0, HD 0x73 0 0x00 0, HD 0x75 0 0x00 0, HD 0x76 0 0x00 0,
      HD 0x79 0 0x00 0, HD 0x7b 0 0x00 0, HD 0x7f 0 0x00 0, HD 0x82 0 0x00 0,
      HD 0x88 0 0x00 0, HD 0x8b 0 0x00 0, HD 0x8f 0 0x00 0, HD 0x92 0 0x00 0,
      HD 0x9b 0 0x00 0, HD 0xa2 0 0x00 0, HD 0xaa 0 0x00 0, HD 0xb4 0 0x00 1],
     [HD 0x00 1 0xb0 1, HD 0x00 1 0xb1 1, HD 0x00 1 0xb3 1, HD 0x00 1 0xd1 1,
      HD 0x00 1 0xd8 1, HD 0x00 1 0xd9 1, HD 0x00 1 0xe3 1, HD 0x00 1 0xe5 1,
      HD 0x00 1 0xe6 1, HD 0x7a 0 0x00 0, HD 0x7c 0 0x00 0, HD 0x7d 0 0x00 0,
      HD 0x80 0 0x00 0, HD 0x81 0 0x00 0, HD 0x83 0 0x00 0, HD 0x84 0 0x00 0]]"

definition huff_rows_8 :: "huff_decode_code list list" where
  "huff_rows_8 = [
     [HD 0x01 1 0xb0 0, HD 0x16 1 0xb0 1, HD 0x01 1 0xb1 0, HD 0x16 1 0xb1 1,
      HD 0x01 1 0xb3 0, HD 0x16 1 0xb3 1, HD 0x01 1 0xd1 0, HD 0x16 1 0xd1 1,
      HD 0x01 1 0xd8 0, HD 0x16 1 0xd8 1, HD 0x01 1 0xd9 0, HD 0x16 1 0xd9 1,
      HD 0x01 1 0xe3 0, HD 0x16 1 0xe3 1, HD 0x01 1 0xe5 0, HD 0x16 1 0xe5 1],
     [HD 0x02 1 0xb0 0, HD 0x09 1 0xb0 0, HD 0x17 1 0xb0 0, HD 0x28 1 0xb0 1,
      HD 0x02 1 0xb1 0, HD 0x09 1 0xb1 0, HD 0x17 1 0xb1 0, HD 0x28 1 0xb1 1,
      HD 0x02 1 0xb3 0, HD 0x09 1 0xb3 0, HD 0x17 1 0xb3 0, HD 0x28 1 0xb3 1,
      HD 0x02 1 0xd1 0, HD 0x09 1 0xd1 0, HD 0x17 1 0xd1 0, HD 0x28 1 0xd1 1],
     [HD 0x03 1 0xb0 0, HD 0x06 1 0xb0 0, HD 0x0a 1 0xb0 0, HD 0x0f 1 0xb0 0,
      HD 0x18 1 0xb0 0, HD 0x1f 1 0xb0 0, HD 0x29 1 0xb0 0, HD 0x38 1 0xb0 1,
      HD 0x03 1 0xb1 0, HD 0x06 1 0xb1 0, HD 0x0a 1 0xb1 0, HD 0x0f 1 0xb1 0,
      HD 0x18 1 0xb1 0, HD 0x1f 1 0xb1 0, HD 0x29 1 0xb1 0, HD 0x38 1 0xb1 1],
     [HD 0x03 1 0xb3 0, HD 0x06 1 0xb3 0, HD 0x0a 1 0xb3 0, HD 0x0f 1 0xb3 0,
      HD 0x18 1 0xb3 0, HD 0x1f 1 0xb3 0, HD 0x29 1 0xb3 0, HD 0x38 1 0xb3 1,
      HD 0x03 1 0xd1 0, HD 0x06 1 0xd1 0, HD 0x0a 1 0xd1 0, HD 0x0f 1 0xd1 0,
      HD 0x18 1 0xd1 0, HD 0x1f 1 0xd1 0, HD 0x29 1 0xd1 0, HD 0x38 1 0xd1 1],
     [HD 0x02 1 0xd8 0, HD 0x09 1 0xd8 0, HD 0x17 1 0xd8 0, HD 0x28 1 0xd8 1,
      HD 0x02 1 0xd9 0, HD 0x09 1 0xd9 0, HD 0x17 1 0xd9 0, HD 0x28 1 0xd9 1,
      HD 0x02 1 0xe3 0, HD 0x09 1 0xe3 0, HD 0x17 1 0xe3 0, HD 0x28 1 0xe3 1,
      HD 0x02 1 0xe5 0, HD 0x09 1 0xe5 0, HD 0x17 1 0xe5 0, HD 0x28 1 0xe5 1],
     [HD 0x03 1 0xd8 0, HD 0x06 1 0xd8 0, HD 0x0a 1 0xd8 0, HD 0x0f 1 0xd8 0,
      HD 0x18 1 0xd8 0, HD 0x1f 1 0xd8 0, HD 0x29 1 0xd8 0, HD 0x38 1 0xd8 1,
      HD 0x03 1 0xd9 0, HD 0x06 1 0xd9 0, HD 0x0a 1 0xd9 0, HD 0x0f 1 0xd9 0,
      HD 0x18 1 0xd9 0, HD 0x1f 1 0xd9 0, HD 0x29 1 0xd9 0, HD 0x38 1 0xd9 1],
     [HD 0x03 1 0xe3 0, HD 0x06 1 0xe3 0, HD 0x0a 1 0xe3 0, HD 0x0f 1 0xe3 0,
      HD 0x18 1 0xe3 0, HD 0x1f 1 0xe3 0, HD 0x29 1 0xe3 0, HD 0x38 1 0xe3 1,
      HD 0x03 1 0xe5 0, HD 0x06 1 0xe5 0, HD 0x0a 1 0xe5 0, HD 0x0f 1 0xe5 0,
      HD 0x18 1 0xe5 0, HD 0x1f 1 0xe5 0, HD 0x29 1 0xe5 0, HD 0x38 1 0xe5 1],
     [HD 0x01 1 0xe6 0, HD 0x16 1 0xe6 1, HD 0x00 1 0x81 1, HD 0x00 1 0x84 1,
      HD 0x00 1 0x85 1, HD 0x00 1 0x86 1, HD 0x00 1 0x88 1, HD 0x00 1 0x92 1,
      HD 0x00 1 0x9a 1, HD 0x00 1 0x9c 1, HD 0x00 1 0xa0 1, HD 0x00 1 0xa3 1,
      HD 0x00 1 0xa4 1, HD 0x00 1 0xa9 1, HD 0x00 1 0xaa 1, HD 0x00 1 0xad 1],
     [HD 0x02 1 0xe6 0, HD 0x09 1 0xe6 0, HD 0x17 1 0xe6 0, HD 0x28 1 0xe6 1,
      HD 0x01 1 0x81 0, HD 0x16 1 0x81 1, HD 0x01 1 0x84 0, HD 0x16 1 0x84 1,
      HD 0x01 1 0x85 0, HD 0x16 1 0x85 1, HD 0x01 1 0x86 0, HD 0x16 1 0x86 1,
      HD 0x01 1 0x88 0, HD 0x16 1 0x88 1, HD 0x01 1 0x92 0, HD 0x16 1 0x92 1],
     [HD 0x03 1 0xe6 0, HD 0x06 1 0xe6 0, HD 0x0a 1 0xe6 0, HD 0x0f 1 0xe6 0,
      HD 0x18 1 0xe6 0, HD 0x1f 1 0xe6 0, HD 0x29 1 0xe6 0, HD 0x38 1 0xe6 1,
      HD 0x02 1 0x81 0, HD 0x09 1 0x81 0, HD 0x17 1 0x81 0, HD 0x28 1 0x81 1,
      HD 0x02 1 0x84 0, HD 0x09 1 0x84 0, HD 0x17 1 0x84 0, HD 0x28 1 0x84 1],
     [HD 0x03 1 0x81 0, HD 0x06 1 0x81 0, HD 0x0a 1 0x81 0, HD 0x0f 1 0x81 0,
      HD 0x18 1 0x81 0, HD 0x1f 1 0x81 0, HD 0x29 1 0x81 0, HD 0x38 1 0x81 1,
      HD 0x03 1 0x84 0, HD 0x06 1 0x84 0, HD 0x0a 1 0x84 0, HD 0x0f 1 0x84 0,
      HD 0x18 1 0x84 0, HD 0x1f 1 0x84 0, HD 0x29 1 0x84 0, HD 0x38 1 0x84 1],
     [HD 0x02 1 0x85 0, HD 0x09 1 0x85 0, HD 0x17 1 0x85 0, HD 0x28 1 0x85 1,
      HD 0x02 1 0x86 0, HD 0x09 1 0x86 0, HD 0x17 1 0x86 0, HD 0x28 1 0x86 1,
      HD 0x02 1 0x88 0, HD 0x09 1 0x88 0, HD 0x17 1 0x88 0, HD 0x28 1 0x88 1,
      HD 0x02 1 0x92 0, HD 0x09 1 0x92 0, HD 0x17 1 0x92 0, HD 0x28 1 0x92 1],
     [HD 0x03 1 0x85 0, HD 0x06 1 0x85 0, HD 0x0a 1 0x85 0, HD 0x0f 1 0x85 0,
      HD 0x18 1 0x85 0, HD 0x1f 1 0x85 0, HD 0x29 1 0x85 0, HD 0x38 1 0x85 1,
      HD 0x03 1 0x86 0, HD 0x06 1 0x86 0, HD 0x0a 1 0x86 0, HD 0x0f 1 0x86 0,
      HD 0x18 1 0x86 0, HD 0x1f 1 0x86 0, HD 0x29 1 0x86 0, HD 0x38 1 0x86 1],
     [HD 0x03 1 0x88 0, HD 0x06 1 0x88 0, HD 0x0a 1 0x88 0, HD 0x0f 1 0x88 0,
      HD 0x18 1 0x88 0, HD 0x1f 1 0x88 0, HD 0x29 1 0x88 0, HD 0x38 1 0x88 1,
      HD 0x03 1 0x92 0, HD 0x06 1 0x92 0, HD 0x0a 1 0x92 0, HD 0x0f 1 0x92 0,
      HD 0x18 1 0x92 0, HD 0x1f 1 0x92 0, HD 0x29 1 0x92 0, HD 0x38 1 0x92 1]]"

definition huff_rows_9 :: "huff_decode_code list list" where
  "huff_rows_9 = [
     [HD 0x01 1 0x9a 0, HD 0x16 1 0x9a 1, HD 0x01 1 0x9c 0, HD 0x16 1 0x9c 1,
      HD 0x01 1 0xa0 0, HD 0x16 1 0xa0 1, HD 0x01 1 0xa3 0, HD 0x16 1 0xa3 1,
      HD 0x01 1 0xa4 0, HD 0x16 1 0xa4 1, HD 0x01 1 0xa9 0, HD 0x16 1 0xa9 1,
      HD 0x01 1 0xaa 0, HD 0x16 1 0xaa 1, HD 0x01 1 0xad 0, HD 0x16 1 0xad 1],
     [HD 0x02 1 0x9a 0, HD 0x09 1 0x9a 0, HD 0x17 1 0x9a 0, HD 0x28 1 0x9a 1,
      HD 0x02 1 0x9c 0, HD 0x09 1 0x9c 0, HD 0x17 1 0x9c 0, HD 0x28 1 0x9c 1,
      HD 0x02 1 0xa0 0, HD 0x09 1 0xa0 0, HD 0x17 1 0xa0 0, HD 0x28 1 0xa0 1,
      HD 0x02 1 0xa3 0, HD 0x09 1 0xa3 0, HD 0x17 1 0xa3 0, HD 0x28 1 0xa3 1],
     [HD 0x03 1 0x9a 0, HD 0x06 1 0x9a 0, HD 0x0a 1 0x9a 0, HD 0x0f 1 0x9a 0,
      HD 0x18 1 0x9a 0, HD 0x1f 1 0x9a 0, HD 0x29 1 0x9a 0, HD 0x38 1 0x9a 1,
      HD 0x03 1 0x9c 0, HD 0x06 1 0x9c 0, HD 0x0a 1 0x9c 0, HD 0x0f 1 0x9c 0,
      HD 0x18 1 0x9c 0, HD 0x1f 1 0x9c 0, HD 0x29 1 0x9c 0, HD 0x38 1 0x9c 1],
     [HD 0x03 1 0xa0 0, HD 0x06 1 0xa0 0, HD 0x0a 1 0xa0 0, HD 0x0f 1 0xa0 0,
      HD 0x18 1 0xa0 0, HD 0x1f 1 0xa0 0, HD 0x29 1 0xa0 0, HD 0x38 1 0xa0 1,
      HD 0x03 1 0xa3 0, HD 0x06 1 0xa3 0, HD 0x0a 1 0xa3 0, HD 0x0f 1 0xa3 0,
      HD 0x18 1 0xa3 0, HD 0x1f 1 0xa3 0, HD 0x29 1 0xa3 0, HD 0x38 1 0xa3 1],
     [HD 0x02 1 0xa4 0, HD 0x09 1 0xa4 0, HD 0x17 1 0xa4 0, HD 0x28 1 0xa4 1,
      HD 0x02 1 0xa9 0, HD 0x09 1 0xa9 0, HD 0x17 1 0xa9 0, HD 0x28 1 0xa9 1,
      HD 0x02 1 0xaa 0, HD 0x09 1 0xaa 0, HD 0x17 1 0xaa 0, HD 0x28 1 0xaa 1,
      HD 0x02 1 0xad 0, HD 0x09 1 0xad 0, HD 0x17 1 0xad 0, HD 0x28 1 0xad 1],
     [HD 0x03 1 0xa4 0, HD 0x06 1 0xa4 0, HD 0x0a 1 0xa4 0, HD 0x0f 1 0xa4 0,
      HD 0x18 1 0xa4 0, HD 0x1f 1 0xa4 0, HD 0x29 1 0xa4 0, HD 0x38 1 0xa4 1,
      HD 0x03 1 0xa9 0, HD 0x06 1 0xa9 0, HD 0x0a 1 0xa9 0, HD 0x0f 1 0xa9 0,
      HD 0x18 1 0xa9 0, HD 0x1f 1 0xa9 0, HD 0x29 1 0xa9 0, HD 0x38 1 0xa9 1],
     [HD 0x03 1 0xaa 0, HD 0x06 1 0xaa 0, HD 0x0a 1 0xaa 0, HD 0x0f 1 0xaa 0,
      HD 0x18 1 0xaa 0, HD 0x1f 1 0xaa 0, HD 0x29 1 0xaa 0, HD 0x38 1 0xaa 1,
      HD 0x03 1 0xad 0, HD 0x06 1 0xad 0, HD 0x0a 1 0xad 0, HD 0x0f 1 0xad 0,
      HD 0x18 1 0xad 0, HD 0x1f 1 0xad 0, HD 0x29 1 0xad 0, HD 0x38 1 0xad 1],
     [HD 0x89 0 0x00 0, HD 0x8a 0 0x00 0, HD 0x8c 0 0x00 0, HD 0x8d 0 0x00 0,
      HD 0x90 0 0x00 0, HD 0x91 0 0x00 0, HD 0x93 0 0x00 0, HD 0x96 0 0x00 0,
      HD 0x9c 0 0x00 0, HD 0x9f 0 0x00 0, HD 0xa3 0 0x00 0, HD 0xa6 0 0x00 0,
      HD 0xab 0 0x00 0, HD 0xae 0 0x00 0, HD 0xb5 0 0x00 0, HD 0xbe 0 0x00 1],
     [HD 0x00 1 0xb2 1, HD 0x00 1 0xb5 1, HD 0x00 1 0xb9 1, HD 0x00 1 0xba 1,
      HD 0x00 1 0xbb 1, HD 0x00 1 0xbd 1, HD 0x00 1 0xbe 1, HD 0x00 1 0xc4 1,
      HD 0x00 1 0xc6 1, HD 0x00 1 0xe4 1, HD 0x00 1 0xe8 1, HD 0x00 1 0xe9 1,
      HD 0x94 0 0x00 0, HD 0x95 0 0x00 0, HD 0x97 0 0x00 0, HD 0x98 0 0x00 0],
     [HD 0x01 1 0xb2 0, HD 0x16 1 0xb2 1, HD 0x01 1 0xb5 0, HD 0x16 1 0xb5 1,
      HD 0x01 1 0xb9 0, HD 0x16 1 0xb9 1, HD 0x01 1 0xba 0, HD 0x16 1 0xba 1,
      HD 0x01 1 0xbb 0, HD 0x16 1 0xbb 1, HD 0x01 1 0xbd 0, HD 0x16 1 0xbd 1,
      HD 0x01 1 0xbe 0, HD 0x16 1 0xbe 1, HD 0x01 1 0xc4 0, HD 0x16 1 0xc4 1],
     [HD 0x02 1 0xb2 0, HD 0x09 1 0xb2 0, HD 0x17 1 0xb2 0, HD 0x28 1 0xb2 1,
      HD 0x02 1 0xb5 0, HD 0x09 1 0xb5 0, HD 0x17 1 0xb5 0, HD 0x28 1 0xb5 1,
      HD 0x02 1 0xb9 0, HD 0x09 1 0xb9 0, HD 0x17 1 0xb9 0, HD 0x28 1 0xb9 1,
      HD 0x02 1 0xba 0, HD 0x09 1 0xba 0, HD 0x17 1 0xba 0, HD 0x28 1 0xba 1],
     [HD 0x03 1 0xb2 0, HD 0x06 1 0xb2 0, HD 0x0a 1 0xb2 0, HD 0x0f 1 0xb2 0,
      HD 0x18 1 0xb2 0, HD 0x1f 1 0xb2 0, HD 0x29 1 0xb2 0, HD 0x38 1 0xb2 1,
      HD 0x03 1 0xb5 0, HD 0x06 1 0xb5 0, HD 0x0a 1 0xb5 0, HD 0x0f 1 0xb5 0,
      HD 0x18 1 0xb5 0, HD 0x1f 1 0xb5 0, HD 0x29 1 0xb5 0, HD 0x38 1 0xb5 1],
     [HD 0x03 1 0xb9 0, HD 0x06 1 0xb9 0, HD 0x0a 1 0xb9 0, HD 0x0f 1 0xb9 0,
      HD 0x18 1 0xb9 0, HD 0x1f 1 0xb9 0, HD 0x29 1 0xb9 0, HD 0x38 1 0xb9 1,
      HD 0x03 1 0xba 0, HD 0x06 1 0xba 0, HD 0x0a 1 0xba 0, HD 0x0f 1 0xba 0,
      HD 0x18 1 0xba 0, HD 0x1f 1 0xba 0, HD 0x29 1 0xba 0, HD 0x38 1 0xba 1],
     [HD 0x02 1 0xbb 0, HD 0x09 1 0xbb 0, HD 0x17 1 0xbb 0, HD 0x28 1 0xbb 1,
      HD 0x02 1 0xbd 0, HD 0x09 1 0xbd 0, HD 0x17 1 0xbd 0, HD 0x28 1 0xbd 1,
      HD 0x02 1 0xbe 0, HD 0x09 1 0xbe 0, HD 0x17 1 0xbe 0, HD 0x28 1 0xbe 1,
      HD 0x02 1 0xc4 0, HD 0x09 1 0xc4 0, HD 0x17 1 0xc4 0, HD 0x28 1 0xc4 1]]"

definition huff_rows_10 :: "huff_decode_code list list" where
  "huff_rows_10 = [
     [HD 0x03 1 0xbb 0, HD 0x06 1 0xbb 0, HD 0x0a 1 0xbb 0, HD 0x0f 1 0xbb 0,
      HD 0x18 1 0xbb 0, HD 0x1f 1 0xbb 0, HD 0x29 1 0xbb 0, HD 0x38 1 0xbb 1,
      HD 0x03 1 0xbd 0, HD 0x06 1 0xbd 0, HD 0x0a 1 0xbd 0, HD 0x0f 1 0xbd 0,
      HD 0x18 1 0xbd 0, HD 0x1f 1 0xbd 0, HD 0x29 1 0xbd 0, HD 0x38 1 0xbd 1],
     [HD 0x03 1 0xbe 0, HD 0x06 1 0xbe 0, HD 0x0a 1 0xbe 0, HD 0x0f 1 0xbe 0,
      HD 0x18 1 0xbe 0, HD 0x1f 1 0xbe 0, HD 0x29 1 0xbe 0, HD 0x38 1 0xbe 1,
      HD 0x03 1 0xc4 0, HD 0x06 1 0xc4 0, HD 0x0a 1 0xc4 0, HD 0x0f 1 0xc4 0,
      HD 0x18 1 0xc4 0, HD 0x1f 1 0xc4 0, HD 0x29 1 0xc4 0, HD 0x38 1 0xc4 1],
     [HD 0x01 1 0xc6 0, HD 0x16 1 0xc6 1, HD 0x01 1 0xe4 0, HD 0x16 1 0xe4 1,
      HD 0x01 1 0xe8 0, HD 0x16 1 0xe8 1, HD 0x01 1 0xe9 0, HD 0x16 1 0xe9 1,
      HD 0x00 1 0x01 1, HD 0x00 1 0x87 1, HD 0x00 1 0x89 1, HD 0x00 1 0x8a 1,
      HD 0x00 1 0x8b 1, HD 0x00 1 0x8c 1, HD 0x00 1 0x8d 1, HD 0x00 1 0x8f 1],
     [HD 0x02 1 0xc6 0, HD 0x09 1 0xc6 0, HD 0x17 1 0xc6 0, HD 0x28 1 0xc6 1,
      HD 0x02 1 0xe4 0, HD 0x09 1 0xe4 0, HD 0x17 1 0xe4 0, HD 0x28 1 0xe4 1,
      HD 0x02 1 0xe8 0, HD 0x09 1 0xe8 0, HD 0x17 1 0xe8 0, HD 0x28 1 0xe8 1,
      HD 0x02 1 0xe9 0, HD 0x09 1 0xe9 0, HD 0x17 1 0xe9 0, HD 0x28 1 0xe9 1],
     [HD 0x03 1 0xc6 0, HD 0x06 1 0xc6 0, HD 0x0a 1 0xc6 0, HD 0x0f 1 0xc6 0,
      HD 0x18 1 0xc6 0, HD 0x1f 1 0xc6 0, HD 0x29 1 0xc6 0, HD 0x38 1 0xc6 1,
      HD 0x03 1 0xe4 0, HD 0x06 1 0xe4 0, HD 0x0a 1 0xe4 0, HD 0x0f 1 0xe4 0,
      HD 0x18 1 0xe4 0, HD 0x1f 1 0xe4 0, HD 0x29 1 0xe4 0, HD 0x38 1 0xe4 1],
     [HD 0x03 1 0xe8 0, HD 0x06 1 0xe8 0, HD 0x0a 1 0xe8 0, HD 0x0f 1 0xe8 0,
      HD 0x18 1 0xe8 0, HD 0x1f 1 0xe8 0, HD 0x29 1 0xe8 0, HD 0x38 1 0xe8 1,
      HD 0x03 1 0xe9 0, HD 0x06 1 0xe9 0, HD 0x0a 1 0xe9 0, HD 0x0f 1 0xe9 0,
      HD 0x18 1 0xe9 0, HD 0x1f 1 0xe9 0, HD 0x29 1 0xe9 0, HD 0x38 1 0xe9 1],
     [HD 0x01 1 0x01 0, HD 0x16 1 0x01 1, HD 0x01 1 0x87 0, HD 0x16 1 0x87 1,
      HD 0x01 1 0x89 0, HD 0x16 1 0x89 1, HD 0x01 1 0x8a 0, HD 0x16 1 0x8a 1,
      HD 0x01 1 0x8b 0, HD 0x16 1 0x8b 1, HD 0x01 1 0x8c 0, HD 0x16 1 0x8c 1,
      HD 0x01 1 0x8d 0, HD 0x16 1 0x8d 1, HD 0x01 1 0x8f 0, HD 0x16 1 0x8f 1],
     [HD 0x02 1 0x01 0, HD 0x09 1 0x01 0, HD 0x17 1 0x01 0, HD 0x28 1 0x01 1,
      HD 0x02 1 0x87 0, HD 0x09 1 0x87 0, HD 0x17 1 0x87 0, HD 0x28 1 0x87 1,
      HD 0x02 1 0x89 0, HD 0x09 1 0x89 0, HD 0x17 1 0x89 0, HD 0x28 1 0x89 1,
      HD 0x02 1 0x8a 0, HD 0x09 1 0x8a 0, HD 0x17 1 0x8a 0, HD 0x28 1 0x8a 1],
     [HD 0x03 1 0x01 0, HD 0x06 1 0x01 0, HD 0x0a 1 0x01 0, HD 0x0f 1 0x01 0,
      HD 0x18 1 0x01 0, HD 0x1f 1 0x01 0, HD 0x29 1 0x01 0, HD 0x38 1 0x01 1,
      HD 0x03 1 0x87 0, HD 0x06 1 0x87 0, HD 0x0a 1 0x87 0, HD 0x0f 1 0x87 0,
      HD 0x18 1 0x87 0, HD 0x1f 1 0x87 0, HD 0x29 1 0x87 0, HD 0x38 1 0x87 1],
     [HD 0x03 1 0x89 0, HD 0x06 1 0x89 0, HD 0x0a 1 0x89 0, HD 0x0f 1 0x89 0,
      HD 0x18 1 0x89 0, HD 0x1f 1 0x89 0, HD 0x29 1 0x89 0, HD 0x38 1 0x89 1,
      HD 0x03 1 0x8a 0, HD 0x06 1 0x8a 0, HD 0x0a 1 0x8a 0, HD 0x0f 1 0x8a 0,
      HD 0x18 1 0x8a 0, HD 0x1f 1 0x8a 0, HD 0x29 1 0x8a 0, HD 0x38 1 0x8a 1],
     [HD 0x02 1 0x8b 0, HD 0x09 1 0x8b 0, HD 0x17 1 0x8b 0, HD 0x28 1 0x8b 1,
      HD 0x02 1 0x8c 0, HD 0x09 1 0x8c 0, HD 0x17 1 0x8c 0, HD 0x28 1 0x8c 1,
      HD 0x02 1 0x8d 0, HD 0x09 1 0x8d 0, HD 0x17 1 0x8d 0, HD 0x28 1 0x8d 1,
      HD 0x02 1 0x8f 0, HD 0x09 1 0x8f 0, HD 0x17 1 0x8f 0, HD 0x28 1 0x8f 1],
     [HD 0x03 1 0x8b 0, HD 0x06 1 0x8b 0, HD 0x0a 1 0x8b 0, HD 0x0f 1 0x8b 0,
      HD 0x18 1 0x8b 0, HD 0x1f 1 0x8b 0, HD 0x29 1 0x8b 0, HD 0x38 1 0x8b 1,
      HD 0x03 1 0x8c 0, HD 0x06 1 0x8c 0, HD 0x0a 1 0x8c 0, HD 0x0f 1 0x8c 0,
      HD 0x18 1 0x8c 0, HD 0x1f 1 0x8c 0, HD 0x29 1 0x8c 0, HD 0x38 1 0x8c 1],
     [HD 0x03 1 0x8d 0, HD 0x06 1 0x8d 0, HD 0x0a 1 0x8d 0, HD 0x0f 1 0x8d 0,
      HD 0x18 1 0x8d 0, HD 0x1f 1 0x8d 0, HD 0x29 1 0x8d 0, HD 0x38 1 0x8d 1,
      HD 0x03 1 0x8f 0, HD 0x06 1 0x8f 0, HD 0x0a 1 0x8f 0, HD 0x0f 1 0x8f 0,
      HD 0x18 1 0x8f 0, HD 0x1f 1 0x8f 0, HD 0x29 1 0x8f 0, HD 0x38 1 0x8f 1],
     [HD 0x9d 0 0x00 0, HD 0x9e 0 0x00 0, HD 0xa0 0 0x00 0, HD 0xa1 0 0x00 0,
      HD 0xa4 0 0x00 0, HD 0xa5 0 0x00 0, HD 0xa7 0 0x00 0, HD 0xa8 0 0x00 0,
      HD 0xac 0 0x00 0, HD 0xad 0 0x00 0, HD 0xaf 0 0x00 0, HD 0xb1 0 0x00 0,
      HD 0xb6 0 0x00 0, HD 0xb9 0 0x00 0, HD 0xbf 0 0x00 0, HD 0xcf 0 0x00 1]]"

definition huff_rows_11 :: "huff_decode_code list list" where
  "huff_rows_11 = [
     [HD 0x00 1 0x93 1, HD 0x00 1 0x95 1, HD 0x00 1 0x96 1, HD 0x00 1 0x97 1,
      HD 0x00 1 0x98 1, HD 0x00 1 0x9b 1, HD 0x00 1 0x9d 1, HD 0x00 1 0x9e 1,
      HD 0x00 1 0xa5 1, HD 0x00 1 0xa6 1, HD 0x00 1 0xa8 1, HD 0x00 1 0xae 1,
      HD 0x00 1 0xaf 1, HD 0x00 1 0xb4 1, HD 0x00 1 0xb6 1, HD 0x00 1 0xb7 1],
     [HD 0x01 1 0x93 0, HD 0x16 1 0x93 1, HD 0x01 1 0x95 0, HD 0x16 1 0x95 1,
      HD 0x01 1 0x96 0, HD 0x16 1 0x96 1, HD 0x01 1 0x97 0, HD 0x16 1 0x97 1,
      HD 0x01 1 0x98 0, HD 0x16 1 0x98 1, HD 0x01 1 0x9b 0, HD 0x16 1 0x9b 1,
      HD 0x01 1 0x9d 0, HD 0x16 1 0x9d 1, HD 0x01 1 0x9e 0, HD 0x16 1 0x9e 1],
     [HD 0x02 1 0x93 0, HD 0x09 1 0x93 0, HD 0x17 1 0x93 0, HD 0x28 1 0x93 1,
      HD 0x02 1 0x95 0, HD 0x09 1 0x95 0, HD 0x17 1 0x95 0, HD 0x28 1 0x95 1,
      HD 0x02 1 0x96 0, HD 0x09 1 0x96 0, HD 0x17 1 0x96 0, HD 0x28 1 0x96 1,
      HD 0x02 1 0x97 0, HD 0x09 1 0x97 0, HD 0x17 1 0x97 0, HD 0x28 1 0x97 1],
     [HD 0x03 1 0x93 0, HD 0x06 1 0x93 0, HD 0x0a 1 0x93 0, HD 0x0f 1 0x93 0,
      HD 0x18 1 0x93 0, HD 0x1f 1 0x93 0, HD 0x29 1 0x93 0, HD 0x38 1 0x93 1,
      HD 0x03 1 0x95 0, HD 0x06 1 0x95 0, HD 0x0a 1 0x95 0, HD 0x0f 1 0x95 0,
      HD 0x18 1 0x95 0, HD 0x1f 1 0x95 0, HD 0x29 1 0x95 0, HD 0x38 1 0x95 1],
     [HD 0x03 1 0x96 0, HD 0x06 1 0x96 0, HD 0x0a 1 0x96 0, HD 0x0f 1 0x96 0,
      HD 0x18 1 0x96 0, HD 0x1f 1 0x96 0, HD 0x29 1 0x96 0, HD 0x38 1 0x96 1,
      HD 0x03 1 0x97 0, HD 0x06 1 0x97 0, HD 0x0a 1 0x97 0, HD 0x0f 1 0x97 0,
      HD 0x18 1 0x97 0, HD 0x1f 1 0x97 0, HD 0x29 1 0x97 0, HD 0x38 1 0x97 1],
     [HD 0x02 1 0x98 0, HD 0x09 1 0x98 0, HD 0x17 1 0x98 0, HD 0x28 1 0x98 1,
      HD 0x02 1 0x9b 0, HD 0x09 1 0x9b 0, HD 0x17 1 0x9b 0, HD 0x28 1 0x9b 1,
      HD 0x02 1 0x9d 0, HD 0x09 1 0x9d 0, HD 0x17 1 0x9d 0, HD 0x28 1 0x9d 1,
      HD 0x02 1 0x9e 0, HD 0x09 1 0x9e 0, HD 0x17 1 0x9e 0, HD 0x28 1 0x9e 1],
     [HD 0x03 1 0x98 0, HD 0x06 1 0x98 0, HD 0x0a 1 0x98 0, HD 0x0f 1 0x98 0,
      HD 0x18 1 0x98 0, HD 0x1f 1 0x98 0, HD 0x29 1 0x98 0, HD 0x38 1 0x98 1,
      HD 0x03 1 0x9b 0, HD 0x06 1 0x9b 0, HD 0x0a 1 0x9b 0, HD 0x0f 1 0x9b 0,
      HD 0x18 1 0x9b 0, HD 0x1f 1 0x9b 0, HD 0x29 1 0x9b 0, HD 0x38 1 0x9b 1],
     [HD 0x03 1 0x9d 0, HD 0x06 1 0x9d 0, HD 0x0a 1 0x9d 0, HD 0x0f 1 0x9d 0,
      HD 0x18 1 0x9d 0, HD 0x1f 1 0x9d 0, HD 0x29 1 0x9d 0, HD 0x38 1 0x9d 1,
      HD 0x03 1 0x9e 0, HD 0x06 1 0x9e 0, HD 0x0a 1 0x9e 0, HD 0x0f 1 0x9e 0,
      HD 0x18 1 0x9e 0, HD 0x1f 1 0x9e 0, HD 0x29 1 0x9e 0, HD 0x38 1 0x9e 1],
     [HD 0x01 1 0xa5 0, HD 0x16 1 0xa5 1, HD 0x01 1 0xa6 0, HD 0x16 1 0xa6 1,
      HD 0x01 1 0xa8 0, HD 0x16 1 0xa8 1, HD 0x01 1 0xae 0, HD 0x16 1 0xae 1,
      HD 0x01 1 0xaf 0, HD 0x16 1 0xaf 1, HD 0x01 1 0xb4 0, HD 0x16 1 0xb4 1,
      HD 0x01 1 0xb6 0, HD 0x16 1 0xb6 1, HD 0x01 1 0xb7 0, HD 0x16 1 0xb7 1],
     [HD 0x02 1 0xa5 0, HD 0x09 1 0xa5 0, HD 0x17 1 0xa5 0, HD 0x28 1 0xa5 1,
      HD 0x02 1 0xa6 0, HD 0x09 1 0xa6 0, HD 0x17 1 0xa6 0, HD 0x28 1 0xa6 1,
      HD 0x02 1 0xa8 0, HD 0x09 1 0xa8 0, HD 0x17 1 0xa8 0, HD 0x28 1 0xa8 1,
      HD 0x02 1 0xae 0, HD 0x09 1 0xae 0, HD 0x17 1 0xae 0, HD 0x28 1 0xae 1],
     [HD 0x03 1 0xa5 0, HD 0x06 1 0xa5 0, HD 0x0a 1 0xa5 0, HD 0x0f 1 0xa5 0,
      HD 0x18 1 0xa5 0, HD 0x1f 1 0xa5 0, HD 0x29 1 0xa5 0, HD 0x38 1 0xa5 1,
      HD 0x03 1 0xa6 0, HD 0x06 1 0xa6 0, HD 0x0a 1 0xa6 0, HD 0x0f 1 0xa6 0,
      HD 0x18 1 0xa6 0, HD 0x1f 1 0xa6 0, HD 0x29 1 0xa6 0, HD 0x38 1 0xa6 1],
     [HD 0x03 1 0xa8 0, HD 0x06 1 0xa8 0, HD 0x0a 1 0xa8 0, HD 0x0f 1 0xa8 0,
      HD 0x18 1 0xa8 0, HD 0x1f 1 0xa8 0, HD 0x29 1 0xa8 0, HD 0x38 1 0xa8 1,
      HD 0x03 1 0xae 0, HD 0x06 1 0xae 0, HD 0x0a 1 0xae 0, HD 0x0f 1 0xae 0,
      HD 0x18 1 0xae 0, HD 0x1f 1 0xae 0, HD 0x29 1 0xae 0, HD 0x38 1 0xae 1],
     [HD 0x02 1 0xaf 0, HD 0x09 1 0xaf 0, HD 0x17 1 0xaf 0, HD 0x28 1 0xaf 1,
      HD 0x02 1 0xb4 0, HD 0x09 1 0xb4 0, HD 0x17 1 0xb4 0, HD 0x28 1 0xb4 1,
      HD 0x02 1 0xb6 0, HD 0x09 1 0xb6 0, HD 0x17 1 0xb6 0, HD 0x28 1 0xb6 1,
      HD 0x02 1 0xb7 0, HD 0x09 1 0xb7 0, HD 0x17 1 0xb7 0, HD 0x28 1 0xb7 1],
     [HD 0x03 1 0xaf 0, HD 0x06 1 0xaf 0, HD 0x0a 1 0xaf 0, HD 0x0f 1 0xaf 0,
      HD 0x18 1 0xaf 0, HD 0x1f 1 0xaf 0, HD 0x29 1 0xaf 0, HD 0x38 1 0xaf 1,
      HD 0x03 1 0xb4 0, HD 0x06 1 0xb4 0, HD 0x0a 1 0xb4 0, HD 0x0f 1 0xb4 0,
      HD 0x18 1 0xb4 0, HD 0x1f 1 0xb4 0, HD 0x29 1 0xb4 0, HD 0x38 1 0xb4 1]]"

definition huff_rows_12 :: "huff_decode_code list list" where
  "huff_rows_12 = [
     [HD 0x03 1 0xb6 0, HD 0x06 1 0xb6 0, HD 0x0a 1 0xb6 0, HD 0x0f 1 0xb6 0,
      HD 0x18 1 0xb6 0, HD 0x1f 1 0xb6 0, HD 0x29 1 0xb6 0, HD 0x38 1 0xb6 1,
      HD 0x03 1 0xb7 0, HD 0x06 1 0xb7 0, HD 0x0a 1 0xb7 0, HD 0x0f 1 0xb7 0,
      HD 0x18 1 0xb7 0, HD 0x1f 1 0xb7 0, HD 0x29 1 0xb7 0, HD 0x38 1 0xb7 1],
     [HD 0x00 1 0xbc 1, HD 0x00 1 0xbf 1, HD 0x00 1 0xc5 1, HD 0x00 1 0xe7 1,
      HD 0x00 1 0xef 1, HD 0xb0 0 0x00 0, HD 0xb2 0 0x00 0, HD 0xb3 0 0x00 0,
      HD 0xb7 0 0x00 0, HD 0xb8 0 0x00 0, HD 0xba 0 0x00 0, HD 0xbb 0 0x00 0,
      HD 0xc0 0 0x00 0, HD 0xc7 0 0x00 0, HD 0xd0 0 0x00 0, HD 0xdf 0 0x00 1],
     [HD 0x01 1 0xbc 0, HD 0x16 1 0xbc 1, HD 0x01 1 0xbf 0, HD 0x16 1 0xbf 1,
      HD 0x01 1 0xc5 0, HD 0x16 1 0xc5 1, HD 0x01 1 0xe7 0, HD 0x16 1 0xe7 1,
      HD 0x01 1 0xef 0, HD 0x16 1 0xef 1, HD 0x00 1 0x09 1, HD 0x00 1 0x8e 1,
      HD 0x00 1 0x90 1, HD 0x00 1 0x91 1, HD 0x00 1 0x94 1, HD 0x00 1 0x9f 1],
     [HD 0x02 1 0xbc 0, HD 0x09 1 0xbc 0, HD 0x17 1 0xbc 0, HD 0x28 1 0xbc 1,
      HD 0x02 1 0xbf 0, HD 0x09 1 0xbf 0, HD 0x17 1 0xbf 0, HD 0x28 1 0xbf 1,
      HD 0x02 1 0xc5 0, HD 0x09 1 0xc5 0, HD 0x17 1 0xc5 0, HD 0x28 1 0xc5 1,
      HD 0x02 1 0xe7 0, HD 0x09 1 0xe7 0, HD 0x17 1 0xe7 0, HD 0x28 1 0xe7 1],
     [HD 0x03 1 0xbc 0, HD 0x06 1 0xbc 0, HD 0x0a 1 0xbc 0, HD 0x0f 1 0xbc 0,
      HD 0x18 1 0xbc 0, HD 0x1f 1 0xbc 0, HD 0x29 1 0xbc 0, HD 0x38 1 0xbc 1,
      HD 0x03 1 0xbf 0, HD 0x06 1 0xbf 0, HD 0x0a 1 0xbf 0, HD 0x0f 1 0xbf 0,
      HD 0x18 1 0xbf 0, HD 0x1f 1 0xbf 0, HD 0x29 1 0xbf 0, HD 0x38 1 0xbf 1],
     [HD 0x03 1 0xc5 0, HD 0x06 1 0xc5 0, HD 0x0a 1 0xc5 0, HD 0x0f 1 0xc5 0,
      HD 0x18 1 0xc5 0, HD 0x1f 1 0xc5 0, HD 0x29 1 0xc5 0, HD 0x38 1 0xc5 1,
      HD 0x03 1 0xe7 0, HD 0x06 1 0xe7 0, HD 0x0a 1 0xe7 0, HD 0x0f 1 0xe7 0,
      HD 0x18 1 0xe7 0, HD 0x1f 1 0xe7 0, HD 0x29 1 0xe7 0, HD 0x38 1 0xe7 1],
     [HD 0x02 1 0xef 0, HD 0x09 1 0xef 0, HD 0x17 1 0xef 0, HD 0x28 1 0xef 1,
      HD 0x01 1 0x09 0, HD 0x16 1 0x09 1, HD 0x01 1 0x8e 0, HD 0x16 1 0x8e 1,
      HD 0x01 1 0x90 0, HD 0x16 1 0x90 1, HD 0x01 1 0x91 0, HD 0x16 1 0x91 1,
      HD 0x01 1 0x94 0, HD 0x16 1 0x94 1, HD 0x01 1 0x9f 0, HD 0x16 1 0x9f 1],
     [HD 0x03 1 0xef 0, HD 0x06 1 0xef 0, HD 0x0a 1 0xef 0, HD 0x0f 1 0xef 0,
      HD 0x18 1 0xef 0, HD 0x1f 1 0xef 0, HD 0x29 1 0xef 0, HD 0x38 1 0xef 1,
      HD 0x02 1 0x09 0, HD 0x09 1 0x09 0, HD 0x17 1 0x09 0, HD 0x28 1 0x09 1,
      HD 0x02 1 0x8e 0, HD 0x09 1 0x8e 0, HD 0x17 1 0x8e 0, HD 0x28 1 0x8e 1],
     [HD 0x03 1 0x09 0, HD 0x06 1 0x09 0, HD 0x0a 1 0x09 0, HD 0x0f 1 0x09 0,
      HD 0x18 1 0x09 0, HD 0x1f 1 0x09 0, HD 0x29 1 0x09 0, HD 0x38 1 0x09 1,
      HD 0x03 1 0x8e 0, HD 0x06 1 0x8e 0, HD 0x0a 1 0x8e 0, HD 0x0f 1 0x8e 0,
      HD 0x18 1 0x8e 0, HD 0x1f 1 0x8e 0, HD 0x29 1 0x8e 0, HD 0x38 1 0x8e 1],
     [HD 0x02 1 0x90 0, HD 0x09 1 0x90 0, HD 0x17 1 0x90 0, HD 0x28 1 0x90 1,
      HD 0x02 1 0x91 0, HD 0x09 1 0x91 0, HD 0x17 1 0x91 0, HD 0x28 1 0x91 1,
      HD 0x02 1 0x94 0, HD 0x09 1 0x94 0, HD 0x17 1 0x94 0, HD 0x28 1 0x94 1,
      HD 0x02 1 0x9f 0, HD 0x09 1 0x9f 0, HD 0x17 1 0x9f 0, HD 0x28 1 0x9f 1],
     [HD 0x03 1 0x90 0, HD 0x06 1 0x90 0, HD 0x0a 1 0x90 0, HD 0x0f 1 0x90 0,
      HD 0x18 1 0x90 0, HD 0x1f 1 0x90 0, HD 0x29 1 0x90 0, HD 0x38 1 0x90 1,
      HD 0x03 1 0x91 0, HD 0x06 1 0x91 0, HD 0x0a 1 0x91 0, HD 0x0f 1 0x91 0,
      HD 0x18 1 0x91 0, HD 0x1f 1 0x91 0, HD 0x29 1 0x91 0, HD 0x38 1 0x91 1],
     [HD 0x03 1 0x94 0, HD 0x06 1 0x94 0, HD 0x0a 1 0x94 0, HD 0x0f 1 0x94 0,
      HD 0x18 1 0x94 0, HD 0x1f 1 0x94 0, HD 0x29 1 0x94 0, HD 0x38 1 0x94 1,
      HD 0x03 1 0x9f 0, HD 0x06 1 0x9f 0, HD 0x0a 1 0x9f 0, HD 0x0f 1 0x9f 0,
      HD 0x18 1 0x9f 0, HD 0x1f 1 0x9f 0, HD 0x29 1 0x9f 0, HD 0x38 1 0x9f 1],
     [HD 0x00 1 0xab 1, HD 0x00 1 0xce 1, HD 0x00 1 0xd7 1, HD 0x00 1 0xe1 1,
      HD 0x00 1 0xec 1, HD 0x00 1 0xed 1, HD 0xbc 0 0x00 0, HD 0xbd 0 0x00 0,
      HD 0xc1 0 0x00 0, HD 0xc4 0 0x00 0, HD 0xc8 0 0x00 0, HD 0xcb 0 0x00 0,
      HD 0xd1 0 0x00 0, HD 0xd8 0 0x00 0, HD 0xe0 0 0x00 0, HD 0xee 0 0x00 1],
     [HD 0x01 1 0xab 0, HD 0x16 1 0xab 1, HD 0x01 1 0xce 0, HD 0x16 1 0xce 1,
      HD 0x01 1 0xd7 0, HD 0x16 1 0xd7 1, HD 0x01 1 0xe1 0, HD 0x16 1 0xe1 1,
      HD 0x01 1 0xec 0, HD 0x16 1 0xec 1, HD 0x01 1 0xed 0, HD 0x16 1 0xed 1,
      HD 0x00 1 0xc7 1, HD 0x00 1 0xcf 1, HD 0x00 1 0xea 1, HD 0x00 1 0xeb 1]]"

definition huff_rows_13 :: "huff_decode_code list list" where
  "huff_rows_13 = [
     [HD 0x02 1 0xab 0, HD 0x09 1 0xab 0, HD 0x17 1 0xab 0, HD 0x28 1 0xab 1,
      HD 0x02 1 0xce 0, HD 0x09 1 0xce 0, HD 0x17 1 0xce 0, HD 0x28 1 0xce 1,
      HD 0x02 1 0xd7 0, HD 0x09 1 0xd7 0, HD 0x17 1 0xd7 0, HD 0x28 1 0xd7 1,
      HD 0x02 1 0xe1 0, HD 0x09 1 0xe1 0, HD 0x17 1 0xe1 0, HD 0x28 1 0xe1 1],
     [HD 0x03 1 0xab 0, HD 0x06 1 0xab 0, HD 0x0a 1 0xab 0, HD 0x0f 1 0xab 0,
      HD 0x18 1 0xab 0, HD 0x1f 1 0xab 0, HD 0x29 1 0xab 0, HD 0x38 1 0xab 1,
      HD 0x03 1 0xce 0, HD 0x06 1 0xce 0, HD 0x0a 1 0xce 0, HD 0x0f 1 0xce 0,
      HD 0x18 1 0xce 0, HD 0x1f 1 0xce 0, HD 0x29 1 0xce 0, HD 0x38 1 0xce 1],
     [HD 0x03 1 0xd7 0, HD 0x06 1 0xd7 0, HD 0x0a 1 0xd7 0, HD 0x0f 1 0xd7 0,
      HD 0x18 1 0xd7 0, HD 0x1f 1 0xd7 0, HD 0x29 1 0xd7 0, HD 0x38 1 0xd7 1,
      HD 0x03 1 0xe1 0, HD 0x06 1 0xe1 0, HD 0x0a 1 0xe1 0, HD 0x0f 1 0xe1 0,
      HD 0x18 1 0xe1 0, HD 0x1f 1 0xe1 0, HD 0x29 1 0xe1 0, HD 0x38 1 0xe1 1],
     [HD 0x02 1 0xec 0, HD 0x09 1 0xec 0, HD 0x17 1 0xec 0, HD 0x28 1 0xec 1,
      HD 0x02 1 0xed 0, HD 0x09 1 0xed 0, HD 0x17 1 0xed 0, HD 0x28 1 0xed 1,
      HD 0x01 1 0xc7 0, HD 0x16 1 0xc7 1, HD 0x01 1 0xcf 0, HD 0x16 1 0xcf 1,
      HD 0x01 1 0xea 0, HD 0x16 1 0xea 1, HD 0x01 1 0xeb 0, HD 0x16 1 0xeb 1],
     [HD 0x03 1 0xec 0, HD 0x06 1 0xec 0, HD 0x0a 1 0xec 0, HD 0x0f 1 0xec 0,
      HD 0x18 1 0xec 0, HD 0x1f 1 0xec 0, HD 0x29 1 0xec 0, HD 0x38 1 0xec 1,
      HD 0x03 1 0xed 0, HD 0x06 1 0xed 0, HD 0x0a 1 0xed 0, HD 0x0f 1 0xed 0,
      HD 0x18 1 0xed 0, HD 0x1f 1 0xed 0, HD 0x29 1 0xed 0, HD 0x38 1 0xed 1],
     [HD 0x02 1 0xc7 0, HD 0x09 1 0xc7 0, HD 0x17 1 0xc7 0, HD 0x28 1 0xc7 1,
      HD 0x02 1 0xcf 0, HD 0x09 1 0xcf 0, HD 0x17 1 0xcf 0, HD 0x28 1 0xcf 1,
      HD 0x02 1 0xea 0, HD 0x09 1 0xea 0, HD 0x17 1 0xea 0, HD 0x28 1 0xea 1,
      HD 0x02 1 0xeb 0, HD 0x09 1 0xeb 0, HD 0x17 1 0xeb 0, HD 0x28 1 0xeb 1],
     [HD 0x03 1 0xc7 0, HD 0x06 1 0xc7 0, HD 0x0a 1 0xc7 0, HD 0x0f 1 0xc7 0,
      HD 0x18 1 0xc7 0, HD 0x1f 1 0xc7 0, HD 0x29 1 0xc7 0, HD 0x38 1 0xc7 1,
      HD 0x03 1 0xcf 0, HD 0x06 1 0xcf 0, HD 0x0a 1 0xcf 0, HD 0x0f 1 0xcf 0,
      HD 0x18 1 0xcf 0, HD 0x1f 1 0xcf 0, HD 0x29 1 0xcf 0, HD 0x38 1 0xcf 1],
     [HD 0x03 1 0xea 0, HD 0x06 1 0xea 0, HD 0x0a 1 0xea 0, HD 0x0f 1 0xea 0,
      HD 0x18 1 0xea 0, HD 0x1f 1 0xea 0, HD 0x29 1 0xea 0, HD 0x38 1 0xea 1,
      HD 0x03 1 0xeb 0, HD 0x06 1 0xeb 0, HD 0x0a 1 0xeb 0, HD 0x0f 1 0xeb 0,
      HD 0x18 1 0xeb 0, HD 0x1f 1 0xeb 0, HD 0x29 1 0xeb 0, HD 0x38 1 0xeb 1],
     [HD 0xc2 0 0x00 0, HD 0xc3 0 0x00 0, HD 0xc5 0 0x00 0, HD 0xc6 0 0x00 0,
      HD 0xc9 0 0x00 0, HD 0xca 0 0x00 0, HD 0xcc 0 0x00 0, HD 0xcd 0 0x00 0,
      HD 0xd2 0 0x00 0, HD 0xd5 0 0x00 0, HD 0xd9 0 0x00 0, HD 0xdc 0 0x00 0,
      HD 0xe1 0 0x00 0, HD 0xe7 0 0x00 0, HD 0xef 0 0x00 0, HD 0xf6 0 0x00 1],
     [HD 0x00 1 0xc0 1, HD 0x00 1 0xc1 1, HD 0x00 1 0xc8 1, HD 0x00 1 0xc9 1,
      HD 0x00 1 0xca 1, HD 0x00 1 0xcd 1, HD 0x00 1 0xd2 1, HD 0x00 1 0xd5 1,
      HD 0x00 1 0xda 1, HD 0x00 1 0xdb 1, HD 0x00 1 0xee 1, HD 0x00 1 0xf0 1,
      HD 0x00 1 0xf2 1, HD 0x00 1 0xf3 1, HD 0x00 1 0xff 1, HD 0xce 0 0x00 0],
     [HD 0x01 1 0xc0 0, HD 0x16 1 0xc0 1, HD 0x01 1 0xc1 0, HD 0x16 1 0xc1 1,
      HD 0x01 1 0xc8 0, HD 0x16 1 0xc8 1, HD 0x01 1 0xc9 0, HD 0x16 1 0xc9 1,
      HD 0x01 1 0xca 0, HD 0x16 1 0xca 1, HD 0x01 1 0xcd 0, HD 0x16 1 0xcd 1,
      HD 0x01 1 0xd2 0, HD 0x16 1 0xd2 1, HD 0x01 1 0xd5 0, HD 0x16 1 0xd5 1],
     [HD 0x02 1 0xc0 0, HD 0x09 1 0xc0 0, HD 0x17 1 0xc0 0, HD 0x28 1 0xc0 1,
      HD 0x02 1 0xc1 0, HD 0x09 1 0xc1 0, HD 0x17 1 0xc1 0, HD 0x28 1 0xc1 1,
      HD 0x02 1 0xc8 0, HD 0x09 1 0xc8 0, HD 0x17 1 0xc8 0, HD 0x28 1 0xc8 1,
      HD 0x02 1 0xc9 0, HD 0x09 1 0xc9 0, HD 0x17 1 0xc9 0, HD 0x28 1 0xc9 1],
     [HD 0x03 1 0xc0 0, HD 0x06 1 0xc0 0, HD 0x0a 1 0xc0 0, HD 0x0f 1 0xc0 0,
      HD 0x18 1 0xc0 0, HD 0x1f 1 0xc0 0, HD 0x29 1 0xc0 0, HD 0x38 1 0xc0 1,
      HD 0x03 1 0xc1 0, HD 0x06 1 0xc1 0, HD 0x0a 1 0xc1 0, HD 0x0f 1 0xc1 0,
      HD 0x18 1 0xc1 0, HD 0x1f 1 0xc1 0, HD 0x29 1 0xc1 0, HD 0x38 1 0xc1 1],
     [HD 0x03 1 0xc8 0, HD 0x06 1 0xc8 0, HD 0x0a 1 0xc8 0, HD 0x0f 1 0xc8 0,
      HD 0x18 1 0xc8 0, HD 0x1f 1 0xc8 0, HD 0x29 1 0xc8 0, HD 0x38 1 0xc8 1,
      HD 0x03 1 0xc9 0, HD 0x06 1 0xc9 0, HD 0x0a 1 0xc9 0, HD 0x0f 1 0xc9 0,
      HD 0x18 1 0xc9 0, HD 0x1f 1 0xc9 0, HD 0x29 1 0xc9 0, HD 0x38 1 0xc9 1]]"

definition huff_rows_14 :: "huff_decode_code list list" where
  "huff_rows_14 = [
     [HD 0x02 1 0xca 0, HD 0x09 1 0xca 0, HD 0x17 1 0xca 0, HD 0x28 1 0xca 1,
      HD 0x02 1 0xcd 0, HD 0x09 1 0xcd 0, HD 0x17 1 0xcd 0, HD 0x28 1 0xcd 1,
      HD 0x02 1 0xd2 0, HD 0x09 1 0xd2 0, HD 0x17 1 0xd2 0, HD 0x28 1 0xd2 1,
      HD 0x02 1 0xd5 0, HD 0x09 1 0xd5 0, HD 0x17 1 0xd5 0, HD 0x28 1 0xd5 1],
     [HD 0x03 1 0xca 0, HD 0x06 1 0xca 0, HD 0x0a 1 0xca 0, HD 0x0f 1 0xca 0,
      HD 0x18 1 0xca 0, HD 0x1f 1 0xca 0, HD 0x29 1 0xca 0, HD 0x38 1 0xca 1,
      HD 0x03 1 0xcd 0, HD 0x06 1 0xcd 0, HD 0x0a 1 0xcd 0, HD 0x0f 1 0xcd 0,
      HD 0x18 1 0xcd 0, HD 0x1f 1 0xcd 0, HD 0x29 1 0xcd 0, HD 0x38 1 0xcd 1],
     [HD 0x03 1 0xd2 0, HD 0x06 1 0xd2 0, HD 0x0a 1 0xd2 0, HD 0x0f 1 0xd2 0,
      HD 0x18 1 0xd2 0, HD 0x1f 1 0xd2 0, HD 0x29 1 0xd2 0, HD 0x38 1 0xd2 1,
      HD 0x03 1 0xd5 0, HD 0x06 1 0xd5 0, HD 0x0a 1 0xd5 0, HD 0x0f 1 0xd5 0,
      HD 0x18 1 0xd5 0, HD 0x1f 1 0xd5 0, HD 0x29 1 0xd5 0, HD 0x38 1 0xd5 1],
     [HD 0x01 1 0xda 0, HD 0x16 1 0xda 1, HD 0x01 1 0xdb 0, HD 0x16 1 0xdb 1,
      HD 0x01 1 0xee 0, HD 0x16 1 0xee 1, HD 0x01 1 0xf0 0, HD 0x16 1 0xf0 1,
      HD 0x01 1 0xf2 0, HD 0x16 1 0xf2 1, HD 0x01 1 0xf3 0, HD 0x16 1 0xf3 1,
      HD 0x01 1 0xff 0, HD 0x16 1 0xff 1, HD 0x00 1 0xcb 1, HD 0x00 1 0xcc 1],
     [HD 0x02 1 0xda 0, HD 0x09 1 0xda 0, HD 0x17 1 0xda 0, HD 0x28 1 0xda 1,
      HD 0x02 1 0xdb 0, HD 0x09 1 0xdb 0, HD 0x17 1 0xdb 0, HD 0x28 1 0xdb 1,
      HD 0x02 1 0xee 0, HD 0x09 1 0xee 0, HD 0x17 1 0xee 0, HD 0x28 1 0xee 1,
      HD 0x02 1 0xf0 0, HD 0x09 1 0xf0 0, HD 0x17 1 0xf0 0, HD 0x28 1 0xf0 1],
     [HD 0x03 1 0xda 0, HD 0x06 1 0xda 0, HD 0x0a 1 0xda 0, HD 0x0f 1 0xda 0,
      HD 0x18 1 0xda 0, HD 0x1f 1 0xda 0, HD 0x29 1 0xda 0, HD 0x38 1 0xda 1,
      HD 0x03 1 0xdb 0, HD 0x06 1 0xdb 0, HD 0x0a 1 0xdb 0, HD 0x0f 1 0xdb 0,
      HD 0x18 1 0xdb 0, HD 0x1f 1 0xdb 0, HD 0x29 1 0xdb 0, HD 0x38 1 0xdb 1],
     [HD 0x03 1 0xee 0, HD 0x06 1 0xee 0, HD 0x0a 1 0xee 0, HD 0x0f 1 0xee 0,
      HD 0x18 1 0xee 0, HD 0x1f 1 0xee 0, HD 0x29 1 0xee 0, HD 0x38 1 0xee 1,
      HD 0x03 1 0xf0 0, HD 0x06 1 0xf0 0, HD 0x0a 1 0xf0 0, HD 0x0f 1 0xf0 0,
      HD 0x18 1 0xf0 0, HD 0x1f 1 0xf0 0, HD 0x29 1 0xf0 0, HD 0x38 1 0xf0 1],
     [HD 0x02 1 0xf2 0, HD 0x09 1 0xf2 0, HD 0x17 1 0xf2 0, HD 0x28 1 0xf2 1,
      HD 0x02 1 0xf3 0, HD 0x09 1 0xf3 0, HD 0x17 1 0xf3 0, HD 0x28 1 0xf3 1,
      HD 0x02 1 0xff 0, HD 0x09 1 0xff 0, HD 0x17 1 0xff 0, HD 0x28 1 0xff 1,
      HD 0x01 1 0xcb 0, HD 0x16 1 0xcb 1, HD 0x01 1 0xcc 0, HD 0x16 1 0xcc 1],
     [HD 0x03 1 0xf2 0, HD 0x06 1 0xf2 0, HD 0x0a 1 0xf2 0, HD 0x0f 1 0xf2 0,
      HD 0x18 1 0xf2 0, HD 0x1f 1 0xf2 0, HD 0x29 1 0xf2 0, HD 0x38 1 0xf2 1,
      HD 0x03 1 0xf3 0, HD 0x06 1 0xf3 0, HD 0x0a 1 0xf3 0, HD 0x0f 1 0xf3 0,
      HD 0x18 1 0xf3 0, HD 0x1f 1 0xf3 0, HD 0x29 1 0xf3 0, HD 0x38 1 0xf3 1],
     [HD 0x03 1 0xff 0, HD 0x06 1 0xff 0, HD 0x0a 1 0xff 0, HD 0x0f 1 0xff 0,
      HD 0x18 1 0xff 0, HD 0x1f 1 0xff 0, HD 0x29 1 0xff 0, HD 0x38 1 0xff 1,
      HD 0x02 1 0xcb 0, HD 0x09 1 0xcb 0, HD 0x17 1 0xcb 0, HD 0x28 1 0xcb 1,
      HD 0x02 1 0xcc 0, HD 0x09 1 0xcc 0, HD 0x17 1 0xcc 0, HD 0x28 1 0xcc 1],
     [HD 0x03 1 0xcb 0, HD 0x06 1 0xcb 0, HD 0x0a 1 0xcb 0, HD 0x0f 1 0xcb 0,
      HD 0x18 1 0xcb 0, HD 0x1f 1 0xcb 0, HD 0x29 1 0xcb 0, HD 0x38 1 0xcb 1,
      HD 0x03 1 0xcc 0, HD 0x06 1 0xcc 0, HD 0x0a 1 0xcc 0, HD 0x0f 1 0xcc 0,
      HD 0x18 1 0xcc 0, HD 0x1f 1 0xcc 0, HD 0x29 1 0xcc 0, HD 0x38 1 0xcc 1],
     [HD 0xd3 0 0x00 0, HD 0xd4 0 0x00 0, HD 0xd6 0 0x00 0, HD 0xd7 0 0x00 0,
      HD 0xda 0 0x00 0, HD 0xdb 0 0x00 0, HD 0xdd 0 0x00 0, HD 0xde 0 0x00 0,
      HD 0xe2 0 0x00 0, HD 0xe4 0 0x00 0, HD 0xe8 0 0x00 0, HD 0xeb 0 0x00 0,
      HD 0xf0 0 0x00 0, HD 0xf3 0 0x00 0, HD 0xf7 0 0x00 0, HD 0xfa 0 0x00 1],
     [HD 0x00 1 0xd3 1, HD 0x00 1 0xd4 1, HD 0x00 1 0xd6 1, HD 0x00 1 0xdd 1,
      HD 0x00 1 0xde 1, HD 0x00 1 0xdf 1, HD 0x00 1 0xf1 1, HD 0x00 1 0xf4 1,
      HD 0x00 1 0xf5 1, HD 0x00 1 0xf6 1, HD 0x00 1 0xf7 1, HD 0x00 1 0xf8 1,
      HD 0x00 1 0xfa 1, HD 0x00 1 0xfb 1, HD 0x00 1 0xfc 1, HD 0x00 1 0xfd 1],
     [HD 0x01 1 0xd3 0, HD 0x16 1 0xd3 1, HD 0x01 1 0xd4 0, HD 0x16 1 0xd4 1,
      HD 0x01 1 0xd6 0, HD 0x16 1 0xd6 1, HD 0x01 1 0xdd 0, HD 0x16 1 0xdd 1,
      HD 0x01 1 0xde 0, HD 0x16 1 0xde 1, HD 0x01 1 0xdf 0, HD 0x16 1 0xdf 1,
      HD 0x01 1 0xf1 0, HD 0x16 1 0xf1 1, HD 0x01 1 0xf4 0, HD 0x16 1 0xf4 1]]"

definition huff_rows_15 :: "huff_decode_code list list" where
  "huff_rows_15 = [
     [HD 0x02 1 0xd3 0, HD 0x09 1 0xd3 0, HD 0x17 1 0xd3 0, HD 0x28 1 0xd3 1,
      HD 0x02 1 0xd4 0, HD 0x09 1 0xd4 0, HD 0x17 1 0xd4 0, HD 0x28 1 0xd4 1,
      HD 0x02 1 0xd6 0, HD 0x09 1 0xd6 0, HD 0x17 1 0xd6 0, HD 0x28 1 0xd6 1,
      HD 0x02 1 0xdd 0, HD 0x09 1 0xdd 0, HD 0x17 1 0xdd 0, HD 0x28 1 0xdd 1],
     [HD 0x03 1 0xd3 0, HD 0x06 1 0xd3 0, HD 0x0a 1 0xd3 0, HD 0x0f 1 0xd3 0,
      HD 0x18 1 0xd3 0, HD 0x1f 1 0xd3 0, HD 0x29 1 0xd3 0, HD 0x38 1 0xd3 1,
      HD 0x03 1 0xd4 0, HD 0x06 1 0xd4 0, HD 0x0a 1 0xd4 0, HD 0x0f 1 0xd4 0,
      HD 0x18 1 0xd4 0, HD 0x1f 1 0xd4 0, HD 0x29 1 0xd4 0, HD 0x38 1 0xd4 1],
     [HD 0x03 1 0xd6 0, HD 0x06 1 0xd6 0, HD 0x0a 1 0xd6 0, HD 0x0f 1 0xd6 0,
      HD 0x18 1 0xd6 0, HD 0x1f 1 0xd6 0, HD 0x29 1 0xd6 0, HD 0x38 1 0xd6 1,
      HD 0x03 1 0xdd 0, HD 0x06 1 0xdd 0, HD 0x0a 1 0xdd 0, HD 0x0f 1 0xdd 0,
      HD 0x18 1 0xdd 0, HD 0x1f 1 0xdd 0, HD 0x29 1 0xdd 0, HD 0x38 1 0xdd 1],
     [HD 0x02 1 0xde 0, HD 0x09 1 0xde 0, HD 0x17 1 0xde 0, HD 0x28 1 0xde 1,
      HD 0x02 1 0xdf 0, HD 0x09 1 0xdf 0, HD 0x17 1 0xdf 0, HD 0x28 1 0xdf 1,
      HD 0x02 1 0xf1 0, HD 0x09 1 0xf1 0, HD 0x17 1 0xf1 0, HD 0x28 1 0xf1 1,
      HD 0x02 1 0xf4 0, HD 0x09 1 0xf4 0, HD 0x17 1 0xf4 0, HD 0x28 1 0xf4 1],
     [HD 0x03 1 0xde 0, HD 0x06 1 0xde 0, HD 0x0a 1 0xde 0, HD 0x0f 1 0xde 0,
      HD 0x18 1 0xde 0, HD 0x1f 1 0xde 0, HD 0x29 1 0xde 0, HD 0x38 1 0xde 1,
      HD 0x03 1 0xdf 0, HD 0x06 1 0xdf 0, HD 0x0a 1 0xdf 0, HD 0x0f 1 0xdf 0,
      HD 0x18 1 0xdf 0, HD 0x1f 1 0xdf 0, HD 0x29 1 0xdf 0, HD 0x38 1 0xdf 1],
     [HD 0x03 1 0xf1 0, HD 0x06 1 0xf1 0, HD 0x0a 1 0xf1 0, HD 0x0f 1 0xf1 0,
      HD 0x18 1 0xf1 0, HD 0x1f 1 0xf1 0, HD 0x29 1 0xf1 0, HD 0x38 1 0xf1 1,
      HD 0x03 1 0xf4 0, HD 0x06 1 0xf4 0, HD 0x0a 1 0xf4 0, HD 0x0f 1 0xf4 0,
      HD 0x18 1 0xf4 0, HD 0x1f 1 0xf4 0, HD 0x29 1 0xf4 0, HD 0x38 1 0xf4 1],
     [HD 0x01 1 0xf5 0, HD 0x16 1 0xf5 1, HD 0x01 1 0xf6 0, HD 0x16 1 0xf6 1,
      HD 0x01 1 0xf7 0, HD 0x16 1 0xf7 1, HD 0x01 1 0xf8 0, HD 0x16 1 0xf8 1,
      HD 0x01 1 0xfa 0, HD 0x16 1 0xfa 1, HD 0x01 1 0xfb 0, HD 0x16 1 0xfb 1,
      HD 0x01 1 0xfc 0, HD 0x16 1 0xfc 1, HD 0x01 1 0xfd 0, HD 0x16 1 0xfd 1],
     [HD 0x02 1 0xf5 0, HD 0x09 1 0xf5 0, HD 0x17 1 0xf5 0, HD 0x28 1 0xf5 1,
      HD 0x02 1 0xf6 0, HD 0x09 1 0xf6 0, HD 0x17 1 0xf6 0, HD 0x28 1 0xf6 1,
      HD 0x02 1 0xf7 0, HD 0x09 1 0xf7 0, HD 0x17 1 0xf7 0, HD 0x28 1 0xf7 1,
      HD 0x02 1 0xf8 0, HD 0x09 1 0xf8 0, HD 0x17 1 0xf8 0, HD 0x28 1 0xf8 1],
     [HD 0x03 1 0xf5 0, HD 0x06 1 0xf5 0, HD 0x0a 1 0xf5 0, HD 0x0f 1 0xf5 0,
      HD 0x18 1 0xf5 0, HD 0x1f 1 0xf5 0, HD 0x29 1 0xf5 0, HD 0x38 1 0xf5 1,
      HD 0x03 1 0xf6 0, HD 0x06 1 0xf6 0, HD 0x0a 1 0xf6 0, HD 0x0f 1 0xf6 0,
      HD 0x18 1 0xf6 0, HD 0x1f 1 0xf6 0, HD 0x29 1 0xf6 0, HD 0x38 1 0xf6 1],
     [HD 0x03 1 0xf7 0, HD 0x06 1 0xf7 0, HD 0x0a 1 0xf7 0, HD 0x0f 1 0xf7 0,
      HD 0x18 1 0xf7 0, HD 0x1f 1 0xf7 0, HD 0x29 1 0xf7 0, HD 0x38 1 0xf7 1,
      HD 0x03 1 0xf8 0, HD 0x06 1 0xf8 0, HD 0x0a 1 0xf8 0, HD 0x0f 1 0xf8 0,
      HD 0x18 1 0xf8 0, HD 0x1f 1 0xf8 0, HD 0x29 1 0xf8 0, HD 0x38 1 0xf8 1],
     [HD 0x02 1 0xfa 0, HD 0x09 1 0xfa 0, HD 0x17 1 0xfa 0, HD 0x28 1 0xfa 1,
      HD 0x02 1 0xfb 0, HD 0x09 1 0xfb 0, HD 0x17 1 0xfb 0, HD 0x28 1 0xfb 1,
      HD 0x02 1 0xfc 0, HD 0x09 1 0xfc 0, HD 0x17 1 0xfc 0, HD 0x28 1 0xfc 1,
      HD 0x02 1 0xfd 0, HD 0x09 1 0xfd 0, HD 0x17 1 0xfd 0, HD 0x28 1 0xfd 1],
     [HD 0x03 1 0xfa 0, HD 0x06 1 0xfa 0, HD 0x0a 1 0xfa 0, HD 0x0f 1 0xfa 0,
      HD 0x18 1 0xfa 0, HD 0x1f 1 0xfa 0, HD 0x29 1 0xfa 0, HD 0x38 1 0xfa 1,
      HD 0x03 1 0xfb 0, HD 0x06 1 0xfb 0, HD 0x0a 1 0xfb 0, HD 0x0f 1 0xfb 0,
      HD 0x18 1 0xfb 0, HD 0x1f 1 0xfb 0, HD 0x29 1 0xfb 0, HD 0x38 1 0xfb 1],
     [HD 0x03 1 0xfc 0, HD 0x06 1 0xfc 0, HD 0x0a 1 0xfc 0, HD 0x0f 1 0xfc 0,
      HD 0x18 1 0xfc 0, HD 0x1f 1 0xfc 0, HD 0x29 1 0xfc 0, HD 0x38 1 0xfc 1,
      HD 0x03 1 0xfd 0, HD 0x06 1 0xfd 0, HD 0x0a 1 0xfd 0, HD 0x0f 1 0xfd 0,
      HD 0x18 1 0xfd 0, HD 0x1f 1 0xfd 0, HD 0x29 1 0xfd 0, HD 0x38 1 0xfd 1],
     [HD 0x00 1 0xfe 1, HD 0xe3 0 0x00 0, HD 0xe5 0 0x00 0, HD 0xe6 0 0x00 0,
      HD 0xe9 0 0x00 0, HD 0xea 0 0x00 0, HD 0xec 0 0x00 0, HD 0xed 0 0x00 0,
      HD 0xf1 0 0x00 0, HD 0xf2 0 0x00 0, HD 0xf4 0 0x00 0, HD 0xf5 0 0x00 0,
      HD 0xf8 0 0x00 0, HD 0xf9 0 0x00 0, HD 0xfb 0 0x00 0, HD 0xfc 0 0x00 1]]"

definition huff_rows_16 :: "huff_decode_code list list" where
  "huff_rows_16 = [
     [HD 0x01 1 0xfe 0, HD 0x16 1 0xfe 1, HD 0x00 1 0x02 1, HD 0x00 1 0x03 1,
      HD 0x00 1 0x04 1, HD 0x00 1 0x05 1, HD 0x00 1 0x06 1, HD 0x00 1 0x07 1,
      HD 0x00 1 0x08 1, HD 0x00 1 0x0b 1, HD 0x00 1 0x0c 1, HD 0x00 1 0x0e 1,
      HD 0x00 1 0x0f 1, HD 0x00 1 0x10 1, HD 0x00 1 0x11 1, HD 0x00 1 0x12 1],
     [HD 0x02 1 0xfe 0, HD 0x09 1 0xfe 0, HD 0x17 1 0xfe 0, HD 0x28 1 0xfe 1,
      HD 0x01 1 0x02 0, HD 0x16 1 0x02 1, HD 0x01 1 0x03 0, HD 0x16 1 0x03 1,
      HD 0x01 1 0x04 0, HD 0x16 1 0x04 1, HD 0x01 1 0x05 0, HD 0x16 1 0x05 1,
      HD 0x01 1 0x06 0, HD 0x16 1 0x06 1, HD 0x01 1 0x07 0, HD 0x16 1 0x07 1],
     [HD 0x03 1 0xfe 0, HD 0x06 1 0xfe 0, HD 0x0a 1 0xfe 0, HD 0x0f 1 0xfe 0,
      HD 0x18 1 0xfe 0, HD 0x1f 1 0xfe 0, HD 0x29 1 0xfe 0, HD 0x38 1 0xfe 1,
      HD 0x02 1 0x02 0, HD 0x09 1 0x02 0, HD 0x17 1 0x02 0, HD 0x28 1 0x02 1,
      HD 0x02 1 0x03 0, HD 0x09 1 0x03 0, HD 0x17 1 0x03 0, HD 0x28 1 0x03 1],
     [HD 0x03 1 0x02 0, HD 0x06 1 0x02 0, HD 0x0a 1 0x02 0, HD 0x0f 1 0x02 0,
      HD 0x18 1 0x02 0, HD 0x1f 1 0x02 0, HD 0x29 1 0x02 0, HD 0x38 1 0x02 1,
      HD 0x03 1 0x03 0, HD 0x06 1 0x03 0, HD 0x0a 1 0x03 0, HD 0x0f 1 0x03 0,
      HD 0x18 1 0x03 0, HD 0x1f 1 0x03 0, HD 0x29 1 0x03 0, HD 0x38 1 0x03 1],
     [HD 0x02 1 0x04 0, HD 0x09 1 0x04 0, HD 0x17 1 0x04 0, HD 0x28 1 0x04 1,
      HD 0x02 1 0x05 0, HD 0x09 1 0x05 0, HD 0x17 1 0x05 0, HD 0x28 1 0x05 1,
      HD 0x02 1 0x06 0, HD 0x09 1 0x06 0, HD 0x17 1 0x06 0, HD 0x28 1 0x06 1,
      HD 0x02 1 0x07 0, HD 0x09 1 0x07 0, HD 0x17 1 0x07 0, HD 0x28 1 0x07 1],
     [HD 0x03 1 0x04 0, HD 0x06 1 0x04 0, HD 0x0a 1 0x04 0, HD 0x0f 1 0x04 0,
      HD 0x18 1 0x04 0, HD 0x1f 1 0x04 0, HD 0x29 1 0x04 0, HD 0x38 1 0x04 1,
      HD 0x03 1 0x05 0, HD 0x06 1 0x05 0, HD 0x0a 1 0x05 0, HD 0x0f 1 0x05 0,
      HD 0x18 1 0x05 0, HD 0x1f 1 0x05 0, HD 0x29 1 0x05 0, HD 0x38 1 0x05 1],
     [HD 0x03 1 0x06 0, HD 0x06 1 0x06 0, HD 0x0a 1 0x06 0, HD 0x0f 1 0x06 0,
      HD 0x18 1 0x06 0, HD 0x1f 1 0x06 0, HD 0x29 1 0x06 0, HD 0x38 1 0x06 1,
      HD 0x03 1 0x07 0, HD 0x06 1 0x07 0, HD 0x0a 1 0x07 0, HD 0x0f 1 0x07 0,
      HD 0x18 1 0x07 0, HD 0x1f 1 0x07 0, HD 0x29 1 0x07 0, HD 0x38 1 0x07 1],
     [HD 0x01 1 0x08 0, HD 0x16 1 0x08 1, HD 0x01 1 0x0b 0, HD 0x16 1 0x0b 1,
      HD 0x01 1 0x0c 0, HD 0x16 1 0x0c 1, HD 0x01 1 0x0e 0, HD 0x16 1 0x0e 1,
      HD 0x01 1 0x0f 0, HD 0x16 1 0x0f 1, HD 0x01 1 0x10 0, HD 0x16 1 0x10 1,
      HD 0x01 1 0x11 0, HD 0x16 1 0x11 1, HD 0x01 1 0x12 0, HD 0x16 1 0x12 1],
     [HD 0x02 1 0x08 0, HD 0x09 1 0x08 0, HD 0x17 1 0x08 0, HD 0x28 1 0x08 1,
      HD 0x02 1 0x0b 0, HD 0x09 1 0x0b 0, HD 0x17 1 0x0b 0, HD 0x28 1 0x0b 1,
      HD 0x02 1 0x0c 0, HD 0x09 1 0x0c 0, HD 0x17 1 0x0c 0, HD 0x28 1 0x0c 1,
      HD 0x02 1 0x0e 0, HD 0x09 1 0x0e 0, HD 0x17 1 0x0e 0, HD 0x28 1 0x0e 1],
     [HD 0x03 1 0x08 0, HD 0x06 1 0x08 0, HD 0x0a 1 0x08 0, HD 0x0f 1 0x08 0,
      HD 0x18 1 0x08 0, HD 0x1f 1 0x08 0, HD 0x29 1 0x08 0, HD 0x38 1 0x08 1,
      HD 0x03 1 0x0b 0, HD 0x06 1 0x0b 0, HD 0x0a 1 0x0b 0, HD 0x0f 1 0x0b 0,
      HD 0x18 1 0x0b 0, HD 0x1f 1 0x0b 0, HD 0x29 1 0x0b 0, HD 0x38 1 0x0b 1],
     [HD 0x03 1 0x0c 0, HD 0x06 1 0x0c 0, HD 0x0a 1 0x0c 0, HD 0x0f 1 0x0c 0,
      HD 0x18 1 0x0c 0, HD 0x1f 1 0x0c 0, HD 0x29 1 0x0c 0, HD 0x38 1 0x0c 1,
      HD 0x03 1 0x0e 0, HD 0x06 1 0x0e 0, HD 0x0a 1 0x0e 0, HD 0x0f 1 0x0e 0,
      HD 0x18 1 0x0e 0, HD 0x1f 1 0x0e 0, HD 0x29 1 0x0e 0, HD 0x38 1 0x0e 1],
     [HD 0x02 1 0x0f 0, HD 0x09 1 0x0f 0, HD 0x17 1 0x0f 0, HD 0x28 1 0x0f 1,
      HD 0x02 1 0x10 0, HD 0x09 1 0x10 0, HD 0x17 1 0x10 0, HD 0x28 1 0x10 1,
      HD 0x02 1 0x11 0, HD 0x09 1 0x11 0, HD 0x17 1 0x11 0, HD 0x28 1 0x11 1,
      HD 0x02 1 0x12 0, HD 0x09 1 0x12 0, HD 0x17 1 0x12 0, HD 0x28 1 0x12 1],
     [HD 0x03 1 0x0f 0, HD 0x06 1 0x0f 0, HD 0x0a 1 0x0f 0, HD 0x0f 1 0x0f 0,
      HD 0x18 1 0x0f 0, HD 0x1f 1 0x0f 0, HD 0x29 1 0x0f 0, HD 0x38 1 0x0f 1,
      HD 0x03 1 0x10 0, HD 0x06 1 0x10 0, HD 0x0a 1 0x10 0, HD 0x0f 1 0x10 0,
      HD 0x18 1 0x10 0, HD 0x1f 1 0x10 0, HD 0x29 1 0x10 0, HD 0x38 1 0x10 1],
     [HD 0x03 1 0x11 0, HD 0x06 1 0x11 0, HD 0x0a 1 0x11 0, HD 0x0f 1 0x11 0,
      HD 0x18 1 0x11 0, HD 0x1f 1 0x11 0, HD 0x29 1 0x11 0, HD 0x38 1 0x11 1,
      HD 0x03 1 0x12 0, HD 0x06 1 0x12 0, HD 0x0a 1 0x12 0, HD 0x0f 1 0x12 0,
      HD 0x18 1 0x12 0, HD 0x1f 1 0x12 0, HD 0x29 1 0x12 0, HD 0x38 1 0x12 1]]"

definition huff_rows_17 :: "huff_decode_code list list" where
  "huff_rows_17 = [
     [HD 0x00 1 0x13 1, HD 0x00 1 0x14 1, HD 0x00 1 0x15 1, HD 0x00 1 0x17 1,
      HD 0x00 1 0x18 1, HD 0x00 1 0x19 1, HD 0x00 1 0x1a 1, HD 0x00 1 0x1b 1,
      HD 0x00 1 0x1c 1, HD 0x00 1 0x1d 1, HD 0x00 1 0x1e 1, HD 0x00 1 0x1f 1,
      HD 0x00 1 0x7f 1, HD 0x00 1 0xdc 1, HD 0x00 1 0xf9 1, HD 0xfd 0 0x00 1],
     [HD 0x01 1 0x13 0, HD 0x16 1 0x13 1, HD 0x01 1 0x14 0, HD 0x16 1 0x14 1,
      HD 0x01 1 0x15 0, HD 0x16 1 0x15 1, HD 0x01 1 0x17 0, HD 0x16 1 0x17 1,
      HD 0x01 1 0x18 0, HD 0x16 1 0x18 1, HD 0x01 1 0x19 0, HD 0x16 1 0x19 1,
      HD 0x01 1 0x1a 0, HD 0x16 1 0x1a 1, HD 0x01 1 0x1b 0, HD 0x16 1 0x1b 1],
     [HD 0x02 1 0x13 0, HD 0x09 1 0x13 0, HD 0x17 1 0x13 0, HD 0x28 1 0x13 1,
      HD 0x02 1 0x14 0, HD 0x09 1 0x14 0, HD 0x17 1 0x14 0, HD 0x28 1 0x14 1,
      HD 0x02 1 0x15 0, HD 0x09 1 0x15 0, HD 0x17 1 0x15 0, HD 0x28 1 0x15 1,
      HD 0x02 1 0x17 0, HD 0x09 1 0x17 0, HD 0x17 1 0x17 0, HD 0x28 1 0x17 1],
     [HD 0x03 1 0x13 0, HD 0x06 1 0x13 0, HD 0x0a 1 0x13 0, HD 0x0f 1 0x13 0,
      HD 0x18 1 0x13 0, HD 0x1f 1 0x13 0, HD 0x29 1 0x13 0, HD 0x38 1 0x13 1,
      HD 0x03 1 0x14 0, HD 0x06 1 0x14 0, HD 0x0a 1 0x14 0, HD 0x0f 1 0x14 0,
      HD 0x18 1 0x14 0, HD 0x1f 1 0x14 0, HD 0x29 1 0x14 0, HD 0x38 1 0x14 1],
     [HD 0x03 1 0x15 0, HD 0x06 1 0x15 0, HD 0x0a 1 0x15 0, HD 0x0f 1 0x15 0,
      HD 0x18 1 0x15 0, HD 0x1f 1 0x15 0, HD 0x29 1 0x15 0, HD 0x38 1 0x15 1,
      HD 0x03 1 0x17 0, HD 0x06 1 0x17 0, HD 0x0a 1 0x17 0, HD 0x0f 1 0x17 0,
      HD 0x18 1 0x17 0, HD 0x1f 1 0x17 0, HD 0x29 1 0x17 0, HD 0x38 1 0x17 1],
     [HD 0x02 1 0x18 0, HD 0x09 1 0x18 0, HD 0x17 1 0x18 0, HD 0x28 1 0x18 1,
      HD 0x02 1 0x19 0, HD 0x09 1 0x19 0, HD 0x17 1 0x19 0, HD 0x28 1 0x19 1,
      HD 0x02 1 0x1a 0, HD 0x09 1 0x1a 0, HD 0x17 1 0x1a 0, HD 0x28 1 0x1a 1,
      HD 0x02 1 0x1b 0, HD 0x09 1 0x1b 0, HD 0x17 1 0x1b 0, HD 0x28 1 0x1b 1],
     [HD 0x03 1 0x18 0, HD 0x06 1 0x18 0, HD 0x0a 1 0x18 0, HD 0x0f 1 0x18 0,
      HD 0x18 1 0x18 0, HD 0x1f 1 0x18 0, HD 0x29 1 0x18 0, HD 0x38 1 0x18 1,
      HD 0x03 1 0x19 0, HD 0x06 1 0x19 0, HD 0x0a 1 0x19 0, HD 0x0f 1 0x19 0,
      HD 0x18 1 0x19 0, HD 0x1f 1 0x19 0, HD 0x29 1 0x19 0, HD 0x38 1 0x19 1],
     [HD 0x03 1 0x1a 0, HD 0x06 1 0x1a 0, HD 0x0a 1 0x1a 0, HD 0x0f 1 0x1a 0,
      HD 0x18 1 0x1a 0, HD 0x1f 1 0x1a 0, HD 0x29 1 0x1a 0, HD 0x38 1 0x1a 1,
      HD 0x03 1 0x1b 0, HD 0x06 1 0x1b 0, HD 0x0a 1 0x1b 0, HD 0x0f 1 0x1b 0,
      HD 0x18 1 0x1b 0, HD 0x1f 1 0x1b 0, HD 0x29 1 0x1b 0, HD 0x38 1 0x1b 1],
     [HD 0x01 1 0x1c 0, HD 0x16 1 0x1c 1, HD 0x01 1 0x1d 0, HD 0x16 1 0x1d 1,
      HD 0x01 1 0x1e 0, HD 0x16 1 0x1e 1, HD 0x01 1 0x1f 0, HD 0x16 1 0x1f 1,
      HD 0x01 1 0x7f 0, HD 0x16 1 0x7f 1, HD 0x01 1 0xdc 0, HD 0x16 1 0xdc 1,
      HD 0x01 1 0xf9 0, HD 0x16 1 0xf9 1, HD 0xfe 0 0x00 0, HD 0xff 0 0x00 1],
     [HD 0x02 1 0x1c 0, HD 0x09 1 0x1c 0, HD 0x17 1 0x1c 0, HD 0x28 1 0x1c 1,
      HD 0x02 1 0x1d 0, HD 0x09 1 0x1d 0, HD 0x17 1 0x1d 0, HD 0x28 1 0x1d 1,
      HD 0x02 1 0x1e 0, HD 0x09 1 0x1e 0, HD 0x17 1 0x1e 0, HD 0x28 1 0x1e 1,
      HD 0x02 1 0x1f 0, HD 0x09 1 0x1f 0, HD 0x17 1 0x1f 0, HD 0x28 1 0x1f 1],
     [HD 0x03 1 0x1c 0, HD 0x06 1 0x1c 0, HD 0x0a 1 0x1c 0, HD 0x0f 1 0x1c 0,
      HD 0x18 1 0x1c 0, HD 0x1f 1 0x1c 0, HD 0x29 1 0x1c 0, HD 0x38 1 0x1c 1,
      HD 0x03 1 0x1d 0, HD 0x06 1 0x1d 0, HD 0x0a 1 0x1d 0, HD 0x0f 1 0x1d 0,
      HD 0x18 1 0x1d 0, HD 0x1f 1 0x1d 0, HD 0x29 1 0x1d 0, HD 0x38 1 0x1d 1],
     [HD 0x03 1 0x1e 0, HD 0x06 1 0x1e 0, HD 0x0a 1 0x1e 0, HD 0x0f 1 0x1e 0,
      HD 0x18 1 0x1e 0, HD 0x1f 1 0x1e 0, HD 0x29 1 0x1e 0, HD 0x38 1 0x1e 1,
      HD 0x03 1 0x1f 0, HD 0x06 1 0x1f 0, HD 0x0a 1 0x1f 0, HD 0x0f 1 0x1f 0,
      HD 0x18 1 0x1f 0, HD 0x1f 1 0x1f 0, HD 0x29 1 0x1f 0, HD 0x38 1 0x1f 1],
     [HD 0x02 1 0x7f 0, HD 0x09 1 0x7f 0, HD 0x17 1 0x7f 0, HD 0x28 1 0x7f 1,
      HD 0x02 1 0xdc 0, HD 0x09 1 0xdc 0, HD 0x17 1 0xdc 0, HD 0x28 1 0xdc 1,
      HD 0x02 1 0xf9 0, HD 0x09 1 0xf9 0, HD 0x17 1 0xf9 0, HD 0x28 1 0xf9 1,
      HD 0x00 1 0x0a 1, HD 0x00 1 0x0d 1, HD 0x00 1 0x16 1, HD 0xfa 0 0x00 0],
     [HD 0x03 1 0x7f 0, HD 0x06 1 0x7f 0, HD 0x0a 1 0x7f 0, HD 0x0f 1 0x7f 0,
      HD 0x18 1 0x7f 0, HD 0x1f 1 0x7f 0, HD 0x29 1 0x7f 0, HD 0x38 1 0x7f 1,
      HD 0x03 1 0xdc 0, HD 0x06 1 0xdc 0, HD 0x0a 1 0xdc 0, HD 0x0f 1 0xdc 0,
      HD 0x18 1 0xdc 0, HD 0x1f 1 0xdc 0, HD 0x29 1 0xdc 0, HD 0x38 1 0xdc 1]]"

definition huff_rows_18 :: "huff_decode_code list list" where
  "huff_rows_18 = [
     [HD 0x03 1 0xf9 0, HD 0x06 1 0xf9 0, HD 0x0a 1 0xf9 0, HD 0x0f 1 0xf9 0,
      HD 0x18 1 0xf9 0, HD 0x1f 1 0xf9 0, HD 0x29 1 0xf9 0, HD 0x38 1 0xf9 1,
      HD 0x01 1 0x0a 0, HD 0x16 1 0x0a 1, HD 0x01 1 0x0d 0, HD 0x16 1 0x0d 1,
      HD 0x01 1 0x16 0, HD 0x16 1 0x16 1, HD 0xfc 0 0x00 0, HD 0xfc 0 0x00 0],
     [HD 0x02 1 0x0a 0, HD 0x09 1 0x0a 0, HD 0x17 1 0x0a 0, HD 0x28 1 0x0a 1,
      HD 0x02 1 0x0d 0, HD 0x09 1 0x0d 0, HD 0x17 1 0x0d 0, HD 0x28 1 0x0d 1,
      HD 0x02 1 0x16 0, HD 0x09 1 0x16 0, HD 0x17 1 0x16 0, HD 0x28 1 0x16 1,
      HD 0xfd 0 0x00 0, HD 0xfd 0 0x00 0, HD 0xfd 0 0x00 0, HD 0xfd 0 0x00 0],
     [HD 0x03 1 0x0a 0, HD 0x06 1 0x0a 0, HD 0x0a 1 0x0a 0, HD 0x0f 1 0x0a 0,
      HD 0x18 1 0x0a 0, HD 0x1f 1 0x0a 0, HD 0x29 1 0x0a 0, HD 0x38 1 0x0a 1,
      HD 0x03 1 0x0d 0, HD 0x06 1 0x0d 0, HD 0x0a 1 0x0d 0, HD 0x0f 1 0x0d 0,
      HD 0x18 1 0x0d 0, HD 0x1f 1 0x0d 0, HD 0x29 1 0x0d 0, HD 0x38 1 0x0d 1],
     [HD 0x03 1 0x16 0, HD 0x06 1 0x16 0, HD 0x0a 1 0x16 0, HD 0x0f 1 0x16 0,
      HD 0x18 1 0x16 0, HD 0x1f 1 0x16 0, HD 0x29 1 0x16 0, HD 0x38 1 0x16 1,
      HD 0xff 0 0x00 0, HD 0xff 0 0x00 0, HD 0xff 0 0x00 0, HD 0xff 0 0x00 0,
      HD 0xff 0 0x00 0, HD 0xff 0 0x00 0, HD 0xff 0 0x00 0, HD 0xff 0 0x00 0]]"

definition ngx_http_v2_huff_decode_codes :: "huff_decode_code list list" where
  "ngx_http_v2_huff_decode_codes =
     huff_rows_0 @ huff_rows_1 @ huff_rows_2 @ huff_rows_3 @ huff_rows_4 @ huff_rows_5 @ huff_rows_6 @ huff_rows_7 @ huff_rows_8
     @ huff_rows_9 @ huff_rows_10 @ huff_rows_11 @ huff_rows_12 @ huff_rows_13 @ huff_rows_14
     @ huff_rows_15 @ huff_rows_16 @ huff_rows_17 @ huff_rows_18"

section \<open>The codes\<close>

definition ngx_http_v2_huff_encode_table :: "(u32 \<times> nat) list" where
  "ngx_http_v2_huff_encode_table = [
     (0x00001ff8, 13), (0x007fffd8, 23), (0x0fffffe2, 28), (0x0fffffe3, 28),
     (0x0fffffe4, 28), (0x0fffffe5, 28), (0x0fffffe6, 28), (0x0fffffe7, 28),
     (0x0fffffe8, 28), (0x00ffffea, 24), (0x3ffffffc, 30), (0x0fffffe9, 28),
     (0x0fffffea, 28), (0x3ffffffd, 30), (0x0fffffeb, 28), (0x0fffffec, 28),
     (0x0fffffed, 28), (0x0fffffee, 28), (0x0fffffef, 28), (0x0ffffff0, 28),
     (0x0ffffff1, 28), (0x0ffffff2, 28), (0x3ffffffe, 30), (0x0ffffff3, 28),
     (0x0ffffff4, 28), (0x0ffffff5, 28), (0x0ffffff6, 28), (0x0ffffff7, 28),
     (0x0ffffff8, 28), (0x0ffffff9, 28), (0x0ffffffa, 28), (0x0ffffffb, 28),
     (0x00000014,  6), (0x000003f8, 10), (0x000003f9, 10), (0x00000ffa, 12),
     (0x00001ff9, 13), (0x00000015,  6), (0x000000f8,  8), (0x000007fa, 11),
     (0x000003fa, 10), (0x000003fb, 10), (0x000000f9,  8), (0x000007fb, 11),
     (0x000000fa,  8), (0x00000016,  6), (0x00000017,  6), (0x00000018,  6),
     (0x00000000,  5), (0x00000001,  5), (0x00000002,  5), (0x00000019,  6),
     (0x0000001a,  6), (0x0000001b,  6), (0x0000001c,  6), (0x0000001d,  6),
     (0x0000001e,  6), (0x0000001f,  6), (0x0000005c,  7), (0x000000fb,  8),
     (0x00007ffc, 15), (0x00000020,  6), (0x00000ffb, 12), (0x000003fc, 10),
     (0x00001ffa, 13), (0x00000021,  6), (0x0000005d,  7), (0x0000005e,  7),
     (0x0000005f,  7), (0x00000060,  7), (0x00000061,  7), (0x00000062,  7),
     (0x00000063,  7), (0x00000064,  7), (0x00000065,  7), (0x00000066,  7),
     (0x00000067,  7), (0x00000068,  7), (0x00000069,  7), (0x0000006a,  7),
     (0x0000006b,  7), (0x0000006c,  7), (0x0000006d,  7), (0x0000006e,  7),
     (0x0000006f,  7), (0x00000070,  7), (0x00000071,  7), (0x00000072,  7),
     (0x000000fc,  8), (0x00000073,  7), (0x000000fd,  8), (0x00001ffb, 13),
     (0x0007fff0, 19), (0x00001ffc, 13), (0x00003ffc, 14), (0x00000022,  6),
     (0x00007ffd, 15), (0x00000003,  5), (0x00000023,  6), (0x00000004,  5),
     (0x00000024,  6), (0x00000005,  5), (0x00000025,  6), (0x00000026,  6),
     (0x00000027,  6), (0x00000006,  5), (0x00000074,  7), (0x00000075,  7),
     (0x00000028,  6), (0x00000029,  6), (0x0000002a,  6), (0x00000007,  5),
     (0x0000002b,  6), (0x00000076,  7), (0x0000002c,  6), (0x00000008,  5),
     (0x00000009,  5), (0x0000002d,  6), (0x00000077,  7), (0x00000078,  7),
     (0x00000079,  7), (0x0000007a,  7), (0x0000007b,  7), (0x00007ffe, 15),
     (0x000007fc, 11), (0x00003ffd, 14), (0x00001ffd, 13), (0x0ffffffc, 28),
     (0x000fffe6, 20), (0x003fffd2, 22), (0x000fffe7, 20), (0x000fffe8, 20),
     (0x003fffd3, 22), (0x003fffd4, 22), (0x003fffd5, 22), (0x007fffd9, 23),
     (0x003fffd6, 22), (0x007fffda, 23), (0x007fffdb, 23), (0x007fffdc, 23),
     (0x007fffdd, 23), (0x007fffde, 23), (0x00ffffeb, 24), (0x007fffdf, 23),
     (0x00ffffec, 24), (0x00ffffed, 24), (0x003fffd7, 22), (0x007fffe0, 23),
     (0x00ffffee, 24), (0x007fffe1, 23), (0x007fffe2, 23), (0x007fffe3, 23),
     (0x007fffe4, 23), (0x001fffdc, 21), (0x003fffd8, 22), (0x007fffe5, 23),
     (0x003fffd9, 22), (0x007fffe6, 23), (0x007fffe7, 23), (0x00ffffef, 24),
     (0x003fffda, 22), (0x001fffdd, 21), (0x000fffe9, 20), (0x003fffdb, 22),
     (0x003fffdc, 22), (0x007fffe8, 23), (0x007fffe9, 23), (0x001fffde, 21),
     (0x007fffea, 23), (0x003fffdd, 22), (0x003fffde, 22), (0x00fffff0, 24),
     (0x001fffdf, 21), (0x003fffdf, 22), (0x007fffeb, 23), (0x007fffec, 23),
     (0x001fffe0, 21), (0x001fffe1, 21), (0x003fffe0, 22), (0x001fffe2, 21),
     (0x007fffed, 23), (0x003fffe1, 22), (0x007fffee, 23), (0x007fffef, 23),
     (0x000fffea, 20), (0x003fffe2, 22), (0x003fffe3, 22), (0x003fffe4, 22),
     (0x007ffff0, 23), (0x003fffe5, 22), (0x003fffe6, 22), (0x007ffff1, 23),
     (0x03ffffe0, 26), (0x03ffffe1, 26), (0x000fffeb, 20), (0x0007fff1, 19),
     (0x003fffe7, 22), (0x007ffff2, 23), (0x003fffe8, 22), (0x01ffffec, 25),
     (0x03ffffe2, 26), (0x03ffffe3, 26), (0x03ffffe4, 26), (0x07ffffde, 27),
     (0x07ffffdf, 27), (0x03ffffe5, 26), (0x00fffff1, 24), (0x01ffffed, 25),
     (0x0007fff2, 19), (0x001fffe3, 21), (0x03ffffe6, 26), (0x07ffffe0, 27),
     (0x07ffffe1, 27), (0x03ffffe7, 26), (0x07ffffe2, 27), (0x00fffff2, 24),
     (0x001fffe4, 21), (0x001fffe5, 21), (0x03ffffe8, 26), (0x03ffffe9, 26),
     (0x0ffffffd, 28), (0x07ffffe3, 27), (0x07ffffe4, 27), (0x07ffffe5, 27),
     (0x000fffec, 20), (0x00fffff3, 24), (0x000fffed, 20), (0x001fffe6, 21),
     (0x003fffe9, 22), (0x001fffe7, 21), (0x001fffe8, 21), (0x007ffff3, 23),
     (0x003fffea, 22), (0x003fffeb, 22), (0x01ffffee, 25), (0x01ffffef, 25),
     (0x00fffff4, 24), (0x00fffff5, 24), (0x03ffffea, 26), (0x007ffff4, 23),
     (0x03ffffeb, 26), (0x07ffffe6, 27), (0x03ffffec, 26), (0x03ffffed, 26),
     (0x07ffffe7, 27), (0x07ffffe8, 27), (0x07ffffe9, 27), (0x07ffffea, 27),
     (0x07ffffeb, 27), (0x0ffffffe, 28), (0x07ffffec, 27), (0x07ffffed, 27),
     (0x07ffffee, 27), (0x07ffffef, 27), (0x07fffff0, 27), (0x03ffffee, 26)]"

definition ngx_http_v2_huff_encode_table_lc :: "(u32 \<times> nat) list" where
  "ngx_http_v2_huff_encode_table_lc = [
     (0x00001ff8, 13), (0x007fffd8, 23), (0x0fffffe2, 28), (0x0fffffe3, 28),
     (0x0fffffe4, 28), (0x0fffffe5, 28), (0x0fffffe6, 28), (0x0fffffe7, 28),
     (0x0fffffe8, 28), (0x00ffffea, 24), (0x3ffffffc, 30), (0x0fffffe9, 28),
     (0x0fffffea, 28), (0x3ffffffd, 30), (0x0fffffeb, 28), (0x0fffffec, 28),
     (0x0fffffed, 28), (0x0fffffee, 28), (0x0fffffef, 28), (0x0ffffff0, 28),
     (0x0ffffff1, 28), (0x0ffffff2, 28), (0x3ffffffe, 30), (0x0ffffff3, 28),
     (0x0ffffff4, 28), (0x0ffffff5, 28), (0x0ffffff6, 28), (0x0ffffff7, 28),
     (0x0ffffff8, 28), (0x0ffffff9, 28), (0x0ffffffa, 28), (0x0ffffffb, 28),
     (0x00000014,  6), (0x000003f8, 10), (0x000003f9, 10), (0x00000ffa, 12),
     (0x00001ff9, 13), (0x00000015,  6), (0x000000f8,  8), (0x000007fa, 11),
     (0x000003fa, 10), (0x000003fb, 10), (0x000000f9,  8), (0x000007fb, 11),
     (0x000000fa,  8), (0x00000016,  6), (0x00000017,  6), (0x00000018,  6),
     (0x00000000,  5), (0x00000001,  5), (0x00000002,  5), (0x00000019,  6),
     (0x0000001a,  6), (0x0000001b,  6), (0x0000001c,  6), (0x0000001d,  6),
     (0x0000001e,  6), (0x0000001f,  6), (0x0000005c,  7), (0x000000fb,  8),
     (0x00007ffc, 15), (0x00000020,  6), (0x00000ffb, 12), (0x000003fc, 10),
     (0x00001ffa, 13), (0x00000003,  5), (0x00000023,  6), (0x00000004,  5),
     (0x00000024,  6), (0x00000005,  5), (0x00000025,  6), (0x00000026,  6),
     (0x00000027,  6), (0x00000006,  5), (0x00000074,  7), (0x00000075,  7),
     (0x00000028,  6), (0x00000029,  6), (0x0000002a,  6), (0x00000007,  5),
     (0x0000002b,  6), (0x00000076,  7), (0x0000002c,  6), (0x00000008,  5),
     (0x00000009,  5), (0x0000002d,  6), (0x00000077,  7), (0x00000078,  7),
     (0x00000079,  7), (0x0000007a,  7), (0x0000007b,  7), (0x00001ffb, 13),
     (0x0007fff0, 19), (0x00001ffc, 13), (0x00003ffc, 14), (0x00000022,  6),
     (0x00007ffd, 15), (0x00000003,  5), (0x00000023,  6), (0x00000004,  5),
     (0x00000024,  6), (0x00000005,  5), (0x00000025,  6), (0x00000026,  6),
     (0x00000027,  6), (0x00000006,  5), (0x00000074,  7), (0x00000075,  7),
     (0x00000028,  6), (0x00000029,  6), (0x0000002a,  6), (0x00000007,  5),
     (0x0000002b,  6), (0x00000076,  7), (0x0000002c,  6), (0x00000008,  5),
     (0x00000009,  5), (0x0000002d,  6), (0x00000077,  7), (0x00000078,  7),
     (0x00000079,  7), (0x0000007a,  7), (0x0000007b,  7), (0x00007ffe, 15),
     (0x000007fc, 11), (0x00003ffd, 14), (0x00001ffd, 13), (0x0ffffffc, 28),
     (0x000fffe6, 20), (0x003fffd2, 22), (0x000fffe7, 20), (0x000fffe8, 20),
     (0x003fffd3, 22), (0x003fffd4, 22), (0x003fffd5, 22), (0x007fffd9, 23),
     (0x003fffd6, 22), (0x007fffda, 23), (0x007fffdb, 23), (0x007fffdc, 23),
     (0x007fffdd, 23), (0x007fffde, 23), (0x00ffffeb, 24), (0x007fffdf, 23),
     (0x00ffffec, 24), (0x00ffffed, 24), (0x003fffd7, 22), (0x007fffe0, 23),
     (0x00ffffee, 24), (0x007fffe1, 23), (0x007fffe2, 23), (0x007fffe3, 23),
     (0x007fffe4, 23), (0x001fffdc, 21), (0x003fffd8, 22), (0x007fffe5, 23),
     (0x003fffd9, 22), (0x007fffe6, 23), (0x007fffe7, 23), (0x00ffffef, 24),
     (0x003fffda, 22), (0x001fffdd, 21), (0x000fffe9, 20), (0x003fffdb, 22),
     (0x003fffdc, 22), (0x007fffe8, 23), (0x007fffe9, 23), (0x001fffde, 21),
     (0x007fffea, 23), (0x003fffdd, 22), (0x003fffde, 22), (0x00fffff0, 24),
     (0x001fffdf, 21), (0x003fffdf, 22), (0x007fffeb, 23), (0x007fffec, 23),
     (0x001fffe0, 21), (0x001fffe1, 21), (0x003fffe0, 22), (0x001fffe2, 21),
     (0x007fffed, 23), (0x003fffe1, 22), (0x007fffee, 23), (0x007fffef, 23),
     (0x000fffea, 20), (0x003fffe2, 22), (0x003fffe3, 22), (0x003fffe4, 22),
     (0x007ffff0, 23), (0x003fffe5, 22), (0x003fffe6, 22), (0x007ffff1, 23),
     (0x03ffffe0, 26), (0x03ffffe1, 26), (0x000fffeb, 20), (0x0007fff1, 19),
     (0x003fffe7, 22), (0x007ffff2, 23), (0x003fffe8, 22), (0x01ffffec, 25),
     (0x03ffffe2, 26), (0x03ffffe3, 26), (0x03ffffe4, 26), (0x07ffffde, 27),
     (0x07ffffdf, 27), (0x03ffffe5, 26), (0x00fffff1, 24), (0x01ffffed, 25),
     (0x0007fff2, 19), (0x001fffe3, 21), (0x03ffffe6, 26), (0x07ffffe0, 27),
     (0x07ffffe1, 27), (0x03ffffe7, 26), (0x07ffffe2, 27), (0x00fffff2, 24),
     (0x001fffe4, 21), (0x001fffe5, 21), (0x03ffffe8, 26), (0x03ffffe9, 26),
     (0x0ffffffd, 28), (0x07ffffe3, 27), (0x07ffffe4, 27), (0x07ffffe5, 27),
     (0x000fffec, 20), (0x00fffff3, 24), (0x000fffed, 20), (0x001fffe6, 21),
     (0x003fffe9, 22), (0x001fffe7, 21), (0x001fffe8, 21), (0x007ffff3, 23),
     (0x003fffea, 22), (0x003fffeb, 22), (0x01ffffee, 25), (0x01ffffef, 25),
     (0x00fffff4, 24), (0x00fffff5, 24), (0x03ffffea, 26), (0x007ffff4, 23),
     (0x03ffffeb, 26), (0x07ffffe6, 27), (0x03ffffec, 26), (0x03ffffed, 26),
     (0x07ffffe7, 27), (0x07ffffe8, 27), (0x07ffffe9, 27), (0x07ffffea, 27),
     (0x07ffffeb, 27), (0x0ffffffe, 28), (0x07ffffec, 27), (0x07ffffed, 27),
     (0x07ffffee, 27), (0x07ffffef, 27), (0x07fffff0, 27), (0x03ffffee, 26)]"

section \<open>The code tree\<close>

text \<open>A node of the tree is a number; below it are nodes, symbols and the end-of-string code.\<close>

datatype huff_child = HN nat | HS u_char | HEOS

definition huff_nodes :: "(huff_child \<times> huff_child) list" where
  "huff_nodes = [
     (HN 1, HN 22), (HN 2, HN 9), (HN 3, HN 6), (HN 4, HN 5),
     (HS 0x30, HS 0x31), (HS 0x32, HS 0x61), (HN 7, HN 8), (HS 0x63, HS 0x65),
     (HS 0x69, HS 0x6f), (HN 10, HN 15), (HN 11, HN 12), (HS 0x73, HS 0x74),
     (HN 13, HN 14), (HS 0x20, HS 0x25), (HS 0x2d, HS 0x2e), (HN 16, HN 19),
     (HN 17, HN 18), (HS 0x2f, HS 0x33), (HS 0x34, HS 0x35), (HN 20, HN 21),
     (HS 0x36, HS 0x37), (HS 0x38, HS 0x39), (HN 23, HN 40), (HN 24, HN 31),
     (HN 25, HN 28), (HN 26, HN 27), (HS 0x3d, HS 0x41), (HS 0x5f, HS 0x62),
     (HN 29, HN 30), (HS 0x64, HS 0x66), (HS 0x67, HS 0x68), (HN 32, HN 35),
     (HN 33, HN 34), (HS 0x6c, HS 0x6d), (HS 0x6e, HS 0x70), (HN 36, HN 37),
     (HS 0x72, HS 0x75), (HN 38, HN 39), (HS 0x3a, HS 0x42), (HS 0x43, HS 0x44),
     (HN 41, HN 56), (HN 42, HN 49), (HN 43, HN 46), (HN 44, HN 45),
     (HS 0x45, HS 0x46), (HS 0x47, HS 0x48), (HN 47, HN 48), (HS 0x49, HS 0x4a),
     (HS 0x4b, HS 0x4c), (HN 50, HN 53), (HN 51, HN 52), (HS 0x4d, HS 0x4e),
     (HS 0x4f, HS 0x50), (HN 54, HN 55), (HS 0x51, HS 0x52), (HS 0x53, HS 0x54),
     (HN 57, HN 64), (HN 58, HN 61), (HN 59, HN 60), (HS 0x55, HS 0x56),
     (HS 0x57, HS 0x59), (HN 62, HN 63), (HS 0x6a, HS 0x6b), (HS 0x71, HS 0x76),
     (HN 65, HN 68), (HN 66, HN 67), (HS 0x77, HS 0x78), (HS 0x79, HS 0x7a),
     (HN 69, HN 72), (HN 70, HN 71), (HS 0x26, HS 0x2a), (HS 0x2c, HS 0x3b),
     (HN 73, HN 74), (HS 0x58, HS 0x5a), (HN 75, HN 78), (HN 76, HN 77),
     (HS 0x21, HS 0x22), (HS 0x28, HS 0x29), (HN 79, HN 81), (HS 0x3f, HN 80),
     (HS 0x27, HS 0x2b), (HN 82, HN 84), (HS 0x7c, HN 83), (HS 0x23, HS 0x3e),
     (HN 85, HN 88), (HN 86, HN 87), (HS 0x00, HS 0x24), (HS 0x40, HS 0x5b),
     (HN 89, HN 90), (HS 0x5d, HS 0x7e), (HN 91, HN 92), (HS 0x5e, HS 0x7d),
     (HN 93, HN 94), (HS 0x3c, HS 0x60), (HS 0x7b, HN 95), (HN 96, HN 110),
     (HN 97, HN 101), (HN 98, HN 99), (HS 0x5c, HS 0xc3), (HS 0xd0, HN 100),
     (HS 0x80, HS 0x82), (HN 102, HN 105), (HN 103, HN 104), (HS 0x83, HS 0xa2),
     (HS 0xb8, HS 0xc2), (HN 106, HN 107), (HS 0xe0, HS 0xe2), (HN 108, HN 109),
     (HS 0x99, HS 0xa1), (HS 0xa7, HS 0xac), (HN 111, HN 133), (HN 112, HN 119),
     (HN 113, HN 116), (HN 114, HN 115), (HS 0xb0, HS 0xb1), (HS 0xb3, HS 0xd1),
     (HN 117, HN 118), (HS 0xd8, HS 0xd9), (HS 0xe3, HS 0xe5), (HN 120, HN 126),
     (HN 121, HN 123), (HS 0xe6, HN 122), (HS 0x81, HS 0x84), (HN 124, HN 125),
     (HS 0x85, HS 0x86), (HS 0x88, HS 0x92), (HN 127, HN 130), (HN 128, HN 129),
     (HS 0x9a, HS 0x9c), (HS 0xa0, HS 0xa3), (HN 131, HN 132), (HS 0xa4, HS 0xa9),
     (HS 0xaa, HS 0xad), (HN 134, HN 153), (HN 135, HN 142), (HN 136, HN 139),
     (HN 137, HN 138), (HS 0xb2, HS 0xb5), (HS 0xb9, HS 0xba), (HN 140, HN 141),
     (HS 0xbb, HS 0xbd), (HS 0xbe, HS 0xc4), (HN 143, HN 146), (HN 144, HN 145),
     (HS 0xc6, HS 0xe4), (HS 0xe8, HS 0xe9), (HN 147, HN 150), (HN 148, HN 149),
     (HS 0x01, HS 0x87), (HS 0x89, HS 0x8a), (HN 151, HN 152), (HS 0x8b, HS 0x8c),
     (HS 0x8d, HS 0x8f), (HN 154, HN 169), (HN 155, HN 162), (HN 156, HN 159),
     (HN 157, HN 158), (HS 0x93, HS 0x95), (HS 0x96, HS 0x97), (HN 160, HN 161),
     (HS 0x98, HS 0x9b), (HS 0x9d, HS 0x9e), (HN 163, HN 166), (HN 164, HN 165),
     (HS 0xa5, HS 0xa6), (HS 0xa8, HS 0xae), (HN 167, HN 168), (HS 0xaf, HS 0xb4),
     (HS 0xb6, HS 0xb7), (HN 170, HN 180), (HN 171, HN 174), (HN 172, HN 173),
     (HS 0xbc, HS 0xbf), (HS 0xc5, HS 0xe7), (HN 175, HN 177), (HS 0xef, HN 176),
     (HS 0x09, HS 0x8e), (HN 178, HN 179), (HS 0x90, HS 0x91), (HS 0x94, HS 0x9f),
     (HN 181, HN 190), (HN 182, HN 185), (HN 183, HN 184), (HS 0xab, HS 0xce),
     (HS 0xd7, HS 0xe1), (HN 186, HN 187), (HS 0xec, HS 0xed), (HN 188, HN 189),
     (HS 0xc7, HS 0xcf), (HS 0xea, HS 0xeb), (HN 191, HN 207), (HN 192, HN 199),
     (HN 193, HN 196), (HN 194, HN 195), (HS 0xc0, HS 0xc1), (HS 0xc8, HS 0xc9),
     (HN 197, HN 198), (HS 0xca, HS 0xcd), (HS 0xd2, HS 0xd5), (HN 200, HN 203),
     (HN 201, HN 202), (HS 0xda, HS 0xdb), (HS 0xee, HS 0xf0), (HN 204, HN 205),
     (HS 0xf2, HS 0xf3), (HS 0xff, HN 206), (HS 0xcb, HS 0xcc), (HN 208, HN 223),
     (HN 209, HN 216), (HN 210, HN 213), (HN 211, HN 212), (HS 0xd3, HS 0xd4),
     (HS 0xd6, HS 0xdd), (HN 214, HN 215), (HS 0xde, HS 0xdf), (HS 0xf1, HS 0xf4),
     (HN 217, HN 220), (HN 218, HN 219), (HS 0xf5, HS 0xf6), (HS 0xf7, HS 0xf8),
     (HN 221, HN 222), (HS 0xfa, HS 0xfb), (HS 0xfc, HS 0xfd), (HN 224, HN 238),
     (HN 225, HN 231), (HN 226, HN 228), (HS 0xfe, HN 227), (HS 0x02, HS 0x03),
     (HN 229, HN 230), (HS 0x04, HS 0x05), (HS 0x06, HS 0x07), (HN 232, HN 235),
     (HN 233, HN 234), (HS 0x08, HS 0x0b), (HS 0x0c, HS 0x0e), (HN 236, HN 237),
     (HS 0x0f, HS 0x10), (HS 0x11, HS 0x12), (HN 239, HN 246), (HN 240, HN 243),
     (HN 241, HN 242), (HS 0x13, HS 0x14), (HS 0x15, HS 0x17), (HN 244, HN 245),
     (HS 0x18, HS 0x19), (HS 0x1a, HS 0x1b), (HN 247, HN 250), (HN 248, HN 249),
     (HS 0x1c, HS 0x1d), (HS 0x1e, HS 0x1f), (HN 251, HN 252), (HS 0x7f, HS 0xdc),
     (HS 0xf9, HN 253), (HN 254, HN 255), (HS 0x0a, HS 0x0d), (HS 0x16, HEOS)]"

definition huff_child :: "nat \<Rightarrow> bool \<Rightarrow> huff_child" where
  "huff_child i b = (if b then snd (huff_nodes ! i) else fst (huff_nodes ! i))"

text \<open>The path to each node, as a number and a length.\<close>

definition huff_paths :: "(nat \<times> nat) list" where
  "huff_paths = [
     (0x0, 0), (0x0, 1), (0x0, 2), (0x0, 3), (0x0, 4), (0x1, 4),
     (0x1, 3), (0x2, 4), (0x3, 4), (0x1, 2), (0x2, 3), (0x4, 4),
     (0x5, 4), (0xa, 5), (0xb, 5), (0x3, 3), (0x6, 4), (0xc, 5),
     (0xd, 5), (0x7, 4), (0xe, 5), (0xf, 5), (0x1, 1), (0x2, 2),
     (0x4, 3), (0x8, 4), (0x10, 5), (0x11, 5), (0x9, 4), (0x12, 5),
     (0x13, 5), (0x5, 3), (0xa, 4), (0x14, 5), (0x15, 5), (0xb, 4),
     (0x16, 5), (0x17, 5), (0x2e, 6), (0x2f, 6), (0x3, 2), (0x6, 3),
     (0xc, 4), (0x18, 5), (0x30, 6), (0x31, 6), (0x19, 5), (0x32, 6),
     (0x33, 6), (0xd, 4), (0x1a, 5), (0x34, 6), (0x35, 6), (0x1b, 5),
     (0x36, 6), (0x37, 6), (0x7, 3), (0xe, 4), (0x1c, 5), (0x38, 6),
     (0x39, 6), (0x1d, 5), (0x3a, 6), (0x3b, 6), (0xf, 4), (0x1e, 5),
     (0x3c, 6), (0x3d, 6), (0x1f, 5), (0x3e, 6), (0x7c, 7), (0x7d, 7),
     (0x3f, 6), (0x7e, 7), (0x7f, 7), (0xfe, 8), (0x1fc, 9), (0x1fd, 9),
     (0xff, 8), (0x1fe, 9), (0x3fd, 10), (0x1ff, 9), (0x3fe, 10), (0x7fd, 11),
     (0x3ff, 10), (0x7fe, 11), (0xffc, 12), (0xffd, 12), (0x7ff, 11), (0xffe, 12),
     (0xfff, 12), (0x1ffe, 13), (0x1fff, 13), (0x3ffe, 14), (0x3fff, 14), (0x7fff, 15),
     (0xfffe, 16), (0x1fffc, 17), (0x3fff8, 18), (0x3fff9, 18), (0x7fff3, 19), (0x1fffd, 17),
     (0x3fffa, 18), (0x7fff4, 19), (0x7fff5, 19), (0x3fffb, 18), (0x7fff6, 19), (0x7fff7, 19),
     (0xfffee, 20), (0xfffef, 20), (0xffff, 16), (0x1fffe, 17), (0x3fffc, 18), (0x7fff8, 19),
     (0xffff0, 20), (0xffff1, 20), (0x7fff9, 19), (0xffff2, 20), (0xffff3, 20), (0x3fffd, 18),
     (0x7fffa, 19), (0xffff4, 20), (0x1fffe9, 21), (0xffff5, 20), (0x1fffea, 21), (0x1fffeb, 21),
     (0x7fffb, 19), (0xffff6, 20), (0x1fffec, 21), (0x1fffed, 21), (0xffff7, 20), (0x1fffee, 21),
     (0x1fffef, 21), (0x1ffff, 17), (0x3fffe, 18), (0x7fffc, 19), (0xffff8, 20), (0x1ffff0, 21),
     (0x1ffff1, 21), (0xffff9, 20), (0x1ffff2, 21), (0x1ffff3, 21), (0x7fffd, 19), (0xffffa, 20),
     (0x1ffff4, 21), (0x1ffff5, 21), (0xffffb, 20), (0x1ffff6, 21), (0x3fffec, 22), (0x3fffed, 22),
     (0x1ffff7, 21), (0x3fffee, 22), (0x3fffef, 22), (0x3ffff, 18), (0x7fffe, 19), (0xffffc, 20),
     (0x1ffff8, 21), (0x3ffff0, 22), (0x3ffff1, 22), (0x1ffff9, 21), (0x3ffff2, 22), (0x3ffff3, 22),
     (0xffffd, 20), (0x1ffffa, 21), (0x3ffff4, 22), (0x3ffff5, 22), (0x1ffffb, 21), (0x3ffff6, 22),
     (0x3ffff7, 22), (0x7ffff, 19), (0xffffe, 20), (0x1ffffc, 21), (0x3ffff8, 22), (0x3ffff9, 22),
     (0x1ffffd, 21), (0x3ffffa, 22), (0x7ffff5, 23), (0x3ffffb, 22), (0x7ffff6, 23), (0x7ffff7, 23),
     (0xfffff, 20), (0x1ffffe, 21), (0x3ffffc, 22), (0x7ffff8, 23), (0x7ffff9, 23), (0x3ffffd, 22),
     (0x7ffffa, 23), (0x7ffffb, 23), (0xfffff6, 24), (0xfffff7, 24), (0x1fffff, 21), (0x3ffffe, 22),
     (0x7ffffc, 23), (0xfffff8, 24), (0x1fffff0, 25), (0x1fffff1, 25), (0xfffff9, 24), (0x1fffff2, 25),
     (0x1fffff3, 25), (0x7ffffd, 23), (0xfffffa, 24), (0x1fffff4, 25), (0x1fffff5, 25), (0xfffffb, 24),
     (0x1fffff6, 25), (0x1fffff7, 25), (0x3ffffef, 26), (0x3fffff, 22), (0x7ffffe, 23), (0xfffffc, 24),
     (0x1fffff8, 25), (0x3fffff0, 26), (0x3fffff1, 26), (0x1fffff9, 25), (0x3fffff2, 26), (0x3fffff3, 26),
     (0xfffffd, 24), (0x1fffffa, 25), (0x3fffff4, 26), (0x3fffff5, 26), (0x1fffffb, 25), (0x3fffff6, 26),
     (0x3fffff7, 26), (0x7fffff, 23), (0xfffffe, 24), (0x1fffffc, 25), (0x3fffff8, 26), (0x7fffff1, 27),
     (0x3fffff9, 26), (0x7fffff2, 27), (0x7fffff3, 27), (0x1fffffd, 25), (0x3fffffa, 26), (0x7fffff4, 27),
     (0x7fffff5, 27), (0x3fffffb, 26), (0x7fffff6, 27), (0x7fffff7, 27), (0xffffff, 24), (0x1fffffe, 25),
     (0x3fffffc, 26), (0x7fffff8, 27), (0x7fffff9, 27), (0x3fffffd, 26), (0x7fffffa, 27), (0x7fffffb, 27),
     (0x1ffffff, 25), (0x3fffffe, 26), (0x7fffffc, 27), (0x7fffffd, 27), (0x3ffffff, 26), (0x7fffffe, 27),
     (0x7ffffff, 27), (0xfffffff, 28), (0x1ffffffe, 29), (0x1fffffff, 29)]"


lemma huff_child_simps [simp]:
  "huff_child 0 False = HN 1" "huff_child 0 True = HN 22"
  "huff_child (Suc 0) False = HN 2" "huff_child (Suc 0) True = HN 9"
  "huff_child 2 False = HN 3" "huff_child 2 True = HN 6"
  "huff_child 3 False = HN 4" "huff_child 3 True = HN 5"
  "huff_child 4 False = HS 0x30" "huff_child 4 True = HS 0x31"
  "huff_child 5 False = HS 0x32" "huff_child 5 True = HS 0x61"
  "huff_child 6 False = HN 7" "huff_child 6 True = HN 8"
  "huff_child 7 False = HS 0x63" "huff_child 7 True = HS 0x65"
  "huff_child 8 False = HS 0x69" "huff_child 8 True = HS 0x6f"
  "huff_child 9 False = HN 10" "huff_child 9 True = HN 15"
  "huff_child 10 False = HN 11" "huff_child 10 True = HN 12"
  "huff_child 11 False = HS 0x73" "huff_child 11 True = HS 0x74"
  "huff_child 12 False = HN 13" "huff_child 12 True = HN 14"
  "huff_child 13 False = HS 0x20" "huff_child 13 True = HS 0x25"
  "huff_child 14 False = HS 0x2d" "huff_child 14 True = HS 0x2e"
  "huff_child 15 False = HN 16" "huff_child 15 True = HN 19"
  "huff_child 16 False = HN 17" "huff_child 16 True = HN 18"
  "huff_child 17 False = HS 0x2f" "huff_child 17 True = HS 0x33"
  "huff_child 18 False = HS 0x34" "huff_child 18 True = HS 0x35"
  "huff_child 19 False = HN 20" "huff_child 19 True = HN 21"
  "huff_child 20 False = HS 0x36" "huff_child 20 True = HS 0x37"
  "huff_child 21 False = HS 0x38" "huff_child 21 True = HS 0x39"
  "huff_child 22 False = HN 23" "huff_child 22 True = HN 40"
  "huff_child 23 False = HN 24" "huff_child 23 True = HN 31"
  "huff_child 24 False = HN 25" "huff_child 24 True = HN 28"
  "huff_child 25 False = HN 26" "huff_child 25 True = HN 27"
  "huff_child 26 False = HS 0x3d" "huff_child 26 True = HS 0x41"
  "huff_child 27 False = HS 0x5f" "huff_child 27 True = HS 0x62"
  "huff_child 28 False = HN 29" "huff_child 28 True = HN 30"
  "huff_child 29 False = HS 0x64" "huff_child 29 True = HS 0x66"
  "huff_child 30 False = HS 0x67" "huff_child 30 True = HS 0x68"
  "huff_child 31 False = HN 32" "huff_child 31 True = HN 35"
  "huff_child 32 False = HN 33" "huff_child 32 True = HN 34"
  "huff_child 33 False = HS 0x6c" "huff_child 33 True = HS 0x6d"
  "huff_child 34 False = HS 0x6e" "huff_child 34 True = HS 0x70"
  "huff_child 35 False = HN 36" "huff_child 35 True = HN 37"
  "huff_child 36 False = HS 0x72" "huff_child 36 True = HS 0x75"
  "huff_child 37 False = HN 38" "huff_child 37 True = HN 39"
  "huff_child 38 False = HS 0x3a" "huff_child 38 True = HS 0x42"
  "huff_child 39 False = HS 0x43" "huff_child 39 True = HS 0x44"
  "huff_child 40 False = HN 41" "huff_child 40 True = HN 56"
  "huff_child 41 False = HN 42" "huff_child 41 True = HN 49"
  "huff_child 42 False = HN 43" "huff_child 42 True = HN 46"
  "huff_child 43 False = HN 44" "huff_child 43 True = HN 45"
  "huff_child 44 False = HS 0x45" "huff_child 44 True = HS 0x46"
  "huff_child 45 False = HS 0x47" "huff_child 45 True = HS 0x48"
  "huff_child 46 False = HN 47" "huff_child 46 True = HN 48"
  "huff_child 47 False = HS 0x49" "huff_child 47 True = HS 0x4a"
  "huff_child 48 False = HS 0x4b" "huff_child 48 True = HS 0x4c"
  "huff_child 49 False = HN 50" "huff_child 49 True = HN 53"
  "huff_child 50 False = HN 51" "huff_child 50 True = HN 52"
  "huff_child 51 False = HS 0x4d" "huff_child 51 True = HS 0x4e"
  "huff_child 52 False = HS 0x4f" "huff_child 52 True = HS 0x50"
  "huff_child 53 False = HN 54" "huff_child 53 True = HN 55"
  "huff_child 54 False = HS 0x51" "huff_child 54 True = HS 0x52"
  "huff_child 55 False = HS 0x53" "huff_child 55 True = HS 0x54"
  "huff_child 56 False = HN 57" "huff_child 56 True = HN 64"
  "huff_child 57 False = HN 58" "huff_child 57 True = HN 61"
  "huff_child 58 False = HN 59" "huff_child 58 True = HN 60"
  "huff_child 59 False = HS 0x55" "huff_child 59 True = HS 0x56"
  "huff_child 60 False = HS 0x57" "huff_child 60 True = HS 0x59"
  "huff_child 61 False = HN 62" "huff_child 61 True = HN 63"
  "huff_child 62 False = HS 0x6a" "huff_child 62 True = HS 0x6b"
  "huff_child 63 False = HS 0x71" "huff_child 63 True = HS 0x76"
  "huff_child 64 False = HN 65" "huff_child 64 True = HN 68"
  "huff_child 65 False = HN 66" "huff_child 65 True = HN 67"
  "huff_child 66 False = HS 0x77" "huff_child 66 True = HS 0x78"
  "huff_child 67 False = HS 0x79" "huff_child 67 True = HS 0x7a"
  "huff_child 68 False = HN 69" "huff_child 68 True = HN 72"
  "huff_child 69 False = HN 70" "huff_child 69 True = HN 71"
  "huff_child 70 False = HS 0x26" "huff_child 70 True = HS 0x2a"
  "huff_child 71 False = HS 0x2c" "huff_child 71 True = HS 0x3b"
  "huff_child 72 False = HN 73" "huff_child 72 True = HN 74"
  "huff_child 73 False = HS 0x58" "huff_child 73 True = HS 0x5a"
  "huff_child 74 False = HN 75" "huff_child 74 True = HN 78"
  "huff_child 75 False = HN 76" "huff_child 75 True = HN 77"
  "huff_child 76 False = HS 0x21" "huff_child 76 True = HS 0x22"
  "huff_child 77 False = HS 0x28" "huff_child 77 True = HS 0x29"
  "huff_child 78 False = HN 79" "huff_child 78 True = HN 81"
  "huff_child 79 False = HS 0x3f" "huff_child 79 True = HN 80"
  "huff_child 80 False = HS 0x27" "huff_child 80 True = HS 0x2b"
  "huff_child 81 False = HN 82" "huff_child 81 True = HN 84"
  "huff_child 82 False = HS 0x7c" "huff_child 82 True = HN 83"
  "huff_child 83 False = HS 0x23" "huff_child 83 True = HS 0x3e"
  "huff_child 84 False = HN 85" "huff_child 84 True = HN 88"
  "huff_child 85 False = HN 86" "huff_child 85 True = HN 87"
  "huff_child 86 False = HS 0x00" "huff_child 86 True = HS 0x24"
  "huff_child 87 False = HS 0x40" "huff_child 87 True = HS 0x5b"
  "huff_child 88 False = HN 89" "huff_child 88 True = HN 90"
  "huff_child 89 False = HS 0x5d" "huff_child 89 True = HS 0x7e"
  "huff_child 90 False = HN 91" "huff_child 90 True = HN 92"
  "huff_child 91 False = HS 0x5e" "huff_child 91 True = HS 0x7d"
  "huff_child 92 False = HN 93" "huff_child 92 True = HN 94"
  "huff_child 93 False = HS 0x3c" "huff_child 93 True = HS 0x60"
  "huff_child 94 False = HS 0x7b" "huff_child 94 True = HN 95"
  "huff_child 95 False = HN 96" "huff_child 95 True = HN 110"
  "huff_child 96 False = HN 97" "huff_child 96 True = HN 101"
  "huff_child 97 False = HN 98" "huff_child 97 True = HN 99"
  "huff_child 98 False = HS 0x5c" "huff_child 98 True = HS 0xc3"
  "huff_child 99 False = HS 0xd0" "huff_child 99 True = HN 100"
  "huff_child 100 False = HS 0x80" "huff_child 100 True = HS 0x82"
  "huff_child 101 False = HN 102" "huff_child 101 True = HN 105"
  "huff_child 102 False = HN 103" "huff_child 102 True = HN 104"
  "huff_child 103 False = HS 0x83" "huff_child 103 True = HS 0xa2"
  "huff_child 104 False = HS 0xb8" "huff_child 104 True = HS 0xc2"
  "huff_child 105 False = HN 106" "huff_child 105 True = HN 107"
  "huff_child 106 False = HS 0xe0" "huff_child 106 True = HS 0xe2"
  "huff_child 107 False = HN 108" "huff_child 107 True = HN 109"
  "huff_child 108 False = HS 0x99" "huff_child 108 True = HS 0xa1"
  "huff_child 109 False = HS 0xa7" "huff_child 109 True = HS 0xac"
  "huff_child 110 False = HN 111" "huff_child 110 True = HN 133"
  "huff_child 111 False = HN 112" "huff_child 111 True = HN 119"
  "huff_child 112 False = HN 113" "huff_child 112 True = HN 116"
  "huff_child 113 False = HN 114" "huff_child 113 True = HN 115"
  "huff_child 114 False = HS 0xb0" "huff_child 114 True = HS 0xb1"
  "huff_child 115 False = HS 0xb3" "huff_child 115 True = HS 0xd1"
  "huff_child 116 False = HN 117" "huff_child 116 True = HN 118"
  "huff_child 117 False = HS 0xd8" "huff_child 117 True = HS 0xd9"
  "huff_child 118 False = HS 0xe3" "huff_child 118 True = HS 0xe5"
  "huff_child 119 False = HN 120" "huff_child 119 True = HN 126"
  "huff_child 120 False = HN 121" "huff_child 120 True = HN 123"
  "huff_child 121 False = HS 0xe6" "huff_child 121 True = HN 122"
  "huff_child 122 False = HS 0x81" "huff_child 122 True = HS 0x84"
  "huff_child 123 False = HN 124" "huff_child 123 True = HN 125"
  "huff_child 124 False = HS 0x85" "huff_child 124 True = HS 0x86"
  "huff_child 125 False = HS 0x88" "huff_child 125 True = HS 0x92"
  "huff_child 126 False = HN 127" "huff_child 126 True = HN 130"
  "huff_child 127 False = HN 128" "huff_child 127 True = HN 129"
  "huff_child 128 False = HS 0x9a" "huff_child 128 True = HS 0x9c"
  "huff_child 129 False = HS 0xa0" "huff_child 129 True = HS 0xa3"
  "huff_child 130 False = HN 131" "huff_child 130 True = HN 132"
  "huff_child 131 False = HS 0xa4" "huff_child 131 True = HS 0xa9"
  "huff_child 132 False = HS 0xaa" "huff_child 132 True = HS 0xad"
  "huff_child 133 False = HN 134" "huff_child 133 True = HN 153"
  "huff_child 134 False = HN 135" "huff_child 134 True = HN 142"
  "huff_child 135 False = HN 136" "huff_child 135 True = HN 139"
  "huff_child 136 False = HN 137" "huff_child 136 True = HN 138"
  "huff_child 137 False = HS 0xb2" "huff_child 137 True = HS 0xb5"
  "huff_child 138 False = HS 0xb9" "huff_child 138 True = HS 0xba"
  "huff_child 139 False = HN 140" "huff_child 139 True = HN 141"
  "huff_child 140 False = HS 0xbb" "huff_child 140 True = HS 0xbd"
  "huff_child 141 False = HS 0xbe" "huff_child 141 True = HS 0xc4"
  "huff_child 142 False = HN 143" "huff_child 142 True = HN 146"
  "huff_child 143 False = HN 144" "huff_child 143 True = HN 145"
  "huff_child 144 False = HS 0xc6" "huff_child 144 True = HS 0xe4"
  "huff_child 145 False = HS 0xe8" "huff_child 145 True = HS 0xe9"
  "huff_child 146 False = HN 147" "huff_child 146 True = HN 150"
  "huff_child 147 False = HN 148" "huff_child 147 True = HN 149"
  "huff_child 148 False = HS 0x01" "huff_child 148 True = HS 0x87"
  "huff_child 149 False = HS 0x89" "huff_child 149 True = HS 0x8a"
  "huff_child 150 False = HN 151" "huff_child 150 True = HN 152"
  "huff_child 151 False = HS 0x8b" "huff_child 151 True = HS 0x8c"
  "huff_child 152 False = HS 0x8d" "huff_child 152 True = HS 0x8f"
  "huff_child 153 False = HN 154" "huff_child 153 True = HN 169"
  "huff_child 154 False = HN 155" "huff_child 154 True = HN 162"
  "huff_child 155 False = HN 156" "huff_child 155 True = HN 159"
  "huff_child 156 False = HN 157" "huff_child 156 True = HN 158"
  "huff_child 157 False = HS 0x93" "huff_child 157 True = HS 0x95"
  "huff_child 158 False = HS 0x96" "huff_child 158 True = HS 0x97"
  "huff_child 159 False = HN 160" "huff_child 159 True = HN 161"
  "huff_child 160 False = HS 0x98" "huff_child 160 True = HS 0x9b"
  "huff_child 161 False = HS 0x9d" "huff_child 161 True = HS 0x9e"
  "huff_child 162 False = HN 163" "huff_child 162 True = HN 166"
  "huff_child 163 False = HN 164" "huff_child 163 True = HN 165"
  "huff_child 164 False = HS 0xa5" "huff_child 164 True = HS 0xa6"
  "huff_child 165 False = HS 0xa8" "huff_child 165 True = HS 0xae"
  "huff_child 166 False = HN 167" "huff_child 166 True = HN 168"
  "huff_child 167 False = HS 0xaf" "huff_child 167 True = HS 0xb4"
  "huff_child 168 False = HS 0xb6" "huff_child 168 True = HS 0xb7"
  "huff_child 169 False = HN 170" "huff_child 169 True = HN 180"
  "huff_child 170 False = HN 171" "huff_child 170 True = HN 174"
  "huff_child 171 False = HN 172" "huff_child 171 True = HN 173"
  "huff_child 172 False = HS 0xbc" "huff_child 172 True = HS 0xbf"
  "huff_child 173 False = HS 0xc5" "huff_child 173 True = HS 0xe7"
  "huff_child 174 False = HN 175" "huff_child 174 True = HN 177"
  "huff_child 175 False = HS 0xef" "huff_child 175 True = HN 176"
  "huff_child 176 False = HS 0x09" "huff_child 176 True = HS 0x8e"
  "huff_child 177 False = HN 178" "huff_child 177 True = HN 179"
  "huff_child 178 False = HS 0x90" "huff_child 178 True = HS 0x91"
  "huff_child 179 False = HS 0x94" "huff_child 179 True = HS 0x9f"
  "huff_child 180 False = HN 181" "huff_child 180 True = HN 190"
  "huff_child 181 False = HN 182" "huff_child 181 True = HN 185"
  "huff_child 182 False = HN 183" "huff_child 182 True = HN 184"
  "huff_child 183 False = HS 0xab" "huff_child 183 True = HS 0xce"
  "huff_child 184 False = HS 0xd7" "huff_child 184 True = HS 0xe1"
  "huff_child 185 False = HN 186" "huff_child 185 True = HN 187"
  "huff_child 186 False = HS 0xec" "huff_child 186 True = HS 0xed"
  "huff_child 187 False = HN 188" "huff_child 187 True = HN 189"
  "huff_child 188 False = HS 0xc7" "huff_child 188 True = HS 0xcf"
  "huff_child 189 False = HS 0xea" "huff_child 189 True = HS 0xeb"
  "huff_child 190 False = HN 191" "huff_child 190 True = HN 207"
  "huff_child 191 False = HN 192" "huff_child 191 True = HN 199"
  "huff_child 192 False = HN 193" "huff_child 192 True = HN 196"
  "huff_child 193 False = HN 194" "huff_child 193 True = HN 195"
  "huff_child 194 False = HS 0xc0" "huff_child 194 True = HS 0xc1"
  "huff_child 195 False = HS 0xc8" "huff_child 195 True = HS 0xc9"
  "huff_child 196 False = HN 197" "huff_child 196 True = HN 198"
  "huff_child 197 False = HS 0xca" "huff_child 197 True = HS 0xcd"
  "huff_child 198 False = HS 0xd2" "huff_child 198 True = HS 0xd5"
  "huff_child 199 False = HN 200" "huff_child 199 True = HN 203"
  "huff_child 200 False = HN 201" "huff_child 200 True = HN 202"
  "huff_child 201 False = HS 0xda" "huff_child 201 True = HS 0xdb"
  "huff_child 202 False = HS 0xee" "huff_child 202 True = HS 0xf0"
  "huff_child 203 False = HN 204" "huff_child 203 True = HN 205"
  "huff_child 204 False = HS 0xf2" "huff_child 204 True = HS 0xf3"
  "huff_child 205 False = HS 0xff" "huff_child 205 True = HN 206"
  "huff_child 206 False = HS 0xcb" "huff_child 206 True = HS 0xcc"
  "huff_child 207 False = HN 208" "huff_child 207 True = HN 223"
  "huff_child 208 False = HN 209" "huff_child 208 True = HN 216"
  "huff_child 209 False = HN 210" "huff_child 209 True = HN 213"
  "huff_child 210 False = HN 211" "huff_child 210 True = HN 212"
  "huff_child 211 False = HS 0xd3" "huff_child 211 True = HS 0xd4"
  "huff_child 212 False = HS 0xd6" "huff_child 212 True = HS 0xdd"
  "huff_child 213 False = HN 214" "huff_child 213 True = HN 215"
  "huff_child 214 False = HS 0xde" "huff_child 214 True = HS 0xdf"
  "huff_child 215 False = HS 0xf1" "huff_child 215 True = HS 0xf4"
  "huff_child 216 False = HN 217" "huff_child 216 True = HN 220"
  "huff_child 217 False = HN 218" "huff_child 217 True = HN 219"
  "huff_child 218 False = HS 0xf5" "huff_child 218 True = HS 0xf6"
  "huff_child 219 False = HS 0xf7" "huff_child 219 True = HS 0xf8"
  "huff_child 220 False = HN 221" "huff_child 220 True = HN 222"
  "huff_child 221 False = HS 0xfa" "huff_child 221 True = HS 0xfb"
  "huff_child 222 False = HS 0xfc" "huff_child 222 True = HS 0xfd"
  "huff_child 223 False = HN 224" "huff_child 223 True = HN 238"
  "huff_child 224 False = HN 225" "huff_child 224 True = HN 231"
  "huff_child 225 False = HN 226" "huff_child 225 True = HN 228"
  "huff_child 226 False = HS 0xfe" "huff_child 226 True = HN 227"
  "huff_child 227 False = HS 0x02" "huff_child 227 True = HS 0x03"
  "huff_child 228 False = HN 229" "huff_child 228 True = HN 230"
  "huff_child 229 False = HS 0x04" "huff_child 229 True = HS 0x05"
  "huff_child 230 False = HS 0x06" "huff_child 230 True = HS 0x07"
  "huff_child 231 False = HN 232" "huff_child 231 True = HN 235"
  "huff_child 232 False = HN 233" "huff_child 232 True = HN 234"
  "huff_child 233 False = HS 0x08" "huff_child 233 True = HS 0x0b"
  "huff_child 234 False = HS 0x0c" "huff_child 234 True = HS 0x0e"
  "huff_child 235 False = HN 236" "huff_child 235 True = HN 237"
  "huff_child 236 False = HS 0x0f" "huff_child 236 True = HS 0x10"
  "huff_child 237 False = HS 0x11" "huff_child 237 True = HS 0x12"
  "huff_child 238 False = HN 239" "huff_child 238 True = HN 246"
  "huff_child 239 False = HN 240" "huff_child 239 True = HN 243"
  "huff_child 240 False = HN 241" "huff_child 240 True = HN 242"
  "huff_child 241 False = HS 0x13" "huff_child 241 True = HS 0x14"
  "huff_child 242 False = HS 0x15" "huff_child 242 True = HS 0x17"
  "huff_child 243 False = HN 244" "huff_child 243 True = HN 245"
  "huff_child 244 False = HS 0x18" "huff_child 244 True = HS 0x19"
  "huff_child 245 False = HS 0x1a" "huff_child 245 True = HS 0x1b"
  "huff_child 246 False = HN 247" "huff_child 246 True = HN 250"
  "huff_child 247 False = HN 248" "huff_child 247 True = HN 249"
  "huff_child 248 False = HS 0x1c" "huff_child 248 True = HS 0x1d"
  "huff_child 249 False = HS 0x1e" "huff_child 249 True = HS 0x1f"
  "huff_child 250 False = HN 251" "huff_child 250 True = HN 252"
  "huff_child 251 False = HS 0x7f" "huff_child 251 True = HS 0xdc"
  "huff_child 252 False = HS 0xf9" "huff_child 252 True = HN 253"
  "huff_child 253 False = HN 254" "huff_child 253 True = HN 255"
  "huff_child 254 False = HS 0x0a" "huff_child 254 True = HS 0x0d"
  "huff_child 255 False = HS 0x16" "huff_child 255 True = HEOS"
  by (simp_all add: huff_child_def huff_nodes_def)


section \<open>The bitwise decoder\<close>

text \<open>
  From a node, the symbols that the bits give and the node they lead to; the end-of-string code
  is an error.
\<close>

fun huff_walk :: "nat \<Rightarrow> bool list \<Rightarrow> (bytes \<times> nat) option" where
  "huff_walk i [] = Some ([], i)"
| "huff_walk i (b # bs) =
     (case huff_child i b of
        HEOS \<Rightarrow> None
      | HN j \<Rightarrow> huff_walk j bs
      | HS c \<Rightarrow> map_option (\<lambda>(out, t). (c # out, t)) (huff_walk 0 bs))"

text \<open>The big-endian bits of a number.\<close>

fun nat_bits :: "nat \<Rightarrow> nat \<Rightarrow> bool list" where
  "nat_bits v 0 = []"
| "nat_bits v (Suc n) = nat_bits (v div 2) n @ [odd v]"

text \<open>The nodes whose path has only ones.\<close>

definition huff_ending :: "nat \<Rightarrow> bool" where
  "huff_ending i \<longleftrightarrow> (case huff_paths ! i of (v, n) \<Rightarrow> v = 2 ^ n - 1)"

definition huff_entry :: "nat \<Rightarrow> bool list \<Rightarrow> huff_decode_code" where
  "huff_entry i bs =
     (case huff_walk i bs of
        None \<Rightarrow> HD (word_of_nat i) 0 0 0
      | Some (out, t) \<Rightarrow>
          HD (word_of_nat t) (if out = [] then 0 else 1) (case out of [] \<Rightarrow> 0 | c # _ \<Rightarrow> c)
            (if huff_ending t then 1 else 0))"

definition nibbles :: "bool list list" where
  "nibbles = [
     [False, False, False, False], [False, False, False, True], [False, False, True, False], [False, False, True, True],
     [False, True, False, False], [False, True, False, True], [False, True, True, False], [False, True, True, True],
     [True, False, False, False], [True, False, False, True], [True, False, True, False], [True, False, True, True],
     [True, True, False, False], [True, True, False, True], [True, True, True, False], [True, True, True, True]]"

definition huff_row :: "nat \<Rightarrow> huff_decode_code list" where
  "huff_row i = map (huff_entry i) nibbles"

lemma huff_ending_simps [simp]:
  "huff_ending 0 = True"
  "huff_ending (Suc 0) = False"
  "huff_ending 2 = False"
  "huff_ending 3 = False"
  "huff_ending 4 = False"
  "huff_ending 5 = False"
  "huff_ending 6 = False"
  "huff_ending 7 = False"
  "huff_ending 8 = False"
  "huff_ending 9 = False"
  "huff_ending 10 = False"
  "huff_ending 11 = False"
  "huff_ending 12 = False"
  "huff_ending 13 = False"
  "huff_ending 14 = False"
  "huff_ending 15 = False"
  "huff_ending 16 = False"
  "huff_ending 17 = False"
  "huff_ending 18 = False"
  "huff_ending 19 = False"
  "huff_ending 20 = False"
  "huff_ending 21 = False"
  "huff_ending 22 = True"
  "huff_ending 23 = False"
  "huff_ending 24 = False"
  "huff_ending 25 = False"
  "huff_ending 26 = False"
  "huff_ending 27 = False"
  "huff_ending 28 = False"
  "huff_ending 29 = False"
  "huff_ending 30 = False"
  "huff_ending 31 = False"
  "huff_ending 32 = False"
  "huff_ending 33 = False"
  "huff_ending 34 = False"
  "huff_ending 35 = False"
  "huff_ending 36 = False"
  "huff_ending 37 = False"
  "huff_ending 38 = False"
  "huff_ending 39 = False"
  "huff_ending 40 = True"
  "huff_ending 41 = False"
  "huff_ending 42 = False"
  "huff_ending 43 = False"
  "huff_ending 44 = False"
  "huff_ending 45 = False"
  "huff_ending 46 = False"
  "huff_ending 47 = False"
  "huff_ending 48 = False"
  "huff_ending 49 = False"
  "huff_ending 50 = False"
  "huff_ending 51 = False"
  "huff_ending 52 = False"
  "huff_ending 53 = False"
  "huff_ending 54 = False"
  "huff_ending 55 = False"
  "huff_ending 56 = True"
  "huff_ending 57 = False"
  "huff_ending 58 = False"
  "huff_ending 59 = False"
  "huff_ending 60 = False"
  "huff_ending 61 = False"
  "huff_ending 62 = False"
  "huff_ending 63 = False"
  "huff_ending 64 = True"
  "huff_ending 65 = False"
  "huff_ending 66 = False"
  "huff_ending 67 = False"
  "huff_ending 68 = True"
  "huff_ending 69 = False"
  "huff_ending 70 = False"
  "huff_ending 71 = False"
  "huff_ending 72 = True"
  "huff_ending 73 = False"
  "huff_ending 74 = True"
  "huff_ending 75 = False"
  "huff_ending 76 = False"
  "huff_ending 77 = False"
  "huff_ending 78 = True"
  "huff_ending 79 = False"
  "huff_ending 80 = False"
  "huff_ending 81 = True"
  "huff_ending 82 = False"
  "huff_ending 83 = False"
  "huff_ending 84 = True"
  "huff_ending 85 = False"
  "huff_ending 86 = False"
  "huff_ending 87 = False"
  "huff_ending 88 = True"
  "huff_ending 89 = False"
  "huff_ending 90 = True"
  "huff_ending 91 = False"
  "huff_ending 92 = True"
  "huff_ending 93 = False"
  "huff_ending 94 = True"
  "huff_ending 95 = True"
  "huff_ending 96 = False"
  "huff_ending 97 = False"
  "huff_ending 98 = False"
  "huff_ending 99 = False"
  "huff_ending 100 = False"
  "huff_ending 101 = False"
  "huff_ending 102 = False"
  "huff_ending 103 = False"
  "huff_ending 104 = False"
  "huff_ending 105 = False"
  "huff_ending 106 = False"
  "huff_ending 107 = False"
  "huff_ending 108 = False"
  "huff_ending 109 = False"
  "huff_ending 110 = True"
  "huff_ending 111 = False"
  "huff_ending 112 = False"
  "huff_ending 113 = False"
  "huff_ending 114 = False"
  "huff_ending 115 = False"
  "huff_ending 116 = False"
  "huff_ending 117 = False"
  "huff_ending 118 = False"
  "huff_ending 119 = False"
  "huff_ending 120 = False"
  "huff_ending 121 = False"
  "huff_ending 122 = False"
  "huff_ending 123 = False"
  "huff_ending 124 = False"
  "huff_ending 125 = False"
  "huff_ending 126 = False"
  "huff_ending 127 = False"
  "huff_ending 128 = False"
  "huff_ending 129 = False"
  "huff_ending 130 = False"
  "huff_ending 131 = False"
  "huff_ending 132 = False"
  "huff_ending 133 = True"
  "huff_ending 134 = False"
  "huff_ending 135 = False"
  "huff_ending 136 = False"
  "huff_ending 137 = False"
  "huff_ending 138 = False"
  "huff_ending 139 = False"
  "huff_ending 140 = False"
  "huff_ending 141 = False"
  "huff_ending 142 = False"
  "huff_ending 143 = False"
  "huff_ending 144 = False"
  "huff_ending 145 = False"
  "huff_ending 146 = False"
  "huff_ending 147 = False"
  "huff_ending 148 = False"
  "huff_ending 149 = False"
  "huff_ending 150 = False"
  "huff_ending 151 = False"
  "huff_ending 152 = False"
  "huff_ending 153 = True"
  "huff_ending 154 = False"
  "huff_ending 155 = False"
  "huff_ending 156 = False"
  "huff_ending 157 = False"
  "huff_ending 158 = False"
  "huff_ending 159 = False"
  "huff_ending 160 = False"
  "huff_ending 161 = False"
  "huff_ending 162 = False"
  "huff_ending 163 = False"
  "huff_ending 164 = False"
  "huff_ending 165 = False"
  "huff_ending 166 = False"
  "huff_ending 167 = False"
  "huff_ending 168 = False"
  "huff_ending 169 = True"
  "huff_ending 170 = False"
  "huff_ending 171 = False"
  "huff_ending 172 = False"
  "huff_ending 173 = False"
  "huff_ending 174 = False"
  "huff_ending 175 = False"
  "huff_ending 176 = False"
  "huff_ending 177 = False"
  "huff_ending 178 = False"
  "huff_ending 179 = False"
  "huff_ending 180 = True"
  "huff_ending 181 = False"
  "huff_ending 182 = False"
  "huff_ending 183 = False"
  "huff_ending 184 = False"
  "huff_ending 185 = False"
  "huff_ending 186 = False"
  "huff_ending 187 = False"
  "huff_ending 188 = False"
  "huff_ending 189 = False"
  "huff_ending 190 = True"
  "huff_ending 191 = False"
  "huff_ending 192 = False"
  "huff_ending 193 = False"
  "huff_ending 194 = False"
  "huff_ending 195 = False"
  "huff_ending 196 = False"
  "huff_ending 197 = False"
  "huff_ending 198 = False"
  "huff_ending 199 = False"
  "huff_ending 200 = False"
  "huff_ending 201 = False"
  "huff_ending 202 = False"
  "huff_ending 203 = False"
  "huff_ending 204 = False"
  "huff_ending 205 = False"
  "huff_ending 206 = False"
  "huff_ending 207 = True"
  "huff_ending 208 = False"
  "huff_ending 209 = False"
  "huff_ending 210 = False"
  "huff_ending 211 = False"
  "huff_ending 212 = False"
  "huff_ending 213 = False"
  "huff_ending 214 = False"
  "huff_ending 215 = False"
  "huff_ending 216 = False"
  "huff_ending 217 = False"
  "huff_ending 218 = False"
  "huff_ending 219 = False"
  "huff_ending 220 = False"
  "huff_ending 221 = False"
  "huff_ending 222 = False"
  "huff_ending 223 = True"
  "huff_ending 224 = False"
  "huff_ending 225 = False"
  "huff_ending 226 = False"
  "huff_ending 227 = False"
  "huff_ending 228 = False"
  "huff_ending 229 = False"
  "huff_ending 230 = False"
  "huff_ending 231 = False"
  "huff_ending 232 = False"
  "huff_ending 233 = False"
  "huff_ending 234 = False"
  "huff_ending 235 = False"
  "huff_ending 236 = False"
  "huff_ending 237 = False"
  "huff_ending 238 = True"
  "huff_ending 239 = False"
  "huff_ending 240 = False"
  "huff_ending 241 = False"
  "huff_ending 242 = False"
  "huff_ending 243 = False"
  "huff_ending 244 = False"
  "huff_ending 245 = False"
  "huff_ending 246 = True"
  "huff_ending 247 = False"
  "huff_ending 248 = False"
  "huff_ending 249 = False"
  "huff_ending 250 = True"
  "huff_ending 251 = False"
  "huff_ending 252 = True"
  "huff_ending 253 = True"
  "huff_ending 254 = False"
  "huff_ending 255 = True"
  by (simp_all add: huff_ending_def huff_paths_def)

text \<open>A row that is not mistaken: a step that does not fail leaves the node and gives one symbol at most.\<close>

definition huff_row_ok :: "nat \<Rightarrow> bool" where
  "huff_row_ok i \<longleftrightarrow>
     list_all (\<lambda>bs. case huff_walk i bs of None \<Rightarrow> True | Some (out, t) \<Rightarrow> t \<noteq> i \<and> t < 256 \<and> length out \<le> 1) nibbles"

section \<open>The decoding table is the tree\<close>

lemma huff_rows_0_ok: "huff_rows_0 = map huff_row [0, 1, 2, 3, 4, 5, 6, 7, 8, 9, 10, 11, 12, 13]" "list_all huff_row_ok [0, 1, 2, 3, 4, 5, 6, 7, 8, 9, 10, 11, 12, 13]"
  by (simp_all add: huff_rows_0_def huff_row_def nibbles_def huff_entry_def huff_row_ok_def)

lemma huff_rows_1_ok: "huff_rows_1 = map huff_row [14, 15, 16, 17, 18, 19, 20, 21, 22, 23, 24, 25, 26, 27]" "list_all huff_row_ok [14, 15, 16, 17, 18, 19, 20, 21, 22, 23, 24, 25, 26, 27]"
  by (simp_all add: huff_rows_1_def huff_row_def nibbles_def huff_entry_def huff_row_ok_def)

lemma huff_rows_2_ok: "huff_rows_2 = map huff_row [28, 29, 30, 31, 32, 33, 34, 35, 36, 37, 38, 39, 40, 41]" "list_all huff_row_ok [28, 29, 30, 31, 32, 33, 34, 35, 36, 37, 38, 39, 40, 41]"
  by (simp_all add: huff_rows_2_def huff_row_def nibbles_def huff_entry_def huff_row_ok_def)

lemma huff_rows_3_ok: "huff_rows_3 = map huff_row [42, 43, 44, 45, 46, 47, 48, 49, 50, 51, 52, 53, 54, 55]" "list_all huff_row_ok [42, 43, 44, 45, 46, 47, 48, 49, 50, 51, 52, 53, 54, 55]"
  by (simp_all add: huff_rows_3_def huff_row_def nibbles_def huff_entry_def huff_row_ok_def)

lemma huff_rows_4_ok: "huff_rows_4 = map huff_row [56, 57, 58, 59, 60, 61, 62, 63, 64, 65, 66, 67, 68, 69]" "list_all huff_row_ok [56, 57, 58, 59, 60, 61, 62, 63, 64, 65, 66, 67, 68, 69]"
  by (simp_all add: huff_rows_4_def huff_row_def nibbles_def huff_entry_def huff_row_ok_def)

lemma huff_rows_5_ok: "huff_rows_5 = map huff_row [70, 71, 72, 73, 74, 75, 76, 77, 78, 79, 80, 81, 82, 83]" "list_all huff_row_ok [70, 71, 72, 73, 74, 75, 76, 77, 78, 79, 80, 81, 82, 83]"
  by (simp_all add: huff_rows_5_def huff_row_def nibbles_def huff_entry_def huff_row_ok_def)

lemma huff_rows_6_ok: "huff_rows_6 = map huff_row [84, 85, 86, 87, 88, 89, 90, 91, 92, 93, 94, 95, 96, 97]" "list_all huff_row_ok [84, 85, 86, 87, 88, 89, 90, 91, 92, 93, 94, 95, 96, 97]"
  by (simp_all add: huff_rows_6_def huff_row_def nibbles_def huff_entry_def huff_row_ok_def)

lemma huff_rows_7_ok: "huff_rows_7 = map huff_row [98, 99, 100, 101, 102, 103, 104, 105, 106, 107, 108, 109, 110, 111]" "list_all huff_row_ok [98, 99, 100, 101, 102, 103, 104, 105, 106, 107, 108, 109, 110, 111]"
  by (simp_all add: huff_rows_7_def huff_row_def nibbles_def huff_entry_def huff_row_ok_def)

lemma huff_rows_8_ok: "huff_rows_8 = map huff_row [112, 113, 114, 115, 116, 117, 118, 119, 120, 121, 122, 123, 124, 125]" "list_all huff_row_ok [112, 113, 114, 115, 116, 117, 118, 119, 120, 121, 122, 123, 124, 125]"
  by (simp_all add: huff_rows_8_def huff_row_def nibbles_def huff_entry_def huff_row_ok_def)

lemma huff_rows_9_ok: "huff_rows_9 = map huff_row [126, 127, 128, 129, 130, 131, 132, 133, 134, 135, 136, 137, 138, 139]" "list_all huff_row_ok [126, 127, 128, 129, 130, 131, 132, 133, 134, 135, 136, 137, 138, 139]"
  by (simp_all add: huff_rows_9_def huff_row_def nibbles_def huff_entry_def huff_row_ok_def)

lemma huff_rows_10_ok: "huff_rows_10 = map huff_row [140, 141, 142, 143, 144, 145, 146, 147, 148, 149, 150, 151, 152, 153]" "list_all huff_row_ok [140, 141, 142, 143, 144, 145, 146, 147, 148, 149, 150, 151, 152, 153]"
  by (simp_all add: huff_rows_10_def huff_row_def nibbles_def huff_entry_def huff_row_ok_def)

lemma huff_rows_11_ok: "huff_rows_11 = map huff_row [154, 155, 156, 157, 158, 159, 160, 161, 162, 163, 164, 165, 166, 167]" "list_all huff_row_ok [154, 155, 156, 157, 158, 159, 160, 161, 162, 163, 164, 165, 166, 167]"
  by (simp_all add: huff_rows_11_def huff_row_def nibbles_def huff_entry_def huff_row_ok_def)

lemma huff_rows_12_ok: "huff_rows_12 = map huff_row [168, 169, 170, 171, 172, 173, 174, 175, 176, 177, 178, 179, 180, 181]" "list_all huff_row_ok [168, 169, 170, 171, 172, 173, 174, 175, 176, 177, 178, 179, 180, 181]"
  by (simp_all add: huff_rows_12_def huff_row_def nibbles_def huff_entry_def huff_row_ok_def)

lemma huff_rows_13_ok: "huff_rows_13 = map huff_row [182, 183, 184, 185, 186, 187, 188, 189, 190, 191, 192, 193, 194, 195]" "list_all huff_row_ok [182, 183, 184, 185, 186, 187, 188, 189, 190, 191, 192, 193, 194, 195]"
  by (simp_all add: huff_rows_13_def huff_row_def nibbles_def huff_entry_def huff_row_ok_def)

lemma huff_rows_14_ok: "huff_rows_14 = map huff_row [196, 197, 198, 199, 200, 201, 202, 203, 204, 205, 206, 207, 208, 209]" "list_all huff_row_ok [196, 197, 198, 199, 200, 201, 202, 203, 204, 205, 206, 207, 208, 209]"
  by (simp_all add: huff_rows_14_def huff_row_def nibbles_def huff_entry_def huff_row_ok_def)

lemma huff_rows_15_ok: "huff_rows_15 = map huff_row [210, 211, 212, 213, 214, 215, 216, 217, 218, 219, 220, 221, 222, 223]" "list_all huff_row_ok [210, 211, 212, 213, 214, 215, 216, 217, 218, 219, 220, 221, 222, 223]"
  by (simp_all add: huff_rows_15_def huff_row_def nibbles_def huff_entry_def huff_row_ok_def)

lemma huff_rows_16_ok: "huff_rows_16 = map huff_row [224, 225, 226, 227, 228, 229, 230, 231, 232, 233, 234, 235, 236, 237]" "list_all huff_row_ok [224, 225, 226, 227, 228, 229, 230, 231, 232, 233, 234, 235, 236, 237]"
  by (simp_all add: huff_rows_16_def huff_row_def nibbles_def huff_entry_def huff_row_ok_def)

lemma huff_rows_17_ok: "huff_rows_17 = map huff_row [238, 239, 240, 241, 242, 243, 244, 245, 246, 247, 248, 249, 250, 251]" "list_all huff_row_ok [238, 239, 240, 241, 242, 243, 244, 245, 246, 247, 248, 249, 250, 251]"
  by (simp_all add: huff_rows_17_def huff_row_def nibbles_def huff_entry_def huff_row_ok_def)

lemma huff_rows_18_ok: "huff_rows_18 = map huff_row [252, 253, 254, 255]" "list_all huff_row_ok [252, 253, 254, 255]"
  by (simp_all add: huff_rows_18_def huff_row_def nibbles_def huff_entry_def huff_row_ok_def)

lemma upt_256: "[0..<256] = [
     0, 1, 2, 3, 4, 5, 6, 7, 8, 9, 10, 11, 12, 13, 14, 15,
     16, 17, 18, 19, 20, 21, 22, 23, 24, 25, 26, 27, 28, 29, 30, 31,
     32, 33, 34, 35, 36, 37, 38, 39, 40, 41, 42, 43, 44, 45, 46, 47,
     48, 49, 50, 51, 52, 53, 54, 55, 56, 57, 58, 59, 60, 61, 62, 63,
     64, 65, 66, 67, 68, 69, 70, 71, 72, 73, 74, 75, 76, 77, 78, 79,
     80, 81, 82, 83, 84, 85, 86, 87, 88, 89, 90, 91, 92, 93, 94, 95,
     96, 97, 98, 99, 100, 101, 102, 103, 104, 105, 106, 107, 108, 109, 110, 111,
     112, 113, 114, 115, 116, 117, 118, 119, 120, 121, 122, 123, 124, 125, 126, 127,
     128, 129, 130, 131, 132, 133, 134, 135, 136, 137, 138, 139, 140, 141, 142, 143,
     144, 145, 146, 147, 148, 149, 150, 151, 152, 153, 154, 155, 156, 157, 158, 159,
     160, 161, 162, 163, 164, 165, 166, 167, 168, 169, 170, 171, 172, 173, 174, 175,
     176, 177, 178, 179, 180, 181, 182, 183, 184, 185, 186, 187, 188, 189, 190, 191,
     192, 193, 194, 195, 196, 197, 198, 199, 200, 201, 202, 203, 204, 205, 206, 207,
     208, 209, 210, 211, 212, 213, 214, 215, 216, 217, 218, 219, 220, 221, 222, 223,
     224, 225, 226, 227, 228, 229, 230, 231, 232, 233, 234, 235, 236, 237, 238, 239,
     240, 241, 242, 243, 244, 245, 246, 247, 248, 249, 250, 251, 252, 253, 254, 255]"
  by (simp add: upt_rec)

lemma huff_decode_codes_rows: "ngx_http_v2_huff_decode_codes = map huff_row [0..<256]"
  unfolding ngx_http_v2_huff_decode_codes_def upt_256
    huff_rows_0_ok(1)
    huff_rows_1_ok(1)
    huff_rows_2_ok(1)
    huff_rows_3_ok(1)
    huff_rows_4_ok(1)
    huff_rows_5_ok(1)
    huff_rows_6_ok(1)
    huff_rows_7_ok(1)
    huff_rows_8_ok(1)
    huff_rows_9_ok(1)
    huff_rows_10_ok(1)
    huff_rows_11_ok(1)
    huff_rows_12_ok(1)
    huff_rows_13_ok(1)
    huff_rows_14_ok(1)
    huff_rows_15_ok(1)
    huff_rows_16_ok(1)
    huff_rows_17_ok(1)
    huff_rows_18_ok(1)
  by simp

lemma huff_rows_ok: "list_all huff_row_ok [0..<256]"
  using huff_rows_0_ok(2)
    huff_rows_1_ok(2)
    huff_rows_2_ok(2)
    huff_rows_3_ok(2)
    huff_rows_4_ok(2)
    huff_rows_5_ok(2)
    huff_rows_6_ok(2)
    huff_rows_7_ok(2)
    huff_rows_8_ok(2)
    huff_rows_9_ok(2)
    huff_rows_10_ok(2)
    huff_rows_11_ok(2)
    huff_rows_12_ok(2)
    huff_rows_13_ok(2)
    huff_rows_14_ok(2)
    huff_rows_15_ok(2)
    huff_rows_16_ok(2)
    huff_rows_17_ok(2)
    huff_rows_18_ok(2)
  unfolding upt_256 list.pred_inject by blast

section \<open>The codes are its paths\<close>

lemma nat_bits_numeral [simp]: "nat_bits v (numeral k) = nat_bits (v div 2) (pred_numeral k) @ [odd v]"
  by (simp add: numeral_eq_Suc)

lemma huff_codes_walk:
  "map (\<lambda>(v, n). huff_walk 0 (nat_bits (unat v) n)) ngx_http_v2_huff_encode_table = map (\<lambda>c. Some ([c], 0)) all_bytes"
  by (simp add: ngx_http_v2_huff_encode_table_def all_bytes_code)

lemma huff_paths_simps:
  "huff_paths ! 0 = (0x0, 0)"
  "huff_paths ! Suc 0 = (0x0, 1)"
  "huff_paths ! 2 = (0x0, 2)"
  "huff_paths ! 3 = (0x0, 3)"
  "huff_paths ! 4 = (0x0, 4)"
  "huff_paths ! 5 = (0x1, 4)"
  "huff_paths ! 6 = (0x1, 3)"
  "huff_paths ! 7 = (0x2, 4)"
  "huff_paths ! 8 = (0x3, 4)"
  "huff_paths ! 9 = (0x1, 2)"
  "huff_paths ! 10 = (0x2, 3)"
  "huff_paths ! 11 = (0x4, 4)"
  "huff_paths ! 12 = (0x5, 4)"
  "huff_paths ! 13 = (0xa, 5)"
  "huff_paths ! 14 = (0xb, 5)"
  "huff_paths ! 15 = (0x3, 3)"
  "huff_paths ! 16 = (0x6, 4)"
  "huff_paths ! 17 = (0xc, 5)"
  "huff_paths ! 18 = (0xd, 5)"
  "huff_paths ! 19 = (0x7, 4)"
  "huff_paths ! 20 = (0xe, 5)"
  "huff_paths ! 21 = (0xf, 5)"
  "huff_paths ! 22 = (0x1, 1)"
  "huff_paths ! 23 = (0x2, 2)"
  "huff_paths ! 24 = (0x4, 3)"
  "huff_paths ! 25 = (0x8, 4)"
  "huff_paths ! 26 = (0x10, 5)"
  "huff_paths ! 27 = (0x11, 5)"
  "huff_paths ! 28 = (0x9, 4)"
  "huff_paths ! 29 = (0x12, 5)"
  "huff_paths ! 30 = (0x13, 5)"
  "huff_paths ! 31 = (0x5, 3)"
  "huff_paths ! 32 = (0xa, 4)"
  "huff_paths ! 33 = (0x14, 5)"
  "huff_paths ! 34 = (0x15, 5)"
  "huff_paths ! 35 = (0xb, 4)"
  "huff_paths ! 36 = (0x16, 5)"
  "huff_paths ! 37 = (0x17, 5)"
  "huff_paths ! 38 = (0x2e, 6)"
  "huff_paths ! 39 = (0x2f, 6)"
  "huff_paths ! 40 = (0x3, 2)"
  "huff_paths ! 41 = (0x6, 3)"
  "huff_paths ! 42 = (0xc, 4)"
  "huff_paths ! 43 = (0x18, 5)"
  "huff_paths ! 44 = (0x30, 6)"
  "huff_paths ! 45 = (0x31, 6)"
  "huff_paths ! 46 = (0x19, 5)"
  "huff_paths ! 47 = (0x32, 6)"
  "huff_paths ! 48 = (0x33, 6)"
  "huff_paths ! 49 = (0xd, 4)"
  "huff_paths ! 50 = (0x1a, 5)"
  "huff_paths ! 51 = (0x34, 6)"
  "huff_paths ! 52 = (0x35, 6)"
  "huff_paths ! 53 = (0x1b, 5)"
  "huff_paths ! 54 = (0x36, 6)"
  "huff_paths ! 55 = (0x37, 6)"
  "huff_paths ! 56 = (0x7, 3)"
  "huff_paths ! 57 = (0xe, 4)"
  "huff_paths ! 58 = (0x1c, 5)"
  "huff_paths ! 59 = (0x38, 6)"
  "huff_paths ! 60 = (0x39, 6)"
  "huff_paths ! 61 = (0x1d, 5)"
  "huff_paths ! 62 = (0x3a, 6)"
  "huff_paths ! 63 = (0x3b, 6)"
  "huff_paths ! 64 = (0xf, 4)"
  "huff_paths ! 65 = (0x1e, 5)"
  "huff_paths ! 66 = (0x3c, 6)"
  "huff_paths ! 67 = (0x3d, 6)"
  "huff_paths ! 68 = (0x1f, 5)"
  "huff_paths ! 69 = (0x3e, 6)"
  "huff_paths ! 70 = (0x7c, 7)"
  "huff_paths ! 71 = (0x7d, 7)"
  "huff_paths ! 72 = (0x3f, 6)"
  "huff_paths ! 73 = (0x7e, 7)"
  "huff_paths ! 74 = (0x7f, 7)"
  "huff_paths ! 75 = (0xfe, 8)"
  "huff_paths ! 76 = (0x1fc, 9)"
  "huff_paths ! 77 = (0x1fd, 9)"
  "huff_paths ! 78 = (0xff, 8)"
  "huff_paths ! 79 = (0x1fe, 9)"
  "huff_paths ! 80 = (0x3fd, 10)"
  "huff_paths ! 81 = (0x1ff, 9)"
  "huff_paths ! 82 = (0x3fe, 10)"
  "huff_paths ! 83 = (0x7fd, 11)"
  "huff_paths ! 84 = (0x3ff, 10)"
  "huff_paths ! 85 = (0x7fe, 11)"
  "huff_paths ! 86 = (0xffc, 12)"
  "huff_paths ! 87 = (0xffd, 12)"
  "huff_paths ! 88 = (0x7ff, 11)"
  "huff_paths ! 89 = (0xffe, 12)"
  "huff_paths ! 90 = (0xfff, 12)"
  "huff_paths ! 91 = (0x1ffe, 13)"
  "huff_paths ! 92 = (0x1fff, 13)"
  "huff_paths ! 93 = (0x3ffe, 14)"
  "huff_paths ! 94 = (0x3fff, 14)"
  "huff_paths ! 95 = (0x7fff, 15)"
  "huff_paths ! 96 = (0xfffe, 16)"
  "huff_paths ! 97 = (0x1fffc, 17)"
  "huff_paths ! 98 = (0x3fff8, 18)"
  "huff_paths ! 99 = (0x3fff9, 18)"
  "huff_paths ! 100 = (0x7fff3, 19)"
  "huff_paths ! 101 = (0x1fffd, 17)"
  "huff_paths ! 102 = (0x3fffa, 18)"
  "huff_paths ! 103 = (0x7fff4, 19)"
  "huff_paths ! 104 = (0x7fff5, 19)"
  "huff_paths ! 105 = (0x3fffb, 18)"
  "huff_paths ! 106 = (0x7fff6, 19)"
  "huff_paths ! 107 = (0x7fff7, 19)"
  "huff_paths ! 108 = (0xfffee, 20)"
  "huff_paths ! 109 = (0xfffef, 20)"
  "huff_paths ! 110 = (0xffff, 16)"
  "huff_paths ! 111 = (0x1fffe, 17)"
  "huff_paths ! 112 = (0x3fffc, 18)"
  "huff_paths ! 113 = (0x7fff8, 19)"
  "huff_paths ! 114 = (0xffff0, 20)"
  "huff_paths ! 115 = (0xffff1, 20)"
  "huff_paths ! 116 = (0x7fff9, 19)"
  "huff_paths ! 117 = (0xffff2, 20)"
  "huff_paths ! 118 = (0xffff3, 20)"
  "huff_paths ! 119 = (0x3fffd, 18)"
  "huff_paths ! 120 = (0x7fffa, 19)"
  "huff_paths ! 121 = (0xffff4, 20)"
  "huff_paths ! 122 = (0x1fffe9, 21)"
  "huff_paths ! 123 = (0xffff5, 20)"
  "huff_paths ! 124 = (0x1fffea, 21)"
  "huff_paths ! 125 = (0x1fffeb, 21)"
  "huff_paths ! 126 = (0x7fffb, 19)"
  "huff_paths ! 127 = (0xffff6, 20)"
  "huff_paths ! 128 = (0x1fffec, 21)"
  "huff_paths ! 129 = (0x1fffed, 21)"
  "huff_paths ! 130 = (0xffff7, 20)"
  "huff_paths ! 131 = (0x1fffee, 21)"
  "huff_paths ! 132 = (0x1fffef, 21)"
  "huff_paths ! 133 = (0x1ffff, 17)"
  "huff_paths ! 134 = (0x3fffe, 18)"
  "huff_paths ! 135 = (0x7fffc, 19)"
  "huff_paths ! 136 = (0xffff8, 20)"
  "huff_paths ! 137 = (0x1ffff0, 21)"
  "huff_paths ! 138 = (0x1ffff1, 21)"
  "huff_paths ! 139 = (0xffff9, 20)"
  "huff_paths ! 140 = (0x1ffff2, 21)"
  "huff_paths ! 141 = (0x1ffff3, 21)"
  "huff_paths ! 142 = (0x7fffd, 19)"
  "huff_paths ! 143 = (0xffffa, 20)"
  "huff_paths ! 144 = (0x1ffff4, 21)"
  "huff_paths ! 145 = (0x1ffff5, 21)"
  "huff_paths ! 146 = (0xffffb, 20)"
  "huff_paths ! 147 = (0x1ffff6, 21)"
  "huff_paths ! 148 = (0x3fffec, 22)"
  "huff_paths ! 149 = (0x3fffed, 22)"
  "huff_paths ! 150 = (0x1ffff7, 21)"
  "huff_paths ! 151 = (0x3fffee, 22)"
  "huff_paths ! 152 = (0x3fffef, 22)"
  "huff_paths ! 153 = (0x3ffff, 18)"
  "huff_paths ! 154 = (0x7fffe, 19)"
  "huff_paths ! 155 = (0xffffc, 20)"
  "huff_paths ! 156 = (0x1ffff8, 21)"
  "huff_paths ! 157 = (0x3ffff0, 22)"
  "huff_paths ! 158 = (0x3ffff1, 22)"
  "huff_paths ! 159 = (0x1ffff9, 21)"
  "huff_paths ! 160 = (0x3ffff2, 22)"
  "huff_paths ! 161 = (0x3ffff3, 22)"
  "huff_paths ! 162 = (0xffffd, 20)"
  "huff_paths ! 163 = (0x1ffffa, 21)"
  "huff_paths ! 164 = (0x3ffff4, 22)"
  "huff_paths ! 165 = (0x3ffff5, 22)"
  "huff_paths ! 166 = (0x1ffffb, 21)"
  "huff_paths ! 167 = (0x3ffff6, 22)"
  "huff_paths ! 168 = (0x3ffff7, 22)"
  "huff_paths ! 169 = (0x7ffff, 19)"
  "huff_paths ! 170 = (0xffffe, 20)"
  "huff_paths ! 171 = (0x1ffffc, 21)"
  "huff_paths ! 172 = (0x3ffff8, 22)"
  "huff_paths ! 173 = (0x3ffff9, 22)"
  "huff_paths ! 174 = (0x1ffffd, 21)"
  "huff_paths ! 175 = (0x3ffffa, 22)"
  "huff_paths ! 176 = (0x7ffff5, 23)"
  "huff_paths ! 177 = (0x3ffffb, 22)"
  "huff_paths ! 178 = (0x7ffff6, 23)"
  "huff_paths ! 179 = (0x7ffff7, 23)"
  "huff_paths ! 180 = (0xfffff, 20)"
  "huff_paths ! 181 = (0x1ffffe, 21)"
  "huff_paths ! 182 = (0x3ffffc, 22)"
  "huff_paths ! 183 = (0x7ffff8, 23)"
  "huff_paths ! 184 = (0x7ffff9, 23)"
  "huff_paths ! 185 = (0x3ffffd, 22)"
  "huff_paths ! 186 = (0x7ffffa, 23)"
  "huff_paths ! 187 = (0x7ffffb, 23)"
  "huff_paths ! 188 = (0xfffff6, 24)"
  "huff_paths ! 189 = (0xfffff7, 24)"
  "huff_paths ! 190 = (0x1fffff, 21)"
  "huff_paths ! 191 = (0x3ffffe, 22)"
  "huff_paths ! 192 = (0x7ffffc, 23)"
  "huff_paths ! 193 = (0xfffff8, 24)"
  "huff_paths ! 194 = (0x1fffff0, 25)"
  "huff_paths ! 195 = (0x1fffff1, 25)"
  "huff_paths ! 196 = (0xfffff9, 24)"
  "huff_paths ! 197 = (0x1fffff2, 25)"
  "huff_paths ! 198 = (0x1fffff3, 25)"
  "huff_paths ! 199 = (0x7ffffd, 23)"
  "huff_paths ! 200 = (0xfffffa, 24)"
  "huff_paths ! 201 = (0x1fffff4, 25)"
  "huff_paths ! 202 = (0x1fffff5, 25)"
  "huff_paths ! 203 = (0xfffffb, 24)"
  "huff_paths ! 204 = (0x1fffff6, 25)"
  "huff_paths ! 205 = (0x1fffff7, 25)"
  "huff_paths ! 206 = (0x3ffffef, 26)"
  "huff_paths ! 207 = (0x3fffff, 22)"
  "huff_paths ! 208 = (0x7ffffe, 23)"
  "huff_paths ! 209 = (0xfffffc, 24)"
  "huff_paths ! 210 = (0x1fffff8, 25)"
  "huff_paths ! 211 = (0x3fffff0, 26)"
  "huff_paths ! 212 = (0x3fffff1, 26)"
  "huff_paths ! 213 = (0x1fffff9, 25)"
  "huff_paths ! 214 = (0x3fffff2, 26)"
  "huff_paths ! 215 = (0x3fffff3, 26)"
  "huff_paths ! 216 = (0xfffffd, 24)"
  "huff_paths ! 217 = (0x1fffffa, 25)"
  "huff_paths ! 218 = (0x3fffff4, 26)"
  "huff_paths ! 219 = (0x3fffff5, 26)"
  "huff_paths ! 220 = (0x1fffffb, 25)"
  "huff_paths ! 221 = (0x3fffff6, 26)"
  "huff_paths ! 222 = (0x3fffff7, 26)"
  "huff_paths ! 223 = (0x7fffff, 23)"
  "huff_paths ! 224 = (0xfffffe, 24)"
  "huff_paths ! 225 = (0x1fffffc, 25)"
  "huff_paths ! 226 = (0x3fffff8, 26)"
  "huff_paths ! 227 = (0x7fffff1, 27)"
  "huff_paths ! 228 = (0x3fffff9, 26)"
  "huff_paths ! 229 = (0x7fffff2, 27)"
  "huff_paths ! 230 = (0x7fffff3, 27)"
  "huff_paths ! 231 = (0x1fffffd, 25)"
  "huff_paths ! 232 = (0x3fffffa, 26)"
  "huff_paths ! 233 = (0x7fffff4, 27)"
  "huff_paths ! 234 = (0x7fffff5, 27)"
  "huff_paths ! 235 = (0x3fffffb, 26)"
  "huff_paths ! 236 = (0x7fffff6, 27)"
  "huff_paths ! 237 = (0x7fffff7, 27)"
  "huff_paths ! 238 = (0xffffff, 24)"
  "huff_paths ! 239 = (0x1fffffe, 25)"
  "huff_paths ! 240 = (0x3fffffc, 26)"
  "huff_paths ! 241 = (0x7fffff8, 27)"
  "huff_paths ! 242 = (0x7fffff9, 27)"
  "huff_paths ! 243 = (0x3fffffd, 26)"
  "huff_paths ! 244 = (0x7fffffa, 27)"
  "huff_paths ! 245 = (0x7fffffb, 27)"
  "huff_paths ! 246 = (0x1ffffff, 25)"
  "huff_paths ! 247 = (0x3fffffe, 26)"
  "huff_paths ! 248 = (0x7fffffc, 27)"
  "huff_paths ! 249 = (0x7fffffd, 27)"
  "huff_paths ! 250 = (0x3ffffff, 26)"
  "huff_paths ! 251 = (0x7fffffe, 27)"
  "huff_paths ! 252 = (0x7ffffff, 27)"
  "huff_paths ! 253 = (0xfffffff, 28)"
  "huff_paths ! 254 = (0x1ffffffe, 29)"
  "huff_paths ! 255 = (0x1fffffff, 29)"
  by (simp_all add: huff_paths_def)

lemma huff_table_simps:
  "ngx_http_v2_huff_encode_table ! 0 = (0x1ff8, 13)"
  "ngx_http_v2_huff_encode_table ! Suc 0 = (0x7fffd8, 23)"
  "ngx_http_v2_huff_encode_table ! 2 = (0xfffffe2, 28)"
  "ngx_http_v2_huff_encode_table ! 3 = (0xfffffe3, 28)"
  "ngx_http_v2_huff_encode_table ! 4 = (0xfffffe4, 28)"
  "ngx_http_v2_huff_encode_table ! 5 = (0xfffffe5, 28)"
  "ngx_http_v2_huff_encode_table ! 6 = (0xfffffe6, 28)"
  "ngx_http_v2_huff_encode_table ! 7 = (0xfffffe7, 28)"
  "ngx_http_v2_huff_encode_table ! 8 = (0xfffffe8, 28)"
  "ngx_http_v2_huff_encode_table ! 9 = (0xffffea, 24)"
  "ngx_http_v2_huff_encode_table ! 10 = (0x3ffffffc, 30)"
  "ngx_http_v2_huff_encode_table ! 11 = (0xfffffe9, 28)"
  "ngx_http_v2_huff_encode_table ! 12 = (0xfffffea, 28)"
  "ngx_http_v2_huff_encode_table ! 13 = (0x3ffffffd, 30)"
  "ngx_http_v2_huff_encode_table ! 14 = (0xfffffeb, 28)"
  "ngx_http_v2_huff_encode_table ! 15 = (0xfffffec, 28)"
  "ngx_http_v2_huff_encode_table ! 16 = (0xfffffed, 28)"
  "ngx_http_v2_huff_encode_table ! 17 = (0xfffffee, 28)"
  "ngx_http_v2_huff_encode_table ! 18 = (0xfffffef, 28)"
  "ngx_http_v2_huff_encode_table ! 19 = (0xffffff0, 28)"
  "ngx_http_v2_huff_encode_table ! 20 = (0xffffff1, 28)"
  "ngx_http_v2_huff_encode_table ! 21 = (0xffffff2, 28)"
  "ngx_http_v2_huff_encode_table ! 22 = (0x3ffffffe, 30)"
  "ngx_http_v2_huff_encode_table ! 23 = (0xffffff3, 28)"
  "ngx_http_v2_huff_encode_table ! 24 = (0xffffff4, 28)"
  "ngx_http_v2_huff_encode_table ! 25 = (0xffffff5, 28)"
  "ngx_http_v2_huff_encode_table ! 26 = (0xffffff6, 28)"
  "ngx_http_v2_huff_encode_table ! 27 = (0xffffff7, 28)"
  "ngx_http_v2_huff_encode_table ! 28 = (0xffffff8, 28)"
  "ngx_http_v2_huff_encode_table ! 29 = (0xffffff9, 28)"
  "ngx_http_v2_huff_encode_table ! 30 = (0xffffffa, 28)"
  "ngx_http_v2_huff_encode_table ! 31 = (0xffffffb, 28)"
  "ngx_http_v2_huff_encode_table ! 32 = (0x14, 6)"
  "ngx_http_v2_huff_encode_table ! 33 = (0x3f8, 10)"
  "ngx_http_v2_huff_encode_table ! 34 = (0x3f9, 10)"
  "ngx_http_v2_huff_encode_table ! 35 = (0xffa, 12)"
  "ngx_http_v2_huff_encode_table ! 36 = (0x1ff9, 13)"
  "ngx_http_v2_huff_encode_table ! 37 = (0x15, 6)"
  "ngx_http_v2_huff_encode_table ! 38 = (0xf8, 8)"
  "ngx_http_v2_huff_encode_table ! 39 = (0x7fa, 11)"
  "ngx_http_v2_huff_encode_table ! 40 = (0x3fa, 10)"
  "ngx_http_v2_huff_encode_table ! 41 = (0x3fb, 10)"
  "ngx_http_v2_huff_encode_table ! 42 = (0xf9, 8)"
  "ngx_http_v2_huff_encode_table ! 43 = (0x7fb, 11)"
  "ngx_http_v2_huff_encode_table ! 44 = (0xfa, 8)"
  "ngx_http_v2_huff_encode_table ! 45 = (0x16, 6)"
  "ngx_http_v2_huff_encode_table ! 46 = (0x17, 6)"
  "ngx_http_v2_huff_encode_table ! 47 = (0x18, 6)"
  "ngx_http_v2_huff_encode_table ! 48 = (0x0, 5)"
  "ngx_http_v2_huff_encode_table ! 49 = (0x1, 5)"
  "ngx_http_v2_huff_encode_table ! 50 = (0x2, 5)"
  "ngx_http_v2_huff_encode_table ! 51 = (0x19, 6)"
  "ngx_http_v2_huff_encode_table ! 52 = (0x1a, 6)"
  "ngx_http_v2_huff_encode_table ! 53 = (0x1b, 6)"
  "ngx_http_v2_huff_encode_table ! 54 = (0x1c, 6)"
  "ngx_http_v2_huff_encode_table ! 55 = (0x1d, 6)"
  "ngx_http_v2_huff_encode_table ! 56 = (0x1e, 6)"
  "ngx_http_v2_huff_encode_table ! 57 = (0x1f, 6)"
  "ngx_http_v2_huff_encode_table ! 58 = (0x5c, 7)"
  "ngx_http_v2_huff_encode_table ! 59 = (0xfb, 8)"
  "ngx_http_v2_huff_encode_table ! 60 = (0x7ffc, 15)"
  "ngx_http_v2_huff_encode_table ! 61 = (0x20, 6)"
  "ngx_http_v2_huff_encode_table ! 62 = (0xffb, 12)"
  "ngx_http_v2_huff_encode_table ! 63 = (0x3fc, 10)"
  "ngx_http_v2_huff_encode_table ! 64 = (0x1ffa, 13)"
  "ngx_http_v2_huff_encode_table ! 65 = (0x21, 6)"
  "ngx_http_v2_huff_encode_table ! 66 = (0x5d, 7)"
  "ngx_http_v2_huff_encode_table ! 67 = (0x5e, 7)"
  "ngx_http_v2_huff_encode_table ! 68 = (0x5f, 7)"
  "ngx_http_v2_huff_encode_table ! 69 = (0x60, 7)"
  "ngx_http_v2_huff_encode_table ! 70 = (0x61, 7)"
  "ngx_http_v2_huff_encode_table ! 71 = (0x62, 7)"
  "ngx_http_v2_huff_encode_table ! 72 = (0x63, 7)"
  "ngx_http_v2_huff_encode_table ! 73 = (0x64, 7)"
  "ngx_http_v2_huff_encode_table ! 74 = (0x65, 7)"
  "ngx_http_v2_huff_encode_table ! 75 = (0x66, 7)"
  "ngx_http_v2_huff_encode_table ! 76 = (0x67, 7)"
  "ngx_http_v2_huff_encode_table ! 77 = (0x68, 7)"
  "ngx_http_v2_huff_encode_table ! 78 = (0x69, 7)"
  "ngx_http_v2_huff_encode_table ! 79 = (0x6a, 7)"
  "ngx_http_v2_huff_encode_table ! 80 = (0x6b, 7)"
  "ngx_http_v2_huff_encode_table ! 81 = (0x6c, 7)"
  "ngx_http_v2_huff_encode_table ! 82 = (0x6d, 7)"
  "ngx_http_v2_huff_encode_table ! 83 = (0x6e, 7)"
  "ngx_http_v2_huff_encode_table ! 84 = (0x6f, 7)"
  "ngx_http_v2_huff_encode_table ! 85 = (0x70, 7)"
  "ngx_http_v2_huff_encode_table ! 86 = (0x71, 7)"
  "ngx_http_v2_huff_encode_table ! 87 = (0x72, 7)"
  "ngx_http_v2_huff_encode_table ! 88 = (0xfc, 8)"
  "ngx_http_v2_huff_encode_table ! 89 = (0x73, 7)"
  "ngx_http_v2_huff_encode_table ! 90 = (0xfd, 8)"
  "ngx_http_v2_huff_encode_table ! 91 = (0x1ffb, 13)"
  "ngx_http_v2_huff_encode_table ! 92 = (0x7fff0, 19)"
  "ngx_http_v2_huff_encode_table ! 93 = (0x1ffc, 13)"
  "ngx_http_v2_huff_encode_table ! 94 = (0x3ffc, 14)"
  "ngx_http_v2_huff_encode_table ! 95 = (0x22, 6)"
  "ngx_http_v2_huff_encode_table ! 96 = (0x7ffd, 15)"
  "ngx_http_v2_huff_encode_table ! 97 = (0x3, 5)"
  "ngx_http_v2_huff_encode_table ! 98 = (0x23, 6)"
  "ngx_http_v2_huff_encode_table ! 99 = (0x4, 5)"
  "ngx_http_v2_huff_encode_table ! 100 = (0x24, 6)"
  "ngx_http_v2_huff_encode_table ! 101 = (0x5, 5)"
  "ngx_http_v2_huff_encode_table ! 102 = (0x25, 6)"
  "ngx_http_v2_huff_encode_table ! 103 = (0x26, 6)"
  "ngx_http_v2_huff_encode_table ! 104 = (0x27, 6)"
  "ngx_http_v2_huff_encode_table ! 105 = (0x6, 5)"
  "ngx_http_v2_huff_encode_table ! 106 = (0x74, 7)"
  "ngx_http_v2_huff_encode_table ! 107 = (0x75, 7)"
  "ngx_http_v2_huff_encode_table ! 108 = (0x28, 6)"
  "ngx_http_v2_huff_encode_table ! 109 = (0x29, 6)"
  "ngx_http_v2_huff_encode_table ! 110 = (0x2a, 6)"
  "ngx_http_v2_huff_encode_table ! 111 = (0x7, 5)"
  "ngx_http_v2_huff_encode_table ! 112 = (0x2b, 6)"
  "ngx_http_v2_huff_encode_table ! 113 = (0x76, 7)"
  "ngx_http_v2_huff_encode_table ! 114 = (0x2c, 6)"
  "ngx_http_v2_huff_encode_table ! 115 = (0x8, 5)"
  "ngx_http_v2_huff_encode_table ! 116 = (0x9, 5)"
  "ngx_http_v2_huff_encode_table ! 117 = (0x2d, 6)"
  "ngx_http_v2_huff_encode_table ! 118 = (0x77, 7)"
  "ngx_http_v2_huff_encode_table ! 119 = (0x78, 7)"
  "ngx_http_v2_huff_encode_table ! 120 = (0x79, 7)"
  "ngx_http_v2_huff_encode_table ! 121 = (0x7a, 7)"
  "ngx_http_v2_huff_encode_table ! 122 = (0x7b, 7)"
  "ngx_http_v2_huff_encode_table ! 123 = (0x7ffe, 15)"
  "ngx_http_v2_huff_encode_table ! 124 = (0x7fc, 11)"
  "ngx_http_v2_huff_encode_table ! 125 = (0x3ffd, 14)"
  "ngx_http_v2_huff_encode_table ! 126 = (0x1ffd, 13)"
  "ngx_http_v2_huff_encode_table ! 127 = (0xffffffc, 28)"
  "ngx_http_v2_huff_encode_table ! 128 = (0xfffe6, 20)"
  "ngx_http_v2_huff_encode_table ! 129 = (0x3fffd2, 22)"
  "ngx_http_v2_huff_encode_table ! 130 = (0xfffe7, 20)"
  "ngx_http_v2_huff_encode_table ! 131 = (0xfffe8, 20)"
  "ngx_http_v2_huff_encode_table ! 132 = (0x3fffd3, 22)"
  "ngx_http_v2_huff_encode_table ! 133 = (0x3fffd4, 22)"
  "ngx_http_v2_huff_encode_table ! 134 = (0x3fffd5, 22)"
  "ngx_http_v2_huff_encode_table ! 135 = (0x7fffd9, 23)"
  "ngx_http_v2_huff_encode_table ! 136 = (0x3fffd6, 22)"
  "ngx_http_v2_huff_encode_table ! 137 = (0x7fffda, 23)"
  "ngx_http_v2_huff_encode_table ! 138 = (0x7fffdb, 23)"
  "ngx_http_v2_huff_encode_table ! 139 = (0x7fffdc, 23)"
  "ngx_http_v2_huff_encode_table ! 140 = (0x7fffdd, 23)"
  "ngx_http_v2_huff_encode_table ! 141 = (0x7fffde, 23)"
  "ngx_http_v2_huff_encode_table ! 142 = (0xffffeb, 24)"
  "ngx_http_v2_huff_encode_table ! 143 = (0x7fffdf, 23)"
  "ngx_http_v2_huff_encode_table ! 144 = (0xffffec, 24)"
  "ngx_http_v2_huff_encode_table ! 145 = (0xffffed, 24)"
  "ngx_http_v2_huff_encode_table ! 146 = (0x3fffd7, 22)"
  "ngx_http_v2_huff_encode_table ! 147 = (0x7fffe0, 23)"
  "ngx_http_v2_huff_encode_table ! 148 = (0xffffee, 24)"
  "ngx_http_v2_huff_encode_table ! 149 = (0x7fffe1, 23)"
  "ngx_http_v2_huff_encode_table ! 150 = (0x7fffe2, 23)"
  "ngx_http_v2_huff_encode_table ! 151 = (0x7fffe3, 23)"
  "ngx_http_v2_huff_encode_table ! 152 = (0x7fffe4, 23)"
  "ngx_http_v2_huff_encode_table ! 153 = (0x1fffdc, 21)"
  "ngx_http_v2_huff_encode_table ! 154 = (0x3fffd8, 22)"
  "ngx_http_v2_huff_encode_table ! 155 = (0x7fffe5, 23)"
  "ngx_http_v2_huff_encode_table ! 156 = (0x3fffd9, 22)"
  "ngx_http_v2_huff_encode_table ! 157 = (0x7fffe6, 23)"
  "ngx_http_v2_huff_encode_table ! 158 = (0x7fffe7, 23)"
  "ngx_http_v2_huff_encode_table ! 159 = (0xffffef, 24)"
  "ngx_http_v2_huff_encode_table ! 160 = (0x3fffda, 22)"
  "ngx_http_v2_huff_encode_table ! 161 = (0x1fffdd, 21)"
  "ngx_http_v2_huff_encode_table ! 162 = (0xfffe9, 20)"
  "ngx_http_v2_huff_encode_table ! 163 = (0x3fffdb, 22)"
  "ngx_http_v2_huff_encode_table ! 164 = (0x3fffdc, 22)"
  "ngx_http_v2_huff_encode_table ! 165 = (0x7fffe8, 23)"
  "ngx_http_v2_huff_encode_table ! 166 = (0x7fffe9, 23)"
  "ngx_http_v2_huff_encode_table ! 167 = (0x1fffde, 21)"
  "ngx_http_v2_huff_encode_table ! 168 = (0x7fffea, 23)"
  "ngx_http_v2_huff_encode_table ! 169 = (0x3fffdd, 22)"
  "ngx_http_v2_huff_encode_table ! 170 = (0x3fffde, 22)"
  "ngx_http_v2_huff_encode_table ! 171 = (0xfffff0, 24)"
  "ngx_http_v2_huff_encode_table ! 172 = (0x1fffdf, 21)"
  "ngx_http_v2_huff_encode_table ! 173 = (0x3fffdf, 22)"
  "ngx_http_v2_huff_encode_table ! 174 = (0x7fffeb, 23)"
  "ngx_http_v2_huff_encode_table ! 175 = (0x7fffec, 23)"
  "ngx_http_v2_huff_encode_table ! 176 = (0x1fffe0, 21)"
  "ngx_http_v2_huff_encode_table ! 177 = (0x1fffe1, 21)"
  "ngx_http_v2_huff_encode_table ! 178 = (0x3fffe0, 22)"
  "ngx_http_v2_huff_encode_table ! 179 = (0x1fffe2, 21)"
  "ngx_http_v2_huff_encode_table ! 180 = (0x7fffed, 23)"
  "ngx_http_v2_huff_encode_table ! 181 = (0x3fffe1, 22)"
  "ngx_http_v2_huff_encode_table ! 182 = (0x7fffee, 23)"
  "ngx_http_v2_huff_encode_table ! 183 = (0x7fffef, 23)"
  "ngx_http_v2_huff_encode_table ! 184 = (0xfffea, 20)"
  "ngx_http_v2_huff_encode_table ! 185 = (0x3fffe2, 22)"
  "ngx_http_v2_huff_encode_table ! 186 = (0x3fffe3, 22)"
  "ngx_http_v2_huff_encode_table ! 187 = (0x3fffe4, 22)"
  "ngx_http_v2_huff_encode_table ! 188 = (0x7ffff0, 23)"
  "ngx_http_v2_huff_encode_table ! 189 = (0x3fffe5, 22)"
  "ngx_http_v2_huff_encode_table ! 190 = (0x3fffe6, 22)"
  "ngx_http_v2_huff_encode_table ! 191 = (0x7ffff1, 23)"
  "ngx_http_v2_huff_encode_table ! 192 = (0x3ffffe0, 26)"
  "ngx_http_v2_huff_encode_table ! 193 = (0x3ffffe1, 26)"
  "ngx_http_v2_huff_encode_table ! 194 = (0xfffeb, 20)"
  "ngx_http_v2_huff_encode_table ! 195 = (0x7fff1, 19)"
  "ngx_http_v2_huff_encode_table ! 196 = (0x3fffe7, 22)"
  "ngx_http_v2_huff_encode_table ! 197 = (0x7ffff2, 23)"
  "ngx_http_v2_huff_encode_table ! 198 = (0x3fffe8, 22)"
  "ngx_http_v2_huff_encode_table ! 199 = (0x1ffffec, 25)"
  "ngx_http_v2_huff_encode_table ! 200 = (0x3ffffe2, 26)"
  "ngx_http_v2_huff_encode_table ! 201 = (0x3ffffe3, 26)"
  "ngx_http_v2_huff_encode_table ! 202 = (0x3ffffe4, 26)"
  "ngx_http_v2_huff_encode_table ! 203 = (0x7ffffde, 27)"
  "ngx_http_v2_huff_encode_table ! 204 = (0x7ffffdf, 27)"
  "ngx_http_v2_huff_encode_table ! 205 = (0x3ffffe5, 26)"
  "ngx_http_v2_huff_encode_table ! 206 = (0xfffff1, 24)"
  "ngx_http_v2_huff_encode_table ! 207 = (0x1ffffed, 25)"
  "ngx_http_v2_huff_encode_table ! 208 = (0x7fff2, 19)"
  "ngx_http_v2_huff_encode_table ! 209 = (0x1fffe3, 21)"
  "ngx_http_v2_huff_encode_table ! 210 = (0x3ffffe6, 26)"
  "ngx_http_v2_huff_encode_table ! 211 = (0x7ffffe0, 27)"
  "ngx_http_v2_huff_encode_table ! 212 = (0x7ffffe1, 27)"
  "ngx_http_v2_huff_encode_table ! 213 = (0x3ffffe7, 26)"
  "ngx_http_v2_huff_encode_table ! 214 = (0x7ffffe2, 27)"
  "ngx_http_v2_huff_encode_table ! 215 = (0xfffff2, 24)"
  "ngx_http_v2_huff_encode_table ! 216 = (0x1fffe4, 21)"
  "ngx_http_v2_huff_encode_table ! 217 = (0x1fffe5, 21)"
  "ngx_http_v2_huff_encode_table ! 218 = (0x3ffffe8, 26)"
  "ngx_http_v2_huff_encode_table ! 219 = (0x3ffffe9, 26)"
  "ngx_http_v2_huff_encode_table ! 220 = (0xffffffd, 28)"
  "ngx_http_v2_huff_encode_table ! 221 = (0x7ffffe3, 27)"
  "ngx_http_v2_huff_encode_table ! 222 = (0x7ffffe4, 27)"
  "ngx_http_v2_huff_encode_table ! 223 = (0x7ffffe5, 27)"
  "ngx_http_v2_huff_encode_table ! 224 = (0xfffec, 20)"
  "ngx_http_v2_huff_encode_table ! 225 = (0xfffff3, 24)"
  "ngx_http_v2_huff_encode_table ! 226 = (0xfffed, 20)"
  "ngx_http_v2_huff_encode_table ! 227 = (0x1fffe6, 21)"
  "ngx_http_v2_huff_encode_table ! 228 = (0x3fffe9, 22)"
  "ngx_http_v2_huff_encode_table ! 229 = (0x1fffe7, 21)"
  "ngx_http_v2_huff_encode_table ! 230 = (0x1fffe8, 21)"
  "ngx_http_v2_huff_encode_table ! 231 = (0x7ffff3, 23)"
  "ngx_http_v2_huff_encode_table ! 232 = (0x3fffea, 22)"
  "ngx_http_v2_huff_encode_table ! 233 = (0x3fffeb, 22)"
  "ngx_http_v2_huff_encode_table ! 234 = (0x1ffffee, 25)"
  "ngx_http_v2_huff_encode_table ! 235 = (0x1ffffef, 25)"
  "ngx_http_v2_huff_encode_table ! 236 = (0xfffff4, 24)"
  "ngx_http_v2_huff_encode_table ! 237 = (0xfffff5, 24)"
  "ngx_http_v2_huff_encode_table ! 238 = (0x3ffffea, 26)"
  "ngx_http_v2_huff_encode_table ! 239 = (0x7ffff4, 23)"
  "ngx_http_v2_huff_encode_table ! 240 = (0x3ffffeb, 26)"
  "ngx_http_v2_huff_encode_table ! 241 = (0x7ffffe6, 27)"
  "ngx_http_v2_huff_encode_table ! 242 = (0x3ffffec, 26)"
  "ngx_http_v2_huff_encode_table ! 243 = (0x3ffffed, 26)"
  "ngx_http_v2_huff_encode_table ! 244 = (0x7ffffe7, 27)"
  "ngx_http_v2_huff_encode_table ! 245 = (0x7ffffe8, 27)"
  "ngx_http_v2_huff_encode_table ! 246 = (0x7ffffe9, 27)"
  "ngx_http_v2_huff_encode_table ! 247 = (0x7ffffea, 27)"
  "ngx_http_v2_huff_encode_table ! 248 = (0x7ffffeb, 27)"
  "ngx_http_v2_huff_encode_table ! 249 = (0xffffffe, 28)"
  "ngx_http_v2_huff_encode_table ! 250 = (0x7ffffec, 27)"
  "ngx_http_v2_huff_encode_table ! 251 = (0x7ffffed, 27)"
  "ngx_http_v2_huff_encode_table ! 252 = (0x7ffffee, 27)"
  "ngx_http_v2_huff_encode_table ! 253 = (0x7ffffef, 27)"
  "ngx_http_v2_huff_encode_table ! 254 = (0x7fffff0, 27)"
  "ngx_http_v2_huff_encode_table ! 255 = (0x3ffffee, 26)"
  by (simp_all add: ngx_http_v2_huff_encode_table_def)

text \<open>A child is on the path of its parent with one bit more.\<close>

definition huff_link_ok :: "nat \<Rightarrow> bool \<Rightarrow> bool" where
  "huff_link_ok i b \<longleftrightarrow>
     (case huff_paths ! i of (v, n) \<Rightarrow> n < 30 \<and>
        (case huff_child i b of
           HEOS \<Rightarrow> True
         | HN j \<Rightarrow> j < 256 \<and> huff_paths ! j = (2 * v + of_bool b, n + 1)
         | HS c \<Rightarrow> map_prod unat id (ngx_http_v2_huff_encode_table ! unat c) = (2 * v + of_bool b, n + 1)))"

lemma huff_links_ok: "list_all (\<lambda>i. huff_link_ok i False \<and> huff_link_ok i True) [0..<256]"
  unfolding upt_256 by (simp add: huff_link_ok_def huff_paths_simps huff_table_simps)

lemma huff_ones_walk:
  "list_all (\<lambda>k. case huff_walk 0 (replicate k True) of None \<Rightarrow> False | Some (out, t) \<Rightarrow> out = [] \<and> huff_ending t) [0..<30]"
  by (simp add: upt_rec replicate_numeral)

lemma huff_lc_table:
  "ngx_http_v2_huff_encode_table_lc
    = map (\<lambda>c. ngx_http_v2_huff_encode_table ! unat (if c \<ge> 0x41 \<and> c \<le> 0x5a then c OR 0x20 else c)) all_bytes"
  by (simp add: ngx_http_v2_huff_encode_table_lc_def all_bytes_code word_le_nat_alt huff_table_simps)

lemma huff_code_sizes:
  "list_all (\<lambda>(v, n). unat v < 2 ^ n \<and> 5 \<le> n \<and> n \<le> 30) ngx_http_v2_huff_encode_table"
  by (simp add: ngx_http_v2_huff_encode_table_def)


end
