(* ===== verification/H2_Huffman.thy ===== *)
theory H2_Huffman
  imports H2_Huffman_Table Http_Header_Line
begin

text \<open>
  The Huffman code of HTTP/2 header strings: \<open>ngx_http_v2_huff_decode\<close>, which walks the decoding
  table four bits at a time and can be called on a string in pieces, and
  \<open>ngx_http_v2_huff_encode\<close>, which gathers the codes in a word of 64 bits and gives up when the
  result would not be shorter. \<open>ngx_uint_t\<close> has 64 bits.
\<close>

section \<open>Decoding\<close>

text \<open>One step: the new state and \<open>ending\<close> flag and what is emitted; \<open>None\<close> for a bad code.\<close>

definition ngx_http_v2_huff_decode_bits :: "u_char \<Rightarrow> nat \<Rightarrow> (u_char \<times> u_char \<times> bytes) option" where
  "ngx_http_v2_huff_decode_bits state bits =
     (let code = ngx_http_v2_huff_decode_codes ! unat state ! bits in
      if code_next code = state then None
      else Some (code_next code, code_ending code, if code_emit code \<noteq> 0 then [code_sym code] else []))"

text \<open>The loop over the bytes: whether it went through, state, flag and output so far.\<close>

fun huff_decode_loop :: "u_char \<Rightarrow> u_char \<Rightarrow> bytes \<Rightarrow> bytes \<Rightarrow> bool \<times> u_char \<times> u_char \<times> bytes" where
  "huff_decode_loop state ending [] out = (True, state, ending, out)"
| "huff_decode_loop state ending (ch # src) out =
     (case ngx_http_v2_huff_decode_bits state (unat (drop_bit 4 ch)) of
        None \<Rightarrow> (False, state, ending, out)
      | Some (state1, ending1, o1) \<Rightarrow>
          (case ngx_http_v2_huff_decode_bits state1 (unat (ch AND 0xf)) of
             None \<Rightarrow> (False, state1, ending1, out @ o1)
           | Some (state2, ending2, o2) \<Rightarrow> huff_decode_loop state2 ending2 src (out @ o1 @ o2)))"

definition ngx_http_v2_huff_decode :: "u_char \<Rightarrow> bytes \<Rightarrow> bool \<Rightarrow> ngx_rc \<times> u_char \<times> bytes" where
  "ngx_http_v2_huff_decode state src final =
     (case huff_decode_loop state 1 src [] of
        (False, st, _, out) \<Rightarrow> (NGX_ERROR, st, out)
      | (True, st, ending, out) \<Rightarrow>
          if final then (if ending = 0 then (NGX_ERROR, st, out) else (NGX_OK, 0, out))
          else (NGX_OK, st, out))"

section \<open>Encoding\<close>

definition huff_encode_buf :: "u64 \<Rightarrow> bytes" where
  "huff_encode_buf buf =
     [ucast (drop_bit 56 buf), ucast (drop_bit 48 buf), ucast (drop_bit 40 buf), ucast (drop_bit 32 buf),
      ucast (drop_bit 24 buf), ucast (drop_bit 16 buf), ucast (drop_bit 8 buf), ucast buf]"

text \<open>The loop; \<open>None\<close> is the return of 0. The bytes written are \<open>dst\<close>, \<open>hlen\<close> is their number.\<close>

fun huff_encode_loop ::
    "(u32 \<times> nat) list \<Rightarrow> nat \<Rightarrow> bytes \<Rightarrow> u64 \<Rightarrow> nat \<Rightarrow> bytes \<Rightarrow> (u64 \<times> nat \<times> bytes) option" where
  "huff_encode_loop table len [] buf pending dst = Some (buf, pending, dst)"
| "huff_encode_loop table len (c # src) buf pending dst =
     (case table ! unat c of
        (code32, n) \<Rightarrow>
          let code = (ucast code32 :: u64); pending = pending + n in
          if pending < 64 then huff_encode_loop table len src (buf OR push_bit (64 - pending) code) pending dst
          else if length dst + 8 \<ge> len then None
          else
            let pending = pending - 64; buf = buf OR drop_bit pending code in
            huff_encode_loop table len src (if pending \<noteq> 0 then push_bit (64 - pending) code else 0) pending
              (dst @ huff_encode_buf buf))"

text \<open>The last bytes, \<open>pending div 8\<close> of them.\<close>

fun huff_encode_rest :: "nat \<Rightarrow> u64 \<Rightarrow> bytes" where
  "huff_encode_rest 0 buf = []"
| "huff_encode_rest (Suc k) buf = ucast (drop_bit (8 * k) buf) # huff_encode_rest k buf"

definition ngx_http_v2_huff_encode :: "bytes \<Rightarrow> bool \<Rightarrow> bytes" where
  "ngx_http_v2_huff_encode src lower =
     (let table = (if lower then ngx_http_v2_huff_encode_table_lc else ngx_http_v2_huff_encode_table) in
      case huff_encode_loop table (length src) src 0 0 [] of
        None \<Rightarrow> []
      | Some (buf, pending, dst) \<Rightarrow>
          if pending = 0 then dst
          else
            let buf = buf OR drop_bit pending (- 1); pending = (pending + 7) div 8 * 8 in
            if length dst + pending div 8 \<ge> length src then []
            else dst @ huff_encode_rest (pending div 8) (drop_bit (64 - pending) buf))"

section \<open>Bits\<close>

text \<open>The bits of a string, highest first, and the code of a byte.\<close>

definition byte_bits :: "u_char \<Rightarrow> bool list" where
  "byte_bits c = map (\<lambda>k. bit c (7 - k)) [0..<8]"

definition bits_of :: "bytes \<Rightarrow> bool list" where
  "bits_of s = concat (map byte_bits s)"

definition huff_code :: "u_char \<Rightarrow> bool list" where
  "huff_code c = (case ngx_http_v2_huff_encode_table ! unat c of (v, n) \<Rightarrow> nat_bits (unat v) n)"

definition huff_bits :: "bytes \<Rightarrow> bool list" where
  "huff_bits s = concat (map huff_code s)"

section \<open>The decoder and the tree\<close>

lemma huff_walk_append:
  "huff_walk i (xs @ ys) =
     (case huff_walk i xs of None \<Rightarrow> None
      | Some (out, j) \<Rightarrow> map_option (\<lambda>(out', t). (out @ out', t)) (huff_walk j ys))"
  by (induction i xs rule: huff_walk.induct) (auto split: huff_child.splits option.splits simp: map_option_case)

lemma huff_walk_code: "huff_walk 0 (huff_code c) = Some ([c], 0)"
proof -
  have "map (\<lambda>(v, n). huff_walk 0 (nat_bits (unat v) n)) ngx_http_v2_huff_encode_table ! unat c = Some ([c], 0)"
    by (rule table_nth [OF huff_codes_walk])
  moreover have "length ngx_http_v2_huff_encode_table = 256"
    using arg_cong [OF huff_codes_walk, of length] by (simp add: all_bytes_def)
  ultimately show ?thesis by (simp add: huff_code_def case_prod_beta)
qed

lemma huff_walk_bits: "huff_walk 0 (huff_bits s) = Some (s, 0)"
  by (induction s) (auto simp: huff_bits_def huff_walk_append huff_walk_code)


definition huff_path :: "nat \<Rightarrow> bool list" where
  "huff_path i = (case huff_paths ! i of (v, n) \<Rightarrow> nat_bits v n)"

lemma huff_path_0 [simp]: "huff_path 0 = []"
  by (simp add: huff_path_def huff_paths_simps)

lemma huff_link: "i < 256 \<Longrightarrow> huff_link_ok i b"
  using huff_links_ok by (cases b) (auto simp: list_all_iff)

lemma nat_bits_snoc: "nat_bits (2 * v + of_bool b) (n + 1) = nat_bits v n @ [b]"
  by (cases b) simp_all

lemma huff_path_child: "i < 256 \<Longrightarrow> huff_child i b = HN j \<Longrightarrow> j < 256 \<and> huff_path j = huff_path i @ [b]"
  using huff_link [of i b] nat_bits_snoc [of _ b]
  by (auto simp: huff_link_ok_def huff_path_def split: prod.splits)

lemma huff_path_leaf: "i < 256 \<Longrightarrow> huff_child i b = HS c \<Longrightarrow> huff_code c = huff_path i @ [b]"
proof -
  assume i: "i < 256" and c: "huff_child i b = HS c"
  obtain v n where p: "huff_paths ! i = (v, n)" by (cases "huff_paths ! i")
  obtain w m where t: "ngx_http_v2_huff_encode_table ! unat c = (w, m)"
    by (cases "ngx_http_v2_huff_encode_table ! unat c")
  have "unat w = 2 * v + of_bool b" "m = n + 1"
    using huff_link [OF i, of b] c p t by (auto simp: huff_link_ok_def)
  then show "huff_code c = huff_path i @ [b]"
    using nat_bits_snoc [of v b n] p t by (simp add: huff_code_def huff_path_def)
qed

lemma huff_walk_sound:
  "huff_walk i bs = Some (out, t) \<Longrightarrow> i < 256 \<Longrightarrow> t < 256 \<and> huff_path i @ bs = huff_bits out @ huff_path t"
proof (induction i bs arbitrary: out rule: huff_walk.induct)
  case (1 i)
  then show ?case by (simp add: huff_bits_def)
next
  case (2 i b bs)
  show ?case
  proof (cases "huff_child i b")
    case (HN j)
    then have "t < 256 \<and> huff_path j @ bs = huff_bits out @ huff_path t"
      using "2.IH"(1) [OF HN] "2.prems" huff_path_child [OF "2.prems"(2) HN] HN by simp
    then show ?thesis using huff_path_child [OF "2.prems"(2) HN] by simp
  next
    case (HS c)
    then obtain o' where o': "huff_walk 0 bs = Some (o', t)" "out = c # o'" using "2.prems"(1) by auto
    then have "t < 256 \<and> bs = huff_bits o' @ huff_path t" using "2.IH"(2) HS by simp
    then show ?thesis using huff_path_leaf [OF "2.prems"(2) HS] o' by (simp add: huff_bits_def)
  next
    case HEOS
    then show ?thesis using "2.prems" by simp
  qed
qed

lemma nat_bits_ones: "nat_bits (2 ^ n - 1) n = replicate n True"
proof (induction n)
  case (Suc n)
  have "(2 ^ Suc n - 1) div 2 = (2 ^ n - 1 :: nat)" by (cases n) simp_all
  moreover have "odd (2 ^ Suc n - 1 :: nat)" by simp
  ultimately show ?case using Suc by (simp add: replicate_append_same del: power_Suc)
qed simp

lemma huff_ending_path: "i < 256 \<Longrightarrow> huff_ending i \<Longrightarrow> \<exists>k<30. huff_path i = replicate k True"
  using huff_link [of i True]
  by (auto simp: huff_ending_def huff_path_def huff_link_ok_def nat_bits_ones [simplified One_nat_def] split: prod.splits)

lemma huff_ending_0 [simp]: "huff_ending 0"
  by (simp add: huff_ending_def huff_paths_simps)

lemma nibbles_nth: "n < 16 \<Longrightarrow> nibbles ! n \<in> set nibbles"
  by (rule nth_mem) (simp add: nibbles_def)

lemma huff_decode_bits_walk:
  assumes s: "s < 256" and n: "n < 16"
  shows "ngx_http_v2_huff_decode_bits (word_of_nat s) n =
    (case huff_walk s (nibbles ! n) of
       None \<Rightarrow> None
     | Some (out, t) \<Rightarrow> Some (word_of_nat t, if huff_ending t then 1 else 0, out))"
proof -
  have len: "length nibbles = 16" by (simp add: nibbles_def)
  have u: "unat (word_of_nat s :: u_char) = s" using s by (simp add: unat_of_nat)
  have e: "ngx_http_v2_huff_decode_codes ! s ! n = huff_entry s (nibbles ! n)"
    using s n len by (simp add: huff_decode_codes_rows huff_row_def)
  have ok: "case huff_walk s (nibbles ! n) of None \<Rightarrow> True | Some (out, t) \<Rightarrow> t \<noteq> s \<and> t < 256 \<and> length out \<le> 1"
    using huff_rows_ok s nibbles_nth [OF n] by (simp add: list_all_iff huff_row_ok_def)
  show ?thesis
  proof (cases "huff_walk s (nibbles ! n)")
    case None
    then show ?thesis by (simp add: ngx_http_v2_huff_decode_bits_def u e huff_entry_def)
  next
    case (Some r)
    obtain out t where r: "r = (out, t)" by (cases r)
    have t: "t \<noteq> s" "t < 256" "length out \<le> 1" using ok Some r by auto
    have "(word_of_nat t :: u_char) \<noteq> word_of_nat s"
    proof -
      have "unat (word_of_nat t :: u_char) = t" using t by (simp add: unat_of_nat)
      then show ?thesis using u t(1) by metis
    qed
    then show ?thesis using Some r t
      by (cases out) (auto simp: ngx_http_v2_huff_decode_bits_def u e huff_entry_def Let_def)
  qed
qed


section \<open>The bits of words\<close>

text \<open>The first \<open>n\<close> of the 64 bits of a word, and \<open>n\<close> low bits of a word, highest first.\<close>

definition ubits :: "nat \<Rightarrow> u64 \<Rightarrow> bool list" where
  "ubits n w = map (\<lambda>k. bit w (63 - k)) [0..<n]"

definition low_bits :: "nat \<Rightarrow> 'a::len word \<Rightarrow> bool list" where
  "low_bits n w = map (\<lambda>k. bit w (n - 1 - k)) [0..<n]"

lemma length_ubits [simp]: "length (ubits n w) = n" "length (low_bits n v) = n"
  by (simp_all add: ubits_def low_bits_def)

lemma nat_bits_low: "nat_bits (unat w) n = low_bits n w"
proof -
  have "nat_bits v n = map (\<lambda>k. odd (v div 2 ^ (n - 1 - k))) [0..<n]" for v
  proof (induction n arbitrary: v)
    case (Suc n)
    have "map (\<lambda>k. odd (v div 2 div 2 ^ (n - 1 - k))) [0..<n] = map (\<lambda>k. odd (v div 2 ^ (n - k))) [0..<n]"
    proof (rule map_cong [OF refl])
      fix k assume "k \<in> set [0..<n]"
      then have "n - k = Suc (n - 1 - k)" by simp
      then show "odd (v div 2 div 2 ^ (n - 1 - k)) = odd (v div 2 ^ (n - k))" by (simp add: div_mult2_eq)
    qed
    then show ?case using Suc by simp
  qed simp
  moreover have "bit w k = odd (unat w div 2 ^ k)" for k :: nat
  proof -
    have "bit w k = bit (unat w) k" by (auto simp: bit_unsigned_iff dest: bit_imp_le_length)
    then show ?thesis by (simp only: bit_iff_odd [of "unat w" k])
  qed
  ultimately show ?thesis by (simp add: low_bits_def)
qed

lemma ubits_append_code:
  assumes "p + l < 64" and "\<And>k. k < 64 - p \<Longrightarrow> \<not> bit buf k" and "\<And>k. l \<le> k \<Longrightarrow> \<not> bit code k"
  shows "ubits (p + l) (buf OR push_bit (64 - (p + l)) code) = ubits p buf @ low_bits l code"
    and "k < 64 - (p + l) \<Longrightarrow> \<not> bit (buf OR push_bit (64 - (p + l)) code) k"
proof -
  show "ubits (p + l) (buf OR push_bit (64 - (p + l)) code) = ubits p buf @ low_bits l code"
  proof (rule nth_equalityI)
    fix k assume "k < length (ubits (p + l) (buf OR push_bit (64 - (p + l)) code))"
    then have k: "k < p + l" by simp
    show "ubits (p + l) (buf OR push_bit (64 - (p + l)) code) ! k = (ubits p buf @ low_bits l code) ! k"
    proof (cases "k < p")
      case True
      then have "63 - k - (64 - (p + l)) = l + (p - 1 - k)" using k assms(1) by simp
      then have "\<not> bit code (63 - k - (64 - (p + l)))" using assms(3) by simp
      then show ?thesis using True k by (simp add: ubits_def nth_append bit_or_iff bit_push_bit_iff)
    next
      case False
      have "63 - k - (64 - (p + l)) = l - 1 - (k - p)" "63 - k < 64 - p" "64 - (p + l) \<le> 63 - k" "k - p < l" "63 - k < 64"
        using False k assms(1) by simp_all
      then show ?thesis using False k assms(2)
        by (simp add: ubits_def low_bits_def nth_append bit_or_iff bit_push_bit_iff add.commute [of l p])
    qed
  qed simp
  show "k < 64 - (p + l) \<Longrightarrow> \<not> bit (buf OR push_bit (64 - (p + l)) code) k"
    using assms(2) [of k] by (simp add: bit_or_iff bit_push_bit_iff)
qed

lemma ubits_full:
  assumes "p < 64" and "64 \<le> p + l" and "l \<le> 64" and "\<And>k. k < 64 - p \<Longrightarrow> \<not> bit buf k"
    and "\<And>k. l \<le> k \<Longrightarrow> \<not> bit code k"
  shows "ubits 64 (buf OR drop_bit (p + l - 64) code)
      @ ubits (p + l - 64) (if p + l - 64 \<noteq> 0 then push_bit (64 - (p + l - 64)) code else 0)
    = ubits p buf @ low_bits l code"
proof (rule nth_equalityI)
  fix k assume "k < length (ubits 64 (buf OR drop_bit (p + l - 64) code)
      @ ubits (p + l - 64) (if p + l - 64 \<noteq> 0 then push_bit (64 - (p + l - 64)) code else 0))"
  then have k: "k < p + l" using assms(2) by simp
  consider "k < p" | "p \<le> k" "k < 64" | "64 \<le> k" by linarith
  then show "(ubits 64 (buf OR drop_bit (p + l - 64) code)
      @ ubits (p + l - 64) (if p + l - 64 \<noteq> 0 then push_bit (64 - (p + l - 64)) code else 0)) ! k
    = (ubits p buf @ low_bits l code) ! k"
  proof cases
    case 1
    then have "\<not> bit code (p + l - 64 + (63 - k))" using assms(2) by (intro assms(5)) simp
    then show ?thesis using 1 assms(1) by (simp add: ubits_def nth_append bit_or_iff bit_drop_bit_eq)
  next
    case 2
    then have "p + l - 64 + (63 - k) = l - 1 - (k - p)" "63 - k < 64 - p" "k - p < l" using k assms(1,2) by simp_all
    then show ?thesis using 2 assms(4) k
      by (simp add: ubits_def low_bits_def nth_append bit_or_iff bit_drop_bit_eq add.commute [of l p])
  next
    case 3
    then have "63 - (k - 64) - (64 - (p + l - 64)) = l - 1 - (k - p)" "64 - (p + l - 64) \<le> 63 - (k - 64)"
      "p + l - 64 \<noteq> 0" "k - 64 < p + l - 64" "127 - k < 64"
      using assms(1,2,3) k by simp_all
    then show ?thesis using 3 assms(1) k
      by (simp add: ubits_def low_bits_def nth_append bit_push_bit_iff add.commute [of l p])
  qed
qed (use assms(2) in simp)

lemma ubits_full_zero: "k < 64 - q \<Longrightarrow> \<not> bit (if q \<noteq> 0 then push_bit (64 - q) code else 0 :: u64) k"
  by (simp add: bit_push_bit_iff)

lemma byte_bits_ucast: "byte_bits (ucast (drop_bit i w)) = map (\<lambda>k. bit w (i + 7 - k)) [0..<8]" for w :: u64
  unfolding byte_bits_def by (rule map_cong) (auto simp: bit_ucast_iff bit_drop_bit_eq)

lemma bits_of_buf: "bits_of (huff_encode_buf w) = ubits 64 w"
  using byte_bits_ucast [of 0 w]
  by (simp add: huff_encode_buf_def bits_of_def byte_bits_ucast ubits_def upt_rec)

lemma bits_of_rest: "bits_of (huff_encode_rest m w) = low_bits (8 * m) w"
proof (induction m)
  case (Suc m)
  have "low_bits (8 * Suc m) w = map (\<lambda>k. bit w (8 * m + 7 - k)) [0..<8] @ low_bits (8 * m) w"
    unfolding low_bits_def by (rule nth_equalityI) (auto simp: nth_append add.commute)
  then show ?case using Suc by (simp add: bits_of_def byte_bits_ucast)
qed (simp add: bits_of_def low_bits_def)

lemma low_bits_drop: "8 * m \<le> 64 \<Longrightarrow> low_bits (8 * m) (drop_bit (64 - 8 * m) w) = ubits (8 * m) w"
  unfolding low_bits_def ubits_def by (rule map_cong) (auto simp: bit_drop_bit_eq intro!: arg_cong [of _ _ "bit w"])

lemma ubits_pad:
  assumes "p \<le> n" and "n \<le> 64" and "\<And>k. k < 64 - p \<Longrightarrow> \<not> bit buf k"
  shows "ubits n (buf OR drop_bit p (- 1)) = ubits p buf @ replicate (n - p) True"
proof (rule nth_equalityI)
  fix k assume "k < length (ubits n (buf OR drop_bit p (- 1)))"
  then show "ubits n (buf OR drop_bit p (- 1)) ! k = (ubits p buf @ replicate (n - p) True) ! k"
    using assms by (auto simp: ubits_def nth_append bit_or_iff bit_drop_bit_eq bit_mask_iff)
qed (use assms(1) in simp)


section \<open>What the decoder accepts\<close>

lemma byte_bits_nibbles: "byte_bits ch = nibbles ! unat (drop_bit 4 ch) @ nibbles ! unat (ch AND 0xf)"
proof -
  have "list_all (\<lambda>ch. byte_bits ch = nibbles ! unat (drop_bit 4 ch) @ nibbles ! unat (ch AND 0xf)) all_bytes"
    by (simp add: all_bytes_code byte_bits_def nibbles_def upt_rec)
  then show ?thesis by (rule all_byteI)
qed

lemma nibble_bounds: "unat (drop_bit 4 ch) < 16" "unat (ch AND 0xf) < 16" for ch :: u_char
proof -
  have "list_all (\<lambda>ch. unat (drop_bit 4 ch) < 16 \<and> unat (ch AND 0xf) < 16) all_bytes" by (simp add: all_bytes_code)
  then have "unat (drop_bit 4 ch) < 16 \<and> unat (ch AND 0xf) < 16" by (rule all_byteI)
  then show "unat (drop_bit 4 ch) < 16" "unat (ch AND 0xf) < 16" by auto
qed

lemma bits_of_simps [simp]: "bits_of [] = []" "bits_of (c # s) = byte_bits c @ bits_of s"
  by (simp_all add: bits_of_def)

lemma huff_bits_simps [simp]: "huff_bits [] = []" "huff_bits (c # s) = huff_code c @ huff_bits s"
  by (simp_all add: huff_bits_def)

lemma huff_walk_less: "huff_walk i bs = Some (out, t) \<Longrightarrow> i < 256 \<Longrightarrow> t < 256"
  using huff_walk_sound by blast

lemma huff_decode_loop_walk:
  "s < 256 \<Longrightarrow>
   (case huff_walk s (bits_of src) of
      None \<Rightarrow> \<not> fst (huff_decode_loop (word_of_nat s) e src out)
    | Some (o', t) \<Rightarrow> huff_decode_loop (word_of_nat s) e src out =
        (True, word_of_nat t, if src = [] then e else if huff_ending t then 1 else 0, out @ o'))"
proof (induction src arbitrary: s e out)
  case (Cons ch src)
  show ?case
  proof (cases "huff_walk s (nibbles ! unat (drop_bit 4 ch))")
    case None
    then show ?thesis using huff_decode_bits_walk [OF Cons.prems nibble_bounds(1)]
      by (simp add: byte_bits_nibbles huff_walk_append)
  next
    case (Some r1)
    obtain o1 t1 where r1: "r1 = (o1, t1)" by (cases r1)
    have t1: "t1 < 256" using huff_walk_less [of s _ o1 t1] Some r1 Cons.prems by simp
    show ?thesis
    proof (cases "huff_walk t1 (nibbles ! unat (ch AND 0xf))")
      case None
      then show ?thesis
        using huff_decode_bits_walk [OF Cons.prems nibble_bounds(1)] huff_decode_bits_walk [OF t1 nibble_bounds(2)] Some r1
        by (simp add: byte_bits_nibbles huff_walk_append)
    next
      case s2: (Some r2)
      obtain o2 t2 where r2: "r2 = (o2, t2)" by (cases r2)
      have t2: "t2 < 256" using huff_walk_less [of t1 _ o2 t2] s2 r2 t1 by simp
      have w: "huff_walk s (byte_bits ch) = Some (o1 @ o2, t2)"
        using Some r1 s2 r2 by (simp add: byte_bits_nibbles huff_walk_append)
      have l: "huff_decode_loop (word_of_nat s) e (ch # src) out
          = huff_decode_loop (word_of_nat t2) (if huff_ending t2 then 1 else 0) src (out @ o1 @ o2)"
        using huff_decode_bits_walk [OF Cons.prems nibble_bounds(1)] huff_decode_bits_walk [OF t1 nibble_bounds(2)]
          Some r1 s2 r2 by simp
      show ?thesis unfolding l
        using Cons.IH [OF t2, of "if huff_ending t2 then 1 else 0" "out @ o1 @ o2"]
        by (auto simp: huff_walk_append w split: option.splits)
    qed
  qed
qed simp

lemma huff_decode_walk:
  "case huff_walk 0 (bits_of src) of
     None \<Rightarrow> \<not> fst (huff_decode_loop 0 1 src [])
   | Some (o', t) \<Rightarrow> huff_decode_loop 0 1 src [] =
       (True, word_of_nat t, if src = [] then 1 else if huff_ending t then 1 else 0, o')"
  using huff_decode_loop_walk [OF zero_less_numeral, where src = src and e = 1 and out = "[]"]
  unfolding semiring_1_class.of_nat_0 append_Nil .

lemma huff_accepted:
  assumes d: "ngx_http_v2_huff_decode 0 src True = (NGX_OK, 0, out)"
  shows "\<exists>k<30. bits_of src = huff_bits out @ replicate k True"
proof (cases "huff_walk 0 (bits_of src)")
  case None
  then have "\<not> fst (huff_decode_loop 0 1 src [])" using huff_decode_walk [of src] by simp
  then show ?thesis using d by (cases "huff_decode_loop 0 1 src []") (simp add: ngx_http_v2_huff_decode_def)
next
  case (Some r)
  obtain o' t where r: "r = (o', t)" by (cases r)
  have "huff_decode_loop 0 1 src [] = (True, word_of_nat t, if src = [] then 1 else if huff_ending t then 1 else 0, o')"
    using huff_decode_walk [of src] unfolding Some r option.case prod.case .
  then have o: "o' = out" and e: "src = [] \<or> huff_ending t"
    using d by (auto simp: ngx_http_v2_huff_decode_def split: if_splits)
  have w: "huff_walk 0 (bits_of src) = Some (out, t)" using Some r o by simp
  have "t < 256 \<and> bits_of src = huff_bits out @ huff_path t" using huff_walk_sound [OF w] by simp
  moreover have "huff_ending t" using e w by auto
  ultimately show ?thesis using huff_ending_path by metis
qed

lemma huff_accepts:
  assumes "\<exists>k<30. bits_of src = huff_bits out @ replicate k True"
  shows "ngx_http_v2_huff_decode 0 src True = (NGX_OK, 0, out)"
proof -
  obtain k where k: "k < 30" "bits_of src = huff_bits out @ replicate k True" using assms by blast
  obtain t where t: "huff_walk 0 (replicate k True) = Some ([], t)" "huff_ending t"
    using huff_ones_walk k(1) by (fastforce simp: list_all_iff split: option.splits)
  have "huff_walk 0 (bits_of src) = Some (out, t)" using k(2) t by (simp add: huff_walk_append huff_walk_bits)
  then show ?thesis using huff_decode_walk [of src] t(2) by (simp add: ngx_http_v2_huff_decode_def)
qed

text \<open>
  C13. The Huffman decoder of HTTP/2, whose table moves four bits at a step, accepts exactly the
  strings of bits that are codes of bytes followed by up to 29 ones, and gives those bytes: from
  the start state the last call answers OK with \<open>out\<close> if and only if the input has the bits
  of the codes of \<open>out\<close> and then such a padding.
\<close>

theorem huff_decode_exact:
  "(ngx_http_v2_huff_decode 0 src True = (NGX_OK, 0, out))
    = (\<exists>k<30. bits_of src = huff_bits out @ replicate k True)"
  by (rule iffI) (rule huff_accepted huff_accepts, assumption)+


section \<open>What the encoder writes\<close>

lemma huff_table_length: "length ngx_http_v2_huff_encode_table = 256"
  using arg_cong [OF huff_codes_walk, of length] by (simp add: all_bytes_def)

lemma huff_lc_nth: "ngx_http_v2_huff_encode_table_lc ! unat c = ngx_http_v2_huff_encode_table ! unat (ngx_tolower c)"
  using table_nth [OF huff_lc_table, of c] by (simp add: ngx_tolower_def)

lemma huff_code_entry:
  assumes "ngx_http_v2_huff_encode_table ! unat c = (v, n)"
  shows "5 \<le> n" and "n \<le> 30" and "huff_code c = low_bits n v" and "n \<le> k \<Longrightarrow> \<not> bit v k"
proof -
  have "(v, n) \<in> set ngx_http_v2_huff_encode_table"
    using assms nth_mem [of "unat c" ngx_http_v2_huff_encode_table] huff_table_length by simp
  then have s: "unat v < 2 ^ n" "5 \<le> n" "n \<le> 30" using huff_code_sizes by (auto simp: list_all_iff)
  then show "5 \<le> n" "n \<le> 30" by simp_all
  show "huff_code c = low_bits n v" using assms by (simp add: huff_code_def nat_bits_low)
  show "\<not> bit v k" if "n \<le> k"
  proof -
    have "unat v < 2 ^ k" using s(1) that power_increasing [of n k "2 :: nat"] by linarith
    then have "\<not> bit (unat v) k" by (simp add: bit_iff_odd)
    then show ?thesis by (auto simp: bit_unsigned_iff dest: bit_imp_le_length)
  qed
qed

text \<open>What is gathered: the bits written and those in the word; nothing is set below them.\<close>

definition enc_bits :: "u64 \<Rightarrow> nat \<Rightarrow> bytes \<Rightarrow> bool list" where
  "enc_bits buf pending dst = bits_of dst @ ubits pending buf"

definition enc_ok :: "u64 \<Rightarrow> nat \<Rightarrow> bool" where
  "enc_ok buf pending \<longleftrightarrow> pending < 64 \<and> (\<forall>k. k < 64 - pending \<longrightarrow> \<not> bit buf k)"

lemma bits_of_append [simp]: "bits_of (xs @ ys) = bits_of xs @ bits_of ys"
  by (simp add: bits_of_def)

lemma length_bits_of: "length (bits_of s) = 8 * length s"
  by (induction s) (simp_all add: byte_bits_def)

lemma huff_bits_length: "length s \<le> length (huff_bits s)"
proof (induction s)
  case (Cons c s)
  obtain v n where t: "ngx_http_v2_huff_encode_table ! unat c = (v, n)" by (cases "ngx_http_v2_huff_encode_table ! unat c")
  have "length (huff_code c) = n" using huff_code_entry(3) [OF t] by (simp add: low_bits_def)
  then show ?case using Cons huff_code_entry(1) [OF t] by simp
qed simp

lemma low_bits_ucast: "n \<le> 30 \<Longrightarrow> low_bits n (ucast v :: u64) = low_bits n v" for v :: u32
  unfolding low_bits_def by (rule map_cong) (auto simp: bit_ucast_iff)

lemma huff_encode_loop_ok:
  assumes "huff_encode_loop table len src buf pending dst = Some (buf', pending', dst')" and "enc_ok buf pending"
    and "\<And>c. table ! unat c = ngx_http_v2_huff_encode_table ! unat (f c)"
  shows "enc_ok buf' pending' \<and> enc_bits buf' pending' dst' = enc_bits buf pending dst @ huff_bits (map f src)"
  using assms(1,2)
proof (induction src arbitrary: buf pending dst)
  case Nil
  then show ?case by simp
next
  case (Cons c src)
  obtain v n where t: "ngx_http_v2_huff_encode_table ! unat (f c) = (v, n)"
    by (cases "ngx_http_v2_huff_encode_table ! unat (f c)")
  note e = huff_code_entry [OF t]
  let ?code = "ucast v :: u64"
  have code: "low_bits n ?code = huff_code (f c)" using e by (simp add: low_bits_ucast)
  have zero: "\<not> bit ?code k" if "n \<le> k" for k using e(4) [OF that] by (simp add: bit_ucast_iff)
  have p: "pending < 64" and bz: "\<And>k. k < 64 - pending \<Longrightarrow> \<not> bit buf k" using Cons.prems(2) by (auto simp: enc_ok_def)
  show ?case
  proof (cases "pending + n < 64")
    case True
    let ?buf = "buf OR push_bit (64 - (pending + n)) ?code"
    note a = ubits_append_code [OF True bz zero]
    have "huff_encode_loop table len src ?buf (pending + n) dst = Some (buf', pending', dst')"
      using Cons.prems(1) True t assms(3) [of c] by (simp add: Let_def)
    moreover have "enc_ok ?buf (pending + n)" using a(2) True by (auto simp: enc_ok_def)
    ultimately have "enc_ok buf' pending'
        \<and> enc_bits buf' pending' dst' = enc_bits ?buf (pending + n) dst @ huff_bits (map f src)"
      by (rule Cons.IH)
    then show ?thesis using a(1) code by (simp add: enc_bits_def)
  next
    case False
    let ?q = "pending + n - 64"
    let ?buf = "if ?q \<noteq> 0 then push_bit (64 - ?q) ?code else 0"
    let ?full = "buf OR drop_bit ?q ?code"
    have "huff_encode_loop table len src ?buf ?q (dst @ huff_encode_buf ?full) = Some (buf', pending', dst')"
      using Cons.prems(1) False t assms(3) [of c] by (simp add: Let_def split: if_splits)
    moreover have "enc_ok ?buf ?q" using p e(2) ubits_full_zero [of _ ?q ?code] by (auto simp: enc_ok_def)
    ultimately have "enc_ok buf' pending'
        \<and> enc_bits buf' pending' dst' = enc_bits ?buf ?q (dst @ huff_encode_buf ?full) @ huff_bits (map f src)"
      by (rule Cons.IH)
    moreover have "ubits 64 ?full @ ubits ?q ?buf = ubits pending buf @ huff_code (f c)"
      using ubits_full [OF p _ _ bz zero] False e(2) code by simp
    ultimately show ?thesis by (simp add: enc_bits_def bits_of_buf)
  qed
qed

lemma huff_encode_loop_length:
  "huff_encode_loop table len src buf pending dst = Some (buf', pending', dst') \<Longrightarrow>
   length dst' < len \<or> dst' = dst"
proof (induction src arbitrary: buf pending dst)
  case (Cons c src)
  obtain v n where t: "table ! unat c = (v, n)" by (cases "table ! unat c")
  show ?case
  proof (cases "pending + n < 64")
    case True
    then show ?thesis using Cons.prems t Cons.IH by (simp add: Let_def)
  next
    case False
    then have "length dst + 8 < len" using Cons.prems t by (simp add: Let_def split: if_splits)
    moreover have "length (dst @ huff_encode_buf w) = length dst + 8" for w by (simp add: huff_encode_buf_def)
    moreover have "\<exists>b w. huff_encode_loop table len src b (pending + n - 64) (dst @ huff_encode_buf w) = Some (buf', pending', dst')"
      using False Cons.prems t by (auto simp: Let_def split: if_splits)
    ultimately show ?thesis using Cons.IH by fastforce
  qed
qed simp

lemma huff_encode_pending:
  assumes l: "huff_encode_loop (if lower then ngx_http_v2_huff_encode_table_lc else ngx_http_v2_huff_encode_table)
      (length src) src 0 0 [] = Some (buf, p, dst)"
    and p: "p \<noteq> 0"
  shows "ngx_http_v2_huff_encode src lower =
    (if length dst + (p + 7) div 8 \<ge> length src then []
     else dst @ huff_encode_rest ((p + 7) div 8) (drop_bit (64 - 8 * ((p + 7) div 8)) (buf OR drop_bit p (- 1))))"
proof -
  have m8: "(p + 7) div 8 * 8 div 8 = (p + 7) div 8" "8 * ((p + 7) div 8) div 8 = (p + 7) div 8" by simp_all
  show ?thesis unfolding ngx_http_v2_huff_encode_def Let_def l option.case prod.case
    by (simp only: p if_False m8 mult.commute [of "(p + 7) div 8" 8])
qed

lemma huff_padded:
  assumes "ngx_http_v2_huff_encode src lower = c # cs"
  shows "length (c # cs) < length src
    \<and> (\<exists>k<8. bits_of (c # cs) = huff_bits (if lower then map ngx_tolower src else src) @ replicate k True)"
proof -
  define f where "f = (if lower then ngx_tolower else id)"
  define table where "table = (if lower then ngx_http_v2_huff_encode_table_lc else ngx_http_v2_huff_encode_table)"
  have tab: "table ! unat c = ngx_http_v2_huff_encode_table ! unat (f c)" for c
    by (simp add: table_def f_def huff_lc_nth)
  have fs: "map f src = (if lower then map ngx_tolower src else src)" by (simp add: f_def)
  obtain buf p dst where l: "huff_encode_loop table (length src) src 0 0 [] = Some (buf, p, dst)"
    using assms by (auto simp: ngx_http_v2_huff_encode_def table_def Let_def split: option.splits)
  have ok: "enc_ok buf p" and b: "bits_of dst @ ubits p buf = huff_bits (map f src)"
    using huff_encode_loop_ok [OF l _ tab] by (auto simp: enc_ok_def enc_bits_def ubits_def)
  have pz: "p < 64" "\<And>k. k < 64 - p \<Longrightarrow> \<not> bit buf k" using ok by (auto simp: enc_ok_def)
  show ?thesis
  proof (cases "p = 0")
    case True
    then have r: "c # cs = dst" using assms l by (simp add: ngx_http_v2_huff_encode_def table_def)
    then have "length dst < length src" using huff_encode_loop_length [OF l] by auto
    moreover have "bits_of dst = huff_bits (map f src) @ replicate 0 True" using b True by (simp add: ubits_def)
    ultimately show ?thesis unfolding r [symmetric] fs by (intro conjI exI [of _ 0]) simp_all
  next
    case False
    let ?m = "(p + 7) div 8" and ?buf = "buf OR drop_bit p (- 1)"
    have m: "p \<le> 8 * ?m" "8 * ?m - p < 8" by linarith+
    have "?m < 9" using pz(1) by (simp add: less_mult_imp_div_less)
    then have m3: "8 * ?m \<le> 64" by simp
    have "ngx_http_v2_huff_encode src lower = (if length dst + ?m \<ge> length src then []
        else dst @ huff_encode_rest ?m (drop_bit (64 - 8 * ?m) ?buf))"
      by (rule huff_encode_pending [OF l [unfolded table_def] False])
    then have r: "c # cs = dst @ huff_encode_rest ?m (drop_bit (64 - 8 * ?m) ?buf)" "length dst + ?m < length src"
      using assms by (simp_all split: if_splits)
    have "length (huff_encode_rest k w) = k" for k w by (induction k) auto
    then have "length (c # cs) < length src" using r by simp
    moreover have "bits_of (c # cs) = bits_of dst @ ubits (8 * ?m) ?buf"
      unfolding r(1) bits_of_append bits_of_rest low_bits_drop [OF m3] ..
    then have "bits_of (c # cs) = huff_bits (map f src) @ replicate (8 * ?m - p) True"
      using ubits_pad [OF m(1) m3 pz(2)] b by simp
    ultimately show ?thesis using assms m(2) fs by auto
  qed
qed

lemma huff_encode_loop_None:
  assumes "huff_encode_loop table len src buf pending dst = None"
    and "\<And>c. table ! unat c = ngx_http_v2_huff_encode_table ! unat (f c)"
  shows "8 * len \<le> 8 * length dst + pending + length (huff_bits (map f src))"
  using assms(1)
proof (induction src arbitrary: buf pending dst)
  case (Cons c src)
  obtain v n where t: "ngx_http_v2_huff_encode_table ! unat (f c) = (v, n)"
    by (cases "ngx_http_v2_huff_encode_table ! unat (f c)")
  have l: "length (huff_code (f c)) = n" using huff_code_entry(3) [OF t] by (simp add: low_bits_def)
  consider (more) buf' where "huff_encode_loop table len src buf' (pending + n) dst = None"
    | (full) "pending + n \<ge> 64" "length dst + 8 \<ge> len"
    | (word) buf' w where "pending + n \<ge> 64"
        "huff_encode_loop table len src buf' (pending + n - 64) (dst @ huff_encode_buf w) = None"
    using Cons.prems t assms(2) [of c] by (auto simp: Let_def not_less split: if_splits)
  then show ?case
  proof cases
    case more
    then show ?thesis using Cons.IH [OF more] l by simp
  next
    case full
    then show ?thesis using l by simp
  next
    case word
    then show ?thesis using Cons.IH [OF word(2)] l by (simp add: huff_encode_buf_def)
  qed
qed simp

lemma huff_too_long:
  assumes "ngx_http_v2_huff_encode src lower = []"
  shows "length src \<le> (length (huff_bits (if lower then map ngx_tolower src else src)) + 7) div 8"
proof -
  define f where "f = (if lower then ngx_tolower else id)"
  define table where "table = (if lower then ngx_http_v2_huff_encode_table_lc else ngx_http_v2_huff_encode_table)"
  have tab: "table ! unat c = ngx_http_v2_huff_encode_table ! unat (f c)" for c
    by (simp add: table_def f_def huff_lc_nth)
  have fs: "map f src = (if lower then map ngx_tolower src else src)" by (simp add: f_def)
  show ?thesis
  proof (cases "huff_encode_loop table (length src) src 0 0 []")
    case None
    have "8 * length src \<le> length (huff_bits (map f src))" using huff_encode_loop_None [OF None tab] by simp
    then show ?thesis unfolding fs by linarith
  next
    case (Some r)
    obtain buf p dst where l: "huff_encode_loop table (length src) src 0 0 [] = Some (buf, p, dst)"
      using Some by (cases r) auto
    have "bits_of dst @ ubits p buf = huff_bits (map f src)"
      using huff_encode_loop_ok [OF l _ tab] by (auto simp: enc_ok_def enc_bits_def ubits_def)
    then have "length (bits_of dst @ ubits p buf) = length (huff_bits (map f src))" by simp
    then have n: "8 * length dst + p = length (huff_bits (map f src))" by (simp add: length_bits_of ubits_def)
    have k: "length (huff_encode_rest k w) = k" for k w by (induction k) auto
    have "length src \<le> length dst + (p + 7) div 8"
    proof (cases "p = 0")
      case True
      then have "dst = []" using l assms by (simp add: ngx_http_v2_huff_encode_def table_def)
      then have "length (huff_bits (map f src)) = 0" using n True by simp
      then show ?thesis using huff_bits_length [of "map f src"] by simp
    next
      case False
      let ?m = "(p + 7) div 8" and ?buf = "buf OR drop_bit p (- 1)"
      have m: "0 < ?m" using False by linarith
      have "ngx_http_v2_huff_encode src lower = (if length dst + ?m \<ge> length src then []
          else dst @ huff_encode_rest ?m (drop_bit (64 - 8 * ?m) ?buf))"
        by (rule huff_encode_pending [OF l [unfolded table_def] False])
      moreover have "huff_encode_rest ?m w \<noteq> []" for w using k [of ?m w] m by auto
      ultimately show ?thesis using assms by (simp split: if_splits)
    qed
    then show ?thesis using n unfolding fs by linarith
  qed
qed

text \<open>
  C34. What the Huffman encoder writes is the codes of the bytes, or of their lower case when
  \<open>lower\<close> is set, one after the other, filled up with less than eight ones, and is shorter than
  the source; it writes nothing just when that would not be shorter.
\<close>

theorem huff_encode_bits:
  "let bits = huff_bits (if lower then map ngx_tolower src else src) in
   case ngx_http_v2_huff_encode src lower of
     [] \<Rightarrow> length src \<le> (length bits + 7) div 8
   | c # cs \<Rightarrow> length (c # cs) < length src \<and> (\<exists>k<8. bits_of (c # cs) = bits @ replicate k True)"
  unfolding Let_def
  by (cases "ngx_http_v2_huff_encode src lower") (simp_all only: list.case huff_padded huff_too_long)


section \<open>Encoder and decoder together\<close>

lemma huff_encoded:
  assumes "ngx_http_v2_huff_encode src lower = c # cs"
  shows "ngx_http_v2_huff_decode 0 (c # cs) True = (NGX_OK, 0, if lower then map ngx_tolower src else src)"
proof -
  obtain k where "k < 8" "bits_of (c # cs) = huff_bits (if lower then map ngx_tolower src else src) @ replicate k True"
    using huff_padded [OF assms] by blast
  then have "\<exists>k<30. bits_of (c # cs) = huff_bits (if lower then map ngx_tolower src else src) @ replicate k True"
    by (intro exI [of _ k]) simp
  then show ?thesis by (rule huff_accepts)
qed

text \<open>
  C12. A string the encoder has made shorter is decoded to what was encoded: to the source, or to
  its lower case form when \<open>lower\<close> was set. So the two tables agree on all 256 codes, and what
  the encoder pads with is always accepted.
\<close>

theorem huff_roundtrip:
  "case ngx_http_v2_huff_encode src lower of [] \<Rightarrow> True
   | c # cs \<Rightarrow> ngx_http_v2_huff_decode 0 (c # cs) True
       = (NGX_OK, 0, if lower then map ngx_tolower src else src)"
  by (cases "ngx_http_v2_huff_encode src lower") (simp, simp only: list.case huff_encoded)

lemma huff_decode_loop_append:
  "huff_decode_loop s e (a @ b) out =
     (case huff_decode_loop s e a out of
        (False, r) \<Rightarrow> (False, r)
      | (True, s1, e1, o1) \<Rightarrow> huff_decode_loop s1 e1 b o1)"
  by (induction a arbitrary: s e out) (auto split: option.splits)

lemma huff_decode_loop_out:
  "huff_decode_loop s e b (o1 @ o2) = (case huff_decode_loop s e b o2 of (ok, s', e', out) \<Rightarrow> (ok, s', e', o1 @ out))"
  by (induction b arbitrary: s e o2) (auto split: option.splits)

lemma huff_decode_loop_flag:
  "case huff_decode_loop s e (c # b) out of
     (ok, s', e', out') \<Rightarrow> \<exists>e1. huff_decode_loop s d (c # b) out = (ok, s', e1, out') \<and> (ok \<longrightarrow> e1 = e')"
  by (auto split: option.splits prod.splits)

lemma decode_pieces:
  "case ngx_http_v2_huff_decode state a False of
     (rc, state1, out1) \<Rightarrow>
       if rc = NGX_OK
       then (case ngx_http_v2_huff_decode state1 (c # b) final of
           (rc, state2, out2) \<Rightarrow> ngx_http_v2_huff_decode state (a @ c # b) final = (rc, state2, out1 @ out2))
       else ngx_http_v2_huff_decode state (a @ c # b) final = (rc, state1, out1)"
proof -
  obtain ok s1 e1 out1 where a: "huff_decode_loop state 1 a [] = (ok, s1, e1, out1)" by (metis prod_cases4)
  obtain ok2 s2 e2 out2 where b: "huff_decode_loop s1 1 (c # b) [] = (ok2, s2, e2, out2)" by (metis prod_cases4)
  obtain e3 where c: "huff_decode_loop s1 e1 (c # b) [] = (ok2, s2, e3, out2)" "ok2 \<longrightarrow> e3 = e2"
    using huff_decode_loop_flag [of s1 1 c b "[]" e1] unfolding b prod.case by blast
  have "huff_decode_loop s1 e1 (c # b) out1 = (ok2, s2, e3, out1 @ out2)"
    using huff_decode_loop_out [of s1 e1 "c # b" out1 "[]"] unfolding c append_Nil2 prod.case .
  then have "huff_decode_loop state 1 (a @ c # b) [] = (if ok then (ok2, s2, e3, out1 @ out2) else (False, s1, e1, out1))"
    unfolding huff_decode_loop_append a by simp
  then show ?thesis using a b c(2)
    by (cases ok; cases ok2; cases final) (simp_all add: ngx_http_v2_huff_decode_def del: huff_decode_loop.simps)
qed

text \<open>
  A string may come in pieces: decoding the first piece without the flag \<open>final\<close> and the
  second one from the state that left gives the status and the state of decoding them at once,
  and the output is that of the first followed by that of the second.
\<close>

theorem huff_decode_pieces:
  "case ngx_http_v2_huff_decode state a False of
     (rc, state1, out1) \<Rightarrow>
       if rc = NGX_OK
       then (case ngx_http_v2_huff_decode state1 (c # b) final of
           (rc, state2, out2) \<Rightarrow> ngx_http_v2_huff_decode state (a @ c # b) final = (rc, state2, out1 @ out2))
       else ngx_http_v2_huff_decode state (a @ c # b) final = (rc, state1, out1)"
  by (rule decode_pieces)

text \<open>
  More ones than the seven that RFC 7541 allows are taken as padding: a byte of ones after the
  code of \<open>0\<close> is accepted.
\<close>

lemma huff_long_padding: "ngx_http_v2_huff_decode 0 [7, 0xff] True = (NGX_OK, 0, [0x30])"
proof -
  have "byte_bits 7 = replicate 5 False @ replicate 3 True" "byte_bits 0xff = replicate 8 True"
    by (simp_all add: byte_bits_def upt_rec replicate_numeral)
  then show ?thesis
    by (intro huff_accepts exI [of _ 11]) (simp add: huff_code_def huff_table_simps replicate_numeral)
qed



section \<open>Memory\<close>

lemma huff_bits_length5: "5 * length s \<le> length (huff_bits s)"
proof (induction s)
  case (Cons c s)
  obtain v n where t: "ngx_http_v2_huff_encode_table ! unat c = (v, n)" by (cases "ngx_http_v2_huff_encode_table ! unat c")
  have "length (huff_code c) = n" using huff_code_entry(3) [OF t] by (simp add: low_bits_def)
  then show ?case using Cons huff_code_entry(1) [OF t] by simp
qed simp

lemma huff_walk_length:
  assumes "huff_walk s bs = Some (out, t)" "s < 256"
  shows "5 * length out + length (huff_path t) \<le> length (huff_path s) + length bs"
proof -
  have "length (huff_path s @ bs) = length (huff_bits out @ huff_path t)" using huff_walk_sound [OF assms] by simp
  then show ?thesis using huff_bits_length5 [of out] by simp
qed

lemma nibble_length: "n < 16 \<Longrightarrow> length (nibbles ! n) = 4"
proof -
  assume n: "n < 16"
  have "list_all (\<lambda>b. length b = 4) nibbles" "length nibbles = 16" by (simp_all add: nibbles_def)
  then show ?thesis using n by (simp add: list_all_length)
qed

lemma huff_decode_loop_length:
  "s < 256 \<Longrightarrow> huff_decode_loop (word_of_nat s) e src out = (ok, st, e', out') \<Longrightarrow>
   5 * length out' \<le> 5 * length out + length (huff_path s) + 8 * length src"
proof (induction src arbitrary: s e out)
  case (Cons ch src)
  note w1 = huff_decode_bits_walk [OF Cons.prems(1) nibble_bounds(1), of ch]
  show ?case
  proof (cases "huff_walk s (nibbles ! unat (drop_bit 4 ch))")
    case None
    then show ?thesis using w1 Cons.prems(2) by simp
  next
    case (Some r1)
    obtain o1 t1 where r1: "r1 = (o1, t1)" by (cases r1)
    have t1: "t1 < 256" using huff_walk_less [of s _ o1 t1] Some r1 Cons.prems(1) by simp
    have l1: "5 * length o1 + length (huff_path t1) \<le> length (huff_path s) + 4"
      using huff_walk_length [of s _ o1 t1] Some r1 Cons.prems(1) nibble_length [OF nibble_bounds(1)] by fastforce
    note w2 = huff_decode_bits_walk [OF t1 nibble_bounds(2), of ch]
    show ?thesis
    proof (cases "huff_walk t1 (nibbles ! unat (ch AND 0xf))")
      case None
      then show ?thesis using w1 w2 Some r1 l1 Cons.prems(2) by auto
    next
      case s2: (Some r2)
      obtain o2 t2 where r2: "r2 = (o2, t2)" by (cases r2)
      have t2: "t2 < 256" using huff_walk_less [of t1 _ o2 t2] s2 r2 t1 by simp
      have l2: "5 * length o2 + length (huff_path t2) \<le> length (huff_path t1) + 4"
        using huff_walk_length [of t1 _ o2 t2] s2 r2 t1 nibble_length [OF nibble_bounds(2)] by fastforce
      have "huff_decode_loop (word_of_nat t2) (if huff_ending t2 then 1 else 0) src (out @ o1 @ o2) = (ok, st, e', out')"
        using Cons.prems(2) w1 w2 Some r1 s2 r2 by simp
      from Cons.IH [OF t2 this] show ?thesis using l1 l2 by simp
    qed
  qed
qed simp

text \<open>
  C35. Decoding never writes more than the \<open>len * 8 / 5\<close> bytes that the callers ask memory for,
  also when it stops at a bad code.
\<close>

theorem huff_decode_fits:
  "length (snd (snd (ngx_http_v2_huff_decode 0 src final))) \<le> length src * 8 div 5"
proof -
  obtain ok st e out where l: "huff_decode_loop 0 1 src [] = (ok, st, e, out)" by (metis prod_cases4)
  have "5 * length out \<le> 8 * length src"
    using huff_decode_loop_length [of 0 1 src "[]" ok st e out] l by simp
  moreover have "snd (snd (ngx_http_v2_huff_decode 0 src final)) = out"
    using l by (simp add: ngx_http_v2_huff_decode_def split: bool.split)
  ultimately show ?thesis by (simp add: less_eq_div_iff_mult_less_eq)
qed

end
