(* ===== verification/H2_Encode.thy ===== *)
theory H2_Encode
  imports H2_Huffman
begin

text \<open>
  The integers and strings of HPACK: \<open>ngx_http_v2_write_int\<close> and
  \<open>ngx_http_v2_string_encode\<close> of \<open>ngx_http_v2_encode.c\<close>, and \<open>ngx_http_v2_parse_int\<close> of
  \<open>ngx_http_v2.c\<close>, which takes at most \<open>NGX_HTTP_V2_INT_OCTETS\<close> bytes. No arithmetic of
  these functions overflows, so their unsigned numbers are natural numbers.
\<close>

section \<open>Integers\<close>

abbreviation (input) NGX_HTTP_V2_INT_OCTETS :: nat where "NGX_HTTP_V2_INT_OCTETS \<equiv> 4"

definition ngx_http_v2_prefix :: "nat \<Rightarrow> nat" where
  "ngx_http_v2_prefix bits = 2 ^ bits - 1"

text \<open>The loop of \<open>ngx_http_v2_write_int\<close> with the byte after it.\<close>

fun write_octets :: "nat \<Rightarrow> bytes" where
  "write_octets v = (if v \<ge> 128 then word_of_nat (v mod 128 + 128) # write_octets (v div 128) else [word_of_nat v])"

declare write_octets.simps [simp del]

text \<open>The first argument is the byte at \<open>pos\<close>, whose high bits the caller has set.\<close>

definition ngx_http_v2_write_int :: "u_char \<Rightarrow> nat \<Rightarrow> nat \<Rightarrow> bytes" where
  "ngx_http_v2_write_int b prefix v =
     (if v < prefix then [b OR word_of_nat v] else (b OR word_of_nat prefix) # write_octets (v - prefix))"

text \<open>
  The result of \<open>ngx_http_v2_parse_int\<close>: the value, what is left of \<open>state.length\<close> and the input
  from the new position on, or a return code, with length and position as before.
\<close>

datatype parse_int = PI_value nat nat bytes | PI_rc ngx_rc

text \<open>The loop over the octets before \<open>end\<close>: the value and the octets used, counted from \<open>start\<close>.\<close>

fun parse_int_loop :: "nat \<Rightarrow> nat \<Rightarrow> nat \<Rightarrow> bytes \<Rightarrow> (nat \<times> nat) option" where
  "parse_int_loop used shift v [] = None"
| "parse_int_loop used shift v (octet # octets) =
     (let v = v + push_bit shift (unat octet AND 0x7f) in
      if unat octet < 128 then Some (v, used + 1) else parse_int_loop (used + 1) (shift + 7) v octets)"

definition ngx_http_v2_parse_int :: "nat \<Rightarrow> bytes \<Rightarrow> nat \<Rightarrow> parse_int" where
  "ngx_http_v2_parse_int len inp prefix =
     (let v = unat (hd inp) AND prefix in
      if v \<noteq> prefix then
        (if len = 0 then PI_rc NGX_ERROR else PI_value v (len - 1) (tl inp))
      else
        let end = min (length inp) NGX_HTTP_V2_INT_OCTETS in
        case parse_int_loop 1 0 v (drop 1 (take end inp)) of
          Some (v, used) \<Rightarrow> if used > len then PI_rc NGX_ERROR else PI_value v (len - used) (drop used inp)
        | None \<Rightarrow>
            if end \<ge> len then PI_rc NGX_ERROR
            else if end = NGX_HTTP_V2_INT_OCTETS then PI_rc NGX_DECLINED
            else PI_rc NGX_AGAIN)"

section \<open>Strings\<close>

abbreviation (input) NGX_HTTP_V2_ENCODE_RAW :: u_char where "NGX_HTTP_V2_ENCODE_RAW \<equiv> 0"
abbreviation (input) NGX_HTTP_V2_ENCODE_HUFF :: u_char where "NGX_HTTP_V2_ENCODE_HUFF \<equiv> 0x80"

definition ngx_strlow :: "bytes \<Rightarrow> bytes" where
  "ngx_strlow src = map ngx_tolower src"

definition ngx_http_v2_string_encode :: "bytes \<Rightarrow> bool \<Rightarrow> bytes" where
  "ngx_http_v2_string_encode src lower =
     (let tmp = ngx_http_v2_huff_encode src lower in
      if length tmp > 0
      then ngx_http_v2_write_int NGX_HTTP_V2_ENCODE_HUFF (ngx_http_v2_prefix 7) (length tmp) @ tmp
      else ngx_http_v2_write_int NGX_HTTP_V2_ENCODE_RAW (ngx_http_v2_prefix 7) (length src)
        @ (if lower then ngx_strlow src else src))"

section \<open>Reading back\<close>

lemma unat_octet: "v < 256 \<Longrightarrow> unat (word_of_nat v :: u_char) = v"
  by (simp add: unsigned_of_nat take_bit_eq_mod)

lemma and_7f: "n AND 0x7f = n mod 128" for n :: nat
  using take_bit_eq_mask [of 7 n] by (simp add: take_bit_eq_mod mask_eq_exp_minus_1)

lemma parse_octets:
  "parse_int_loop used shift acc (write_octets v @ rest) = Some (acc + v * 2 ^ shift, used + length (write_octets v))"
proof (induction v arbitrary: used shift acc rule: write_octets.induct)
  case (1 v)
  show ?case
  proof (cases "v \<ge> 128")
    case True
    have "v mod 128 + 128 < 256" by simp
    then have u: "unat (word_of_nat (v mod 128 + 128) :: u_char) = v mod 128 + 128" by (rule unat_octet)
    have "v * 2 ^ shift = (v mod 128 + 128 * (v div 128)) * 2 ^ shift" by simp
    also have "\<dots> = v mod 128 * 2 ^ shift + v div 128 * 2 ^ (shift + 7)"
      unfolding distrib_right power_add by simp
    finally have d: "v mod 128 * 2 ^ shift + v div 128 * 2 ^ (shift + 7) = v * 2 ^ shift" ..
    have "parse_int_loop used shift acc (write_octets v @ rest)
        = parse_int_loop (used + 1) (shift + 7) (acc + v mod 128 * 2 ^ shift) (write_octets (v div 128) @ rest)"
      using True u by (simp add: write_octets.simps [of v] and_7f push_bit_eq_mult)
    also have "\<dots> = Some (acc + v mod 128 * 2 ^ shift + v div 128 * 2 ^ (shift + 7), used + 1 + length (write_octets (v div 128)))"
      by (rule 1 [OF True])
    finally show ?thesis using True d by (simp add: write_octets.simps [of v] add.assoc)
  qed (simp add: write_octets.simps [of v] and_7f push_bit_eq_mult unat_octet)
qed

lemma parse_octets_short: "k < length (write_octets v) \<Longrightarrow> parse_int_loop used shift acc (take k (write_octets v)) = None"
proof (induction v arbitrary: k used shift acc rule: write_octets.induct)
  case (1 v)
  show ?case
  proof (cases "v \<ge> 128 \<and> 0 < k")
    case True
    then obtain j where k: "k = Suc j" by (cases k) auto
    have "v mod 128 + 128 < 256" by simp
    then have u: "unat (word_of_nat (v mod 128 + 128) :: u_char) = v mod 128 + 128" by (rule unat_octet)
    have "j < length (write_octets (v div 128))" using 1(2) True k by (simp add: write_octets.simps [of v])
    then show ?thesis using 1(1) True k u by (simp add: write_octets.simps [of v] Let_def)
  next
    case False
    then show ?thesis using 1(2) by (auto simp: write_octets.simps [of v] split: if_splits)
  qed
qed

lemma write_octets_nonempty [simp]: "write_octets v \<noteq> []"
  by (simp add: write_octets.simps [of v])

lemma octets_length: "length (write_octets v) \<le> 3 \<longleftrightarrow> v < 2 ^ 21"
proof -
  have e: "length (write_octets v) = (if v \<ge> 128 then Suc (length (write_octets (v div 128))) else 1)" for v
    by (simp add: write_octets.simps [of v])
  have "length (write_octets v) \<le> 1 \<longleftrightarrow> v < 128" for v using e [of v] by (auto simp: le_less Suc_le_eq)
  then have two: "length (write_octets v) \<le> 2 \<longleftrightarrow> v < 128 * 128" for v
    using e [of v] by (auto simp: div_less_iff_less_mult)
  have "length (write_octets v) \<le> 3 \<longleftrightarrow> v < 128 * 128 * 128"
    using e [of v] two [of "v div 128"] by (auto simp: div_less_iff_less_mult)
  then show ?thesis by simp
qed

lemma prefix_byte:
  assumes "bits \<le> 8" "v < 2 ^ bits" "unat (b :: u_char) AND ngx_http_v2_prefix bits = 0"
  shows "unat (b OR word_of_nat v) AND ngx_http_v2_prefix bits = v"
proof -
  have m: "n AND ngx_http_v2_prefix bits = take_bit bits n" for n
    by (simp add: ngx_http_v2_prefix_def take_bit_eq_mask mask_eq_exp_minus_1)
  have "(2 :: nat) ^ bits \<le> 2 ^ 8" using assms(1) by (rule power_increasing) simp
  then have "unat (word_of_nat v :: u_char) = v" using assms(2) by (intro unat_octet) simp
  then have "unat (b OR word_of_nat v) = unat b OR v" by (simp only: unsigned_or_eq)
  moreover have "take_bit bits v = v" using assms(2) by (simp add: take_bit_nat_eq_self)
  ultimately show ?thesis using assms(3) by (simp add: m take_bit_or)
qed

lemma parse_written_int:
  assumes "bits \<le> 8" "unat b AND ngx_http_v2_prefix bits = 0"
  shows "let w = ngx_http_v2_write_int b (ngx_http_v2_prefix bits) v in
    ngx_http_v2_parse_int len (w @ rest) (ngx_http_v2_prefix bits) =
      (if v < 2 ^ bits - 1 + 2 ^ 21
       then (if length w \<le> len then PI_value v (len - length w) rest else PI_rc NGX_ERROR)
       else (if 4 < len then PI_rc NGX_DECLINED else PI_rc NGX_ERROR))"
proof (cases "v < ngx_http_v2_prefix bits")
  case True
  then have "v < 2 ^ bits" by (simp add: ngx_http_v2_prefix_def)
  then show ?thesis using True prefix_byte [OF assms(1) _ assms(2)] 
    by (auto simp: ngx_http_v2_write_int_def ngx_http_v2_parse_int_def Let_def ngx_http_v2_prefix_def)
next
  case False
  let ?p = "ngx_http_v2_prefix bits"
  let ?w = "write_octets (v - ?p)"
  have p: "unat (b OR word_of_nat ?p) AND ?p = ?p"
    using assms by (intro prefix_byte) (simp_all add: ngx_http_v2_prefix_def)
  have w: "ngx_http_v2_write_int b ?p v = (b OR word_of_nat ?p) # ?w"
    using False by (simp add: ngx_http_v2_write_int_def)
  have l: "length ?w \<le> 3 \<longleftrightarrow> v < 2 ^ bits - 1 + 2 ^ 21"
    unfolding octets_length using False by (auto simp: ngx_http_v2_prefix_def)
  have t: "drop 1 (take (min (length ((b OR word_of_nat ?p) # ?w @ rest)) 4) ((b OR word_of_nat ?p) # ?w @ rest))
      = take 3 (?w @ rest)"
    by (simp add: min_def)
  show ?thesis
  proof (cases "length ?w \<le> 3")
    case True
    then have "parse_int_loop 1 0 ?p (take 3 (?w @ rest)) = Some (v, 1 + length ?w)"
      using parse_octets [of 1 0 ?p "v - ?p"] False by simp
    then show ?thesis using True l p
      unfolding Let_def w append_Cons ngx_http_v2_parse_int_def t by simp
  next
    case F: False
    then have "parse_int_loop 1 0 ?p (take 3 (?w @ rest)) = None"
      using parse_octets_short [of 3 "v - ?p"] by simp
    then show ?thesis using F l p
      unfolding Let_def w append_Cons ngx_http_v2_parse_int_def t by simp
  qed
qed

text \<open>
  C32. An integer written after any flags is read back, value and position, when it takes at most
  four bytes and these are in what is left of the header block; that is the case up to
  \<open>2 ^ 21 - 1\<close> above the prefix. A longer one is declined, and one that does not fit the block
  is an error.
\<close>

theorem hpack_int_roundtrip:
  assumes "bits \<le> 8" "unat b AND ngx_http_v2_prefix bits = 0"
  shows "let w = ngx_http_v2_write_int b (ngx_http_v2_prefix bits) v in
    ngx_http_v2_parse_int len (w @ rest) (ngx_http_v2_prefix bits) =
      (if v < 2 ^ bits - 1 + 2 ^ 21
       then (if length w \<le> len then PI_value v (len - length w) rest else PI_rc NGX_ERROR)
       else (if 4 < len then PI_rc NGX_DECLINED else PI_rc NGX_ERROR))"
  using assms by (rule parse_written_int)

text \<open>
  When only a beginning of such an integer has arrived, the reader asks for more and keeps its
  position, so it reads the integer from its first byte again.
\<close>

theorem hpack_int_partial:
  assumes "bits \<le> 8" "unat b AND ngx_http_v2_prefix bits = 0" "v < 2 ^ bits - 1 + 2 ^ 21"
    and "ngx_http_v2_write_int b (ngx_http_v2_prefix bits) v = (c # u) @ w" "w \<noteq> []"
  shows "ngx_http_v2_parse_int len (c # u) (ngx_http_v2_prefix bits)
    = (if length (c # u) < len then PI_rc NGX_AGAIN else PI_rc NGX_ERROR)"
proof -
  let ?p = "ngx_http_v2_prefix bits"
  have v: "\<not> v < ?p" using assms(4,5) by (auto simp: ngx_http_v2_write_int_def)
  have p: "unat (b OR word_of_nat ?p) AND ?p = ?p"
    using assms(1,2) by (intro prefix_byte) (simp_all add: ngx_http_v2_prefix_def)
  have c: "c = b OR word_of_nat ?p" and w: "write_octets (v - ?p) = u @ w"
    using assms(4) v by (auto simp: ngx_http_v2_write_int_def)
  have l: "length u < length (write_octets (v - ?p))" using w assms(5) by simp
  moreover have "length (write_octets (v - ?p)) \<le> 3"
    unfolding octets_length using assms(3) v by (auto simp: ngx_http_v2_prefix_def)
  ultimately have u: "length u < 3" by simp
  have "take (length u) (write_octets (v - ?p)) = u" using w by simp
  then have "parse_int_loop 1 0 ?p u = None" using parse_octets_short [OF l, of 1 0 ?p] by simp
  then show ?thesis using p c u by (auto simp: ngx_http_v2_parse_int_def Let_def)
qed


text \<open>The example of RFC 7541, C.1.2.\<close>

lemma hpack_int_roundtrip_witness: "ngx_http_v2_parse_int 3 [0x1f, 0x9a, 0x0a, 9] 31 = PI_value 1337 0 [9]"
proof -
  have "ngx_http_v2_write_int 0 31 1337 = [0x1f, 0x9a, 0x0a]"
    by (simp add: ngx_http_v2_write_int_def write_octets.simps)
  moreover have "ngx_http_v2_prefix 5 = 31" by (simp add: ngx_http_v2_prefix_def)
  ultimately show ?thesis using hpack_int_roundtrip [of 5 0 1337 3 "[9]"] by (simp add: Let_def)
qed

lemma hpack_int_partial_witness: "ngx_http_v2_parse_int 5 [0x1f, 0x9a] 31 = PI_rc NGX_AGAIN"
proof -
  have "ngx_http_v2_write_int 0 31 1337 = [0x1f, 0x9a, 0x0a]"
    by (simp add: ngx_http_v2_write_int_def write_octets.simps)
  moreover have "ngx_http_v2_prefix 5 = 31" by (simp add: ngx_http_v2_prefix_def)
  ultimately show ?thesis using hpack_int_partial [of 5 0 1337 "0x1f" "[0x9a]" "[0x0a]" 5] by simp
qed

end
