(* ===== verification/H2_Header_Table.thy ===== *)
theory H2_Header_Table
  imports Prelude
begin

text \<open>
  The header table of HPACK (\<open>ngx_http_v2_table.c\<close>): the static entries and the dynamic table,
  whose strings are kept in a ring of 4096 bytes and whose entries in a ring of pointers that
  grows. Entry objects are cells of a store and a pointer is a cell's number; a \<open>data\<close> pointer is
  an offset into the storage. The counters \<open>added\<close>, \<open>deleted\<close> and \<open>reused\<close> are natural
  numbers: they count insertions, which do not reach \<open>2 ^ 64\<close>.
\<close>

section \<open>The state\<close>

abbreviation (input) NGX_HTTP_V2_TABLE_SIZE :: nat where "NGX_HTTP_V2_TABLE_SIZE \<equiv> 4096"

record table_entry =
  name_len :: nat
  name_data :: nat
  value_len :: nat
  value_data :: nat

text \<open>
  \<open>entries\<close> is \<open>None\<close> for the null pointer, \<open>storage\<close> as well; \<open>cells\<close> holds the entry objects
  allocated so far. \<open>size\<close> and \<open>free\<close> of the code are \<open>table_limit\<close> and \<open>table_free\<close>.
\<close>

record hpack =
  entries :: "nat list option"
  added :: nat
  deleted :: nat
  reused :: nat
  allocated :: nat
  table_limit :: nat
  table_free :: nat
  storage :: "bytes option"
  store_pos :: nat
  cells :: "table_entry list"

text \<open>The table of a new connection, which is zeroed memory.\<close>

definition hpack_init :: hpack where
  "hpack_init = \<lparr>entries = None, added = 0, deleted = 0, reused = 0, allocated = 0, table_limit = 0, table_free = 0,
     storage = None, store_pos = 0, cells = []\<rparr>"

text \<open>What the pool returned for each of the four requests of an insertion: nothing, or memory with any content.\<close>

record hpack_memory =
  mem_entries :: "(nat \<Rightarrow> nat) option"
  mem_storage :: "(nat \<Rightarrow> u_char) option"
  mem_entry :: "table_entry option"
  mem_grown :: "(nat \<Rightarrow> nat) option"

section \<open>The static table\<close>

definition ngx_http_v2_static_table :: "(bytes \<times> bytes) list" where
  "ngx_http_v2_static_table = [
     (str_bytes '':authority'', str_bytes ''''),
     (str_bytes '':method'', str_bytes ''GET''),
     (str_bytes '':method'', str_bytes ''POST''),
     (str_bytes '':path'', str_bytes ''/''),
     (str_bytes '':path'', str_bytes ''/index.html''),
     (str_bytes '':scheme'', str_bytes ''http''),
     (str_bytes '':scheme'', str_bytes ''https''),
     (str_bytes '':status'', str_bytes ''200''),
     (str_bytes '':status'', str_bytes ''204''),
     (str_bytes '':status'', str_bytes ''206''),
     (str_bytes '':status'', str_bytes ''304''),
     (str_bytes '':status'', str_bytes ''400''),
     (str_bytes '':status'', str_bytes ''404''),
     (str_bytes '':status'', str_bytes ''500''),
     (str_bytes ''accept-charset'', str_bytes ''''),
     (str_bytes ''accept-encoding'', str_bytes ''gzip, deflate''),
     (str_bytes ''accept-language'', str_bytes ''''),
     (str_bytes ''accept-ranges'', str_bytes ''''),
     (str_bytes ''accept'', str_bytes ''''),
     (str_bytes ''access-control-allow-origin'', str_bytes ''''),
     (str_bytes ''age'', str_bytes ''''),
     (str_bytes ''allow'', str_bytes ''''),
     (str_bytes ''authorization'', str_bytes ''''),
     (str_bytes ''cache-control'', str_bytes ''''),
     (str_bytes ''content-disposition'', str_bytes ''''),
     (str_bytes ''content-encoding'', str_bytes ''''),
     (str_bytes ''content-language'', str_bytes ''''),
     (str_bytes ''content-length'', str_bytes ''''),
     (str_bytes ''content-location'', str_bytes ''''),
     (str_bytes ''content-range'', str_bytes ''''),
     (str_bytes ''content-type'', str_bytes ''''),
     (str_bytes ''cookie'', str_bytes ''''),
     (str_bytes ''date'', str_bytes ''''),
     (str_bytes ''etag'', str_bytes ''''),
     (str_bytes ''expect'', str_bytes ''''),
     (str_bytes ''expires'', str_bytes ''''),
     (str_bytes ''from'', str_bytes ''''),
     (str_bytes ''host'', str_bytes ''''),
     (str_bytes ''if-match'', str_bytes ''''),
     (str_bytes ''if-modified-since'', str_bytes ''''),
     (str_bytes ''if-none-match'', str_bytes ''''),
     (str_bytes ''if-range'', str_bytes ''''),
     (str_bytes ''if-unmodified-since'', str_bytes ''''),
     (str_bytes ''last-modified'', str_bytes ''''),
     (str_bytes ''link'', str_bytes ''''),
     (str_bytes ''location'', str_bytes ''''),
     (str_bytes ''max-forwards'', str_bytes ''''),
     (str_bytes ''proxy-authenticate'', str_bytes ''''),
     (str_bytes ''proxy-authorization'', str_bytes ''''),
     (str_bytes ''range'', str_bytes ''''),
     (str_bytes ''referer'', str_bytes ''''),
     (str_bytes ''refresh'', str_bytes ''''),
     (str_bytes ''retry-after'', str_bytes ''''),
     (str_bytes ''server'', str_bytes ''''),
     (str_bytes ''set-cookie'', str_bytes ''''),
     (str_bytes ''strict-transport-security'', str_bytes ''''),
     (str_bytes ''transfer-encoding'', str_bytes ''''),
     (str_bytes ''user-agent'', str_bytes ''''),
     (str_bytes ''vary'', str_bytes ''''),
     (str_bytes ''via'', str_bytes ''''),
     (str_bytes ''www-authenticate'', str_bytes '''')]"

definition NGX_HTTP_V2_STATIC_TABLE_ENTRIES :: nat where
  "NGX_HTTP_V2_STATIC_TABLE_ENTRIES = length ngx_http_v2_static_table"

definition ngx_http_v2_get_static_name :: "nat \<Rightarrow> bytes" where
  "ngx_http_v2_get_static_name index = fst (ngx_http_v2_static_table ! (index - 1))"

definition ngx_http_v2_get_static_value :: "nat \<Rightarrow> bytes" where
  "ngx_http_v2_get_static_value index = snd (ngx_http_v2_static_table ! (index - 1))"

section \<open>Lookup\<close>

text \<open>The entry an index of the pointer ring refers to.\<close>

definition entry_at :: "hpack \<Rightarrow> nat \<Rightarrow> table_entry" where
  "entry_at t i = cells t ! (the (entries t) ! (i mod allocated t))"

text \<open>A string of the storage, copied in one or two pieces.\<close>

definition stored :: "hpack \<Rightarrow> nat \<Rightarrow> nat \<Rightarrow> bytes" where
  "stored t data len =
     (let st = the (storage t); rest = NGX_HTTP_V2_TABLE_SIZE - data in
      if len > rest then take rest (drop data st) @ take (len - rest) st
      else take len (drop data st))"

text \<open>
  The result and \<open>state.header\<close>; \<open>ok1\<close> and \<open>ok2\<close> tell whether the pool has memory for the name
  and for the value.
\<close>

definition ngx_http_v2_get_indexed_header ::
    "bool \<Rightarrow> bool \<Rightarrow> hpack \<Rightarrow> nat \<Rightarrow> bool \<Rightarrow> bytes \<times> bytes \<Rightarrow> ngx_rc \<times> (bytes \<times> bytes)" where
  "ngx_http_v2_get_indexed_header ok1 ok2 t index name_only header =
     (if index = 0 then (NGX_ERROR, header)
      else
        let index = index - 1 in
        if index < NGX_HTTP_V2_STATIC_TABLE_ENTRIES then (NGX_OK, ngx_http_v2_static_table ! index)
        else
          let index = index - NGX_HTTP_V2_STATIC_TABLE_ENTRIES in
          if index < added t - deleted t then
            let entry = entry_at t (added t - index - 1) in
            if \<not> ok1 then (NGX_ERROR, header)
            else
              let name = stored t (name_data entry) (name_len entry) in
              if name_only then (NGX_OK, (name, snd header))
              else if \<not> ok2 then (NGX_ERROR, (name, snd header))
              else (NGX_OK, (name, stored t (value_data entry) (value_len entry)))
          else (NGX_ERROR, header))"

section \<open>Eviction\<close>

definition entry_cost :: "table_entry \<Rightarrow> nat" where
  "entry_cost e = 32 + name_len e + value_len e"

text \<open>One round of the loops that drop the oldest entry.\<close>

definition drop_oldest :: "hpack \<Rightarrow> hpack" where
  "drop_oldest t = t\<lparr>deleted := deleted t + 1, table_free := table_free t + entry_cost (entry_at t (deleted t))\<rparr>"

lemma drop_oldest_free: "table_free t + 32 \<le> table_free (drop_oldest t)"
  by (simp add: drop_oldest_def entry_cost_def)

text \<open>The loop: drop the oldest entries until \<open>sz\<close> bytes are free.\<close>

function drop_until :: "nat \<Rightarrow> hpack \<Rightarrow> hpack" where
  "drop_until sz t = (if sz > table_free t then drop_until sz (drop_oldest t) else t)"
  by auto
termination
proof (relation "measure (\<lambda>(sz, t). sz - table_free t)")
  fix sz and t :: hpack
  assume "sz > table_free t"
  then show "((sz, drop_oldest t), (sz, t)) \<in> measure (\<lambda>(sz, t). sz - table_free t)"
    using drop_oldest_free [of t] by simp
qed simp

declare drop_until.simps [simp del]

definition ngx_http_v2_table_account :: "hpack \<Rightarrow> nat \<Rightarrow> ngx_rc \<times> hpack" where
  "ngx_http_v2_table_account t sz =
     (let sz = sz + 32 in
      if sz \<le> table_free t then (NGX_OK, t\<lparr>table_free := table_free t - sz\<rparr>)
      else if sz > table_limit t then
        (NGX_DECLINED, t\<lparr>deleted := added t, table_free := table_limit t\<rparr>)
      else
        let t = drop_until sz (drop_oldest t) in
        (NGX_OK, t\<lparr>table_free := table_free t - sz\<rparr>))"

text \<open>The sz update; \<open>needed\<close> is signed.\<close>

definition ngx_http_v2_table_size :: "hpack \<Rightarrow> nat \<Rightarrow> ngx_rc \<times> hpack" where
  "ngx_http_v2_table_size t sz =
     (if sz > NGX_HTTP_V2_TABLE_SIZE then (NGX_ERROR, t)
      else
        let needed = int (table_limit t) - int sz;
            t = drop_until (nat needed) t in
        (NGX_OK, t\<lparr>table_limit := sz, table_free := nat (int (table_free t) - needed)\<rparr>))"

section \<open>Insertion\<close>

text \<open>The first insertion allocates the two rings; \<open>None\<close> when there is no memory for the storage.\<close>

definition table_create :: "hpack_memory \<Rightarrow> hpack \<Rightarrow> ngx_rc \<times> hpack" where
  "table_create m t =
     (let t = t\<lparr>allocated := 64, table_limit := NGX_HTTP_V2_TABLE_SIZE, table_free := NGX_HTTP_V2_TABLE_SIZE\<rparr> in
      case mem_entries m of
        None \<Rightarrow> (NGX_ERROR, t)
      | Some g \<Rightarrow>
          let t = t\<lparr>entries := Some (map g [0..<64])\<rparr> in
          (case mem_storage m of
             None \<Rightarrow> (NGX_ERROR, t)
           | Some s \<Rightarrow> (NGX_OK, t\<lparr>storage := Some (map s [0..<NGX_HTTP_V2_TABLE_SIZE]), store_pos := 0\<rparr>)))"

text \<open>The entry object: a deleted one that is not in use again yet, or a new one.\<close>

definition take_entry :: "hpack_memory \<Rightarrow> hpack \<Rightarrow> (nat \<times> hpack) option" where
  "take_entry m t =
     (if reused t = deleted t
      then (case mem_entry m of
          None \<Rightarrow> None
        | Some e \<Rightarrow> Some (length (cells t), t\<lparr>cells := cells t @ [e]\<rparr>))
      else Some (the (entries t) ! (reused t mod allocated t), t\<lparr>reused := reused t + 1\<rparr>))"

text \<open>\<open>memcpy\<close> into the storage at an offset.\<close>

definition put_bytes :: "nat \<Rightarrow> bytes \<Rightarrow> bytes \<Rightarrow> bytes" where
  "put_bytes at s st = take at st @ s @ drop (at + length s) st"

text \<open>
  One string written at \<open>pos\<close>, with \<open>avail\<close> bytes up to the end of the storage: the new storage, the
  new position and what is \<open>avail\<close> before the length is subtracted.
\<close>

definition store_string :: "bytes \<Rightarrow> nat \<Rightarrow> nat \<Rightarrow> bytes \<Rightarrow> bytes \<times> nat \<times> nat" where
  "store_string st pos avail s =
     (if avail \<ge> length s then (put_bytes pos s st, pos + length s, avail)
      else (put_bytes 0 (drop avail s) (put_bytes pos (take avail s) st), length s - avail, NGX_HTTP_V2_TABLE_SIZE))"

definition store_header :: "hpack \<Rightarrow> nat \<Rightarrow> bytes \<Rightarrow> bytes \<Rightarrow> hpack" where
  "store_header t p name val =
     (let avail = NGX_HTTP_V2_TABLE_SIZE - store_pos t;
          (st1, pos1, avail1) = store_string (the (storage t)) (store_pos t) avail name;
          (st2, pos2, _) = store_string st1 pos1 (avail1 - length name) val in
      t\<lparr>storage := Some st2, store_pos := pos2,
        cells := (cells t)[p := \<lparr>name_len = length name, name_data = store_pos t,
                               value_len = length val, value_data = pos1\<rparr>]\<rparr>)"

text \<open>A full pointer ring is copied into a larger one, the oldest entry first.\<close>

definition table_grow :: "(nat \<Rightarrow> nat) \<Rightarrow> hpack \<Rightarrow> hpack" where
  "table_grow g t =
     (let es = the (entries t); index = deleted t mod allocated t in
      t\<lparr>entries := Some (take (allocated t - index) (drop index es) @ take index es
           @ map g [allocated t..<allocated t + 64]),
        added := allocated t, deleted := 0, reused := 0, allocated := allocated t + 64\<rparr>)"

definition table_push :: "nat \<Rightarrow> hpack \<Rightarrow> hpack" where
  "table_push p t =
     t\<lparr>entries := Some ((the (entries t))[added t mod allocated t := p]), added := added t + 1\<rparr>"

definition ngx_http_v2_add_header :: "hpack_memory \<Rightarrow> hpack \<Rightarrow> bytes \<Rightarrow> bytes \<Rightarrow> ngx_rc \<times> hpack" where
  "ngx_http_v2_add_header m t name val =
     (case (if entries t = None then table_create m t else (NGX_OK, t)) of
        (NGX_OK, t) \<Rightarrow>
          (case ngx_http_v2_table_account t (length name + length val) of
             (NGX_OK, t) \<Rightarrow>
               (case take_entry m t of
                  None \<Rightarrow> (NGX_ERROR, t)
                | Some (p, t) \<Rightarrow>
                    let t = store_header t p name val in
                    if allocated t = added t - deleted t
                    then (case mem_grown m of
                        None \<Rightarrow> (NGX_ERROR, t)
                      | Some g \<Rightarrow> (NGX_OK, table_push p (table_grow g t)))
                    else (NGX_OK, table_push p t))
           | (_, t) \<Rightarrow> (NGX_OK, t))
      | (rc, t) \<Rightarrow> (rc, t))"


section \<open>The ring of bytes\<close>

text \<open>
  A string that lies in the ring from the virtual position \<open>a\<close> on; virtual positions count all
  the bytes ever written.
\<close>

definition ring :: "bytes \<Rightarrow> nat \<Rightarrow> bytes \<Rightarrow> bool" where
  "ring st a s \<longleftrightarrow> (\<forall>k<length s. st ! ((a + k) mod 4096) = s ! k)"

lemma ring_append: "ring st a (s @ u) \<longleftrightarrow> ring st a s \<and> ring st (a + length s) u"
proof
  assume r: "ring st a (s @ u)"
  have "ring st a s" using r by (fastforce simp: ring_def nth_append)
  moreover have "ring st (a + length s) u"
    unfolding ring_def
  proof safe
    fix k
    assume "k < length u"
    then show "st ! ((a + length s + k) mod 4096) = u ! k"
      using r [unfolded ring_def, rule_format, of "length s + k"] by (simp add: add.assoc)
  qed
  ultimately show "ring st a s \<and> ring st (a + length s) u" ..
next
  assume r: "ring st a s \<and> ring st (a + length s) u"
  show "ring st a (s @ u)"
    unfolding ring_def
  proof safe
    fix k
    assume "k < length (s @ u)"
    then show "st ! ((a + k) mod 4096) = (s @ u) ! k"
      using r by (cases "k < length s") (auto simp: ring_def nth_append dest: spec [of _ "k - length s"])
  qed
qed

lemma ring_cong: "a mod 4096 = b mod 4096 \<Longrightarrow> ring st a s \<longleftrightarrow> ring st b s"
  unfolding ring_def by (metis mod_add_left_eq)

text \<open>A copy out of the storage is what the ring holds.\<close>

lemma stored_ring:
  assumes "storage t = Some st" "length st = 4096" "data \<le> 4096" "length s \<le> 4096" "ring st data s"
  shows "stored t data (length s) = s"
proof -
  have r: "st ! ((data + k) mod 4096) = s ! k" if "k < length s" for k using assms(5) that by (simp add: ring_def)
  show ?thesis
  proof (cases "length s > 4096 - data")
    case True
    then have l: "stored t data (length s) = take (4096 - data) (drop data st) @ take (length s - (4096 - data)) st"
      using assms(1) by (simp add: stored_def Let_def)
    show ?thesis unfolding l
    proof (rule nth_equalityI)
      fix k
      assume "k < length (take (4096 - data) (drop data st) @ take (length s - (4096 - data)) st)"
      then have k: "k < length s" using assms True by (simp split: if_splits)
      show "(take (4096 - data) (drop data st) @ take (length s - (4096 - data)) st) ! k = s ! k"
      proof (cases "k < 4096 - data")
        case True
        then show ?thesis using r [OF k] assms by (simp add: nth_append)
      next
        case False
        then have "data + k = k - (4096 - data) + 4096" using assms by simp
        moreover have "k - (4096 - data) < 4096" using k assms by simp
        ultimately have "(data + k) mod 4096 = k - (4096 - data)" by (metis mod_add_self2 mod_less)
        then show ?thesis using r [OF k] False k assms by (simp add: nth_append)
      qed
    qed (use assms True in simp)
  next
    case False
    then have l: "stored t data (length s) = take (length s) (drop data st)" using assms(1) by (simp add: stored_def Let_def)
    show ?thesis unfolding l
    proof (rule nth_equalityI)
      fix k
      assume "k < length (take (length s) (drop data st))"
      then have k: "k < length s" "data + k < 4096" using assms by auto
      then show "take (length s) (drop data st) ! k = s ! k" using r [OF k(1)] assms by simp
    qed (use assms False in simp)
  qed
qed

lemma put_bytes_simps:
  "at + length s \<le> length st \<Longrightarrow> length (put_bytes at s st) = length st"
  "at + length s \<le> length st \<Longrightarrow> i < length st \<Longrightarrow>
     put_bytes at s st ! i = (if at \<le> i \<and> i < at + length s then s ! (i - at) else st ! i)"
  by (auto simp: put_bytes_def nth_append)

text \<open>
  A string is written behind the ring: it lies there, the other bytes are as before, and \<open>pos\<close> is
  at its end.
\<close>

lemma store_string_ok:
  assumes "length st = 4096" "pos \<le> 4096" "length s \<le> 4096"
    and "avail = 4096 - pos \<or> length s \<le> avail \<and> avail \<le> 4096 - pos"
    and "store_string st pos avail s = (st', pos', avail')"
  shows "length st' = 4096 \<and> pos' \<le> 4096 \<and> pos' mod 4096 = (pos + length s) mod 4096 \<and> ring st' pos s
    \<and> (\<forall>i<4096. (\<forall>k<length s. i \<noteq> (pos + k) mod 4096) \<longrightarrow> st' ! i = st ! i)"
proof (cases "avail \<ge> length s")
  case True
  then have e: "st' = put_bytes pos s st" "pos' = pos + length s" and l: "pos + length s \<le> length st"
    using assms by (auto simp: store_string_def)
  have "ring st' pos s" unfolding ring_def e(1) using l assms(1) by (simp add: put_bytes_simps)
  moreover have "st' ! i = st ! i" if "i < 4096" "\<forall>k<length s. i \<noteq> (pos + k) mod 4096" for i
  proof -
    have "\<not> (pos \<le> i \<and> i < pos + length s)"
    proof
      assume j: "pos \<le> i \<and> i < pos + length s"
      then have "i - pos < length s" by linarith
      moreover have "(pos + (i - pos)) mod 4096 = i" using j that(1) by simp
      ultimately show False using that(2) by metis
    qed
    then show ?thesis unfolding e(1) using l assms(1) that(1) by (auto simp: put_bytes_simps)
  qed
  ultimately show ?thesis using e l assms(1) by (simp add: put_bytes_simps)
next
  case False
  then have av: "avail = 4096 - pos" using assms(4) by simp
  have e: "st' = put_bytes 0 (drop avail s) (put_bytes pos (take avail s) st)" "pos' = length s - avail"
    using False assms(5) by (auto simp: store_string_def)
  have n: "st' ! i = (if i < length s - avail then s ! (avail + i) else if pos \<le> i then s ! (i - pos) else st ! i)"
    if "i < 4096" for i
    using that False av assms unfolding e(1) by (auto simp: put_bytes_simps)
  have "ring st' pos s"
    unfolding ring_def
  proof safe
    fix k
    assume k: "k < length s"
    show "st' ! ((pos + k) mod 4096) = s ! k"
    proof (cases "pos + k < 4096")
      case True
      moreover have "\<not> pos + k < length s - avail" using av assms(2,3) k by linarith
      ultimately show ?thesis using n [of "pos + k"] by simp
    next
      case F: False
      then have "pos + k = k - avail + 4096" "k - avail < 4096" using av assms k by simp_all
      then have "(pos + k) mod 4096 = k - avail" by (metis mod_add_self2 mod_less)
      moreover have "k - avail < length s - avail" "avail + (k - avail) = k" using F av k by linarith+
      moreover have "k - avail < 4096" by fact
      ultimately show ?thesis using n [of "k - avail"] by simp
    qed
  qed
  moreover have "st' ! i = st ! i" if i: "i < 4096" "\<forall>k<length s. i \<noteq> (pos + k) mod 4096" for i
  proof -
    have "\<not> i < length s - avail"
    proof
      assume j: "i < length s - avail"
      have "pos + (avail + i) = i + 4096" using av assms by simp
      then have "(pos + (avail + i)) mod 4096 = i" using i(1) by (metis mod_add_self2 mod_less)
      then show False using i(2) j by (metis less_diff_conv add.commute)
    qed
    moreover have "\<not> pos \<le> i"
    proof
      assume j: "pos \<le> i"
      then have "i - pos < length s" using i(1) False av by simp
      then show False using i(2) [rule_format, of "i - pos"] j i(1) by simp
    qed
    ultimately show ?thesis using n [OF i(1)] by simp
  qed
  moreover have "pos' mod 4096 = (pos + length s) mod 4096"
  proof -
    have "pos + length s = pos' + 4096" using e(2) av False assms by simp
    then show ?thesis by simp
  qed
  ultimately show ?thesis using e av assms False by (simp add: put_bytes_simps)
qed


section \<open>What the table holds\<close>

type_synonym header = "bytes \<times> bytes"

text \<open>
  The specification is RFC 7541, section 4: a list of headers, the oldest first, and a limit. An
  entry costs 32 bytes and its strings; the oldest ones go until the rest fits.
\<close>

definition header_cost :: "header \<Rightarrow> nat" where
  "header_cost h = 32 + length (fst h) + length (snd h)"

definition headers_cost :: "header list \<Rightarrow> nat" where
  "headers_cost hs = sum_list (map header_cost hs)"

fun evict :: "nat \<Rightarrow> header list \<Rightarrow> header list" where
  "evict limit [] = []"
| "evict limit (h # hs) = (if headers_cost (h # hs) > limit then evict limit hs else h # hs)"

lemma headers_cost_simps [simp]:
  "headers_cost [] = 0" "headers_cost (h # hs) = header_cost h + headers_cost hs"
  "headers_cost (hs @ hs') = headers_cost hs + headers_cost hs'"
  by (simp_all add: headers_cost_def)

text \<open>The entries and headers side by side: they follow one another in the ring from \<open>a\<close> to \<open>v\<close>.\<close>

definition holds :: "bytes \<Rightarrow> nat \<Rightarrow> table_entry \<Rightarrow> header \<Rightarrow> bool" where
  "holds st a e h \<longleftrightarrow> name_len e = length (fst h) \<and> value_len e = length (snd h)
     \<and> name_data e \<le> 4096 \<and> name_data e mod 4096 = a mod 4096
     \<and> value_data e \<le> 4096 \<and> value_data e mod 4096 = (a + length (fst h)) mod 4096
     \<and> ring st a (fst h @ snd h)"

fun laid_out :: "bytes \<Rightarrow> nat \<Rightarrow> table_entry list \<Rightarrow> header list \<Rightarrow> nat \<Rightarrow> bool" where
  "laid_out st a [] [] v \<longleftrightarrow> a = v"
| "laid_out st a (e # es) (h # hs) v \<longleftrightarrow>
     holds st a e h \<and> laid_out st (a + length (fst h) + length (snd h)) es hs v"
| "laid_out st a _ _ v \<longleftrightarrow> False"

text \<open>The pointers of a range of the ring of pointers.\<close>

definition slots :: "hpack \<Rightarrow> nat \<Rightarrow> nat \<Rightarrow> nat list" where
  "slots t i j = map (\<lambda>k. the (entries t) ! (k mod allocated t)) [i..<j]"

definition live :: "hpack \<Rightarrow> table_entry list" where
  "live t = map (entry_at t) [deleted t..<added t]"

text \<open>
  The invariant of a table in use: \<open>hs\<close> is what it holds and \<open>r\<close> the bytes an insertion has
  reserved.
\<close>

definition pointers_ok :: "hpack \<Rightarrow> bool" where
  "pointers_ok t \<longleftrightarrow> (\<exists>es. entries t = Some es \<and> length es = allocated t) \<and> 0 < allocated t
     \<and> reused t \<le> deleted t \<and> deleted t \<le> added t \<and> added t \<le> reused t + allocated t
     \<and> distinct (slots t (reused t) (added t)) \<and> list_all (\<lambda>p. p < length (cells t)) (slots t (reused t) (added t))"

definition strings_ok :: "hpack \<Rightarrow> header list \<Rightarrow> bool" where
  "strings_ok t hs \<longleftrightarrow> (\<exists>st v a. storage t = Some st \<and> length st = 4096 \<and> store_pos t \<le> 4096
     \<and> store_pos t mod 4096 = v mod 4096 \<and> laid_out st a (live t) hs v)"

definition table_ok :: "nat \<Rightarrow> hpack \<Rightarrow> header list \<Rightarrow> bool" where
  "table_ok r t hs \<longleftrightarrow> pointers_ok t \<and> strings_ok t hs
     \<and> table_free t + r + headers_cost hs = table_limit t \<and> table_limit t \<le> 4096"

lemma laid_out_length: "laid_out st a es hs v \<Longrightarrow> length es = length hs"
  by (induction st a es hs v rule: laid_out.induct) auto

lemma laid_out_end: "laid_out st a es hs v \<Longrightarrow> v + 32 * length hs = a + headers_cost hs"
  by (induction st a es hs v rule: laid_out.induct) (auto simp: header_cost_def)

lemma laid_out_le: "laid_out st a es hs v \<Longrightarrow> a \<le> v"
  by (induction st a es hs v rule: laid_out.induct) auto

lemma laid_out_append:
  "laid_out st a es hs v \<Longrightarrow> holds st v e h \<Longrightarrow>
   laid_out st a (es @ [e]) (hs @ [h]) (v + length (fst h) + length (snd h))"
  by (induction st a es hs v rule: laid_out.induct) auto

lemma laid_out_nth:
  "laid_out st a es hs v \<Longrightarrow> i < length hs \<Longrightarrow> \<exists>b. holds st b (es ! i) (hs ! i)"
proof (induction st a es hs v arbitrary: i rule: laid_out.induct)
  case (2 st a e es h hs v)
  then show ?case by (cases i) auto
qed auto

text \<open>Bytes outside \<open>[a, v)\<close> do not matter.\<close>

lemma holds_cong:
  assumes "holds st a e h" "\<And>i. i < length (fst h) + length (snd h) \<Longrightarrow> st' ! ((a + i) mod 4096) = st ! ((a + i) mod 4096)"
  shows "holds st' a e h"
  using assms by (simp add: holds_def ring_def)

lemma laid_out_cong:
  assumes "laid_out st a es hs v" "\<And>x. a \<le> x \<Longrightarrow> x < v \<Longrightarrow> st' ! (x mod 4096) = st ! (x mod 4096)"
  shows "laid_out st' a es hs v"
  using assms
proof (induction st a es hs v rule: laid_out.induct)
  case (2 st a e es h hs v)
  have v: "a + length (fst h) + length (snd h) \<le> v"
    using laid_out_le [of st "a + length (fst h) + length (snd h)" es hs v] 2(2) by simp
  show ?case using 2 v by (auto intro!: holds_cong [of st a e h st'])
qed auto

section \<open>Eviction\<close>

lemma upt_first: "i < j \<Longrightarrow> [i..<j] = i # [Suc i..<j]"
  by (rule upt_conv_Cons)

lemma entry_at_fields [simp]:
  "entry_at (t\<lparr>table_free := x\<rparr>) = entry_at t" "entry_at (t\<lparr>table_limit := y\<rparr>) = entry_at t"
  by (rule ext, simp add: entry_at_def)+

lemma pointers_fields:
  "pointers_ok (t\<lparr>table_free := x\<rparr>) = pointers_ok t" "pointers_ok (t\<lparr>table_limit := y\<rparr>) = pointers_ok t"
  by (simp_all add: pointers_ok_def slots_def)

lemma strings_fields:
  "strings_ok (t\<lparr>table_free := x\<rparr>) hs = strings_ok t hs" "strings_ok (t\<lparr>table_limit := y\<rparr>) hs = strings_ok t hs"
  by (simp_all add: strings_ok_def live_def)

lemma drop_oldest_ok:
  assumes "table_ok r t (h # hs)"
  shows "table_ok r (drop_oldest t) hs" and "table_limit (drop_oldest t) = table_limit t"
    and "table_free (drop_oldest t) = table_free t + header_cost h"
proof -
  obtain st v a where st: "storage t = Some st" "length st = 4096" "store_pos t \<le> 4096" "store_pos t mod 4096 = v mod 4096"
    and l: "laid_out st a (live t) (h # hs) v"
    using assms by (auto simp: table_ok_def strings_ok_def)
  have "live t \<noteq> []" using l by auto
  then have d: "deleted t < added t" by (auto simp: live_def)
  have e: "live t = entry_at t (deleted t) # live (drop_oldest t)"
    unfolding live_def upt_first [OF d] by (simp add: drop_oldest_def entry_at_def)
  have h: "holds st a (entry_at t (deleted t)) h"
    and l': "laid_out st (a + length (fst h) + length (snd h)) (live (drop_oldest t)) hs v"
    using l unfolding e by simp_all
  have c: "entry_cost (entry_at t (deleted t)) = header_cost h"
    using h by (simp add: entry_cost_def header_cost_def holds_def)
  show f: "table_free (drop_oldest t) = table_free t + header_cost h" by (simp add: drop_oldest_def c)
  show lim: "table_limit (drop_oldest t) = table_limit t" by (simp add: drop_oldest_def)
  have "pointers_ok (drop_oldest t)"
    using assms d by (simp add: table_ok_def pointers_ok_def slots_def drop_oldest_def)
  moreover have "strings_ok (drop_oldest t) hs"
    using st l' unfolding strings_ok_def by (auto simp: drop_oldest_def)
  ultimately show "table_ok r (drop_oldest t) hs" using assms f lim by (simp add: table_ok_def)
qed

lemma drop_until_ok:
  assumes "table_ok 0 t hs" "sz \<le> table_limit t"
  shows "table_ok 0 (drop_until sz t) (evict (table_limit t - sz) hs)
    \<and> table_limit (drop_until sz t) = table_limit t \<and> sz \<le> table_free (drop_until sz t)"
  using assms
proof (induction hs arbitrary: t)
  case Nil
  then show ?case by (simp add: table_ok_def drop_until.simps [of sz t])
next
  case (Cons h hs)
  have f: "table_free t + headers_cost (h # hs) = table_limit t" using Cons.prems by (simp add: table_ok_def)
  show ?case
  proof (cases "sz > table_free t")
    case True
    then have "headers_cost (h # hs) > table_limit t - sz" using f Cons.prems(2) by linarith
    then have "evict (table_limit t - sz) (h # hs) = evict (table_limit t - sz) hs" by simp
    moreover have "drop_until sz t = drop_until sz (drop_oldest t)" using True by (simp add: drop_until.simps [of sz t])
    ultimately show ?thesis using Cons.IH [of "drop_oldest t"] drop_oldest_ok [OF Cons.prems(1)] Cons.prems(2) by simp
  next
    case False
    then have "\<not> headers_cost (h # hs) > table_limit t - sz" using f by linarith
    then show ?thesis using False Cons.prems by (simp add: drop_until.simps [of sz t])
  qed
qed

lemma evict_cost: "headers_cost (evict limit hs) \<le> limit"
  by (induction limit hs rule: evict.induct) auto

lemma evict_fits: "headers_cost hs \<le> limit \<Longrightarrow> evict limit hs = hs"
  by (cases hs) auto

text \<open>A size update is the eviction of the specification.\<close>

lemma table_size_ok:
  assumes "table_ok 0 t hs" "sz \<le> 4096"
  shows "case ngx_http_v2_table_size t sz of (rc, t') \<Rightarrow>
    rc = NGX_OK \<and> table_ok 0 t' (evict sz hs) \<and> table_limit t' = sz"
proof (cases "sz \<le> table_limit t")
  case True
  let ?n = "table_limit t - sz" and ?t = "drop_until (table_limit t - sz) t"
  have n: "nat (int (table_limit t) - int sz) = ?n" "int (table_limit t) - int sz = int ?n" using True by simp_all
  have d: "table_ok 0 ?t (evict sz hs)" "table_limit ?t = table_limit t" "?n \<le> table_free ?t"
    using drop_until_ok [OF assms(1), of ?n] True by simp_all
  have "table_free ?t + headers_cost (evict sz hs) = table_limit t" using d(1,2) by (simp add: table_ok_def)
  then have "table_free ?t - ?n + headers_cost (evict sz hs) = sz" using d(3) True by linarith
  then have "table_ok 0 (?t\<lparr>table_limit := sz, table_free := table_free ?t - ?n\<rparr>) (evict sz hs)"
    using d True assms(2) by (simp add: table_ok_def pointers_fields strings_fields)
  then show ?thesis using assms(2) d by (simp add: ngx_http_v2_table_size_def Let_def n nat_diff_distrib)
next
  case False
  then have n: "nat (int (table_limit t) - int sz) = 0" by simp
  have f: "nat (int (table_free t) - (int (table_limit t) - int sz)) = table_free t + (sz - table_limit t)"
    using False by simp
  have "evict sz hs = hs" using assms(1) False by (intro evict_fits) (simp add: table_ok_def)
  moreover have "table_free t + headers_cost hs = table_limit t" using assms(1) by (simp add: table_ok_def)
  then have "table_free t + (sz - table_limit t) + headers_cost hs = sz" using False by linarith
  then have "table_ok 0 (t\<lparr>table_limit := sz, table_free := table_free t + (sz - table_limit t)\<rparr>) hs"
    using assms False by (simp add: table_ok_def pointers_fields strings_fields)
  ultimately show ?thesis using assms(2)
    by (simp add: ngx_http_v2_table_size_def Let_def n f drop_until.simps [of 0 t])
qed


section \<open>Insertion\<close>

lemma live_slots: "live t = map ((!) (cells t)) (slots t (deleted t) (added t))"
  by (simp add: live_def slots_def entry_at_def)

lemma slots_split: "i \<le> j \<Longrightarrow> j \<le> k \<Longrightarrow> slots t i k = slots t i j @ slots t j k"
  using upt_add_eq_append [of i j "k - j"] by (simp add: slots_def)

lemma account_ok:
  assumes "table_ok 0 t hs"
  shows "case ngx_http_v2_table_account t sz of (rc, t') \<Rightarrow>
    table_limit t' = table_limit t
    \<and> (if 32 + sz \<le> table_limit t
       then rc = NGX_OK \<and> table_ok (32 + sz) t' (evict (table_limit t - (32 + sz)) hs)
       else rc = NGX_DECLINED \<and> table_ok 0 t' [])"
proof -
  let ?c = "32 + sz"
  have f: "table_free t + headers_cost hs = table_limit t" "table_limit t \<le> 4096"
    using assms by (simp_all add: table_ok_def)
  have sub: "table_ok ?c (t'\<lparr>table_free := table_free t' - ?c\<rparr>) hs'"
    if "table_ok 0 t' hs'" "?c \<le> table_free t'" for t' hs'
    using that by (simp add: table_ok_def pointers_fields strings_fields)
  consider (fits) "?c \<le> table_free t" | (large) "?c > table_limit t" | (pop) "?c > table_free t" "?c \<le> table_limit t"
    by linarith
  then show ?thesis
  proof cases
    case fits
    then have "headers_cost hs \<le> table_limit t - ?c" using f by linarith
    then have "evict (table_limit t - ?c) hs = hs" by (rule evict_fits)
    then show ?thesis using fits f sub [OF assms fits] by (simp add: ngx_http_v2_table_account_def add.commute)
  next
    case large
    have p: "pointers_ok (t\<lparr>deleted := added t, table_free := table_limit t\<rparr>)"
      using assms by (auto simp: table_ok_def pointers_ok_def slots_def)
    have "strings_ok (t\<lparr>deleted := added t, table_free := table_limit t\<rparr>) []"
      using assms unfolding table_ok_def strings_ok_def live_def by (auto simp: table_ok_def)
    then show ?thesis using large f p by (simp add: ngx_http_v2_table_account_def table_ok_def add.commute)
  next
    case pop
    have "drop_until ?c (drop_oldest t) = drop_until ?c t"
      using pop(1) by (simp add: drop_until.simps [of ?c t])
    moreover note drop_until_ok [OF assms pop(2)]
    ultimately show ?thesis using pop sub [of "drop_until ?c t"]
      by (simp add: ngx_http_v2_table_account_def Let_def add.commute)
  qed
qed

text \<open>The object taken for an entry is no live one's, and there is room for it in the ring of pointers or all of that is live.\<close>

definition fresh_entry :: "nat \<Rightarrow> hpack \<Rightarrow> bool" where
  "fresh_entry p t \<longleftrightarrow> pointers_ok t \<and> p < length (cells t) \<and> p \<notin> set (slots t (reused t) (added t))
     \<and> (if added t - deleted t = allocated t then reused t = deleted t else added t < reused t + allocated t)"

lemma slots_fields [simp]:
  "slots (t\<lparr>cells := x\<rparr>) = slots t" "slots (t\<lparr>reused := y\<rparr>) = slots t"
  "slots (t\<lparr>storage := u, store_pos := v\<rparr>) = slots t"
  by (rule ext, rule ext, simp add: slots_def)+

lemma take_entry_ok:
  assumes "pointers_ok t" "take_entry m t = Some (p, t')"
  shows "fresh_entry p t'" and "live t' = live t"
    and "storage t' = storage t" "store_pos t' = store_pos t" "table_free t' = table_free t"
      "table_limit t' = table_limit t"
proof -
  have le: "reused t \<le> deleted t" "deleted t \<le> added t" "added t \<le> reused t + allocated t" "0 < allocated t"
    and all: "list_all (\<lambda>p. p < length (cells t)) (slots t (reused t) (added t))"
    and dist: "distinct (slots t (reused t) (added t))"
    and es: "\<exists>es. entries t = Some es \<and> length es = allocated t"
    using assms(1) by (simp_all add: pointers_ok_def)
  have sub: "set (slots t (deleted t) (added t)) \<subseteq> set (slots t (reused t) (added t))"
    using le by (auto simp: slots_def)
  have "fresh_entry p t' \<and> live t' = live t"
  proof (cases "reused t = deleted t")
    case True
    then obtain e where e: "p = length (cells t)" "t' = t\<lparr>cells := cells t @ [e]\<rparr>"
      using assms(2) by (auto simp: take_entry_def split: option.splits)
    have "p \<notin> set (slots t (reused t) (added t))" using all e(1) by (auto simp: list_all_iff)
    moreover have "live t' = live t"
      unfolding live_slots e(2) using all sub by (auto simp: list_all_iff nth_append)
    ultimately show ?thesis using True e le es dist all by (auto simp: fresh_entry_def pointers_ok_def list_all_iff)
  next
    case False
    then have lt: "reused t < deleted t" using le by simp
    have e: "p = the (entries t) ! (reused t mod allocated t)" "t' = t\<lparr>reused := reused t + 1\<rparr>"
      using assms(2) False by (simp_all add: take_entry_def)
    have s: "slots t (reused t) (added t) = p # slots t (reused t + 1) (added t)"
      unfolding slots_def using lt le upt_first [of "reused t" "added t"] e(1) by simp
    have "live t' = live t" unfolding live_slots e(2) by simp
    moreover have "added t - deleted t \<noteq> allocated t" using lt le by linarith
    ultimately show ?thesis using e(2) lt le es dist all s
      by (simp add: fresh_entry_def pointers_ok_def)
  qed
  then show "fresh_entry p t'" "live t' = live t" by simp_all
  show "storage t' = storage t" "store_pos t' = store_pos t" "table_free t' = table_free t" "table_limit t' = table_limit t"
    using assms(2) by (auto simp: take_entry_def split: if_splits option.splits)
qed

text \<open>With one more entry behind the live ones.\<close>

definition strings_with :: "hpack \<Rightarrow> table_entry list \<Rightarrow> header list \<Rightarrow> bool" where
  "strings_with t es hs \<longleftrightarrow> (\<exists>st v a. storage t = Some st \<and> length st = 4096 \<and> store_pos t \<le> 4096
     \<and> store_pos t mod 4096 = v mod 4096 \<and> laid_out st a es hs v)"

lemma mod_apart: "x < y \<Longrightarrow> y < x + 4096 \<Longrightarrow> x mod 4096 \<noteq> y mod (4096 :: nat)"
  using mod_eq_dvd_iff_nat [of x y 4096] dvd_imp_le [of 4096 "y - x"] by auto

lemma store_header_ok:
  assumes f: "fresh_entry p t" and s: "strings_ok t hs"
    and c: "length name + length val + headers_cost hs \<le> 4096"
  defines "t' \<equiv> store_header t p name val"
  shows "fresh_entry p t'" and "strings_with t' (live t' @ [cells t' ! p]) (hs @ [(name, val)])"
    and "live t' = live t" "table_free t' = table_free t" "table_limit t' = table_limit t"
proof -
  obtain st v a where st: "storage t = Some st" "length st = 4096" "store_pos t \<le> 4096" "store_pos t mod 4096 = v mod 4096"
    and l: "laid_out st a (live t) hs v"
    using s by (auto simp: strings_ok_def)
  have va: "v + length name + length val \<le> a + 4096" using laid_out_end [OF l] c by linarith
  obtain st1 pos1 av1 where s1: "store_string st (store_pos t) (4096 - store_pos t) name = (st1, pos1, av1)"
    by (cases "store_string st (store_pos t) (4096 - store_pos t) name")
  obtain st2 pos2 av2 where s2: "store_string st1 pos1 (av1 - length name) val = (st2, pos2, av2)"
    by (cases "store_string st1 pos1 (av1 - length name) val")
  have n4: "length name \<le> 4096" "length val \<le> 4096" using c by linarith+
  have o1: "length st1 = 4096 \<and> pos1 \<le> 4096 \<and> pos1 mod 4096 = (store_pos t + length name) mod 4096
      \<and> ring st1 (store_pos t) name
      \<and> (\<forall>i<4096. (\<forall>k<length name. i \<noteq> (store_pos t + k) mod 4096) \<longrightarrow> st1 ! i = st ! i)"
    by (rule store_string_ok [OF st(2,3) n4(1) _ s1]) simp
  have "av1 - length name = 4096 - pos1 \<or> length val \<le> av1 - length name \<and> av1 - length name \<le> 4096 - pos1"
    using s1 st(3) c by (auto simp: store_string_def split: if_splits)
  then have o2: "length st2 = 4096 \<and> pos2 \<le> 4096 \<and> pos2 mod 4096 = (pos1 + length val) mod 4096
      \<and> ring st2 pos1 val
      \<and> (\<forall>i<4096. (\<forall>k<length val. i \<noteq> (pos1 + k) mod 4096) \<longrightarrow> st2 ! i = st1 ! i)"
    using o1 n4(2) s2 by (intro store_string_ok) auto
  let ?e = "\<lparr>name_len = length name, name_data = store_pos t, value_len = length val, value_data = pos1\<rparr>"
  have t': "t' = t\<lparr>storage := Some st2, store_pos := pos2, cells := (cells t)[p := ?e]\<rparr>"
    unfolding t'_def store_header_def using st(1) s1 s2 by simp
  have p1: "(pos1 + k) mod 4096 = (v + length name + k) mod 4096"
    and p0: "(store_pos t + k) mod 4096 = (v + k) mod 4096" for k
    using o1 st(4) by (metis mod_add_left_eq)+
  have old: "st2 ! (x mod 4096) = st1 ! (x mod 4096)" if "v + length name + length val \<le> x + 4096" "x < v + length name" for x
  proof -
    have "x mod 4096 \<noteq> (pos1 + k) mod 4096" if "k < length val" for k
      unfolding p1 using that \<open>v + length name + length val \<le> x + 4096\<close> \<open>x < v + length name\<close> by (intro mod_apart) linarith+
    then show ?thesis using o2 by simp
  qed
  have old1: "st1 ! (x mod 4096) = st ! (x mod 4096)" if "v + length name \<le> x + 4096" "x < v" for x
  proof -
    have "x mod 4096 \<noteq> (store_pos t + k) mod 4096" if "k < length name" for k
      unfolding p0 using that \<open>v + length name \<le> x + 4096\<close> \<open>x < v\<close> by (intro mod_apart) linarith+
    then show ?thesis using o1 by simp
  qed
  have "laid_out st2 a (live t) hs v"
    using l by (rule laid_out_cong) (use va old old1 in simp)
  moreover have "holds st2 v ?e (name, val)"
  proof -
    have "ring st1 v name" using o1 ring_cong [OF st(4)] by simp
    then have "ring st2 v name"
      unfolding ring_def using old c n4 by simp
    moreover have "ring st2 (v + length name) val" using o2 ring_cong [of pos1 "v + length name"] p1 [of 0] by simp
    ultimately show ?thesis using st(3,4) o1 p1 [of 0] by (simp add: holds_def ring_append)
  qed
  ultimately have "laid_out st2 a (live t @ [?e]) (hs @ [(name, val)]) (v + length name + length val)"
    using laid_out_append [of st2 a "live t" hs v ?e "(name, val)"] by simp
  moreover have "pos2 mod 4096 = (v + length name + length val) mod 4096"
    using o2 p1 [of "length val"] by simp
  moreover have fr: "p < length (cells t)" "p \<notin> set (slots t (reused t) (added t))" "reused t \<le> deleted t"
    using f by (simp_all add: fresh_entry_def pointers_ok_def)
  moreover have lv: "live t' = live t"
    unfolding live_slots t' using fr by (auto simp: slots_def nth_list_update)
  ultimately show "strings_with t' (live t' @ [cells t' ! p]) (hs @ [(name, val)])"
    unfolding strings_with_def lv using t' o2 by fastforce
  show "live t' = live t" by (rule lv)
  show "fresh_entry p t'" using f by (simp add: fresh_entry_def pointers_ok_def t' slots_def)
  show "table_free t' = table_free t" "table_limit t' = table_limit t" by (simp_all add: t')
qed

section \<open>The ring of pointers\<close>

lemma grow_ok:
  assumes f: "fresh_entry p t" and full: "added t - deleted t = allocated t"
  shows "fresh_entry p (table_grow g t)" and "live (table_grow g t) = live t"
    and "added (table_grow g t) < reused (table_grow g t) + allocated (table_grow g t)"
proof -
  obtain es where es: "entries t = Some es" "length es = allocated t" and a: "0 < allocated t"
    using f by (auto simp: fresh_entry_def pointers_ok_def)
  have rd: "reused t = deleted t" using f full by (simp add: fresh_entry_def)
  have ad: "added t = deleted t + allocated t" using full a by linarith
  let ?i = "deleted t mod allocated t"
  have i: "?i < allocated t" using a by simp
  have n: "(take (allocated t - ?i) (drop ?i es) @ take ?i es @ u) ! k = es ! ((deleted t + k) mod allocated t)"
    if k: "k < allocated t" for k u
  proof (cases "k < allocated t - ?i")
    case True
    then have "(deleted t + k) mod allocated t = ?i + k" using mod_add_left_eq [of "deleted t" "allocated t" k] by simp
    then show ?thesis using True es(2) i by (simp add: nth_append)
  next
    case False
    then have "?i + k = (k - (allocated t - ?i)) + allocated t" "k - (allocated t - ?i) < allocated t" using i k by linarith+
    then have "(deleted t + k) mod allocated t = k - (allocated t - ?i)"
      by (metis mod_add_left_eq mod_add_self2 mod_less)
    moreover have "k - (allocated t - ?i) < ?i" using i k False by linarith
    ultimately show ?thesis using False es(2) i k by (simp add: nth_append)
  qed
  have s: "slots (table_grow g t) 0 (allocated t) = slots t (deleted t) (added t)"
  proof (rule nth_equalityI)
    fix k
    assume "k < length (slots (table_grow g t) 0 (allocated t))"
    then have k: "k < allocated t" by (simp add: slots_def)
    then show "slots (table_grow g t) 0 (allocated t) ! k = slots t (deleted t) (added t) ! k"
      using n [OF k] by (simp add: slots_def table_grow_def Let_def es(1) ad)
  qed (simp add: slots_def ad)
  show "live (table_grow g t) = live t"
    unfolding live_slots using s by (simp add: table_grow_def Let_def)
  have "\<exists>es'. entries (table_grow g t) = Some es' \<and> length es' = allocated (table_grow g t)"
    using es i by (simp add: table_grow_def Let_def)
  moreover have "added (table_grow g t) = allocated t" "deleted (table_grow g t) = 0" "reused (table_grow g t) = 0"
    "allocated (table_grow g t) = allocated t + 64" "cells (table_grow g t) = cells t"
    by (simp_all add: table_grow_def Let_def)
  ultimately show "fresh_entry p (table_grow g t)"
    using f s rd a by (simp add: fresh_entry_def pointers_ok_def)
  show "added (table_grow g t) < reused (table_grow g t) + allocated (table_grow g t)"
    by (simp add: table_grow_def Let_def)
qed

lemma mod_differ: "r \<le> i \<Longrightarrow> i < j \<Longrightarrow> j < r + n \<Longrightarrow> i mod n \<noteq> j mod (n :: nat)"
  using mod_eq_dvd_iff_nat [of i j n] dvd_imp_le [of n "j - i"] by auto

lemma push_ok:
  assumes f: "fresh_entry p t" and room: "added t < reused t + allocated t"
  shows "pointers_ok (table_push p t)" and "live (table_push p t) = live t @ [cells t ! p]"
proof -
  obtain es where es: "entries t = Some es" "length es = allocated t" and a: "0 < allocated t"
    and le: "reused t \<le> deleted t" "deleted t \<le> added t"
    using f by (auto simp: fresh_entry_def pointers_ok_def)
  have m: "added t mod allocated t < length es" using a es(2) by simp
  have s: "slots (table_push p t) i (added t + 1) = slots t i (added t) @ [p]"
    if i: "reused t \<le> i" "i \<le> added t" for i
  proof -
    have "es[added t mod allocated t := p] ! (k mod allocated t) = es ! (k mod allocated t)" if "k \<in> set [i..<added t]" for k
      using mod_differ [OF _ _ room, of k] that i(1) by simp
    then have "map (\<lambda>k. es[added t mod allocated t := p] ! (k mod allocated t)) [i..<added t]
        = map (\<lambda>k. es ! (k mod allocated t)) [i..<added t]" by simp
    then show ?thesis using i m by (simp add: slots_def table_push_def es(1))
  qed
  show "pointers_ok (table_push p t)"
    using f s [of "reused t"] le room es m
    by (auto simp: pointers_ok_def fresh_entry_def table_push_def)
  show "live (table_push p t) = live t @ [cells t ! p]"
    unfolding live_slots using s [of "deleted t"] le by (simp add: table_push_def)
qed


section \<open>The table as a list\<close>

text \<open>
  What the code keeps, without its rings: the limit, the headers held, the oldest first, and
  whether anything was ever inserted; the code sets the limit to 4096 at the first insertion,
  whatever size update came before. This is where it leaves RFC 7541, whose table follows below.
\<close>

record table_view =
  view_limit :: nat
  view_headers :: "header list"
  view_used :: bool

definition view_init :: table_view where
  "view_init = \<lparr>view_limit = 0, view_headers = [], view_used = False\<rparr>"

definition view_resize :: "nat \<Rightarrow> table_view \<Rightarrow> table_view" where
  "view_resize sz s = s\<lparr>view_limit := sz, view_headers := evict sz (view_headers s)\<rparr>"

definition view_insert :: "header \<Rightarrow> table_view \<Rightarrow> table_view" where
  "view_insert h s =
     (let limit = (if view_used s then view_limit s else 4096) in
      s\<lparr>view_used := True, view_limit := limit,
        view_headers :=
          (if header_cost h > limit then []
           else evict (limit - header_cost h) (view_headers s) @ [h])\<rparr>)"

text \<open>Index 1 is the first static entry, index 62 the header inserted last.\<close>

definition view_lookup :: "table_view \<Rightarrow> nat \<Rightarrow> header option" where
  "view_lookup s index =
     (let all = ngx_http_v2_static_table @ rev (view_headers s) in
      if 0 < index \<and> index \<le> length all then Some (all ! (index - 1)) else None)"

text \<open>What relates the two.\<close>

definition unused_table :: "hpack \<Rightarrow> bool" where
  "unused_table t \<longleftrightarrow> entries t = None \<and> added t = 0 \<and> deleted t = 0 \<and> reused t = 0
     \<and> table_free t = table_limit t \<and> table_limit t \<le> 4096"

definition table_sim :: "hpack \<Rightarrow> table_view \<Rightarrow> bool" where
  "table_sim t s \<longleftrightarrow> table_limit t = view_limit s
     \<and> (if view_used s then table_ok 0 t (view_headers s) else unused_table t \<and> view_headers s = [])"

lemma sim_init: "table_sim hpack_init view_init"
  by (simp add: table_sim_def hpack_init_def view_init_def unused_table_def)

lemma sim_resize:
  assumes "table_sim t s" "sz \<le> 4096"
  shows "case ngx_http_v2_table_size t sz of (rc, t') \<Rightarrow> rc = NGX_OK \<and> table_sim t' (view_resize sz s)"
proof (cases "view_used s")
  case True
  then show ?thesis using assms table_size_ok [of t "view_headers s" sz]
    by (auto simp: table_sim_def view_resize_def split: prod.splits)
next
  case False
  then have u: "unused_table t" and h: "view_headers s = []" using assms(1) by (simp_all add: table_sim_def)
  then have "\<not> nat (int (table_limit t) - int sz) > table_free t" by (simp add: unused_table_def)
  then have d: "drop_until (nat (int (table_limit t) - int sz)) t = t" by (simp add: drop_until.simps)
  have "nat (int (table_free t) - (int (table_limit t) - int sz)) = sz" using u by (simp add: unused_table_def)
  then show ?thesis using u False h assms(2) d
    by (simp add: ngx_http_v2_table_size_def Let_def table_sim_def view_resize_def unused_table_def)
qed

lemma create_ok:
  assumes "unused_table t" "table_create m t = (NGX_OK, t')"
  shows "table_ok 0 t' [] \<and> table_limit t' = 4096"
proof -
  have z: "added t' = 0" "deleted t' = 0" "reused t' = 0" "allocated t' = 64" "table_limit t' = 4096" "table_free t' = 4096"
    "store_pos t' = 0" "\<exists>es. entries t' = Some es \<and> length es = 64" "\<exists>st. storage t' = Some st \<and> length st = 4096"
    using assms by (auto simp: table_create_def unused_table_def Let_def split: option.splits)
  then have "pointers_ok t'" by (simp add: pointers_ok_def slots_def)
  moreover have "\<exists>st. storage t' = Some st \<and> length st = 4096 \<and> store_pos t' \<le> 4096
      \<and> store_pos t' mod 4096 = 0 mod 4096 \<and> laid_out st 0 (live t') [] 0"
    using z by (auto simp: live_def)
  then have "strings_ok t' []" unfolding strings_ok_def by blast
  ultimately show ?thesis using z by (simp add: table_ok_def)
qed

lemma create_error: "table_create m t = (rc, t') \<Longrightarrow> rc = NGX_OK \<or> mem_entries m = None \<or> mem_storage m = None"
  by (auto simp: table_create_def Let_def split: option.splits)

text \<open>An insertion in a table in use, once it has been accounted for.\<close>

lemma insert_ok:
  assumes t: "table_ok (header_cost (name, val)) t hs" and e: "take_entry m t = Some (p, t1)"
  shows "let t2 = store_header t1 p name val in
    (if allocated t2 = added t2 - deleted t2
     then table_ok 0 (table_push p (table_grow g t2)) (hs @ [(name, val)])
     else table_ok 0 (table_push p t2) (hs @ [(name, val)]))
    \<and> table_limit (table_push p (table_grow g t2)) = table_limit t \<and> table_limit (table_push p t2) = table_limit t"
proof -
  have p: "pointers_ok t" and s: "strings_ok t hs"
    and f: "table_free t + header_cost (name, val) + headers_cost hs = table_limit t" "table_limit t \<le> 4096"
    using t by (simp_all add: table_ok_def)
  note te = take_entry_ok [OF p e]
  have s1: "strings_ok t1 hs" using s te by (simp add: strings_ok_def)
  define t2 where "t2 = store_header t1 p name val"
  have "length name + length val + headers_cost hs \<le> 4096" using f by (simp add: header_cost_def)
  note st = store_header_ok [OF te(1) s1 this, folded t2_def]
  have pushed: "table_ok 0 (table_push p t3) (hs @ [(name, val)])"
    if t3: "fresh_entry p t3" "added t3 < reused t3 + allocated t3" "live t3 = live t2"
      "cells t3 = cells t2" "storage t3 = storage t2" "store_pos t3 = store_pos t2"
      "table_free t3 = table_free t2" "table_limit t3 = table_limit t2" for t3
  proof -
    have "live (table_push p t3) = live t2 @ [cells t2 ! p]" using push_ok(2) [OF t3(1,2)] t3 by simp
    then have "strings_ok (table_push p t3) (hs @ [(name, val)])"
      using st(2) t3 by (simp add: strings_ok_def strings_with_def table_push_def)
    then show ?thesis using push_ok(1) [OF t3(1,2)] f te st t3 by (simp add: table_ok_def table_push_def)
  qed
  have same: "cells (table_grow g t2) = cells t2" "storage (table_grow g t2) = storage t2"
    "store_pos (table_grow g t2) = store_pos t2" "table_free (table_grow g t2) = table_free t2"
    "table_limit (table_grow g t2) = table_limit t2" "table_limit (table_push p t3) = table_limit t3" for t3
    by (simp_all add: table_grow_def Let_def table_push_def)
  have "table_ok 0 (table_push p (table_grow g t2)) (hs @ [(name, val)])" if "allocated t2 = added t2 - deleted t2"
    using grow_ok [OF st(1) that [symmetric], of g] same by (intro pushed) simp_all
  moreover have "table_ok 0 (table_push p t2) (hs @ [(name, val)])" if "allocated t2 \<noteq> added t2 - deleted t2"
    using st(1) that by (intro pushed) (simp_all add: fresh_entry_def split: if_splits)
  ultimately show ?thesis using same te st by (simp add: Let_def t2_def [symmetric])
qed

lemma sim_insert:
  assumes s: "table_sim t s"
  shows "case ngx_http_v2_add_header m t name val of (rc, t') \<Rightarrow>
    if rc = NGX_OK then table_sim t' (view_insert (name, val) s)
    else mem_entries m = None \<or> mem_storage m = None \<or> mem_entry m = None \<or> mem_grown m = None"
proof -
  let ?h = "(name, val)"
  define c where "c = (if entries t = None then table_create m t else (NGX_OK, t))"
  obtain rc t0 where c0: "c = (rc, t0)" by (cases c)
  show ?thesis
  proof (cases "rc = NGX_OK")
    case False
    then have n: "entries t = None" and tc: "table_create m t = (rc, t0)" using c0 by (auto simp: c_def split: if_splits)
    then have "mem_entries m = None \<or> mem_storage m = None" using create_error [OF tc] False by simp
    then show ?thesis using n tc False by (cases rc) (auto simp: ngx_http_v2_add_header_def)
  next
    case True
    let ?lim = "if view_used s then view_limit s else 4096"
    have t0: "table_ok 0 t0 (view_headers s) \<and> table_limit t0 = ?lim"
    proof (cases "view_used s")
      case u: True
      then obtain es where "entries t = Some es" using s by (auto simp: table_sim_def table_ok_def pointers_ok_def)
      then show ?thesis using u s c0 by (simp add: c_def table_sim_def)
    next
      case u: False
      then have "unused_table t" "view_headers s = []" using s by (simp_all add: table_sim_def)
      then show ?thesis using create_ok [of t m t0] u c0 True by (simp add: c_def unused_table_def)
    qed
    obtain rc1 t1 where a: "ngx_http_v2_table_account t0 (length name + length val) = (rc1, t1)"
      by (cases "ngx_http_v2_table_account t0 (length name + length val)")
    have h: "32 + (length name + length val) = header_cost ?h" by (simp add: header_cost_def)
    have acc: "table_limit t1 = ?lim
      \<and> (if header_cost ?h \<le> ?lim
         then rc1 = NGX_OK \<and> table_ok (header_cost ?h) t1 (evict (?lim - header_cost ?h) (view_headers s))
         else rc1 = NGX_DECLINED \<and> table_ok 0 t1 [])"
      using account_ok [OF conjunct1 [OF t0], of "length name + length val"] unfolding a h prod.case conjunct2 [OF t0] .
    have e: "ngx_http_v2_add_header m t name val =
      (case rc1 of NGX_OK \<Rightarrow>
         (case take_entry m t1 of
            None \<Rightarrow> (NGX_ERROR, t1)
          | Some (p, t) \<Rightarrow>
              let t = store_header t p name val in
              if allocated t = added t - deleted t
              then (case mem_grown m of
                  None \<Rightarrow> (NGX_ERROR, t)
                | Some g \<Rightarrow> (NGX_OK, table_push p (table_grow g t)))
              else (NGX_OK, table_push p t))
       | _ \<Rightarrow> (NGX_OK, t1))"
      using c0 True a unfolding c_def ngx_http_v2_add_header_def by simp
    show ?thesis
    proof (cases "header_cost ?h \<le> ?lim")
      case False
      then show ?thesis using acc e by (auto simp: table_sim_def view_insert_def Let_def)
    next
      case fit: True
      show ?thesis
      proof (cases "take_entry m t1")
        case None
        then have "mem_entry m = None" by (auto simp: take_entry_def split: if_splits option.splits)
        then show ?thesis using None fit acc e by simp
      next
        case (Some pt)
        obtain p t2 where pt: "pt = (p, t2)" by (cases pt)
        have ok: "table_ok (header_cost ?h) t1 (evict (?lim - header_cost ?h) (view_headers s))" "rc1 = NGX_OK"
          "table_limit t1 = ?lim"
          using acc fit by simp_all
        note i = insert_ok [OF ok(1) Some [unfolded pt]]
        have sp: "view_insert ?h s = s\<lparr>view_used := True, view_limit := ?lim,
            view_headers := evict (?lim - header_cost ?h) (view_headers s) @ [?h]\<rparr>"
          using fit by (simp add: view_insert_def Let_def)
        show ?thesis
          unfolding e ok(2) Some pt sp using i ok(3)
          by (cases "mem_grown m") (simp_all add: Let_def table_sim_def)
      qed
    qed
  qed
qed

section \<open>Lookup\<close>

lemma sim_lookup:
  assumes "table_sim t s"
  shows "ngx_http_v2_get_indexed_header True True t index name_only header =
    (case view_lookup s index of
       None \<Rightarrow> (NGX_ERROR, header)
     | Some h \<Rightarrow> (NGX_OK, if name_only \<and> index > 61 then (fst h, snd header) else h))"
proof -
  let ?n = "length ngx_http_v2_static_table"
  have n: "?n = 61" by (simp add: ngx_http_v2_static_table_def)
  have cnt: "added t - deleted t = length (view_headers s)"
  proof (cases "view_used s")
    case True
    then obtain st v a where "laid_out st a (live t) (view_headers s) v"
      using assms by (auto simp: table_sim_def table_ok_def strings_ok_def)
    from laid_out_length [OF this] show ?thesis by (simp add: live_def)
  qed (use assms in \<open>auto simp: table_sim_def unused_table_def\<close>)
  consider (zero) "index = 0" | (static) "0 < index" "index \<le> 61" | (dyn) "61 < index" "index - 62 < length (view_headers s)"
    | (out) "61 < index" "\<not> index - 62 < length (view_headers s)" by linarith
  then show ?thesis
  proof cases
    case dyn
    let ?j = "added t - (index - 62) - 1"
    let ?h = "view_headers s ! (length (view_headers s) - 1 - (index - 62))"
    have u: "view_used s" using dyn(2) assms by (auto simp: table_sim_def split: if_splits)
    obtain st v a where st: "storage t = Some st" "length st = 4096" and l: "laid_out st a (live t) (view_headers s) v"
      and c: "headers_cost (view_headers s) \<le> 4096"
      using assms u by (auto simp: table_sim_def table_ok_def strings_ok_def)
    have k: "length (view_headers s) - 1 - (index - 62) < length (view_headers s)" using dyn(2) by linarith
    have j: "live t ! (length (view_headers s) - 1 - (index - 62)) = entry_at t ?j"
    proof -
      have "deleted t + (length (view_headers s) - 1 - (index - 62)) = ?j" using k cnt dyn(2) by linarith
      moreover have "deleted t + (length (view_headers s) - 1 - (index - 62)) < added t"
        "length (view_headers s) - 1 - (index - 62) < added t - deleted t" using k cnt dyn(2) by linarith+
      ultimately show ?thesis unfolding live_def by (simp only: nth_map nth_upt length_upt)
    qed
    obtain b where h: "holds st b (entry_at t ?j) ?h" using laid_out_nth [OF l k] unfolding j by blast
    have "header_cost ?h \<le> headers_cost (view_headers s)"
      using k by (auto simp: headers_cost_def intro!: member_le_sum_list)
    then have len: "length (fst ?h) \<le> 4096" "length (snd ?h) \<le> 4096" using c by (simp_all add: header_cost_def)
    have r: "ring st (name_data (entry_at t ?j)) (fst ?h)" "ring st (value_data (entry_at t ?j)) (snd ?h)"
      using h ring_cong [of "name_data (entry_at t ?j)" b] ring_cong [of "value_data (entry_at t ?j)" "b + length (fst ?h)"]
      by (simp_all add: holds_def ring_append)
    have nm: "stored t (name_data (entry_at t ?j)) (name_len (entry_at t ?j)) = fst ?h"
      using h stored_ring [OF st _ len(1) r(1)] by (simp add: holds_def)
    have vl: "stored t (value_data (entry_at t ?j)) (value_len (entry_at t ?j)) = snd ?h"
      using h stored_ring [OF st _ len(2) r(2)] by (simp add: holds_def)
    have i: "index - 1 - 61 = index - 62" "\<not> index - 1 < 61" "index \<noteq> 0" using dyn by simp_all
    have sp: "view_lookup s index = Some ?h"
      using dyn i by (simp add: view_lookup_def n nth_append rev_nth Let_def)
    show ?thesis
      unfolding sp ngx_http_v2_get_indexed_header_def NGX_HTTP_V2_STATIC_TABLE_ENTRIES_def n cnt
      using dyn i nm vl by (simp add: Let_def)
  next
    case zero
    then show ?thesis by (simp add: ngx_http_v2_get_indexed_header_def view_lookup_def)
  next
    case static
    then have "index - 1 < 61" by simp
    then show ?thesis using static n
      by (simp add: ngx_http_v2_get_indexed_header_def NGX_HTTP_V2_STATIC_TABLE_ENTRIES_def view_lookup_def Let_def nth_append)
  next
    case out
    have "\<not> index - 1 < 61" "index - 1 - 61 = index - 62" "index \<noteq> 0" "\<not> index \<le> 61 + length (view_headers s)"
      using out by linarith+
    then show ?thesis using out n cnt
      by (simp add: ngx_http_v2_get_indexed_header_def NGX_HTTP_V2_STATIC_TABLE_ENTRIES_def view_lookup_def Let_def)
  qed
qed


section \<open>Bounds\<close>

text \<open>
  Entry objects are reused, so there are as many as pointers in use, and the ring of pointers
  grows at most once.
\<close>

definition table_small :: "hpack \<Rightarrow> bool" where
  "table_small t \<longleftrightarrow> length (cells t) + reused t = added t
     \<and> (allocated t = 0 \<or> allocated t = 64 \<or> allocated t = 128)"

lemma headers_count: "32 * length hs \<le> headers_cost hs"
  by (induction hs) (auto simp: header_cost_def)

lemma table_ok_count: "table_ok r t hs \<Longrightarrow> added t - deleted t = length hs \<and> 32 * length hs + r + table_free t \<le> 4096"
  using headers_count [of hs]
  by (auto simp: table_ok_def strings_ok_def live_def dest!: laid_out_length)

lemma drop_until_fields:
  "cells (drop_until sz t) = cells t \<and> reused (drop_until sz t) = reused t \<and> added (drop_until sz t) = added t
   \<and> allocated (drop_until sz t) = allocated t"
proof (induction sz t rule: drop_until.induct)
  case (1 sz t)
  then show ?case
    by (cases "sz > table_free t") (simp_all add: drop_until.simps [of sz t] drop_oldest_def)
qed

lemma account_fields:
  "ngx_http_v2_table_account t sz = (rc, t') \<Longrightarrow>
   cells t' = cells t \<and> reused t' = reused t \<and> added t' = added t \<and> allocated t' = allocated t"
  by (auto simp: ngx_http_v2_table_account_def Let_def drop_until_fields drop_oldest_def split: if_splits)

lemma size_fields:
  "ngx_http_v2_table_size t sz = (rc, t') \<Longrightarrow>
   cells t' = cells t \<and> reused t' = reused t \<and> added t' = added t \<and> allocated t' = allocated t"
  by (auto simp: ngx_http_v2_table_size_def Let_def drop_until_fields split: if_splits)

lemma store_header_fields:
  "length (cells (store_header t p name val)) = length (cells t) \<and> reused (store_header t p name val) = reused t
   \<and> added (store_header t p name val) = added t \<and> allocated (store_header t p name val) = allocated t
   \<and> deleted (store_header t p name val) = deleted t"
  by (simp add: store_header_def split: prod.splits)

lemma take_entry_fields:
  "take_entry m t = Some (p, t') \<Longrightarrow> length (cells t') + reused t' = length (cells t) + reused t + 1
   \<and> added t' = added t \<and> deleted t' = deleted t \<and> allocated t' = allocated t"
  by (auto simp: take_entry_def split: if_splits option.splits)

lemma small_insert:
  assumes t: "table_ok (header_cost (name, val)) t hs" and s: "table_small t" and e: "take_entry m t = Some (p, t1)"
  shows "let t2 = store_header t1 p name val in
    if allocated t2 = added t2 - deleted t2 then table_small (table_push p (table_grow g t2))
    else table_small (table_push p t2)"
proof -
  let ?t2 = "store_header t1 p name val"
  have f: "length (cells ?t2) + reused ?t2 = added t + 1" "added ?t2 = added t" "deleted ?t2 = deleted t"
    "allocated ?t2 = allocated t"
    using s take_entry_fields [OF e] store_header_fields [of t1 p name val] by (simp_all add: table_small_def)
  have "table_small (table_push p (table_grow g ?t2))" if full: "allocated ?t2 = added ?t2 - deleted ?t2"
  proof -
    have "0 < allocated t" using t by (simp add: table_ok_def pointers_ok_def)
    moreover have "allocated t = length hs" "32 * length hs + 32 \<le> 4096"
      using full f table_ok_count [OF t] by (simp_all add: header_cost_def)
    ultimately have a: "allocated t = 64" using s by (auto simp: table_small_def)
    have fe: "fresh_entry p t1" using take_entry_ok(1) [OF _ e] t by (simp add: table_ok_def)
    have "reused t1 = deleted t1"
      using fe full f take_entry_fields [OF e] by (auto simp: fresh_entry_def)
    then have "reused ?t2 = deleted t" using store_header_fields [of t1 p name val] f by simp
    moreover have "deleted t \<le> added t" using t by (simp add: table_ok_def pointers_ok_def)
    ultimately have "length (cells ?t2) = allocated t + 1" using f full by linarith
    then show ?thesis using a f by (simp add: table_small_def table_push_def table_grow_def Let_def)
  qed
  moreover have "table_small (table_push p ?t2)"
    using f s by (simp add: table_small_def table_push_def)
  ultimately show ?thesis by (simp add: Let_def)
qed

lemma create_fields:
  "table_create m t = (NGX_OK, t') \<Longrightarrow> cells t' = cells t \<and> reused t' = reused t \<and> added t' = added t \<and> allocated t' = 64"
  by (auto simp: table_create_def Let_def split: option.splits)

lemma small_add_header:
  assumes t: "table_ok 0 t hs" and s: "table_small t"
    and a: "ngx_http_v2_table_account t (length name + length val) = (rc, t1)"
  shows "case rc of
      NGX_OK \<Rightarrow> (case take_entry m t1 of None \<Rightarrow> True
         | Some (p, t) \<Rightarrow>
             let t = store_header t p name val in
             if allocated t = added t - deleted t
             then (case mem_grown m of None \<Rightarrow> True | Some g \<Rightarrow> table_small (table_push p (table_grow g t)))
             else table_small (table_push p t))
    | _ \<Rightarrow> table_small t1"
proof -
  have s1: "table_small t1" using s account_fields [OF a] by (simp add: table_small_def)
  have c: "32 + (length name + length val) = header_cost (name, val)" by (simp add: header_cost_def)
  have ac: "if header_cost (name, val) \<le> table_limit t
      then rc = NGX_OK \<and> table_ok (header_cost (name, val)) t1 (evict (table_limit t - header_cost (name, val)) hs)
      else rc = NGX_DECLINED \<and> table_ok 0 t1 []"
    using account_ok [OF t, of "length name + length val"] unfolding a c prod.case by simp
  show ?thesis
  proof (cases "header_cost (name, val) \<le> table_limit t")
    case True
    then have ok: "rc = NGX_OK" "table_ok (header_cost (name, val)) t1 (evict (table_limit t - header_cost (name, val)) hs)"
      using ac by simp_all
    then show ?thesis using small_insert [OF ok(2) s1, of m]
      by (auto simp: Let_def split: option.splits)
  qed (use ac s1 in simp)
qed

lemma small_add:
  assumes s: "table_sim t s" "table_small t" and a: "ngx_http_v2_add_header m t name val = (NGX_OK, t')"
  shows "table_small t'"
proof -
  obtain t0 hs where c: "(if entries t = None then table_create m t else (NGX_OK, t)) = (NGX_OK, t0)"
    and t0: "table_ok 0 t0 hs" "table_small t0"
  proof (cases "entries t")
    case None
    then have u: "unused_table t" using s(1) by (auto simp: table_sim_def table_ok_def pointers_ok_def split: if_splits)
    obtain rc t0 where tc: "table_create m t = (rc, t0)" by (cases "table_create m t")
    then have rc: "rc = NGX_OK" using a None by (cases rc) (simp_all add: ngx_http_v2_add_header_def)
    then have "table_small t0" using create_fields [of m t t0] tc s(2) by (simp add: table_small_def)
    then show thesis using that [of t0 "[]"] tc None create_ok [OF u, of m t0] rc by simp
  next
    case (Some es)
    then have "table_ok 0 t (view_headers s)" using s(1) by (simp add: table_sim_def unused_table_def split: if_splits)
    then show thesis using that [of t] Some s(2) by simp
  qed
  obtain rc1 t1 where ac: "ngx_http_v2_table_account t0 (length name + length val) = (rc1, t1)"
    by (cases "ngx_http_v2_table_account t0 (length name + length val)")
  show ?thesis
    using small_add_header [OF t0 ac, of m] a unfolding ngx_http_v2_add_header_def c prod.case ngx_rc.case ac
    by (cases rc1) (auto simp: Let_def split: option.splits if_splits)
qed

section \<open>Sequences of operations\<close>

datatype hpack_op = HP_add hpack_memory bytes bytes | HP_size nat

text \<open>A run; an error closes the connection.\<close>

fun hpack_run :: "hpack_op list \<Rightarrow> hpack \<Rightarrow> hpack option" where
  "hpack_run [] t = Some t"
| "hpack_run (HP_add m name val # ops) t =
     (case ngx_http_v2_add_header m t name val of (rc, t') \<Rightarrow> if rc = NGX_OK then hpack_run ops t' else None)"
| "hpack_run (HP_size sz # ops) t =
     (case ngx_http_v2_table_size t sz of (rc, t') \<Rightarrow> if rc = NGX_OK then hpack_run ops t' else None)"

fun view_run :: "hpack_op list \<Rightarrow> table_view \<Rightarrow> table_view" where
  "view_run [] s = s"
| "view_run (HP_add m name val # ops) s = view_run ops (view_insert (name, val) s)"
| "view_run (HP_size sz # ops) s = view_run ops (view_resize sz s)"

text \<open>What can go wrong is a size above 4096 and a pool without memory.\<close>

fun op_served :: "hpack_op \<Rightarrow> bool" where
  "op_served (HP_add m name val) \<longleftrightarrow>
     mem_entries m \<noteq> None \<and> mem_storage m \<noteq> None \<and> mem_entry m \<noteq> None \<and> mem_grown m \<noteq> None"
| "op_served (HP_size sz) \<longleftrightarrow> sz \<le> 4096"

lemma hpack_run_ok:
  "table_sim t s \<Longrightarrow> table_small t \<Longrightarrow>
   (case hpack_run ops t of None \<Rightarrow> \<not> list_all op_served ops | Some t' \<Rightarrow> table_sim t' (view_run ops s) \<and> table_small t')"
proof (induction ops arbitrary: t s)
  case (Cons op ops)
  show ?case
  proof (cases op)
    case (HP_add m name val)
    obtain rc t1 where r: "ngx_http_v2_add_header m t name val = (rc, t1)"
      by (cases "ngx_http_v2_add_header m t name val")
    show ?thesis
    proof (cases "rc = NGX_OK")
      case True
      then have "table_sim t1 (view_insert (name, val) s)" "table_small t1"
        using sim_insert [OF Cons.prems(1), where m = m and name = name and val = val] small_add [OF Cons.prems, where m = m and name = name and val = val and t' = t1] r by simp_all
      from Cons.IH [OF this] show ?thesis using HP_add r True by (auto split: option.splits)
    next
      case False
      then show ?thesis using sim_insert [OF Cons.prems(1), where m = m and name = name and val = val] HP_add r by auto
    qed
  next
    case (HP_size sz)
    obtain rc t1 where r: "ngx_http_v2_table_size t sz = (rc, t1)" by (cases "ngx_http_v2_table_size t sz")
    show ?thesis
    proof (cases "sz \<le> 4096")
      case True
      then have "rc = NGX_OK" "table_sim t1 (view_resize sz s)" using sim_resize [OF Cons.prems(1) True] r by simp_all
      moreover have "table_small t1" using size_fields [OF r] Cons.prems(2) by (simp add: table_small_def)
      ultimately show ?thesis using Cons.IH [of t1 "view_resize sz s"] HP_size r by (auto split: option.splits)
    next
      case False
      then show ?thesis using HP_size r by (auto simp: ngx_http_v2_table_size_def)
    qed
  qed
qed simp

lemma small_init: "table_small hpack_init"
  by (simp add: table_small_def hpack_init_def)

section \<open>The dynamic table of RFC 7541\<close>

text \<open>
  The limit, 4096 at the start, and the headers, the oldest first. A size update sets the limit and
  evicts (section 4.3); an insertion evicts until the header fits, and one that is larger than the
  table empties it (section 4.4). Index 1 is the first static entry, index 62 the newest header.
\<close>

record rfc_table =
  rfc_limit :: nat
  rfc_headers :: "header list"

definition rfc_init :: rfc_table where
  "rfc_init = \<lparr>rfc_limit = 4096, rfc_headers = []\<rparr>"

definition rfc_resize :: "nat \<Rightarrow> rfc_table \<Rightarrow> rfc_table" where
  "rfc_resize sz q = \<lparr>rfc_limit = sz, rfc_headers = evict sz (rfc_headers q)\<rparr>"

definition rfc_insert :: "header \<Rightarrow> rfc_table \<Rightarrow> rfc_table" where
  "rfc_insert h q = q\<lparr>rfc_headers :=
     (if header_cost h > rfc_limit q then [] else evict (rfc_limit q - header_cost h) (rfc_headers q) @ [h])\<rparr>"

definition rfc_lookup :: "rfc_table \<Rightarrow> nat \<Rightarrow> header option" where
  "rfc_lookup q index =
     (let all = ngx_http_v2_static_table @ rev (rfc_headers q) in
      if 0 < index \<and> index \<le> length all then Some (all ! (index - 1)) else None)"

fun rfc_run :: "hpack_op list \<Rightarrow> rfc_table \<Rightarrow> rfc_table" where
  "rfc_run [] q = q"
| "rfc_run (HP_add m name val # ops) q = rfc_run ops (rfc_insert (name, val) q)"
| "rfc_run (HP_size sz # ops) q = rfc_run ops (rfc_resize sz q)"

text \<open>
  The limit that stands when the first header is inserted is 4096: the case in which the code
  agrees with the RFC. \<open>hpack_size_forgotten\<close> shows the other case.
\<close>

fun size_stands :: "nat \<Rightarrow> hpack_op list \<Rightarrow> bool" where
  "size_stands limit [] \<longleftrightarrow> True"
| "size_stands limit (HP_add m name val # ops) \<longleftrightarrow> limit = 4096"
| "size_stands limit (HP_size sz # ops) \<longleftrightarrow> size_stands sz ops"

definition agrees :: "table_view \<Rightarrow> rfc_table \<Rightarrow> bool" where
  "agrees s q \<longleftrightarrow> view_headers s = rfc_headers q \<and> (if view_used s then view_limit s = rfc_limit q else rfc_headers q = [])"

lemma agrees_init: "agrees view_init rfc_init"
  by (simp add: agrees_def view_init_def rfc_init_def)

lemma agrees_insert: "agrees s q \<Longrightarrow> view_used s \<or> rfc_limit q = 4096 \<Longrightarrow> agrees (view_insert h s) (rfc_insert h q)"
  by (auto simp: agrees_def view_insert_def rfc_insert_def Let_def)

lemma used_insert [simp]: "view_used (view_insert h s)"
  by (simp add: view_insert_def Let_def)

lemma agrees_resize: "agrees s q \<Longrightarrow> agrees (view_resize sz s) (rfc_resize sz q)"
  by (auto simp: agrees_def view_resize_def rfc_resize_def split: if_splits)

lemma used_resize [simp]: "view_used (view_resize sz s) = view_used s"
  by (simp add: view_resize_def)

lemma agrees_lookup: "agrees s q \<Longrightarrow> view_lookup s index = rfc_lookup q index"
  by (simp add: agrees_def view_lookup_def rfc_lookup_def)

lemma agrees_run:
  "agrees s q \<Longrightarrow> view_used s \<or> size_stands (rfc_limit q) ops \<Longrightarrow> agrees (view_run ops s) (rfc_run ops q)"
proof (induction ops arbitrary: s q)
  case (Cons op ops)
  show ?case
  proof (cases op)
    case (HP_add m name val)
    then show ?thesis using Cons.IH [OF agrees_insert [OF Cons.prems(1)]] Cons.prems(2) by simp
  next
    case (HP_size sz)
    have "rfc_limit (rfc_resize sz q) = sz" by (simp add: rfc_resize_def)
    then show ?thesis using Cons.IH [OF agrees_resize [OF Cons.prems(1), of sz]] Cons.prems(2) HP_size by simp
  qed
qed simp

text \<open>The code's table stands for one of the RFC.\<close>

definition rfc_sim :: "hpack \<Rightarrow> rfc_table \<Rightarrow> bool" where
  "rfc_sim t q \<longleftrightarrow> (\<exists>s. table_sim t s \<and> agrees s q)"

lemma rfc_sim_init: "rfc_sim hpack_init rfc_init"
  unfolding rfc_sim_def using sim_init agrees_init by blast

lemma rfc_sim_lookup:
  assumes "rfc_sim t q"
  shows "ngx_http_v2_get_indexed_header True True t index name_only header =
    (case rfc_lookup q index of
       None \<Rightarrow> (NGX_ERROR, header)
     | Some h \<Rightarrow> (NGX_OK, if name_only \<and> index > 61 then (fst h, snd header) else h))"
proof -
  obtain s where s: "table_sim t s" "agrees s q" using assms unfolding rfc_sim_def by blast
  show ?thesis unfolding agrees_lookup [OF s(2), symmetric] by (rule sim_lookup [OF s(1)])
qed

text \<open>
  C4. The header table of an HTTP/2 connection, with its ring of bytes, its growing ring of
  pointers and its reused entries, answers every index as the table of RFC 7541 does, the static
  entries first and then the dynamic ones from the newest on, after any insertions and size
  updates for which the limit at the first insertion is the initial one; only a size above 4096 or
  lack of memory ends the connection. (A smaller limit that is set before the first insertion is
  forgotten by the code: see \<open>hpack_size_forgotten\<close>.)
\<close>

theorem hpack_table_refines:
  assumes "size_stands 4096 ops"
  shows "case hpack_run ops hpack_init of
     None \<Rightarrow> \<not> list_all op_served ops
   | Some t \<Rightarrow> ngx_http_v2_get_indexed_header True True t index name_only header =
       (case rfc_lookup (rfc_run ops rfc_init) index of
          None \<Rightarrow> (NGX_ERROR, header)
        | Some h \<Rightarrow> (NGX_OK, if name_only \<and> index > 61 then (fst h, snd header) else h))"
proof (cases "hpack_run ops hpack_init")
  case None
  then show ?thesis using hpack_run_ok [OF sim_init small_init, of ops] by simp
next
  case (Some t)
  then have t: "table_sim t (view_run ops view_init)" using hpack_run_ok [OF sim_init small_init, of ops] by simp
  have "rfc_limit rfc_init = 4096" by (simp add: rfc_init_def)
  then have "agrees (view_run ops view_init) (rfc_run ops rfc_init)"
    using agrees_run [OF agrees_init] assms by metis
  then have "rfc_sim t (rfc_run ops rfc_init)" using t unfolding rfc_sim_def by blast
  then show ?thesis unfolding Some option.case by (rule rfc_sim_lookup)
qed

text \<open>
  C31. However many headers are inserted, the table keeps within its bounds: what the entries cost
  and what is free make up the limit, at most 4096 bytes; there are never more than 128 entry
  objects and as many pointers, and no entry is dropped that was not inserted.
\<close>

theorem hpack_table_bounds:
  "case hpack_run ops hpack_init of
     None \<Rightarrow> True
   | Some t \<Rightarrow> table_free t + headers_cost (view_headers (view_run ops view_init)) = table_limit t
       \<and> table_limit t \<le> 4096 \<and> length (cells t) \<le> 128 \<and> allocated t \<le> 128
       \<and> deleted t \<le> added t \<and> added t - deleted t = length (view_headers (view_run ops view_init))"
proof (cases "hpack_run ops hpack_init")
  case (Some t)
  then have s: "table_sim t (view_run ops view_init)" "table_small t"
    using hpack_run_ok [OF sim_init small_init, of ops] by simp_all
  show ?thesis
  proof (cases "view_used (view_run ops view_init)")
    case True
    then have t: "table_ok 0 t (view_headers (view_run ops view_init))" using s(1) by (simp add: table_sim_def)
    have "length (cells t) \<le> allocated t \<and> allocated t \<le> 128"
      using s(2) t by (auto simp: table_small_def table_ok_def pointers_ok_def)
    then show ?thesis using Some t table_ok_count [OF t] by (simp add: table_ok_def pointers_ok_def)
  next
    case False
    then show ?thesis using s Some by (auto simp: table_sim_def unused_table_def table_small_def)
  qed
qed simp

text \<open>
  A size update that comes before the first insertion is forgotten: the insertion sets the
  limit to 4096 again, so a header of 72 bytes is kept in a table of which the other side thinks
  that it holds 64 and, by the RFC, has index 62 empty.
\<close>

theorem hpack_size_forgotten:
  "let h = (replicate 20 0x61, replicate 20 0x62); ops = [HP_size 64, HP_add m (fst h) (snd h)] in
   header_cost h = 72 \<and> rfc_lookup (rfc_run ops rfc_init) 62 = None
   \<and> (case hpack_run ops hpack_init of
        None \<Rightarrow> \<not> op_served (HP_add m (fst h) (snd h))
      | Some t \<Rightarrow> table_limit t = 4096 \<and> ngx_http_v2_get_indexed_header True True t 62 False ([], []) = (NGX_OK, h))"
proof -
  let ?h = "(replicate 20 0x61, replicate 20 0x62) :: header"
  let ?ops = "[HP_size 64, HP_add m (fst ?h) (snd ?h)]"
  have c: "header_cost ?h = 72" by (simp add: header_cost_def)
  have rfc: "rfc_lookup (rfc_run ?ops rfc_init) 62 = None"
    using c by (simp add: rfc_init_def rfc_resize_def rfc_insert_def rfc_lookup_def ngx_http_v2_static_table_def)
  have sp: "view_run ?ops view_init = \<lparr>view_limit = 4096, view_headers = [?h], view_used = True\<rparr>"
    using c by (simp add: view_init_def view_resize_def view_insert_def Let_def)
  have l: "view_lookup (view_run ?ops view_init) 62 = Some ?h"
    unfolding sp by (simp add: view_lookup_def ngx_http_v2_static_table_def)
  show ?thesis
  proof (cases "hpack_run ?ops hpack_init")
    case None
    then show ?thesis using hpack_run_ok [OF sim_init small_init, of ?ops] c rfc unfolding Let_def None option.case
      by simp
  next
    case (Some t)
    then have s: "table_sim t (view_run ?ops view_init)" using hpack_run_ok [OF sim_init small_init, of ?ops] by simp
    then have "table_limit t = 4096" unfolding sp by (simp add: table_sim_def)
    moreover have "ngx_http_v2_get_indexed_header True True t 62 False ([], []) = (NGX_OK, ?h)"
      using sim_lookup [OF s, of 62 False "([], [])"] unfolding l by simp
    ultimately show ?thesis using c rfc unfolding Let_def Some option.case by blast
  qed
qed


text \<open>With a table of 80 bytes the third header pushes the first one out.\<close>

definition sample_memory :: hpack_memory where
  "sample_memory = \<lparr>mem_entries = Some (\<lambda>_. 0), mem_storage = Some (\<lambda>_. 0),
     mem_entry = Some \<lparr>name_len = 0, name_data = 0, value_len = 0, value_data = 0\<rparr>, mem_grown = Some (\<lambda>_. 0)\<rparr>"

definition sample_ops :: "hpack_op list" where
  "sample_ops = [HP_add sample_memory [0x61] [0x62], HP_size 80, HP_add sample_memory [0x63] [0x64],
     HP_add sample_memory [0x65] [0x66]]"

lemma hpack_table_refines_witness:
  "\<exists>t. hpack_run sample_ops hpack_init = Some t
    \<and> ngx_http_v2_get_indexed_header True True t 63 False ([], []) = (NGX_OK, ([0x63], [0x64]))
    \<and> ngx_http_v2_get_indexed_header True True t 64 False ([], []) = (NGX_ERROR, ([], []))"
proof -
  have stands: "size_stands 4096 sample_ops" by (simp add: sample_ops_def)
  have served: "list_all op_served sample_ops" by (simp add: sample_ops_def sample_memory_def)
  have rfc: "rfc_run sample_ops rfc_init = \<lparr>rfc_limit = 80, rfc_headers = [([0x63], [0x64]), ([0x65], [0x66])]\<rparr>"
    by (simp add: sample_ops_def rfc_init_def rfc_resize_def rfc_insert_def header_cost_def headers_cost_def evict.simps)
  show ?thesis
  proof (cases "hpack_run sample_ops hpack_init")
    case None
    then show ?thesis using hpack_table_refines [OF stands] served by simp
  next
    case (Some t)
    then show ?thesis
      using hpack_table_refines [OF stands, of 63 False "([], [])"] hpack_table_refines [OF stands, of 64 False "([], [])"]
      unfolding rfc by (simp add: rfc_lookup_def ngx_http_v2_static_table_def)
  qed
qed

end
