(* ===== verification/H2_Headers.thy ===== *)
theory H2_Headers
  imports H2_Encode H2_Header_Table
begin

text \<open>
  The reader of an HTTP/2 header block: the handlers \<open>ngx_http_v2_state_header_block\<close> to
  \<open>ngx_http_v2_state_header_complete\<close> of \<open>ngx_http_v2.c\<close>, which take the bytes as they arrive,
  CONTINUATION frames included, and the reading of the header table they rest on. What a header
  does to the request is a parameter; the timers and the length that the request counts are left
  out. Lengths are natural numbers: they are far from \<open>2 ^ 64\<close>.
\<close>

section \<open>The state\<close>

datatype h2_handler =
    V2_header_block | V2_field_len | V2_field_huff | V2_field_raw | V2_field_skip | V2_header_complete
  | V2_skip | V2_head

datatype h2_error =
  NGX_HTTP_V2_PROTOCOL_ERROR | NGX_HTTP_V2_INTERNAL_ERROR | NGX_HTTP_V2_SIZE_ERROR | NGX_HTTP_V2_COMP_ERROR
  | NGX_HTTP_V2_ENHANCE_YOUR_CALM

text \<open>
  The fields of \<open>h2c->state\<close> and the table \<open>h2c->hpack\<close>. \<open>field\<close> is what lies between
  \<open>field_start\<close> and \<open>field_end\<close>, \<open>v2_buffer\<close> the used part of \<open>buffer\<close>, \<open>v2_stream\<close> the request
  of the stream, \<open>v2_run\<close> the requests that were run; \<open>v2_allocs\<close> counts the questions put to the
  pool.
\<close>

record 'r h2_state =
  v2_sid :: nat
  v2_length :: nat
  v2_padding :: nat
  v2_flags :: u_char
  v2_parse_name :: bool
  v2_parse_value :: bool
  v2_index :: bool
  v2_header :: header
  v2_header_limit :: nat
  v2_field_state :: u_char
  v2_field :: bytes
  v2_field_rest :: nat
  v2_stream :: "'r option"
  v2_buffer :: bytes
  v2_handler :: h2_handler
  v2_hpack :: hpack
  v2_run :: "'r list"
  v2_allocs :: nat

text \<open>What the request does with a header: it takes it, it is finished with, or memory ran out.\<close>

datatype 'r header_outcome = HR_taken 'r | HR_gone | HR_internal

record 'r h2_env =
  max_field_size :: nat
  pool_ok :: "nat \<Rightarrow> bool"
  table_memory :: "nat \<Rightarrow> hpack_memory"
  on_header :: "header \<Rightarrow> 'r \<Rightarrow> 'r header_outcome"

text \<open>A handler returns the new position, so what is left of the input, or closes the connection.\<close>

datatype 'r h2_result = H2_next "'r h2_state" bytes | H2_error h2_error

abbreviation (input) NGX_HTTP_V2_FRAME_HEADER_SIZE :: nat where "NGX_HTTP_V2_FRAME_HEADER_SIZE \<equiv> 9"
abbreviation (input) NGX_HTTP_V2_STATE_BUFFER_SIZE :: nat where "NGX_HTTP_V2_STATE_BUFFER_SIZE \<equiv> 16"
abbreviation (input) NGX_HTTP_V2_CONTINUATION_FRAME :: u_char where "NGX_HTTP_V2_CONTINUATION_FRAME \<equiv> 9"

definition end_headers :: "'r h2_state \<Rightarrow> bool" where
  "end_headers st \<longleftrightarrow> v2_flags st AND 4 \<noteq> 0"

section \<open>Saving and continuing\<close>

text \<open>The rest of the input is kept for the next call; \<open>ngx_http_v2_state_headers_save\<close> adds a timer only.\<close>

definition ngx_http_v2_state_save :: "'r h2_state \<Rightarrow> bytes \<Rightarrow> h2_handler \<Rightarrow> 'r h2_result" where
  "ngx_http_v2_state_save st inp h =
     (if length inp > NGX_HTTP_V2_STATE_BUFFER_SIZE then H2_error NGX_HTTP_V2_INTERNAL_ERROR
      else H2_next (st\<lparr>v2_buffer := inp, v2_handler := h\<rparr>) [])"

definition be24 :: "u_char \<Rightarrow> u_char \<Rightarrow> u_char \<Rightarrow> nat" where
  "be24 a b c = unat a * 2 ^ 16 + unat b * 2 ^ 8 + unat c"

definition be31 :: "u_char \<Rightarrow> u_char \<Rightarrow> u_char \<Rightarrow> u_char \<Rightarrow> nat" where
  "be31 a b c d = (unat a AND 0x7f) * 2 ^ 24 + be24 b c d"

text \<open>Padding that lies behind the \<open>v2_length\<close> bytes left of the fragment is cut out of the input.\<close>

definition skip_padding :: "'r h2_state \<Rightarrow> bytes \<Rightarrow> 'r h2_state \<times> bytes" where
  "skip_padding st inp =
     (let len = v2_length st in
      if v2_padding st > 0 \<and> length inp > len then
        let skip = min (v2_padding st) (length inp - len) in
        (st\<lparr>v2_padding := v2_padding st - skip\<rparr>, take len inp @ drop (len + skip) inp)
      else (st, inp))"

text \<open>So is the header of the CONTINUATION frame behind it; \<open>p\<close> is that header.\<close>

definition continuation_frame :: "'r h2_state \<Rightarrow> bytes \<Rightarrow> h2_handler \<Rightarrow> 'r h2_result" where
  "continuation_frame st inp h =
     (let len = v2_length st in
      if length inp < len + NGX_HTTP_V2_FRAME_HEADER_SIZE then ngx_http_v2_state_save st inp h
      else
        let p = take NGX_HTTP_V2_FRAME_HEADER_SIZE (drop len inp) in
        if p ! 3 \<noteq> NGX_HTTP_V2_CONTINUATION_FRAME then H2_error NGX_HTTP_V2_PROTOCOL_ERROR
        else if v2_sid st \<noteq> be31 (p ! 5) (p ! 6) (p ! 7) (p ! 8) then H2_error NGX_HTTP_V2_PROTOCOL_ERROR
        else
          H2_next
            (st\<lparr>v2_flags := v2_flags st OR p ! 4, v2_length := len + be24 (p ! 0) (p ! 1) (p ! 2), v2_handler := h\<rparr>)
            (take len inp @ drop (len + NGX_HTTP_V2_FRAME_HEADER_SIZE) inp))"

definition ngx_http_v2_handle_continuation :: "'r h2_state \<Rightarrow> bytes \<Rightarrow> h2_handler \<Rightarrow> 'r h2_result" where
  "ngx_http_v2_handle_continuation st inp h =
     (case skip_padding st inp of (st, inp) \<Rightarrow> continuation_frame st inp h)"

section \<open>The end of a header and of the block\<close>

definition ngx_http_v2_state_complete :: "'r h2_state \<Rightarrow> bytes \<Rightarrow> 'r h2_result" where
  "ngx_http_v2_state_complete st inp = H2_next (st\<lparr>v2_stream := None, v2_handler := V2_head\<rparr>) inp"

definition ngx_http_v2_state_skip :: "'r h2_state \<Rightarrow> bytes \<Rightarrow> 'r h2_result" where
  "ngx_http_v2_state_skip st inp =
     (if length inp < v2_length st
      then ngx_http_v2_state_save (st\<lparr>v2_length := v2_length st - length inp\<rparr>) [] V2_skip
      else ngx_http_v2_state_complete st (drop (v2_length st) inp))"

definition ngx_http_v2_state_skip_padded :: "'r h2_state \<Rightarrow> bytes \<Rightarrow> 'r h2_result" where
  "ngx_http_v2_state_skip_padded st inp =
     ngx_http_v2_state_skip (st\<lparr>v2_length := v2_length st + v2_padding st, v2_padding := 0\<rparr>) inp"

definition ngx_http_v2_state_header_complete :: "'r h2_state \<Rightarrow> bytes \<Rightarrow> 'r h2_result" where
  "ngx_http_v2_state_header_complete st inp =
     (if v2_length st > 0 then H2_next (st\<lparr>v2_handler := V2_header_block\<rparr>) inp
      else if \<not> end_headers st then ngx_http_v2_handle_continuation st inp V2_header_complete
      else
        let st = (case v2_stream st of None \<Rightarrow> st | Some r \<Rightarrow> st\<lparr>v2_run := v2_run st @ [r]\<rparr>) in
        if v2_padding st > 0 then ngx_http_v2_state_skip_padded st inp
        else ngx_http_v2_state_complete st inp)"

section \<open>The fields of a header\<close>

text \<open>
  The part of \<open>ngx_http_v2_state_process_header\<close> after the name: the limit, the table and the
  request, and before these the value when it was read.
\<close>

definition deliver_header :: "'r h2_env \<Rightarrow> 'r h2_state \<Rightarrow> bytes \<Rightarrow> 'r h2_result" where
  "deliver_header env st inp =
     (let header = v2_header st; len = length (fst header) + length (snd header) in
      if len > v2_header_limit st then H2_error NGX_HTTP_V2_ENHANCE_YOUR_CALM
      else
        let st = st\<lparr>v2_header_limit := v2_header_limit st - len\<rparr> in
        case (if v2_index st
              then ngx_http_v2_add_header (table_memory env (v2_allocs st)) (v2_hpack st) (fst header) (snd header)
              else (NGX_OK, v2_hpack st)) of
          (rc, table) \<Rightarrow>
            if rc \<noteq> NGX_OK then H2_error NGX_HTTP_V2_INTERNAL_ERROR
            else
              let st = st\<lparr>v2_hpack := table, v2_index := False, v2_allocs := v2_allocs st + 1\<rparr> in
              case v2_stream st of
                None \<Rightarrow> ngx_http_v2_state_header_complete st inp
              | Some r \<Rightarrow>
                  (case on_header env header r of
                     HR_taken r' \<Rightarrow> ngx_http_v2_state_header_complete (st\<lparr>v2_stream := Some r'\<rparr>) inp
                   | HR_gone \<Rightarrow> ngx_http_v2_state_header_complete (st\<lparr>v2_stream := None\<rparr>) inp
                   | HR_internal \<Rightarrow> H2_error NGX_HTTP_V2_INTERNAL_ERROR))"

definition process_value :: "'r h2_env \<Rightarrow> 'r h2_state \<Rightarrow> bytes \<Rightarrow> 'r h2_result" where
  "process_value env st inp =
     deliver_header env
       (if v2_parse_value st
        then st\<lparr>v2_parse_value := False, v2_header := (fst (v2_header st), v2_field st)\<rparr> else st) inp"

text \<open>The bytes of the field that are there: what they are, the state and the input after them.\<close>

definition take_field :: "'r h2_state \<Rightarrow> bytes \<Rightarrow> bytes \<times> 'r h2_state \<times> bytes" where
  "take_field st inp =
     (let sz = min (min (length inp) (v2_field_rest st)) (v2_length st) in
      (take sz inp, st\<lparr>v2_length := v2_length st - sz, v2_field_rest := v2_field_rest st - sz\<rparr>, drop sz inp))"

text \<open>A field that is not complete: more input, or a CONTINUATION frame.\<close>

definition field_more :: "'r h2_state \<Rightarrow> bytes \<Rightarrow> h2_handler \<Rightarrow> 'r h2_result" where
  "field_more st inp h =
     (if v2_length st > 0 then ngx_http_v2_state_save st inp h
      else if end_headers st then H2_error NGX_HTTP_V2_SIZE_ERROR
      else ngx_http_v2_handle_continuation st inp h)"

text \<open>The calls of the handlers below go round at most twice, since \<open>v2_parse_name\<close> is reset.\<close>

definition name_rank :: "'r h2_state \<Rightarrow> nat" where
  "name_rank st = (if v2_parse_name st then 1 else 0)"

lemma parse_name_take_field: "(piece, st', inp') = take_field st inp \<Longrightarrow> v2_parse_name st' = v2_parse_name st"
  by (auto simp: take_field_def Let_def)

text \<open>
  The handlers of a field call one another: a name is followed by the length of the value. The
  request for the memory of a field asks for \<open>len * 8 / 5 + 1\<close> or \<open>len + 1\<close> bytes.
\<close>

function ngx_http_v2_state_field_len :: "'r h2_env \<Rightarrow> 'r h2_state \<Rightarrow> bytes \<Rightarrow> 'r h2_result"
  and ngx_http_v2_state_field_huff :: "'r h2_env \<Rightarrow> 'r h2_state \<Rightarrow> bytes \<Rightarrow> 'r h2_result"
  and ngx_http_v2_state_field_raw :: "'r h2_env \<Rightarrow> 'r h2_state \<Rightarrow> bytes \<Rightarrow> 'r h2_result"
  and ngx_http_v2_state_field_skip :: "'r h2_env \<Rightarrow> 'r h2_state \<Rightarrow> bytes \<Rightarrow> 'r h2_result"
  and ngx_http_v2_state_process_header :: "'r h2_env \<Rightarrow> 'r h2_state \<Rightarrow> bytes \<Rightarrow> 'r h2_result"
  where
  "ngx_http_v2_state_field_len env st inp =
     (if \<not> end_headers st \<and> v2_length st < NGX_HTTP_V2_INT_OCTETS
      then ngx_http_v2_handle_continuation st inp V2_field_len
      else if v2_length st < 1 then H2_error NGX_HTTP_V2_SIZE_ERROR
      else if inp = [] then ngx_http_v2_state_save st inp V2_field_len
      else
        let huff = drop_bit 7 (hd inp) \<noteq> 0 in
        case ngx_http_v2_parse_int (v2_length st) inp (ngx_http_v2_prefix 7) of
          PI_rc rc \<Rightarrow>
            if rc = NGX_AGAIN then ngx_http_v2_state_save st inp V2_field_len
            else if rc = NGX_DECLINED then H2_error NGX_HTTP_V2_COMP_ERROR
            else H2_error NGX_HTTP_V2_SIZE_ERROR
        | PI_value len rest inp' \<Rightarrow>
            let st = st\<lparr>v2_length := rest\<rparr> in
            if len > max_field_size env then H2_error NGX_HTTP_V2_ENHANCE_YOUR_CALM
            else
              let st = st\<lparr>v2_field_rest := len\<rparr> in
              if v2_stream st = None \<and> \<not> v2_index st then ngx_http_v2_state_field_skip env st inp'
              else if \<not> pool_ok env (v2_allocs st) then H2_error NGX_HTTP_V2_INTERNAL_ERROR
              else
                let st = st\<lparr>v2_field := [], v2_allocs := v2_allocs st + 1\<rparr> in
                if huff then ngx_http_v2_state_field_huff env st inp'
                else ngx_http_v2_state_field_raw env st inp')"
| "ngx_http_v2_state_field_huff env st inp =
     (case take_field st inp of
        (piece, st, inp') \<Rightarrow>
          (case ngx_http_v2_huff_decode (v2_field_state st) piece (v2_field_rest st = 0) of
             (rc, fs, out) \<Rightarrow>
               if rc \<noteq> NGX_OK then H2_error NGX_HTTP_V2_COMP_ERROR
               else
                 let st = st\<lparr>v2_field_state := fs, v2_field := v2_field st @ out\<rparr> in
                 if v2_field_rest st = 0 then ngx_http_v2_state_process_header env st inp'
                 else field_more st inp' V2_field_huff))"
| "ngx_http_v2_state_field_raw env st inp =
     (case take_field st inp of
        (piece, st, inp') \<Rightarrow>
          let st = st\<lparr>v2_field := v2_field st @ piece\<rparr> in
          if v2_field_rest st = 0 then ngx_http_v2_state_process_header env st inp'
          else field_more st inp' V2_field_raw)"
| "ngx_http_v2_state_field_skip env st inp =
     (case take_field st inp of
        (piece, st, inp') \<Rightarrow>
          if v2_field_rest st = 0 then ngx_http_v2_state_process_header env st inp'
          else field_more st inp' V2_field_skip)"
| "ngx_http_v2_state_process_header env st inp =
     (if v2_parse_name st
      then ngx_http_v2_state_field_len env
             (st\<lparr>v2_parse_name := False, v2_header := (v2_field st, snd (v2_header st))\<rparr>) inp
      else process_value env st inp)"
  by pat_completeness auto

termination
  by (relation "measures [
       \<lambda>c. case c of Inl (Inl (_, st, _)) \<Rightarrow> name_rank st | Inl (Inr (_, st, _)) \<Rightarrow> name_rank st
           | Inr (Inl (_, st, _)) \<Rightarrow> name_rank st | Inr (Inr (Inl (_, st, _))) \<Rightarrow> name_rank st
           | Inr (Inr (Inr (_, st, _))) \<Rightarrow> name_rank st,
       \<lambda>c. case c of Inl (Inl _) \<Rightarrow> 2 | Inr (Inr (Inr _)) \<Rightarrow> 0 | _ \<Rightarrow> 1]")
     (auto simp: name_rank_def dest: parse_name_take_field split: if_splits)

declare ngx_http_v2_state_field_len.simps [simp del] ngx_http_v2_state_field_huff.simps [simp del]
  ngx_http_v2_state_field_raw.simps [simp del] ngx_http_v2_state_field_skip.simps [simp del]
  ngx_http_v2_state_process_header.simps [simp del]

section \<open>The first byte of a header\<close>

definition ngx_http_v2_state_header_block :: "'r h2_env \<Rightarrow> 'r h2_state \<Rightarrow> bytes \<Rightarrow> 'r h2_result" where
  "ngx_http_v2_state_header_block env st inp =
     (if inp = [] then ngx_http_v2_state_save st inp V2_header_block
      else if \<not> end_headers st \<and> v2_length st < NGX_HTTP_V2_INT_OCTETS
      then ngx_http_v2_handle_continuation st inp V2_header_block
      else
        let ch = hd inp;
            indexed = (ch \<ge> 0x80);
            size_update = (ch < 0x40 \<and> ch \<ge> 0x20);
            st = (if ch < 0x80 \<and> ch \<ge> 0x40 then st\<lparr>v2_index := True\<rparr> else st);
            prefix = (if ch \<ge> 0x80 then ngx_http_v2_prefix 7
                      else if ch \<ge> 0x40 then ngx_http_v2_prefix 6
                      else if ch \<ge> 0x20 then ngx_http_v2_prefix 5
                      else ngx_http_v2_prefix 4) in
        case ngx_http_v2_parse_int (v2_length st) inp prefix of
          PI_rc rc \<Rightarrow>
            if rc = NGX_AGAIN then ngx_http_v2_state_save st inp V2_header_block
            else if rc = NGX_DECLINED then H2_error NGX_HTTP_V2_COMP_ERROR
            else H2_error NGX_HTTP_V2_SIZE_ERROR
        | PI_value v rest inp' \<Rightarrow>
            let st = st\<lparr>v2_length := rest\<rparr>;
                a = v2_allocs st;
                lookup = ngx_http_v2_get_indexed_header (pool_ok env a) (pool_ok env (a + 1)) (v2_hpack st) v in
            if indexed then
              (case lookup False (v2_header st) of
                 (rc, header) \<Rightarrow>
                   if rc \<noteq> NGX_OK then H2_error NGX_HTTP_V2_COMP_ERROR
                   else ngx_http_v2_state_process_header env (st\<lparr>v2_header := header, v2_allocs := a + 2\<rparr>) inp')
            else if size_update then
              (case ngx_http_v2_table_size (v2_hpack st) v of
                 (rc, table) \<Rightarrow>
                   if rc \<noteq> NGX_OK then H2_error NGX_HTTP_V2_COMP_ERROR
                   else ngx_http_v2_state_header_complete (st\<lparr>v2_hpack := table\<rparr>) inp')
            else if v = 0 then
              ngx_http_v2_state_field_len env (st\<lparr>v2_parse_name := True, v2_parse_value := True\<rparr>) inp'
            else
              (case lookup True (v2_header st) of
                 (rc, header) \<Rightarrow>
                   if rc \<noteq> NGX_OK then H2_error NGX_HTTP_V2_COMP_ERROR
                   else ngx_http_v2_state_field_len env
                          (st\<lparr>v2_header := header, v2_allocs := a + 1, v2_parse_value := True\<rparr>) inp'))"

section \<open>The reader\<close>

text \<open>One call of the handler, and calls until the input is used up or the block is done.\<close>

definition h2_handle :: "'r h2_env \<Rightarrow> 'r h2_state \<Rightarrow> bytes \<Rightarrow> 'r h2_result" where
  "h2_handle env st inp =
     (case v2_handler st of
        V2_header_block \<Rightarrow> ngx_http_v2_state_header_block env st inp
      | V2_field_len \<Rightarrow> ngx_http_v2_state_field_len env st inp
      | V2_field_huff \<Rightarrow> ngx_http_v2_state_field_huff env st inp
      | V2_field_raw \<Rightarrow> ngx_http_v2_state_field_raw env st inp
      | V2_field_skip \<Rightarrow> ngx_http_v2_state_field_skip env st inp
      | V2_header_complete \<Rightarrow> ngx_http_v2_state_header_complete st inp
      | V2_skip \<Rightarrow> ngx_http_v2_state_skip st inp
      | V2_head \<Rightarrow> H2_next st inp)"

partial_function (option) h2_read :: "'r h2_env \<Rightarrow> 'r h2_state \<Rightarrow> bytes \<Rightarrow> 'r h2_result option" where
  "h2_read env st inp =
     (case h2_handle env st inp of
        H2_error e \<Rightarrow> Some (H2_error e)
      | H2_next st' inp' \<Rightarrow>
          if inp' = [] \<or> v2_handler st' = V2_head then Some (H2_next st' inp') else h2_read env st' inp')"

text \<open>What is received is put behind what was kept.\<close>

definition h2_receive :: "'r h2_env \<Rightarrow> 'r h2_state \<Rightarrow> bytes \<Rightarrow> 'r h2_result option" where
  "h2_receive env st chunk = h2_read env (st\<lparr>v2_buffer := []\<rparr>) (v2_buffer st @ chunk)"


section \<open>Header blocks as the program's routines write them\<close>

text \<open>
  A string is written raw or Huffman coded, a header as an index, as a literal of one of three
  kinds with an indexed or a written name; a size update stands between headers.
\<close>

datatype field_string = Raw bytes | Huff bytes

fun enc_string :: "field_string \<Rightarrow> bytes" where
  "enc_string (Raw s) = ngx_http_v2_write_int 0 (ngx_http_v2_prefix 7) (length s) @ s"
| "enc_string (Huff w) = ngx_http_v2_write_int 0x80 (ngx_http_v2_prefix 7) (length w) @ w"

fun string_text :: "field_string \<Rightarrow> bytes" where
  "string_text (Raw s) = s"
| "string_text (Huff w) = snd (snd (ngx_http_v2_huff_decode 0 w True))"

fun string_ok :: "nat \<Rightarrow> field_string \<Rightarrow> bool" where
  "string_ok limit (Raw s) \<longleftrightarrow> length s \<le> limit \<and> length s < 127 + 2 ^ 21"
| "string_ok limit (Huff w) \<longleftrightarrow> length w \<le> limit \<and> length w < 127 + 2 ^ 21
     \<and> fst (ngx_http_v2_huff_decode 0 w True) = NGX_OK"

datatype literal_kind = Incremental | Without_indexing | Never_indexed

fun literal_byte :: "literal_kind \<Rightarrow> u_char" where
  "literal_byte Incremental = 0x40"
| "literal_byte Without_indexing = 0"
| "literal_byte Never_indexed = 0x10"

fun literal_bits :: "literal_kind \<Rightarrow> nat" where
  "literal_bits Incremental = 6"
| "literal_bits _ = 4"

datatype 's field_name = Name_index nat | Name_text 's

datatype 's field = Indexed nat | Literal literal_kind "'s field_name" 's | Size_update nat

fun enc_field :: "field_string field \<Rightarrow> bytes" where
  "enc_field (Indexed i) = ngx_http_v2_write_int 0x80 (ngx_http_v2_prefix 7) i"
| "enc_field (Literal k (Name_index i) v) =
     ngx_http_v2_write_int (literal_byte k) (ngx_http_v2_prefix (literal_bits k)) i @ enc_string v"
| "enc_field (Literal k (Name_text n) v) =
     ngx_http_v2_write_int (literal_byte k) (ngx_http_v2_prefix (literal_bits k)) 0 @ enc_string n @ enc_string v"
| "enc_field (Size_update n) = ngx_http_v2_write_int 0x20 (ngx_http_v2_prefix 5) n"

fun field_ok :: "nat \<Rightarrow> field_string field \<Rightarrow> bool" where
  "field_ok limit (Indexed i) \<longleftrightarrow> i < 127 + 2 ^ 21"
| "field_ok limit (Literal k (Name_index i) v) \<longleftrightarrow> 0 < i \<and> i < 2 ^ literal_bits k - 1 + 2 ^ 21 \<and> string_ok limit v"
| "field_ok limit (Literal k (Name_text n) v) \<longleftrightarrow> string_ok limit n \<and> string_ok limit v"
| "field_ok limit (Size_update n) \<longleftrightarrow> n \<le> 4096"

text \<open>What a field means: the header it stands for, if any, and the table after it.\<close>

fun field_name_text :: "table_view \<Rightarrow> field_string field_name \<Rightarrow> bytes option" where
  "field_name_text s (Name_index i) = map_option fst (view_lookup s i)"
| "field_name_text s (Name_text n) = Some (string_text n)"

fun view_field :: "field_string field \<Rightarrow> table_view \<Rightarrow> (header list \<times> table_view) option" where
  "view_field (Indexed i) s = map_option (\<lambda>h. ([h], s)) (view_lookup s i)"
| "view_field (Literal k n v) s =
     map_option (\<lambda>name. let h = (name, string_text v) in ([h], if k = Incremental then view_insert h s else s))
       (field_name_text s n)"
| "view_field (Size_update n) s = Some ([], view_resize n s)"

fun view_block :: "field_string field list \<Rightarrow> table_view \<Rightarrow> (header list \<times> table_view) option" where
  "view_block [] s = Some ([], s)"
| "view_block (f # fs) s =
     (case view_field f s of
        None \<Rightarrow> None
      | Some (hs, s') \<Rightarrow> map_option (\<lambda>(hs', s''). (hs @ hs', s'')) (view_block fs s'))"

definition enc_block :: "field_string field list \<Rightarrow> bytes" where
  "enc_block fs = concat (map enc_field fs)"

section \<open>Reading one string\<close>

lemma write_int_parsed:
  assumes "bits \<le> 8" "unat b AND ngx_http_v2_prefix bits = 0" "v < 2 ^ bits - 1 + 2 ^ 21"
    "len = length (ngx_http_v2_write_int b (ngx_http_v2_prefix bits) v) + l"
  shows "ngx_http_v2_parse_int len (ngx_http_v2_write_int b (ngx_http_v2_prefix bits) v @ ys) (ngx_http_v2_prefix bits)
    = PI_value v l ys"
  using parse_written_int [OF assms(1,2), of v len ys] assms(3,4) by (simp add: Let_def)

lemma byte_or_small:
  assumes "unat b AND ngx_http_v2_prefix bits = 0" "bits \<le> 8" "v \<le> ngx_http_v2_prefix bits"
  shows "unat (b OR word_of_nat v :: u_char) = unat b + v"
proof -
  have p: "ngx_http_v2_prefix bits = mask bits" by (simp add: ngx_http_v2_prefix_def mask_eq_exp_minus_1)
  have "(2 :: nat) ^ bits \<le> 256" using power_increasing [of bits 8 "2 :: nat"] assms(2) by simp
  moreover have "(0 :: nat) < 2 ^ bits" by simp
  ultimately have "v < 256" and vb: "v < 2 ^ bits" using assms(3) unfolding ngx_http_v2_prefix_def by linarith+
  then have u: "unat (word_of_nat v :: u_char) = v" by (intro unat_octet) simp
  have "v = take_bit bits v" using vb by (simp add: take_bit_nat_eq_self)
  then have "unat b AND v = (unat b AND mask bits) AND v"
    by (metis and.assoc and.commute take_bit_eq_mask)
  then have "unat b AND v = 0" using assms(1) p by simp
  then have "unat b + v = unat b OR v" by (rule disjunctive_add_eq_or)
  then show ?thesis unfolding unsigned_or_eq u by simp
qed

lemma write_int_first:
  assumes "unat b AND ngx_http_v2_prefix bits = 0" "bits \<le> 8"
  obtains c u where "ngx_http_v2_write_int b (ngx_http_v2_prefix bits) v = c # u"
    and "unat c = unat b + min v (ngx_http_v2_prefix bits)"
proof
  let ?m = "min v (ngx_http_v2_prefix bits)"
  show "ngx_http_v2_write_int b (ngx_http_v2_prefix bits) v
      = (b OR word_of_nat ?m) # tl (ngx_http_v2_write_int b (ngx_http_v2_prefix bits) v)"
    by (simp add: ngx_http_v2_write_int_def min_def)
  show "unat (b OR word_of_nat ?m) = unat b + ?m" by (rule byte_or_small [OF assms min.cobounded2])
qed

lemma high_bit: "drop_bit 7 c = 0 \<longleftrightarrow> unat c < 128" for c :: u_char
proof -
  have "list_all (\<lambda>c. (drop_bit 7 c = 0) = (unat c < 128)) all_bytes" by (simp add: all_bytes_code)
  then show ?thesis by (rule all_byteI)
qed

text \<open>
  Reading a field goes on to the end of the field: here all of it is there.
\<close>

definition block_env :: "'r h2_env \<Rightarrow> (header \<Rightarrow> 'r \<Rightarrow> 'r) \<Rightarrow> bool" where
  "block_env env f \<longleftrightarrow> (\<forall>k. pool_ok env k) \<and> (\<forall>k. op_served (HP_add (table_memory env k) [] []))
     \<and> on_header env = (\<lambda>h r. HR_taken (f h r))"

lemma take_field_all:
  "take_field (st\<lparr>v2_length := length s + l, v2_field_rest := length s\<rparr>) (s @ ys)
    = (s, st\<lparr>v2_length := l, v2_field_rest := 0\<rparr>, ys)"
  by (simp add: take_field_def Let_def)

lemma field_string_read:
  assumes env: "block_env env f" and ok: "string_ok (max_field_size env) fs"
    and st: "end_headers st" "v2_stream st = Some r" "v2_field_state st = 0"
      "v2_length st = length (enc_string fs) + l"
  shows "ngx_http_v2_state_field_len env st (enc_string fs @ ys)
    = ngx_http_v2_state_process_header env
        (st\<lparr>v2_allocs := v2_allocs st + 1, v2_length := l, v2_field_rest := 0, v2_field := string_text fs\<rparr>) ys"
proof (cases fs)
  case (Raw s)
  obtain c u where w: "ngx_http_v2_write_int 0 (ngx_http_v2_prefix 7) (length s) = c # u" "unat c = min (length s) 127"
    using write_int_first [of 0 7 "length s"] by (auto simp: ngx_http_v2_prefix_def)
  have p: "ngx_http_v2_parse_int (v2_length st) ((c # u) @ s @ ys) (ngx_http_v2_prefix 7) = PI_value (length s) (length s + l) (s @ ys)"
    using ok st(4) Raw unfolding w(1) [symmetric] by (intro write_int_parsed) simp_all
  have "drop_bit 7 c = 0" using w(2) by (simp add: high_bit)
  then show ?thesis using env ok st p w Raw
    by (simp add: ngx_http_v2_state_field_len.simps ngx_http_v2_state_field_raw.simps block_env_def take_field_def Let_def)
next
  case (Huff s)
  obtain c u where w: "ngx_http_v2_write_int 0x80 (ngx_http_v2_prefix 7) (length s) = c # u" "unat c = 128 + min (length s) 127"
    using write_int_first [of "0x80" 7 "length s"] by (auto simp: ngx_http_v2_prefix_def)
  have p: "ngx_http_v2_parse_int (v2_length st) ((c # u) @ s @ ys) (ngx_http_v2_prefix 7) = PI_value (length s) (length s + l) (s @ ys)"
    using ok st(4) Huff unfolding w(1) [symmetric] by (intro write_int_parsed) (simp_all add: ngx_http_v2_prefix_def)
  have h: "drop_bit 7 c \<noteq> 0" using w(2) by (simp add: high_bit)
  have d: "ngx_http_v2_huff_decode 0 s True = (NGX_OK, 0, string_text fs)"
    using ok Huff by (auto simp: ngx_http_v2_huff_decode_def split: prod.splits bool.splits if_splits)
  let ?st = "st\<lparr>v2_length := length s + l, v2_field_rest := length s, v2_field := [], v2_allocs := v2_allocs st + 1\<rparr>"
  have "ngx_http_v2_state_field_len env st (enc_string fs @ ys) = ngx_http_v2_state_field_huff env ?st (s @ ys)"
    using env ok st(1,2,4) p h w(1) Huff by (simp add: ngx_http_v2_state_field_len.simps block_env_def Let_def)
  moreover have "ngx_http_v2_state_field_huff env ?st (s @ ys)
      = ngx_http_v2_state_process_header env (?st\<lparr>v2_length := l, v2_field_rest := 0, v2_field_state := 0, v2_field := string_text fs\<rparr>) ys"
    using st(3) d by (simp add: ngx_http_v2_state_field_huff.simps take_field_def Let_def)
  moreover have "?st\<lparr>v2_length := l, v2_field_rest := 0, v2_field_state := 0, v2_field := string_text fs\<rparr>
      = st\<lparr>v2_allocs := v2_allocs st + 1, v2_length := l, v2_field_rest := 0, v2_field := string_text fs\<rparr>"
    using st(3) by simp
  ultimately show ?thesis by simp
qed

section \<open>Reading one field\<close>

text \<open>Between two fields of a block that is all there, in one HEADERS frame without padding.\<close>

definition between_fields :: "'r h2_state \<Rightarrow> table_view \<Rightarrow> nat \<Rightarrow> 'r \<Rightarrow> bool" where
  "between_fields st s limit r \<longleftrightarrow> end_headers st \<and> v2_padding st = 0 \<and> \<not> v2_parse_name st \<and> \<not> v2_parse_value st
     \<and> \<not> v2_index st \<and> v2_field_state st = 0 \<and> v2_header_limit st = limit \<and> v2_stream st = Some r
     \<and> table_sim (v2_hpack st) s"

definition header_len :: "header \<Rightarrow> nat" where
  "header_len h = length (fst h) + length (snd h)"

text \<open>With the header complete: the limit, the table and the request.\<close>

lemma deliver_header_ok:
  assumes env: "block_env env f"
    and st: "end_headers st" "v2_padding st = 0" "\<not> v2_parse_name st" "\<not> v2_parse_value st" "v2_field_state st = 0"
      "v2_stream st = Some r" "table_sim (v2_hpack st) s"
    and h: "v2_header st = h" and lim: "v2_header_limit st = header_len h + limit"
  shows "\<exists>st'. deliver_header env st ys = ngx_http_v2_state_header_complete st' ys
    \<and> between_fields st' (if v2_index st then view_insert h s else s) limit (f h r)
    \<and> v2_length st' = v2_length st \<and> v2_run st' = v2_run st"
proof -
  let ?m = "table_memory env (v2_allocs st)"
  let ?a = "if v2_index st then ngx_http_v2_add_header ?m (v2_hpack st) (fst h) (snd h) else (NGX_OK, v2_hpack st)"
  obtain rc t' where a: "?a = (rc, t')" by (cases ?a)
  have ok: "rc = NGX_OK \<and> table_sim t' (if v2_index st then view_insert h s else s)"
  proof (cases "v2_index st")
    case True
    have "op_served (HP_add ?m [] [])" using env by (simp only: block_env_def)
    then have "\<not> (mem_entries ?m = None \<or> mem_storage ?m = None \<or> mem_entry ?m = None \<or> mem_grown ?m = None)" by simp
    then show ?thesis using sim_insert [OF st(7), where m = ?m and name = "fst h" and val = "snd h"] True a
      by (simp split: if_splits)
  qed (use a st in simp)
  have on: "on_header env h r = HR_taken (f h r)" using env by (simp add: block_env_def)
  let ?st = "st\<lparr>v2_header_limit := limit, v2_hpack := t', v2_index := False,
      v2_allocs := v2_allocs st + 1, v2_stream := Some (f h r)\<rparr>"
  have "deliver_header env st ys = ngx_http_v2_state_header_complete ?st ys"
    using a ok on h lim st(6) by (cases "v2_index st") (simp_all add: deliver_header_def header_len_def Let_def)
  moreover have "between_fields ?st (if v2_index st then view_insert h s else s) limit (f h r)"
    using st ok by (simp add: between_fields_def end_headers_def)
  ultimately show ?thesis by (intro exI [of _ ?st]) simp
qed


text \<open>The first byte tells what follows.\<close>

lemma literal_ready: "unat (literal_byte k) AND ngx_http_v2_prefix (literal_bits k) = 0" "literal_bits k \<le> 8"
  by (cases k; simp add: ngx_http_v2_prefix_def)+

lemma literal_first:
  obtains c u where "ngx_http_v2_write_int (literal_byte k) (ngx_http_v2_prefix (literal_bits k)) i = c # u"
    and "\<not> c \<ge> 0x80" and "c \<ge> 0x40 \<longleftrightarrow> k = Incremental" and "c \<ge> 0x20 \<longleftrightarrow> k = Incremental"
    and "(if c \<ge> 0x40 then ngx_http_v2_prefix 6 else if c \<ge> 0x20 then ngx_http_v2_prefix 5 else ngx_http_v2_prefix 4)
      = ngx_http_v2_prefix (literal_bits k)"
proof -
  obtain c u where w: "ngx_http_v2_write_int (literal_byte k) (ngx_http_v2_prefix (literal_bits k)) i = c # u"
    and c: "unat c = unat (literal_byte k) + min i (ngx_http_v2_prefix (literal_bits k))"
    by (rule write_int_first [OF literal_ready])
  show thesis
    by (rule that [OF w]) (use c in \<open>cases k; simp add: word_le_nat_alt ngx_http_v2_prefix_def\<close>)+
qed

lemma block_literal:
  assumes st: "end_headers st" "\<not> v2_index st"
      "v2_length st = length (ngx_http_v2_write_int (literal_byte k) (ngx_http_v2_prefix (literal_bits k)) i) + l"
    and i: "i < 2 ^ literal_bits k - 1 + 2 ^ 21"
  shows "ngx_http_v2_state_header_block env st
      (ngx_http_v2_write_int (literal_byte k) (ngx_http_v2_prefix (literal_bits k)) i @ ys) =
    (let st1 = st\<lparr>v2_index := (k = Incremental), v2_length := l\<rparr>; a = v2_allocs st in
     if i = 0 then ngx_http_v2_state_field_len env (st1\<lparr>v2_parse_name := True, v2_parse_value := True\<rparr>) ys
     else
       (case ngx_http_v2_get_indexed_header (pool_ok env a) (pool_ok env (a + 1)) (v2_hpack st) i True (v2_header st) of
          (rc, header) \<Rightarrow>
            if rc \<noteq> NGX_OK then H2_error NGX_HTTP_V2_COMP_ERROR
            else ngx_http_v2_state_field_len env (st1\<lparr>v2_header := header, v2_allocs := a + 1, v2_parse_value := True\<rparr>) ys))"
proof -
  obtain c u where w: "ngx_http_v2_write_int (literal_byte k) (ngx_http_v2_prefix (literal_bits k)) i = c # u"
    and c: "\<not> c \<ge> 0x80" "c \<ge> 0x40 \<longleftrightarrow> k = Incremental" "c \<ge> 0x20 \<longleftrightarrow> k = Incremental"
    and p: "(if c \<ge> 0x40 then ngx_http_v2_prefix 6 else if c \<ge> 0x20 then ngx_http_v2_prefix 5 else ngx_http_v2_prefix 4)
      = ngx_http_v2_prefix (literal_bits k)"
    by (rule literal_first)
  have pi: "ngx_http_v2_parse_int (v2_length st) ((c # u) @ ys) (ngx_http_v2_prefix (literal_bits k)) = PI_value i l ys"
    using st(3) i literal_ready unfolding w [symmetric] by (intro write_int_parsed) simp_all
  have lt: "c < 0x80" using c(1) by simp
  show ?thesis
  proof (cases "k = Incremental")
    case True
    then have "c \<ge> 0x40" "\<not> c < 0x40" using c(2) by auto
    then show ?thesis using st(1) c(1) lt pi p True
      unfolding w ngx_http_v2_state_header_block_def Let_def append_Cons list.sel(1) by (simp split: prod.split)
  next
    case False
    then have "\<not> c \<ge> 0x40" "\<not> c \<ge> 0x20" using c by simp_all
    moreover have "st\<lparr>v2_index := False\<rparr> = st" using st(2) by simp
    ultimately show ?thesis using st(1) c(1) lt pi p False
      unfolding w ngx_http_v2_state_header_block_def Let_def append_Cons list.sel(1) by (simp split: prod.split)
  qed
qed

lemma block_indexed:
  assumes st: "end_headers st" "v2_length st = length (enc_field (Indexed i)) + l" and i: "i < 127 + 2 ^ 21"
  shows "ngx_http_v2_state_header_block env st (enc_field (Indexed i) @ ys) =
    (case ngx_http_v2_get_indexed_header (pool_ok env (v2_allocs st)) (pool_ok env (v2_allocs st + 1)) (v2_hpack st) i
        False (v2_header st) of
       (rc, header) \<Rightarrow>
         if rc \<noteq> NGX_OK then H2_error NGX_HTTP_V2_COMP_ERROR
         else ngx_http_v2_state_process_header env
           (st\<lparr>v2_length := l, v2_header := header, v2_allocs := v2_allocs st + 2\<rparr>) ys)"
proof -
  obtain c u where w: "ngx_http_v2_write_int 0x80 (ngx_http_v2_prefix 7) i = c # u" "unat c = 128 + min i 127"
    using write_int_first [of "0x80" 7 i] by (auto simp: ngx_http_v2_prefix_def)
  have c: "c \<ge> 0x80" "\<not> c < 0x80" "\<not> c < 0x40" using w(2) by (simp_all add: word_le_nat_alt word_less_nat_alt)
  have "ngx_http_v2_parse_int (v2_length st) ((c # u) @ ys) (ngx_http_v2_prefix 7) = PI_value i l ys"
    using st(2) i unfolding w(1) [symmetric] by (intro write_int_parsed) (simp_all add: ngx_http_v2_prefix_def)
  then show ?thesis using st(1) c
    unfolding enc_field.simps w(1) ngx_http_v2_state_header_block_def Let_def append_Cons list.sel(1) by (simp split: prod.split)
qed

lemma block_size:
  assumes st: "end_headers st" "v2_length st = length (enc_field (Size_update n)) + l" and n: "n \<le> 4096"
  shows "ngx_http_v2_state_header_block env st (enc_field (Size_update n) @ ys) =
    (case ngx_http_v2_table_size (v2_hpack st) n of
       (rc, table) \<Rightarrow>
         if rc \<noteq> NGX_OK then H2_error NGX_HTTP_V2_COMP_ERROR
         else ngx_http_v2_state_header_complete (st\<lparr>v2_length := l, v2_hpack := table\<rparr>) ys)"
proof -
  obtain c u where w: "ngx_http_v2_write_int 0x20 (ngx_http_v2_prefix 5) n = c # u" "unat c = 32 + min n 31"
    using write_int_first [of "0x20" 5 n] by (auto simp: ngx_http_v2_prefix_def)
  have c: "\<not> c \<ge> 0x80" "c < 0x80" "c < 0x40" "\<not> c \<ge> 0x40" "c \<ge> 0x20"
    using w(2) by (simp_all add: word_le_nat_alt word_less_nat_alt)
  have "ngx_http_v2_parse_int (v2_length st) ((c # u) @ ys) (ngx_http_v2_prefix 5) = PI_value n l ys"
    using st(2) n unfolding w(1) [symmetric] by (intro write_int_parsed) (simp_all add: ngx_http_v2_prefix_def)
  then show ?thesis using st(1) c
    unfolding enc_field.simps w(1) ngx_http_v2_state_header_block_def Let_def append_Cons list.sel(1) by (simp split: prod.split)
qed

section \<open>Reading one field\<close>

text \<open>A literal whose name is known: the value is read and the header delivered.\<close>

lemma literal_value_read:
  assumes env: "block_env env f" and v: "string_ok (max_field_size env) v"
    and st: "end_headers st" "v2_padding st = 0" "\<not> v2_parse_name st" "v2_parse_value st" "v2_field_state st = 0"
      "v2_stream st = Some r" "table_sim (v2_hpack st) s"
    and n: "fst (v2_header st) = name" and lim: "v2_header_limit st = header_len (name, string_text v) + limit"
    and l: "v2_length st = length (enc_string v) + l"
  shows "\<exists>st'. ngx_http_v2_state_field_len env st (enc_string v @ ys) = ngx_http_v2_state_header_complete st' ys
    \<and> between_fields st' (if v2_index st then view_insert (name, string_text v) s else s) limit (f (name, string_text v) r)
    \<and> v2_length st' = l \<and> v2_run st' = v2_run st"
proof -
  let ?st = "st\<lparr>v2_allocs := v2_allocs st + 1, v2_length := l, v2_field_rest := 0, v2_field := string_text v,
      v2_parse_value := False, v2_header := (name, string_text v)\<rparr>"
  have "ngx_http_v2_state_field_len env st (enc_string v @ ys) = deliver_header env ?st ys"
    unfolding field_string_read [OF env v st(1,6,5) l]
    using st n by (simp add: ngx_http_v2_state_process_header.simps process_value_def)
  moreover have "\<exists>st'. deliver_header env ?st ys = ngx_http_v2_state_header_complete st' ys
      \<and> between_fields st' (if v2_index ?st then view_insert (name, string_text v) s else s) limit (f (name, string_text v) r)
      \<and> v2_length st' = v2_length ?st \<and> v2_run st' = v2_run ?st"
    using st lim by (intro deliver_header_ok [OF env]) (simp_all add: end_headers_def)
  ultimately show ?thesis by simp
qed

definition headers_len :: "header list \<Rightarrow> nat" where
  "headers_len hs = sum_list (map header_len hs)"

lemma field_read:
  assumes env: "block_env env f" and ok: "field_ok (max_field_size env) fd" and sp: "view_field fd s = Some (hs, s')"
    and st: "between_fields st s (headers_len hs + limit) r" and l: "v2_length st = length (enc_field fd) + l"
  shows "\<exists>st'. ngx_http_v2_state_header_block env st (enc_field fd @ ys) = ngx_http_v2_state_header_complete st' ys
    \<and> between_fields st' s' limit (foldl (\<lambda>r h. f h r) r hs) \<and> v2_length st' = l \<and> v2_run st' = v2_run st"
proof -
  have b: "end_headers st" "v2_padding st = 0" "\<not> v2_parse_name st" "\<not> v2_parse_value st" "\<not> v2_index st"
    "v2_field_state st = 0" "v2_header_limit st = headers_len hs + limit" "v2_stream st = Some r"
    "table_sim (v2_hpack st) s"
    using st by (simp_all add: between_fields_def)
  have pool: "pool_ok env k" for k using env by (simp add: block_env_def)
  show ?thesis
  proof (cases fd)
    case (Indexed i)
    then obtain h where h: "view_lookup s i = Some h" "hs = [h]" "s' = s" using sp by auto
    have g: "ngx_http_v2_get_indexed_header True True (v2_hpack st) i False (v2_header st) = (NGX_OK, h)"
      using sim_lookup [OF b(9), of i False "v2_header st"] h(1) by simp
    let ?st = "st\<lparr>v2_length := l, v2_header := h, v2_allocs := v2_allocs st + 2\<rparr>"
    have "ngx_http_v2_state_header_block env st (enc_field fd @ ys) = deliver_header env ?st ys"
      unfolding Indexed using block_indexed [OF b(1) l [unfolded Indexed], of env ys] ok Indexed g pool b(3,4)
      by (simp add: ngx_http_v2_state_process_header.simps process_value_def)
    moreover have "\<exists>st'. deliver_header env ?st ys = ngx_http_v2_state_header_complete st' ys
        \<and> between_fields st' (if v2_index ?st then view_insert h s else s) limit (f h r)
        \<and> v2_length st' = v2_length ?st \<and> v2_run st' = v2_run ?st"
      using b h(2) by (intro deliver_header_ok [OF env]) (simp_all add: end_headers_def headers_len_def)
    ultimately show ?thesis using h b(5) by simp
  next
    case (Size_update n)
    then have n: "n \<le> 4096" and h: "hs = []" "s' = view_resize n s" using ok sp by auto
    obtain rc t where t: "ngx_http_v2_table_size (v2_hpack st) n = (rc, t)" by (cases "ngx_http_v2_table_size (v2_hpack st) n")
    have "rc = NGX_OK" "table_sim t s'" using sim_resize [OF b(9) n] t h by simp_all
    then show ?thesis
      unfolding Size_update block_size [OF b(1) l [unfolded Size_update] n] t
      using b h by (intro exI [of _ "st\<lparr>v2_length := l, v2_hpack := t\<rparr>"]) (simp add: between_fields_def end_headers_def headers_len_def)
  next
    case (Literal k nm v)
    then obtain name where nm: "field_name_text s nm = Some name" and hs: "hs = [(name, string_text v)]"
      and s': "s' = (if k = Incremental then view_insert (name, string_text v) s else s)"
      using sp by (auto simp: Let_def)
    have lim: "v2_header_limit st = header_len (name, string_text v) + limit" using b(7) hs by (simp add: headers_len_def)
    show ?thesis
    proof (cases nm)
      case (Name_index i)
      have i: "0 < i" "i < 2 ^ literal_bits k - 1 + 2 ^ 21" and v: "string_ok (max_field_size env) v"
        using ok Literal Name_index by simp_all
      obtain hd0 where g: "ngx_http_v2_get_indexed_header True True (v2_hpack st) i True (v2_header st) = (NGX_OK, hd0)"
        and n0: "fst hd0 = name"
        using sim_lookup [OF b(9), of i True "v2_header st"] nm Name_index by (auto split: if_splits)
      let ?st = "st\<lparr>v2_index := (k = Incremental), v2_length := length (enc_string v) + l, v2_header := hd0,
          v2_allocs := v2_allocs st + 1, v2_parse_value := True\<rparr>"
      have "ngx_http_v2_state_header_block env st (enc_field fd @ ys)
          = ngx_http_v2_state_field_len env ?st (enc_string v @ ys)"
        unfolding Literal Name_index enc_field.simps append_assoc
        using block_literal [OF b(1,5) _ i(2), of "length (enc_string v) + l" env "enc_string v @ ys"] l Literal Name_index i(1) g pool
        by simp
      moreover have "\<exists>st'. ngx_http_v2_state_field_len env ?st (enc_string v @ ys) = ngx_http_v2_state_header_complete st' ys
          \<and> between_fields st' (if v2_index ?st then view_insert (name, string_text v) s else s) limit (f (name, string_text v) r)
          \<and> v2_length st' = l \<and> v2_run st' = v2_run ?st"
        using b n0 lim by (intro literal_value_read [OF env v]) (simp_all add: end_headers_def)
      ultimately show ?thesis using hs s' by simp
    next
      case (Name_text n)
      have n: "string_ok (max_field_size env) n" and v: "string_ok (max_field_size env) v"
        using ok Literal Name_text by simp_all
      have name: "name = string_text n" using nm Name_text by simp
      let ?st = "st\<lparr>v2_index := (k = Incremental), v2_length := length (enc_string n) + (length (enc_string v) + l),
          v2_parse_name := True, v2_parse_value := True\<rparr>"
      let ?st2 = "?st\<lparr>v2_allocs := v2_allocs st + 1, v2_length := length (enc_string v) + l, v2_field_rest := 0,
          v2_field := name, v2_parse_name := False, v2_header := (name, snd (v2_header st))\<rparr>"
      have "0 < (2 :: nat) ^ literal_bits k - 1 + 2 ^ 21" by simp
      then have "ngx_http_v2_state_header_block env st (enc_field fd @ ys)
          = ngx_http_v2_state_field_len env ?st (enc_string n @ enc_string v @ ys)"
        unfolding Literal Name_text enc_field.simps append_assoc
        using block_literal [OF b(1,5), where i = 0 and k = k and env = env
            and l = "length (enc_string n) + (length (enc_string v) + l)" and ys = "enc_string n @ enc_string v @ ys"] l Literal Name_text
        by (simp add: Let_def)
      also have "\<dots> = ngx_http_v2_state_field_len env ?st2 (enc_string v @ ys)"
        using field_string_read [OF env n, of ?st r "length (enc_string v) + l" "enc_string v @ ys"] b
        by (simp add: end_headers_def ngx_http_v2_state_process_header.simps name)
      finally have e: "ngx_http_v2_state_header_block env st (enc_field fd @ ys)
          = ngx_http_v2_state_field_len env ?st2 (enc_string v @ ys)" .
      have "\<exists>st'. ngx_http_v2_state_field_len env ?st2 (enc_string v @ ys) = ngx_http_v2_state_header_complete st' ys
          \<and> between_fields st' (if v2_index ?st2 then view_insert (name, string_text v) s else s) limit (f (name, string_text v) r)
          \<and> v2_length st' = l \<and> v2_run st' = v2_run ?st2"
        using b lim by (intro literal_value_read [OF env v]) (simp_all add: end_headers_def)
      then show ?thesis using e hs s' by simp
    qed
  qed
qed

section \<open>Reading a block\<close>

definition block_done :: "'r h2_result option \<Rightarrow> 'r list \<Rightarrow> 'r \<Rightarrow> table_view \<Rightarrow> bytes \<Rightarrow> bool" where
  "block_done res runs r s rest \<longleftrightarrow>
     (case res of
        Some (H2_next st' rest') \<Rightarrow> rest' = rest \<and> v2_handler st' = V2_head \<and> v2_run st' = runs @ [r]
          \<and> table_sim (v2_hpack st') s
      | _ \<Rightarrow> False)"

lemma enc_block_simps [simp]: "enc_block [] = []" "enc_block (fd # fs) = enc_field fd @ enc_block fs"
  by (simp_all add: enc_block_def)

lemma headers_len_simps [simp]: "headers_len [] = 0" "headers_len (hs @ hs') = headers_len hs + headers_len hs'"
  by (simp_all add: headers_len_def)

lemma enc_field_nonempty: "enc_field fd \<noteq> []"
  by (cases fd rule: enc_field.cases) (simp_all add: ngx_http_v2_write_int_def)

lemma header_complete_done:
  assumes "between_fields st s limit r" "v2_length st = 0"
  shows "ngx_http_v2_state_header_complete st ys = H2_next (st\<lparr>v2_run := v2_run st @ [r], v2_stream := None, v2_handler := V2_head\<rparr>) ys"
  using assms by (simp add: between_fields_def ngx_http_v2_state_header_complete_def ngx_http_v2_state_complete_def Let_def)

lemma block_read:
  "block_env env f \<Longrightarrow> list_all (field_ok (max_field_size env)) fs \<Longrightarrow> view_block fs s = Some (hs, s') \<Longrightarrow>
   between_fields st s (headers_len hs + limit) r \<Longrightarrow> v2_length st = length (enc_block fs) \<Longrightarrow>
   v2_handler st = V2_header_block \<Longrightarrow> fs \<noteq> [] \<Longrightarrow>
   block_done (h2_read env st (enc_block fs @ rest)) (v2_run st) (foldl (\<lambda>r h. f h r) r hs) s' rest"
proof (induction fs arbitrary: s hs r st)
  case (Cons fd fs)
  obtain hs1 s1 where sp1: "view_field fd s = Some (hs1, s1)" using Cons.prems(3) by (auto split: option.splits)
  obtain hs2 where sp2: "view_block fs s1 = Some (hs2, s')" and hs: "hs = hs1 @ hs2"
    using Cons.prems(3) sp1 by (auto split: option.splits)
  obtain st' where r: "ngx_http_v2_state_header_block env st (enc_field fd @ enc_block fs @ rest)
      = ngx_http_v2_state_header_complete st' (enc_block fs @ rest)"
    and b: "between_fields st' s1 (headers_len hs2 + limit) (foldl (\<lambda>r h. f h r) r hs1)"
    and l: "v2_length st' = length (enc_block fs)" "v2_run st' = v2_run st"
    using field_read [OF Cons.prems(1) _ sp1, of st "headers_len hs2 + limit" r "length (enc_block fs)" "enc_block fs @ rest"]
      Cons.prems(2,4,5) hs by (auto simp: add.assoc)
  have h: "h2_handle env st (enc_block (fd # fs) @ rest) = ngx_http_v2_state_header_complete st' (enc_block fs @ rest)"
    using r Cons.prems(6) by (simp add: h2_handle_def)
  show ?case
  proof (cases "fs = []")
    case True
    then have "ngx_http_v2_state_header_complete st' (enc_block fs @ rest)
        = H2_next (st'\<lparr>v2_run := v2_run st' @ [foldl (\<lambda>r h. f h r) r hs1], v2_stream := None, v2_handler := V2_head\<rparr>) rest"
      using header_complete_done [OF b, of rest] l(1) by simp
    then show ?thesis unfolding h2_read.simps [of env st] h using True sp2 hs l b
      by (simp add: block_done_def between_fields_def)
  next
    case False
    then have ne: "enc_block fs \<noteq> []" using enc_field_nonempty by (cases fs) auto
    then have "ngx_http_v2_state_header_complete st' (enc_block fs @ rest)
        = H2_next (st'\<lparr>v2_handler := V2_header_block\<rparr>) (enc_block fs @ rest)"
      using l(1) by (simp add: ngx_http_v2_state_header_complete_def)
    then have e: "h2_read env st (enc_block (fd # fs) @ rest) = h2_read env (st'\<lparr>v2_handler := V2_header_block\<rparr>) (enc_block fs @ rest)"
      unfolding h2_read.simps [of env st] h using ne by simp
    have "between_fields (st'\<lparr>v2_handler := V2_header_block\<rparr>) s1 (headers_len hs2 + limit) (foldl (\<lambda>r h. f h r) r hs1)"
      using b by (simp add: between_fields_def end_headers_def)
    then show ?thesis unfolding e using Cons.IH [OF Cons.prems(1) _ sp2, of "st'\<lparr>v2_handler := V2_header_block\<rparr>"]
        Cons.prems(2) l False hs by simp
  qed
qed simp


section \<open>The reader ends\<close>

text \<open>
  What a handler leaves: nothing, or less than it was given, or all of it for the handler that
  reads the first byte of a header; or the block is done.
\<close>

definition leaves :: "nat \<Rightarrow> 'r h2_result \<Rightarrow> bool" where
  "leaves n res \<longleftrightarrow>
     (case res of
        H2_error e \<Rightarrow> True
      | H2_next st inp \<Rightarrow> inp = [] \<or> v2_handler st = V2_head \<or> length inp < n
          \<or> (length inp = n \<and> v2_handler st = V2_header_block))"

definition leaves_less :: "nat \<Rightarrow> 'r h2_result \<Rightarrow> bool" where
  "leaves_less n res \<longleftrightarrow>
     (case res of
        H2_error e \<Rightarrow> True
      | H2_next st inp \<Rightarrow> inp = [] \<or> v2_handler st = V2_head \<or> length inp < n)"

lemma leaves_less_leaves: "leaves_less n res \<Longrightarrow> leaves n res"
  by (auto simp: leaves_def leaves_less_def split: h2_result.splits)

lemma leaves_mono: "leaves m res \<Longrightarrow> m < n \<Longrightarrow> leaves_less n res"
  by (auto simp: leaves_def leaves_less_def split: h2_result.splits)

lemma leaves_le: "leaves m res \<Longrightarrow> m \<le> n \<Longrightarrow> leaves n res"
  by (auto simp: leaves_def split: h2_result.splits)

lemma save_leaves [simp]: "leaves_less n (ngx_http_v2_state_save st inp h)"
  by (simp add: leaves_less_def ngx_http_v2_state_save_def)

lemma save_leaves_all [simp]: "leaves n (ngx_http_v2_state_save st inp h)"
  by (rule leaves_less_leaves) simp

lemma skip_padding_length: "skip_padding st inp = (st', inp') \<Longrightarrow> length inp' \<le> length inp"
  by (auto simp: skip_padding_def Let_def split: if_splits)

lemma frame_leaves: "leaves_less (length inp) (continuation_frame st inp h)"
proof (cases "length inp < v2_length st + 9")
  case True
  then show ?thesis by (simp add: continuation_frame_def Let_def)
next
  case False
  let ?l = "v2_length st"
  have "length (take ?l inp @ drop (?l + 9) inp) < length inp" using False by simp
  then show ?thesis using False by (simp add: continuation_frame_def Let_def leaves_less_def)
qed

lemma continuation_leaves [simp]: "leaves_less (length inp) (ngx_http_v2_handle_continuation st inp h)"
proof -
  obtain st' inp' where s: "skip_padding st inp = (st', inp')" by (cases "skip_padding st inp")
  have "leaves (length inp') (continuation_frame st' inp' h)" by (rule leaves_less_leaves [OF frame_leaves])
  show ?thesis
  proof (cases "length inp' = length inp")
    case True
    then show ?thesis using s frame_leaves [of inp' st' h] by (simp add: ngx_http_v2_handle_continuation_def)
  next
    case False
    then have "length inp' < length inp" using skip_padding_length [OF s] by simp
    then show ?thesis using s leaves_mono [OF leaves_less_leaves [OF frame_leaves]]
      by (simp add: ngx_http_v2_handle_continuation_def)
  qed
qed

lemma header_complete_leaves: "leaves (length inp) (ngx_http_v2_state_header_complete st inp)"
proof -
  consider (more) "v2_length st > 0" | (frame) "v2_length st = 0" "\<not> end_headers st"
    | (fin) "v2_length st = 0" "end_headers st" by auto
  then show ?thesis
  proof cases
    case fin
    have "leaves n (ngx_http_v2_state_complete st' inp')" for n and st' :: "'a h2_state" and inp'
      by (simp add: leaves_def ngx_http_v2_state_complete_def)
    then show ?thesis using fin
      by (simp add: ngx_http_v2_state_header_complete_def Let_def ngx_http_v2_state_skip_padded_def ngx_http_v2_state_skip_def)
  qed (use leaves_less_leaves [OF continuation_leaves] in \<open>simp_all add: ngx_http_v2_state_header_complete_def leaves_def\<close>)
qed

lemma deliver_header_leaves: "leaves (length inp) (deliver_header env st inp)"
proof -
  have e: "leaves n (H2_error e)" for n e by (simp add: leaves_def)
  show ?thesis
    unfolding deliver_header_def Let_def
    by (auto simp: header_complete_leaves e split: prod.split option.split header_outcome.split)
qed

lemma process_value_leaves: "leaves (length inp) (process_value env st inp)"
  by (simp add: process_value_def deliver_header_leaves)

lemma parse_int_leaves: "ngx_http_v2_parse_int len inp prefix = PI_value v l inp' \<Longrightarrow> inp \<noteq> [] \<Longrightarrow> length inp' < length inp"
proof -
  have used: "parse_int_loop u sh a os = Some (v', u') \<Longrightarrow> u < u'" for u sh a os v' u'
    by (induction u sh a os rule: parse_int_loop.induct) (auto simp: Let_def split: if_splits)
  assume p: "ngx_http_v2_parse_int len inp prefix = PI_value v l inp'" and ne: "inp \<noteq> []"
  show ?thesis
  proof (cases "unat (hd inp) AND prefix = prefix")
    case True
    then obtain v' u where "parse_int_loop 1 0 prefix (drop 1 (take (min (length inp) 4) inp)) = Some (v', u)" and i: "inp' = drop u inp"
      using p by (auto simp: ngx_http_v2_parse_int_def Let_def split: option.splits if_splits)
    from used [OF this(1)] show ?thesis using i ne by (cases inp) simp_all
  next
    case False
    then show ?thesis using p ne by (cases inp) (auto simp: ngx_http_v2_parse_int_def Let_def split: if_splits)
  qed
qed

lemma take_field_length: "take_field st inp = (piece, st', inp') \<Longrightarrow> length inp' \<le> length inp"
  by (auto simp: take_field_def Let_def)

lemma field_more_leaves: "leaves (length inp) (field_more st inp h)"
  using leaves_less_leaves [OF continuation_leaves]
  by (auto simp: field_more_def) (simp_all add: leaves_def)

lemma error_leaves [simp]: "leaves n (H2_error e)" "leaves_less n (H2_error e)"
  by (simp_all add: leaves_def leaves_less_def)

text \<open>
  A fact about the handlers of a field follows from that fact about what comes after the field;
  after a name that is the length of the value, for which it is shown first.
\<close>

lemma fields_leave:
  assumes pr: "\<And>st inp. v2_parse_name st = b \<Longrightarrow> leaves (length inp) (ngx_http_v2_state_process_header env st inp)"
    and b: "v2_parse_name st = b"
  shows "leaves (length inp) (ngx_http_v2_state_field_huff env st inp)"
    and "leaves (length inp) (ngx_http_v2_state_field_raw env st inp)"
    and "leaves (length inp) (ngx_http_v2_state_field_skip env st inp)"
proof -
  obtain piece st' inp' where t: "take_field st inp = (piece, st', inp')" by (cases "take_field st inp")
  have l: "length inp' \<le> length inp" by (rule take_field_length [OF t])
  have n: "v2_parse_name st' = b" using parse_name_take_field [OF t [symmetric]] b by simp
  have p: "leaves (length inp) (ngx_http_v2_state_process_header env s inp')" if "v2_parse_name s = b" for s
    using leaves_le [OF pr [OF that] l] .
  have m: "leaves (length inp) (field_more s inp' h)" for s :: "'a h2_state" and h
    using leaves_le [OF field_more_leaves l] .
  show "leaves (length inp) (ngx_http_v2_state_field_raw env st inp)"
    using n by (simp add: ngx_http_v2_state_field_raw.simps t p m Let_def)
  show "leaves (length inp) (ngx_http_v2_state_field_skip env st inp)"
    using n by (simp add: ngx_http_v2_state_field_skip.simps t p m)
  show "leaves (length inp) (ngx_http_v2_state_field_huff env st inp)"
    using n by (simp add: ngx_http_v2_state_field_huff.simps t p m Let_def split: prod.split)
qed

lemma field_len_leaves:
  assumes pr: "\<And>st inp. v2_parse_name st = b \<Longrightarrow> leaves (length inp) (ngx_http_v2_state_process_header env st inp)"
    and b: "v2_parse_name st = b"
  shows "leaves (length inp) (ngx_http_v2_state_field_len env st inp)"
proof -
  have c: "leaves (length inp) (ngx_http_v2_handle_continuation s inp h)" for s :: "'a h2_state" and h
    by (rule leaves_less_leaves [OF continuation_leaves])
  consider (frame) "\<not> end_headers st \<and> v2_length st < 4" | (short) "v2_length st < 1"
    | (none) "\<not> (\<not> end_headers st \<and> v2_length st < 4)" "inp = []"
    | (rc) rc where "inp \<noteq> []" "ngx_http_v2_parse_int (v2_length st) inp (ngx_http_v2_prefix 7) = PI_rc rc"
    | (val) v l inp' where "inp \<noteq> []" "ngx_http_v2_parse_int (v2_length st) inp (ngx_http_v2_prefix 7) = PI_value v l inp'"
    by (cases "ngx_http_v2_parse_int (v2_length st) inp (ngx_http_v2_prefix 7)") auto
  then show ?thesis
  proof cases
    case val
    have l: "length inp' \<le> length inp" using parse_int_leaves [OF val(2,1)] by simp
    have "leaves (length inp) (ngx_http_v2_state_field_huff env s inp')"
      "leaves (length inp) (ngx_http_v2_state_field_raw env s inp')"
      "leaves (length inp) (ngx_http_v2_state_field_skip env s inp')" if "v2_parse_name s = b" for s
      by (rule leaves_le [OF _ l], rule fields_leave [OF pr that], assumption)+
    then show ?thesis using val b c by (simp add: ngx_http_v2_state_field_len.simps Let_def)
  qed (auto simp: ngx_http_v2_state_field_len.simps Let_def c)
qed

lemma process_header_leaves: "leaves (length inp) (ngx_http_v2_state_process_header env st inp)"
proof -
  have v: "leaves (length inp) (ngx_http_v2_state_process_header env st inp)" if "v2_parse_name st = False"
    for st :: "'a h2_state" and inp
    using that process_value_leaves by (simp add: ngx_http_v2_state_process_header.simps)
  have "leaves (length inp) (ngx_http_v2_state_field_len env st inp)" if "v2_parse_name st = False"
    for st :: "'a h2_state" and inp
    by (rule field_len_leaves [OF v that])
  then show ?thesis using v by (cases "v2_parse_name st") (simp_all add: ngx_http_v2_state_process_header.simps)
qed

lemmas handlers_leave = field_len_leaves [OF process_header_leaves refl] fields_leave [OF process_header_leaves refl]

lemma header_block_leaves: "leaves_less (length inp) (ngx_http_v2_state_header_block env st inp)"
proof -
  define st1 where "st1 = (if hd inp < 0x80 \<and> hd inp \<ge> 0x40 then st\<lparr>v2_index := True\<rparr> else st)"
  define prefix where "prefix = (if hd inp \<ge> 0x80 then ngx_http_v2_prefix 7 else if hd inp \<ge> 0x40 then ngx_http_v2_prefix 6
     else if hd inp \<ge> 0x20 then ngx_http_v2_prefix 5 else ngx_http_v2_prefix 4)"
  note d = ngx_http_v2_state_header_block_def Let_def st1_def [symmetric] prefix_def [symmetric]
  consider (none) "inp = []" | (frame) "\<not> end_headers st \<and> v2_length st < 4"
    | (rc) rc where "inp \<noteq> []" "ngx_http_v2_parse_int (v2_length st1) inp prefix = PI_rc rc"
    | (val) v l inp' where "inp \<noteq> []" "ngx_http_v2_parse_int (v2_length st1) inp prefix = PI_value v l inp'"
    by (cases "ngx_http_v2_parse_int (v2_length st1) inp prefix") auto
  then show ?thesis
  proof cases
    case val
    have m: "leaves_less (length inp) res" if "leaves (length inp') res" for res :: "'a h2_result"
      using leaves_mono [OF that parse_int_leaves [OF val(2,1)]] .
    show ?thesis unfolding d
      by (auto simp: val m handlers_leave header_complete_leaves process_header_leaves split: prod.split)
  qed (simp_all add: d)
qed

lemma h2_handle_leaves: "leaves (length inp) (h2_handle env st inp)"
proof -
  have "leaves (length inp) (ngx_http_v2_state_skip st inp)"
    by (simp add: ngx_http_v2_state_skip_def ngx_http_v2_state_complete_def leaves_def ngx_http_v2_state_save_def)
  then show ?thesis
    using leaves_less_leaves [OF header_block_leaves]
    by (cases "v2_handler st") (simp_all add: h2_handle_def handlers_leave header_complete_leaves leaves_def [of _ "H2_next _ _"])
qed

lemma h2_read_total: "\<exists>res. h2_read env st inp = Some res"
proof (induction "2 * length inp + (if v2_handler st = V2_header_block then 0 else 1)" arbitrary: st inp rule: less_induct)
  case less
  show ?case
  proof (cases "h2_handle env st inp")
    case (H2_error e)
    then show ?thesis by (simp add: h2_read.simps)
  next
    case (H2_next st' inp')
    show ?thesis
    proof (cases "inp' = [] \<or> v2_handler st' = V2_head")
      case True
      then show ?thesis using H2_next by (simp add: h2_read.simps)
    next
      case False
      have "length inp' < length inp \<or> (length inp' = length inp \<and> v2_handler st' = V2_header_block)"
        using h2_handle_leaves [of inp env st] False unfolding H2_next leaves_def by simp
      moreover have "length inp' < length inp" if "v2_handler st = V2_header_block"
        using header_block_leaves [of inp env st] H2_next that False by (simp add: h2_handle_def leaves_less_def)
      ultimately have "2 * length inp' + (if v2_handler st' = V2_header_block then 0 else 1)
          < 2 * length inp + (if v2_handler st = V2_header_block then 0 else 1)"
        by (cases "v2_handler st = V2_header_block") auto
      from less [OF this] show ?thesis using H2_next False by (simp add: h2_read.simps [of env st])
    qed
  qed
qed

text \<open>
  C30. The reader of header blocks always ends: whatever bytes come, frame after frame, each call
  of a handler uses up input, saves what is left of it or ends the block, and so the loop that
  calls them returns.
\<close>

theorem h2_read_ends: "\<exists>res. h2_receive env st inp = Some res"
  unfolding h2_receive_def by (rule h2_read_total)


section \<open>The handler field\<close>

text \<open>Every result sets \<open>v2_handler\<close>, so a handler does not depend on what it was.\<close>

lemma handler_out:
  fixes st :: "'r h2_state"
  shows "st\<lparr>v2_handler := h, v2_length := a\<rparr> = st\<lparr>v2_length := a, v2_handler := h\<rparr>"
    and "st\<lparr>v2_handler := h, v2_padding := a\<rparr> = st\<lparr>v2_padding := a, v2_handler := h\<rparr>"
    and "st\<lparr>v2_handler := h, v2_flags := c\<rparr> = st\<lparr>v2_flags := c, v2_handler := h\<rparr>"
    and "st\<lparr>v2_handler := h, v2_parse_name := b\<rparr> = st\<lparr>v2_parse_name := b, v2_handler := h\<rparr>"
    and "st\<lparr>v2_handler := h, v2_parse_value := b\<rparr> = st\<lparr>v2_parse_value := b, v2_handler := h\<rparr>"
    and "st\<lparr>v2_handler := h, v2_index := b\<rparr> = st\<lparr>v2_index := b, v2_handler := h\<rparr>"
    and "st\<lparr>v2_handler := h, v2_header := d\<rparr> = st\<lparr>v2_header := d, v2_handler := h\<rparr>"
    and "st\<lparr>v2_handler := h, v2_header_limit := a\<rparr> = st\<lparr>v2_header_limit := a, v2_handler := h\<rparr>"
    and "st\<lparr>v2_handler := h, v2_field_state := c\<rparr> = st\<lparr>v2_field_state := c, v2_handler := h\<rparr>"
    and "st\<lparr>v2_handler := h, v2_field := e\<rparr> = st\<lparr>v2_field := e, v2_handler := h\<rparr>"
    and "st\<lparr>v2_handler := h, v2_field_rest := a\<rparr> = st\<lparr>v2_field_rest := a, v2_handler := h\<rparr>"
    and "st\<lparr>v2_handler := h, v2_stream := s\<rparr> = st\<lparr>v2_stream := s, v2_handler := h\<rparr>"
    and "st\<lparr>v2_handler := h, v2_hpack := t\<rparr> = st\<lparr>v2_hpack := t, v2_handler := h\<rparr>"
    and "st\<lparr>v2_handler := h, v2_run := u\<rparr> = st\<lparr>v2_run := u, v2_handler := h\<rparr>"
    and "st\<lparr>v2_handler := h, v2_allocs := a\<rparr> = st\<lparr>v2_allocs := a, v2_handler := h\<rparr>"
    and "st\<lparr>v2_handler := h, v2_buffer := e\<rparr> = st\<lparr>v2_buffer := e, v2_handler := h\<rparr>"
  by simp_all

lemma end_headers_handler [simp]: "end_headers (st\<lparr>v2_handler := h\<rparr>) = end_headers st"
  by (simp add: end_headers_def)

lemma save_handler [simp]: "ngx_http_v2_state_save (st\<lparr>v2_handler := h\<rparr>) inp k = ngx_http_v2_state_save st inp k"
  by (simp add: ngx_http_v2_state_save_def)

lemma frame_handler: "continuation_frame (st\<lparr>v2_handler := h\<rparr>) inp k = continuation_frame st inp k"
  by (simp add: continuation_frame_def Let_def)

lemma skip_padding_handler:
  "skip_padding (st\<lparr>v2_handler := h\<rparr>) inp = map_prod (\<lambda>s. s\<lparr>v2_handler := h\<rparr>) id (skip_padding st inp)"
  by (simp add: skip_padding_def Let_def)

lemma continuation_handler [simp]:
  "ngx_http_v2_handle_continuation (st\<lparr>v2_handler := h\<rparr>) inp k = ngx_http_v2_handle_continuation st inp k"
  by (simp add: ngx_http_v2_handle_continuation_def skip_padding_handler frame_handler case_prod_beta)

lemma complete_handler [simp]: "ngx_http_v2_state_complete (st\<lparr>v2_handler := h\<rparr>) inp = ngx_http_v2_state_complete st inp"
  by (simp add: ngx_http_v2_state_complete_def)

lemma skip_handler [simp]: "ngx_http_v2_state_skip (st\<lparr>v2_handler := h\<rparr>) inp = ngx_http_v2_state_skip st inp"
  by (simp add: ngx_http_v2_state_skip_def handler_out)

lemma skip_padded_handler [simp]:
  "ngx_http_v2_state_skip_padded (st\<lparr>v2_handler := h\<rparr>) inp = ngx_http_v2_state_skip_padded st inp"
  by (simp add: ngx_http_v2_state_skip_padded_def handler_out)

lemma header_complete_handler [simp]:
  "ngx_http_v2_state_header_complete (st\<lparr>v2_handler := h\<rparr>) inp = ngx_http_v2_state_header_complete st inp"
  by (cases "v2_stream st") (simp_all add: ngx_http_v2_state_header_complete_def Let_def handler_out)

lemma deliver_header_handler [simp]: "deliver_header env (st\<lparr>v2_handler := h\<rparr>) inp = deliver_header env st inp"
  by (auto simp: deliver_header_def Let_def handler_out split: prod.split option.split header_outcome.split)

lemma process_value_handler [simp]: "process_value env (st\<lparr>v2_handler := h\<rparr>) inp = process_value env st inp"
  by (simp add: process_value_def handler_out)

lemma take_field_handler:
  "take_field (st\<lparr>v2_handler := h\<rparr>) inp = (case take_field st inp of (piece, s, inp') \<Rightarrow> (piece, s\<lparr>v2_handler := h\<rparr>, inp'))"
  by (simp add: take_field_def Let_def)

lemma field_more_handler [simp]: "field_more (st\<lparr>v2_handler := h\<rparr>) inp k = field_more st inp k"
  by (simp add: field_more_def)

lemma fields_handler:
  assumes pr: "\<And>st inp h. v2_parse_name st = b \<Longrightarrow>
      ngx_http_v2_state_process_header env (st\<lparr>v2_handler := h\<rparr>) inp = ngx_http_v2_state_process_header env st inp"
    and b: "v2_parse_name st = b"
  shows "ngx_http_v2_state_field_huff env (st\<lparr>v2_handler := h\<rparr>) inp = ngx_http_v2_state_field_huff env st inp"
    and "ngx_http_v2_state_field_raw env (st\<lparr>v2_handler := h\<rparr>) inp = ngx_http_v2_state_field_raw env st inp"
    and "ngx_http_v2_state_field_skip env (st\<lparr>v2_handler := h\<rparr>) inp = ngx_http_v2_state_field_skip env st inp"
proof -
  obtain piece st' inp' where t: "take_field st inp = (piece, st', inp')" by (cases "take_field st inp")
  have n: "v2_parse_name st' = b" using parse_name_take_field [OF t [symmetric]] b by simp
  show "ngx_http_v2_state_field_huff env (st\<lparr>v2_handler := h\<rparr>) inp = ngx_http_v2_state_field_huff env st inp"
    using n by (auto simp: ngx_http_v2_state_field_huff.simps take_field_handler t Let_def handler_out pr split: prod.split)
  show "ngx_http_v2_state_field_raw env (st\<lparr>v2_handler := h\<rparr>) inp = ngx_http_v2_state_field_raw env st inp"
    using n by (simp add: ngx_http_v2_state_field_raw.simps take_field_handler t Let_def handler_out pr)
  show "ngx_http_v2_state_field_skip env (st\<lparr>v2_handler := h\<rparr>) inp = ngx_http_v2_state_field_skip env st inp"
    using n by (simp add: ngx_http_v2_state_field_skip.simps take_field_handler t pr)
qed

lemma field_len_handler:
  assumes pr: "\<And>st inp h. v2_parse_name st = b \<Longrightarrow>
      ngx_http_v2_state_process_header env (st\<lparr>v2_handler := h\<rparr>) inp = ngx_http_v2_state_process_header env st inp"
    and b: "v2_parse_name st = b"
  shows "ngx_http_v2_state_field_len env (st\<lparr>v2_handler := h\<rparr>) inp = ngx_http_v2_state_field_len env st inp"
  using b by (simp add: ngx_http_v2_state_field_len.simps Let_def handler_out fields_handler [OF pr] split: parse_int.split)

lemma process_header_handler [simp]:
  "ngx_http_v2_state_process_header env (st\<lparr>v2_handler := h\<rparr>) inp = ngx_http_v2_state_process_header env st inp"
proof -
  have v: "ngx_http_v2_state_process_header env (st\<lparr>v2_handler := h\<rparr>) inp = ngx_http_v2_state_process_header env st inp"
    if "v2_parse_name st = False" for st :: "'a h2_state" and inp h
    using that by (simp add: ngx_http_v2_state_process_header.simps)
  have "ngx_http_v2_state_field_len env (st\<lparr>v2_handler := h\<rparr>) inp = ngx_http_v2_state_field_len env st inp"
    if "v2_parse_name st = False" for st :: "'a h2_state" and inp h
    by (rule field_len_handler [OF v that])
  then show ?thesis using v
    by (cases "v2_parse_name st") (simp_all add: ngx_http_v2_state_process_header.simps handler_out)
qed

lemmas handlers_handler [simp] =
  field_len_handler [OF process_header_handler refl] fields_handler [OF process_header_handler refl]


section \<open>Input in pieces\<close>

text \<open>
  When the block is done, the length is of no use any more: after padding it depends on how the
  padding arrived.
\<close>

definition settle :: "'r h2_result \<Rightarrow> 'r h2_result" where
  "settle res =
     (case res of
        H2_error e \<Rightarrow> H2_error e
      | H2_next st inp \<Rightarrow> if v2_handler st = V2_head then H2_next (st\<lparr>v2_length := 0\<rparr>) inp else res)"

text \<open>
  What a handler did with the beginning of the input against what it does with all of it: the
  same error; or the same state and what is left is longer; or it has kept its input, and the
  handler it has set does with that and what follows what it would have done itself.
\<close>

definition resumes :: "'r h2_env \<Rightarrow> bytes \<Rightarrow> 'r h2_result \<Rightarrow> 'r h2_result \<Rightarrow> bool" where
  "resumes env b res whole \<longleftrightarrow>
     (case res of
        H2_error e \<Rightarrow> whole = H2_error e
      | H2_next st inp \<Rightarrow>
          v2_buffer st = [] \<and> settle whole = settle (H2_next st (inp @ b))
          \<or> inp = [] \<and> v2_handler st \<noteq> V2_head
            \<and> settle whole = settle (h2_handle env (st\<lparr>v2_buffer := []\<rparr>) (v2_buffer st @ b)))"

lemma resumes_error [simp]: "resumes env b (H2_error e) (H2_error e)"
  by (simp add: resumes_def)

lemma resumes_next [simp]: "v2_buffer st = [] \<Longrightarrow> inp' = inp @ b \<Longrightarrow> resumes env b (H2_next st inp) (H2_next st inp')"
  by (simp add: resumes_def)

lemma buffer_id: "v2_buffer st = [] \<Longrightarrow> st\<lparr>v2_buffer := []\<rparr> = st"
  by simp

lemma resumes_save:
  assumes "length inp \<le> 16" "h \<noteq> V2_head" "v2_buffer st = []"
    and "settle whole = settle (h2_handle env (st\<lparr>v2_handler := h\<rparr>) (inp @ b))"
  shows "resumes env b (ngx_http_v2_state_save st inp h) whole"
  using assms by (simp add: resumes_def ngx_http_v2_state_save_def buffer_id)

text \<open>Padding and frame headers.\<close>

lemma skip_padding_state: "skip_padding st inp = (st1, inp1) \<Longrightarrow> st1 = st\<lparr>v2_padding := v2_padding st1\<rparr>"
  by (auto simp: skip_padding_def Let_def split: if_splits)

lemma skip_padding_long:
  "skip_padding st inp = (st1, inp1) \<Longrightarrow> length inp1 > v2_length st \<Longrightarrow> v2_padding st1 = 0"
  by (auto simp: skip_padding_def Let_def split: if_splits)

lemma skip_padding_more:
  assumes s: "skip_padding st inp = (st1, inp1)" and b: "b \<noteq> []"
  shows "skip_padding st (inp @ b) = skip_padding st1 (inp1 @ b)"
proof (cases "v2_padding st > 0 \<and> length inp > v2_length st")
  case False
  then have e: "st1 = st" "inp1 = inp" using s by (auto simp: skip_padding_def)
  show ?thesis unfolding e ..
next
  case True
  let ?l = "v2_length st" and ?p = "v2_padding st"
  let ?s = "min ?p (length inp - ?l)"
  have e: "st1 = st\<lparr>v2_padding := ?p - ?s\<rparr>" "inp1 = take ?l inp @ drop (?l + ?s) inp"
    using s True by (auto simp: skip_padding_def Let_def)
  have w: "skip_padding st (inp @ b) = (st\<lparr>v2_padding := ?p - min ?p (length inp + length b - ?l)\<rparr>,
      take ?l inp @ drop (?l + min ?p (length inp + length b - ?l)) (inp @ b))"
    using True by (simp add: skip_padding_def Let_def)
  show ?thesis
  proof (cases "?p \<le> length inp - ?l")
    case True
    then have m: "?s = ?p" "min ?p (length inp + length b - ?l) = ?p" by simp_all
    then have "v2_padding st1 = 0" using e(1) by simp
    then have "skip_padding st1 (inp1 @ b) = (st1, inp1 @ b)" by (simp add: skip_padding_def)
    moreover have "?l + ?p \<le> length inp" using True \<open>v2_padding st > 0 \<and> length inp > v2_length st\<close> by linarith
    ultimately show ?thesis unfolding w m(2) using e m(1) by simp
  next
    case F: False
    then have m: "?s = length inp - ?l" by simp
    have i: "inp1 = take ?l inp" "length inp1 = ?l" using e(2) m True by simp_all
    have pd: "v2_padding st1 = ?p - (length inp - ?l)" "v2_length st1 = ?l" using e(1) m by simp_all
    let ?t = "min (?p - (length inp - ?l)) (length b)"
    have "skip_padding st1 (inp1 @ b) = (st1\<lparr>v2_padding := v2_padding st1 - ?t\<rparr>, take ?l inp @ drop ?t b)"
      using F b i pd by (simp add: skip_padding_def Let_def)
    moreover have "min ?p (length inp + length b - ?l) = length inp - ?l + ?t" using True F by linarith
    moreover have "?l + (length inp - ?l + ?t) = length inp + ?t" using True by linarith
    ultimately show ?thesis unfolding w using e(1) pd by simp
  qed
qed

lemma continuation_resumes:
  assumes len: "v2_length st < 4" and buf: "v2_buffer st = []" and h: "h \<noteq> V2_head" and b: "b \<noteq> []"
    and again: "\<And>p i. i \<noteq> [] \<Longrightarrow> h2_handle env (st\<lparr>v2_padding := p, v2_handler := h\<rparr>) i
      = ngx_http_v2_handle_continuation (st\<lparr>v2_padding := p\<rparr>) i h"
  shows "resumes env b (ngx_http_v2_handle_continuation st inp h) (ngx_http_v2_handle_continuation st (inp @ b) h)"
proof -
  obtain st1 inp1 where s: "skip_padding st inp = (st1, inp1)" by (cases "skip_padding st inp")
  have st1: "st1 = st\<lparr>v2_padding := v2_padding st1\<rparr>" by (rule skip_padding_state [OF s])
  have f: "v2_length st1 = v2_length st" "v2_buffer st1 = []" using buf by (subst st1, simp)+
  have w: "ngx_http_v2_handle_continuation st (inp @ b) h = ngx_http_v2_handle_continuation st1 (inp1 @ b) h"
    by (simp add: ngx_http_v2_handle_continuation_def skip_padding_more [OF s b])
  have p: "ngx_http_v2_handle_continuation st inp h = continuation_frame st1 inp1 h"
    by (simp add: ngx_http_v2_handle_continuation_def s)
  show ?thesis
  proof (cases "length inp1 < v2_length st + 9")
    case True
    have "h2_handle env (st1\<lparr>v2_handler := h\<rparr>) (inp1 @ b) = ngx_http_v2_handle_continuation st1 (inp1 @ b) h"
      using again [of "inp1 @ b" "v2_padding st1"] b unfolding st1 [symmetric] by simp
    then have "resumes env b (ngx_http_v2_state_save st1 inp1 h) (ngx_http_v2_handle_continuation st (inp @ b) h)"
      unfolding w using True len f(2) h by (intro resumes_save) simp_all
    then show ?thesis unfolding p continuation_frame_def using True f by simp
  next
    case False
    then have "v2_padding st1 = 0" using skip_padding_long [OF s] by simp
    then have "skip_padding st1 (inp1 @ b) = (st1, inp1 @ b)" by (simp add: skip_padding_def)
    then have c: "ngx_http_v2_handle_continuation st (inp @ b) h = continuation_frame st1 (inp1 @ b) h"
      unfolding w by (simp add: ngx_http_v2_handle_continuation_def)
    have t: "take 9 (drop (v2_length st) (inp1 @ b)) = take 9 (drop (v2_length st) inp1)" using False by simp
    have d: "take (v2_length st) (inp1 @ b) @ drop (v2_length st + 9) (inp1 @ b)
        = (take (v2_length st) inp1 @ drop (v2_length st + 9) inp1) @ b" using False by simp
    show ?thesis
      unfolding p c continuation_frame_def Let_def f t d using False f(2) by simp
  qed
qed

text \<open>The end of a header, and the end of the block.\<close>

lemma settle_complete:
  "settle (ngx_http_v2_state_complete (st\<lparr>v2_length := a\<rparr>) inp) = settle (ngx_http_v2_state_complete st inp)"
  by (simp add: settle_def ngx_http_v2_state_complete_def)

lemma skip_resumes:
  assumes "v2_buffer st = []"
  shows "resumes env b (ngx_http_v2_state_skip st inp) (ngx_http_v2_state_skip st (inp @ b))"
proof (cases "length inp < v2_length st")
  case True
  let ?st = "st\<lparr>v2_length := v2_length st - length inp\<rparr>"
  have h: "h2_handle env (?st\<lparr>v2_handler := V2_skip\<rparr>) ([] @ b) = ngx_http_v2_state_skip ?st b" by (simp add: h2_handle_def)
  have "settle (ngx_http_v2_state_skip st (inp @ b)) = settle (ngx_http_v2_state_skip ?st b)"
  proof (cases "length inp + length b < v2_length st")
    case True
    then have "length b < v2_length st - length inp" by linarith
    moreover have "v2_length st - length inp - length b = v2_length st - (length inp + length b)" by simp
    ultimately show ?thesis using True by (simp add: ngx_http_v2_state_skip_def)
  next
    case False
    then have "\<not> length b < v2_length st - length inp" by linarith
    then show ?thesis using False True by (simp add: ngx_http_v2_state_skip_def settle_complete)
  qed
  then have "resumes env b (ngx_http_v2_state_save ?st [] V2_skip) (ngx_http_v2_state_skip st (inp @ b))"
    using assms h by (intro resumes_save) simp_all
  then show ?thesis using True by (simp add: ngx_http_v2_state_skip_def)
next
  case False
  then show ?thesis using assms by (simp add: ngx_http_v2_state_skip_def ngx_http_v2_state_complete_def)
qed

lemma header_complete_resumes:
  assumes "v2_buffer st = []" "b \<noteq> []"
  shows "resumes env b (ngx_http_v2_state_header_complete st inp) (ngx_http_v2_state_header_complete st (inp @ b))"
proof -
  consider (header) "v2_length st > 0" | (frame) "v2_length st = 0" "\<not> end_headers st"
    | (fin) "v2_length st = 0" "end_headers st" by auto
  then show ?thesis
  proof cases
    case header
    then show ?thesis using assms by (simp add: ngx_http_v2_state_header_complete_def)
  next
    case frame
    have "h2_handle env (st\<lparr>v2_padding := p, v2_handler := V2_header_complete\<rparr>) i
        = ngx_http_v2_handle_continuation (st\<lparr>v2_padding := p\<rparr>) i V2_header_complete" for p i
      using frame by (simp add: h2_handle_def ngx_http_v2_state_header_complete_def end_headers_def)
    then have "resumes env b (ngx_http_v2_handle_continuation st inp V2_header_complete)
        (ngx_http_v2_handle_continuation st (inp @ b) V2_header_complete)"
      using frame(1) assms by (intro continuation_resumes) simp_all
    then show ?thesis using frame by (simp add: ngx_http_v2_state_header_complete_def)
  next
    case fin
    let ?st = "case v2_stream st of None \<Rightarrow> st | Some r \<Rightarrow> st\<lparr>v2_run := v2_run st @ [r]\<rparr>"
    have buf: "v2_buffer ?st = []" using assms by (cases "v2_stream st") simp_all
    show ?thesis
    proof (cases "v2_padding ?st > 0")
      case True
      then show ?thesis using fin buf
        by (simp add: ngx_http_v2_state_header_complete_def Let_def ngx_http_v2_state_skip_padded_def skip_resumes)
    next
      case False
      then show ?thesis using fin buf
        by (simp add: ngx_http_v2_state_header_complete_def Let_def ngx_http_v2_state_complete_def)
    qed
  qed
qed

lemma deliver_header_resumes:
  assumes "v2_buffer st = []" "b \<noteq> []"
  shows "resumes env b (deliver_header env st inp) (deliver_header env st (inp @ b))"
  unfolding deliver_header_def Let_def
  using assms by (auto simp: header_complete_resumes split: prod.split option.split header_outcome.split)

lemma process_value_resumes:
  assumes "v2_buffer st = []" "b \<noteq> []"
  shows "resumes env b (process_value env st inp) (process_value env st (inp @ b))"
  using assms by (simp add: process_value_def deliver_header_resumes)


text \<open>The fields.\<close>

lemma take_field_more:
  assumes "take_field st inp = (piece, st1, inp1)" "min (v2_field_rest st) (v2_length st) \<le> length inp"
  shows "take_field st (inp @ b) = (piece, st1, inp1 @ b)" and "v2_field_rest st1 = 0 \<or> v2_length st1 = 0"
  using assms by (auto simp: take_field_def Let_def min_def split: if_splits)

lemma take_field_part:
  assumes "\<not> min (v2_field_rest st) (v2_length st) \<le> length inp"
  shows "\<exists>st1. take_field st inp = (inp, st1, []) \<and> v2_field_rest st1 > 0 \<and> v2_length st1 > 0
    \<and> (\<forall>b. take_field st (inp @ b) = (case take_field st1 b of (piece, st2, r) \<Rightarrow> (inp @ piece, st2, r)))"
proof -
  let ?n = "length inp"
  let ?st1 = "st\<lparr>v2_length := v2_length st - ?n, v2_field_rest := v2_field_rest st - ?n\<rparr>"
  have n: "min (min ?n (v2_field_rest st)) (v2_length st) = ?n" using assms by linarith
  have t: "take_field st inp = (inp, ?st1, [])" by (simp add: take_field_def Let_def n)
  have "take_field st (inp @ b) = (case take_field ?st1 b of (piece, st2, r) \<Rightarrow> (inp @ piece, st2, r))" for b
  proof -
    define k where "k = min (min (length b) (v2_field_rest st - ?n)) (v2_length st - ?n)"
    have m: "min (min (?n + length b) (v2_field_rest st)) (v2_length st) = ?n + k" using assms unfolding k_def by linarith
    have a: "take_field st (inp @ b) = (take (?n + k) (inp @ b),
        st\<lparr>v2_length := v2_length st - (?n + k), v2_field_rest := v2_field_rest st - (?n + k)\<rparr>, drop (?n + k) (inp @ b))"
      by (simp only: take_field_def Let_def length_append m)
    have c: "take_field ?st1 b = (take k b,
        ?st1\<lparr>v2_length := v2_length st - ?n - k, v2_field_rest := v2_field_rest st - ?n - k\<rparr>, drop k b)"
      unfolding take_field_def Let_def k_def by simp
    have "v2_length st - (?n + k) = v2_length st - ?n - k" "v2_field_rest st - (?n + k) = v2_field_rest st - ?n - k"
      by linarith+
    then show ?thesis unfolding a c by simp
  qed
  moreover have "v2_field_rest ?st1 > 0 \<and> v2_length ?st1 > 0" using assms by simp linarith
  ultimately show ?thesis using t by blast
qed

lemma take_field_keeps:
  assumes "take_field st inp = (piece, st1, inp1)"
  shows "v2_field st1 = v2_field st" "v2_buffer st1 = v2_buffer st" "v2_field_state st1 = v2_field_state st"
    "end_headers st1 = end_headers st" "v2_parse_name st1 = v2_parse_name st"
    "take_field (st\<lparr>v2_field := x\<rparr>) inp = (piece, st1\<lparr>v2_field := x\<rparr>, inp1)"
    "take_field (st\<lparr>v2_field_state := y, v2_field := x\<rparr>) inp = (piece, st1\<lparr>v2_field_state := y, v2_field := x\<rparr>, inp1)"
    "length piece = min (min (length inp) (v2_field_rest st)) (v2_length st)"
  using assms by (auto simp: take_field_def Let_def end_headers_def)

text \<open>A field that has stopped at the end of its frame.\<close>

lemma field_more_resumes:
  assumes "v2_length st = 0" "v2_buffer st = []" "b \<noteq> []" "h \<noteq> V2_head"
    and again: "\<And>p i. i \<noteq> [] \<Longrightarrow> \<not> end_headers st \<Longrightarrow> h2_handle env (st\<lparr>v2_padding := p, v2_handler := h\<rparr>) i
      = ngx_http_v2_handle_continuation (st\<lparr>v2_padding := p\<rparr>) i h"
  shows "resumes env b (field_more st inp h) (field_more st (inp @ b) h)"
  using assms continuation_resumes [of st h b env inp] by (simp add: field_more_def)

lemma take_field_stuck: "v2_length st = 0 \<Longrightarrow> take_field st inp = ([], st, inp)"
  by (simp add: take_field_def Let_def)

lemma fields_again:
  assumes "v2_length st = 0" "v2_field_rest st \<noteq> 0" "\<not> end_headers st"
  shows "ngx_http_v2_state_field_raw env st i = ngx_http_v2_handle_continuation st i V2_field_raw"
    and "ngx_http_v2_state_field_skip env st i = ngx_http_v2_handle_continuation st i V2_field_skip"
    and "ngx_http_v2_state_field_huff env st i = ngx_http_v2_handle_continuation st i V2_field_huff"
  using assms
  by (simp_all add: ngx_http_v2_state_field_raw.simps ngx_http_v2_state_field_skip.simps ngx_http_v2_state_field_huff.simps
      take_field_stuck field_more_def ngx_http_v2_huff_decode_def Let_def)

lemma raw_resumes:
  assumes pr: "\<And>st inp. v2_parse_name st = nm \<Longrightarrow> v2_buffer st = [] \<Longrightarrow>
      resumes env b (ngx_http_v2_state_process_header env st inp) (ngx_http_v2_state_process_header env st (inp @ b))"
    and st: "v2_parse_name st = nm" "v2_buffer st = []" and b: "b \<noteq> []"
  shows "resumes env b (ngx_http_v2_state_field_raw env st inp) (ngx_http_v2_state_field_raw env st (inp @ b))"
proof (cases "min (v2_field_rest st) (v2_length st) \<le> length inp")
  case True
  obtain piece st1 inp1 where t: "take_field st inp = (piece, st1, inp1)" by (cases "take_field st inp")
  note k = take_field_keeps [OF t] and m = take_field_more(1) [OF t True, of b] take_field_more(2) [OF t True]
  let ?st = "st1\<lparr>v2_field := v2_field st1 @ piece\<rparr>"
  have f: "ngx_http_v2_state_field_raw env st i = (if v2_field_rest st1 = 0 then ngx_http_v2_state_process_header env ?st i'
      else field_more ?st i' V2_field_raw)" if "take_field st i = (piece, st1, i')" for i i'
    using that by (simp add: ngx_http_v2_state_field_raw.simps Let_def)
  show ?thesis
  proof (cases "v2_field_rest st1 = 0")
    case True
    then show ?thesis unfolding f [OF t] f [OF m(1)] using pr [of ?st inp1] k(2,5) st by simp
  next
    case False
    then have l: "v2_length st1 = 0" using m(2) by simp
    have "h2_handle env (?st\<lparr>v2_padding := p, v2_handler := V2_field_raw\<rparr>) i
        = ngx_http_v2_handle_continuation (?st\<lparr>v2_padding := p\<rparr>) i V2_field_raw" if "\<not> end_headers ?st" for p i
      using that False l
      by (simp add: h2_handle_def fields_again end_headers_def)
    then have "resumes env b (field_more ?st inp1 V2_field_raw) (field_more ?st (inp1 @ b) V2_field_raw)"
      using l k(2) st(2) b by (intro field_more_resumes) simp_all
    then show ?thesis unfolding f [OF t] f [OF m(1)] using False by simp
  qed
next
  case False
  obtain st1 where t: "take_field st inp = (inp, st1, [])" and r: "v2_field_rest st1 > 0" "v2_length st1 > 0"
    and w: "take_field st (inp @ b) = (case take_field st1 b of (piece, st2, r) \<Rightarrow> (inp @ piece, st2, r))"
    using take_field_part [OF False] by blast
  let ?st = "st1\<lparr>v2_field := v2_field st @ inp\<rparr>"
  obtain piece st2 rest where t2: "take_field st1 b = (piece, st2, rest)" by (cases "take_field st1 b")
  note k = take_field_keeps [OF t] and k2 = take_field_keeps [OF t2]
  have "ngx_http_v2_state_field_raw env st (inp @ b) = ngx_http_v2_state_field_raw env ?st b"
    using k(1) k2(1,6) by (simp add: ngx_http_v2_state_field_raw.simps w t2 Let_def)
  then have "resumes env b (ngx_http_v2_state_save ?st [] V2_field_raw) (ngx_http_v2_state_field_raw env st (inp @ b))"
    using k(2) st(2) by (intro resumes_save) (simp_all add: h2_handle_def)
  then show ?thesis using t r k(1) by (simp add: ngx_http_v2_state_field_raw.simps field_more_def Let_def)
qed

lemma skip_field_resumes:
  assumes pr: "\<And>st inp. v2_parse_name st = nm \<Longrightarrow> v2_buffer st = [] \<Longrightarrow>
      resumes env b (ngx_http_v2_state_process_header env st inp) (ngx_http_v2_state_process_header env st (inp @ b))"
    and st: "v2_parse_name st = nm" "v2_buffer st = []" and b: "b \<noteq> []"
  shows "resumes env b (ngx_http_v2_state_field_skip env st inp) (ngx_http_v2_state_field_skip env st (inp @ b))"
proof (cases "min (v2_field_rest st) (v2_length st) \<le> length inp")
  case True
  obtain piece st1 inp1 where t: "take_field st inp = (piece, st1, inp1)" by (cases "take_field st inp")
  note k = take_field_keeps [OF t] and m = take_field_more(1) [OF t True, of b] take_field_more(2) [OF t True]
  have f: "ngx_http_v2_state_field_skip env st i = (if v2_field_rest st1 = 0 then ngx_http_v2_state_process_header env st1 i'
      else field_more st1 i' V2_field_skip)" if "take_field st i = (piece, st1, i')" for i i'
    using that by (simp add: ngx_http_v2_state_field_skip.simps)
  show ?thesis
  proof (cases "v2_field_rest st1 = 0")
    case True
    then show ?thesis unfolding f [OF t] f [OF m(1)] using pr [of st1 inp1] k(2,5) st by simp
  next
    case False
    then have l: "v2_length st1 = 0" using m(2) by simp
    have "h2_handle env (st1\<lparr>v2_padding := p, v2_handler := V2_field_skip\<rparr>) i
        = ngx_http_v2_handle_continuation (st1\<lparr>v2_padding := p\<rparr>) i V2_field_skip" if "\<not> end_headers st1" for p i
      using that False l
      by (simp add: h2_handle_def fields_again end_headers_def)
    then have "resumes env b (field_more st1 inp1 V2_field_skip) (field_more st1 (inp1 @ b) V2_field_skip)"
      using l k(2) st(2) b by (intro field_more_resumes) simp_all
    then show ?thesis unfolding f [OF t] f [OF m(1)] using False by simp
  qed
next
  case False
  obtain st1 where t: "take_field st inp = (inp, st1, [])" and r: "v2_field_rest st1 > 0" "v2_length st1 > 0"
    and w: "take_field st (inp @ b) = (case take_field st1 b of (piece, st2, r) \<Rightarrow> (inp @ piece, st2, r))"
    using take_field_part [OF False] by blast
  obtain piece st2 rest where t2: "take_field st1 b = (piece, st2, rest)" by (cases "take_field st1 b")
  note k = take_field_keeps [OF t]
  have "ngx_http_v2_state_field_skip env st (inp @ b) = ngx_http_v2_state_field_skip env st1 b"
    by (simp add: ngx_http_v2_state_field_skip.simps w t2)
  then have "resumes env b (ngx_http_v2_state_save st1 [] V2_field_skip) (ngx_http_v2_state_field_skip env st (inp @ b))"
    using k(2) st(2) by (intro resumes_save) (simp_all add: h2_handle_def)
  then show ?thesis using t r by (simp add: ngx_http_v2_state_field_skip.simps field_more_def)
qed

lemma huff_resumes:
  assumes pr: "\<And>st inp. v2_parse_name st = nm \<Longrightarrow> v2_buffer st = [] \<Longrightarrow>
      resumes env b (ngx_http_v2_state_process_header env st inp) (ngx_http_v2_state_process_header env st (inp @ b))"
    and st: "v2_parse_name st = nm" "v2_buffer st = []" and b: "b \<noteq> []"
  shows "resumes env b (ngx_http_v2_state_field_huff env st inp) (ngx_http_v2_state_field_huff env st (inp @ b))"
proof (cases "min (v2_field_rest st) (v2_length st) \<le> length inp")
  case True
  obtain piece st1 inp1 where t: "take_field st inp = (piece, st1, inp1)" by (cases "take_field st inp")
  note k = take_field_keeps [OF t] and m = take_field_more(1) [OF t True, of b] take_field_more(2) [OF t True]
  obtain rc fs out where d: "ngx_http_v2_huff_decode (v2_field_state st1) piece (v2_field_rest st1 = 0) = (rc, fs, out)"
    by (cases "ngx_http_v2_huff_decode (v2_field_state st1) piece (v2_field_rest st1 = 0)")
  let ?st = "st1\<lparr>v2_field_state := fs, v2_field := v2_field st1 @ out\<rparr>"
  have f: "ngx_http_v2_state_field_huff env st i =
      (if rc \<noteq> NGX_OK then H2_error NGX_HTTP_V2_COMP_ERROR
       else if v2_field_rest st1 = 0 then ngx_http_v2_state_process_header env ?st i'
       else field_more ?st i' V2_field_huff)" if "take_field st i = (piece, st1, i')" for i i'
    unfolding ngx_http_v2_state_field_huff.simps that prod.case d by simp
  show ?thesis
  proof (cases "v2_field_rest st1 = 0")
    case True
    then show ?thesis unfolding f [OF t] f [OF m(1)] using pr [of ?st inp1] k(2,5) st by simp
  next
    case False
    then have l: "v2_length st1 = 0" using m(2) by simp
    have "h2_handle env (?st\<lparr>v2_padding := p, v2_handler := V2_field_huff\<rparr>) i
        = ngx_http_v2_handle_continuation (?st\<lparr>v2_padding := p\<rparr>) i V2_field_huff" if "\<not> end_headers ?st" for p i
      using that False l by (simp add: h2_handle_def fields_again end_headers_def)
    then have "resumes env b (field_more ?st inp1 V2_field_huff) (field_more ?st (inp1 @ b) V2_field_huff)"
      using l k(2) st(2) b by (intro field_more_resumes) simp_all
    then show ?thesis unfolding f [OF t] f [OF m(1)] using False by simp
  qed
next
  case False
  obtain st1 where t: "take_field st inp = (inp, st1, [])" and r: "v2_field_rest st1 > 0" "v2_length st1 > 0"
    and w: "take_field st (inp @ b) = (case take_field st1 b of (piece, st2, r) \<Rightarrow> (inp @ piece, st2, r))"
    using take_field_part [OF False] by blast
  obtain rc fs out where d: "ngx_http_v2_huff_decode (v2_field_state st) inp False = (rc, fs, out)"
    by (cases "ngx_http_v2_huff_decode (v2_field_state st) inp False")
  let ?st = "st1\<lparr>v2_field_state := fs, v2_field := v2_field st @ out\<rparr>"
  obtain piece st2 rest where t2: "take_field st1 b = (piece, st2, rest)" by (cases "take_field st1 b")
  note k = take_field_keeps [OF t] and k2 = take_field_keeps [OF t2]
  have "piece \<noteq> []" using k2(8) r b by (auto simp: min_def split: if_splits)
  then obtain c cs where piece: "piece = c # cs" by (cases piece) auto
  let ?fin = "v2_field_rest st2 = 0"
  have e: "ngx_http_v2_state_field_huff env st inp = (if rc \<noteq> NGX_OK then H2_error NGX_HTTP_V2_COMP_ERROR
      else ngx_http_v2_state_save ?st [] V2_field_huff)"
    using t r d k(1,3) by (simp add: ngx_http_v2_state_field_huff.simps field_more_def Let_def)
  have whole: "ngx_http_v2_state_field_huff env st (inp @ b) =
      (case ngx_http_v2_huff_decode (v2_field_state st) (inp @ piece) ?fin of
         (rc', fs', out') \<Rightarrow>
           if rc' \<noteq> NGX_OK then H2_error NGX_HTTP_V2_COMP_ERROR
           else let s = st2\<lparr>v2_field_state := fs', v2_field := v2_field st @ out'\<rparr> in
             if v2_field_rest s = 0 then ngx_http_v2_state_process_header env s rest else field_more s rest V2_field_huff)"
  proof -
    have e2: "v2_field st2 = v2_field st" "v2_field_state st2 = v2_field_state st" using k(1,3) k2(1,3) by simp_all
    show ?thesis unfolding ngx_http_v2_state_field_huff.simps w t2 prod.case e2 ..
  qed
  show ?thesis
  proof (cases "rc = NGX_OK")
    case True
    obtain rc' fs' out' where d2: "ngx_http_v2_huff_decode fs piece ?fin = (rc', fs', out')"
      by (cases "ngx_http_v2_huff_decode fs piece ?fin")
    have d3: "ngx_http_v2_huff_decode (v2_field_state st) (inp @ piece) ?fin = (rc', fs', out @ out')"
      using decode_pieces [of "v2_field_state st" inp c cs ?fin] d d2 True piece by simp
    have "ngx_http_v2_state_field_huff env ?st b =
      (if rc' \<noteq> NGX_OK then H2_error NGX_HTTP_V2_COMP_ERROR
       else let s = st2\<lparr>v2_field_state := fs', v2_field := v2_field st @ out @ out'\<rparr> in
         if v2_field_rest s = 0 then ngx_http_v2_state_process_header env s rest else field_more s rest V2_field_huff)"
      unfolding ngx_http_v2_state_field_huff.simps k2(7) prod.case using d2 by (simp add: Let_def)
    then have "ngx_http_v2_state_field_huff env ?st b = ngx_http_v2_state_field_huff env st (inp @ b)"
      unfolding whole d3 by simp
    then have "resumes env b (ngx_http_v2_state_save ?st [] V2_field_huff) (ngx_http_v2_state_field_huff env st (inp @ b))"
      using k(2) st(2) by (intro resumes_save) (simp_all add: h2_handle_def)
    then show ?thesis using e True by simp
  next
    case False
    then have "fst (ngx_http_v2_huff_decode (v2_field_state st) (inp @ piece) ?fin) \<noteq> NGX_OK"
      using decode_pieces [of "v2_field_state st" inp c cs ?fin] d piece by simp
    then show ?thesis using e False
      by (cases "ngx_http_v2_huff_decode (v2_field_state st) (inp @ piece) ?fin") (simp add: whole)
  qed
qed


text \<open>Integers.\<close>

lemma parse_int_loop_Some_more:
  "parse_int_loop used shift v os = Some r \<Longrightarrow> parse_int_loop used shift v (os @ b) = Some r"
  by (induction used shift v os rule: parse_int_loop.induct) (auto simp: Let_def split: if_splits)

lemma parse_int_loop_None_more:
  "parse_int_loop used shift v os = None \<Longrightarrow> parse_int_loop used shift v (os @ b) = Some (v', used') \<Longrightarrow>
   used + length os < used'"
proof (induction used shift v os rule: parse_int_loop.induct)
  case (1 used shift v)
  have "parse_int_loop used shift v b = Some (v', used') \<Longrightarrow> used < used'" for used shift v
    by (induction used shift v b rule: parse_int_loop.induct) (auto simp: Let_def split: if_splits)
  then show ?case using 1 by simp
next
  case (2 used shift v octet octets)
  then show ?case by (auto simp: Let_def split: if_splits)
qed

lemma parse_int_loop_used:
  "parse_int_loop used shift v os = Some (v', used') \<Longrightarrow> used' \<le> used + length os"
  by (induction used shift v os rule: parse_int_loop.induct) (auto simp: Let_def split: if_splits)

lemma parse_int_more:
  assumes "inp \<noteq> []"
  shows "case ngx_http_v2_parse_int len inp prefix of
      PI_value v l rest \<Rightarrow> ngx_http_v2_parse_int len (inp @ b) prefix = PI_value v l (rest @ b)
    | PI_rc rc \<Rightarrow> if rc = NGX_AGAIN then length inp < 4 else ngx_http_v2_parse_int len (inp @ b) prefix = PI_rc rc"
proof -
  obtain c u where inp: "inp = c # u" using assms by (cases inp) auto
  show ?thesis
  proof (cases "unat c AND prefix = prefix")
    case False
    then show ?thesis by (simp add: inp ngx_http_v2_parse_int_def Let_def)
  next
    case True
    define fin where "fin r i = (case r of
          Some (v, used) \<Rightarrow> if used > len then PI_rc NGX_ERROR else PI_value v (len - used) (drop used i)
        | None \<Rightarrow>
            if min (length i) 4 \<ge> len then PI_rc NGX_ERROR
            else if min (length i) 4 = 4 then PI_rc NGX_DECLINED
            else PI_rc NGX_AGAIN)" for r and i :: bytes
    let ?r = "parse_int_loop 1 0 prefix (take 3 u)" and ?r' = "parse_int_loop 1 0 prefix (take 3 (u @ b))"
    have d: "drop 1 (take (min (length (c # t)) 4) (c # t)) = take 3 t" for t :: bytes by (simp add: min_def)
    have p: "ngx_http_v2_parse_int len (c # t) prefix = fin (parse_int_loop 1 0 prefix (take 3 t)) (c # t)" for t
      using True unfolding ngx_http_v2_parse_int_def Let_def d fin_def by simp
    have p1: "ngx_http_v2_parse_int len inp prefix = fin ?r inp" using p [of u] inp by simp
    have p2: "ngx_http_v2_parse_int len (inp @ b) prefix = fin ?r' (inp @ b)" using p [of "u @ b"] inp by simp
    obtain b' where tb: "take 3 (u @ b) = take 3 u @ b'" by simp
    show ?thesis
    proof (cases ?r)
      case (Some r)
      obtain v used where r: "r = (v, used)" by (cases r)
      have "?r' = Some (v, used)" unfolding tb using parse_int_loop_Some_more Some r by blast
      moreover have "used \<le> length inp" using parse_int_loop_used [OF Some [unfolded r]] by (simp add: inp)
      ultimately show ?thesis unfolding p1 p2 Some r fin_def by simp
    next
      case None
      show ?thesis
      proof (cases "length inp \<ge> 4")
        case True
        then have "take 3 (u @ b) = take 3 u" by (simp add: inp)
        then have "?r' = ?r" by (rule arg_cong)
        moreover have "min (length (inp @ b)) 4 = 4" "min (length inp) 4 = 4" using True by simp_all
        ultimately show ?thesis unfolding p1 p2 None fin_def by simp
      next
        case short: False
        then have e: "min (length inp) 4 = length inp" "take 3 u = u" by (simp_all add: inp)
        show ?thesis
        proof (cases "length inp \<ge> len")
          case True
          have "fin ?r' (inp @ b) = PI_rc NGX_ERROR"
          proof (cases ?r')
            case None
            have "min (length (inp @ b)) 4 \<ge> len" using True short by simp
            then show ?thesis unfolding None fin_def by simp
          next
            case (Some r)
            obtain v used where r: "r = (v, used)" by (cases r)
            have "1 + length (take 3 u) < used"
              using parse_int_loop_None_more [OF None, of b' v used] Some r tb by simp
            then have "used > len" using True e(2) by (simp add: inp)
            then show ?thesis unfolding Some r fin_def by simp
          qed
          then show ?thesis unfolding p1 p2 None using True e(1) by (simp add: fin_def)
        next
          case False
          then show ?thesis unfolding p1 None fin_def e(1) using short by simp
        qed
      qed
    qed
  qed
qed

lemma field_len_resumes:
  assumes pr: "\<And>st inp. v2_parse_name st = nm \<Longrightarrow> v2_buffer st = [] \<Longrightarrow>
      resumes env b (ngx_http_v2_state_process_header env st inp) (ngx_http_v2_state_process_header env st (inp @ b))"
    and st: "v2_parse_name st = nm" "v2_buffer st = []" and b: "b \<noteq> []"
  shows "resumes env b (ngx_http_v2_state_field_len env st inp) (ngx_http_v2_state_field_len env st (inp @ b))"
proof -
  consider (frame) "\<not> end_headers st \<and> v2_length st < 4"
    | (short) "\<not> (\<not> end_headers st \<and> v2_length st < 4)" "v2_length st < 1"
    | (none) "\<not> (\<not> end_headers st \<and> v2_length st < 4)" "\<not> v2_length st < 1" "inp = []"
    | (rc) rc where "\<not> (\<not> end_headers st \<and> v2_length st < 4)" "\<not> v2_length st < 1" "inp \<noteq> []"
        "ngx_http_v2_parse_int (v2_length st) inp (ngx_http_v2_prefix 7) = PI_rc rc"
    | (val) v l inp' where "\<not> (\<not> end_headers st \<and> v2_length st < 4)" "\<not> v2_length st < 1" "inp \<noteq> []"
        "ngx_http_v2_parse_int (v2_length st) inp (ngx_http_v2_prefix 7) = PI_value v l inp'"
    by (cases "ngx_http_v2_parse_int (v2_length st) inp (ngx_http_v2_prefix 7)"; blast)
  then show ?thesis
  proof cases
    case frame
    have "h2_handle env (st\<lparr>v2_padding := p, v2_handler := V2_field_len\<rparr>) i
        = ngx_http_v2_handle_continuation (st\<lparr>v2_padding := p\<rparr>) i V2_field_len" for p i
      using frame by (simp add: h2_handle_def ngx_http_v2_state_field_len.simps end_headers_def)
    then have "resumes env b (ngx_http_v2_handle_continuation st inp V2_field_len)
        (ngx_http_v2_handle_continuation st (inp @ b) V2_field_len)"
      using frame st b by (intro continuation_resumes) simp_all
    then show ?thesis using frame by (simp add: ngx_http_v2_state_field_len.simps)
  next
    case short
    then show ?thesis by (simp add: ngx_http_v2_state_field_len.simps)
  next
    case none
    have "resumes env b (ngx_http_v2_state_save st inp V2_field_len) (ngx_http_v2_state_field_len env st (inp @ b))"
      using none st by (intro resumes_save) (simp_all add: h2_handle_def)
    moreover have "ngx_http_v2_state_field_len env st inp = ngx_http_v2_state_save st inp V2_field_len"
      using none by (auto simp: ngx_http_v2_state_field_len.simps)
    ultimately show ?thesis by simp
  next
    case rc
    note m = parse_int_more [OF rc(3), where len = "v2_length st" and prefix = "ngx_http_v2_prefix 7" and b = b, unfolded rc(4) parse_int.case]
    show ?thesis
    proof (cases "rc = NGX_AGAIN")
      case True
      then have "resumes env b (ngx_http_v2_state_save st inp V2_field_len) (ngx_http_v2_state_field_len env st (inp @ b))"
        using m st by (intro resumes_save) (simp_all add: h2_handle_def)
      moreover have "ngx_http_v2_state_field_len env st inp = ngx_http_v2_state_save st inp V2_field_len"
        using rc True by (auto simp: ngx_http_v2_state_field_len.simps)
      ultimately show ?thesis by simp
    next
      case False
      then have "ngx_http_v2_parse_int (v2_length st) (inp @ b) (ngx_http_v2_prefix 7) = PI_rc rc" using m by simp
      then show ?thesis using rc False by (auto simp: ngx_http_v2_state_field_len.simps)
    qed
  next
    case val
    note m = parse_int_more [OF val(3), where len = "v2_length st" and prefix = "ngx_http_v2_prefix 7" and b = b, unfolded val(4) parse_int.case]
    have h: "hd (inp @ b) = hd inp" "inp @ b \<noteq> []" using val(3) by simp_all
    note r = raw_resumes [OF pr] skip_field_resumes [OF pr] huff_resumes [OF pr]
    have g: "(\<not> end_headers st \<and> v2_length st < 4) = False" "(v2_length st < 1) = False" "(inp = []) = False"
      using val by blast+
    show ?thesis
      unfolding ngx_http_v2_state_field_len.simps Let_def g h(1) val(4) m if_False parse_int.case
      using st b by (simp add: h(2) r)
  qed
qed

lemma process_header_resumes:
  assumes "v2_buffer st = []" and b: "b \<noteq> []"
  shows "resumes env b (ngx_http_v2_state_process_header env st inp) (ngx_http_v2_state_process_header env st (inp @ b))"
proof -
  have v: "resumes env b (ngx_http_v2_state_process_header env st inp) (ngx_http_v2_state_process_header env st (inp @ b))"
    if "v2_parse_name st = False" "v2_buffer st = []" for st :: "'a h2_state" and inp
    using that b process_value_resumes by (simp add: ngx_http_v2_state_process_header.simps)
  have "resumes env b (ngx_http_v2_state_field_len env st inp) (ngx_http_v2_state_field_len env st (inp @ b))"
    if "v2_parse_name st = False" "v2_buffer st = []" for st :: "'a h2_state" and inp
    by (rule field_len_resumes [OF v that b])
  then show ?thesis using v assms by (cases "v2_parse_name st") (simp_all add: ngx_http_v2_state_process_header.simps)
qed

lemmas handlers_resume =
  field_len_resumes [OF process_header_resumes refl] raw_resumes [OF process_header_resumes refl]
  skip_field_resumes [OF process_header_resumes refl] huff_resumes [OF process_header_resumes refl]

lemma handler_id: "v2_handler st = h \<Longrightarrow> st\<lparr>v2_handler := h\<rparr> = st"
  by simp

lemma header_block_resumes:
  assumes st: "v2_buffer st = []" and b: "b \<noteq> []" and h: "v2_handler st = V2_header_block"
  shows "resumes env b (ngx_http_v2_state_header_block env st inp) (ngx_http_v2_state_header_block env st (inp @ b))"
proof (cases "inp = []")
  case True
  have "resumes env b (ngx_http_v2_state_save st [] V2_header_block) (ngx_http_v2_state_header_block env st b)"
    using st h by (intro resumes_save) (simp_all add: h2_handle_def handler_id)
  then show ?thesis using True by (simp add: ngx_http_v2_state_header_block_def [of env st "[]"])
next
  case ne: False
  define st1 where "st1 = (if hd inp < 0x80 \<and> hd inp \<ge> 0x40 then st\<lparr>v2_index := True\<rparr> else st)"
  define prefix where "prefix = (if hd inp \<ge> 0x80 then ngx_http_v2_prefix 7 else if hd inp \<ge> 0x40 then ngx_http_v2_prefix 6
     else if hd inp \<ge> 0x20 then ngx_http_v2_prefix 5 else ngx_http_v2_prefix 4)"
  have hb: "hd (inp @ b) = hd inp" using ne by simp
  note d = ngx_http_v2_state_header_block_def Let_def hb st1_def [symmetric] prefix_def [symmetric]
  have buf: "v2_buffer st1 = []" using st by (simp add: st1_def)
  consider (frame) "\<not> end_headers st \<and> v2_length st < 4"
    | (rc) rc where "\<not> (\<not> end_headers st \<and> v2_length st < 4)" "ngx_http_v2_parse_int (v2_length st1) inp prefix = PI_rc rc"
    | (val) v l inp' where "\<not> (\<not> end_headers st \<and> v2_length st < 4)" "ngx_http_v2_parse_int (v2_length st1) inp prefix = PI_value v l inp'"
    by (cases "ngx_http_v2_parse_int (v2_length st1) inp prefix"; blast)
  then show ?thesis
  proof cases
    case frame
    have "h2_handle env (st\<lparr>v2_padding := p, v2_handler := V2_header_block\<rparr>) i
        = ngx_http_v2_handle_continuation (st\<lparr>v2_padding := p\<rparr>) i V2_header_block" if "i \<noteq> []" for p i
      using frame that by (simp add: h2_handle_def ngx_http_v2_state_header_block_def end_headers_def)
    then have "resumes env b (ngx_http_v2_handle_continuation st inp V2_header_block)
        (ngx_http_v2_handle_continuation st (inp @ b) V2_header_block)"
      using frame st b by (intro continuation_resumes) simp_all
    then show ?thesis using frame ne by (simp add: ngx_http_v2_state_header_block_def)
  next
    case rc
    note m = parse_int_more [OF ne, where len = "v2_length st1" and prefix = prefix and b = b, unfolded rc(2) parse_int.case]
    have e: "ngx_http_v2_state_header_block env st inp = (if rc = NGX_AGAIN then ngx_http_v2_state_save st1 inp V2_header_block
        else if rc = NGX_DECLINED then H2_error NGX_HTTP_V2_COMP_ERROR else H2_error NGX_HTTP_V2_SIZE_ERROR)"
      using ne rc unfolding d by auto
    show ?thesis
    proof (cases "rc = NGX_AGAIN")
      case True
      have "ngx_http_v2_state_header_block env st1 (inp @ b) = ngx_http_v2_state_header_block env st (inp @ b)"
      proof -
        have i: "(if hd inp < 0x80 \<and> hd inp \<ge> 0x40 then st1\<lparr>v2_index := True\<rparr> else st1) = st1" by (simp add: st1_def)
        have g: "(\<not> end_headers st \<and> v2_length st < 4) = False" "(\<not> end_headers st1 \<and> v2_length st1 < 4) = False"
          "(inp @ b = []) = False"
          using rc(1) ne by (auto simp: st1_def end_headers_def)
        show ?thesis unfolding ngx_http_v2_state_header_block_def Let_def hb i st1_def [symmetric] g if_False ..
      qed
      moreover have "v2_handler st1 = V2_header_block" using h by (simp add: st1_def)
      ultimately have "resumes env b (ngx_http_v2_state_save st1 inp V2_header_block) (ngx_http_v2_state_header_block env st (inp @ b))"
        using m True buf by (intro resumes_save) (simp_all add: h2_handle_def handler_id)
      then show ?thesis unfolding e using True by simp
    next
      case False
      then have "ngx_http_v2_parse_int (v2_length st1) (inp @ b) prefix = PI_rc rc" using m by simp
      then have "ngx_http_v2_state_header_block env st (inp @ b) = (if rc = NGX_DECLINED then H2_error NGX_HTTP_V2_COMP_ERROR
          else H2_error NGX_HTTP_V2_SIZE_ERROR)"
        using ne rc False unfolding d by auto
      then show ?thesis unfolding e using False by simp
    qed
  next
    case val
    note m = parse_int_more [OF ne, where len = "v2_length st1" and prefix = prefix and b = b, unfolded val(2) parse_int.case]
    have g: "(\<not> end_headers st \<and> v2_length st < 4) = False" "(inp = []) = False" "(inp @ b = []) = False"
      using val ne by auto
    show ?thesis
      unfolding d g if_False val(2) m parse_int.case using buf b
      by (auto simp: handlers_resume process_header_resumes header_complete_resumes split: prod.split)
  qed
qed

lemma handle_resumes:
  assumes "v2_buffer st = []" "b \<noteq> []"
  shows "resumes env b (h2_handle env st inp) (h2_handle env st (inp @ b))"
  using assms
  by (cases "v2_handler st")
     (simp_all add: h2_handle_def header_block_resumes handlers_resume header_complete_resumes skip_resumes)

text \<open>The buffer is empty again unless the handler has saved.\<close>

lemma settle_error: "settle res = settle (H2_error e) \<longleftrightarrow> res = H2_error e"
  by (cases res) (auto simp: settle_def)

lemma settle_next:
  assumes "settle res = settle (H2_next st inp)" "v2_handler st \<noteq> V2_head"
  shows "res = H2_next st inp"
  using assms by (cases res) (auto simp: settle_def split: if_splits)

lemma settle_head:
  assumes "settle res = settle (H2_next st inp)" "v2_handler st = V2_head"
  obtains st' where "res = H2_next st' inp" "v2_handler st' = V2_head"
  using assms by (cases res) (auto simp: settle_def split: if_splits)

lemma read_cong:
  assumes "settle (h2_handle env st inp) = settle (h2_handle env st' inp')"
  shows "map_option settle (h2_read env st inp) = map_option settle (h2_read env st' inp')"
proof (cases "h2_handle env st' inp'")
  case (H2_error e)
  then show ?thesis using assms by (simp add: h2_read.simps settle_error)
next
  case (H2_next s i)
  show ?thesis
  proof (cases "v2_handler s = V2_head")
    case True
    then obtain s' where "h2_handle env st inp = H2_next s' i" "v2_handler s' = V2_head"
      using settle_head assms H2_next by metis
    then show ?thesis using assms H2_next True by (simp add: h2_read.simps)
  next
    case False
    then have "h2_handle env st inp = H2_next s i" using settle_next assms H2_next by metis
    then show ?thesis using H2_next by (simp add: h2_read.simps)
  qed
qed

definition ext_result :: "'r h2_env \<Rightarrow> 'r h2_result \<Rightarrow> bytes \<Rightarrow> 'r h2_result option" where
  "ext_result env res b =
     (case res of
        H2_error e \<Rightarrow> Some (H2_error e)
      | H2_next st inp \<Rightarrow> if v2_handler st = V2_head then Some (H2_next st (inp @ b)) else h2_receive env st b)"

lemma read_pieces:
  "v2_buffer st = [] \<Longrightarrow> b \<noteq> [] \<Longrightarrow> h2_read env st a = Some res \<Longrightarrow>
   map_option settle (h2_read env st (a @ b)) = map_option settle (ext_result env res b)"
proof (induction "2 * length a + (if v2_handler st = V2_header_block then 0 else 1)" arbitrary: st a rule: less_induct)
  case less
  have r: "resumes env b (h2_handle env st a) (h2_handle env st (a @ b))"
    using less.prems by (intro handle_resumes)
  show ?case
  proof (cases "h2_handle env st a")
    case (H2_error e)
    then have "h2_handle env st (a @ b) = H2_error e" using r by (simp add: resumes_def)
    moreover have "res = H2_error e" using less.prems(3) H2_error by (simp add: h2_read.simps)
    ultimately show ?thesis by (simp add: h2_read.simps ext_result_def)
  next
    case (H2_next st' a')
    note n = H2_next
    consider (same) "v2_buffer st' = []" "settle (h2_handle env st (a @ b)) = settle (H2_next st' (a' @ b))"
      | (saved) "a' = []" "v2_handler st' \<noteq> V2_head"
          "settle (h2_handle env st (a @ b)) = settle (h2_handle env (st'\<lparr>v2_buffer := []\<rparr>) (v2_buffer st' @ b))"
      using r n by (auto simp: resumes_def)
    then show ?thesis
    proof cases
      case saved
      then have "res = H2_next st' []" using less.prems(3) n by (simp add: h2_read.simps)
      then show ?thesis using read_cong [OF saved(3)] saved(2) by (simp add: ext_result_def h2_receive_def)
    next
      case same
      show ?thesis
      proof (cases "v2_handler st' = V2_head")
        case True
        then have res: "res = H2_next st' a'" using less.prems(3) n by (simp add: h2_read.simps)
        obtain s where "h2_handle env st (a @ b) = H2_next s (a' @ b)" "v2_handler s = V2_head"
          using settle_head [OF same(2) True] .
        then show ?thesis using same(2) True res by (simp add: h2_read.simps ext_result_def)
      next
        case False
        have w: "h2_handle env st (a @ b) = H2_next st' (a' @ b)" using settle_next [OF same(2) False] .
        then have w': "h2_read env st (a @ b) = h2_read env st' (a' @ b)"
          using less.prems(2) False by (simp add: h2_read.simps [of env st])
        show ?thesis
        proof (cases "a' = []")
          case True
          then have "res = H2_next st' []" using less.prems(3) n by (simp add: h2_read.simps)
          then show ?thesis using w' True False same(1) by (simp add: ext_result_def h2_receive_def buffer_id)
        next
          case ne: False
          have "length a' < length a \<or> (length a' = length a \<and> v2_handler st' = V2_header_block)"
            using h2_handle_leaves [of a env st] False ne unfolding n leaves_def by simp
          moreover have "length a' < length a" if "v2_handler st = V2_header_block"
            using header_block_leaves [of a env st] n that False ne by (simp add: h2_handle_def leaves_less_def)
          ultimately have m: "2 * length a' + (if v2_handler st' = V2_header_block then 0 else 1)
              < 2 * length a + (if v2_handler st = V2_header_block then 0 else 1)"
            by (cases "v2_handler st = V2_header_block") auto
          have "h2_read env st' a' = Some res" using less.prems(3) n False ne by (simp add: h2_read.simps [of env st])
          then show ?thesis unfolding w' using less.hyps [OF m same(1) less.prems(2)] by simp
        qed
      qed
    qed
  qed
qed

text \<open>
  C5. A header block may arrive in any pieces: what the reader does when it is given \<open>a\<close> and then
  \<open>b\<close> is what it does when it is given both at once, the same error, the same requests, the same
  table, the same bytes left over; only the length field that is left after padding can differ.
\<close>

theorem h2_pieces:
  "case h2_receive env st a of
     None \<Rightarrow> False
   | Some (H2_error e) \<Rightarrow> h2_receive env st (a @ c # b) = Some (H2_error e)
   | Some (H2_next st' rest) \<Rightarrow>
       map_option settle (h2_receive env st (a @ c # b)) =
         (if v2_handler st' = V2_head then Some (settle (H2_next st' (rest @ c # b)))
          else map_option settle (h2_receive env st' (c # b)))"
proof -
  obtain res where r: "h2_receive env st a = Some res"
    unfolding h2_receive_def using h2_read_total by blast
  have "map_option settle (h2_read env (st\<lparr>v2_buffer := []\<rparr>) ((v2_buffer st @ a) @ c # b)) = map_option settle (ext_result env res (c # b))"
    using r by (intro read_pieces) (simp_all add: h2_receive_def)
  then have p: "map_option settle (h2_receive env st (a @ c # b)) = map_option settle (ext_result env res (c # b))"
    by (simp add: h2_receive_def)
  show ?thesis
  proof (cases res)
    case (H2_error e)
    then show ?thesis using r p by (auto simp: ext_result_def settle_error)
  next
    case (H2_next s i)
    then show ?thesis using r p by (simp add: ext_result_def)
  qed
qed


section \<open>Header blocks of RFC 7541\<close>

text \<open>
  What the RFC says, without a routine of the program; the static table and the codes, appendices A
  and B of the RFC, are the tables of the source. First an integer with a prefix of \<open>n\<close> bits
  (section 5.1), under the flags in the high bits of its first octet.
\<close>

fun rfc_octets :: "nat \<Rightarrow> nat list" where
  "rfc_octets i = (if i \<ge> 128 then (i mod 128 + 128) # rfc_octets (i div 128) else [i])"

declare rfc_octets.simps [simp del]

definition rfc_int :: "nat \<Rightarrow> nat \<Rightarrow> nat \<Rightarrow> bytes" where
  "rfc_int flags n i =
     map word_of_nat (if i < 2 ^ n - 1 then [flags + i] else (flags + (2 ^ n - 1)) # rfc_octets (i - (2 ^ n - 1)))"

text \<open>
  A string (section 5.2) is given by its text: its octets, or the codes of its octets, filled up with
  ones to a whole octet.
\<close>

datatype rfc_string = Plain bytes | Coded bytes

fun rfc_text :: "rfc_string \<Rightarrow> bytes" where
  "rfc_text (Plain s) = s"
| "rfc_text (Coded s) = s"

definition byte_of_bits :: "bool list \<Rightarrow> u_char" where
  "byte_of_bits bs = horner_sum of_bool 2 (rev bs)"

fun pack_bits :: "bool list \<Rightarrow> bytes" where
  "pack_bits bs = (if length bs < 8 then [] else byte_of_bits (take 8 bs) # pack_bits (drop 8 bs))"

declare pack_bits.simps [simp del]

definition rfc_huffman :: "bytes \<Rightarrow> bytes" where
  "rfc_huffman s = (let bits = huff_bits s in pack_bits (bits @ replicate ((8 - length bits mod 8) mod 8) True))"

fun rfc_string_bytes :: "rfc_string \<Rightarrow> bytes" where
  "rfc_string_bytes (Plain s) = rfc_int 0 7 (length s) @ s"
| "rfc_string_bytes (Coded s) = rfc_int 128 7 (length (rfc_huffman s)) @ rfc_huffman s"

text \<open>The representations of section 6.\<close>

fun literal_flags :: "literal_kind \<Rightarrow> nat" where
  "literal_flags Incremental = 64"
| "literal_flags Without_indexing = 0"
| "literal_flags Never_indexed = 16"

fun rfc_field_bytes :: "rfc_string field \<Rightarrow> bytes" where
  "rfc_field_bytes (Indexed i) = rfc_int 128 7 i"
| "rfc_field_bytes (Literal k (Name_index i) v) = rfc_int (literal_flags k) (literal_bits k) i @ rfc_string_bytes v"
| "rfc_field_bytes (Literal k (Name_text n) v) =
     rfc_int (literal_flags k) (literal_bits k) 0 @ rfc_string_bytes n @ rfc_string_bytes v"
| "rfc_field_bytes (Size_update n) = rfc_int 32 5 n"

definition rfc_block_bytes :: "rfc_string field list \<Rightarrow> bytes" where
  "rfc_block_bytes fs = concat (map rfc_field_bytes fs)"

text \<open>What they stand for: a header, if any, and the table after it.\<close>

fun rfc_name :: "rfc_table \<Rightarrow> rfc_string field_name \<Rightarrow> bytes option" where
  "rfc_name q (Name_index i) = map_option fst (rfc_lookup q i)"
| "rfc_name q (Name_text n) = Some (rfc_text n)"

fun rfc_field :: "rfc_string field \<Rightarrow> rfc_table \<Rightarrow> (header list \<times> rfc_table) option" where
  "rfc_field (Indexed i) q = map_option (\<lambda>h. ([h], q)) (rfc_lookup q i)"
| "rfc_field (Literal k n v) q =
     map_option (\<lambda>name. let h = (name, rfc_text v) in ([h], if k = Incremental then rfc_insert h q else q)) (rfc_name q n)"
| "rfc_field (Size_update n) q = Some ([], rfc_resize n q)"

fun rfc_block :: "rfc_string field list \<Rightarrow> rfc_table \<Rightarrow> (header list \<times> rfc_table) option" where
  "rfc_block [] q = Some ([], q)"
| "rfc_block (fd # fs) q =
     (case rfc_field fd q of
        None \<Rightarrow> None
      | Some (hs, q') \<Rightarrow> map_option (\<lambda>(hs', q''). (hs @ hs', q'')) (rfc_block fs q'))"

text \<open>
  What the program takes: integers of at most four octets, strings that on the wire are no longer
  than \<open>http2_max_field_size\<close>, tables of at most 4096 bytes.
\<close>

fun rfc_wire :: "rfc_string \<Rightarrow> bytes" where
  "rfc_wire (Plain s) = s"
| "rfc_wire (Coded s) = rfc_huffman s"

definition taken_string :: "nat \<Rightarrow> rfc_string \<Rightarrow> bool" where
  "taken_string limit x \<longleftrightarrow> length (rfc_wire x) \<le> limit \<and> length (rfc_wire x) < 127 + 2 ^ 21"

fun taken :: "nat \<Rightarrow> rfc_string field \<Rightarrow> bool" where
  "taken limit (Indexed i) \<longleftrightarrow> i < 127 + 2 ^ 21"
| "taken limit (Literal k (Name_index i) v) \<longleftrightarrow> 0 < i \<and> i < 2 ^ literal_bits k - 1 + 2 ^ 21 \<and> taken_string limit v"
| "taken limit (Literal k (Name_text n) v) \<longleftrightarrow> taken_string limit n \<and> taken_string limit v"
| "taken limit (Size_update n) \<longleftrightarrow> n \<le> 4096"

section \<open>The two ways to write a block\<close>

lemma rfc_octets_write: "map word_of_nat (rfc_octets i) = write_octets i"
proof (induction i rule: rfc_octets.induct)
  case (1 i)
  then show ?case by (simp add: rfc_octets.simps [of i] write_octets.simps [of i])
qed

lemma rfc_int_write:
  assumes "flags < 256" "flags AND ngx_http_v2_prefix bits = 0" "bits \<le> 8"
  shows "rfc_int flags bits i = ngx_http_v2_write_int (word_of_nat flags) (ngx_http_v2_prefix bits) i"
proof -
  have u: "unat (word_of_nat flags :: u_char) = flags" using assms(1) by (intro unat_octet) simp
  have sum: "unat (word_of_nat flags OR word_of_nat v :: u_char) = flags + v" if "v \<le> ngx_http_v2_prefix bits" for v
    using byte_or_small [of "word_of_nat flags" bits v] assms(2,3) that u by simp
  have first: "(word_of_nat (flags + v) :: u_char) = word_of_nat flags OR word_of_nat v"
    if "v \<le> ngx_http_v2_prefix bits" for v
  proof -
    have "word_of_nat (unat (word_of_nat flags OR word_of_nat v :: u_char)) = (word_of_nat flags OR word_of_nat v :: u_char)"
      by (simp only: of_nat_unat ucast_id)
    then show ?thesis using sum [OF that] by simp
  qed
  show ?thesis
    using first [of i] first [of "ngx_http_v2_prefix bits"]
    by (auto simp: rfc_int_def ngx_http_v2_write_int_def ngx_http_v2_prefix_def rfc_octets_write)
qed

lemma byte_bits_of_bits:
  assumes "length bs = 8"
  shows "byte_bits (byte_of_bits bs) = bs"
proof (rule nth_equalityI)
  show "length (byte_bits (byte_of_bits bs)) = length bs" using assms by (simp add: byte_bits_def)
  fix i
  assume "i < length (byte_bits (byte_of_bits bs))"
  then have i: "i < 8" by (simp add: byte_bits_def)
  have "7 - i < 8" using i by linarith
  then have "bit (byte_of_bits bs) (7 - i) = rev bs ! (7 - i)"
    using assms unfolding byte_of_bits_def bit_horner_sum_bit_word_iff by simp
  also have "\<dots> = bs ! i" using assms i by (simp add: rev_nth)
  finally show "byte_bits (byte_of_bits bs) ! i = bs ! i" using i by (simp add: byte_bits_def)
qed

lemma bits_of_pack: "8 dvd length bs \<Longrightarrow> bits_of (pack_bits bs) = bs"
proof (induction bs rule: pack_bits.induct)
  case (1 bs)
  show ?case
  proof (cases "length bs < 8")
    case True
    then have "bs = []" using 1(2) by (auto dest: dvd_imp_le)
    then show ?thesis by (simp add: pack_bits.simps)
  next
    case False
    then have "8 dvd length (drop 8 bs)" using 1(2) by (simp add: dvd_diff_nat)
    then have "bits_of (pack_bits (drop 8 bs)) = drop 8 bs" by (rule 1(1) [OF False])
    moreover have "byte_bits (byte_of_bits (take 8 bs)) = take 8 bs" using False by (intro byte_bits_of_bits) simp
    ultimately show ?thesis using False by (simp add: pack_bits.simps [of bs])
  qed
qed

lemma padded_dvd: "8 dvd n + (8 - n mod 8) mod 8" for n :: nat
proof -
  have "q + r + (8 - r) = q + 8" if "r < 8" for q r :: nat using that by simp
  from this [of "n mod 8" "8 * (n div 8)"] have "n + (8 - n mod 8) = 8 * (n div 8) + 8"
    unfolding mult_div_mod_eq by simp
  then have "(n + (8 - n mod 8)) mod 8 = 0" by (simp only: mod_mult_self2 mod_self mod_mult_self1 mod_mult_self1_is_0 mod_add_self2)
  then show ?thesis unfolding dvd_eq_mod_eq_0 mod_add_right_eq .
qed

lemma rfc_huffman_decoded: "ngx_http_v2_huff_decode 0 (rfc_huffman s) True = (NGX_OK, 0, s)"
proof -
  let ?n = "length (huff_bits s)"
  let ?k = "(8 - ?n mod 8) mod 8"
  have "8 dvd length (huff_bits s @ replicate ?k True)"
    unfolding length_append length_replicate by (rule padded_dvd)
  then have "bits_of (rfc_huffman s) = huff_bits s @ replicate ?k True"
    unfolding rfc_huffman_def Let_def by (rule bits_of_pack)
  moreover have "?k < 30" by (rule less_trans [of _ 8]) simp_all
  ultimately have "\<exists>k<30. bits_of (rfc_huffman s) = huff_bits s @ replicate k True" by blast
  then show ?thesis by (rule huff_accepts)
qed

fun coded_string :: "rfc_string \<Rightarrow> field_string" where
  "coded_string (Plain s) = Raw s"
| "coded_string (Coded s) = Huff (rfc_huffman s)"

lemma coded_string_bytes: "rfc_string_bytes x = enc_string (coded_string x)"
  by (cases x) (simp_all add: rfc_int_write ngx_http_v2_prefix_def)

lemma coded_string_text: "string_text (coded_string x) = rfc_text x"
  by (cases x) (simp_all add: rfc_huffman_decoded)

lemma coded_string_ok: "taken_string limit x \<Longrightarrow> string_ok limit (coded_string x)"
  by (cases x) (simp_all add: taken_string_def rfc_huffman_decoded)

abbreviation coded :: "rfc_string field \<Rightarrow> field_string field" where
  "coded \<equiv> map_field coded_string"

lemma coded_field_bytes: "rfc_field_bytes fd = enc_field (coded fd)"
proof -
  have l: "rfc_int (literal_flags k) (literal_bits k) i
      = ngx_http_v2_write_int (literal_byte k) (ngx_http_v2_prefix (literal_bits k)) i" for k i
    by (cases k) (simp_all add: rfc_int_write ngx_http_v2_prefix_def)
  show ?thesis
    by (cases fd rule: rfc_field_bytes.cases) (simp_all add: l coded_string_bytes rfc_int_write ngx_http_v2_prefix_def)
qed

lemma coded_block_bytes: "rfc_block_bytes fs = enc_block (map coded fs)"
  unfolding rfc_block_bytes_def enc_block_def map_map o_def coded_field_bytes [symmetric] ..

lemma coded_ok: "taken limit fd \<Longrightarrow> field_ok limit (coded fd)"
  by (cases fd rule: rfc_field_bytes.cases) (simp_all add: coded_string_ok)

lemma coded_field:
  assumes "agrees s q" "view_used s \<or> rfc_limit q = 4096"
    and "rfc_field fd q = Some (hs, q')" "view_used s \<or> (\<forall>n. fd = Size_update n \<longrightarrow> n = 4096)"
  shows "\<exists>s'. view_field (coded fd) s = Some (hs, s') \<and> agrees s' q' \<and> (view_used s \<longrightarrow> view_used s')
    \<and> (view_used s' \<or> rfc_limit q' = 4096)"
proof (cases fd)
  case (Indexed i)
  then show ?thesis using assms agrees_lookup [OF assms(1), of i] by auto
next
  case (Literal k nm v)
  have n: "field_name_text s (map_field_name coded_string nm) = rfc_name q nm"
    by (cases nm) (simp_all add: agrees_lookup [OF assms(1)] coded_string_text)
  obtain name where name: "rfc_name q nm = Some name" using assms(3) Literal by auto
  let ?h = "(name, rfc_text v)"
  have q': "hs = [?h]" "q' = (if k = Incremental then rfc_insert ?h q else q)"
    using assms(3) Literal name by (simp_all add: Let_def)
  show ?thesis
    using agrees_insert [OF assms(1,2), of ?h] assms(1,2) Literal n name q' by (simp add: coded_string_text Let_def)
next
  case (Size_update n)
  then show ?thesis using assms agrees_resize [OF assms(1), of n] by (auto simp: rfc_resize_def)
qed

lemma coded_block:
  assumes "agrees s q" "view_used s \<or> rfc_limit q = 4096"
    and "rfc_block fs q = Some (hs, q')" "view_used s \<or> (\<forall>n. Size_update n \<in> set fs \<longrightarrow> n = 4096)"
  shows "\<exists>s'. view_block (map coded fs) s = Some (hs, s') \<and> agrees s' q' \<and> (view_used s' \<or> rfc_limit q' = 4096)"
  using assms
proof (induction fs arbitrary: s q hs)
  case (Cons fd fs)
  obtain hs1 q1 where f: "rfc_field fd q = Some (hs1, q1)" using Cons.prems(3) by (auto split: option.splits)
  obtain hs2 where r: "rfc_block fs q1 = Some (hs2, q')" and hs: "hs = hs1 @ hs2"
    using Cons.prems(3) f by (auto split: option.splits)
  obtain s1 where s1: "view_field (coded fd) s = Some (hs1, s1)" "agrees s1 q1" "view_used s \<longrightarrow> view_used s1"
      "view_used s1 \<or> rfc_limit q1 = 4096"
    using coded_field [OF Cons.prems(1,2) f] Cons.prems(4) by auto
  obtain s2 where "view_block (map coded fs) s1 = Some (hs2, s2)" "agrees s2 q'" "view_used s2 \<or> rfc_limit q' = 4096"
    using Cons.IH [OF s1(2,4) r] Cons.prems(4) s1(3) by auto
  then show ?case using s1(1) hs by simp
qed simp

section \<open>The block of a request\<close>

text \<open>
  The code's table stands for the RFC's one and no size update is pending that the first insertion
  would forget.
\<close>

definition table_at :: "hpack \<Rightarrow> rfc_table \<Rightarrow> bool" where
  "table_at t q \<longleftrightarrow> rfc_sim t q \<and> (entries t \<noteq> None \<or> rfc_limit q = 4096)"

lemma sim_entries: "table_sim t s \<Longrightarrow> view_used s = (entries t \<noteq> None)"
  by (auto simp: table_sim_def unused_table_def table_ok_def pointers_ok_def split: if_splits)

lemma table_at_init: "table_at hpack_init rfc_init"
  by (simp add: table_at_def rfc_sim_init) (simp add: rfc_init_def)

text \<open>
  At the first octet of a block that is all there, in one HEADERS frame without padding, with
  \<open>limit\<close> bytes left for its headers.
\<close>

definition block_start :: "'r h2_state \<Rightarrow> rfc_table \<Rightarrow> nat \<Rightarrow> nat \<Rightarrow> 'r \<Rightarrow> bool" where
  "block_start st q limit len r \<longleftrightarrow> end_headers st \<and> v2_padding st = 0 \<and> \<not> v2_parse_name st \<and> \<not> v2_parse_value st
     \<and> \<not> v2_index st \<and> v2_field_state st = 0 \<and> v2_header_limit st = limit \<and> v2_stream st = Some r
     \<and> v2_length st = len \<and> v2_handler st = V2_header_block \<and> table_at (v2_hpack st) q"

text \<open>The request has been run, the table stands for \<open>q\<close> and \<open>rest\<close> is left for the next frame.\<close>

definition request_run_with :: "'r h2_result option \<Rightarrow> 'r list \<Rightarrow> 'r \<Rightarrow> rfc_table \<Rightarrow> bytes \<Rightarrow> bool" where
  "request_run_with res runs r q rest \<longleftrightarrow>
     (case res of
        Some (H2_next st' rest') \<Rightarrow> rest' = rest \<and> v2_handler st' = V2_head \<and> v2_run st' = runs @ [r]
          \<and> table_at (v2_hpack st') q
      | _ \<Rightarrow> False)"

lemma block_decoded:
  assumes env: "block_env env f" and ok: "list_all (field_ok (max_field_size env)) fs" and ne: "fs \<noteq> []"
    and start: "block_start st q (headers_len hs + limit) (length (enc_block fs)) r"
    and view: "\<And>s. agrees s q \<Longrightarrow> view_used s \<or> rfc_limit q = 4096 \<Longrightarrow> view_used s = (entries (v2_hpack st) \<noteq> None) \<Longrightarrow>
      \<exists>s'. view_block fs s = Some (hs, s') \<and> agrees s' q' \<and> (view_used s' \<or> rfc_limit q' = 4096)"
  shows "request_run_with (h2_read env st (enc_block fs @ rest)) (v2_run st) (foldl (\<lambda>r h. f h r) r hs) q' rest"
proof -
  have t: "table_at (v2_hpack st) q" using start by (simp add: block_start_def)
  then obtain s where s: "table_sim (v2_hpack st) s" "agrees s q" unfolding table_at_def rfc_sim_def by blast
  have "view_used s \<or> rfc_limit q = 4096" using t sim_entries [OF s(1)] by (auto simp: table_at_def)
  then obtain s' where s': "view_block fs s = Some (hs, s')" "agrees s' q'" "view_used s' \<or> rfc_limit q' = 4096"
    using view [OF s(2) _ sim_entries [OF s(1)]] by blast
  have b: "between_fields st s (headers_len hs + limit) r" and l: "v2_length st = length (enc_block fs)"
    and h: "v2_handler st = V2_header_block"
    using start s(1) by (simp_all add: block_start_def between_fields_def)
  have "table_at t' q'" if "table_sim t' s'" for t'
    using that s'(2,3) sim_entries [OF that] unfolding table_at_def rfc_sim_def by auto
  then show ?thesis using block_read [OF env ok s'(1) b l h ne, of rest]
    by (auto simp: block_done_def request_run_with_def split: option.splits h2_result.splits)
qed

text \<open>
  C6. A header block that is all there is read as RFC 7541 says, with the RFC's own integers, code
  strings and table: whatever indices, literals, names, plain or Huffman coded strings and size
  updates it is made of, the request is given exactly its headers, in order, the table ends up as
  the RFC's, and the bytes behind the block are left alone. The block keeps to the program's
  bounds, and changes the size of the table only after an insertion (a smaller size that is set
  before the first insertion of a connection is forgotten, see \<open>hpack_size_forgotten\<close>).
\<close>

theorem h2_block_decodes:
  assumes "block_env env f" "list_all (taken (max_field_size env)) fs" "rfc_block fs q = Some (hs, q')" "fs \<noteq> []"
    and "block_start st q (headers_len hs + limit) (length (rfc_block_bytes fs)) r"
    and "entries (v2_hpack st) = None \<Longrightarrow> list_all (\<lambda>fd. case fd of Size_update n \<Rightarrow> n = 4096 | _ \<Rightarrow> True) fs"
  shows "request_run_with (h2_read env st (rfc_block_bytes fs @ rest)) (v2_run st) (foldl (\<lambda>r h. f h r) r hs) q' rest"
  unfolding coded_block_bytes
proof (rule block_decoded [OF assms(1)])
  show "list_all (field_ok (max_field_size env)) (map coded fs)"
    using assms(2) by (auto simp: list_all_iff coded_ok)
  show "map coded fs \<noteq> []" using assms(4) by simp
  show "block_start st q (headers_len hs + limit) (length (enc_block (map coded fs))) r"
    using assms(5) by (simp add: coded_block_bytes)
  have "\<forall>n. Size_update n \<in> set fs \<longrightarrow> n = 4096" if "entries (v2_hpack st) = None"
    using assms(6) [OF that] by (fastforce simp: list_all_iff)
  then show "\<exists>s'. view_block (map coded fs) s = Some (hs, s') \<and> agrees s' q' \<and> (view_used s' \<or> rfc_limit q' = 4096)"
    if "agrees s q" "view_used s \<or> rfc_limit q = 4096" "view_used s = (entries (v2_hpack st) \<noteq> None)" for s
    using coded_block [OF that(1,2) assms(3)] that(3) by blast
qed

text \<open>
  An index that is not in the table, for a header or for the name of a literal, ends the
  connection with a compression error.
\<close>

theorem h2_bad_index:
  assumes "block_env env f" "between_fields st s limit r" "field_ok maxf fd" "view_field fd s = None"
    and "v2_length st = length (enc_field fd) + l"
  shows "ngx_http_v2_state_header_block env st (enc_field fd @ ys) = H2_error NGX_HTTP_V2_COMP_ERROR"
proof -
  have b: "end_headers st" "\<not> v2_index st" "table_sim (v2_hpack st) s"
    using assms(2) by (simp_all add: between_fields_def)
  have pool: "pool_ok env k" for k using assms(1) by (simp add: block_env_def)
  show ?thesis
  proof (cases fd)
    case (Indexed i)
    then have "ngx_http_v2_get_indexed_header True True (v2_hpack st) i False (v2_header st) = (NGX_ERROR, v2_header st)"
      using sim_lookup [OF b(3), of i False "v2_header st"] assms(4) by simp
    then show ?thesis using block_indexed [OF b(1) assms(5) [unfolded Indexed], of env ys] assms(3) Indexed pool by simp
  next
    case (Literal k nm v)
    then obtain i where nm: "nm = Name_index i" and none: "view_lookup s i = None"
      using assms(4) by (cases nm) auto
    have i: "0 < i" "i < 2 ^ literal_bits k - 1 + 2 ^ 21" using assms(3) Literal nm by simp_all
    have g: "ngx_http_v2_get_indexed_header True True (v2_hpack st) i True (v2_header st) = (NGX_ERROR, v2_header st)"
      using sim_lookup [OF b(3), of i True "v2_header st"] none by simp
    show ?thesis
      unfolding Literal nm enc_field.simps append_assoc
      using block_literal [OF b(1,2) _ i(2), of "length (enc_string v) + l" env "enc_string v @ ys"] assms(5) Literal nm i(1) g pool
      by simp
  qed (use assms(4) in simp)
qed

text \<open>The strings that nginx writes.\<close>

lemma string_encoded:
  assumes "length src \<le> limit" "length src < 127 + 2 ^ 21"
  shows "\<exists>fs. ngx_http_v2_string_encode src lower = enc_string fs \<and> string_ok limit fs
    \<and> string_text fs = (if lower then map ngx_tolower src else src)"
proof (cases "ngx_http_v2_huff_encode src lower")
  case Nil
  let ?s = "if lower then map ngx_tolower src else src"
  have "ngx_http_v2_string_encode src lower = enc_string (Raw ?s)"
    using Nil by (simp add: ngx_http_v2_string_encode_def ngx_strlow_def)
  moreover have "string_ok limit (Raw ?s)" using assms by simp
  ultimately show ?thesis by (intro exI [of _ "Raw ?s"]) simp
next
  case (Cons c cs)
  have d: "ngx_http_v2_huff_decode 0 (c # cs) True = (NGX_OK, 0, if lower then map ngx_tolower src else src)"
    by (rule huff_encoded [OF Cons])
  have "ngx_http_v2_string_encode src lower = enc_string (Huff (c # cs))"
    using Cons by (simp add: ngx_http_v2_string_encode_def)
  moreover have "length (c # cs) < length src" using huff_padded [OF Cons] by simp
  then have "string_ok limit (Huff (c # cs))" using assms d by simp
  ultimately show ?thesis using d by (intro exI [of _ "Huff (c # cs)"]) simp
qed

text \<open>
  C33. A header that nginx writes as a literal, its name in lower case and both strings in whichever
  of the raw and the Huffman form is shorter, is read back by the reader of header blocks: the
  request is given that name and that value, the table is unchanged and what follows is left
  alone.
\<close>

theorem h2_string_roundtrip:
  assumes "block_env env f" "length name \<le> max_field_size env" "length val \<le> max_field_size env"
    and "max_field_size env < 127 + 2 ^ 21"
    and "written = 0 # ngx_http_v2_string_encode name True @ ngx_http_v2_string_encode val False"
    and "block_start st q (length name + length val + limit) (length written) r"
  shows "request_run_with (h2_read env st (written @ rest)) (v2_run st) (f (map ngx_tolower name, val) r) q rest"
proof -
  obtain n where n: "ngx_http_v2_string_encode name True = enc_string n" "string_ok (max_field_size env) n"
      "string_text n = map ngx_tolower name"
    using string_encoded [of name "max_field_size env" True] assms(2,4) by auto
  obtain v where v: "ngx_http_v2_string_encode val False = enc_string v" "string_ok (max_field_size env) v"
      "string_text v = val"
    using string_encoded [of val "max_field_size env" False] assms(3,4) by auto
  let ?fs = "[Literal Without_indexing (Name_text n) v]" and ?h = "(map ngx_tolower name, val)"
  have w: "written = enc_block ?fs"
    by (simp add: assms(5) n(1) v(1) ngx_http_v2_write_int_def ngx_http_v2_prefix_def)
  have "request_run_with (h2_read env st (enc_block ?fs @ rest)) (v2_run st) (foldl (\<lambda>r h. f h r) r [?h]) q rest"
  proof (rule block_decoded [OF assms(1)])
    show "list_all (field_ok (max_field_size env)) ?fs" using n(2) v(2) by simp
    show "block_start st q (headers_len [?h] + limit) (length (enc_block ?fs)) r"
      using assms(6) unfolding w by (simp add: headers_len_def header_len_def)
    show "\<exists>s'. view_block ?fs s = Some ([?h], s') \<and> agrees s' q \<and> (view_used s' \<or> rfc_limit q = 4096)"
      if "agrees s q" "view_used s \<or> rfc_limit q = 4096" for s
      using that n(3) v(3) by (simp add: Let_def)
  qed simp
  then show ?thesis unfolding w by simp
qed

section \<open>Examples\<close>

text \<open>A request that lists its headers, and a block with an indexed, a new and a repeated header.\<close>

definition sample_env :: "header list h2_env" where
  "sample_env = \<lparr>max_field_size = 4096, pool_ok = (\<lambda>_. True),
     table_memory = (\<lambda>_. \<lparr>mem_entries = Some (\<lambda>_. 0), mem_storage = Some (\<lambda>_. 0),
       mem_entry = Some \<lparr>name_len = 0, name_data = 0, value_len = 0, value_data = 0\<rparr>, mem_grown = Some (\<lambda>_. 0)\<rparr>),
     on_header = (\<lambda>h r. HR_taken (r @ [h]))\<rparr>"

definition sample_state :: "nat \<Rightarrow> header list h2_state" where
  "sample_state len = \<lparr>v2_sid = 1, v2_length = len, v2_padding = 0, v2_flags = 4, v2_parse_name = False,
     v2_parse_value = False, v2_index = False, v2_header = ([], []), v2_header_limit = 100, v2_field_state = 0,
     v2_field = [], v2_field_rest = 0, v2_stream = Some [], v2_buffer = [], v2_handler = V2_header_block,
     v2_hpack = hpack_init, v2_run = [], v2_allocs = 0\<rparr>"

definition sample_fields :: "rfc_string field list" where
  "sample_fields = [Indexed 2, Literal Incremental (Name_text (Plain [0x61])) (Plain [0x62]), Indexed 62]"

definition sample_headers :: "header list" where
  "sample_headers = [(str_bytes '':method'', str_bytes ''GET''), ([0x61], [0x62]), ([0x61], [0x62])]"

lemma sample_env_ok: "block_env sample_env (\<lambda>h r. r @ [h])"
  by (simp add: block_env_def sample_env_def)

lemma sample_start: "block_start (sample_state len) rfc_init 100 len []"
  by (simp add: block_start_def sample_state_def end_headers_def table_at_init)

lemma sample_between: "between_fields (sample_state len) view_init (headers_len sample_headers + 86) []"
  using sim_init
  by (simp add: between_fields_def sample_state_def end_headers_def headers_len_def header_len_def sample_headers_def)

theorem h2_block_decodes_witness:
  "request_run_with
     (h2_read sample_env (sample_state (length (rfc_block_bytes sample_fields))) (rfc_block_bytes sample_fields @ [1, 2])) []
     sample_headers \<lparr>rfc_limit = 4096, rfc_headers = [([0x61], [0x62])]\<rparr> [1, 2]"
proof -
  have ok: "list_all (taken (max_field_size sample_env)) sample_fields"
    by (simp add: sample_fields_def sample_env_def taken_string_def)
  have block: "rfc_block sample_fields rfc_init = Some (sample_headers, \<lparr>rfc_limit = 4096, rfc_headers = [([0x61], [0x62])]\<rparr>)"
    by (simp add: sample_fields_def sample_headers_def rfc_lookup_def rfc_init_def rfc_insert_def rfc_resize_def header_cost_def
      headers_cost_def ngx_http_v2_static_table_def Let_def)
  have ne: "sample_fields \<noteq> []" by (simp add: sample_fields_def)
  have "headers_len sample_headers + 86 = 100" by (simp add: headers_len_def header_len_def sample_headers_def)
  then have start: "block_start (sample_state (length (rfc_block_bytes sample_fields))) rfc_init (headers_len sample_headers + 86)
      (length (rfc_block_bytes sample_fields)) []"
    using sample_start by simp
  have "foldl (\<lambda>r h. r @ [h]) [] sample_headers = sample_headers" by (simp add: sample_headers_def)
  moreover have "v2_run (sample_state len) = []" for len by (simp add: sample_state_def)
  ultimately show ?thesis
    using h2_block_decodes [OF sample_env_ok ok block ne start, of "[1, 2]"] by (simp add: sample_fields_def)
qed

lemma h2_bad_index_witness:
  "ngx_http_v2_state_header_block sample_env (sample_state 1) [0xbe] = H2_error NGX_HTTP_V2_COMP_ERROR"
proof -
  have e: "enc_field (Indexed 62) = [0xbe]" by (simp add: ngx_http_v2_write_int_def ngx_http_v2_prefix_def)
  have "view_field (Indexed 62) view_init = None" by (simp add: view_lookup_def view_init_def ngx_http_v2_static_table_def)
  then show ?thesis
    using h2_bad_index [OF sample_env_ok sample_between, of 4096 "Indexed 62" 1 0 "[]"] unfolding e
    by (simp add: sample_state_def)
qed

theorem h2_string_roundtrip_witness:
  "let written = 0 # ngx_http_v2_string_encode [0x41, 0x42] True @ ngx_http_v2_string_encode [0x43] False in
   request_run_with (h2_read sample_env (sample_state (length written)) (written @ [7])) [] [([0x61, 0x62], [0x43])] rfc_init [7]"
proof -
  let ?w = "0 # ngx_http_v2_string_encode [0x41, 0x42] True @ ngx_http_v2_string_encode [0x43] False"
  have l: "max_field_size sample_env = 4096" by (simp add: sample_env_def)
  have start: "block_start (sample_state (length ?w)) rfc_init (length [0x41 :: u_char, 0x42] + length [0x43 :: u_char] + 97)
      (length ?w) []"
    using sample_start [of "length ?w"] by simp
  have "v2_run (sample_state len) = []" for len by (simp add: sample_state_def)
  then show ?thesis
    using h2_string_roundtrip [OF sample_env_ok _ _ _ refl start, of "[7]"] l by (simp add: ngx_tolower_def Let_def)
qed


end
