(* ===== verification/Ngx_Queue.thy ===== *)
theory Ngx_Queue
  imports Prelude "HOL-Library.Multiset"
begin

text \<open>
  The queues of \<open>core/ngx_queue.c\<close> as lists: the elements from the head to the last one.
\<close>

section \<open>The operations on lists\<close>

text \<open>The stable insertion sort takes the elements in order and walks back from the last sorted one.\<close>

definition queue_insert_sorted :: "('a \<Rightarrow> 'a \<Rightarrow> int) \<Rightarrow> 'a list \<Rightarrow> 'a \<Rightarrow> 'a list" where
  "queue_insert_sorted cmp done_part q =
     (let greater = takeWhile (\<lambda>p. cmp p q > 0) (rev done_part)
      in take (length done_part - length greater) done_part @ q # rev greater)"

definition queue_sort :: "('a \<Rightarrow> 'a \<Rightarrow> int) \<Rightarrow> 'a list \<Rightarrow> 'a list" where
  "queue_sort cmp qs = foldl (queue_insert_sorted cmp) [] qs"

definition queue_middle :: "'a list \<Rightarrow> nat" where
  "queue_middle qs = length qs div 2"

lemma queue_insert_sorted_split:
  "queue_insert_sorted cmp ps q =
     rev (dropWhile (\<lambda>p. cmp p q > 0) (rev ps)) @ q # rev (takeWhile (\<lambda>p. cmp p q > 0) (rev ps))"
proof -
  let ?t = "takeWhile (\<lambda>p. cmp p q > 0) (rev ps)" and ?d = "dropWhile (\<lambda>p. cmp p q > 0) (rev ps)"
  have "ps = rev (?t @ ?d)" by simp
  then have "ps = rev ?d @ rev ?t" by (metis rev_append)
  moreover have "length ps - length ?t = length (rev ?d)"
    by (metis calculation add_diff_cancel_right' length_append length_rev)
  ultimately have "take (length ps - length ?t) ps = rev ?d" by (metis append_eq_conv_conj)
  then show ?thesis by (simp add: queue_insert_sorted_def)
qed

lemma mset_queue_insert [simp]: "mset (queue_insert_sorted cmp ps q) = add_mset q (mset ps)"
proof -
  let ?t = "takeWhile (\<lambda>p. cmp p q > 0) (rev ps)" and ?d = "dropWhile (\<lambda>p. cmp p q > 0) (rev ps)"
  have "mset ?t + mset ?d = mset (?t @ ?d)" by (simp only: mset_append)
  also have "\<dots> = mset ps" by simp
  finally show ?thesis by (simp add: queue_insert_sorted_split add.commute)
qed

lemma mset_queue_sort [simp]: "mset (queue_sort cmp qs) = mset qs"
proof -
  have "mset (foldl (queue_insert_sorted cmp) ps qs) = mset ps + mset qs" for ps
    by (induction qs arbitrary: ps) simp_all
  then show ?thesis by (simp add: queue_sort_def)
qed

text \<open>A comparison that agrees with a key makes the sort the stable sort by that key.\<close>

lemma queue_insert_key:
  fixes key :: "'a \<Rightarrow> 'k :: linorder"
  assumes cmp: "\<forall>p \<in> set ps. cmp p q > 0 \<longleftrightarrow> key q < key p" and sorted: "sorted (map key ps)"
  shows "queue_insert_sorted cmp ps q = [p \<leftarrow> ps. key p \<le> key q] @ q # [p \<leftarrow> ps. key q < key p]"
  using assms
proof (induction ps rule: rev_induct)
  case Nil
  then show ?case by (simp add: queue_insert_sorted_split)
next
  case (snoc p ps)
  show ?case
  proof (cases "cmp p q > 0")
    case True
    with snoc.prems have "key q < key p" by simp
    moreover have "queue_insert_sorted cmp ps q = [p \<leftarrow> ps. key p \<le> key q] @ q # [p \<leftarrow> ps. key q < key p]"
      using snoc.prems by (intro snoc.IH) (simp_all add: sorted_append)
    ultimately show ?thesis using True by (simp add: queue_insert_sorted_split)
  next
    case False
    with snoc.prems have le: "key p \<le> key q" by auto
    then have "\<forall>r \<in> set ps. key r \<le> key q" using snoc.prems(2) by (force simp: sorted_append)
    then have "[r \<leftarrow> ps. key r \<le> key q] = ps" "[r \<leftarrow> ps. key q < key r] = []"
      by (auto simp: filter_id_conv filter_empty_conv not_less)
    then show ?thesis using False le by (simp add: queue_insert_sorted_split not_less)
  qed
qed

lemma sorted_filter_split:
  fixes key :: "'a \<Rightarrow> 'k :: linorder"
  assumes "sorted (map key ps)"
  shows "sorted (map key ([p \<leftarrow> ps. key p \<le> key q] @ q # [p \<leftarrow> ps. key q < key p]))"
  using assms by (auto simp: sorted_append sorted_filter less_imp_le intro: order.trans)

lemma queue_sort_stable:
  fixes key :: "'a \<Rightarrow> 'k :: linorder"
  assumes "\<And>p q. p \<in> set qs \<Longrightarrow> q \<in> set qs \<Longrightarrow> cmp p q > 0 \<longleftrightarrow> key q < key p"
  shows "sorted (map key (queue_sort cmp qs))" "\<And>k. [q \<leftarrow> queue_sort cmp qs. key q = k] = [q \<leftarrow> qs. key q = k]"
proof -
  have "sorted (map key (queue_sort cmp qs)) \<and> (\<forall>k. [q \<leftarrow> queue_sort cmp qs. key q = k] = [q \<leftarrow> qs. key q = k])"
    using assms
  proof (induction qs rule: rev_induct)
    case Nil
    then show ?case by (simp add: queue_sort_def)
  next
    case (snoc q qs)
    have same: "set (queue_sort cmp qs) = set qs" by (metis mset_queue_sort set_mset_mset)
    have IH: "sorted (map key (queue_sort cmp qs))" "[q \<leftarrow> queue_sort cmp qs. key q = k] = [q \<leftarrow> qs. key q = k]" for k
      using snoc by auto
    have "queue_sort cmp (qs @ [q]) = queue_insert_sorted cmp (queue_sort cmp qs) q"
      by (simp add: queue_sort_def)
    also have "\<dots> = [p \<leftarrow> queue_sort cmp qs. key p \<le> key q] @ q # [p \<leftarrow> queue_sort cmp qs. key q < key p]"
      using snoc.prems IH(1) same by (intro queue_insert_key) auto
    finally have eq: "queue_sort cmp (qs @ [q]) = \<dots>" .
    have "[p \<leftarrow> queue_sort cmp (qs @ [q]). key p = k] = [p \<leftarrow> qs @ [q]. key p = k]" for k
    proof (cases "k \<le> key q")
      case True
      then have "[p \<leftarrow> queue_sort cmp qs. key p \<le> key q \<and> key p = k] = [p \<leftarrow> qs. key p = k]"
        "[p \<leftarrow> queue_sort cmp qs. key q < key p \<and> key p = k] = []"
        using IH(2)[of k] by (auto simp: filter_empty_conv intro: filter_cong trans[OF _ IH(2)])
      then show ?thesis by (simp add: eq conj_commute)
    next
      case False
      then have "[p \<leftarrow> queue_sort cmp qs. key p \<le> key q \<and> key p = k] = []"
        "[p \<leftarrow> queue_sort cmp qs. key q < key p \<and> key p = k] = [p \<leftarrow> qs. key p = k]"
        using IH(2)[of k] by (auto simp: filter_empty_conv not_le intro: filter_cong trans[OF _ IH(2)])
      then show ?thesis using False by (auto simp: eq conj_commute)
    qed
    then show ?case unfolding eq using sorted_filter_split[OF IH(1)] by simp
  qed
  then show "sorted (map key (queue_sort cmp qs))" "\<And>k. [q \<leftarrow> queue_sort cmp qs. key q = k] = [q \<leftarrow> qs. key q = k]"
    by auto
qed


end
