(* ===== verification/Http_Location.thy ===== *)
theory Http_Location
  imports Ngx_Queue "HOL-Library.List_Lexorder" "HOL-Library.Sublist"
begin

text \<open>
  The choice of the location of a request: \<open>http/ngx_http.c\<close> sorts the locations of a
  configuration level and builds a tree of the static ones, \<open>http/ngx_http_core_module.c\<close>
  searches it.
\<close>

section \<open>Data\<close>

text \<open>
  The fields of \<open>ngx_http_core_loc_conf_t\<close> that take part; \<open>'g\<close> is a compiled regular expression.
\<close>

datatype 'g clcf =
  Clcf (clcf_name: bytes) (exact_match: bool) (clcf_regex: "'g option") (named: bool) (noname: bool)
    (noregex: bool) (auto_redirect: bool) (clcf_locations: "'g clcf list")

text \<open>An element of the queue of locations; the queue of its nested elements is a list.\<close>

datatype 'g lq =
  Lq (lq_exact: "'g clcf option") (lq_inclusive: "'g clcf option") (lq_name: bytes) (lq_list: "'g lq list")

text \<open>The node of the tree; \<open>node_len\<close> is the \<open>u_char\<close> of the code, the bytes of the name follow it.\<close>

datatype 'g location_tree =
  No_node
| Node (left: "'g location_tree") (right: "'g location_tree") (tree: "'g location_tree")
    (node_exact: "'g clcf option") (node_inclusive: "'g clcf option") (node_auto_redirect: bool)
    (node_len: u_char) (node_name: bytes)

section \<open>The comparison of names\<close>

text \<open>The byte under a pointer into a name; the name is terminated by a NUL.\<close>

definition c_byte :: "bytes \<Rightarrow> u_char" where
  "c_byte s = (case s of [] \<Rightarrow> 0 | c # _ \<Rightarrow> c)"

fun ngx_filename_cmp :: "bytes \<Rightarrow> bytes \<Rightarrow> nat \<Rightarrow> int" where
  "ngx_filename_cmp s1 s2 0 = 0"
| "ngx_filename_cmp s1 s2 (Suc n) =
     (let c1 = c_byte s1; c2 = c_byte s2 in
      if c1 = c2 then (if c1 \<noteq> 0 then ngx_filename_cmp (tl s1) (tl s2) n else 0)
      else if c1 = 0 \<or> c2 = 0 then uint c1 - uint c2
      else (if c1 = 0x2f then 0 else uint c1) - (if c2 = 0x2f then 0 else uint c2))"

fun ngx_strcmp :: "bytes \<Rightarrow> bytes \<Rightarrow> int" where
  "ngx_strcmp [] s2 = - uint (c_byte s2)"
| "ngx_strcmp (c1 # s1) s2 =
     (if c1 = c_byte s2 then (if c1 = 0 then 0 else ngx_strcmp s1 (tl s2)) else uint c1 - uint (c_byte s2))"

section \<open>The queue of locations\<close>

definition ngx_http_add_location :: "'g lq list \<Rightarrow> 'g clcf \<Rightarrow> 'g lq list" where
  "ngx_http_add_location locations c =
     locations @
     [if exact_match c \<or> clcf_regex c \<noteq> None \<or> named c \<or> noname c
      then Lq (Some c) None (clcf_name c) []
      else Lq None (Some c) (clcf_name c) []]"

definition lq_clcf :: "'g lq \<Rightarrow> 'g clcf" where
  "lq_clcf q = (case lq_exact q of Some c \<Rightarrow> c | None \<Rightarrow> the (lq_inclusive q))"

definition ngx_http_cmp_locations :: "'g lq \<Rightarrow> 'g lq \<Rightarrow> int" where
  "ngx_http_cmp_locations lq1 lq2 =
     (let first = lq_clcf lq1; second = lq_clcf lq2 in
      if noname first \<and> \<not> noname second then 1
      else if \<not> noname first \<and> noname second then -1
      else if noname first \<or> noname second then 0
      else if named first \<and> \<not> named second then 1
      else if \<not> named first \<and> named second then -1
      else if named first \<and> named second then ngx_strcmp (clcf_name first) (clcf_name second)
      else if clcf_regex first \<noteq> None \<and> clcf_regex second = None then 1
      else if clcf_regex first = None \<and> clcf_regex second \<noteq> None then -1
      else if clcf_regex first \<noteq> None \<or> clcf_regex second \<noteq> None then 0
      else
        let rc = ngx_filename_cmp (clcf_name first) (clcf_name second)
                   (min (length (clcf_name first)) (length (clcf_name second)) + 1) in
        if rc = 0 \<and> \<not> exact_match first \<and> exact_match second then 1 else rc)"

text \<open>
  The scan of \<open>ngx_http_init_locations\<close>: the positions of the first regular expression, of the
  first named location and of the first one without a name.
\<close>

fun scan_locations :: "'g lq list \<Rightarrow> nat \<Rightarrow> nat option \<Rightarrow> nat option \<Rightarrow> nat option \<times> nat option \<times> nat" where
  "scan_locations [] q regex nmd = (regex, nmd, q)"
| "scan_locations (lq # qs) q regex nmd =
     (let c = lq_clcf lq in
      if clcf_regex c \<noteq> None
      then scan_locations qs (q + 1) (if regex = None then Some q else regex) nmd
      else if named c
      then scan_locations qs (q + 1) regex (if nmd = None then Some q else nmd)
      else if noname c then (regex, nmd, q)
      else scan_locations qs (q + 1) regex nmd)"

text \<open>The split of the queue at an element: what stays, and the array made of what goes.\<close>

definition split_at :: "nat option \<Rightarrow> 'g lq list \<Rightarrow> 'g lq list \<times> 'g clcf list" where
  "split_at k qs = (case k of None \<Rightarrow> (qs, []) | Some k \<Rightarrow> (take k qs, map (the \<circ> lq_exact) (drop k qs)))"

definition ngx_http_init_locations :: "'g lq list \<Rightarrow> 'g lq list \<times> 'g clcf list \<times> 'g clcf list" where
  "ngx_http_init_locations locations =
     (let sorted = queue_sort ngx_http_cmp_locations locations in
      case scan_locations sorted 0 None None of
        (regex, nmd, q) \<Rightarrow>
          (case split_at nmd (take q sorted) of
             (rest, named_locations) \<Rightarrow>
               (case split_at regex rest of
                  (static, regex_locations) \<Rightarrow> (static, regex_locations, named_locations))))"

section \<open>The tree\<close>

text \<open>None is the error of a duplicate location.\<close>

fun ngx_http_join_exact_locations :: "'g lq list \<Rightarrow> 'g lq list option" where
  "ngx_http_join_exact_locations (lq # lx # qs) =
     (if length (lq_name lq) = length (lq_name lx)
         \<and> ngx_filename_cmp (lq_name lq) (lq_name lx) (length (lq_name lx)) = 0
      then
        if (lq_exact lq \<noteq> None \<and> lq_exact lx \<noteq> None) \<or> (lq_inclusive lq \<noteq> None \<and> lq_inclusive lx \<noteq> None)
        then None
        else ngx_http_join_exact_locations (Lq (lq_exact lq) (lq_inclusive lx) (lq_name lq) (lq_list lq) # qs)
      else map_option ((#) lq) (ngx_http_join_exact_locations (lx # qs)))"
| "ngx_http_join_exact_locations qs = Some qs"

definition name_extends :: "bytes \<Rightarrow> 'g lq \<Rightarrow> bool" where
  "name_extends nm lx \<longleftrightarrow> \<not> (length nm > length (lq_name lx) \<or> ngx_filename_cmp nm (lq_name lx) (length nm) \<noteq> 0)"

lemma size_lq_list: "size_list size (lq_list q) < size q"
  by (cases q) simp

lemma size_takeWhile_dropWhile:
  "size_list size (takeWhile P qs) + size_list size (dropWhile P qs) = size_list size qs"
  by (induction qs) auto

lemma size_split:
  "size_list size (takeWhile P qs) \<le> size_list size qs" "size_list size (dropWhile P qs) \<le> size_list size qs"
  using size_takeWhile_dropWhile [of P qs] by simp_all

function ngx_http_create_locations_list :: "'g lq list \<Rightarrow> 'g lq list" where
  "ngx_http_create_locations_list [] = []"
| "ngx_http_create_locations_list [lq] = [lq]"
| "ngx_http_create_locations_list (lq # q # qs) =
     (if lq_inclusive lq = None then lq # ngx_http_create_locations_list (q # qs)
      else
        let tail = takeWhile (name_extends (lq_name lq)) (q # qs);
            x = dropWhile (name_extends (lq_name lq)) (q # qs) in
        if tail = [] then lq # ngx_http_create_locations_list x
        else
          let nested = ngx_http_create_locations_list (lq_list lq @ tail);
              lq = Lq (lq_exact lq) (lq_inclusive lq) (lq_name lq) nested in
          if x = [] then [lq] else lq # ngx_http_create_locations_list x)"
  by pat_completeness auto

termination
proof (relation "measure (size_list size)", goal_cases)
  case (3 lq q qs x xa)
  then show ?case
    using size_split(2) [of "name_extends (lq_name lq)" "q # qs"]
    by (simp del: dropWhile.simps)
next
  case (4 lq q qs x xa)
  then show ?case
    using size_split(1) [of "name_extends (lq_name lq)" "q # qs"] size_lq_list [of lq]
    by (simp add: size_list_append del: takeWhile.simps)
next
  case (5 lq q qs x xa xb xc)
  then show ?case
    using size_split(2) [of "name_extends (lq_name lq)" "q # qs"]
    by (simp del: dropWhile.simps)
qed simp_all

declare ngx_http_create_locations_list.simps(3) [simp del]

lemma queue_parts: "qs \<noteq> [] \<Longrightarrow> qs = take (queue_middle qs) qs @ qs ! queue_middle qs # drop (queue_middle qs + 1) qs"
  by (simp add: queue_middle_def id_take_nth_drop)

lemma size_queue_parts:
  assumes "qs \<noteq> []"
  shows "size_list size qs = size_list size (take (queue_middle qs) qs) + (size (qs ! queue_middle qs) + 1)
     + size_list size (drop (queue_middle qs + 1) qs)"
  by (subst queue_parts [OF assms]) (simp add: size_list_append)

text \<open>
  The queue is split at its middle; the element there becomes the node. \<open>prefix\<close> is the number of
  the bytes that the node above has compared.
\<close>

function ngx_http_create_locations_tree :: "'g lq list \<Rightarrow> nat \<Rightarrow> 'g location_tree" where
  "ngx_http_create_locations_tree locations pfx =
     (if locations = [] then No_node
      else
        let q = queue_middle locations;
            lq = locations ! q;
            len = length (lq_name lq) - pfx;
            auto_redir = ((case lq_exact lq of None \<Rightarrow> False | Some c \<Rightarrow> auto_redirect c)
              \<or> (case lq_inclusive lq of None \<Rightarrow> False | Some c \<Rightarrow> auto_redirect c)) in
        Node (if take q locations = [] then No_node else ngx_http_create_locations_tree (take q locations) pfx)
          (if take q locations = [] \<or> drop (q + 1) locations = [] then No_node
           else ngx_http_create_locations_tree (drop (q + 1) locations) pfx)
          (if lq_list lq = [] then No_node else ngx_http_create_locations_tree (lq_list lq) (pfx + len))
          (lq_exact lq) (lq_inclusive lq) auto_redir (word_of_nat len) (take len (drop pfx (lq_name lq))))"
  by pat_completeness auto

termination
proof (relation "measure (\<lambda>(qs, _). size_list size qs)", goal_cases)
  case (2 qs pfx q lq len r)
  then show ?case using size_queue_parts [of qs] by simp
next
  case (3 qs pfx q lq len r)
  then show ?case using size_queue_parts [of qs] by simp
next
  case (4 qs pfx q lq len r)
  then show ?case using size_queue_parts [of qs] size_lq_list [of lq] by simp
qed simp

declare ngx_http_create_locations_tree.simps [simp del]

definition ngx_http_init_static_location_trees :: "'g lq list \<Rightarrow> 'g location_tree option" where
  "ngx_http_init_static_location_trees locations =
     (if locations = [] then Some No_node
      else
        case ngx_http_join_exact_locations locations of
          None \<Rightarrow> None
        | Some locations \<Rightarrow> Some (ngx_http_create_locations_tree (ngx_http_create_locations_list locations) 0))"

section \<open>The search\<close>

text \<open>The result and the location of the request, from what the search has found so far.\<close>

fun find_static_loop :: "'g location_tree \<Rightarrow> bytes \<Rightarrow> ngx_rc \<times> 'g clcf \<Rightarrow> ngx_rc \<times> 'g clcf" where
  "find_static_loop No_node uri st = st"
| "find_static_loop (Node l r t exact inclusive redirect len name) uri (rv, conf) =
     (let n = (if length uri \<le> unat len then length uri else unat len);
          rc = ngx_filename_cmp uri name n in
      if rc \<noteq> 0 then (if rc < 0 then find_static_loop l uri (rv, conf) else find_static_loop r uri (rv, conf))
      else if length uri > unat len then
        (case inclusive of
           Some c \<Rightarrow> find_static_loop t (drop n uri) (NGX_AGAIN, c)
         | None \<Rightarrow> find_static_loop r uri (rv, conf))
      else if length uri = unat len then
        (case exact of Some c \<Rightarrow> (NGX_OK, c) | None \<Rightarrow> (NGX_AGAIN, the inclusive))
      else if length uri + 1 = unat len \<and> redirect then
        find_static_loop l uri (NGX_DONE, case exact of Some c \<Rightarrow> c | None \<Rightarrow> the inclusive)
      else find_static_loop l uri (rv, conf))"

definition ngx_http_core_find_static_location :: "'g clcf \<Rightarrow> 'g location_tree \<Rightarrow> bytes \<Rightarrow> ngx_rc \<times> 'g clcf" where
  "ngx_http_core_find_static_location loc_conf node uri = find_static_loop node uri (NGX_DECLINED, loc_conf)"

section \<open>The order of the names\<close>

text \<open>A slash is before every other byte, the end of a name before a slash.\<close>

definition byte_rank :: "u_char \<Rightarrow> nat" where
  "byte_rank c = (if c = 0 then 0 else if c = 0x2f then 1 else unat c + 1)"

lemma byte_rank_inj [simp]: "byte_rank x = byte_rank y \<longleftrightarrow> x = y"
  by (auto simp: byte_rank_def unat_eq_0 intro: word_unat_eq_iff [THEN iffD2] split: if_splits)

lemma byte_rank_zero [simp]: "byte_rank x = 0 \<longleftrightarrow> x = 0"
  by (simp add: byte_rank_def)

abbreviation ranks :: "bytes \<Rightarrow> nat list" where
  "ranks s \<equiv> map byte_rank s"

definition diverges :: "bytes \<Rightarrow> bytes \<Rightarrow> bool" where
  "diverges a b \<longleftrightarrow> (\<exists>p x y a' b'. a = p @ x # a' \<and> b = p @ y # b' \<and> byte_rank x < byte_rank y)"

lemma diverges_Cons: "diverges (x # a) (y # b) \<longleftrightarrow> byte_rank x < byte_rank y \<or> x = y \<and> diverges a b"
proof
  assume "diverges (x # a) (y # b)"
  then obtain p x' y' a' b' where "x # a = p @ x' # a'" "y # b = p @ y' # b'" "byte_rank x' < byte_rank y'"
    by (auto simp: diverges_def)
  then show "byte_rank x < byte_rank y \<or> x = y \<and> diverges a b"
    by (cases p) (auto simp: diverges_def)
next
  assume "byte_rank x < byte_rank y \<or> x = y \<and> diverges a b"
  then show "diverges (x # a) (y # b)"
  proof (elim disjE conjE)
    assume "byte_rank x < byte_rank y"
    then show ?thesis unfolding diverges_def by (intro exI [of _ "[]"]) auto
  next
    assume "x = y" "diverges a b"
    then obtain p x' y' a' b' where "a = p @ x' # a'" "b = p @ y' # b'" "byte_rank x' < byte_rank y'"
      by (auto simp: diverges_def)
    then show ?thesis using \<open>x = y\<close> unfolding diverges_def by (intro exI [of _ "y # p"]) auto
  qed
qed

lemma not_diverges_Nil [simp]: "\<not> diverges [] b" "\<not> diverges a []"
  by (auto simp: diverges_def)

lemma diverges_appendI: "diverges (take n a) (take n b) \<Longrightarrow> diverges (p @ a) (p @ b)"
proof -
  assume "diverges (take n a) (take n b)"
  then obtain q x y a' b' where "take n a = q @ x # a'" "take n b = q @ y # b'" "byte_rank x < byte_rank y"
    by (auto simp: diverges_def)
  then have "p @ a = (p @ q) @ x # a' @ drop n a" "p @ b = (p @ q) @ y # b' @ drop n b"
    by (metis append.assoc append_Cons append_take_drop_id)+
  then show ?thesis using \<open>byte_rank x < byte_rank y\<close> unfolding diverges_def by blast
qed

abbreviation (input) byte_difference :: "u_char \<Rightarrow> u_char \<Rightarrow> int" where
  "byte_difference c1 c2 \<equiv>
     (if c1 = 0 \<or> c2 = 0 then uint c1 - uint c2
      else (if c1 = 0x2f then 0 else uint c1) - (if c2 = 0x2f then 0 else uint c2))"

lemma byte_difference:
  assumes "c1 \<noteq> c2" and "c2 \<noteq> 0"
  shows "byte_difference c1 c2 < 0 \<longleftrightarrow> byte_rank c1 < byte_rank c2" and "byte_difference c1 c2 \<noteq> 0"
proof -
  have eqs: "c = 0 \<longleftrightarrow> uint c = 0" "c = 0x2f \<longleftrightarrow> uint c = 47" "unat c = nat (uint c)" "uint c \<ge> 0" for c :: u_char
    by (simp_all add: word_uint_eq_iff)
  have ne: "uint c1 \<noteq> uint c2" using assms(1) by (simp only: word_uint_eq_iff not_False_eq_True)
  have pos: "uint c2 \<noteq> 0" using assms(2) eqs(1) by metis
  show "byte_difference c1 c2 < 0 \<longleftrightarrow> byte_rank c1 < byte_rank c2"
    unfolding byte_rank_def eqs(1-3) using ne pos eqs(4) [of c1] eqs(4) [of c2]
    by (auto simp only: split: if_splits)
  show "byte_difference c1 c2 \<noteq> 0"
    unfolding eqs(1-2) using ne pos eqs(4) [of c1] eqs(4) [of c2] by (auto simp only: split: if_splits)
qed

lemma filename_cmp_take:
  assumes "n \<le> length a" "n \<le> length b" "0 \<notin> set b"
  shows "ngx_filename_cmp a b n = 0 \<longleftrightarrow> take n a = take n b"
    and "ngx_filename_cmp a b n < 0 \<longleftrightarrow> diverges (take n a) (take n b)"
    and "ngx_filename_cmp a b n > 0 \<longleftrightarrow> diverges (take n b) (take n a)"
proof -
  have "(ngx_filename_cmp a b n = 0 \<longleftrightarrow> take n a = take n b)
      \<and> (ngx_filename_cmp a b n < 0 \<longleftrightarrow> diverges (take n a) (take n b))
      \<and> (ngx_filename_cmp a b n > 0 \<longleftrightarrow> diverges (take n b) (take n a))"
    using assms
  proof (induction n arbitrary: a b)
    case 0
    then show ?case by simp
  next
    case (Suc n)
    then obtain x a' y b' where [simp]: "a = x # a'" "b = y # b'" by (metis Suc_le_length_iff)
    show ?case
    proof (cases "x = y")
      case True
      then show ?thesis using Suc by (simp add: c_byte_def diverges_Cons)
    next
      case False
      have "y \<noteq> 0" using Suc.prems by simp
      note d = byte_difference [OF False \<open>y \<noteq> 0\<close>]
      have "byte_rank x \<noteq> byte_rank y" using False by simp
      then show ?thesis
        using False d by (simp add: c_byte_def diverges_Cons Let_def) (auto simp: not_less order_less_le)
    qed
  qed
  then show "ngx_filename_cmp a b n = 0 \<longleftrightarrow> take n a = take n b"
    and "ngx_filename_cmp a b n < 0 \<longleftrightarrow> diverges (take n a) (take n b)"
    and "ngx_filename_cmp a b n > 0 \<longleftrightarrow> diverges (take n b) (take n a)"
    by auto
qed

section \<open>Names and the order\<close>

lemma ranks_less_append: "ranks a < ranks (a @ z # zs)"
  by (induction a) auto

lemma ranks_less_prefix: "strict_prefix a b \<Longrightarrow> ranks a < ranks b"
  by (metis ranks_less_append strict_prefixE')

lemma ranks_less_split: "byte_rank x < byte_rank y \<Longrightarrow> ranks (p @ x # a) < ranks (p @ y # b)"
  by (induction p) auto

lemma diverges_less: "diverges a b \<Longrightarrow> ranks a < ranks b"
  by (auto simp: diverges_def simp del: map_append intro: ranks_less_split)

lemma less_prefix_or_diverges: "ranks a < ranks b \<Longrightarrow> strict_prefix a b \<or> diverges a b"
proof (induction a arbitrary: b)
  case Nil
  then show ?case by (cases b) auto
next
  case (Cons x a)
  then show ?case by (cases b) (auto simp: diverges_Cons)
qed

lemma diverges_not_prefix: "diverges a b \<Longrightarrow> \<not> prefix a b" "diverges a b \<Longrightarrow> \<not> prefix b a"
  by (auto simp: diverges_def prefix_def)

lemma diverges_prefix_left: "diverges a b \<Longrightarrow> prefix n a \<Longrightarrow> prefix n b \<or> diverges n b"
proof (induction a arbitrary: b n)
  case Nil
  then show ?case by simp
next
  case (Cons x a)
  then show ?case by (cases b; cases n) (auto simp: diverges_Cons)
qed

lemma diverges_prefix_right: "diverges a b \<Longrightarrow> prefix n b \<Longrightarrow> prefix n a \<or> diverges a n"
proof (induction a arbitrary: b n)
  case Nil
  then show ?case by simp
next
  case (Cons x a)
  then show ?case by (cases b; cases n) (auto simp: diverges_Cons)
qed

lemma diverges_extend: "diverges a b \<Longrightarrow> diverges (a @ c) (b @ d)"
proof -
  assume "diverges a b"
  then obtain p x y a' b' where "a = p @ x # a'" "b = p @ y # b'" "byte_rank x < byte_rank y"
    by (auto simp: diverges_def)
  then have "a @ c = p @ x # a' @ c" "b @ d = p @ y # b' @ d" by simp_all
  then show ?thesis using \<open>byte_rank x < byte_rank y\<close> unfolding diverges_def by blast
qed

lemma diverges_extends: "diverges a b \<Longrightarrow> prefix a c \<Longrightarrow> prefix b d \<Longrightarrow> diverges c d"
  by (metis diverges_extend prefixE)

section \<open>The locations that matter for a URI\<close>

text \<open>
  \<open>flat\<close> lists the elements of a nested queue in the order of their names. An element matters for
  a URI when it has this name, when the URI lacks only a slash at the end, or when it is an
  inclusive location and its name is a proper prefix.
\<close>

fun flat :: "'g lq list \<Rightarrow> 'g lq list" where
  "flat [] = []"
| "flat (Lq e i n l # qs) = Lq e i n [] # flat l @ flat qs"

lemma flat_append [simp]: "flat (xs @ ys) = flat xs @ flat ys"
  by (induction xs rule: flat.induct) simp_all

lemma flat_Cons: "flat (q # qs) = Lq (lq_exact q) (lq_inclusive q) (lq_name q) [] # flat (lq_list q) @ flat qs"
  by (cases q) simp

definition lq_redirect :: "'g lq \<Rightarrow> bool" where
  "lq_redirect e \<longleftrightarrow> (\<exists>c. (lq_exact e = Some c \<or> lq_inclusive e = Some c) \<and> auto_redirect c)"

definition slash :: "bytes \<Rightarrow> bytes" where
  "slash u = u @ [0x2f]"

definition matters :: "bytes \<Rightarrow> 'g lq \<Rightarrow> bool" where
  "matters u e \<longleftrightarrow> lq_name e = u \<or> (lq_name e = slash u \<and> lq_redirect e)
     \<or> (strict_prefix (lq_name e) u \<and> lq_inclusive e \<noteq> None)"

lemma matters_prefix: "matters u e \<Longrightarrow> prefix (lq_name e) (slash u)"
  by (auto simp: matters_def slash_def prefix_order.less_imp_le)

text \<open>The longest of the proper prefixes of \<open>u\<close> of at most \<open>k - 1\<close> bytes that is a name.\<close>

fun longest :: "(bytes \<Rightarrow> 'c option) \<Rightarrow> bytes \<Rightarrow> nat \<Rightarrow> 'c option" where
  "longest I u 0 = None"
| "longest I u (Suc k) = (case I (take k u) of Some c \<Rightarrow> Some c | None \<Rightarrow> longest I u k)"

definition lq_chosen :: "'g lq \<Rightarrow> 'g clcf" where
  "lq_chosen e = (case lq_exact e of Some c \<Rightarrow> c | None \<Rightarrow> the (lq_inclusive e))"

definition inclusive_at :: "'g lq list \<Rightarrow> bytes \<Rightarrow> 'g clcf option" where
  "inclusive_at es n = Option.bind (find (\<lambda>e. lq_name e = n \<and> lq_inclusive e \<noteq> None) es) lq_inclusive"

definition pick :: "'g lq list \<Rightarrow> bytes \<Rightarrow> ngx_rc \<times> 'g clcf \<Rightarrow> ngx_rc \<times> 'g clcf" where
  "pick es u st =
     (case find (\<lambda>e. lq_name e = u) es of
        Some e \<Rightarrow> (if lq_exact e \<noteq> None then NGX_OK else NGX_AGAIN, lq_chosen e)
      | None \<Rightarrow>
          (case find (\<lambda>e. lq_name e = slash u \<and> lq_redirect e) es of
             Some e \<Rightarrow> (NGX_DONE, lq_chosen e)
           | None \<Rightarrow>
               (case longest (inclusive_at es) u (length u) of
                  Some c \<Rightarrow> (NGX_AGAIN, c)
                | None \<Rightarrow> st)))"

lemma find_filter: "(\<And>e. P e \<Longrightarrow> Q e) \<Longrightarrow> find P (filter Q es) = find P es"
  by (induction es) auto

lemma longest_cong: "(\<And>n. strict_prefix n u \<Longrightarrow> I n = J n) \<Longrightarrow> k \<le> length u \<Longrightarrow> longest I u k = longest J u k"
proof (induction k)
  case (Suc k)
  then have "strict_prefix (take k u) u"
    by (metis Suc_le_lessD length_take min_less_iff_conj order_less_irrefl prefix_order.le_less take_is_prefix)
  then show ?case using Suc by (simp split: option.split)
qed simp

lemma pick_matters: "pick (filter (matters u) es) u st = pick es u st"
proof -
  have 1: "find (\<lambda>e. lq_name e = u) (filter (matters u) es) = find (\<lambda>e. lq_name e = u) es"
    "find (\<lambda>e. lq_name e = slash u \<and> lq_redirect e) (filter (matters u) es)
       = find (\<lambda>e. lq_name e = slash u \<and> lq_redirect e) es"
    by (rule find_filter; simp add: matters_def)+
  have "inclusive_at (filter (matters u) es) n = inclusive_at es n" if "strict_prefix n u" for n
    unfolding inclusive_at_def using that by (subst find_filter) (auto simp: matters_def)
  then have "longest (inclusive_at (filter (matters u) es)) u (length u) = longest (inclusive_at es) u (length u)"
    by (intro longest_cong) auto
  then show ?thesis by (simp only: pick_def 1)
qed

lemma pick_same: "filter (matters u) es = filter (matters u) es' \<Longrightarrow> pick es u st = pick es' u st"
  by (metis pick_matters)

section \<open>The shape of a nested queue\<close>

text \<open>
  The elements nested in a location extend its name, those after an inclusive location do not;
  only an inclusive location has nested elements.
\<close>

fun nest :: "'g lq list \<Rightarrow> bool" where
  "nest [] \<longleftrightarrow> True"
| "nest (Lq e i n l # qs) \<longleftrightarrow> nest l \<and> nest qs \<and> (\<forall>x \<in> set (flat l). prefix n (lq_name x))
     \<and> (i = None \<longrightarrow> l = []) \<and> (i \<noteq> None \<longrightarrow> (\<forall>x \<in> set (flat qs). \<not> prefix n (lq_name x)))"

lemma nest_Cons: "nest (q # qs) \<longleftrightarrow> nest (lq_list q) \<and> nest qs
     \<and> (\<forall>x \<in> set (flat (lq_list q)). prefix (lq_name q) (lq_name x)) \<and> (lq_inclusive q = None \<longrightarrow> lq_list q = [])
     \<and> (lq_inclusive q \<noteq> None \<longrightarrow> (\<forall>x \<in> set (flat qs). \<not> prefix (lq_name q) (lq_name x)))"
  by (cases q) simp

lemma nest_append: "nest (xs @ ys) \<longleftrightarrow> nest xs \<and> nest ys
     \<and> (\<forall>a \<in> set xs. lq_inclusive a \<noteq> None \<longrightarrow> (\<forall>x \<in> set (flat ys). \<not> prefix (lq_name a) (lq_name x)))"
  by (induction xs) (auto simp: nest_Cons)

definition well_named :: "'g lq \<Rightarrow> bool" where
  "well_named e \<longleftrightarrow> 0 \<notin> set (lq_name e) \<and> length (lq_name e) \<le> 255 \<and> (lq_exact e \<noteq> None \<or> lq_inclusive e \<noteq> None)
     \<and> (lq_redirect e \<longrightarrow> lq_name e \<noteq> [] \<and> last (lq_name e) = 0x2f)"

text \<open>What the tree is built from, \<open>p\<close> being the name the nodes above have compared.\<close>

definition forest :: "bytes \<Rightarrow> 'g lq list \<Rightarrow> bool" where
  "forest p qs \<longleftrightarrow> nest qs \<and> sorted_wrt (<) (map (\<lambda>e. ranks (lq_name e)) (flat qs))
     \<and> (\<forall>e \<in> set (flat qs). well_named e \<and> prefix p (lq_name e))"

lemma forest_parts:
  assumes "forest p (xs @ m # ys)"
  shows "forest p xs" "forest p ys" "forest (lq_name m) (lq_list m)"
    and "well_named m" "prefix p (lq_name m)" "nest (m # ys)"
    and "\<And>e. e \<in> set (flat xs) \<Longrightarrow> ranks (lq_name e) < ranks (lq_name m)"
    and "\<And>e. e \<in> set (flat (lq_list m)) \<union> set (flat ys) \<Longrightarrow> ranks (lq_name m) < ranks (lq_name e)"
proof -
  have m: "well_named (Lq (lq_exact m) (lq_inclusive m) (lq_name m) []) \<longleftrightarrow> well_named m"
    by (simp add: well_named_def lq_redirect_def)
  show "forest p xs" "forest p ys" "forest (lq_name m) (lq_list m)"
    using assms by (auto simp: forest_def nest_append nest_Cons sorted_wrt_append flat_Cons)
  show "well_named m" "prefix p (lq_name m)" "nest (m # ys)"
    using assms m by (auto simp: forest_def nest_append flat_Cons)
  show "\<And>e. e \<in> set (flat xs) \<Longrightarrow> ranks (lq_name e) < ranks (lq_name m)"
    "\<And>e. e \<in> set (flat (lq_list m)) \<union> set (flat ys) \<Longrightarrow> ranks (lq_name m) < ranks (lq_name e)"
    using assms by (auto simp: forest_def sorted_wrt_append flat_Cons)
qed

text \<open>An element is at the top of the queue, or below an inclusive location that its name extends.\<close>

lemma flat_top:
  assumes "nest qs" "e \<in> set (flat qs)"
  obtains a where "a \<in> set qs" "prefix (lq_name a) (lq_name e)"
    "lq_inclusive a \<noteq> None \<or> (lq_name a = lq_name e \<and> lq_inclusive e = None)"
  using assms
proof (induction qs arbitrary: thesis)
  case Nil
  then show ?case by simp
next
  case (Cons q qs)
  consider "e = Lq (lq_exact q) (lq_inclusive q) (lq_name q) []" | "e \<in> set (flat (lq_list q))" | "e \<in> set (flat qs)"
    using Cons.prems(3) by (auto simp: flat_Cons)
  then show ?case
  proof cases
    case 1
    then show ?thesis using Cons.prems(1) [of q] by auto
  next
    case 2
    then show ?thesis using Cons.prems by (force simp: nest_Cons)
  next
    case 3
    then show ?thesis using Cons by (auto simp: nest_Cons)
  qed
qed

text \<open>No location at the left of a node is a proper prefix of the name of the node.\<close>

lemma left_not_prefix:
  assumes "forest p (xs @ m # ys)" "e \<in> set (flat xs)" "lq_inclusive e \<noteq> None"
  shows "\<not> prefix (lq_name e) (lq_name m)"
proof
  assume pre: "prefix (lq_name e) (lq_name m)"
  have "nest xs" using assms(1) by (simp add: forest_def nest_append)
  then obtain a where a: "a \<in> set xs" "prefix (lq_name a) (lq_name e)" "lq_inclusive a \<noteq> None"
    using assms(2,3) flat_top by metis
  moreover have "Lq (lq_exact m) (lq_inclusive m) (lq_name m) [] \<in> set (flat (m # ys))" by (simp add: flat_Cons)
  ultimately have "\<not> prefix (lq_name a) (lq_name m)"
    using assms(1) unfolding forest_def nest_append by (metis lq.sel(3))
  then show False using a(2) pre prefix_order.trans by blast
qed

section \<open>Which part of the queue matters\<close>

lemma node_left:
  assumes f: "forest p (xs @ m # ys)" and d: "diverges u (lq_name m)"
  shows "filter (matters u) (flat (xs @ m # ys)) = filter (matters u) (flat xs)"
proof -
  have "\<not> matters u e" if "ranks (lq_name m) \<le> ranks (lq_name e)" for e :: "'a lq"
  proof
    assume "matters u e"
    then have "prefix (lq_name e) (slash u)" by (rule matters_prefix)
    moreover have "diverges (slash u) (lq_name m)" using diverges_extend [OF d, of _ "[]"] by (simp add: slash_def)
    ultimately have "prefix (lq_name e) (lq_name m) \<or> diverges (lq_name e) (lq_name m)"
      using diverges_prefix_left by blast
    then have "lq_name e = lq_name m"
      using that diverges_less ranks_less_prefix
      by (metis leD prefix_order.le_imp_less_or_eq)
    then show False
      using \<open>prefix (lq_name e) (slash u)\<close> \<open>diverges (slash u) (lq_name m)\<close> diverges_not_prefix(2) by metis
  qed
  then show ?thesis
    using forest_parts(8) [OF f] by (auto simp: flat_Cons filter_empty_conv less_imp_le)
qed

lemma node_right:
  assumes f: "forest p (xs @ m # ys)" and d: "diverges (lq_name m) u"
  shows "filter (matters u) (flat (xs @ m # ys)) = filter (matters u) (flat ys)"
proof -
  have d': "diverges (lq_name m) (slash u)" using diverges_extend [OF d, of "[]"] by (simp add: slash_def)
  have left: "\<not> matters u e" if e: "e \<in> set (flat xs)" for e
  proof
    assume m: "matters u e"
    then have "prefix (lq_name e) (lq_name m) \<or> diverges (lq_name m) (lq_name e)"
      using diverges_prefix_right [OF d'] matters_prefix by blast
    then have pre: "prefix (lq_name e) (lq_name m)"
      using forest_parts(7) [OF f e] diverges_less by fastforce
    have "lq_name e \<noteq> u" "lq_name e \<noteq> slash u"
      using pre diverges_not_prefix(2) [OF d] diverges_not_prefix(2) [OF d'] by auto
    then have "lq_inclusive e \<noteq> None" using m by (simp add: matters_def)
    then show False using left_not_prefix [OF f e] pre by blast
  qed
  have below: "\<not> matters u e" if "prefix (lq_name m) (lq_name e)" for e :: "'a lq"
    using that matters_prefix diverges_not_prefix(1) [OF d'] prefix_order.trans by blast
  show ?thesis
    using left below f by (auto simp: flat_Cons filter_empty_conv forest_def nest_append nest_Cons)
qed

lemma node_prefix:
  assumes f: "forest p (xs @ m # ys)" and pre: "strict_prefix (lq_name m) u"
  shows "filter (matters u) (flat xs) = []"
    and "lq_inclusive m \<noteq> None \<Longrightarrow> filter (matters u) (flat ys) = []"
proof -
  have cmp: "prefix (lq_name e) (lq_name m) \<or> prefix (lq_name m) (lq_name e)" if "matters u e" for e :: "'a lq"
  proof -
    have "prefix (lq_name e) (slash u)" "prefix (lq_name m) (slash u)"
      using matters_prefix [OF that] pre by (auto simp: slash_def prefix_order.less_imp_le)
    then show ?thesis using prefix_same_cases by blast
  qed
  have "\<not> matters u e" if e: "e \<in> set (flat xs)" for e
  proof
    assume m: "matters u e"
    have less: "ranks (lq_name e) < ranks (lq_name m)" using forest_parts(7) [OF f e] .
    have "strict_prefix (lq_name e) (lq_name m)"
      using cmp [OF m] less ranks_less_prefix
      by (metis less_asym' order_less_irrefl prefix_order.le_imp_less_or_eq)
    then have "lq_name e \<noteq> u" "lq_name e \<noteq> slash u" "prefix (lq_name e) (lq_name m)"
      using pre unfolding slash_def strict_prefix_def
      by (metis prefix_order.antisym prefix_order.trans, metis append_prefixD prefix_order.antisym prefix_order.trans prefixI, simp)
    then show False using left_not_prefix [OF f e] m by (auto simp: matters_def)
  qed
  then show "filter (matters u) (flat xs) = []" by (simp add: filter_empty_conv)
  show "filter (matters u) (flat ys) = []" if inc: "lq_inclusive m \<noteq> None"
  proof -
    have "\<not> matters u e" if e: "e \<in> set (flat ys)" for e
    proof
      assume m: "matters u e"
      have "ranks (lq_name m) < ranks (lq_name e)" using forest_parts(8) [OF f] e by simp
      moreover have "\<not> prefix (lq_name m) (lq_name e)"
        using inc e forest_parts(6) [OF f] by (simp add: nest_Cons)
      ultimately show False
        using cmp [OF m] ranks_less_prefix [of "lq_name e" "lq_name m"]
        by (metis less_asym' prefix_order.le_imp_less_or_eq prefix_order.order_refl)
    qed
    then show ?thesis by (simp add: filter_empty_conv)
  qed
qed

lemma slash_lowest:
  assumes "strict_prefix u n" "0 \<notin> set n" "n \<noteq> slash u"
  shows "ranks (slash u) < ranks n"
proof -
  obtain z zs where n: "n = u @ z # zs" using assms(1) by (metis strict_prefixE')
  have "ranks (slash u) < ranks (u @ z # zs)"
  proof (cases "z = 0x2f")
    case True
    then have "zs \<noteq> []" using assms(3) n by (auto simp: slash_def)
    then show ?thesis
      using True ranks_less_append [of "slash u" "hd zs" "tl zs"] by (simp add: slash_def)
  next
    case False
    then have "byte_rank 0x2f < byte_rank z" using assms(2) n by (auto simp: byte_rank_def unat_gt_0)
    then show ?thesis unfolding slash_def using ranks_less_split [of "0x2f" z u "[]" zs] by simp
  qed
  then show ?thesis using n by simp
qed

lemma node_longer:
  assumes f: "forest p (xs @ m # ys)" and pre: "strict_prefix u (lq_name m)"
  shows "filter (matters u) (flat (lq_list m)) = []" "filter (matters u) (flat ys) = []"
    and "\<And>e. e \<in> set (flat xs) \<Longrightarrow> strict_prefix (lq_name e) u \<Longrightarrow> lq_inclusive e = None"
proof -
  have "\<not> matters u e" if e: "e \<in> set (flat (lq_list m)) \<union> set (flat ys)" for e
  proof
    assume "matters u e"
    then have "prefix (lq_name e) (slash u)" by (rule matters_prefix)
    then consider "lq_name e = slash u" | "prefix (lq_name e) u" by (auto simp: slash_def)
    moreover have less: "ranks (lq_name m) < ranks (lq_name e)" using forest_parts(8) [OF f e] .
    moreover have "0 \<notin> set (lq_name m)" using forest_parts(4) [OF f] by (simp add: well_named_def)
    ultimately show False
    proof cases
      case 1
      then show ?thesis using slash_lowest [OF pre \<open>0 \<notin> set (lq_name m)\<close>] less
        by (metis less_asym' order_less_irrefl)
    next
      case 2
      then have "strict_prefix (lq_name e) (lq_name m)" using pre by (rule prefix_order.le_less_trans)
      then show ?thesis using ranks_less_prefix less by (metis less_asym')
    qed
  qed
  then show "filter (matters u) (flat (lq_list m)) = []" "filter (matters u) (flat ys) = []"
    by (simp_all add: filter_empty_conv)
  show "lq_inclusive e = None" if "e \<in> set (flat xs)" "strict_prefix (lq_name e) u" for e
    using left_not_prefix [OF f that(1)] that(2) pre by (meson prefix_order.less_imp_le prefix_order.less_trans)
qed

section \<open>The search finds the choice\<close>

lemma filter_node:
  "filter P (flat (xs @ m # ys)) =
     filter P (flat xs) @ filter P [Lq (lq_exact m) (lq_inclusive m) (lq_name m) []]
       @ filter P (flat (lq_list m)) @ filter P (flat ys)"
  by (simp add: flat_Cons)

lemma longest_le: "(\<And>n. I n \<noteq> None \<Longrightarrow> length n > j) \<Longrightarrow> k \<le> Suc j \<Longrightarrow> longest I u k = None"
proof (induction k)
  case (Suc k)
  then have "length (take k u) \<le> j" by simp
  then have "I (take k u) = None" using Suc.prems(1) by (meson leD)
  then show ?case using Suc by simp
qed simp

text \<open>A node that is a proper prefix is the choice unless a longer name below it is.\<close>

lemma longest_node:
  assumes "\<And>n. J n = (if n = nm then Some c else I n)" "\<And>n. I n \<noteq> None \<Longrightarrow> length n > length nm"
    and "strict_prefix nm u" and "length nm < k" "k \<le> length u"
  shows "longest J u k = (case longest I u k of None \<Rightarrow> Some c | Some d \<Rightarrow> Some d)"
  using assms(4,5)
proof (induction k)
  case (Suc k)
  show ?case
  proof (cases "k = length nm")
    case True
    then have "take k u = nm" using assms(3) by (metis append_eq_conv_conj prefixE strict_prefix_def)
    moreover have "longest I u (Suc k) = None" using assms(2) True by (intro longest_le [where j = "length nm"]) auto
    ultimately show ?thesis using assms(1) [of nm] by simp
  next
    case False
    then have "take k u \<noteq> nm" using Suc.prems by (metis Suc_leD length_take min.absorb2)
    then show ?thesis using Suc False assms(1) by (simp split: option.split)
  qed
qed simp

lemma pick_below:
  assumes inc: "lq_inclusive m = Some c" and pre: "strict_prefix (lq_name m) u"
    and longer: "\<And>e. e \<in> set es \<Longrightarrow> length (lq_name m) < length (lq_name e)"
  shows "pick (m # es) u st = pick es u (NGX_AGAIN, c)"
proof -
  have ne: "lq_name m \<noteq> u" "lq_name m \<noteq> slash u"
    using prefix_length_less [OF pre] by (auto simp: slash_def)
  have none: "inclusive_at es n \<noteq> None \<Longrightarrow> length n > length (lq_name m)" for n
  proof -
    assume "inclusive_at es n \<noteq> None"
    then obtain e where "find (\<lambda>e. lq_name e = n \<and> lq_inclusive e \<noteq> None) es = Some e"
      unfolding inclusive_at_def by (cases "find (\<lambda>e. lq_name e = n \<and> lq_inclusive e \<noteq> None) es") simp_all
    then have "e \<in> set es \<and> lq_name e = n" by (auto simp: find_Some_iff)
    then show ?thesis using longer by blast
  qed
  have "longest (inclusive_at (m # es)) u (length u)
      = (case longest (inclusive_at es) u (length u) of None \<Rightarrow> Some c | Some d \<Rightarrow> Some d)"
    using pre none inc by (intro longest_node [where nm = "lq_name m"]) (auto simp: inclusive_at_def prefix_length_less)
  then show ?thesis using ne by (simp add: pick_def split: option.split)
qed

lemma find_none: "(\<And>e. e \<in> set es \<Longrightarrow> \<not> P e) \<Longrightarrow> find P es = None"
  by (simp add: find_None_iff)

lemma find_append: "find P (xs @ ys) = (case find P xs of None \<Rightarrow> find P ys | Some e \<Rightarrow> Some e)"
  by (induction xs) auto

lemma pick_hit:
  assumes "lq_name m = u" "\<And>e. e \<in> set xs \<Longrightarrow> lq_name e \<noteq> u"
  shows "pick (xs @ m # ys) u st = (if lq_exact m \<noteq> None then NGX_OK else NGX_AGAIN, lq_chosen m)"
  using assms by (simp add: pick_def find_append find_none)

text \<open>A node whose name has one slash more is the choice unless the name itself is at its left.\<close>

lemma pick_slash:
  assumes "lq_name m = slash u" "lq_redirect m"
    and "\<And>e. e \<in> set xs \<Longrightarrow> strict_prefix (lq_name e) u \<Longrightarrow> lq_inclusive e = None"
    and "\<And>e. e \<in> set xs \<Longrightarrow> lq_name e \<noteq> slash u"
  shows "pick (xs @ [m]) u st = pick xs u (NGX_DONE, lq_chosen m)"
proof -
  have "inclusive_at xs n = None" if "strict_prefix n u" for n
  proof -
    have "find (\<lambda>e. lq_name e = n \<and> lq_inclusive e \<noteq> None) xs = None"
      by (intro find_none) (metis assms(3) that)
    then show ?thesis by (simp add: inclusive_at_def)
  qed
  then have "longest (inclusive_at xs) u (length u) = longest (\<lambda>_. None) u (length u)"
    by (intro longest_cong) auto
  also have "\<dots> = None" by (rule longest_le [where j = "length u"]) auto
  finally have "longest (inclusive_at xs) u (length u) = None" .
  moreover have "lq_name m \<noteq> u" using assms(1) by (simp add: slash_def)
  moreover have "find (\<lambda>e. lq_name e = slash u \<and> lq_redirect e) xs = None"
    by (intro find_none) (metis assms(4))
  ultimately show ?thesis
    using assms(1,2) by (cases "find (\<lambda>e. lq_name e = u) xs") (simp_all add: pick_def find_append)
qed

lemma tree_node:
  assumes "qs \<noteq> []" and "q = queue_middle qs" and "m = qs ! q" and "pfx \<le> length (lq_name m)"
  shows "ngx_http_create_locations_tree qs pfx =
     Node (ngx_http_create_locations_tree (take q qs) pfx) (ngx_http_create_locations_tree (drop (q + 1) qs) pfx)
       (ngx_http_create_locations_tree (lq_list m) (length (lq_name m))) (lq_exact m) (lq_inclusive m)
       (lq_redirect m) (word_of_nat (length (lq_name m) - pfx)) (drop pfx (lq_name m))"
proof -
  have empty: "ngx_http_create_locations_tree [] k = No_node" for k :: nat
    by (simp add: ngx_http_create_locations_tree.simps)
  have "drop (q + 1) qs = []" if "take q qs = []"
    using that assms(1,2) by (auto simp: queue_middle_def Suc_le_eq div_eq_0_iff)
  then show ?thesis
    using assms unfolding ngx_http_create_locations_tree.simps [of qs pfx] Let_def
    by (auto simp: empty lq_redirect_def split: option.split)
qed

definition bare :: "'g lq \<Rightarrow> 'g lq" where
  "bare m = Lq (lq_exact m) (lq_inclusive m) (lq_name m) []"

lemma bare_sel [simp]:
  "lq_exact (bare m) = lq_exact m" "lq_inclusive (bare m) = lq_inclusive m" "lq_name (bare m) = lq_name m"
  "lq_redirect (bare m) = lq_redirect m" "lq_chosen (bare m) = lq_chosen m"
  by (simp_all add: bare_def lq_redirect_def lq_chosen_def split: option.split)

lemma flat_node: "flat (m # ys) = bare m # flat (lq_list m) @ flat ys"
  by (simp add: flat_Cons bare_def)

declare find_static_loop.simps(2) [simp del]

lemma pick_node_hit:
  assumes f: "forest p (xs @ m # ys)" and u: "u = lq_name m"
  shows "pick (flat (xs @ m # ys)) u st = (if lq_exact m \<noteq> None then NGX_OK else NGX_AGAIN, lq_chosen m)"
proof -
  have "lq_name e \<noteq> u" if "e \<in> set (flat xs)" for e
    using forest_parts(7) [OF f that] u by auto
  then show ?thesis unfolding flat_append flat_node using u by (subst pick_hit) simp_all
qed

lemma pick_node_below:
  assumes f: "forest p (xs @ m # ys)" and inc: "lq_inclusive m = Some c" and pre: "strict_prefix (lq_name m) u"
  shows "pick (flat (xs @ m # ys)) u st = pick (flat (lq_list m)) u (NGX_AGAIN, c)"
proof -
  have "filter (matters u) (flat (xs @ m # ys)) = filter (matters u) (bare m # flat (lq_list m))"
    using node_prefix [OF f pre] inc by (simp add: flat_node)
  then have "pick (flat (xs @ m # ys)) u st = pick (bare m # flat (lq_list m)) u st" by (rule pick_same)
  also have "\<dots> = pick (flat (lq_list m)) u (NGX_AGAIN, c)"
  proof (rule pick_below)
    fix e assume e: "e \<in> set (flat (lq_list m))"
    then have "prefix (lq_name m) (lq_name e)" using forest_parts(6) [OF f] by (simp add: nest_Cons)
    moreover have "lq_name m \<noteq> lq_name e" using forest_parts(8) [OF f] e by fastforce
    ultimately have "strict_prefix (lq_name m) (lq_name e)" by (simp add: strict_prefix_def)
    then show "length (lq_name (bare m)) < length (lq_name e)" by (simp add: prefix_length_less)
  qed (use inc pre in simp_all)
  finally show ?thesis .
qed

lemma pick_node_exact_only:
  assumes f: "forest p (xs @ m # ys)" and inc: "lq_inclusive m = None" and pre: "strict_prefix (lq_name m) u"
  shows "pick (flat (xs @ m # ys)) u st = pick (flat ys) u st"
proof (rule pick_same)
  have "lq_list m = []" using forest_parts(6) [OF f] inc by (simp add: nest_Cons)
  moreover have "\<not> matters u (bare m)"
    using pre inc prefix_length_less [OF pre] by (auto simp: matters_def slash_def)
  ultimately show "filter (matters u) (flat (xs @ m # ys)) = filter (matters u) (flat ys)"
    using node_prefix(1) [OF f pre] by (simp add: flat_node)
qed

lemma pick_node_longer:
  assumes f: "forest p (xs @ m # ys)" and pre: "strict_prefix u (lq_name m)"
  shows "pick (flat (xs @ m # ys)) u st =
     pick (flat xs) u (if length u + 1 = length (lq_name m) \<and> lq_redirect m then (NGX_DONE, lq_chosen m) else st)"
proof -
  have red: "lq_name m = slash u" if "length u + 1 = length (lq_name m)" "lq_redirect m"
  proof -
    obtain z zs where "lq_name m = u @ z # zs" using pre by (metis strict_prefixE')
    then have "lq_name m = u @ [z]" using that(1) by simp
    then show ?thesis using forest_parts(4) [OF f] that(2) by (auto simp: well_named_def slash_def)
  qed
  have "\<not> strict_prefix (lq_name m) u" "lq_name m \<noteq> u"
    using prefix_length_less [OF pre] prefix_length_less [of "lq_name m" u] by auto
  then have "matters u (bare m) \<longleftrightarrow> lq_name m = slash u \<and> lq_redirect m" by (simp add: matters_def)
  moreover have "length (slash u) = length u + 1" by (simp add: slash_def)
  ultimately have m: "matters u (bare m) \<longleftrightarrow> length u + 1 = length (lq_name m) \<and> lq_redirect m"
    using red by metis
  show ?thesis
  proof (cases "length u + 1 = length (lq_name m) \<and> lq_redirect m")
    case True
    have "filter (matters u) (flat (xs @ m # ys)) = filter (matters u) (flat xs @ [bare m])"
      using node_longer(1,2) [OF f pre] by (simp add: flat_node)
    then have "pick (flat (xs @ m # ys)) u st = pick (flat xs @ [bare m]) u st" by (rule pick_same)
    also have "\<dots> = pick (flat xs) u (NGX_DONE, lq_chosen (bare m))"
    proof (rule pick_slash)
      show "lq_inclusive e = None" if "e \<in> set (flat xs)" "strict_prefix (lq_name e) u" for e
        using node_longer(3) [OF f pre that] .
      show "lq_name e \<noteq> slash u" if "e \<in> set (flat xs)" for e
        using forest_parts(7) [OF f that] red True by fastforce
    qed (use red True in simp_all)
    finally show ?thesis using True by simp
  next
    case False
    then have "filter (matters u) (flat (xs @ m # ys)) = filter (matters u) (flat xs)"
      using node_longer(1,2) [OF f pre] m by (simp add: flat_node)
    then have "pick (flat (xs @ m # ys)) u st = pick (flat xs) u st" by (rule pick_same)
    then show ?thesis using False by (simp only: if_False)
  qed
qed

lemma find_node:
  assumes f: "forest p (xs @ m # ys)" and nm: "lq_name m = p @ s"
    and l: "\<And>st. find_static_loop l w st = pick (flat xs) (p @ w) st"
    and r: "\<And>st. find_static_loop r w st = pick (flat ys) (p @ w) st"
    and t: "\<And>w st. find_static_loop t w st = pick (flat (lq_list m)) (lq_name m @ w) st"
  shows "find_static_loop (Node l r t (lq_exact m) (lq_inclusive m) (lq_redirect m) (word_of_nat (length s)) s) w st
     = pick (flat (xs @ m # ys)) (p @ w) st"
proof -
  obtain rv conf where st: "st = (rv, conf)" by fastforce
  have fits: "length s \<le> 255" "0 \<notin> set s" "lq_exact m \<noteq> None \<or> lq_inclusive m \<noteq> None"
    using forest_parts(4) [OF f] nm by (auto simp: well_named_def)
  then have len: "unat (word_of_nat (length s) :: u_char) = length s" by (simp add: unat_of_nat take_bit_eq_mod)
  define n where "n = (if length w \<le> length s then length w else length s)"
  have n: "n \<le> length w" "n \<le> length s" by (auto simp: n_def)
  note cmp = filename_cmp_take [OF n fits(2)]
  have chosen: "(case lq_exact m of None \<Rightarrow> the (lq_inclusive m) | Some c \<Rightarrow> c) = lq_chosen m"
    by (simp add: lq_chosen_def split: option.split)
  note step = find_static_loop.simps(2) [of l r t "lq_exact m" "lq_inclusive m" "lq_redirect m"
      "word_of_nat (length s)" s w rv conf, unfolded len, folded n_def, unfolded Let_def]
  consider (less) "ngx_filename_cmp w s n < 0" | (greater) "ngx_filename_cmp w s n > 0"
    | (equal) "ngx_filename_cmp w s n = 0" by linarith
  then show ?thesis
  proof cases
    case less
    then have "diverges (p @ w) (lq_name m)" using cmp nm diverges_appendI by metis
    then show ?thesis using less l pick_same [OF node_left [OF f]] st by (simp add: step)
  next
    case greater
    then have "diverges (lq_name m) (p @ w)" using cmp nm diverges_appendI by metis
    then show ?thesis using greater r pick_same [OF node_right [OF f]] st by (simp add: step)
  next
    case equal
    then have eq: "take n w = take n s" using cmp by simp
    consider (longer) "length w > length s" | (same) "length w = length s" | (shorter) "length w < length s" by linarith
    then show ?thesis
    proof cases
      case longer
      then have w: "w = s @ drop n w" "n = length s" using eq by (auto simp: n_def) (metis append_take_drop_id)
      then have pre: "strict_prefix (lq_name m) (p @ w)" "lq_name m @ drop n w = p @ w"
        using nm longer by (metis append.assoc prefixI strict_prefixI' append_self_conv drop_eq_Nil leD same_append_eq strict_prefix_def, metis append.assoc nm)
      show ?thesis
      proof (cases "lq_inclusive m")
        case None
        then show ?thesis
          unfolding st step using longer equal r pick_node_exact_only [OF f None pre(1)] by simp
      next
        case (Some c)
        then show ?thesis
          unfolding st step using longer equal t [of "drop n w"] pre(2) pick_node_below [OF f Some pre(1)] by simp
      qed
    next
      case same
      then have hit: "p @ w = lq_name m" using eq nm by (simp add: n_def)
      show ?thesis
        unfolding st step pick_node_hit [OF f hit]
        using same equal fits(3) by (cases "lq_exact m") (auto simp: lq_chosen_def)
    next
      case shorter
      then have "s = w @ drop n s" using eq by (simp add: n_def) (metis append_take_drop_id)
      then have pre: "strict_prefix (p @ w) (lq_name m)"
        using nm shorter by (metis append.assoc prefixI strict_prefix_def order_less_irrefl same_append_eq)
      show ?thesis
        using st shorter equal l pick_node_longer [OF f pre] nm chosen by (simp add: step)
    qed
  qed
qed

lemma find_tree:
  assumes "forest p qs"
  shows "find_static_loop (ngx_http_create_locations_tree qs (length p)) w st = pick (flat qs) (p @ w) st"
  using assms
proof (induction "size_list size qs" arbitrary: qs p w st rule: less_induct)
  case less
  show ?case
  proof (cases "qs = []")
    case True
    have "longest (inclusive_at ([] :: 'a lq list)) (p @ w) (length (p @ w)) = None"
      by (rule longest_le [where j = "length (p @ w)"]) (auto simp: inclusive_at_def)
    then have "pick [] (p @ w) st = st" by (simp add: pick_def del: length_append)
    then show ?thesis using True by (simp add: ngx_http_create_locations_tree.simps)
  next
    case False
    define q m xs ys where "q = queue_middle qs" and "m = qs ! q" and "xs = take q qs" and "ys = drop (q + 1) qs"
    note parts = queue_parts [OF False, folded q_def, folded m_def xs_def ys_def]
    note sizes = size_queue_parts [OF False, folded q_def, folded m_def xs_def ys_def]
    have f: "forest p (xs @ m # ys)" using less.prems parts by simp
    obtain s where nm: "lq_name m = p @ s" using forest_parts(5) [OF f] by (auto simp: prefix_def)
    have tree: "ngx_http_create_locations_tree qs (length p) =
       Node (ngx_http_create_locations_tree xs (length p)) (ngx_http_create_locations_tree ys (length p))
         (ngx_http_create_locations_tree (lq_list m) (length (lq_name m))) (lq_exact m) (lq_inclusive m)
         (lq_redirect m) (word_of_nat (length s)) s"
      using tree_node [OF False q_def m_def, of "length p"] nm by (simp add: xs_def ys_def)
    show ?thesis
      unfolding tree
    proof (subst parts, rule find_node [OF f nm])
      show "find_static_loop (ngx_http_create_locations_tree xs (length p)) w st = pick (flat xs) (p @ w) st" for st
        using sizes forest_parts(1) [OF f] by (intro less.hyps) simp_all
      show "find_static_loop (ngx_http_create_locations_tree ys (length p)) w st = pick (flat ys) (p @ w) st" for st
        using sizes forest_parts(2) [OF f] by (intro less.hyps) simp_all
      show "find_static_loop (ngx_http_create_locations_tree (lq_list m) (length (lq_name m))) w st
          = pick (flat (lq_list m)) (lq_name m @ w) st" for w st
        using sizes forest_parts(3) [OF f] size_lq_list [of m] by (intro less.hyps) simp_all
    qed
  qed
qed


end
