(* ===== verification/Http_Location_Config.thy ===== *)
theory Http_Location_Config
  imports Http_Location
begin

text \<open>
  What the search finds for a configuration: the queue that \<open>ngx_http_init_locations\<close> sorts and
  splits, the join of exact and inclusive locations, the nesting, and from these facts that the
  tree of a level answers as the list of its locations does.
\<close>

section \<open>The sorted queue\<close>

text \<open>The static locations are those that are neither regular expressions nor named nor without a name.\<close>

definition static_location :: "'g clcf \<Rightarrow> bool" where
  "static_location c \<longleftrightarrow> clcf_regex c = None \<and> \<not> named c \<and> \<not> noname c"

text \<open>
  What the configuration parser gives: no NUL in a name, one kind of location, and the flag of
  the redirect only where a name ends in a slash (the proxying modules test that). The \<open>u_char\<close>
  of a node holds the length of the name.
\<close>

definition well_formed :: "'g clcf \<Rightarrow> bool" where
  "well_formed c \<longleftrightarrow> 0 \<notin> set (clcf_name c) \<and> length (clcf_name c) \<le> 255
     \<and> (clcf_regex c \<noteq> None \<longrightarrow> \<not> named c \<and> \<not> noname c) \<and> (named c \<longrightarrow> \<not> noname c)
     \<and> (auto_redirect c \<longrightarrow> clcf_name c \<noteq> [] \<and> last (clcf_name c) = 0x2f)"

definition location_queue :: "'g clcf list \<Rightarrow> 'g lq list" where
  "location_queue locs = foldl ngx_http_add_location [] locs"

definition queue_element :: "'g clcf \<Rightarrow> 'g lq" where
  "queue_element c =
     (if exact_match c \<or> \<not> static_location c then Lq (Some c) None (clcf_name c) [] else Lq None (Some c) (clcf_name c) [])"

lemma location_queue_map: "location_queue locs = map queue_element locs"
proof -
  have add: "ngx_http_add_location qs c = qs @ [queue_element c]" for qs :: "'a lq list" and c
    by (simp add: ngx_http_add_location_def queue_element_def static_location_def)
  have "foldl ngx_http_add_location qs locs = qs @ map queue_element locs" for qs
    by (induction locs arbitrary: qs) (simp_all add: add)
  then show ?thesis by (simp add: location_queue_def)
qed

lemma queue_element_sel [simp]:
  "lq_clcf (queue_element c) = c" "lq_name (queue_element c) = clcf_name c" "lq_list (queue_element c) = []"
  "lq_exact (queue_element c) = (if exact_match c \<or> \<not> static_location c then Some c else None)"
  "lq_inclusive (queue_element c) = (if exact_match c \<or> \<not> static_location c then None else Some c)"
  by (simp_all add: queue_element_def lq_clcf_def)

text \<open>The key that the comparison sorts by: the kind, then the name, then exact before inclusive.\<close>

definition location_kind :: "'g clcf \<Rightarrow> nat" where
  "location_kind c = (if noname c then 3 else if named c then 2 else if clcf_regex c \<noteq> None then 1 else 0)"

definition location_key :: "'g clcf \<Rightarrow> nat list" where
  "location_key c =
     location_kind c #
     (if location_kind c = 2 then map unat (clcf_name c)
      else if location_kind c = 0 then ranks (clcf_name c) @ [0, if exact_match c then 0 else 1] else [])"

lemma c_byte_tl: "0 \<notin> set s \<Longrightarrow> c_byte s = 0 \<longleftrightarrow> s = []"
  by (cases s) (auto simp: c_byte_def)

lemma filename_cmp_terminated:
  assumes "0 \<notin> set a" "0 \<notin> set b"
  shows "ngx_filename_cmp a b (min (length a) (length b) + 1) > 0 \<longleftrightarrow> ranks b < ranks a"
    and "ngx_filename_cmp a b (min (length a) (length b) + 1) = 0 \<longleftrightarrow> a = b"
proof -
  have "(ngx_filename_cmp a b (min (length a) (length b) + 1) > 0 \<longleftrightarrow> ranks b < ranks a)
      \<and> (ngx_filename_cmp a b (min (length a) (length b) + 1) = 0 \<longleftrightarrow> a = b)"
    using assms
  proof (induction a arbitrary: b)
    case Nil
    then show ?case by (cases b) (auto simp: c_byte_def word_uint_eq_iff not_less)
  next
    case (Cons x a)
    show ?case
    proof (cases b)
      case Nil
      have "uint x > 0" using Cons.prems by (simp add: word_uint_eq_iff order_less_le)
      then show ?thesis using Nil Cons.prems by (simp add: c_byte_def)
    next
      case [simp]: (Cons y b')
      show ?thesis
      proof (cases "x = y")
        case True
        then show ?thesis using Cons.IH [of b'] Cons.prems by (simp add: c_byte_def)
      next
        case False
        then have "x \<noteq> y" "y \<noteq> 0" "byte_rank x \<noteq> byte_rank y" using Cons.prems by auto
        then show ?thesis
          using byte_difference [of x y] by (simp add: c_byte_def Let_def) (auto simp: not_less order_less_le)
      qed
    qed
  qed
  then show "ngx_filename_cmp a b (min (length a) (length b) + 1) > 0 \<longleftrightarrow> ranks b < ranks a"
    and "ngx_filename_cmp a b (min (length a) (length b) + 1) = 0 \<longleftrightarrow> a = b" by auto
qed

lemma strcmp_terminated:
  assumes "0 \<notin> set a" "0 \<notin> set b"
  shows "ngx_strcmp a b > 0 \<longleftrightarrow> map unat b < map unat a"
  using assms
proof (induction a b rule: ngx_strcmp.induct)
  case (1 b)
  then show ?case by (cases b) (auto simp: c_byte_def not_less)
next
  case (2 x a b)
  show ?case
  proof (cases b)
    case Nil
    then show ?thesis using 2(2) by (auto simp: c_byte_def word_uint_eq_iff order_less_le)
  next
    case (Cons y b')
    have "uint y < uint x \<longleftrightarrow> unat y < unat x" "unat x = unat y \<longleftrightarrow> x = y"
      by (simp_all flip: word_less_def word_less_nat_alt add: word_unat_eq_iff)
    then show ?thesis using 2 Cons by (auto simp: c_byte_def)
  qed
qed

lemma byte_rank_pos [simp]: "0 < byte_rank c \<longleftrightarrow> c \<noteq> 0"
  by (metis byte_rank_zero gr0I less_irrefl)

lemma ranks_append_less: "0 \<notin> set a \<Longrightarrow> 0 \<notin> set b \<Longrightarrow>
    ranks a @ 0 # x < ranks b @ 0 # y \<longleftrightarrow> ranks a < ranks b \<or> a = b \<and> x < y"
proof (induction a arbitrary: b)
  case Nil
  then show ?case by (cases b) auto
next
  case (Cons z a)
  then show ?case by (cases b) auto
qed

lemma cmp_static_key:
  assumes "well_formed c" "well_formed d" and "static_location c" "static_location d"
  shows "ngx_http_cmp_locations (queue_element c) (queue_element d) > 0 \<longleftrightarrow> location_key d < location_key c"
proof -
  have nul: "0 \<notin> set (clcf_name c)" "0 \<notin> set (clcf_name d)" using assms by (auto simp: well_formed_def)
  define rc where "rc = ngx_filename_cmp (clcf_name c) (clcf_name d) (min (length (clcf_name c)) (length (clcf_name d)) + 1)"
  have rc: "rc > 0 \<longleftrightarrow> ranks (clcf_name d) < ranks (clcf_name c)" "rc = 0 \<longleftrightarrow> clcf_name c = clcf_name d"
    unfolding rc_def by (rule filename_cmp_terminated [OF nul])+
  have "ngx_http_cmp_locations (queue_element c) (queue_element d)
      = (if rc = 0 \<and> \<not> exact_match c \<and> exact_match d then 1 else rc)"
    using assms(3,4) by (simp add: ngx_http_cmp_locations_def static_location_def rc_def Let_def del: ngx_filename_cmp.simps)
  moreover have "location_key d < location_key c \<longleftrightarrow>
      ranks (clcf_name d) < ranks (clcf_name c) \<or> clcf_name c = clcf_name d \<and> \<not> exact_match c \<and> exact_match d"
    using assms(3,4) ranks_append_less [OF nul(2) nul(1)]
    by (auto simp: location_key_def location_kind_def static_location_def)
  ultimately show ?thesis using rc by auto
qed

lemma cmp_locations_key:
  assumes "well_formed c" "well_formed d"
  shows "ngx_http_cmp_locations (queue_element c) (queue_element d) > 0 \<longleftrightarrow> location_key d < location_key c"
proof (cases "static_location c \<and> static_location d")
  case True
  then show ?thesis using assms cmp_static_key by blast
next
  case False
  have nul: "0 \<notin> set (clcf_name c)" "0 \<notin> set (clcf_name d)" using assms by (auto simp: well_formed_def)
  note defs = ngx_http_cmp_locations_def location_key_def location_kind_def Let_def strcmp_terminated [OF nul]
  have regex: "clcf_regex e \<noteq> None \<Longrightarrow> \<not> named e \<and> \<not> noname e" "named e \<Longrightarrow> \<not> noname e" if "well_formed e" for e :: "'a clcf"
    using that by (auto simp: well_formed_def)
  show ?thesis
    using False regex [OF assms(1)] regex [OF assms(2)]
    by (cases "noname c"; cases "noname d"; cases "named c"; cases "named d";
        cases "clcf_regex c = None"; cases "clcf_regex d = None"; simp add: defs static_location_def)
qed

section \<open>The three parts of the queue\<close>

lemma sorted_kinds:
  fixes f :: "'a \<Rightarrow> nat"
  assumes "sorted (map f qs)" "\<forall>q \<in> set qs. f q \<le> 3"
  shows "qs = [q \<leftarrow> qs. f q = 0] @ [q \<leftarrow> qs. f q = 1] @ [q \<leftarrow> qs. f q = 2] @ [q \<leftarrow> qs. f q = 3]"
  using assms
proof (induction qs)
  case (Cons q qs)
  have ge: "\<forall>r \<in> set qs. f q \<le> f r" using Cons.prems by simp
  then have none: "[r \<leftarrow> qs. f r = k] = []" if "k < f q" for k
    using that by (auto simp: filter_empty_conv)
  have IH: "qs = [q \<leftarrow> qs. f q = 0] @ [q \<leftarrow> qs. f q = 1] @ [q \<leftarrow> qs. f q = 2] @ [q \<leftarrow> qs. f q = 3]"
    using Cons by simp
  consider "f q = 0" | "f q = 1" | "f q = 2" | "f q = 3" using Cons.prems(2) by (auto simp: le_Suc_eq numeral_3_eq_3)
  then show ?case by cases (use IH none in auto)
qed simp

definition lq_kind :: "'g lq \<Rightarrow> nat" where
  "lq_kind q = location_kind (lq_clcf q)"

lemma scan_static:
  assumes "\<forall>q \<in> set qs. static_location (lq_clcf q)"
  shows "scan_locations (qs @ rest) k r n = scan_locations rest (k + length qs) r n"
  using assms by (induction qs arbitrary: k) (auto simp: static_location_def Let_def)

lemma scan_regex:
  assumes "\<forall>q \<in> set qs. clcf_regex (lq_clcf q) \<noteq> None"
  shows "scan_locations (qs @ rest) k r n =
     scan_locations rest (k + length qs) (if qs = [] \<or> r \<noteq> None then r else Some k) n"
  using assms by (induction qs arbitrary: k r) (auto simp: Let_def)

lemma scan_named:
  assumes "\<forall>q \<in> set qs. clcf_regex (lq_clcf q) = None \<and> named (lq_clcf q)"
  shows "scan_locations (qs @ rest) k r n =
     scan_locations rest (k + length qs) r (if qs = [] \<or> n \<noteq> None then n else Some k)"
  using assms by (induction qs arbitrary: k n) (auto simp: Let_def)

lemma scan_noname:
  assumes "\<forall>q \<in> set qs. clcf_regex (lq_clcf q) = None \<and> \<not> named (lq_clcf q) \<and> noname (lq_clcf q)"
  shows "scan_locations qs k r n = (r, n, k)"
  using assms by (cases qs) (auto simp: Let_def)

definition sorted_locations :: "'g clcf list \<Rightarrow> 'g lq list" where
  "sorted_locations locs = queue_sort ngx_http_cmp_locations (location_queue locs)"

lemma set_queue_sort [simp]: "set (queue_sort cmp qs) = set qs"
  by (metis mset_queue_sort set_mset_mset)

text \<open>
  The sort by the key leaves the regular expressions in the order of the configuration, and brings
  the static locations in the order of their names.
\<close>

lemma queue_element_inverse: "q \<in> queue_element ` A \<Longrightarrow> queue_element (lq_clcf q) = q"
  by auto

lemma sorted_locations_key:
  assumes "\<forall>c \<in> set locs. well_formed c"
  shows "sorted (map (location_key \<circ> lq_clcf) (sorted_locations locs))"
    and "[q \<leftarrow> sorted_locations locs. location_key (lq_clcf q) = k] = [q \<leftarrow> location_queue locs. location_key (lq_clcf q) = k]"
proof -
  have cmp: "ngx_http_cmp_locations p q > 0 \<longleftrightarrow> (location_key \<circ> lq_clcf) q < (location_key \<circ> lq_clcf) p"
    if pq: "p \<in> set (location_queue locs)" "q \<in> set (location_queue locs)" for p q
  proof -
    obtain c d where "c \<in> set locs" "d \<in> set locs" "p = queue_element c" "q = queue_element d"
      using pq by (auto simp: location_queue_map)
    then show ?thesis using assms cmp_locations_key [of c d] by simp
  qed
  show "sorted (map (location_key \<circ> lq_clcf) (sorted_locations locs))"
    unfolding sorted_locations_def by (rule queue_sort_stable(1)) (rule cmp)
  show "[q \<leftarrow> sorted_locations locs. location_key (lq_clcf q) = k] = [q \<leftarrow> location_queue locs. location_key (lq_clcf q) = k]"
    using queue_sort_stable(2) [of "location_queue locs" ngx_http_cmp_locations "location_key \<circ> lq_clcf" k, OF cmp]
    by (simp add: sorted_locations_def)
qed

lemma kind_le: "location_kind c \<le> 3"
  by (simp add: location_kind_def)

lemma kind_of_key: "hd (location_key c) = location_kind c"
  by (simp add: location_key_def)

lemma sorted_locations_kind:
  assumes "\<forall>c \<in> set locs. well_formed c"
  shows "sorted (map lq_kind (sorted_locations locs))"
proof -
  have "location_kind c \<le> location_kind d" if "location_key c \<le> location_key d" for c d :: "'a clcf"
    using that by (auto simp: location_key_def)
  then show ?thesis
    using sorted_locations_key(1) [OF assms] unfolding sorted_wrt_map lq_kind_def comp_def
    by (metis (no_types, lifting) sorted_wrt_mono_rel)
qed

definition static_part :: "'g clcf list \<Rightarrow> 'g lq list" where
  "static_part locs = [q \<leftarrow> sorted_locations locs. lq_kind q = 0]"

lemma init_locations_parts:
  assumes wf: "\<forall>c \<in> set locs. well_formed c"
  shows "ngx_http_init_locations (location_queue locs) =
     (static_part locs, [c \<leftarrow> locs. clcf_regex c \<noteq> None],
      map lq_clcf [q \<leftarrow> sorted_locations locs. lq_kind q = 2])"
proof -
  let ?s = "sorted_locations locs"
  define k where "k i = [q \<leftarrow> ?s. lq_kind q = i]" for i
  have mem: "q \<in> queue_element ` set locs" if "q \<in> set ?s" for q
    using that by (simp add: sorted_locations_def location_queue_map)
  have kinds: "?s = k 0 @ k 1 @ k 2 @ k 3"
    unfolding k_def by (rule sorted_kinds [OF sorted_locations_kind [OF wf]]) (simp add: lq_kind_def kind_le)
  have wfs: "well_formed (lq_clcf q)" if "q \<in> set ?s" for q using mem [OF that] wf by auto
  have 0: "\<forall>q \<in> set (k 0). static_location (lq_clcf q)"
    by (auto simp: k_def lq_kind_def location_kind_def static_location_def split: if_splits)
  have 1: "\<forall>q \<in> set (k 1). clcf_regex (lq_clcf q) \<noteq> None"
    by (auto simp: k_def lq_kind_def location_kind_def split: if_splits)
  have 2: "\<forall>q \<in> set (k 2). clcf_regex (lq_clcf q) = None \<and> named (lq_clcf q)"
    using wfs by (auto simp: k_def lq_kind_def location_kind_def well_formed_def split: if_splits)
  have 3: "\<forall>q \<in> set (k 3). clcf_regex (lq_clcf q) = None \<and> \<not> named (lq_clcf q) \<and> noname (lq_clcf q)"
    using wfs by (auto simp: k_def lq_kind_def location_kind_def well_formed_def split: if_splits)
  have exact: "map (the \<circ> lq_exact) (k i) = map lq_clcf (k i)" if "i = 1 \<or> i = 2" for i
  proof (rule map_cong [OF refl])
    fix q assume "q \<in> set (k i)"
    then have q: "q \<in> set ?s" "lq_kind q \<noteq> 0" using that by (auto simp: k_def)
    then have "\<not> static_location (lq_clcf q)"
      by (auto simp: lq_kind_def location_kind_def static_location_def split: if_splits)
    then show "(the \<circ> lq_exact) q = lq_clcf q"
      using mem [OF q(1)] by auto
  qed
  have regex: "map lq_clcf (k 1) = [c \<leftarrow> locs. clcf_regex c \<noteq> None]"
  proof -
    have iff: "location_key c = [1] \<longleftrightarrow> location_kind c = 1" for c :: "'a clcf"
      by (simp add: location_key_def)
    have "k 1 = [q \<leftarrow> location_queue locs. location_key (lq_clcf q) = [1]]"
      unfolding k_def lq_kind_def iff [symmetric] by (rule sorted_locations_key(2) [OF wf])
    also have "map lq_clcf \<dots> = [c \<leftarrow> locs. location_kind c = 1]"
      by (simp add: location_queue_map filter_map comp_def iff del: One_nat_def)
    also have "\<dots> = [c \<leftarrow> locs. clcf_regex c \<noteq> None]"
      using wf by (intro filter_cong) (auto simp: location_kind_def well_formed_def)
    finally show ?thesis .
  qed
  have scan: "scan_locations ?s 0 None None =
     (if k 1 = [] then None else Some (length (k 0)), if k 2 = [] then None else Some (length (k 0) + length (k 1)),
      length (k 0) + length (k 1) + length (k 2))"
    unfolding kinds scan_static [OF 0] scan_regex [OF 1] scan_named [OF 2] scan_noname [OF 3] by simp
  have all: "take (length (k 0) + length (k 1) + length (k 2)) ?s = k 0 @ k 1 @ k 2"
    by (subst kinds) simp
  have nmd: "split_at (if k 2 = [] then None else Some (length (k 0) + length (k 1))) (k 0 @ k 1 @ k 2)
      = (k 0 @ k 1, map lq_clcf (k 2))"
    using exact [of 2] by (simp add: split_at_def)
  have rgx: "split_at (if k 1 = [] then None else Some (length (k 0))) (k 0 @ k 1) = (k 0, map lq_clcf (k 1))"
    using exact [of 1] by (simp add: split_at_def)
  show ?thesis
    unfolding ngx_http_init_locations_def sorted_locations_def [symmetric] Let_def scan prod.case all nmd rgx
    by (simp only: regex) (simp add: k_def static_part_def)
qed

section \<open>The joined queue\<close>

text \<open>
  An exact and an inclusive location of one name become one element. \<open>names_location\<close> says
  which locations of a name a queue holds.
\<close>

definition names_location :: "'g lq list \<Rightarrow> bytes \<Rightarrow> bool \<Rightarrow> 'g clcf \<Rightarrow> bool" where
  "names_location qs n exact c \<longleftrightarrow> (\<exists>q \<in> set qs. lq_name q = n \<and> (if exact then lq_exact q else lq_inclusive q) = Some c)"

definition before :: "'g lq \<Rightarrow> 'g lq \<Rightarrow> bool" where
  "before a b \<longleftrightarrow> ranks (lq_name a) < ranks (lq_name b)
     \<or> lq_name a = lq_name b \<and> (lq_exact a \<noteq> None \<or> lq_exact b = None)"

definition simple_element :: "'g lq \<Rightarrow> bool" where
  "simple_element q \<longleftrightarrow> lq_list q = [] \<and> 0 \<notin> set (lq_name q) \<and> (lq_exact q \<noteq> None \<or> lq_inclusive q \<noteq> None)"

lemma filename_cmp_same:
  "length a = length b \<and> ngx_filename_cmp a b (length b) = 0 \<longleftrightarrow> a = b" if "0 \<notin> set b"
  using filename_cmp_take(1) [of "length b" a b] that by auto

lemma merged:
  assumes "sorted_wrt before (lq # lx # qs)" "\<forall>q \<in> set (lq # lx # qs). simple_element q"
    and nm: "lq_name lq = lq_name lx"
    and dup: "\<not> (lq_exact lq \<noteq> None \<and> lq_exact lx \<noteq> None \<or> lq_inclusive lq \<noteq> None \<and> lq_inclusive lx \<noteq> None)"
    and m: "m = Lq (lq_exact lq) (lq_inclusive lx) (lq_name lq) (lq_list lq)"
  shows "lq_exact lq \<noteq> None" "lq_inclusive lq = None" "lq_exact lx = None" "lq_inclusive lx \<noteq> None"
    and "sorted_wrt before (m # qs)" "\<forall>q \<in> set (m # qs). simple_element q"
proof -
  have b: "before lq lx" "\<forall>q \<in> set qs. before lq q" "sorted_wrt before qs" using assms(1) by simp_all
  have s: "simple_element lq" "simple_element lx" using assms(2) by simp_all
  show some: "lq_exact lq \<noteq> None" "lq_inclusive lq = None" "lq_exact lx = None" "lq_inclusive lx \<noteq> None"
    using dup b(1) s nm by (auto simp: before_def simple_element_def)
  have "before m q \<longleftrightarrow> before lq q" for q by (simp add: before_def m)
  then show "sorted_wrt before (m # qs)" using b by simp
  show "\<forall>q \<in> set (m # qs). simple_element q" using assms(2) some by (simp add: simple_element_def m)
qed

lemma joined:
  assumes "sorted_wrt before qs" "\<forall>q \<in> set qs. simple_element q" "ngx_http_join_exact_locations qs = Some es"
  shows "sorted_wrt (\<lambda>a b. ranks (lq_name a) < ranks (lq_name b)) es \<and> (\<forall>q \<in> set es. simple_element q)
     \<and> names_location es = names_location qs \<and> lq_name ` set es = lq_name ` set qs"
  using assms
proof (induction qs arbitrary: es rule: ngx_http_join_exact_locations.induct)
  case (1 lq lx qs)
  have nul: "0 \<notin> set (lq_name lx)" using "1.prems"(2) by (simp add: simple_element_def)
  let ?same = "length (lq_name lq) = length (lq_name lx) \<and> ngx_filename_cmp (lq_name lq) (lq_name lx) (length (lq_name lx)) = 0"
  have same_iff: "?same \<longleftrightarrow> lq_name lq = lq_name lx" by (rule filename_cmp_same [OF nul])
  show ?case
  proof (cases ?same)
    case True
    define m where "m = Lq (lq_exact lq) (lq_inclusive lx) (lq_name lq) (lq_list lq)"
    have dup: "\<not> (lq_exact lq \<noteq> None \<and> lq_exact lx \<noteq> None \<or> lq_inclusive lq \<noteq> None \<and> lq_inclusive lx \<noteq> None)"
      and es: "ngx_http_join_exact_locations (m # qs) = Some es"
      using "1.prems"(3) True by (auto simp: m_def split: if_splits)
    have nm: "lq_name lq = lq_name lx" using True same_iff by blast
    note mrg = merged [OF "1.prems"(1,2) nm dup m_def]
    note some = mrg(1-4)
    have "names_location (m # qs) = names_location (lq # lx # qs)"
      using some nm by (intro ext) (auto simp: names_location_def m_def)
    moreover have "lq_name ` set (m # qs) = lq_name ` set (lq # lx # qs)" using nm by (auto simp: m_def)
    ultimately show ?thesis using "1.IH"(1) [OF True dup, folded m_def, OF mrg(5,6) es] by simp
  next
    case False
    then obtain es' where es: "es = lq # es'" "ngx_http_join_exact_locations (lx # qs) = Some es'"
      using "1.prems"(3) by (auto split: if_splits)
    have IH: "sorted_wrt (\<lambda>a b. ranks (lq_name a) < ranks (lq_name b)) es' \<and> (\<forall>q \<in> set es'. simple_element q)
     \<and> names_location es' = names_location (lx # qs) \<and> lq_name ` set es' = lq_name ` set (lx # qs)"
      using "1.IH"(2) [OF False] es(2) "1.prems"(1,2) by simp
    have less: "ranks (lq_name lq) < ranks (lq_name lx)"
      using "1.prems"(1) False same_iff by (auto simp: before_def)
    have "ranks (lq_name lq) < ranks (lq_name q)" if "q \<in> set qs" for q
    proof -
      have "ranks (lq_name lx) \<le> ranks (lq_name q)" using "1.prems"(1) that by (auto simp: before_def)
      then show ?thesis using less by simp
    qed
    then have lt: "\<forall>n \<in> lq_name ` set (lx # qs). ranks (lq_name lq) < ranks n" using less by auto
    have names: "names_location es n e c \<longleftrightarrow> names_location (lq # lx # qs) n e c" for n e c
      using IH unfolding es(1) by (simp add: names_location_def fun_eq_iff)
    have "\<forall>q \<in> set es'. ranks (lq_name lq) < ranks (lq_name q)" using IH lt by (metis imageI)
    then show ?thesis using IH "1.prems"(2) names by (auto simp: es(1) fun_eq_iff)
  qed
qed (auto simp: )

text \<open>The join refuses exactly the queues with two locations of one name and one kind.\<close>

lemma join_refuses:
  assumes "sorted_wrt before qs" "\<forall>q \<in> set qs. simple_element q"
  shows "ngx_http_join_exact_locations qs = None \<longleftrightarrow>
     \<not> sorted_wrt (\<lambda>a b. lq_name a = lq_name b \<longrightarrow> (lq_exact a = None \<or> lq_exact b = None)
          \<and> (lq_inclusive a = None \<or> lq_inclusive b = None)) qs"
  using assms
proof (induction qs rule: ngx_http_join_exact_locations.induct)
  case (1 lq lx qs)
  have nul: "0 \<notin> set (lq_name lx)" using "1.prems"(2) by (simp add: simple_element_def)
  let ?same = "length (lq_name lq) = length (lq_name lx) \<and> ngx_filename_cmp (lq_name lq) (lq_name lx) (length (lq_name lx)) = 0"
  have same_iff: "?same \<longleftrightarrow> lq_name lq = lq_name lx" by (rule filename_cmp_same [OF nul])
  show ?case
  proof (cases ?same)
    case True
    define m where "m = Lq (lq_exact lq) (lq_inclusive lx) (lq_name lq) (lq_list lq)"
    have nm: "lq_name lq = lq_name lx" using True same_iff by blast
    show ?thesis
    proof (cases "lq_exact lq \<noteq> None \<and> lq_exact lx \<noteq> None \<or> lq_inclusive lq \<noteq> None \<and> lq_inclusive lx \<noteq> None")
      case dup: True
      then show ?thesis using True nm by auto
    next
      case dup: False
      note mrg = merged [OF "1.prems"(1,2) nm dup m_def]
      note some = mrg(1-4)
      have "ngx_http_join_exact_locations (lq # lx # qs) = ngx_http_join_exact_locations (m # qs)"
        unfolding ngx_http_join_exact_locations.simps(1) if_P [OF True] if_not_P [OF dup] m_def ..
      then show ?thesis
        using "1.IH"(1) [OF True dup, folded m_def, OF mrg(5,6)] some nm by (auto simp: m_def)
    qed
  next
    case False
    have less: "ranks (lq_name lq) < ranks (lq_name lx)"
      using "1.prems"(1) False same_iff by (auto simp: before_def)
    have "lq_name lq \<noteq> lq_name q" if "q \<in> set (lx # qs)" for q
    proof -
      have "ranks (lq_name lx) \<le> ranks (lq_name q)" using "1.prems"(1) that by (auto simp: before_def)
      then show ?thesis using less by auto
    qed
    then show ?thesis using "1.IH"(2) [OF False] False "1.prems" by auto
  qed
qed auto


section \<open>The static part is a forest\<close>

lemma static_part_elements:
  assumes "\<forall>c \<in> set locs. well_formed c"
  shows "set (static_part locs) = queue_element ` {c \<in> set locs. static_location c}"
proof -
  have "lq_kind q = 0 \<longleftrightarrow> static_location (lq_clcf q)" for q :: "'a lq"
    by (auto simp: lq_kind_def location_kind_def static_location_def)
  then show ?thesis by (auto simp: static_part_def sorted_locations_def location_queue_map)
qed

lemma static_part_sorted:
  assumes wf: "\<forall>c \<in> set locs. well_formed c"
  shows "sorted_wrt before (static_part locs)" "\<forall>q \<in> set (static_part locs). simple_element q"
proof -
  have "before (queue_element c) (queue_element d)"
    if "static_location c" "static_location d" "well_formed c" "well_formed d" "location_key c \<le> location_key d" for c d :: "'a clcf"
  proof -
    have "0 \<notin> set (clcf_name c)" "0 \<notin> set (clcf_name d)" using that by (auto simp: well_formed_def)
    then have "\<not> (ranks (clcf_name d) < ranks (clcf_name c) \<or> clcf_name d = clcf_name c \<and> \<not> exact_match c \<and> exact_match d)"
      using that ranks_append_less [of "clcf_name d" "clcf_name c"]
      by (auto simp: location_key_def location_kind_def static_location_def not_le [symmetric])
    moreover have "ranks (clcf_name c) = ranks (clcf_name d) \<longleftrightarrow> clcf_name c = clcf_name d"
      by (rule inj_map_eq_map) (simp add: inj_on_def)
    ultimately show ?thesis using that(1,2) by (auto simp: before_def not_less order_le_less)
  qed
  note pair = this
  have "sorted_wrt (\<lambda>p q. location_key (lq_clcf p) \<le> location_key (lq_clcf q)) (static_part locs)"
    using sorted_locations_key(1) [OF wf] unfolding static_part_def sorted_wrt_map comp_def
    by (rule sorted_wrt_filter)
  then show "sorted_wrt before (static_part locs)"
  proof (rule sorted_wrt_mono_rel [rotated])
    fix p q
    assume "p \<in> set (static_part locs)" "q \<in> set (static_part locs)"
      "location_key (lq_clcf p) \<le> location_key (lq_clcf q)"
    then show "before p q" using pair wf by (auto simp: static_part_elements [OF wf])
  qed
  show "\<forall>q \<in> set (static_part locs). simple_element q"
    using wf by (auto simp: static_part_elements [OF wf] simple_element_def well_formed_def)
qed

lemma name_extends_prefix:
  assumes "0 \<notin> set (lq_name x)"
  shows "name_extends nm x \<longleftrightarrow> prefix nm (lq_name x)"
proof (cases "length nm \<le> length (lq_name x)")
  case True
  then have "name_extends nm x \<longleftrightarrow> nm = take (length nm) (lq_name x)"
    using filename_cmp_take(1) [of "length nm" nm "lq_name x"] assms by (auto simp: name_extends_def)
  then show ?thesis by (metis append_eq_conv_conj prefix_def take_is_prefix)
next
  case False
  then show ?thesis using prefix_length_le by (auto simp: name_extends_def)
qed

text \<open>Between a name and an extension of it there are only extensions.\<close>

lemma prefix_between:
  assumes "ranks n < ranks y" "ranks y < ranks z" "prefix n z"
  shows "prefix n y"
proof (rule ccontr)
  assume "\<not> prefix n y"
  then have "diverges n y" using less_prefix_or_diverges [OF assms(1)] by (auto simp: strict_prefix_def)
  then have "diverges z y" using assms(3) diverges_extends by blast
  then show False using diverges_less assms(2) by fastforce
qed

abbreviation sorted_names :: "'g lq list \<Rightarrow> bool" where
  "sorted_names qs \<equiv> sorted_wrt (\<lambda>a b. ranks (lq_name a) < ranks (lq_name b)) qs"

lemma dropped_not_extends:
  assumes "sorted_names (lq # qs)" "\<forall>q \<in> set qs. 0 \<notin> set (lq_name q)"
    and "x \<in> set (dropWhile (name_extends (lq_name lq)) qs)"
  shows "\<not> prefix (lq_name lq) (lq_name x)"
  using assms
proof (induction qs)
  case (Cons y qs)
  show ?case
  proof (cases "name_extends (lq_name lq) y")
    case True
    then show ?thesis using Cons by simp
  next
    case False
    then have "\<not> prefix (lq_name lq) (lq_name y)" using Cons.prems(2) by (simp add: name_extends_prefix)
    moreover have "x = y \<or> ranks (lq_name y) < ranks (lq_name x)" "ranks (lq_name lq) < ranks (lq_name y)"
      using Cons.prems False by auto
    ultimately show ?thesis using prefix_between by blast
  qed
qed simp

lemma flat_simple: "\<forall>q \<in> set qs. lq_list q = [] \<Longrightarrow> flat qs = qs"
proof (induction qs)
  case (Cons q qs)
  then show ?case by (cases q) simp
qed simp

lemma create_list_shape:
  assumes "sorted_names qs" "\<forall>q \<in> set qs. simple_element q"
  shows "flat (ngx_http_create_locations_list qs) = qs \<and> nest (ngx_http_create_locations_list qs)"
  using assms
proof (induction qs rule: ngx_http_create_locations_list.induct)
  case 1
  then show ?case by simp
next
  case (2 lq)
  then have "lq = Lq (lq_exact lq) (lq_inclusive lq) (lq_name lq) []"
    by (cases lq) (simp add: simple_element_def)
  then show ?case by (metis (no_types, lifting) flat.simps flat_simple ngx_http_create_locations_list.simps(2)
        nest.simps empty_iff list.set(1) append_Nil lq.sel(3))
next
  case (3 lq q qs)
  define tail x where "tail = takeWhile (name_extends (lq_name lq)) (q # qs)"
    and "x = dropWhile (name_extends (lq_name lq)) (q # qs)"
  have split: "q # qs = tail @ x" by (simp add: tail_def x_def)
  have bare: "lq = Lq (lq_exact lq) (lq_inclusive lq) (lq_name lq) []" "lq_list lq = []"
    using "3.prems"(2) by (cases lq; simp add: simple_element_def)+
  have sorted: "sorted_names (q # qs)" "sorted_names tail" "sorted_names x"
    using "3.prems"(1) unfolding split by (simp_all add: sorted_wrt_append)
  have simple: "\<forall>q \<in> set (q # qs). simple_element q" "\<forall>q \<in> set tail. simple_element q" "\<forall>q \<in> set x. simple_element q"
    using "3.prems"(2) unfolding split by simp_all
  have tail: "\<forall>e \<in> set tail. prefix (lq_name lq) (lq_name e)"
  proof
    fix e assume e: "e \<in> set tail"
    then have "name_extends (lq_name lq) e" unfolding tail_def by (metis set_takeWhileD)
    then show "prefix (lq_name lq) (lq_name e)"
      using simple(2) e by (simp add: simple_element_def name_extends_prefix)
  qed
  have x: "\<forall>e \<in> set x. \<not> prefix (lq_name lq) (lq_name e)"
    using dropped_not_extends [OF "3.prems"(1)] simple(1) unfolding x_def simple_element_def by blast
  show ?case
  proof (cases "lq_inclusive lq")
    case None
    then have "ngx_http_create_locations_list (lq # q # qs) = lq # ngx_http_create_locations_list (q # qs)"
      by (simp add: ngx_http_create_locations_list.simps(3))
    then show ?thesis using "3.IH"(1) [OF None sorted(1) simple(1)] bare None by (simp add: flat_Cons nest_Cons)
  next
    case (Some c)
    then have ne: "lq_inclusive lq \<noteq> None" by simp
    note step = ngx_http_create_locations_list.simps(3) [of lq q qs, unfolded if_not_P [OF ne] Let_def,
        folded tail_def x_def, unfolded bare(2) append_Nil]
    show ?thesis
    proof (cases "tail = []")
      case True
      have "ngx_http_create_locations_list (lq # q # qs) = lq # ngx_http_create_locations_list x"
        unfolding step using True by simp
      moreover have "flat (ngx_http_create_locations_list x) = x \<and> nest (ngx_http_create_locations_list x)"
        using "3.IH"(2) [OF ne tail_def x_def True] sorted(3) simple(3) by blast
      ultimately show ?thesis using bare x split True by (simp add: flat_Cons nest_Cons)
    next
      case False
      have IH: "flat (ngx_http_create_locations_list tail) = tail \<and> nest (ngx_http_create_locations_list tail)"
        using "3.IH"(3) [OF ne tail_def x_def False] sorted(2) simple(2) bare(2) by simp
      show ?thesis
      proof (cases "x = []")
        case True
        then show ?thesis unfolding step using False IH tail split bare Some by (simp add: flat_Cons nest_Cons)
      next
        case x_ne: False
        have "flat (ngx_http_create_locations_list x) = x \<and> nest (ngx_http_create_locations_list x)"
          using "3.IH"(4) [OF ne tail_def x_def False refl refl x_ne] sorted(3) simple(3) bare(2) by simp
        then show ?thesis unfolding step using False x_ne IH tail x split bare Some by (simp add: flat_Cons nest_Cons)
      qed
    qed
  qed
qed


section \<open>The choice among the locations of a level\<close>

text \<open>
  What the documentation promises: the exact location of the URI, else the inclusive one of this
  name, else a redirect to the location that has one slash more, else the longest inclusive
  location that is a prefix.
\<close>

definition location_at :: "'g clcf list \<Rightarrow> bool \<Rightarrow> bytes \<Rightarrow> 'g clcf option" where
  "location_at locs exact n = find (\<lambda>c. static_location c \<and> exact_match c = exact \<and> clcf_name c = n) locs"

definition redirects :: "'g clcf option \<Rightarrow> bool" where
  "redirects c = (case c of None \<Rightarrow> False | Some c \<Rightarrow> auto_redirect c)"

definition location_choice :: "'g clcf list \<Rightarrow> 'g clcf \<Rightarrow> bytes \<Rightarrow> ngx_rc \<times> 'g clcf" where
  "location_choice locs conf u =
     (case location_at locs True u of
        Some c \<Rightarrow> (NGX_OK, c)
      | None \<Rightarrow>
          (case location_at locs False u of
             Some c \<Rightarrow> (NGX_AGAIN, c)
           | None \<Rightarrow>
               let exact = location_at locs True (slash u); inclusive = location_at locs False (slash u) in
               if redirects exact \<or> redirects inclusive
               then (NGX_DONE, case exact of Some c \<Rightarrow> c | None \<Rightarrow> the inclusive)
               else
                 (case longest (location_at locs False) u (length u) of
                    Some c \<Rightarrow> (NGX_AGAIN, c)
                  | None \<Rightarrow> (NGX_DECLINED, conf))))"

lemma static_part_names:
  assumes "\<forall>c \<in> set locs. well_formed c"
  shows "names_location (static_part locs) n exact c \<longleftrightarrow>
     c \<in> set locs \<and> static_location c \<and> exact_match c = exact \<and> clcf_name c = n"
  using static_part_elements [OF assms] by (auto simp: names_location_def)

definition joined_level :: "'g clcf list \<Rightarrow> 'g lq list \<Rightarrow> bool" where
  "joined_level locs es \<longleftrightarrow>
     (\<forall>c \<in> set locs. well_formed c) \<and> ngx_http_join_exact_locations (static_part locs) = Some es"

lemma join_facts:
  assumes "joined_level locs es"
  shows "sorted_names es" "\<forall>q \<in> set es. simple_element q" "names_location es = names_location (static_part locs)"
  using joined [OF static_part_sorted] assms unfolding joined_level_def by blast+

lemma joined_names:
  assumes J: "joined_level locs es"
  shows "names_location es n exact c \<longleftrightarrow> c \<in> set locs \<and> static_location c \<and> exact_match c = exact \<and> clcf_name c = n"
  using join_facts(3) [OF J] static_part_names J by (metis joined_level_def)

lemma joined_forest:
  assumes J: "joined_level locs es"
  shows "forest [] (ngx_http_create_locations_list es)" "flat (ngx_http_create_locations_list es) = es"
proof -
  have shape: "flat (ngx_http_create_locations_list es) = es \<and> nest (ngx_http_create_locations_list es)"
    using join_facts [OF J] by (intro create_list_shape) auto
  have "well_named e" if e: "e \<in> set es" for e
  proof -
    have simple: "simple_element e" using join_facts(2) [OF J] e by blast
    have conf: "well_formed c \<and> clcf_name c = lq_name e" if "lq_exact e = Some c \<or> lq_inclusive e = Some c" for c
    proof -
      have "names_location es (lq_name e) True c \<or> names_location es (lq_name e) False c"
        using that e by (auto simp: names_location_def)
      then show ?thesis using joined_names [OF J] J by (auto simp: joined_level_def)
    qed
    obtain c where "lq_exact e = Some c \<or> lq_inclusive e = Some c" using simple by (auto simp: simple_element_def)
    then have "length (lq_name e) \<le> 255" using conf [of c] by (auto simp: well_formed_def)
    moreover have "lq_redirect e \<Longrightarrow> lq_name e \<noteq> [] \<and> last (lq_name e) = 0x2f"
      using conf unfolding lq_redirect_def well_formed_def by metis
    ultimately show ?thesis using simple by (auto simp: well_named_def simple_element_def)
  qed
  then show "forest [] (ngx_http_create_locations_list es)" "flat (ngx_http_create_locations_list es) = es"
    using shape join_facts [OF J] by (simp_all add: forest_def sorted_wrt_map)
qed

lemma sorted_names_unique: "sorted_names es \<Longrightarrow> e \<in> set es \<Longrightarrow> f \<in> set es \<Longrightarrow> lq_name e = lq_name f \<Longrightarrow> e = f"
proof (induction es)
  case (Cons g es)
  then have "\<forall>x \<in> set es. lq_name x \<noteq> lq_name g" by auto
  then show ?case using Cons by auto
qed simp

lemmas entry_unique = sorted_names_unique [OF join_facts(1)]

lemma location_at_some: "location_at locs exact n = Some c \<Longrightarrow>
    c \<in> set locs \<and> static_location c \<and> exact_match c = exact \<and> clcf_name c = n"
  by (auto simp: location_at_def find_Some_iff)

lemma location_at_iff:
  assumes J: "joined_level locs es"
  shows "location_at locs exact n = Some c \<Longrightarrow> names_location es n exact c"
  unfolding joined_names [OF J] by (rule location_at_some)

lemma location_at_none:
  assumes J: "joined_level locs es"
  shows "location_at locs exact n = None \<longleftrightarrow> (\<nexists>c. names_location es n exact c)"
  unfolding joined_names [OF J] by (auto simp: location_at_def find_None_iff)

lemma entry_locations:
  assumes J: "joined_level locs es" and "e \<in> set es"
  shows "lq_exact e = location_at locs True (lq_name e)" "lq_inclusive e = location_at locs False (lq_name e)"
proof -
  have "(if exact then lq_exact e else lq_inclusive e) = location_at locs exact (lq_name e)" for exact
  proof (cases "location_at locs exact (lq_name e)")
    case None
    then have "\<nexists>c. names_location es (lq_name e) exact c" using location_at_none [OF J] by metis
    then have "(if exact then lq_exact e else lq_inclusive e) \<noteq> Some c" for c
      using assms(2) unfolding names_location_def by metis
    then show ?thesis unfolding None by (metis not_None_eq)
  next
    case (Some c)
    then obtain f where "f \<in> set es" "lq_name f = lq_name e" "(if exact then lq_exact f else lq_inclusive f) = Some c"
      using location_at_iff [OF J] by (metis names_location_def)
    then show ?thesis using Some entry_unique [OF J] assms(2) by metis
  qed
  from this [of True] this [of False]
  show "lq_exact e = location_at locs True (lq_name e)" "lq_inclusive e = location_at locs False (lq_name e)" by simp_all
qed

lemma no_entry:
  assumes J: "joined_level locs es" and "\<forall>e \<in> set es. lq_name e \<noteq> n"
  shows "location_at locs exact n = None"
  using assms(2) unfolding location_at_none [OF J] names_location_def by blast

lemma joined_inclusive:
  assumes J: "joined_level locs es"
  shows "inclusive_at es n = location_at locs False n"
proof (cases "find (\<lambda>e. lq_name e = n \<and> lq_inclusive e \<noteq> None) es")
  case None
  then have "inclusive_at es n = None" by (simp add: inclusive_at_def)
  moreover have "location_at locs False n = None"
  proof (rule ccontr)
    assume "location_at locs False n \<noteq> None"
    then obtain c where "location_at locs False n = Some c" by blast
    then obtain f where "f \<in> set es" "lq_name f = n" "lq_inclusive f = Some c"
      using location_at_iff [OF J, of False n c] by (auto simp: names_location_def)
    then show False using None by (auto simp: find_None_iff)
  qed
  ultimately show ?thesis by simp
next
  case (Some e)
  then have "e \<in> set es" "lq_name e = n" by (auto simp: find_Some_iff)
  then show ?thesis using Some entry_locations(2) [OF J] by (simp add: inclusive_at_def)
qed

lemma pick_choice:
  assumes J: "joined_level locs es"
  shows "pick es u (NGX_DECLINED, conf) = location_choice locs conf u"
proof (cases "find (\<lambda>e. lq_name e = u) es")
  case (Some e)
  then have e: "e \<in> set es" "lq_name e = u" by (auto simp: find_Some_iff)
  have "simple_element e" using join_facts(2) [OF J] e by blast
  then show ?thesis
    using Some entry_locations [OF J e(1)] e(2)
    by (auto simp: pick_def location_choice_def lq_chosen_def simple_element_def split: option.split)
next
  case None
  then have "\<forall>e \<in> set es. lq_name e \<noteq> u" by (auto simp: find_None_iff)
  then have none: "location_at locs True u = None" "location_at locs False u = None" by (rule no_entry [OF J])+
  have long: "longest (inclusive_at es) u (length u) = longest (location_at locs False) u (length u)"
    by (rule longest_cong) (simp_all add: joined_inclusive [OF J])
  show ?thesis
  proof (cases "find (\<lambda>e. lq_name e = slash u \<and> lq_redirect e) es")
    case red: None
    have "\<not> redirects (location_at locs x (slash u))" for x
    proof
      assume "redirects (location_at locs x (slash u))"
      then obtain c where c: "location_at locs x (slash u) = Some c" "auto_redirect c"
        by (auto simp: redirects_def split: option.splits)
      then obtain e where "e \<in> set es" "lq_name e = slash u" "(if x then lq_exact e else lq_inclusive e) = Some c"
        using location_at_iff [OF J] by (metis names_location_def)
      then show False using red c(2) by (auto simp: find_None_iff lq_redirect_def split: if_splits)
    qed
    then show ?thesis using None red none long by (simp add: pick_def location_choice_def Let_def)
  next
    case (Some e)
    then have e: "e \<in> set es" "lq_name e = slash u" "lq_redirect e" by (auto simp: find_Some_iff)
    then have "redirects (location_at locs True (slash u)) \<or> redirects (location_at locs False (slash u))"
      using entry_locations [OF J e(1)] by (auto simp: lq_redirect_def redirects_def)
    then show ?thesis
      using None Some none entry_locations [OF J e(1)] e(2)
      by (simp add: pick_def location_choice_def Let_def lq_chosen_def split: option.split)
  qed
qed

lemma tree_choice:
  assumes wf: "\<forall>c \<in> set locs. well_formed c"
    and tree: "ngx_http_init_static_location_trees (static_part locs) = Some t"
  shows "ngx_http_core_find_static_location conf t u = location_choice locs conf u"
proof (cases "static_part locs = []")
  case True
  then have "ngx_http_join_exact_locations (static_part locs) = Some []" by simp
  then have "pick [] u (NGX_DECLINED, conf) = location_choice locs conf u" using wf by (intro pick_choice) (simp add: joined_level_def)
  moreover have "longest (inclusive_at ([] :: 'a lq list)) u (length u) = None"
    by (rule longest_le [where j = "length u"]) (auto simp: inclusive_at_def)
  moreover have "t = No_node" using tree True by (simp add: ngx_http_init_static_location_trees_def)
  ultimately show ?thesis by (simp add: pick_def ngx_http_core_find_static_location_def)
next
  case False
  then obtain es where join: "ngx_http_join_exact_locations (static_part locs) = Some es"
    and t: "t = ngx_http_create_locations_tree (ngx_http_create_locations_list es) 0"
    using tree by (auto simp: ngx_http_init_static_location_trees_def split: option.splits)
  have J: "joined_level locs es" using wf join by (simp add: joined_level_def)
  have "find_static_loop t u (NGX_DECLINED, conf) = pick es u (NGX_DECLINED, conf)"
    using find_tree [OF joined_forest(1) [OF J], of u "(NGX_DECLINED, conf)"]
    by (simp add: t joined_forest(2) [OF J])
  then show ?thesis using pick_choice [OF J] by (simp add: ngx_http_core_find_static_location_def)
qed


end
