(* ===== verification/Http_Location_Search.thy ===== *)
theory Http_Location_Search
  imports Http_Location_Config
begin

text \<open>
  The whole search of \<open>ngx_http_core_find_location\<close>, through nested locations and regular
  expressions, and the properties of the choice of a location.
\<close>

section \<open>Levels and nested locations\<close>

text \<open>
  \<open>ngx_http_init_static_location_trees\<close> goes down the static locations only: the others have been
  split from the queue, so a location that is a regular expression has no tree.
\<close>

definition level_locations :: "'g clcf \<Rightarrow> 'g lq list \<times> 'g clcf list \<times> 'g clcf list" where
  "level_locations pclcf = ngx_http_init_locations (foldl ngx_http_add_location [] (clcf_locations pclcf))"

definition static_locations :: "'g clcf \<Rightarrow> 'g location_tree" where
  "static_locations pclcf =
     (if static_location pclcf
      then (case ngx_http_init_static_location_trees (fst (level_locations pclcf)) of Some t \<Rightarrow> t | None \<Rightarrow> No_node)
      else No_node)"

definition regex_locations :: "'g clcf \<Rightarrow> 'g clcf list" where
  "regex_locations pclcf = fst (snd (level_locations pclcf))"

text \<open>The loop over the regular expressions; their execution is a parameter.\<close>

fun test_regexes :: "('g \<Rightarrow> bytes \<Rightarrow> ngx_rc) \<Rightarrow> bytes \<Rightarrow> 'g clcf list \<Rightarrow> ngx_rc \<times> 'g clcf option" where
  "test_regexes exec uri [] = (NGX_DECLINED, None)"
| "test_regexes exec uri (c # cs) =
     (let n = exec (the (clcf_regex c)) uri in
      if n = NGX_OK then (NGX_OK, Some c)
      else if n = NGX_DECLINED then test_regexes exec uri cs
      else (NGX_ERROR, None))"

partial_function (option) ngx_http_core_find_location ::
  "('g \<Rightarrow> bytes \<Rightarrow> ngx_rc) \<Rightarrow> bytes \<Rightarrow> 'g clcf \<Rightarrow> (ngx_rc \<times> 'g clcf) option" where
  "ngx_http_core_find_location exec uri pclcf =
     (let static = ngx_http_core_find_static_location pclcf (static_locations pclcf) uri;
          no_regex = fst static = NGX_AGAIN \<and> noregex (snd static) in
      Option.bind
        (if fst static = NGX_AGAIN then ngx_http_core_find_location exec uri (snd static) else Some static)
        (\<lambda>found.
          if fst found = NGX_OK \<or> fst found = NGX_DONE then Some found
          else if no_regex then Some found
          else
            let test = test_regexes exec uri (regex_locations pclcf) in
            case snd test of
              Some c \<Rightarrow>
                Option.bind (ngx_http_core_find_location exec uri c)
                  (\<lambda>nested. Some (if fst nested = NGX_ERROR then NGX_ERROR else NGX_OK, snd nested))
            | None \<Rightarrow> Some (if fst test = NGX_ERROR then NGX_ERROR else fst found, snd found)))"

section \<open>The search of a configuration\<close>

text \<open>
  A configuration that was accepted: the locations are well formed and no level with a tree has
  two locations of one name and kind.
\<close>

function loaded :: "'g clcf \<Rightarrow> bool" where
  "loaded pclcf \<longleftrightarrow>
     (\<forall>c \<in> set (clcf_locations pclcf). well_formed c \<and> loaded c)
     \<and> (static_location pclcf \<longrightarrow> distinct [(clcf_name c, exact_match c). c \<leftarrow> clcf_locations pclcf, static_location c])"
  by pat_completeness auto

lemma size_location: "c \<in> set (clcf_locations p) \<Longrightarrow> size c < size p"
  by (cases p) (auto dest: size_list_estimation' [of _ _ "size c" size])

termination loaded
  by (relation "measure size") (auto intro: size_location)


text \<open>The choice of a level decides first; its location is then searched in turn.\<close>

definition level_choice :: "'g clcf \<Rightarrow> bytes \<Rightarrow> ngx_rc \<times> 'g clcf" where
  "level_choice pclcf uri = location_choice (if static_location pclcf then clcf_locations pclcf else []) pclcf uri"

lemma longest_some: "longest I u k = Some c \<Longrightarrow> \<exists>n. I n = Some c"
  by (induction k) (auto split: option.splits)

lemma location_choice_again: "location_choice locs conf u = (NGX_AGAIN, c) \<Longrightarrow> c \<in> set locs"
  using location_at_some [of locs False]
  by (auto simp: location_choice_def Let_def split: option.splits if_splits dest!: longest_some)

lemma level_choice_again: "fst (level_choice p u) = NGX_AGAIN \<Longrightarrow> snd (level_choice p u) \<in> set (clcf_locations p)"
  using location_choice_again [of _ p u "snd (level_choice p u)"]
  by (auto simp: level_choice_def prod_eq_iff split: if_splits) fastforce

lemma test_regexes_some: "snd (test_regexes exec u cs) = Some c \<Longrightarrow> c \<in> set cs"
  by (induction cs) (auto simp: Let_def split: if_splits)

function location_search :: "('g \<Rightarrow> bytes \<Rightarrow> ngx_rc) \<Rightarrow> bytes \<Rightarrow> 'g clcf \<Rightarrow> ngx_rc \<times> 'g clcf" where
  "location_search exec uri pclcf =
     (let level = level_choice pclcf uri;
          found = (if fst level = NGX_AGAIN then location_search exec uri (snd level) else level);
          test = test_regexes exec uri [c \<leftarrow> clcf_locations pclcf. clcf_regex c \<noteq> None] in
      if fst found = NGX_OK \<or> fst found = NGX_DONE \<or> (fst level = NGX_AGAIN \<and> noregex (snd level)) then found
      else
        case snd test of
          Some c \<Rightarrow> (if fst (location_search exec uri c) = NGX_ERROR then NGX_ERROR else NGX_OK,
                       snd (location_search exec uri c))
        | None \<Rightarrow> (if fst test = NGX_ERROR then NGX_ERROR else fst found, snd found))"
  by pat_completeness auto

termination location_search
proof (relation "measure (\<lambda>(_, _, p). size p)", goal_cases)
  case (2 exec uri p level)
  then show ?case using level_choice_again [of p uri] by (auto intro: size_location)
next
  case (3 exec uri p level found test c)
  then show ?case using test_regexes_some by (fastforce intro: size_location)
next
  case (4 exec uri p level found test c)
  then show ?case using test_regexes_some by (fastforce intro: size_location)
qed simp

declare location_search.simps [simp del] loaded.simps [simp del]

lemma sorted_wrt_differ: "sorted_wrt (\<lambda>a b. f a \<noteq> f b) xs \<longleftrightarrow> distinct (map f xs)"
  by (induction xs) auto

lemma distinct_join:
  assumes wf: "\<forall>c \<in> set locs. well_formed c"
  shows "ngx_http_join_exact_locations (static_part locs) = None \<longleftrightarrow>
     \<not> distinct [(clcf_name c, exact_match c). c \<leftarrow> locs, static_location c]"
proof -
  let ?S = "static_part locs" and ?k = "\<lambda>q. (lq_name q, lq_exact q \<noteq> None)"
  have el: "\<forall>q \<in> set ?S. lq_exact q = None \<longleftrightarrow> lq_inclusive q \<noteq> None"
    by (auto simp: static_part_elements [OF wf])
  have "ngx_http_join_exact_locations ?S = None \<longleftrightarrow>
     \<not> sorted_wrt (\<lambda>a b. lq_name a = lq_name b \<longrightarrow> (lq_exact a = None \<or> lq_exact b = None)
          \<and> (lq_inclusive a = None \<or> lq_inclusive b = None)) ?S"
    by (rule join_refuses [OF static_part_sorted [OF wf]])
  also have "sorted_wrt (\<lambda>a b. lq_name a = lq_name b \<longrightarrow> (lq_exact a = None \<or> lq_exact b = None)
          \<and> (lq_inclusive a = None \<or> lq_inclusive b = None)) ?S \<longleftrightarrow> sorted_wrt (\<lambda>a b. ?k a \<noteq> ?k b) ?S"
    using el by (intro iffI; elim sorted_wrt_mono_rel [rotated]) auto
  also have "\<dots> \<longleftrightarrow> distinct (map ?k ?S)"
    by (rule sorted_wrt_differ)
  also have "mset (map ?k ?S) = mset (map (\<lambda>c. (clcf_name c, exact_match c)) (filter static_location locs))"
  proof -
    have kind: "lq_kind q = 0 \<longleftrightarrow> static_location (lq_clcf q)" for q :: "'a lq"
      by (auto simp: lq_kind_def location_kind_def static_location_def)
    have "mset ?S = filter_mset (\<lambda>q. static_location (lq_clcf q)) (mset (location_queue locs))"
      by (simp add: static_part_def sorted_locations_def kind mset_filter)
    also have "\<dots> = mset (map queue_element (filter static_location locs))"
      by (simp only: location_queue_map mset_filter [symmetric] filter_map) (simp add: comp_def)
    finally have "mset (map ?k ?S) = image_mset ?k (mset (map queue_element (filter static_location locs)))" by simp
    also have "\<dots> = mset (map (\<lambda>c. (clcf_name c, exact_match c)) (filter static_location locs))"
      unfolding mset_map [symmetric] map_map
      by (rule arg_cong [of _ _ mset], rule map_cong) auto
    finally show ?thesis .
  qed
  then have "distinct (map ?k ?S) \<longleftrightarrow> distinct (map (\<lambda>c. (clcf_name c, exact_match c)) (filter static_location locs))"
    by (rule mset_eq_imp_distinct_iff)
  also have "map (\<lambda>c. (clcf_name c, exact_match c)) (filter static_location locs)
      = [(clcf_name c, exact_match c). c \<leftarrow> locs, static_location c]"
    by (induction locs) auto
  finally show ?thesis .
qed

lemma level_static:
  assumes "\<forall>c \<in> set locs. well_formed c"
  shows "fst (ngx_http_init_locations (location_queue locs)) = static_part locs"
    and "fst (snd (ngx_http_init_locations (location_queue locs))) = [c \<leftarrow> locs. clcf_regex c \<noteq> None]"
  using init_locations_parts [OF assms] by simp_all

lemma find_level:
  assumes "loaded pclcf"
  shows "ngx_http_core_find_static_location pclcf (static_locations pclcf) uri = level_choice pclcf uri"
    and "regex_locations pclcf = [c \<leftarrow> clcf_locations pclcf. clcf_regex c \<noteq> None]"
proof -
  have wf: "\<forall>c \<in> set (clcf_locations pclcf). well_formed c" using assms unfolding loaded.simps [of pclcf] by blast
  note static = level_static [OF wf]
  show "regex_locations pclcf = [c \<leftarrow> clcf_locations pclcf. clcf_regex c \<noteq> None]"
    using static(2) by (simp add: regex_locations_def level_locations_def location_queue_def)
  show "ngx_http_core_find_static_location pclcf (static_locations pclcf) uri = level_choice pclcf uri"
  proof (cases "static_location pclcf")
    case True
    then have "ngx_http_join_exact_locations (static_part (clcf_locations pclcf)) \<noteq> None"
      using assms unfolding distinct_join [OF wf] loaded.simps [of pclcf] by blast
    then obtain t where t: "ngx_http_init_static_location_trees (static_part (clcf_locations pclcf)) = Some t"
      by (cases "static_part (clcf_locations pclcf) = []") (auto simp: ngx_http_init_static_location_trees_def)
    then have "static_locations pclcf = t"
      using True static(1) by (simp add: static_locations_def level_locations_def location_queue_def)
    then show ?thesis using tree_choice [OF wf t] True by (simp add: level_choice_def)
  next
    case False
    have "ngx_http_init_static_location_trees (static_part ([] :: 'a clcf list)) = Some No_node"
      by (simp add: ngx_http_init_static_location_trees_def static_part_def sorted_locations_def location_queue_def queue_sort_def)
    then have "ngx_http_core_find_static_location pclcf No_node uri = location_choice [] pclcf uri"
      by (intro tree_choice) simp_all
    then show ?thesis using False by (simp add: level_choice_def static_locations_def)
  qed
qed

lemma find_location_search:
  "loaded pclcf \<Longrightarrow> ngx_http_core_find_location exec uri pclcf = Some (location_search exec uri pclcf)"
proof (induction "size pclcf" arbitrary: pclcf rule: less_induct)
  case less
  note level = find_level [OF less.prems]
  have nested: "ngx_http_core_find_location exec uri c = Some (location_search exec uri c)"
    if "c \<in> set (clcf_locations pclcf)" for c
    using less.prems that by (intro less.hyps size_location) (simp_all add: loaded.simps [of pclcf])
  have again: "fst (level_choice pclcf uri) = NGX_AGAIN \<Longrightarrow>
      ngx_http_core_find_location exec uri (snd (level_choice pclcf uri))
        = Some (location_search exec uri (snd (level_choice pclcf uri)))"
    by (rule nested) (rule level_choice_again)
  have regex: "snd (test_regexes exec uri [c \<leftarrow> clcf_locations pclcf. clcf_regex c \<noteq> None]) = Some c \<Longrightarrow>
      ngx_http_core_find_location exec uri c = Some (location_search exec uri c)" for c
    using test_regexes_some by (fastforce intro: nested)
  show ?case
    unfolding ngx_http_core_find_location.simps [of exec uri pclcf] location_search.simps [of exec uri pclcf] level Let_def
    using again regex by (auto split: option.split)
qed

section \<open>Properties\<close>

text \<open>
  C3. For every accepted configuration, and whatever the regular expressions do, the search of the
  sorted and nested trees of \<open>ngx_http_core_find_location\<close> returns, and its answer is the one of
  the documentation: at each level the exact location, the location of this name, a redirect by
  a slash or the longest prefix, then the nested locations, then the first regular expression in
  the order of the configuration unless the prefix forbids it.
\<close>

theorem location_search_correct:
  assumes "loaded pclcf"
  shows "ngx_http_core_find_location exec uri pclcf = Some (location_search exec uri pclcf)"
  using assms by (rule find_location_search)

definition example_location :: "string \<Rightarrow> bool \<Rightarrow> bool \<Rightarrow> bool clcf" where
  "example_location s exact redirect = Clcf (str_bytes s) exact None False False False redirect []"

definition example_server :: "bool clcf" where
  "example_server =
     Clcf [] False None False False False False
       [example_location ''/'' False False, example_location ''/a/'' False True, example_location ''/a'' True False,
        Clcf (str_bytes ''b$'') False (Some True) False False False False []]"

lemma loaded_leaf: "clcf_locations c = [] \<Longrightarrow> loaded c"
  by (simp add: loaded.simps [of c])

lemma example_server_loaded: "loaded example_server"
  unfolding loaded.simps [of example_server]
  by (simp add: loaded_leaf example_server_def example_location_def well_formed_def static_location_def)

lemma search_leaf:
  "clcf_locations c = [] \<Longrightarrow> location_search exec uri c = (NGX_DECLINED, c)"
proof -
  assume leaf: "clcf_locations c = []"
  have "longest (location_at ([] :: 'a clcf list) False) uri k = None" for k
    by (induction k) (simp_all add: location_at_def)
  then have "level_choice c uri = (NGX_DECLINED, c)"
    using leaf by (simp add: level_choice_def location_choice_def location_at_def redirects_def)
  then show ?thesis using leaf by (simp add: location_search.simps [of exec uri c])
qed

lemma example_level:
  "level_choice example_server (str_bytes ''/a/b'') = (NGX_AGAIN, example_location ''/a/'' False True)"
  by (simp add: level_choice_def location_choice_def location_at_def redirects_def slash_def
      static_location_def example_server_def example_location_def)

theorem location_search_correct_witness:
  "ngx_http_core_find_location (\<lambda>_ _. NGX_OK) (str_bytes ''/a/b'') example_server
     = Some (location_search (\<lambda>_ _. NGX_OK) (str_bytes ''/a/b'') example_server)
   \<and> location_search (\<lambda>_ _. NGX_DECLINED) (str_bytes ''/a/b'') example_server
     = (NGX_DECLINED, example_location ''/a/'' False True)"
proof (rule conjI)
  show "ngx_http_core_find_location (\<lambda>_ _. NGX_OK) (str_bytes ''/a/b'') example_server
     = Some (location_search (\<lambda>_ _. NGX_OK) (str_bytes ''/a/b'') example_server)"
    by (rule location_search_correct [OF example_server_loaded])
  have leaf: "location_search exec uri (example_location ''/a/'' False True) = (NGX_DECLINED, example_location ''/a/'' False True)"
    for exec uri by (rule search_leaf) (simp add: example_location_def)
  have "test_regexes (\<lambda>_ _. NGX_DECLINED) uri cs = (NGX_DECLINED, None)" for uri and cs :: "bool clcf list"
    by (induction cs) simp_all
  then show "location_search (\<lambda>_ _. NGX_DECLINED) (str_bytes ''/a/b'') example_server
     = (NGX_DECLINED, example_location ''/a/'' False True)"
    by (simp only: location_search.simps [of _ _ example_server] example_level Let_def fst_conv snd_conv leaf simp_thms if_True)
      simp
qed

text \<open>
  C11. The tree of one level, built by sorting, joining, nesting and halving the queue, answers
  as the list of the locations does.
\<close>

theorem static_location_choice:
  assumes "\<forall>c \<in> set locs. well_formed c"
    and "ngx_http_init_static_location_trees (fst (ngx_http_init_locations (foldl ngx_http_add_location [] locs))) = Some t"
  shows "ngx_http_core_find_static_location conf t uri = location_choice locs conf uri"
  using assms tree_choice level_static(1) by (metis location_queue_def)

lemma example_locations_wf: "\<forall>c \<in> set (clcf_locations example_server). well_formed c"
  using example_server_loaded loaded.simps by blast

theorem static_location_choice_witness:
  "\<exists>t. ngx_http_core_find_static_location example_server t (str_bytes ''/a/b'') = (NGX_AGAIN, example_location ''/a/'' False True)"
proof -
  let ?locs = "clcf_locations example_server"
  have "ngx_http_join_exact_locations (static_part ?locs) \<noteq> None"
    unfolding distinct_join [OF example_locations_wf]
    by (simp add: example_server_def example_location_def static_location_def)
  then obtain t where "ngx_http_init_static_location_trees (static_part ?locs) = Some t"
    by (cases "static_part ?locs = []") (auto simp: ngx_http_init_static_location_trees_def)
  then have "ngx_http_init_static_location_trees (fst (ngx_http_init_locations (foldl ngx_http_add_location [] ?locs))) = Some t"
    using level_static(1) [OF example_locations_wf] by (simp add: location_queue_def)
  from static_location_choice [OF example_locations_wf this, of example_server "str_bytes ''/a/b''"] example_level
  show ?thesis by (auto simp: level_choice_def example_server_def static_location_def)
qed

text \<open>
  A configuration level is refused exactly when two static locations have the same name and
  are both exact or both inclusive.
\<close>

theorem duplicate_location_refused:
  assumes "\<forall>c \<in> set locs. well_formed c"
  shows "ngx_http_init_static_location_trees (fst (ngx_http_init_locations (foldl ngx_http_add_location [] locs))) = None
     \<longleftrightarrow> \<not> distinct [(clcf_name c, exact_match c). c \<leftarrow> locs, static_location c]"
proof -
  have "ngx_http_init_static_location_trees qs = None \<longleftrightarrow> ngx_http_join_exact_locations qs = None" for qs :: "'a lq list"
    by (cases "qs = []") (auto simp: ngx_http_init_static_location_trees_def split: option.split)
  then show ?thesis
    using distinct_join [OF assms] level_static(1) [OF assms] by (simp add: location_queue_def)
qed

theorem duplicate_location_refused_witness:
  "ngx_http_init_static_location_trees (fst (ngx_http_init_locations (foldl ngx_http_add_location []
     [example_location ''/a'' False False, example_location ''/a'' False False]))) = None"
proof -
  have wf: "\<forall>c \<in> set [example_location ''/a'' False False, example_location ''/a'' False False]. well_formed c"
    by (simp add: well_formed_def example_location_def)
  show ?thesis unfolding duplicate_location_refused [OF wf] by (simp add: example_location_def static_location_def)
qed


end
