(* ===== verification/Ngx_Inet.thy ===== *)
theory Ngx_Inet
  imports Ngx_Number
begin

text \<open>
  The addresses of \<open>core/ngx_inet.c\<close>: the readers and printers of IPv4 and IPv6 addresses, and the
  blocks of addresses of \<open>ngx_ptocidr\<close>. An \<open>in_addr_t\<close> holds its bytes in the order of the network;
  it is written here as the number these bytes make, so \<open>htonl\<close> and \<open>ntohl\<close> change nothing.
\<close>

section \<open>IPv4 addresses\<close>

type_synonym in_addr = u32

definition INADDR_NONE :: in_addr where "INADDR_NONE = 0xffffffff"

fun inet_addr_loop :: "bytes \<Rightarrow> in_addr \<Rightarrow> int \<Rightarrow> nat \<Rightarrow> in_addr" where
  "inet_addr_loop [] addr octet n =
     (if n = 3 then push_bit 8 addr + word_of_int octet else INADDR_NONE)"
| "inet_addr_loop (c # text) addr octet n =
     (if 0x30 \<le> c \<and> c \<le> 0x39 then
        let octet = octet * 10 + (uint c - 0x30) in
        if octet > 255 then INADDR_NONE else inet_addr_loop text addr octet n
      else if c = 0x2e then inet_addr_loop text (push_bit 8 addr + word_of_int octet) 0 (n + 1)
      else INADDR_NONE)"

definition ngx_inet_addr :: "bytes \<Rightarrow> in_addr" where
  "ngx_inet_addr text = inet_addr_loop text 0 0 0"

text \<open>\<open>"%ud"\<close> of a byte and \<open>"%xd"\<close> of a number, as \<open>ngx_sprintf\<close> writes them.\<close>

definition NGX_SPRINTF_ROOM :: nat where "NGX_SPRINTF_ROOM = 2 ^ 63"

definition print_ud :: "u_char \<Rightarrow> bytes" where
  "print_ud c = ngx_sprintf_num NGX_SPRINTF_ROOM (ucast c) 0x20 0 0"

definition print_xd :: "int \<Rightarrow> bytes" where
  "print_xd v = ngx_sprintf_num NGX_SPRINTF_ROOM (word_of_int v) 0x20 1 0"

definition print_dotted :: "bytes \<Rightarrow> bytes" where
  "print_dotted p = print_ud (p ! 0) @ [0x2e] @ print_ud (p ! 1) @ [0x2e] @ print_ud (p ! 2) @ [0x2e] @ print_ud (p ! 3)"

section \<open>IPv6 addresses\<close>

text \<open>
  The state of \<open>ngx_inet6_addr\<close>: the bytes written, where \<open>::\<close> was, the text after the last colon,
  the digits and the value of the current group, and the groups that are missing.
\<close>

record inet6_state =
  v6_addr :: bytes
  v6_zero :: "nat option"
  v6_digit :: "bytes option"
  v6_nibbles :: nat
  v6_word :: int
  v6_n :: nat

definition put_word :: "int \<Rightarrow> bytes" where
  "put_word w = [word_of_int (w div 256), word_of_int (w mod 256)]"

fun inet6_loop :: "bytes \<Rightarrow> inet6_state \<Rightarrow> inet6_state option" where
  "inet6_loop [] st = Some st"
| "inet6_loop (c # p) st =
     (if c = 0x3a then
        (if v6_nibbles st \<noteq> 0 then
           let st = st\<lparr>v6_digit := Some p, v6_addr := v6_addr st @ put_word (v6_word st), v6_n := v6_n st - 1\<rparr> in
           if v6_n st \<noteq> 0 then inet6_loop p (st\<lparr>v6_nibbles := 0, v6_word := 0\<rparr>) else None
         else if v6_zero st = None then
           inet6_loop p (st\<lparr>v6_digit := Some p, v6_zero := Some (length (v6_addr st))\<rparr>)
         else None)
      else if c = 0x2e \<and> v6_nibbles st \<noteq> 0 then
        (if v6_n st < 2 then None
         else
           case v6_digit st of
             None \<Rightarrow> None
           | Some digit \<Rightarrow>
               let word = ngx_inet_addr digit in
               if word = INADDR_NONE then None
               else Some (st\<lparr>v6_word := uint word,
                   v6_addr := v6_addr st @ [word_of_int (uint word div 2 ^ 24), word_of_int (uint word div 2 ^ 16)],
                   v6_n := v6_n st - 1\<rparr>))
      else if v6_nibbles st + 1 > 4 then None
      else
        let st = st\<lparr>v6_nibbles := v6_nibbles st + 1\<rparr> in
        if 0x30 \<le> c \<and> c \<le> 0x39 then inet6_loop p (st\<lparr>v6_word := v6_word st * 16 + (uint c - 0x30)\<rparr>)
        else
          let c = c OR 0x20 in
          if 0x61 \<le> c \<and> c \<le> 0x66 then inet6_loop p (st\<lparr>v6_word := v6_word st * 16 + (uint c - 0x61) + 10\<rparr>)
          else None)"

text \<open>The last group, and the bytes behind \<open>::\<close> moved to the end.\<close>

definition inet6_end :: "inet6_state \<Rightarrow> bytes option" where
  "inet6_end st =
     (if v6_nibbles st = 0 \<and> v6_zero st = None then None
      else
        let addr = v6_addr st @ put_word (v6_word st); n = v6_n st - 1 in
        if n \<noteq> 0 then
          (case v6_zero st of
             Some zero \<Rightarrow> Some (take zero addr @ replicate (n * 2) 0 @ drop zero addr)
           | None \<Rightarrow> None)
        else (if v6_zero st = None then Some addr else None))"

definition inet6_start :: inet6_state where
  "inet6_start = \<lparr>v6_addr = [], v6_zero = None, v6_digit = None, v6_nibbles = 0, v6_word = 0, v6_n = 8\<rparr>"

definition ngx_inet6_addr :: "bytes \<Rightarrow> bytes option" where
  "ngx_inet6_addr p =
     (if length p = 0 then None
      else
        let p = (if hd p = 0x3a then tl p else p) in
        case inet6_loop p inet6_start of
          None \<Rightarrow> None
        | Some st \<Rightarrow> inet6_end st)"

definition NGX_INET_ADDRSTRLEN :: nat where "NGX_INET_ADDRSTRLEN = 15"
definition NGX_INET6_ADDRSTRLEN :: nat where "NGX_INET6_ADDRSTRLEN = 45"

text \<open>The scan for the longest run of zero groups: \<open>zero\<close>, \<open>max\<close>, \<open>last\<close> and \<open>n\<close>.\<close>

fun ntop_scan :: "bytes \<Rightarrow> nat \<Rightarrow> nat option \<Rightarrow> nat \<Rightarrow> nat \<Rightarrow> nat \<Rightarrow> nat option \<times> nat" where
  "ntop_scan (a # b # p) i zero mx lst n =
     (if a \<noteq> 0 \<or> b \<noteq> 0 then
        (if mx < n then ntop_scan p (i + 2) (Some lst) n lst 0 else ntop_scan p (i + 2) zero mx lst 0)
      else ntop_scan p (i + 2) zero mx (if n = 0 then i else lst) (n + 1))"
| "ntop_scan p i zero mx lst n = (if mx < n then (Some lst, n) else (zero, mx))"

function ntop_groups :: "bytes \<Rightarrow> nat \<Rightarrow> nat option \<Rightarrow> nat \<Rightarrow> nat \<Rightarrow> bytes" where
  "ntop_groups p n zero mx i =
     (if i < n then
        (if Some i = zero then 0x3a # ntop_groups p n zero mx (i + (mx - 1) * 2 + 2)
         else print_xd (uint (p ! i) * 256 + uint (p ! (i + 1))) @ (if i < 14 then [0x3a] else [])
                @ ntop_groups p n zero mx (i + 2))
      else [])"
  by pat_completeness auto

termination
  by (relation "measure (\<lambda>(_, n, _, _, i). n - i)") auto

declare ntop_groups.simps [simp del]

definition ntop_dotted :: "bytes \<Rightarrow> nat option \<Rightarrow> nat \<Rightarrow> bool" where
  "ntop_dotted p zero mx \<longleftrightarrow>
     zero = Some 0 \<and>
     (mx = 5 \<and> p ! 10 = 0xff \<and> p ! 11 = 0xff \<or> mx = 6 \<or> mx = 7 \<and> p ! 14 \<noteq> 0 \<and> p ! 15 \<noteq> 1)"

definition ngx_inet6_ntop :: "bytes \<Rightarrow> nat \<Rightarrow> bytes" where
  "ngx_inet6_ntop p len =
     (if len < NGX_INET6_ADDRSTRLEN then []
      else
        case ntop_scan p 0 None 1 0 0 of
          (zero, mx) \<Rightarrow>
            let n = (if ntop_dotted p zero mx then 12 else 16) in
            (if zero = Some 0 then [0x3a] else [])
              @ ntop_groups p n zero mx 0
              @ (if n = 12 then print_dotted (drop 12 p) else []))"

section \<open>Blocks of addresses\<close>

datatype family = AF_INET | AF_INET6 | AF_UNIX

record ngx_cidr =
  cidr_family :: family
  in_addr :: in_addr
  in_mask :: in_addr
  in6_addr :: bytes
  in6_mask :: bytes

text \<open>The byte masks of an IPv6 block and the address under them; \<open>shift\<close> runs down from the prefix.\<close>

fun cidr6_loop :: "bytes \<Rightarrow> nat \<Rightarrow> bytes \<times> bytes" where
  "cidr6_loop [] shift = ([], [])"
| "cidr6_loop (a # addr) shift =
     (let s = (if shift > 8 then 8 else shift);
          m = ucast (push_bit (8 - s) (0xff :: u32)) :: u_char in
      case cidr6_loop addr (shift - s) of (addr', mk) \<Rightarrow> ((a AND m) # addr', m # mk))"

text \<open>The text up to the slash and the text after it.\<close>

definition ngx_strlchr :: "bytes \<Rightarrow> u_char \<Rightarrow> bytes \<times> bytes option" where
  "ngx_strlchr s c =
     (if c \<in> set s then (takeWhile (\<lambda>x. x \<noteq> c) s, Some (tl (dropWhile (\<lambda>x. x \<noteq> c) s))) else (s, None))"

definition ngx_ptocidr :: "bytes \<Rightarrow> ngx_rc \<times> ngx_cidr option" where
  "ngx_ptocidr text =
     (case ngx_strlchr text 0x2f of
        (addr, msk) \<Rightarrow>
          let v4 = ngx_inet_addr addr; v6 = ngx_inet6_addr addr in
          if v4 = INADDR_NONE \<and> v6 = None then (NGX_ERROR, None)
          else
            let fam = (if v4 \<noteq> INADDR_NONE then AF_INET else AF_INET6) in
            case msk of
              None \<Rightarrow>
                (NGX_OK, Some (if fam = AF_INET then \<lparr>cidr_family = AF_INET, in_addr = v4, in_mask = 0xffffffff, in6_addr = [], in6_mask = []\<rparr>
                  else \<lparr>cidr_family = AF_INET6, in_addr = 0, in_mask = 0, in6_addr = the v6, in6_mask = replicate 16 0xff\<rparr>))
            | Some m \<Rightarrow>
                (case ngx_atoi m of
                   None \<Rightarrow> (NGX_ERROR, None)
                 | Some shift \<Rightarrow>
                     if fam = AF_INET6 then
                       (if shift > 128 then (NGX_ERROR, None)
                        else
                          case cidr6_loop (the v6) (nat shift) of (a, mk) \<Rightarrow>
                            (if a = the v6 then NGX_OK else NGX_DONE,
                             Some \<lparr>cidr_family = AF_INET6, in_addr = 0, in_mask = 0, in6_addr = a, in6_mask = mk\<rparr>))
                     else if shift > 32 then (NGX_ERROR, None)
                     else
                       let mk = (if shift \<noteq> 0 then push_bit (nat (32 - shift)) 0xffffffff else 0) in
                       (if v4 = v4 AND mk then NGX_OK else NGX_DONE,
                        Some \<lparr>cidr_family = AF_INET, in_addr = v4 AND mk, in_mask = mk, in6_addr = [], in6_mask = []\<rparr>)))"

text \<open>The address of a socket; of a UNIX domain socket only the family matters.\<close>

datatype sockaddr = Sock_in in_addr | Sock_in6 bytes | Sock_unix

definition v4_mapped :: "bytes \<Rightarrow> bool" where
  "v4_mapped p \<longleftrightarrow> take 12 p = replicate 10 0 @ [0xff, 0xff]"

definition mapped_addr :: "bytes \<Rightarrow> in_addr" where
  "mapped_addr p = push_bit 24 (ucast (p ! 12)) + push_bit 16 (ucast (p ! 13)) + push_bit 8 (ucast (p ! 14)) + ucast (p ! 15)"

fun cidr_loop :: "family \<Rightarrow> in_addr \<Rightarrow> bytes \<Rightarrow> ngx_cidr list \<Rightarrow> ngx_rc" where
  "cidr_loop fam inaddr inaddr6 [] = NGX_DECLINED"
| "cidr_loop fam inaddr inaddr6 (c # cidrs) =
     (if cidr_family c \<noteq> fam then cidr_loop fam inaddr inaddr6 cidrs
      else if (case fam of
                 AF_INET6 \<Rightarrow> map2 (AND) inaddr6 (in6_mask c) \<noteq> in6_addr c
               | AF_UNIX \<Rightarrow> False
               | AF_INET \<Rightarrow> inaddr AND in_mask c \<noteq> in_addr c)
      then cidr_loop fam inaddr inaddr6 cidrs
      else NGX_OK)"

definition ngx_cidr_match :: "sockaddr \<Rightarrow> ngx_cidr list \<Rightarrow> ngx_rc" where
  "ngx_cidr_match sa cidrs =
     (case sa of
        Sock_in a \<Rightarrow> cidr_loop AF_INET a [] cidrs
      | Sock_in6 p \<Rightarrow> if v4_mapped p then cidr_loop AF_INET (mapped_addr p) p cidrs else cidr_loop AF_INET6 0 p cidrs
      | Sock_unix \<Rightarrow> cidr_loop AF_UNIX 0 [] cidrs)"


section \<open>What the printers write\<close>

lemma uint_ucast_byte: "uint (ucast (c :: u_char) :: u64) = uint c" "uint (ucast (c :: u_char) :: in_addr) = uint c"
  by (simp_all add: unsigned_ucast_eq take_bit_int_eq_self order.strict_trans [OF uint_byte_bounds(2)])

lemma uint_byte_le: "uint (c :: u_char) \<le> 255"
  using uint_byte_bounds(2) [of c] by linarith

lemma print_ud_facts:
  "list_all is_digit (print_ud c)" "dec_value (print_ud c) = uint c" "print_ud c \<noteq> []" "length (print_ud c) \<le> 3"
proof -
  let ?v = "ucast c :: u64"
  have v: "uint ?v = uint c" by (rule uint_ucast_byte)
  have "length (sprintf_dec64 ?v []) \<le> 3"
    using sprintf_dec64_length [of ?v 2 "[]"] uint_byte_le [of c] v by simp
  moreover from this have "print_ud c = sprintf_dec64 ?v []"
    by (simp add: print_ud_def ngx_sprintf_num_dec NGX_SPRINTF_ROOM_def)
  ultimately show "list_all is_digit (print_ud c)" "dec_value (print_ud c) = uint c" "print_ud c \<noteq> []" "length (print_ud c) \<le> 3"
    by (simp_all add: sprintf_dec64_digits sprintf_dec64_value v sprintf_dec64_nonempty)
qed

lemma print_xd_facts:
  assumes "0 \<le> v" "v < 65536"
  shows "list_all is_hex (print_xd v)" "hex_value (print_xd v) = v" "print_xd v \<noteq> []" "length (print_xd v) \<le> 4"
proof -
  let ?v = "word_of_int v :: u64" and ?p = "sprintf_hex hex_digits (word_of_int v) []"
  have v: "uint ?v = v" using assms by (simp add: unsigned_of_int take_bit_int_eq_self)
  have len: "length ?p \<le> 4" using sprintf_hex_length [of ?v 3 hex_digits "[]"] v assms by simp
  then have "print_xd v = ?p"
    by (simp add: print_xd_def ngx_sprintf_num_def NGX_SPRINTF_ROOM_def sprintf_pad_eq)
  then show "list_all is_hex (print_xd v)" "hex_value (print_xd v) = v" "print_xd v \<noteq> []" "length (print_xd v) \<le> 4"
    using sprintf_hex_value [of hex_digits "[]" ?v] hex_digit_char(1) len v by (auto simp: sprintf_hex_nonempty)
qed

section \<open>Reading dotted addresses\<close>

lemma inet_addr_digits:
  assumes "list_all is_digit ds" "0 \<le> octet" "dec_from octet ds \<le> 255"
  shows "inet_addr_loop (ds @ rest) addr octet n = inet_addr_loop rest addr (dec_from octet ds) n"
  using assms
proof (induction ds arbitrary: octet)
  case (Cons c ds)
  let ?o = "octet * 10 + (uint c - 0x30)"
  have c: "0x30 \<le> c" "c \<le> 0x39" using Cons.prems(1) by (simp_all add: is_digit_def)
  have v: "digit_val c = uint c - 0x30" by (simp add: digit_val_def)
  have "0 \<le> ?o" using is_digit_bounds [of c] Cons.prems(1,2) v by simp
  moreover from this have "?o \<le> 255" using dec_from_ge [of ?o ds] Cons.prems v by simp
  ultimately show ?case using Cons c v by (simp add: Let_def)
qed simp

lemma inet_addr_dot: "inet_addr_loop (0x2e # rest) addr octet n = inet_addr_loop rest (push_bit 8 addr + word_of_int octet) 0 (n + 1)"
  by simp

definition dotted_value :: "bytes \<Rightarrow> in_addr" where
  "dotted_value p = push_bit 8 (push_bit 8 (push_bit 8 (ucast (p ! 0)) + ucast (p ! 1)) + ucast (p ! 2)) + ucast (p ! 3)"

lemma inet_addr_part:
  "inet_addr_loop (print_ud c @ rest) addr 0 n = inet_addr_loop rest addr (uint c) n"
  using print_ud_facts [of c] uint_byte_le [of c] by (subst inet_addr_digits) auto

lemma word_of_uint_byte: "word_of_int (uint (c :: u_char)) = (ucast c :: in_addr)"
  by (metis uint_ucast_byte(2) word_of_int_uint)

lemma inet_addr_dotted: "ngx_inet_addr (print_dotted p) = dotted_value p"
  using inet_addr_part [where rest = "[]"]
  by (simp add: ngx_inet_addr_def print_dotted_def inet_addr_part inet_addr_dot word_of_uint_byte dotted_value_def
      del: inet_addr_loop.simps(2))

lemma uint_dotted_value:
  "uint (dotted_value p) = ((uint (p ! 0) * 256 + uint (p ! 1)) * 256 + uint (p ! 2)) * 256 + uint (p ! 3)"
proof -
  have step: "uint (push_bit 8 w + ucast c :: in_addr) = uint w * 256 + uint c" if "uint w < 2 ^ 24" for w and c :: u_char
  proof -
    note c = uint_ucast_byte(2) [of c]
    have p: "uint (push_bit 8 w :: in_addr) = uint w * 256"
      using that by (simp add: push_bit_eq_mult uint_word_ariths(3))
    have "uint w * 256 + uint c < 2 ^ 32" using that uint_byte_le [of c] by simp
    then show ?thesis using c p by (simp add: uint_word_ariths(1))
  qed
  note c = uint_ucast_byte(2)
  note b = uint_byte_le [of "p ! 0"] uint_byte_le [of "p ! 1"] uint_byte_le [of "p ! 2"]
  show ?thesis unfolding dotted_value_def using b by (simp add: step c)
qed

section \<open>Reading groups\<close>

definition hex_char_ok :: "u_char \<Rightarrow> bool" where
  "hex_char_ok c \<longleftrightarrow> (is_hex c \<longrightarrow> c \<noteq> 0x3a \<and> c \<noteq> 0x2e \<and>
     (if 0x30 \<le> c \<and> c \<le> 0x39 then uint c - 0x30 = hex_val c
      else 0x61 \<le> c OR 0x20 \<and> c OR 0x20 \<le> 0x66 \<and> uint (c OR 0x20) - 0x61 + 10 = hex_val c))"

lemma hex_char_ok: "hex_char_ok c"
  by (auto simp: hex_char_ok_def is_hex_def hex_val_def is_digit_def)

lemma inet6_hex:
  assumes "list_all is_hex h" "v6_nibbles st + length h \<le> 4"
  shows "inet6_loop (h @ rest) st
    = inet6_loop rest (st\<lparr>v6_nibbles := v6_nibbles st + length h, v6_word := hex_from (v6_word st) h\<rparr>)"
  using assms
proof (induction h arbitrary: st)
  case (Cons c h)
  have c: "is_hex c" using Cons.prems by simp
  note ok = hex_char_ok [of c, unfolded hex_char_ok_def, rule_format, OF c]
  let ?st = "st\<lparr>v6_nibbles := v6_nibbles st + 1, v6_word := v6_word st * 16 + hex_val c\<rparr>"
  have "inet6_loop (c # h @ rest) st = inet6_loop (h @ rest) ?st"
  proof (cases "0x30 \<le> c \<and> c \<le> 0x39")
    case True
    then have "hex_val c = uint c - 0x30" using ok by simp
    then show ?thesis using ok Cons.prems(2) True by (simp add: Let_def)
  next
    case False
    have "uint (c OR 0x20) - 0x61 + 10 = hex_val c" using ok unfolding if_not_P [OF False] by blast
    then have "uint (c OR 0x20) = hex_val c + 87" by linarith
    moreover have "0x61 \<le> c OR 0x20" "c OR 0x20 \<le> 0x66" "c \<noteq> 0x3a" "c \<noteq> 0x2e"
      using ok unfolding if_not_P [OF False] by blast+
    ultimately show ?thesis using Cons.prems(2) False by (auto simp: Let_def)
  qed
  also have "\<dots> = inet6_loop rest (?st\<lparr>v6_nibbles := v6_nibbles ?st + length h, v6_word := hex_from (v6_word ?st) h\<rparr>)"
    using Cons.prems by (intro Cons.IH) simp_all
  finally show ?case by simp
qed simp

definition group_ok :: "int \<Rightarrow> bool" where
  "group_ok g \<longleftrightarrow> 0 \<le> g \<and> g < 65536"

lemma inet6_group:
  assumes "group_ok g" "v6_nibbles st = 0" "v6_word st = 0"
  shows "inet6_loop (print_xd g @ rest) st = inet6_loop rest (st\<lparr>v6_nibbles := length (print_xd g), v6_word := g\<rparr>)"
  using print_xd_facts [of g] assms by (subst inet6_hex) (auto simp: group_ok_def)

lemma inet6_group_colon:
  assumes "group_ok g" "v6_nibbles st = 0" "v6_word st = 0" "v6_n st > 1"
  shows "inet6_loop (print_xd g @ 0x3a # rest) st
    = inet6_loop rest (st\<lparr>v6_digit := Some rest, v6_addr := v6_addr st @ put_word g, v6_n := v6_n st - 1\<rparr>)"
  using assms print_xd_facts [of g] by (simp add: inet6_group group_ok_def)
    (cases st; simp)

definition put_words :: "int list \<Rightarrow> bytes" where
  "put_words gs = concat (map put_word gs)"

lemma put_words_simps [simp]: "put_words [] = []" "put_words (g # gs) = put_word g @ put_words gs"
  "put_words (gs @ hs) = put_words gs @ put_words hs" "length (put_words gs) = 2 * length gs"
  by (simp_all add: put_words_def put_word_def length_concat comp_def sum_list_triv)

definition colon_groups :: "int list \<Rightarrow> bytes" where
  "colon_groups gs = concat (map (\<lambda>g. print_xd g @ [0x3a]) gs)"

lemma inet6_colon_groups:
  assumes "list_all group_ok gs" "v6_nibbles st = 0" "v6_word st = 0" "v6_n st > length gs"
  shows "inet6_loop (colon_groups gs @ rest) st
    = inet6_loop rest (st\<lparr>v6_digit := (if gs = [] then v6_digit st else Some rest),
        v6_addr := v6_addr st @ put_words gs, v6_n := v6_n st - length gs\<rparr>)"
  using assms
proof (induction gs arbitrary: st)
  case Nil
  then show ?case by (simp add: colon_groups_def)
next
  case (Cons g gs)
  let ?rest = "colon_groups gs @ rest"
  let ?st = "st\<lparr>v6_digit := Some ?rest, v6_addr := v6_addr st @ put_word g, v6_n := v6_n st - 1\<rparr>"
  have "inet6_loop (colon_groups (g # gs) @ rest) st = inet6_loop (print_xd g @ 0x3a # ?rest) st"
    by (simp add: colon_groups_def)
  also have "\<dots> = inet6_loop ?rest ?st" using Cons.prems by (intro inet6_group_colon) auto
  also have "\<dots> = inet6_loop rest (?st\<lparr>v6_digit := (if gs = [] then v6_digit ?st else Some rest),
        v6_addr := v6_addr ?st @ put_words gs, v6_n := v6_n ?st - length gs\<rparr>)"
    using Cons.prems by (intro Cons.IH) auto
  finally show ?case by (auto simp: colon_groups_def)
qed

fun join_groups :: "int list \<Rightarrow> bytes" where
  "join_groups [] = []"
| "join_groups [g] = print_xd g"
| "join_groups (g # gs) = print_xd g @ 0x3a # join_groups gs"

lemma join_groups_split: "gs \<noteq> [] \<Longrightarrow> join_groups gs = colon_groups (butlast gs) @ print_xd (last gs)"
  by (induction gs rule: join_groups.induct) (auto simp: colon_groups_def)

lemma inet6_join_groups:
  assumes "list_all group_ok gs" "v6_nibbles st = 0" "v6_word st = 0" "v6_n st \<ge> length gs"
    and "gs \<noteq> []"
  obtains st' where "inet6_loop (join_groups gs) st = Some st'" "v6_nibbles st' \<noteq> 0" "v6_word st' = last gs"
    "v6_addr st' = v6_addr st @ put_words (butlast gs)" "v6_n st' = v6_n st - (length gs - 1)" "v6_zero st' = v6_zero st"
proof -
  have ok: "list_all group_ok (butlast gs)" "group_ok (last gs)"
    using assms(1,5) by (auto simp: list_all_iff dest: in_set_butlastD)
  let ?st = "st\<lparr>v6_digit := (if butlast gs = [] then v6_digit st else Some (print_xd (last gs))),
        v6_addr := v6_addr st @ put_words (butlast gs), v6_n := v6_n st - length (butlast gs)\<rparr>"
  have "inet6_loop (join_groups gs) st = inet6_loop (print_xd (last gs)) ?st"
    unfolding join_groups_split [OF assms(5)] using assms ok length_greater_0_conv [of gs]
    by (intro inet6_colon_groups) (auto simp del: length_greater_0_conv)
  also have "\<dots> = Some (?st\<lparr>v6_nibbles := length (print_xd (last gs)), v6_word := last gs\<rparr>)"
    using inet6_group [OF ok(2), of ?st "[]"] assms by simp
  finally show ?thesis
    using that print_xd_facts(3) [of "last gs"] ok(2) by (simp add: group_ok_def)
qed

lemma inet6_end_groups:
  assumes "v6_nibbles st \<noteq> 0" "v6_word st = g" "v6_addr st = put_words gs" "v6_n st = Suc n"
  shows "inet6_end st = (let addr = put_words (gs @ [g]) in
     if n \<noteq> 0 then map_option (\<lambda>zero. take zero addr @ replicate (n * 2) 0 @ drop zero addr) (v6_zero st)
     else if v6_zero st = None then Some addr else None)"
  using assms by (simp add: inet6_end_def Let_def split: option.split)

text \<open>Eight groups, and groups around \<open>::\<close>.\<close>

lemma read_eight:
  assumes "list_all group_ok gs" "length gs = 8"
  shows "ngx_inet6_addr (join_groups gs) = Some (put_words gs)"
proof -
  have ne: "gs \<noteq> []" using assms by auto
  have ok: "group_ok (hd gs)" using assms ne by (cases gs) auto
  have "join_groups gs \<noteq> [] \<and> hd (join_groups gs) = hd (print_xd (hd gs))"
    using ne ok print_xd_facts(3) [of "hd gs"] by (cases gs rule: join_groups.cases) (auto simp: group_ok_def)
  moreover have "hd (print_xd (hd gs)) \<noteq> 0x3a"
  proof -
    have "is_hex (hd (print_xd (hd gs)))"
      using print_xd_facts [of "hd gs"] ok by (cases "print_xd (hd gs)") (auto simp: group_ok_def)
    then show ?thesis using hex_char_ok by (auto simp: hex_char_ok_def)
  qed
  moreover obtain st where st: "inet6_loop (join_groups gs) inet6_start = Some st" "v6_nibbles st \<noteq> 0" "v6_word st = last gs"
    "v6_addr st = put_words (butlast gs)" "v6_n st = Suc 0" "v6_zero st = None"
    using inet6_join_groups [of gs inet6_start] assms ne by (auto simp: inet6_start_def)
  moreover have "inet6_end st = Some (put_words (butlast gs @ [last gs]))"
    using inet6_end_groups [OF st(2-5)] st(6) by (simp add: Let_def)
  ultimately show ?thesis using ne by (simp add: ngx_inet6_addr_def)
qed

lemma read_zeros:
  assumes "list_all group_ok gs" "list_all group_ok hs" "length gs + m + length hs = 8" "m \<ge> 2"
  shows "ngx_inet6_addr ((if gs = [] then [0x3a] else []) @ colon_groups gs @ 0x3a # join_groups hs)
    = Some (put_words (gs @ replicate m 0 @ hs))"
proof -
  let ?text = "colon_groups gs @ 0x3a # join_groups hs"
  have start: "hd ?text \<noteq> 0x3a" if "gs \<noteq> []"
  proof -
    have ok: "group_ok (hd gs)" using assms(1) that by (cases gs) auto
    then have "is_hex (hd (print_xd (hd gs)))" "hd ?text = hd (print_xd (hd gs))"
      using print_xd_facts [of "hd gs"] that
      by (cases gs; cases "print_xd (hd gs)"; auto simp: group_ok_def colon_groups_def)+
    then show ?thesis using hex_char_ok by (auto simp: hex_char_ok_def)
  qed
  let ?s = "\<lparr>v6_addr = put_words gs, v6_zero = Some (2 * length gs), v6_digit = Some (join_groups hs), v6_nibbles = 0,
      v6_word = 0, v6_n = 8 - length gs\<rparr>"
  have "inet6_loop ?text inet6_start = inet6_loop (join_groups hs) ?s"
    using assms by (subst inet6_colon_groups) (auto simp: inet6_start_def)
  moreover have "Option.bind (inet6_loop (join_groups hs) ?s) inet6_end = Some (put_words (gs @ replicate m 0 @ hs))"
  proof (cases "hs = []")
    case True
    have "put_words (replicate m 0) = replicate (2 * (m - 1)) 0 @ put_word 0"
    proof -
      obtain k where "m = Suc k" using assms(4) by (cases m) auto
      moreover have "put_words (replicate k 0) = replicate (2 * k) 0"
        by (induction k) (simp_all add: put_word_def)
      ultimately show ?thesis by (metis diff_Suc_1 put_words_simps(1,2,3) append_Nil2 replicate_Suc replicate_append_same)
    qed
    then show ?thesis
      using True assms(3,4) by (simp add: inet6_end_def Let_def mult.commute)
  next
    case False
    obtain st where st: "inet6_loop (join_groups hs) ?s = Some st" "v6_nibbles st \<noteq> 0" "v6_word st = last hs"
      "v6_addr st = put_words (gs @ butlast hs)" "v6_n st = 8 - length gs - (length hs - 1)" "v6_zero st = Some (2 * length gs)"
    proof (rule inet6_join_groups [of hs ?s])
      show "length hs \<le> v6_n ?s" using assms(3) by simp
    qed (use assms(2) False that in simp_all)
    have n: "v6_n st = Suc m" using st(5) assms(3) False by (cases hs) auto
    have z: "put_words (replicate m 0) = replicate (m * 2) 0"
      by (induction m) (simp_all add: put_word_def)
    have "inet6_end st = Some (take (2 * length gs) (put_words ((gs @ butlast hs) @ [last hs])) @ replicate (m * 2) 0
        @ drop (2 * length gs) (put_words ((gs @ butlast hs) @ [last hs])))"
      using inet6_end_groups [OF st(2-4) n] st(6) assms(4) by (simp add: Let_def)
    moreover have "put_words (butlast hs) @ put_word (last hs) = put_words hs"
      using False put_words_simps(3) [of "butlast hs" "[last hs]"] by simp
    ultimately show ?thesis using st(1) z by simp
  qed
  ultimately obtain st where st: "inet6_loop ?text inet6_start = Some st"
      "inet6_end st = Some (put_words (gs @ replicate m 0 @ hs))"
    by (cases "inet6_loop (join_groups hs) ?s") auto
  define s where "s = (if gs = [] then [0x3a] else []) @ ?text"
  have "s \<noteq> []" "(if hd s = 0x3a then tl s else s) = ?text"
    using start by (auto simp: s_def colon_groups_def)
  then have "ngx_inet6_addr s = Some (put_words (gs @ replicate m 0 @ hs))"
    using st by (simp add: ngx_inet6_addr_def)
  then show ?thesis by (simp only: s_def)
qed

section \<open>What \<open>ngx_inet6_ntop\<close> prints\<close>

definition group_at :: "bytes \<Rightarrow> nat \<Rightarrow> int" where
  "group_at p k = uint (p ! (2 * k)) * 256 + uint (p ! (2 * k + 1))"

lemma group_at_ok: "group_ok (group_at p k)"
  using uint_byte_le [of "p ! (2 * k)"] uint_byte_le [of "p ! (2 * k + 1)"]
  by (simp add: group_ok_def group_at_def)

definition groups :: "bytes \<Rightarrow> nat \<Rightarrow> nat \<Rightarrow> int list" where
  "groups p i j = map (group_at p) [i..<j]"

lemma groups_ok: "list_all group_ok (groups p i j)"
  by (simp add: groups_def list_all_iff group_at_ok)

lemma put_word_group: "put_word (group_at p k) = [p ! (2 * k), p ! (2 * k + 1)]"
proof -
  have "group_at p k div 256 = uint (p ! (2 * k))" "group_at p k mod 256 = uint (p ! (2 * k + 1))"
    by (simp_all add: group_at_def)
  then show ?thesis by (simp add: put_word_def)
qed

lemma put_words_groups: "i \<le> j \<Longrightarrow> 2 * j \<le> length p \<Longrightarrow> put_words (groups p i j) = drop (2 * i) (take (2 * j) p)"
proof (induction "j - i" arbitrary: i)
  case 0
  then show ?case by (simp add: groups_def)
next
  case (Suc d)
  then have "groups p i j = group_at p i # groups p (Suc i) j" by (simp add: groups_def upt_rec)
  moreover have "put_words (groups p (Suc i) j) = drop (2 * Suc i) (take (2 * j) p)" using Suc by simp
  moreover have "drop (2 * i) (take (2 * j) p) = p ! (2 * i) # p ! (2 * i + 1) # drop (2 * Suc i) (take (2 * j) p)"
    using Suc by (simp add: Cons_nth_drop_Suc [symmetric])
  ultimately show ?case by (simp add: put_word_group)
qed

definition zero_run :: "bytes \<Rightarrow> nat \<Rightarrow> nat \<Rightarrow> bool" where
  "zero_run p z m \<longleftrightarrow> (\<forall>k. z \<le> k \<longrightarrow> k < z + m \<longrightarrow> p ! (2 * k) = 0 \<and> p ! (2 * k + 1) = 0)"

lemma zero_run_groups: "zero_run p z m \<Longrightarrow> groups p z (z + m) = replicate m 0"
  by (rule replicate_eqI) (auto simp: zero_run_def groups_def group_at_def)

text \<open>The scan finds a run of at least two zero groups, or none.\<close>

definition run_found :: "bytes \<Rightarrow> nat \<Rightarrow> nat option \<times> nat \<Rightarrow> bool" where
  "run_found p i r \<longleftrightarrow> (case r of
     (None, mx) \<Rightarrow> mx = 1
   | (Some zero, mx) \<Rightarrow> \<exists>z. zero = 2 * z \<and> 2 \<le> mx \<and> z + mx \<le> i \<and> zero_run p z mx)"

lemma ntop_scan_run:
  assumes "run_found p i (zero, mx)" "n \<noteq> 0 \<Longrightarrow> \<exists>l. lst = 2 * l \<and> l + n = i \<and> zero_run p l n"
    and "even (length p)" "2 * i \<le> length p"
  shows "run_found p (length p div 2) (ntop_scan (drop (2 * i) p) (2 * i) zero mx lst n)"
  using assms
proof (induction "length p div 2 - i" arbitrary: i zero mx lst n)
  case 0
  then have "2 * i = length p" by auto
  then have "i = length p div 2" by simp
  moreover have "run_found p i (Some lst, n)" if "mx < n"
    using "0.prems"(1,2) that by (auto simp: run_found_def split: option.splits)
  ultimately show ?case using 0 by auto
next
  case (Suc d)
  then have lt: "2 * i + 1 < length p" by auto
  have d: "drop (2 * i) p = p ! (2 * i) # p ! (2 * i + 1) # drop (2 * Suc i) p"
    using lt by (simp add: Cons_nth_drop_Suc [symmetric])
  have mono: "run_found p (Suc i) (zero, mx)"
    using Suc.prems(1) by (auto simp: run_found_def split: option.splits)
  have IH: "run_found p (length p div 2) (ntop_scan (drop (2 * Suc i) p) (2 * Suc i) zero' mx' lst' n')"
    if "run_found p (Suc i) (zero', mx')" "n' \<noteq> 0 \<Longrightarrow> \<exists>l. lst' = 2 * l \<and> l + n' = Suc i \<and> zero_run p l n'"
    for zero' mx' lst' n'
    using Suc.hyps(2) lt that Suc.prems(3) by (intro Suc.hyps(1)) auto
  show ?case
  proof (cases "p ! (2 * i) \<noteq> 0 \<or> p ! (2 * i + 1) \<noteq> 0")
    case True
    have "run_found p (Suc i) (Some lst, n)" if "mx < n"
      using Suc.prems(1,2) that by (auto simp: run_found_def split: option.splits)
    then show ?thesis using True IH mono by (auto simp: d)
  next
    case False
    have "\<exists>l. (if n = 0 then 2 * i else lst) = 2 * l \<and> l + (n + 1) = Suc i \<and> zero_run p l (n + 1)"
    proof (cases "n = 0")
      case True
      then show ?thesis using False by (auto simp: zero_run_def le_less_Suc_eq)
    next
      case n: False
      then obtain l where l: "lst = 2 * l" "l + n = i" "zero_run p l n" using Suc.prems(2) by blast
      then have "zero_run p l (n + 1)" using False by (auto simp: zero_run_def less_Suc_eq)
      then show ?thesis using n l by auto
    qed
    then show ?thesis using False IH [OF mono, of "n + 1"] by (simp add: d)
  qed
qed

lemma groups_Cons: "k < j \<Longrightarrow> groups p k j = group_at p k # groups p (Suc k) j"
  by (simp add: groups_def upt_rec)

lemma ntop_groups_step:
  assumes "Some (2 * k) \<noteq> zero" "2 * k < n" "2 * k < 16"
  shows "ntop_groups p n zero mx (2 * k) =
     print_xd (group_at p k) @ (if k = 7 then [] else [0x3a]) @ ntop_groups p n zero mx (2 * Suc k)"
  using assms by (subst ntop_groups.simps) (auto simp: group_at_def)

lemma ntop_groups_tail:
  assumes "\<And>j. k \<le> j \<Longrightarrow> j < 8 \<Longrightarrow> zero \<noteq> Some (2 * j)" "k \<le> 8"
  shows "ntop_groups p 16 zero mx (2 * k) = join_groups (groups p k 8)"
  using assms
proof (induction "8 - k" arbitrary: k)
  case 0
  then show ?case by (simp add: ntop_groups.simps groups_def)
next
  case (Suc d)
  then have lt: "k < 8" by simp
  have IH: "ntop_groups p 16 zero mx (2 * Suc k) = join_groups (groups p (Suc k) 8)"
    using Suc by (intro Suc.hyps(1)) auto
  have step: "ntop_groups p 16 zero mx (2 * k) =
     print_xd (group_at p k) @ (if k = 7 then [] else [0x3a]) @ ntop_groups p 16 zero mx (2 * Suc k)"
    using Suc.prems lt by (intro ntop_groups_step) (auto dest: not_sym)
  show ?case
  proof (cases "k = 7")
    case True
    then show ?thesis using step IH by (simp add: groups_def)
  next
    case False
    then have "groups p (Suc k) 8 = group_at p (Suc k) # groups p (Suc (Suc k)) 8" using lt by (intro groups_Cons) simp
    then show ?thesis using step IH False lt by (simp add: groups_Cons [OF lt])
  qed
qed

lemma ntop_groups_head:
  assumes "zero = Some (2 * z)" "k \<le> z" "2 * z < n" "z < 8"
  shows "ntop_groups p n zero mx (2 * k) = colon_groups (groups p k z) @ ntop_groups p n zero mx (2 * z)"
  using assms
proof (induction "z - k" arbitrary: k)
  case 0
  then show ?case by (simp add: groups_def colon_groups_def)
next
  case (Suc d)
  then have lt: "k < z" by simp
  have IH: "ntop_groups p n zero mx (2 * Suc k) = colon_groups (groups p (Suc k) z) @ ntop_groups p n zero mx (2 * z)"
    using Suc by (intro Suc.hyps(1)) auto
  have "ntop_groups p n zero mx (2 * k) =
     print_xd (group_at p k) @ (if k = 7 then [] else [0x3a]) @ ntop_groups p n zero mx (2 * Suc k)"
    using Suc.prems lt by (intro ntop_groups_step) auto
  moreover have "k \<noteq> 7" using lt Suc.prems by auto
  ultimately show ?case using IH by (simp add: groups_Cons [OF lt] colon_groups_def)
qed

section \<open>The round trip\<close>

lemma word_of_byte_sum: "word_of_int (a * 256 + uint b) = (b :: u_char)"
proof -
  have "(256 :: u_char) = 0" by simp
  then have "word_of_int (a * 256) = (0 :: u_char)" by (metis mult_zero_right of_int_mult of_int_numeral)
  then show ?thesis by simp
qed

lemma byte_div: "0 \<le> d \<Longrightarrow> d < 256 \<Longrightarrow> (a * 256 + d) div 256 = a" "0 \<le> d \<Longrightarrow> d < 256 \<Longrightarrow> (a * 256 + d) mod 256 = d" for a :: int
  by simp_all

lemma dotted_parts:
  assumes "v = uint (dotted_value q)"
  shows "word_of_int (v div 2 ^ 24) = q ! 0" "word_of_int (v div 2 ^ 16) = q ! 1" "put_word v = [q ! 2, q ! 3]"
proof -
  let ?a = "uint (q ! 0)" and ?b = "uint (q ! 1)" and ?c = "uint (q ! 2)" and ?d = "uint (q ! 3)"
  have b: "0 \<le> ?b" "?b < 256" "0 \<le> ?c" "?c < 256" "0 \<le> ?d" "?d < 256" by (fact uint_byte_bounds)+
  have v: "v = ((?a * 256 + ?b) * 256 + ?c) * 256 + ?d" using assms uint_dotted_value by simp
  have 1: "v div 256 = (?a * 256 + ?b) * 256 + ?c" unfolding v by (rule byte_div(1)) (fact b)+
  have 2: "v div 256 div 256 = ?a * 256 + ?b" unfolding 1 by (rule byte_div(1)) (fact b)+
  have 3: "v div 256 div 256 div 256 = 0 * 256 + ?a" unfolding 2 byte_div(1) [OF b(1,2)] by simp
  have 4: "v mod 256 = 0 * 256 + ?d" unfolding v byte_div(2) [OF b(5,6)] by simp
  have "v div 2 ^ 16 = v div 256 div 256" "v div 2 ^ 24 = v div 256 div 256 div 256"
    by (simp_all flip: zdiv_zmult2_eq)
  note parts = 1 this(1) [unfolded 2] this(2) [unfolded 3] 4
  show "word_of_int (v div 2 ^ 24) = q ! 0" "word_of_int (v div 2 ^ 16) = q ! 1" "put_word v = [q ! 2, q ! 3]"
    unfolding put_word_def parts word_of_byte_sum by (rule refl)+
qed

lemma digits_are_hex: "list_all is_digit ds \<Longrightarrow> list_all is_hex ds"
  by (auto simp: list_all_iff is_hex_def)

lemma inet6_dotted:
  assumes "v6_nibbles st = 0" "v6_word st = 0" "v6_digit st = Some (print_dotted q)" "v6_n st \<ge> 2"
  shows "inet6_loop (print_dotted q) st =
    (if dotted_value q = INADDR_NONE then None
     else Some (st\<lparr>v6_nibbles := length (print_ud (q ! 0)), v6_word := uint (dotted_value q),
       v6_addr := v6_addr st @ [q ! 0, q ! 1], v6_n := v6_n st - 1\<rparr>))"
proof -
  define rest where "rest = print_ud (q ! 1) @ 0x2e # print_ud (q ! 2) @ 0x2e # print_ud (q ! 3)"
  have shown: "print_dotted q = print_ud (q ! 0) @ 0x2e # rest" by (simp add: print_dotted_def rest_def)
  note facts = print_ud_facts [of "q ! 0"]
  have "inet6_loop (print_dotted q) st = inet6_loop (0x2e # rest)
      (st\<lparr>v6_nibbles := length (print_ud (q ! 0)), v6_word := hex_from 0 (print_ud (q ! 0))\<rparr>)"
    unfolding shown using facts assms by (subst inet6_hex) (auto simp: digits_are_hex)
  then show ?thesis
    using facts assms by (simp add: inet_addr_dotted dotted_parts [OF refl, simplified] Let_def)
qed

lemma take_word:
  "length p = 16 \<Longrightarrow> take 2 (drop 12 p) = [drop 12 p ! 0, drop 12 p ! 1]"
  "length p = 16 \<Longrightarrow> drop 12 p = [drop 12 p ! 0, drop 12 p ! 1, drop 12 p ! 2, drop 12 p ! 3]"
  by (simp_all add: list_eq_iff_nth_eq nth_Cons' numeral_eq_Suc less_Suc_eq)

text \<open>A block of two colons, perhaps a group, and a dotted address.\<close>

lemma read_mapped:
  assumes "length q = 4" "list_all group_ok gs" "length gs < 6"
  shows "ngx_inet6_addr ([0x3a, 0x3a] @ colon_groups gs @ print_dotted q)
    = (if dotted_value q = INADDR_NONE then None
       else Some (replicate (12 - 2 * length gs) 0 @ put_words gs @ q))"
proof -
  have q: "q = [q ! 0, q ! 1, q ! 2, q ! 3]"
    using assms(1) by (simp add: list_eq_iff_nth_eq nth_Cons' numeral_eq_Suc less_Suc_eq)
  let ?s = "\<lparr>v6_addr = [], v6_zero = Some 0, v6_digit = Some (colon_groups gs @ print_dotted q), v6_nibbles = 0,
      v6_word = 0, v6_n = 8\<rparr>"
  let ?t = "?s\<lparr>v6_digit := Some (print_dotted q), v6_addr := put_words gs, v6_n := 8 - length gs\<rparr>"
  have "inet6_loop (0x3a # colon_groups gs @ print_dotted q) inet6_start = inet6_loop (colon_groups gs @ print_dotted q) ?s"
    by (simp add: inet6_start_def)
  also have "\<dots> = inet6_loop (print_dotted q) ?t"
    using assms by (subst inet6_colon_groups) (auto simp: colon_groups_def)
  also have "\<dots> = (if dotted_value q = INADDR_NONE then None
     else Some (?t\<lparr>v6_nibbles := length (print_ud (q ! 0)), v6_word := uint (dotted_value q),
       v6_addr := put_words gs @ [q ! 0, q ! 1], v6_n := 8 - length gs - 1\<rparr>))"
    using assms(3) by (subst inet6_dotted) auto
  finally have loop: "inet6_loop (0x3a # colon_groups gs @ print_dotted q) inet6_start = \<dots>" .
  have n: "8 - length gs - 1 - 1 = 6 - length gs" "(6 - length gs) * 2 = 12 - 2 * length gs" using assms(3) by auto
  show ?thesis
    using assms(3) print_ud_facts(3) [of "q ! 0"] n
    by (simp add: ngx_inet6_addr_def loop inet6_end_def Let_def dotted_parts [OF refl] del: inet6_loop.simps(2)) (metis One_nat_def q)
qed

lemma split_words: "length p = 16 \<Longrightarrow> k \<le> 8 \<Longrightarrow> put_words (groups p k 8) = drop (2 * k) p"
  by (simp add: put_words_groups)

lemma dotted_full:
  assumes "length p = 16"
  shows "dotted_value (drop 12 p) = INADDR_NONE \<longleftrightarrow> drop 12 p = replicate 4 0xff"
proof
  assume "dotted_value (drop 12 p) = INADDR_NONE"
  then have "0xffffffff = uint (dotted_value (drop 12 p))" by (simp add: INADDR_NONE_def)
  from dotted_parts [OF this] have "drop 12 p ! 0 = 0xff" "drop 12 p ! 1 = 0xff" "drop 12 p ! 2 = 0xff" "drop 12 p ! 3 = 0xff"
    by (simp_all add: put_word_def)
  then show "drop 12 p = replicate 4 0xff"
    by (subst take_word(2) [OF assms]) (simp add: numeral_eq_Suc)
qed (simp add: dotted_value_def INADDR_NONE_def replicate_numeral)

text \<open>The run of zeros and the groups around it.\<close>

lemma groups_around:
  assumes "zero_run p z mx" "z + mx \<le> 8"
  shows "groups p 0 8 = groups p 0 z @ replicate mx 0 @ groups p (z + mx) 8"
proof -
  have "[0..<8] = [0..<z] @ [z..<z + mx] @ [z + mx..<8]"
    using assms(2) by (metis le_add1 le_add_diff_inverse le_trans upt_add_eq_append zero_le append.assoc)
  then show ?thesis using zero_run_groups [OF assms(1)] by (simp add: groups_def)
qed

lemma ntop_at_zero:
  assumes "zero = Some (2 * z)" "2 \<le> mx" "2 * z < n"
  shows "ntop_groups p n zero mx (2 * z) = 0x3a # ntop_groups p n zero mx (2 * (z + mx))"
proof -
  have "2 * z + (mx - 1) * 2 + 2 = 2 * (z + mx)" using assms(2) by auto
  then show ?thesis using assms ntop_groups.simps [of p n zero mx "2 * z"] by (simp only: if_True refl)
qed

lemma ntop_read_eight:
  assumes "length p = 16" "NGX_INET6_ADDRSTRLEN \<le> len" "ntop_scan p 0 None 1 0 0 = (None, mx)"
  shows "ngx_inet6_addr (ngx_inet6_ntop p len) = Some p"
proof -
  have "ntop_groups p 16 None mx (2 * 0) = join_groups (groups p 0 8)" by (intro ntop_groups_tail) auto
  then have "ngx_inet6_ntop p len = join_groups (groups p 0 8)"
    using assms by (simp add: ngx_inet6_ntop_def ntop_dotted_def)
  moreover have "ngx_inet6_addr (join_groups (groups p 0 8)) = Some (put_words (groups p 0 8))"
    using groups_ok by (intro read_eight) (simp_all add: groups_def)
  ultimately show ?thesis using split_words [OF assms(1), of 0] by simp
qed

lemma ntop_read_zeros:
  assumes p: "length p = 16" and len: "NGX_INET6_ADDRSTRLEN \<le> len" and scan: "ntop_scan p 0 None 1 0 0 = (zero, mx)"
    and z: "zero = Some (2 * z)" "2 \<le> mx" "z + mx \<le> 8" "zero_run p z mx" and nd: "\<not> ntop_dotted p zero mx"
  shows "ngx_inet6_addr (ngx_inet6_ntop p len) = Some p"
proof -
  have "ntop_groups p 16 zero mx 0 = colon_groups (groups p 0 z) @ 0x3a # join_groups (groups p (z + mx) 8)"
    using ntop_groups_head [of zero z 0 16 p mx] ntop_groups_tail [of "z + mx" zero p mx] ntop_at_zero [OF z(1,2), of 16] z
    by auto
  then have "ngx_inet6_ntop p len =
      (if groups p 0 z = [] then [0x3a] else []) @ colon_groups (groups p 0 z) @ 0x3a # join_groups (groups p (z + mx) 8)"
    using len scan nd z(1) by (simp add: ngx_inet6_ntop_def groups_def)
  moreover have "ngx_inet6_addr \<dots> = Some (put_words (groups p 0 z @ replicate mx 0 @ groups p (z + mx) 8))"
    using z groups_ok by (intro read_zeros) (simp_all add: groups_def)
  ultimately show ?thesis using split_words [OF p, of 0] groups_around [OF z(4,3)] by simp
qed

lemma ntop_mapped_group:
  assumes "zero = Some 0" "mx = 5" "p ! 10 = 0xff" "p ! 11 = 0xff"
  shows "ntop_groups p 12 zero mx 10 = colon_groups [0xffff]"
proof -
  have "group_at p 5 = 0xffff" using assms by (simp add: group_at_def)
  moreover have "ntop_groups p 12 zero mx (2 * 5)
      = print_xd (group_at p 5) @ (if (5::nat) = 7 then [] else [0x3a]) @ ntop_groups p 12 zero mx (2 * Suc 5)"
    using assms(1) by (intro ntop_groups_step) auto
  ultimately show ?thesis by (simp add: ntop_groups.simps [of _ _ _ _ 12] colon_groups_def)
qed

lemma zero_run_bytes:
  assumes "zero_run p 0 mx" "i < 2 * mx"
  shows "p ! i = 0"
proof -
  have "p ! (2 * (i div 2)) = 0 \<and> p ! (2 * (i div 2) + 1) = 0"
    using assms by (auto simp: zero_run_def)
  then show ?thesis by (cases "even i") (auto elim!: evenE oddE)
qed

lemma ntop_read_dotted:
  assumes p: "length p = 16" and len: "NGX_INET6_ADDRSTRLEN \<le> len" and scan: "ntop_scan p 0 None 1 0 0 = (zero, mx)"
    and z: "2 \<le> mx" "zero_run p 0 mx" and d: "ntop_dotted p zero mx"
  shows "ngx_inet6_addr (ngx_inet6_ntop p len) = (if drop 12 p = replicate 4 0xff then None else Some p)"
proof -
  have zero: "zero = Some 0" and mx: "mx = 5 \<and> p ! 10 = 0xff \<and> p ! 11 = 0xff \<or> mx = 6 \<or> mx = 7"
    using d by (auto simp: ntop_dotted_def)
  define gs where "gs = (if mx = 5 then [0xffff] else [] :: int list)"
  have tail: "ntop_groups p 12 zero mx (2 * mx) = colon_groups gs"
  proof (cases "mx = 5")
    case True
    then show ?thesis using ntop_mapped_group [OF zero True] mx by (simp add: gs_def)
  next
    case False
    then show ?thesis using mx by (subst ntop_groups.simps) (auto simp: gs_def colon_groups_def)
  qed
  have shown: "ngx_inet6_ntop p len = [0x3a, 0x3a] @ colon_groups gs @ print_dotted (drop 12 p)"
    using len scan d ntop_at_zero [of zero 0 mx 12 p] tail zero z(1) by (simp add: ngx_inet6_ntop_def)
  have front: "replicate (12 - 2 * length gs) 0 @ put_words gs = take 12 p"
  proof (cases "mx = 5")
    case True
    then have "p ! 10 = 0xff" "p ! 11 = 0xff" using mx by auto
    moreover have "take 10 p = replicate 10 0"
      using True zero_run_bytes [OF z(2)] p by (simp add: list_eq_iff_nth_eq)
    moreover have "take 12 p = take 10 p @ [p ! 10, p ! 11]" using p by (simp add: take_Suc_conv_app_nth numeral_eq_Suc)
    ultimately show ?thesis using True by (simp add: gs_def put_word_def)
  next
    case False
    then have "\<And>i. i < 12 \<Longrightarrow> p ! i = 0" using zero_run_bytes [OF z(2)] mx by auto
    then show ?thesis using False p by (auto simp: gs_def list_eq_iff_nth_eq)
  qed
  have "ngx_inet6_addr (ngx_inet6_ntop p len) = (if dotted_value (drop 12 p) = INADDR_NONE then None
      else Some (replicate (12 - 2 * length gs) 0 @ put_words gs @ drop 12 p))"
    unfolding shown using p by (intro read_mapped) (auto simp: gs_def group_ok_def)
  also have "replicate (12 - 2 * length gs) 0 @ put_words gs @ drop 12 p = p"
    by (metis append.assoc append_take_drop_id front)
  finally show ?thesis using dotted_full [OF p] by simp
qed

lemma inet6_round_trip:
  assumes p: "length p = 16" and len: "NGX_INET6_ADDRSTRLEN \<le> len" and scan: "ntop_scan p 0 None 1 0 0 = (zero, mx)"
  shows "ngx_inet6_addr (ngx_inet6_ntop p len) =
    (if ntop_dotted p zero mx \<and> drop 12 p = replicate 4 0xff then None else Some p)"
proof -
  have "run_found p (length p div 2) (ntop_scan (drop (2 * 0) p) (2 * 0) None 1 0 0)"
    using p by (intro ntop_scan_run) (auto simp: run_found_def)
  then have run: "run_found p 8 (zero, mx)" using scan p by simp
  show ?thesis
  proof (cases zero)
    case None
    then show ?thesis using ntop_read_eight [OF p len] scan by (simp add: ntop_dotted_def)
  next
    case (Some zb)
    then obtain z where z: "zero = Some (2 * z)" "2 \<le> mx" "z + mx \<le> 8" "zero_run p z mx"
      using run by (auto simp: run_found_def)
    show ?thesis
    proof (cases "ntop_dotted p zero mx")
      case False
      then show ?thesis using ntop_read_zeros [OF p len scan z] by simp
    next
      case True
      then have "z = 0" using z(1) by (simp add: ntop_dotted_def)
      then show ?thesis using ntop_read_dotted [OF p len scan z(2) _ True] z(4) True by simp
    qed
  qed
qed

section \<open>Blocks of addresses\<close>

text \<open>The bits of an address, the first one on the wire first.\<close>

definition top_mask :: "nat \<Rightarrow> in_addr" where
  "top_mask k = (if k = 0 then 0 else push_bit (32 - k) 0xffffffff)"

lemma top_mask_bit: "k \<le> 32 \<Longrightarrow> bit (top_mask k) j \<longleftrightarrow> 32 - k \<le> j \<and> j < 32"
proof -
  assume k: "k \<le> 32"
  have ones: "(0xffffffff :: in_addr) = mask 32" by (simp add: mask_eq_exp_minus_1)
  show ?thesis using k unfolding top_mask_def ones by (auto simp: bit_simps)
qed

lemma masked_eq:
  assumes "k \<le> 32"
  shows "a AND top_mask k = b AND top_mask k \<longleftrightarrow> (\<forall>j < 32. 32 - k \<le> j \<longrightarrow> bit a j = bit b j)"
  using top_mask_bit [OF assms] by (auto simp: bit_eq_iff bit_simps)

lemma masked_drop:
  assumes "k \<le> 32"
  shows "a AND top_mask k = b AND top_mask k \<longleftrightarrow> drop_bit (32 - k) a = drop_bit (32 - k) (b :: in_addr)"
proof
  assume "drop_bit (32 - k) a = drop_bit (32 - k) b"
  then have eq: "bit (drop_bit (32 - k) a) j = bit (drop_bit (32 - k) b) j" for j by simp
  have "bit a j = bit b j" if "32 - k \<le> j" "j < 32" for j
    using eq [of "j - (32 - k)"] that by (simp add: bit_simps)
  then show "a AND top_mask k = b AND top_mask k" unfolding masked_eq [OF assms] by blast
next
  assume "a AND top_mask k = b AND top_mask k"
  then have eq: "\<And>j. j < 32 \<Longrightarrow> 32 - k \<le> j \<Longrightarrow> bit a j = bit b j" unfolding masked_eq [OF assms] by blast
  show "drop_bit (32 - k) a = drop_bit (32 - k) b"
  proof (rule bit_word_eqI)
    fix j assume "j < LENGTH(32)"
    show "bit (drop_bit (32 - k) a) j = bit (drop_bit (32 - k) b) j"
    proof (cases "32 - k + j < 32")
      case True
      then show ?thesis using eq [of "32 - k + j"] by (simp add: bit_simps)
    next
      case False
      then have "\<not> bit a (32 - k + j)" "\<not> bit b (32 - k + j)" by (auto dest: bit_imp_le_length)
      then show ?thesis by (simp add: bit_simps)
    qed
  qed
qed

text \<open>The bits of a byte string, and the prefix of an IPv6 block.\<close>

definition byte_bits :: "u_char \<Rightarrow> bool list" where
  "byte_bits b = map (\<lambda>i. bit b (7 - i)) [0..<8]"

definition address_bits :: "bytes \<Rightarrow> bool list" where
  "address_bits p = concat (map byte_bits p)"

lemma address_bits_simps [simp]: "address_bits [] = []" "address_bits (b # p) = byte_bits b @ address_bits p"
  "length (byte_bits b) = 8" "length (address_bits p) = 8 * length p"
  by (simp_all add: address_bits_def byte_bits_def length_concat comp_def sum_list_triv)

definition byte_mask :: "nat \<Rightarrow> u_char" where
  "byte_mask s = ucast (push_bit (8 - s) (0xff :: u32))"

lemma byte_mask_bit: "s \<le> 8 \<Longrightarrow> bit (byte_mask s) j \<longleftrightarrow> 8 - s \<le> j \<and> j < 8"
proof -
  assume s: "s \<le> 8"
  have ff: "(0xff :: u32) = mask 8" by (simp add: mask_eq_exp_minus_1)
  show ?thesis using s unfolding byte_mask_def ff by (auto simp: bit_simps)
qed

lemma byte_masked_eq:
  assumes "s \<le> 8"
  shows "a AND byte_mask s = b AND byte_mask s \<longleftrightarrow> take s (byte_bits a) = take s (byte_bits b)"
proof -
  have "a AND byte_mask s = b AND byte_mask s \<longleftrightarrow> (\<forall>j < 8. 8 - s \<le> j \<longrightarrow> bit a j = bit b j)"
    using byte_mask_bit [OF assms] by (auto simp: bit_eq_iff bit_simps)
  also have "\<dots> \<longleftrightarrow> (\<forall>i < s. bit a (7 - i) = bit b (7 - i))"
  proof (rule iffI; intro allI impI)
    fix i assume "\<forall>j < 8. 8 - s \<le> j \<longrightarrow> bit a j = bit b j" "i < s"
    then show "bit a (7 - i) = bit b (7 - i)" using assms by simp
  next
    fix j assume h: "\<forall>i < s. bit a (7 - i) = bit b (7 - i)" "j < 8" "8 - s \<le> j"
    have "7 - (7 - j) = j" "7 - j < s" using h(2,3) assms by auto
    then show "bit a j = bit b j" using h(1) by metis
  qed
  also have "\<dots> \<longleftrightarrow> take s (byte_bits a) = take s (byte_bits b)"
    using assms by (auto simp: byte_bits_def list_eq_iff_nth_eq)
  finally show ?thesis .
qed

lemma cidr6_loop_simp: "cidr6_loop (a # addr) shift =
    (case cidr6_loop addr (shift - min 8 shift) of (addr', mk) \<Rightarrow> ((a AND byte_mask (min 8 shift)) # addr', byte_mask (min 8 shift) # mk))"
  by (simp add: byte_mask_def Let_def min_def)

lemma cidr6_loop_match:
  assumes "length q = length p"
  shows "map2 (AND) q (snd (cidr6_loop p k)) = fst (cidr6_loop p k) \<longleftrightarrow> take k (address_bits q) = take k (address_bits p)"
  using assms
proof (induction p arbitrary: q k)
  case (Cons a p)
  then obtain b r where q: "q = b # r" "length r = length p" by (cases q) auto
  let ?s = "min 8 k"
  obtain addr mk where rest: "cidr6_loop p (k - ?s) = (addr, mk)" by fastforce
  have IH: "map2 (AND) r mk = addr \<longleftrightarrow> take (k - ?s) (address_bits r) = take (k - ?s) (address_bits p)"
    using Cons.IH [of r "k - ?s"] q rest by simp
  have "k - ?s = k - 8" by simp
  moreover have "take k (byte_bits c) = take ?s (byte_bits c)" for c by (simp add: min_def)
  ultimately show ?case
    using byte_masked_eq [of ?s b a] IH rest by (simp add: q cidr6_loop_simp del: cidr6_loop.simps(2))
qed simp

section \<open>Properties\<close>

text \<open>
  C8. What \<open>ngx_inet6_ntop\<close> prints for an address, \<open>ngx_inet6_addr\<close> reads back as that address,
  with the longest run of zeros shortened and the mapped and compatible addresses in their
  dotted form; but a dotted form that ends in 255.255.255.255 is refused, since the number of
  that part is the one that \<open>ngx_inet_addr\<close> keeps for errors.
\<close>

theorem inet6_ntop_roundtrip:
  assumes "length p = 16" and "NGX_INET6_ADDRSTRLEN \<le> len" and "ntop_scan p 0 None 1 0 0 = (zero, mx)"
  shows "ngx_inet6_addr (ngx_inet6_ntop p len) =
    (if ntop_dotted p zero mx \<and> drop 12 p = replicate 4 0xff then None else Some p)"
  using assms by (rule inet6_round_trip)

theorem inet6_ntop_roundtrip_witness:
  "ngx_inet6_addr (ngx_inet6_ntop (replicate 10 0 @ [0xff, 0xff, 0xff, 0xff, 0xff, 0xff]) 45) = None"
  by (subst inet6_ntop_roundtrip [where zero = "Some 0" and mx = 5])
    (simp_all add: NGX_INET6_ADDRSTRLEN_def ntop_dotted_def replicate_numeral)

text \<open>
  The dotted form of four bytes is read back by \<open>ngx_inet_addr\<close> as their number, and only
  255.255.255.255 cannot be told from the error.
\<close>

theorem inet_addr_roundtrip:
  assumes "length p = 4"
  shows "uint (ngx_inet_addr (print_dotted p)) = ((uint (p ! 0) * 256 + uint (p ! 1)) * 256 + uint (p ! 2)) * 256 + uint (p ! 3)
     \<and> (ngx_inet_addr (print_dotted p) = INADDR_NONE \<longleftrightarrow> p = replicate 4 0xff)"
  using dotted_full [of "replicate 12 0 @ p"] assms
  by (simp add: inet_addr_dotted uint_dotted_value)

theorem inet_addr_roundtrip_witness:
  "uint (ngx_inet_addr (print_dotted [127, 0, 0, 1])) = 127 * 256 ^ 3 + 1"
  using inet_addr_roundtrip [of "[127, 0, 0, 1]"] by simp

lemma strlchr_found: "c \<notin> set a \<Longrightarrow> ngx_strlchr (a @ c # b) c = (a, Some b)"
proof -
  assume "c \<notin> set a"
  then have "takeWhile (\<lambda>x. x \<noteq> c) (a @ c # b) = a \<and> dropWhile (\<lambda>x. x \<noteq> c) (a @ c # b) = c # b"
    by (induction a) auto
  then show ?thesis by (simp add: ngx_strlchr_def)
qed

lemma atoi_nonneg: "ngx_atoi s = Some k \<Longrightarrow> 0 \<le> k"
  using dec_value_nonneg by (auto simp: ngx_atoi_eq split: if_splits)

text \<open>
  C20. An IPv4 client matches the block that \<open>ngx_ptocidr\<close> reads from \<open>address/k\<close> exactly when
  its first k bits are those of the address, whatever the written address has behind them; the
  code \<open>NGX_DONE\<close> tells that it had something there.
\<close>

theorem cidr_match_prefix:
  assumes "ngx_ptocidr (addr @ 0x2f # text) = (rc, Some cidr)" and "0x2f \<notin> set addr"
    and "ngx_atoi text = Some k" and "ngx_inet_addr addr \<noteq> INADDR_NONE"
  shows "ngx_cidr_match (Sock_in a) [cidr] =
      (if drop_bit (32 - nat k) a = drop_bit (32 - nat k) (ngx_inet_addr addr) then NGX_OK else NGX_DECLINED)"
proof -
  let ?v = "ngx_inet_addr addr"
  have k: "0 \<le> k" "\<not> k > 32"
    using assms atoi_nonneg by (auto simp: ngx_ptocidr_def strlchr_found Let_def split: if_splits)
  then have "(if k \<noteq> 0 then push_bit (nat (32 - k)) 0xffffffff else 0) = top_mask (nat k)"
    by (simp add: top_mask_def nat_diff_distrib nat_eq_iff)
  then have m: "cidr = \<lparr>cidr_family = AF_INET, in_addr = ?v AND top_mask (nat k), in_mask = top_mask (nat k), in6_addr = [], in6_mask = []\<rparr>"
    using assms k by (simp add: ngx_ptocidr_def strlchr_found Let_def)
  have "ngx_cidr_match (Sock_in a) [cidr] = (if a AND top_mask (nat k) = ?v AND top_mask (nat k) then NGX_OK else NGX_DECLINED)"
    by (simp add: ngx_cidr_match_def m)
  then show ?thesis using masked_drop [of "nat k" a ?v] k by simp
qed

text \<open>
  An IPv6 client that is not a mapped IPv4 address matches the block of \<open>address/k\<close> exactly
  when its first k bits are those of the address.
\<close>

theorem cidr6_match_prefix:
  assumes "ngx_ptocidr (addr @ 0x2f # text) = (rc, Some cidr)" and "0x2f \<notin> set addr"
    and "ngx_atoi text = Some k" and "ngx_inet_addr addr = INADDR_NONE" and "ngx_inet6_addr addr = Some b"
    and "length p = length b" and "\<not> v4_mapped p"
  shows "ngx_cidr_match (Sock_in6 p) [cidr] =
      (if take (nat k) (address_bits p) = take (nat k) (address_bits b) then NGX_OK else NGX_DECLINED)"
proof -
  have m: "cidr = \<lparr>cidr_family = AF_INET6, in_addr = 0, in_mask = 0, in6_addr = fst (cidr6_loop b (nat k)), in6_mask = snd (cidr6_loop b (nat k))\<rparr>"
    using assms(1-5) by (auto simp: ngx_ptocidr_def strlchr_found Let_def split: if_splits prod.splits)
  show ?thesis
    using assms(7) cidr6_loop_match [OF assms(6), of "nat k"] by (simp add: ngx_cidr_match_def m)
qed

theorem cidr_match_prefix_witness:
  "ngx_cidr_match (Sock_in 0x0a010203) [\<lparr>cidr_family = AF_INET, in_addr = 0x0a010000, in_mask = 0xffff0000, in6_addr = [], in6_mask = []\<rparr>] = NGX_OK"
proof -
  have v: "ngx_inet_addr (str_bytes ''10.1.9.9'') = 0x0a010909" by (simp add: ngx_inet_addr_def)
  have k: "ngx_atoi (str_bytes ''16'') = Some 16" by (simp add: ngx_atoi_def max_defs digit_val_def)
  have "ngx_ptocidr (str_bytes ''10.1.9.9'' @ 0x2f # str_bytes ''16'') = (NGX_DONE,
      Some \<lparr>cidr_family = AF_INET, in_addr = 0x0a010000, in_mask = 0xffff0000, in6_addr = [], in6_mask = []\<rparr>)"
    unfolding ngx_ptocidr_def
    by (subst strlchr_found) (simp_all add: v [simplified] k [simplified] Let_def INADDR_NONE_def)
  from cidr_match_prefix [OF this _ k, of "0x0a010203"] v show ?thesis by (simp add: INADDR_NONE_def drop_bit_eq_div)
qed

theorem cidr6_match_prefix_witness:
  "ngx_cidr_match (Sock_in6 ([0x20, 1, 0x0d, 0xb9] @ replicate 12 0))
     [\<lparr>cidr_family = AF_INET6, in_addr = 0, in_mask = 0, in6_addr = [0x20, 1, 0x0d, 0xb8] @ replicate 12 0,
       in6_mask = replicate 4 0xff @ replicate 12 0\<rparr>] = NGX_DECLINED"
proof -
  let ?b = "[0x20, 1, 0x0d, 0xb8] @ replicate 12 0 :: bytes"
  have v: "ngx_inet_addr (str_bytes ''2001:db8::'') = INADDR_NONE" by (simp add: ngx_inet_addr_def)
  have b: "ngx_inet6_addr (str_bytes ''2001:db8::'') = Some ?b"
    by (simp add: ngx_inet6_addr_def inet6_start_def inet6_end_def put_word_def replicate_numeral Let_def)
  have k: "ngx_atoi (str_bytes ''32'') = Some 32" by (simp add: ngx_atoi_def max_defs digit_val_def)
  have c: "cidr6_loop ?b (nat 32) = (?b, replicate 4 0xff @ replicate 12 0)" by code_simp
  have slash: "0x2f \<notin> set (str_bytes ''2001:db8::'')" by simp
  have "ngx_ptocidr (str_bytes ''2001:db8::'' @ 0x2f # str_bytes ''32'') = (NGX_OK,
      Some \<lparr>cidr_family = AF_INET6, in_addr = 0, in_mask = 0, in6_addr = ?b, in6_mask = replicate 4 0xff @ replicate 12 0\<rparr>)"
    unfolding ngx_ptocidr_def strlchr_found [OF slash] prod.case v b k Let_def option.case option.sel c by simp
  from cidr6_match_prefix [OF this _ k v b, of "[0x20, 1, 0x0d, 0xb9] @ replicate 12 0"] show ?thesis
    by (simp add: v4_mapped_def byte_bits_def replicate_numeral upt_rec)
qed


end
