(* ===== verification/Ngx_Proxy_Protocol.thy ===== *)
theory Ngx_Proxy_Protocol
  imports Ngx_Inet
begin

text \<open>
  The PROXY protocol header of \<open>core/ngx_proxy_protocol.c\<close>: the reader of the text form and of the
  binary one, the writer of the text form, and \<open>ngx_sock_ntop\<close> and \<open>ngx_inet_get_port\<close> of
  \<open>core/ngx_inet.c\<close>, which it prints addresses with. A reader gets the bytes from \<open>buf\<close> to \<open>last\<close>;
  a pointer is its distance from \<open>buf\<close>, so that one behind \<open>last\<close> is a value of the model too, and a
  read behind \<open>last\<close> is the result \<open>Overread\<close>.
\<close>

section \<open>Socket addresses\<close>






section \<open>Writing\<close>




section \<open>Reading\<close>



definition addr_char :: "u_char \<Rightarrow> bool" where
  "addr_char ch \<longleftrightarrow>
     \<not> (ch \<noteq> 0x3a \<and> ch \<noteq> 0x2e \<and> (ch < 0x61 \<or> ch > 0x66) \<and> (ch < 0x41 \<or> ch > 0x46) \<and> (ch < 0x30 \<or> ch > 0x39))"

definition pp_slice :: "bytes \<Rightarrow> nat \<Rightarrow> nat \<Rightarrow> bytes" where
  "pp_slice buf p q = take (q - p) (drop p buf)"












text \<open>
  The bytes from \<open>p\<close> on against a text. Where the code tests the length in an earlier step than the
  one that reads, the model checks again that the bytes are there.
\<close>

definition text_at :: "bytes \<Rightarrow> nat \<Rightarrow> bytes \<Rightarrow> bool" where
  "text_at buf p s \<longleftrightarrow> pp_slice buf p (p + length s) = s"



section \<open>What the printers write\<close>


lemma addr_char_consts [simp]: "addr_char 0x3a" "addr_char 0x2e" "\<not> addr_char 0x20"
  by (simp_all add: addr_char_def)










section \<open>Reading what was written\<close>




















lemma text_at_append: "text_at (pre @ s @ r) (length pre) s"
  by (simp add: text_at_def pp_slice_def)



section \<open>What a reader consumes\<close>










section \<open>Properties\<close>






end
