(* ===== verification/Ngx_Times.thy ===== *)
theory Ngx_Times
  imports Ngx_Number
begin

text \<open>
  The calendar of \<open>core/ngx_times.c\<close> and \<open>core/ngx_parse_time.c\<close>: seconds to a date, the dates of
  HTTP headers and cookies, and their reader. An \<open>ngx_int_t\<close> that may go below zero is an \<open>int\<close>;
  the \<open>uint64_t\<close> of the reader is taken modulo 2^64 where the code does.
\<close>

section \<open>Seconds to a date\<close>

record ngx_tm =
  tm_sec :: int
  tm_min :: int
  tm_hour :: int
  tm_mday :: int
  tm_mon :: int
  tm_year :: int
  tm_wday :: int

text \<open>The year that begins in March and the day in it, from the days since March 1, 1 BC.\<close>

definition march_year :: "int \<Rightarrow> int \<times> int" where
  "march_year days =
     (let year = (days + 2) * 400 div (365 * 400 + 100 - 4 + 1);
          yday = days - (365 * year + year div 4 - year div 100 + year div 400) in
      if yday < 0 then
        let leap = (if year mod 4 = 0 \<and> (year mod 100 \<noteq> 0 \<or> year mod 400 = 0) then 1 else 0) in
        (year - 1, 365 + leap + yday)
      else (year, yday))"

text \<open>The month and its day by the formulas of the code, with the year moved back to January.\<close>

definition gmtime_date :: "int \<Rightarrow> int \<times> int \<times> int" where
  "gmtime_date days =
     (case march_year (days - (31 + 28) + 719527) of
        (year, yday) \<Rightarrow>
          let mon = (yday + 31) * 10 div 306; mday = yday - (367 * mon div 12 - 30) + 1 in
          if yday \<ge> 306 then (year + 1, mon - 10, mday) else (year, mon + 2, mday))"

definition ngx_gmtime :: "int \<Rightarrow> ngx_tm" where
  "ngx_gmtime t =
     (let t = (if t < 0 then 0 else t);
          (days, sec) = (if t div 86400 > 2932896 then (2932896, 86399) else (t div 86400, t mod 86400));
          (year, mon, mday) = gmtime_date days
      in \<lparr>tm_sec = sec mod 3600 mod 60, tm_min = sec mod 3600 div 60, tm_hour = sec div 3600,
          tm_mday = mday, tm_mon = mon, tm_year = year, tm_wday = (4 + days) mod 7\<rparr>)"

section \<open>Printing\<close>

definition week :: "bytes list" where
  "week = [str_bytes ''Sun'', str_bytes ''Mon'', str_bytes ''Tue'', str_bytes ''Wed'', str_bytes ''Thu'', str_bytes ''Fri'', str_bytes ''Sat'']"

definition months :: "bytes list" where
  "months = [str_bytes ''Jan'', str_bytes ''Feb'', str_bytes ''Mar'', str_bytes ''Apr'', str_bytes ''May'', str_bytes ''Jun'',
     str_bytes ''Jul'', str_bytes ''Aug'', str_bytes ''Sep'', str_bytes ''Oct'', str_bytes ''Nov'', str_bytes ''Dec'']"

text \<open>\<open>%02d\<close>, \<open>%4d\<close> and \<open>%d\<close> of a number that is not negative.\<close>

definition print_02d :: "int \<Rightarrow> bytes" where
  "print_02d v = ngx_sprintf_num (2 ^ 63) (word_of_int v) 0x30 0 2"

definition print_4d :: "int \<Rightarrow> bytes" where
  "print_4d v = ngx_sprintf_num (2 ^ 63) (word_of_int v) 0x20 0 4"

definition print_d :: "int \<Rightarrow> bytes" where
  "print_d v = ngx_sprintf_num (2 ^ 63) (word_of_int v) 0x20 0 0"

definition print_clock :: "ngx_tm \<Rightarrow> bytes" where
  "print_clock tm = print_02d (tm_hour tm) @ [0x3a] @ print_02d (tm_min tm) @ [0x3a] @ print_02d (tm_sec tm) @ str_bytes '' GMT''"

definition ngx_http_time :: "int \<Rightarrow> bytes" where
  "ngx_http_time t =
     (let tm = ngx_gmtime t in
      week ! nat (tm_wday tm) @ str_bytes '', '' @ print_02d (tm_mday tm) @ [0x20] @ months ! nat (tm_mon tm - 1) @ [0x20]
        @ print_4d (tm_year tm) @ [0x20] @ print_clock tm)"

definition ngx_http_cookie_time :: "int \<Rightarrow> bytes" where
  "ngx_http_cookie_time t =
     (let tm = ngx_gmtime t in
      week ! nat (tm_wday tm) @ str_bytes '', '' @ print_02d (tm_mday tm) @ [0x2d] @ months ! nat (tm_mon tm - 1) @ [0x2d]
        @ (if tm_year tm > 2037 then print_d (tm_year tm) else print_02d (tm_year tm mod 100)) @ [0x20] @ print_clock tm)"

section \<open>Reading\<close>

datatype time_fmt = no_fmt | rfc822 | rfc850 | isoc

definition month_days :: "int list" where
  "month_days = [31, 28, 31, 30, 31, 30, 31, 31, 30, 31, 30, 31]"

text \<open>The first loop stops at a comma or at a space.\<close>

fun time_separator :: "bytes \<Rightarrow> time_fmt \<times> bytes" where
  "time_separator [] = (no_fmt, [])"
| "time_separator (c # p) =
     (if c = 0x2c then (no_fmt, c # p) else if c = 0x20 then (isoc, c # p) else time_separator p)"

definition two_digits :: "bytes \<Rightarrow> int option" where
  "two_digits p =
     (if \<not> is_digit (p ! 0) \<or> \<not> is_digit (p ! 1) then None
      else Some (digit_val (p ! 0) * 10 + digit_val (p ! 1)))"

definition four_digits :: "bytes \<Rightarrow> int option" where
  "four_digits p =
     (if \<not> is_digit (p ! 0) \<or> \<not> is_digit (p ! 1) \<or> \<not> is_digit (p ! 2) \<or> \<not> is_digit (p ! 3) then None
      else Some (digit_val (p ! 0) * 1000 + digit_val (p ! 1) * 100 + digit_val (p ! 2) * 10 + digit_val (p ! 3)))"

definition parse_month :: "bytes \<Rightarrow> int option" where
  "parse_month p =
     (let c = p ! 0 in
      if c = 0x4a then Some (if p ! 1 = 0x61 then 0 else if p ! 2 = 0x6e then 5 else 6) \<comment> \<open>J\<close>
      else if c = 0x46 then Some 1 \<comment> \<open>F\<close>
      else if c = 0x4d then Some (if p ! 2 = 0x72 then 2 else 4) \<comment> \<open>M\<close>
      else if c = 0x41 then Some (if p ! 1 = 0x70 then 3 else 7) \<comment> \<open>A\<close>
      else if c = 0x53 then Some 8 \<comment> \<open>S\<close>
      else if c = 0x4f then Some 9 \<comment> \<open>O\<close>
      else if c = 0x4e then Some 10 \<comment> \<open>N\<close>
      else if c = 0x44 then Some 11 \<comment> \<open>D\<close>
      else None)"

text \<open>The day of the formats that have it first; the text after the character behind it.\<close>

definition parse_first_day :: "bytes \<Rightarrow> (time_fmt \<times> int \<times> bytes) option" where
  "parse_first_day p =
     (case two_digits p of
        None \<Rightarrow> None
      | Some day \<Rightarrow>
          let p = drop 2 p in
          if p ! 0 = 0x20 then (if length p < 18 then None else Some (rfc822, day, tl p))
          else if p ! 0 = 0x2d then Some (rfc850, day, tl p)
          else None)"

text \<open>The day of the C format, of one or two digits, perhaps behind a second space.\<close>

definition parse_isoc_day :: "bytes \<Rightarrow> (int \<times> bytes) option" where
  "parse_isoc_day p =
     (let p = (if p ! 0 = 0x20 then tl p else p) in
      if \<not> is_digit (p ! 0) then None
      else
        let day = digit_val (p ! 0); p = tl p in
        if p ! 0 \<noteq> 0x20 then
          (if \<not> is_digit (p ! 0) then None
           else
             let day = day * 10 + digit_val (p ! 0); p = tl p in
             if length p < 14 then None else Some (day, p))
        else if length p < 14 then None else Some (day, p))"

text \<open>\<open>hh:mm:ss\<close> and the text after it.\<close>

definition parse_clock :: "bytes \<Rightarrow> (int \<times> int \<times> int \<times> bytes) option" where
  "parse_clock p =
     (case two_digits p of None \<Rightarrow> None | Some hour \<Rightarrow>
      let p = drop 2 p in
      if p ! 0 \<noteq> 0x3a then None else
      let p = tl p in
      case two_digits p of None \<Rightarrow> None | Some minute \<Rightarrow>
      let p = drop 2 p in
      if p ! 0 \<noteq> 0x3a then None else
      let p = tl p in
      case two_digits p of None \<Rightarrow> None | Some sec \<Rightarrow> Some (hour, minute, sec, drop 2 p))"

text \<open>Days since 1970 by Gauss' formula; \<open>month\<close> runs from 0 for January.\<close>

definition gauss_days :: "int \<Rightarrow> int \<Rightarrow> int \<Rightarrow> int" where
  "gauss_days year month day =
     (let month' = month - 1;
          (month, year) = (if month' \<le> 0 then (month' + 12, (year - 1) mod 2 ^ 64) else (month', year)) in
      365 * year + year div 4 - year div 100 + year div 400 + (367 * month div 12 - 30) + day - 1 - 719527 + 31 + 28)"

definition signed64 :: "int \<Rightarrow> int" where
  "signed64 v = (let v = v mod 2 ^ 64 in if v < 2 ^ 63 then v else v - 2 ^ 64)"

definition NGX_TIME_ERROR :: int where "NGX_TIME_ERROR = -1"

definition check_date :: "int \<Rightarrow> int \<Rightarrow> int \<Rightarrow> int \<Rightarrow> int \<Rightarrow> int \<Rightarrow> int" where
  "check_date year month day hour minute sec =
     (if hour > 23 \<or> minute > 59 \<or> sec > 59 then NGX_TIME_ERROR
      else if (if day = 29 \<and> month = 1 then year mod 4 \<noteq> 0 \<or> year mod 100 = 0 \<and> year mod 400 \<noteq> 0
               else day > month_days ! nat month)
      then NGX_TIME_ERROR
      else signed64 (gauss_days year month day * 86400 + hour * 3600 + minute * 60 + sec))"

definition parse_year :: "time_fmt \<Rightarrow> bytes \<Rightarrow> (int \<times> bytes) option" where
  "parse_year fmt p =
     (case fmt of
        rfc822 \<Rightarrow> map_option (\<lambda>year. (year, drop 4 p)) (four_digits p)
      | rfc850 \<Rightarrow> map_option (\<lambda>year. (year + (if year < 70 then 2000 else 1900), drop 2 p)) (two_digits p)
      | _ \<Rightarrow> Some (2038, p))"

definition ngx_parse_http_time :: "bytes \<Rightarrow> int" where
  "ngx_parse_http_time text =
     (case time_separator text of (fmt, p) \<Rightarrow>
      let p = dropWhile (\<lambda>c. c = 0x20) (tl p) in
      if length p < 18 then NGX_TIME_ERROR else
      case (if fmt \<noteq> isoc then parse_first_day p else Some (isoc, 32, p)) of None \<Rightarrow> NGX_TIME_ERROR
      | Some (fmt, day, p) \<Rightarrow>
      case parse_month p of None \<Rightarrow> NGX_TIME_ERROR | Some month \<Rightarrow>
      let p = drop 3 p in
      if fmt = rfc822 \<and> p ! 0 \<noteq> 0x20 \<or> fmt = rfc850 \<and> p ! 0 \<noteq> 0x2d then NGX_TIME_ERROR else
      let p = tl p in
      case parse_year fmt p of None \<Rightarrow> NGX_TIME_ERROR | Some (year, p) \<Rightarrow>
      case (if fmt = isoc then parse_isoc_day p else Some (day, p)) of None \<Rightarrow> NGX_TIME_ERROR | Some (day, p) \<Rightarrow>
      if p ! 0 \<noteq> 0x20 then NGX_TIME_ERROR else
      case parse_clock (tl p) of None \<Rightarrow> NGX_TIME_ERROR | Some (hour, minute, sec, p) \<Rightarrow>
      case (if fmt \<noteq> isoc then Some year else if p ! 0 \<noteq> 0x20 then None else four_digits (tl p)) of
        None \<Rightarrow> NGX_TIME_ERROR
      | Some year \<Rightarrow> check_date year month day hour minute sec)"


section \<open>Years and months\<close>

text \<open>The days from March 1 of the year 0 to March 1 of the year \<open>y\<close>.\<close>

definition march_days :: "int \<Rightarrow> int" where
  "march_days y = 365 * y + y div 4 - y div 100 + y div 400"

definition leap_year :: "int \<Rightarrow> bool" where
  "leap_year y \<longleftrightarrow> y mod 4 = 0 \<and> (y mod 100 \<noteq> 0 \<or> y mod 400 = 0)"

lemma div_pred: "0 < n \<Longrightarrow> y div n - (y - 1) div n = (if y mod n = 0 then 1 else 0)" for y n :: int
proof -
  assume n: "0 < n"
  have y: "y = n * (y div n) + y mod n" by simp
  show ?thesis
  proof (cases "y mod n = 0")
    case True
    then have "y - 1 = n * (y div n - 1) + (n - 1)" using y by (simp add: algebra_simps)
    then have "(y - 1) div n = y div n - 1" using n by (intro int_div_pos_eq [where r = "n - 1"]) simp_all
    then show ?thesis using True by simp
  next
    case False
    then have r: "0 \<le> y mod n - 1" "y mod n - 1 < n" using n pos_mod_bound [of n y] pos_mod_sign [of n y] by linarith+
    have "y - 1 = n * (y div n) + (y mod n - 1)" using y by linarith
    then have "(y - 1) div n = y div n" using r by (intro int_div_pos_eq [where r = "y mod n - 1"])
    then show ?thesis using False by simp
  qed
qed

lemma march_days_step: "march_days y - march_days (y - 1) = (if leap_year y then 366 else 365)"
proof -
  have mods: "y mod 400 = 0 \<Longrightarrow> y mod 100 = 0" "y mod 100 = 0 \<Longrightarrow> y mod 4 = 0"
    by (auto simp: mod_eq_0_iff_dvd intro: dvd_trans [of _ 400] dvd_trans [of _ 100])
  have eq: "march_days y - march_days (y - 1) = 365 + (y div 4 - (y - 1) div 4) - (y div 100 - (y - 1) div 100) + (y div 400 - (y - 1) div 400)"
    by (simp add: march_days_def)
  have d: "y div 4 - (y - 1) div 4 = (if y mod 4 = 0 then 1 else 0)"
    "y div 100 - (y - 1) div 100 = (if y mod 100 = 0 then 1 else 0)"
    "y div 400 - (y - 1) div 400 = (if y mod 400 = 0 then 1 else 0)" by (simp_all add: div_pred)
  show ?thesis
    unfolding eq d leap_year_def using mods
    by (cases "y mod 4 = 0"; cases "y mod 100 = 0"; cases "y mod 400 = 0") simp_all
qed

lemma div_bounds: "0 < n \<Longrightarrow> n * (y div n) \<le> y \<and> y < n * (y div n) + n" for y n :: int
  by (metis add_le_cancel_left add_strict_left_mono le_add_same_cancel1 mult_div_mod_eq pos_mod_bound pos_mod_sign)

lemma march_days_bounds: "146097 * y - 800 < 400 * march_days y" "400 * march_days y \<le> 146097 * y + 396"
  using div_bounds [of 4 y] div_bounds [of 100 y] div_bounds [of 400 y] by (simp_all add: march_days_def)

lemma march_year_correct:
  assumes "0 \<le> days" "march_year days = (y, yday)"
  shows "days = march_days y + yday" "0 \<le> yday" "yday < march_days (y + 1) - march_days y" "0 \<le> y"
    and "y \<le> (days + 2) * 400 div 146097"
proof -
  define Y where "Y = (days + 2) * 400 div 146097"
  have Y: "146097 * Y \<le> (days + 2) * 400" "(days + 2) * 400 < 146097 * Y + 146097"
    using div_bounds [of 146097 "(days + 2) * 400"] by (simp_all add: Y_def)
  have nonneg: "0 \<le> Y" using assms(1) by (simp add: Y_def pos_imp_zdiv_nonneg_iff)
  have above: "days < march_days (Y + 1)" using march_days_bounds(1) [of "Y + 1"] Y(2) by simp
  have step: "march_year days =
     (if days - march_days Y < 0 then (Y - 1, (if leap_year Y then 366 else 365) + (days - march_days Y))
      else (Y, days - march_days Y))"
  proof -
    have c: "365 * 400 + 100 - 4 + 1 = (146097 :: int)" by simp
    show ?thesis
      unfolding march_year_def Let_def c Y_def [symmetric] march_days_def [symmetric] leap_year_def by auto
  qed
  have "days = march_days y + yday \<and> 0 \<le> yday \<and> yday < march_days (y + 1) - march_days y \<and> 0 \<le> y \<and> y \<le> Y"
  proof (cases "days - march_days Y < 0")
    case False
    then show ?thesis using assms step above nonneg by auto
  next
    case True
    have below: "march_days (Y - 1) \<le> days" using march_days_bounds(2) [of "Y - 1"] Y(1) by simp
    have "Y \<noteq> 0" using True assms(1) by (auto simp: march_days_def)
    moreover have y: "y = Y - 1" "yday = march_days Y - march_days (Y - 1) + (days - march_days Y)"
      using assms(2) step True march_days_step [of Y] by auto
    ultimately show ?thesis using below True nonneg by simp
  qed
  then show "days = march_days y + yday" "0 \<le> yday" "yday < march_days (y + 1) - march_days y" "0 \<le> y"
    "y \<le> (days + 2) * 400 div 146097" unfolding Y_def by blast+
qed

text \<open>The months of a year that begins in March.\<close>

lemma month_cases: "1 \<le> m \<Longrightarrow> m \<le> 12 \<Longrightarrow> m \<in> {1, 2, 3, 4, 5, 6, 7, 8, 9, 10, 11, 12}" for m :: int
  by simp presburger

definition march_month_days :: "int list" where
  "march_month_days = [31, 30, 31, 30, 31, 31, 30, 31, 30, 31, 31, 29]"

definition month_ok :: "int \<Rightarrow> bool" where
  "month_ok yday \<longleftrightarrow>
     (let mon = (yday + 31) * 10 div 306; mday = yday - (367 * mon div 12 - 30) + 1 in
      1 \<le> mon \<and> mon \<le> 12 \<and> 1 \<le> mday \<and> mday \<le> march_month_days ! nat (mon - 1)
      \<and> (306 \<le> yday \<longleftrightarrow> 11 \<le> mon) \<and> (yday = 365 \<longleftrightarrow> mon = 12 \<and> mday = 29))"

lemma month_ok: "0 \<le> yday \<Longrightarrow> yday \<le> 365 \<Longrightarrow> month_ok yday"
proof -
  assume yday: "0 \<le> yday" "yday \<le> 365"
  define m where "m = (yday + 31) * 10 div 306"
  have m: "306 * m \<le> (yday + 31) * 10" "(yday + 31) * 10 < 306 * m + 306"
    using div_bounds [of 306 "(yday + 31) * 10"] by (simp_all add: m_def)
  have "1 \<le> m" "m \<le> 12"
    using yday zdiv_mono1 [of 310 "(yday + 31) * 10" 306] zdiv_mono1 [of "(yday + 31) * 10" 3960 306] by (simp_all add: m_def)
  then have "m \<in> {1, 2, 3, 4, 5, 6, 7, 8, 9, 10, 11, 12}" by (rule month_cases)
  then show ?thesis
    unfolding month_ok_def m_def [symmetric] Let_def
    using m yday by (auto simp: march_month_days_def)
qed

section \<open>The date is the one of the calendar\<close>

definition LAST_TIME :: int where "LAST_TIME = 253402300799"

lemma gmtime_parts:
  assumes "0 \<le> t" "t \<le> LAST_TIME"
  obtains y yday where "march_year (t div 86400 + 719468) = (y, yday)"
    and "tm_sec (ngx_gmtime t) = t mod 86400 mod 3600 mod 60" "tm_min (ngx_gmtime t) = t mod 86400 mod 3600 div 60"
    and "tm_hour (ngx_gmtime t) = t mod 86400 div 3600" "tm_wday (ngx_gmtime t) = (4 + t div 86400) mod 7"
    and "tm_mday (ngx_gmtime t) = yday - (367 * ((yday + 31) * 10 div 306) div 12 - 30) + 1"
    and "tm_mon (ngx_gmtime t) = (if yday \<ge> 306 then (yday + 31) * 10 div 306 - 10 else (yday + 31) * 10 div 306 + 2)"
    and "tm_year (ngx_gmtime t) = (if yday \<ge> 306 then y + 1 else y)"
proof -
  obtain y yday where y: "march_year (t div 86400 + 719468) = (y, yday)" by fastforce
  have "t div 86400 \<le> 253402300799 div 86400" using assms(2) unfolding LAST_TIME_def by (rule zdiv_mono1) simp
  then have days: "\<not> t div 86400 > 2932896" by simp
  have pos: "\<not> t < 0" using assms(1) by simp
  have date: "gmtime_date (t div 86400) =
     (if yday \<ge> 306 then y + 1 else y, if yday \<ge> 306 then (yday + 31) * 10 div 306 - 10 else (yday + 31) * 10 div 306 + 2,
      yday - (367 * ((yday + 31) * 10 div 306) div 12 - 30) + 1)"
    using y by (simp add: gmtime_date_def Let_def add.commute)
  have gm: "ngx_gmtime t = (case gmtime_date (t div 86400) of (year, mon, mday) \<Rightarrow>
      \<lparr>tm_sec = t mod 86400 mod 3600 mod 60, tm_min = t mod 86400 mod 3600 div 60, tm_hour = t mod 86400 div 3600,
       tm_mday = mday, tm_mon = mon, tm_year = year, tm_wday = (4 + t div 86400) mod 7\<rparr>)"
    unfolding ngx_gmtime_def Let_def if_not_P [OF pos] if_not_P [OF days] prod.case ..
  show ?thesis
    by (rule that [OF y]) (simp_all only: gm date prod.case ngx_tm.simps)
qed

text \<open>The fields in their ranges, for every \<open>time_t\<close>.\<close>

definition days_in_month :: "int \<Rightarrow> int \<Rightarrow> int" where
  "days_in_month year mon = (if mon = 2 \<and> leap_year year then 29 else month_days ! nat (mon - 1))"

definition tm_ok :: "ngx_tm \<Rightarrow> bool" where
  "tm_ok tm \<longleftrightarrow> 0 \<le> tm_sec tm \<and> tm_sec tm < 60 \<and> 0 \<le> tm_min tm \<and> tm_min tm < 60 \<and> 0 \<le> tm_hour tm \<and> tm_hour tm < 24
     \<and> 1 \<le> tm_mon tm \<and> tm_mon tm \<le> 12 \<and> 1 \<le> tm_mday tm \<and> tm_mday tm \<le> days_in_month (tm_year tm) (tm_mon tm)
     \<and> 1970 \<le> tm_year tm \<and> tm_year tm \<le> 9999 \<and> 0 \<le> tm_wday tm \<and> tm_wday tm < 7"

lemma march_month_days_nth:
  assumes "1 \<le> m" "m \<le> 10"
  shows "march_month_days ! nat (m - 1) = month_days ! nat (m + 1)"
proof -
  have "m \<in> {1, 2, 3, 4, 5, 6, 7, 8, 9, 10}" using assms by simp presburger
  then show ?thesis by (auto simp: march_month_days_def month_days_def)
qed

lemma march_month_days_end: "march_month_days ! 10 = 31" "march_month_days ! 11 = 29"
  by (simp_all add: march_month_days_def)

lemma march_yday_le:
  assumes "0 \<le> days" "march_year days = (y, yday)"
  shows "yday \<le> 365" "yday = 365 \<Longrightarrow> leap_year (y + 1)"
  using march_year_correct [OF assms] march_days_step [of "y + 1"] by (auto split: if_splits)

lemma month_day_of_yday:
  assumes "0 \<le> yday" "yday \<le> 365" "yday = 365 \<longrightarrow> leap_year (y + 1)"
    and m: "m = (yday + 31) * 10 div 306" and d: "d = yday - (367 * m div 12 - 30) + 1"
    and mon: "mon = (if yday \<ge> 306 then m - 10 else m + 2)" and year: "year = (if yday \<ge> 306 then y + 1 else y)"
  shows "1 \<le> mon" "mon \<le> 12" "1 \<le> d" "d \<le> days_in_month year mon"
    and "march_days y + yday = 365 * (if mon \<le> 2 then year - 1 else year) + (if mon \<le> 2 then year - 1 else year) div 4
      - (if mon \<le> 2 then year - 1 else year) div 100 + (if mon \<le> 2 then year - 1 else year) div 400
      + (367 * (if mon \<le> 2 then mon + 10 else mon - 2) div 12 - 30) + d - 1"
proof -
  have ok: "1 \<le> m" "m \<le> 12" "1 \<le> d" "d \<le> march_month_days ! nat (m - 1)" "306 \<le> yday \<longleftrightarrow> 11 \<le> m"
    "yday = 365 \<longleftrightarrow> m = 12 \<and> d = 29"
    using month_ok [OF assms(1,2)] unfolding month_ok_def Let_def m [symmetric] d [symmetric] by blast+
  show "1 \<le> mon" "mon \<le> 12" "1 \<le> d" using ok mon by auto
  show "d \<le> days_in_month year mon"
  proof (cases "306 \<le> yday")
    case True
    then have "m = 11 \<or> m = 12" using ok by linarith
    then show ?thesis
    proof
      assume "m = 11"
      then show ?thesis using ok True mon by (simp add: days_in_month_def march_month_days_end month_days_def)
    next
      assume 12: "m = 12"
      have "d \<le> 28 \<or> d = 29 \<and> leap_year year"
        using ok(4,6) assms(3) year True 12 by (auto simp: march_month_days_end)
      then show ?thesis using True mon 12 by (auto simp: days_in_month_def month_days_def)
    qed
  next
    case False
    then have "m \<le> 10" "mon = m + 2" using ok mon by auto
    then show ?thesis using ok march_month_days_nth [of m] by (simp add: days_in_month_def add.commute)
  qed
  have "(if mon \<le> 2 then year - 1 else year) = y" "(if mon \<le> 2 then mon + 10 else mon - 2) = m"
    using ok mon year by auto
  then show "march_days y + yday = 365 * (if mon \<le> 2 then year - 1 else year) + (if mon \<le> 2 then year - 1 else year) div 4
      - (if mon \<le> 2 then year - 1 else year) div 100 + (if mon \<le> 2 then year - 1 else year) div 400
      + (367 * (if mon \<le> 2 then mon + 10 else mon - 2) div 12 - 30) + d - 1"
    by (simp only: march_days_def d)
qed

lemma gauss_days_eq:
  assumes "0 < year" "year < 10000"
  shows "gauss_days year (mon - 1) d =
    365 * (if mon \<le> 2 then year - 1 else year) + (if mon \<le> 2 then year - 1 else year) div 4
      - (if mon \<le> 2 then year - 1 else year) div 100 + (if mon \<le> 2 then year - 1 else year) div 400
      + (367 * (if mon \<le> 2 then mon + 10 else mon - 2) div 12 - 30) + d - 1 - 719468"
proof -
  have "(year - 1) mod 2 ^ 64 = year - 1" using assms by simp
  then show ?thesis unfolding gauss_days_def Let_def by (auto simp: algebra_simps)
qed

lemma year_range:
  assumes "D = march_days y + yday" "0 \<le> yday" "yday < march_days (y + 1) - march_days y"
    and "719468 \<le> D" "D \<le> 3652364"
  shows "1969 \<le> y" "y \<le> 9999" "y = 1969 \<Longrightarrow> 306 \<le> yday" "y = 9999 \<Longrightarrow> yday < 306"
proof -
  have "D < march_days (y + 1)" using assms(1,3) by linarith
  then have "400 * 719468 < 146097 * (y + 1) + 396" using assms(4) march_days_bounds(2) [of "y + 1"] by linarith
  then show "1969 \<le> y" by simp
  show "y \<le> 9999" using assms march_days_bounds(1) [of y] by linarith
  have "march_days 1969 = 719162" "march_days 9999 = 3652059" by (simp_all add: march_days_def)
  then show "y = 1969 \<Longrightarrow> 306 \<le> yday" "y = 9999 \<Longrightarrow> yday < 306" using assms by auto
qed

lemma gmtime_date:
  assumes "0 \<le> t" "t \<le> LAST_TIME"
  shows "tm_ok (ngx_gmtime t)"
    and "gauss_days (tm_year (ngx_gmtime t)) (tm_mon (ngx_gmtime t) - 1) (tm_mday (ngx_gmtime t)) = t div 86400"
proof -
  let ?tm = "ngx_gmtime t"
  obtain y yday where y: "march_year (t div 86400 + 719468) = (y, yday)"
    and tm: "tm_sec ?tm = t mod 86400 mod 3600 mod 60" "tm_min ?tm = t mod 86400 mod 3600 div 60"
      "tm_hour ?tm = t mod 86400 div 3600" "tm_wday ?tm = (4 + t div 86400) mod 7"
    and mday: "tm_mday ?tm = yday - (367 * ((yday + 31) * 10 div 306) div 12 - 30) + 1"
    and mon: "tm_mon ?tm = (if yday \<ge> 306 then (yday + 31) * 10 div 306 - 10 else (yday + 31) * 10 div 306 + 2)"
    and year: "tm_year ?tm = (if yday \<ge> 306 then y + 1 else y)"
    using gmtime_parts [OF assms] by blast
  have days: "0 \<le> t div 86400" "t div 86400 \<le> 2932896"
    using assms zdiv_mono1 [of t LAST_TIME 86400] by (simp_all add: LAST_TIME_def)
  then have D: "0 \<le> t div 86400 + 719468" by simp
  note my = march_year_correct [OF D y]
  note le = march_yday_le [OF D y]
  note date = month_day_of_yday [OF my(2) le(1) _ refl mday mon year, OF impI, OF le(2)]
  have range: "1969 \<le> y" "y \<le> 9999" "y = 1969 \<Longrightarrow> 306 \<le> yday" "y = 9999 \<Longrightarrow> yday < 306"
    using year_range [OF my(1-3)] days by simp_all
  have years: "1970 \<le> tm_year ?tm \<and> tm_year ?tm \<le> 9999"
  proof (cases "306 \<le> yday")
    case True
    then have "y \<noteq> 9999" using range(4) by auto
    then show ?thesis using True range(1,2) year by simp
  next
    case False
    then have "y \<noteq> 1969" using range(3) by auto
    then show ?thesis using False range(1,2) year by simp
  qed
  show "gauss_days (tm_year ?tm) (tm_mon ?tm - 1) (tm_mday ?tm) = t div 86400"
    using gauss_days_eq [of "tm_year ?tm" "tm_mon ?tm" "tm_mday ?tm"] years date(5) my(1) by linarith
  have clock: "t mod 86400 mod 3600 div 60 < 60" "t mod 86400 div 3600 < 24"
    using div_bounds [of 60 "t mod 86400 mod 3600"] pos_mod_bound [of 3600 "t mod 86400"]
      div_bounds [of 3600 "t mod 86400"] pos_mod_bound [of 86400 t] by linarith+
  show "tm_ok ?tm"
    unfolding tm_ok_def tm using date(1-4) years clock by (simp add: pos_imp_zdiv_nonneg_iff)
qed

text \<open>Times outside the range are moved to its ends.\<close>

lemma gmtime_ends:
  "t < 0 \<Longrightarrow> ngx_gmtime t = ngx_gmtime 0"
  "LAST_TIME < t \<Longrightarrow> ngx_gmtime t = ngx_gmtime LAST_TIME"
proof -
  show "t < 0 \<Longrightarrow> ngx_gmtime t = ngx_gmtime 0" by (simp add: ngx_gmtime_def)
  assume t: "LAST_TIME < t"
  then have days: "t div 86400 > 2932896"
    using zdiv_mono1 [of "LAST_TIME + 1" t 86400] by (simp add: LAST_TIME_def)
  then have "(if t div 86400 > 2932896 then (2932896, 86399) else (t div 86400, t mod 86400)) = (2932896, 86399)"
    by simp
  moreover have "\<not> t < 0" using t by (simp add: LAST_TIME_def)
  ultimately show "ngx_gmtime t = ngx_gmtime LAST_TIME" by (simp add: ngx_gmtime_def LAST_TIME_def)
qed

lemma gmtime_ok: "tm_ok (ngx_gmtime t)"
  using gmtime_date(1) [of t] gmtime_date(1) [of 0] gmtime_date(1) [of LAST_TIME] gmtime_ends [of t]
  by (cases "t < 0"; cases "LAST_TIME < t") (auto simp: LAST_TIME_def not_less)

text \<open>The calendar by counting: the days of the years since 1970, of the months of the year, of the month.\<close>

definition calendar_days :: "int \<Rightarrow> int \<Rightarrow> int \<Rightarrow> int" where
  "calendar_days year mon mday =
     (\<Sum>y \<in> {1970..<year}. if leap_year y then 366 else 365) + (\<Sum>m \<in> {1..<mon}. days_in_month year m) + (mday - 1)"

lemma sum_years: "1970 \<le> year \<Longrightarrow>
    (\<Sum>y \<in> {1970..<year}. if leap_year y then 366 else 365) = march_days (year - 1) - march_days 1969"
proof (induction "nat (year - 1970)" arbitrary: year)
  case 0
  then have "year = 1970" by simp
  then show ?case by simp
next
  case (Suc k)
  then have "{1970..<year} = insert (year - 1) {1970..<year - 1}" by auto
  moreover have "(\<Sum>y \<in> {1970..<year - 1}. if leap_year y then 366 else 365) = march_days (year - 2) - march_days 1969"
    using Suc.hyps(1) [of "year - 1"] Suc.hyps(2) by (simp add: algebra_simps)
  ultimately show ?case using march_days_step [of "year - 1"] by (simp add: algebra_simps)
qed

lemma sum_months:
  assumes "1 \<le> mon" "mon \<le> 12"
  shows "(\<Sum>m \<in> {1..<mon}. days_in_month year m) =
    (if mon \<le> 2 then 367 * (mon + 10) div 12 - 30 - 306 else 59 + (if leap_year year then 1 else 0) + (367 * (mon - 2) div 12 - 30))"
proof -
  have range: "{1..<m} = (if m \<le> 1 then {} else insert (m - 1) {1..<m - 1})" for m :: int by auto
  have "mon \<in> {1, 2, 3, 4, 5, 6, 7, 8, 9, 10, 11, 12}" using assms by (rule month_cases)
  then show ?thesis
    by (auto simp: range [of 2] range [of 3] range [of 4] range [of 5] range [of 6] range [of 7] range [of 8] range [of 9]
        range [of 10] range [of 11] range [of 12] days_in_month_def month_days_def)
qed

lemma calendar_gauss:
  assumes "1970 \<le> year" "year < 10000" "1 \<le> mon" "mon \<le> 12"
  shows "calendar_days year mon d = gauss_days year (mon - 1) d"
proof -
  have base: "march_days 1969 = 719162" by (simp add: march_days_def)
  have pos: "0 < year" using assms(1) by simp
  note gauss = gauss_days_eq [OF pos assms(2), of mon d, folded march_days_def]
  show ?thesis
  proof (cases "mon \<le> 2")
    case True
    show ?thesis
      unfolding calendar_days_def sum_years [OF assms(1)] sum_months [OF assms(3,4)] gauss if_P [OF True] base by simp
  next
    case False
    show ?thesis
      unfolding calendar_days_def sum_years [OF assms(1)] sum_months [OF assms(3,4)] gauss if_not_P [OF False] base
      using march_days_step [of year] by (simp split: if_splits)
  qed
qed

section \<open>Printing and reading dates\<close>

lemma days_in_month_le:
  assumes "1 \<le> mon" "mon \<le> 12"
  shows "days_in_month year mon \<le> 31"
proof -
  have "mon \<in> {1, 2, 3, 4, 5, 6, 7, 8, 9, 10, 11, 12}" using assms by (rule month_cases)
  then show ?thesis by (auto simp: days_in_month_def month_days_def)
qed

lemma two_digits_list:
  assumes "length ds = 2" "list_all is_digit ds"
  shows "two_digits (ds @ rest) = Some (dec_value ds)"
  using assms by (auto simp: two_digits_def length_Suc_conv numeral_eq_Suc)

lemma four_digits_list:
  assumes "length ds = 4" "list_all is_digit ds"
  shows "four_digits (ds @ rest) = Some (dec_value ds)"
  using assms by (auto simp: four_digits_def length_Suc_conv numeral_eq_Suc algebra_simps)

lemma sprintf_dec_facts:
  assumes "0 \<le> v" "v < 10 ^ Suc k" "Suc k \<le> 10"
  shows "length (sprintf_dec64 (word_of_int v) []) \<le> Suc k"
    and "list_all is_digit (sprintf_dec64 (word_of_int v) [])" "dec_value (sprintf_dec64 (word_of_int v) []) = v"
proof -
  have "(10 :: int) ^ Suc k \<le> 10 ^ 10" using assms(3) by (intro power_increasing) simp_all
  then have v: "uint (word_of_int v :: u64) = v"
    using assms by (simp add: unsigned_of_int take_bit_int_eq_self)
  show "length (sprintf_dec64 (word_of_int v) []) \<le> Suc k"
    using sprintf_dec64_length [of "word_of_int v" k "[]"] assms(2) v by simp
  show "list_all is_digit (sprintf_dec64 (word_of_int v) [])" by (simp add: sprintf_dec64_digits)
  show "dec_value (sprintf_dec64 (word_of_int v) []) = v" by (simp add: sprintf_dec64_value v)
qed

lemma print_02d_facts:
  assumes "0 \<le> v" "v < 100"
  shows "length (print_02d v) = 2" "list_all is_digit (print_02d v)" "dec_value (print_02d v) = v"
proof -
  let ?p = "sprintf_dec64 (word_of_int v) []"
  have f: "length ?p \<le> 2" "list_all is_digit ?p" "dec_value ?p = v"
    using sprintf_dec_facts [of v 1] assms by simp_all
  then have "print_02d v = replicate (2 - length ?p) 0x30 @ ?p"
    by (simp add: print_02d_def ngx_sprintf_num_dec Let_def)
  then show "length (print_02d v) = 2" "list_all is_digit (print_02d v)" "dec_value (print_02d v) = v"
    using f by simp_all
qed

lemma dec_from_less: "list_all is_digit ds \<Longrightarrow> dec_from v ds < (v + 1) * 10 ^ length ds"
proof (induction ds arbitrary: v)
  case (Cons c ds)
  have "dec_from (v * 10 + digit_val c) ds < (v * 10 + digit_val c + 1) * 10 ^ length ds" using Cons by simp
  also have "\<dots> \<le> ((v + 1) * 10) * 10 ^ length ds"
    using Cons.prems is_digit_bounds [of c] by (intro mult_right_mono) auto
  finally show ?case by (simp add: algebra_simps)
qed simp

lemma print_4d_facts:
  assumes "1000 \<le> v" "v < 10000"
  shows "length (print_4d v) = 4" "list_all is_digit (print_4d v)" "dec_value (print_4d v) = v"
proof -
  let ?p = "sprintf_dec64 (word_of_int v) []"
  have f: "length ?p \<le> 4" "list_all is_digit ?p" "dec_value ?p = v"
    using sprintf_dec_facts [of v 3] assms by simp_all
  have "\<not> length ?p \<le> 3"
  proof
    assume "length ?p \<le> 3"
    then have "(10 :: int) ^ length ?p \<le> 10 ^ 3" by (intro power_increasing) simp_all
    then show False using dec_from_less [OF f(2), of 0] f(3) assms by simp
  qed
  then have len: "length ?p = 4" using f(1) by simp
  then have "print_4d v = ?p" by (simp add: print_4d_def ngx_sprintf_num_dec Let_def)
  then show "length (print_4d v) = 4" "list_all is_digit (print_4d v)" "dec_value (print_4d v) = v"
    using f len by simp_all
qed

lemma parse_clock_print:
  assumes "0 \<le> tm_sec tm" "tm_sec tm < 60" "0 \<le> tm_min tm" "tm_min tm < 60" "0 \<le> tm_hour tm" "tm_hour tm < 24"
  shows "parse_clock (print_clock tm) = Some (tm_hour tm, tm_min tm, tm_sec tm, str_bytes '' GMT'')"
proof -
  note h = print_02d_facts [of "tm_hour tm"] and m = print_02d_facts [of "tm_min tm"] and s = print_02d_facts [of "tm_sec tm"]
  have drop: "drop 2 (ds @ rest) = rest" if "length ds = 2" for ds rest :: bytes using that by simp
  have "print_clock tm = print_02d (tm_hour tm) @ 0x3a # print_02d (tm_min tm) @ 0x3a # print_02d (tm_sec tm) @ str_bytes '' GMT''"
    by (simp add: print_clock_def)
  then show ?thesis
    using assms h m s by (simp add: parse_clock_def two_digits_list drop del: drop_append str_bytes_simps)
qed

lemma length_print_clock:
  assumes "0 \<le> tm_sec tm" "tm_sec tm < 60" "0 \<le> tm_min tm" "tm_min tm < 60" "0 \<le> tm_hour tm" "tm_hour tm < 24"
  shows "length (print_clock tm) = 12"
  using assms print_02d_facts(1) [of "tm_hour tm"] print_02d_facts(1) [of "tm_min tm"] print_02d_facts(1) [of "tm_sec tm"]
  by (simp add: print_clock_def)

lemma parse_month_print:
  assumes "1 \<le> mon" "mon \<le> 12"
  shows "parse_month (months ! nat (mon - 1) @ rest) = Some (mon - 1)" "length (months ! nat (mon - 1)) = 3"
proof -
  have "mon \<in> {1, 2, 3, 4, 5, 6, 7, 8, 9, 10, 11, 12}" using assms by (rule month_cases)
  then show "parse_month (months ! nat (mon - 1) @ rest) = Some (mon - 1)" "length (months ! nat (mon - 1)) = 3"
    by (auto simp: months_def parse_month_def)
qed

lemma time_separator_week:
  assumes "0 \<le> w" "w < 7"
  shows "time_separator (week ! nat w @ 0x2c # rest) = (no_fmt, 0x2c # rest)"
proof -
  have "w \<in> {0, 1, 2, 3, 4, 5, 6}" using assms by simp presburger
  then show ?thesis by (auto simp: week_def)
qed

lemma digit_not_space: "is_digit c \<Longrightarrow> c \<noteq> 0x20"
  by (auto simp: is_digit_def)

lemma dropWhile_digits:
  assumes "list_all is_digit ds" "ds \<noteq> []"
  shows "dropWhile (\<lambda>c. c = 0x20) (0x20 # ds @ rest) = ds @ rest"
  using assms digit_not_space by (cases ds) auto

lemma read_date_text:
  assumes ok: "tm_ok tm" and sep: "fmt = rfc822 \<and> sc = 0x20 \<or> fmt = rfc850 \<and> sc = 0x2d"
    and year: "parse_year fmt (ys @ 0x20 # print_clock tm) = Some (tm_year tm, 0x20 # print_clock tm)" and len: "length ys \<le> 4" "2 \<le> length ys"
      "fmt = rfc822 \<longrightarrow> length ys = 4"
  shows "ngx_parse_http_time (week ! nat (tm_wday tm) @ str_bytes '', '' @ print_02d (tm_mday tm) @ [sc]
      @ months ! nat (tm_mon tm - 1) @ [sc] @ ys @ [0x20] @ print_clock tm)
    = check_date (tm_year tm) (tm_mon tm - 1) (tm_mday tm) (tm_hour tm) (tm_min tm) (tm_sec tm)"
proof -
  have mday: "0 \<le> tm_mday tm" "tm_mday tm < 100"
  proof -
    have "days_in_month (tm_year tm) (tm_mon tm) \<le> 31"
      using ok days_in_month_le [of "tm_mon tm" "tm_year tm"] by (simp add: tm_ok_def)
    then show "0 \<le> tm_mday tm" "tm_mday tm < 100" using ok by (simp_all add: tm_ok_def)
  qed
  note d = print_02d_facts [OF mday]
  have mon: "1 \<le> tm_mon tm" "tm_mon tm \<le> 12" using ok by (simp_all add: tm_ok_def)
  note m = parse_month_print [OF mon]
  have clock: "parse_clock (print_clock tm) = Some (tm_hour tm, tm_min tm, tm_sec tm, str_bytes '' GMT'')"
    "length (print_clock tm) = 12"
    using ok parse_clock_print [of tm] length_print_clock [of tm] by (simp_all add: tm_ok_def)
  define p3 where "p3 = ys @ 0x20 # print_clock tm"
  define p2 where "p2 = months ! nat (tm_mon tm - 1) @ sc # p3"
  define p1 where "p1 = print_02d (tm_mday tm) @ sc # p2"
  have ne: "print_02d (tm_mday tm) \<noteq> []" using d(1) by auto
  have start: "time_separator (week ! nat (tm_wday tm) @ str_bytes '', '' @ p1) = (no_fmt, 0x2c # 0x20 # p1)"
    using time_separator_week [of "tm_wday tm" "0x20 # p1"] ok by (simp add: tm_ok_def)
  have strip: "dropWhile (\<lambda>c. c = 0x20) (0x20 # p1) = p1" unfolding p1_def by (rule dropWhile_digits [OF d(2) ne])
  have lens: "length p3 = length ys + 13" "length p2 = length ys + 17" "length p1 = length ys + 20"
    using clock(2) m(2) d(1) by (simp_all add: p1_def p2_def p3_def)
  have first: "parse_first_day p1 = Some (fmt, tm_mday tm, p2)"
    using sep lens len d unfolding parse_first_day_def p1_def by (auto simp: two_digits_list Let_def)
  have month: "parse_month p2 = Some (tm_mon tm - 1)" "drop 3 p2 = sc # p3"
    using m by (simp_all add: p2_def)
  have whole: "week ! nat (tm_wday tm) @ str_bytes '', '' @ print_02d (tm_mday tm) @ [sc]
      @ months ! nat (tm_mon tm - 1) @ [sc] @ ys @ [0x20] @ print_clock tm = week ! nat (tm_wday tm) @ str_bytes '', '' @ p1"
    by (simp add: p1_def p2_def p3_def)
  have len1: "\<not> length p1 < 18" using lens len by linarith
  have year': "parse_year fmt p3 = Some (tm_year tm, 0x20 # print_clock tm)" using year by (simp add: p3_def)
  have fmt: "fmt \<noteq> isoc" "\<not> (fmt = rfc822 \<and> sc \<noteq> 0x20 \<or> fmt = rfc850 \<and> sc \<noteq> 0x2d)" using sep by auto
  show ?thesis
    unfolding whole ngx_parse_http_time_def start
    using fmt strip by (auto simp add: len1 first month year' clock(1) Let_def)
qed

lemma clock_sum:
  "t div 86400 * 86400 + t mod 86400 div 3600 * 3600 + t mod 86400 mod 3600 div 60 * 60 + t mod 86400 mod 3600 mod 60 = t"
  for t :: int
  using div_mult_mod_eq [of t 86400] div_mult_mod_eq [of "t mod 86400" 3600] div_mult_mod_eq [of "t mod 86400 mod 3600" 60]
  by linarith

lemma check_date_gmtime:
  assumes "0 \<le> t" "t \<le> LAST_TIME"
  shows "check_date (tm_year (ngx_gmtime t)) (tm_mon (ngx_gmtime t) - 1) (tm_mday (ngx_gmtime t))
      (tm_hour (ngx_gmtime t)) (tm_min (ngx_gmtime t)) (tm_sec (ngx_gmtime t)) = t"
proof -
  let ?tm = "ngx_gmtime t"
  note ok = gmtime_date(1) [OF assms, unfolded tm_ok_def]
  obtain tm: "tm_sec ?tm = t mod 86400 mod 3600 mod 60" "tm_min ?tm = t mod 86400 mod 3600 div 60"
      "tm_hour ?tm = t mod 86400 div 3600" using gmtime_parts [OF assms] by blast
  have day: "\<not> (if tm_mday ?tm = 29 \<and> tm_mon ?tm - 1 = 1
      then tm_year ?tm mod 4 \<noteq> 0 \<or> tm_year ?tm mod 100 = 0 \<and> tm_year ?tm mod 400 \<noteq> 0
      else tm_mday ?tm > month_days ! nat (tm_mon ?tm - 1))"
    using ok by (auto simp: days_in_month_def leap_year_def month_days_def split: if_splits)
  have clock: "\<not> (tm_hour ?tm > 23 \<or> tm_min ?tm > 59 \<or> tm_sec ?tm > 59)" using ok by linarith
  have sum: "t div 86400 * 86400 + tm_hour ?tm * 3600 + tm_min ?tm * 60 + tm_sec ?tm = t"
    unfolding tm by (rule clock_sum)
  have "signed64 t = t" using assms by (simp add: signed64_def LAST_TIME_def Let_def)
  then show ?thesis
    unfolding check_date_def if_not_P [OF clock] if_not_P [OF day] gmtime_date(2) [OF assms] sum by blast
qed

lemma tm_year_37:
  assumes "0 \<le> t" "t < 2145916800"
  shows "tm_year (ngx_gmtime t) \<le> 2037"
proof (rule ccontr)
  let ?tm = "ngx_gmtime t"
  assume "\<not> tm_year ?tm \<le> 2037"
  then have year: "2038 \<le> tm_year ?tm" by simp
  have T: "t \<le> LAST_TIME" using assms(2) by (simp add: LAST_TIME_def)
  note ok = gmtime_date(1) [OF assms(1) T, unfolded tm_ok_def]
  have days: "t div 86400 \<le> 24836" using zdiv_mono1 [of t 2145916799 86400] assms(2) by simp
  have below: "146097 * y - 800 < 400 * march_days y" for y by (rule march_days_bounds)
  have mono: "march_days y \<le> march_days z" if "y \<le> z" for y z
    using that
  proof (induction "nat (z - y)" arbitrary: z)
    case (Suc k)
    then have "march_days y \<le> march_days (z - 1)" by simp
    then show ?case using march_days_step [of z] by (auto split: if_splits)
  qed simp
  have c: "march_days 2037 = 743999" "march_days 2038 = 744364" by (simp_all add: march_days_def)
  have m37: "743999 \<le> march_days (tm_year ?tm - 1)" using mono [of 2037 "tm_year ?tm - 1"] year c by simp
  have m38: "744364 \<le> march_days (tm_year ?tm)" using mono [of 2038 "tm_year ?tm"] year c by simp
  have md: "30 \<le> 367 * m div 12" if "1 \<le> m" for m :: int
    using that zdiv_mono1 [of 367 "367 * m" 12] by simp
  have md11: "336 \<le> 367 * m div 12" if "11 \<le> m" for m :: int
    using that zdiv_mono1 [of "367 * 11" "367 * m" 12] by simp
  have "24837 \<le> gauss_days (tm_year ?tm) (tm_mon ?tm - 1) (tm_mday ?tm)"
  proof (cases "tm_mon ?tm \<le> 2")
    case True
    then show ?thesis
      using gauss_days_eq [of "tm_year ?tm" "tm_mon ?tm" "tm_mday ?tm", folded march_days_def] ok m37
        md11 [of "tm_mon ?tm + 10"] by simp
  next
    case False
    then show ?thesis
      using gauss_days_eq [of "tm_year ?tm" "tm_mon ?tm" "tm_mday ?tm", folded march_days_def] ok m38
        md [of "tm_mon ?tm - 2"] by simp
  qed
  then show False using gmtime_date(2) [OF assms(1) T] days by linarith
qed

lemma parse_year_850:
  assumes "1970 \<le> year" "year \<le> 2037"
  shows "parse_year rfc850 (print_02d (year mod 100) @ rest) = Some (year, rest)"
proof -
  have d: "year mod 100 = (if year < 2000 then year - 1900 else year - 2000)"
  proof (cases "year < 2000")
    case True
    then have "year = 100 * 19 + (year - 1900)" by simp
    then have "year mod 100 = year - 1900" using assms True by (intro int_mod_pos_eq) simp_all
    then show ?thesis using True by simp
  next
    case False
    then have "year = 100 * 20 + (year - 2000)" by simp
    then have "year mod 100 = year - 2000" using assms False by (intro int_mod_pos_eq) simp_all
    then show ?thesis using False by simp
  qed
  have r: "0 \<le> year mod 100" "year mod 100 < 100" by simp_all
  note f = print_02d_facts [OF r]
  show ?thesis using assms f d by (simp add: parse_year_def two_digits_list)
qed

text \<open>The printed digits, for concrete dates.\<close>

lemma digit_of_val [simp]: "is_digit c \<Longrightarrow> 0x30 + word_of_int (digit_val c) = c"
  by (simp add: digit_val_def)

lemma digit_split: "is_digit d \<Longrightarrow> (q * 10 + digit_val d) div 10 = q \<and> (q * 10 + digit_val d) mod 10 = digit_val d"
  using is_digit_bounds [of d] by simp

lemma print_02d_digits:
  assumes "0 \<le> v" "v < 100"
  shows "print_02d v = [word_of_int (0x30 + v div 10), word_of_int (0x30 + v mod 10)]"
proof -
  note f = print_02d_facts [OF assms]
  obtain a b where p: "print_02d v = [a, b]" using f(1) by (auto simp: length_Suc_conv numeral_eq_Suc)
  then have d: "is_digit a" "is_digit b" "digit_val a * 10 + digit_val b = v" using f by simp_all
  then have "v div 10 = digit_val a" "v mod 10 = digit_val b"
    using digit_split [OF d(2), of "digit_val a"] by simp_all
  then show ?thesis using p d(1,2) by simp
qed

lemma div_thousand: "v div 1000 = v div 10 div 10 div 10 \<and> v div 100 = v div 10 div 10" for v :: int
  using zdiv_zmult2_eq [of 10 v 10] zdiv_zmult2_eq [of 10 v 100] zdiv_zmult2_eq [of 10 "v div 10" 10] by simp

lemma print_4d_digits:
  assumes "1000 \<le> v" "v < 10000"
  shows "print_4d v = [word_of_int (0x30 + v div 1000), word_of_int (0x30 + v div 100 mod 10),
    word_of_int (0x30 + v div 10 mod 10), word_of_int (0x30 + v mod 10)]"
proof -
  note f = print_4d_facts [OF assms]
  obtain a b c d where p: "print_4d v = [a, b, c, d]" using f(1) by (auto simp: length_Suc_conv numeral_eq_Suc)
  then have g: "is_digit a" "is_digit b" "is_digit c" "is_digit d"
    and v: "((digit_val a * 10 + digit_val b) * 10 + digit_val c) * 10 + digit_val d = v" using f by simp_all
  have 1: "v div 10 = (digit_val a * 10 + digit_val b) * 10 + digit_val c" "v mod 10 = digit_val d"
    using digit_split [OF g(4)] unfolding v [symmetric] by blast+
  have 2: "v div 10 div 10 = digit_val a * 10 + digit_val b" "v div 10 mod 10 = digit_val c"
    unfolding 1 using digit_split [OF g(3)] by blast+
  have 3: "v div 10 div 10 div 10 = digit_val a" "v div 10 div 10 mod 10 = digit_val b"
    unfolding 2 using digit_split [OF g(2)] by blast+
  have eq: "v div 1000 = digit_val a" "v div 100 mod 10 = digit_val b"
    using 3 unfolding div_thousand [of v, THEN conjunct1] div_thousand [of v, THEN conjunct2] by this
  show ?thesis unfolding eq 1(2) 2(2) p using g by simp
qed

lemma print_d_2038: "print_d 2038 = print_4d 2038"
proof -
  have "\<not> length (sprintf_dec64 (word_of_int 2038) []) < 4"
  proof
    assume "length (sprintf_dec64 (word_of_int 2038) []) < 4"
    then have "(10 :: int) ^ length (sprintf_dec64 (word_of_int 2038) []) \<le> 10 ^ 3" by (intro power_increasing) simp_all
    then show False using dec_from_less [of "sprintf_dec64 (word_of_int 2038) []" 0] sprintf_dec_facts [of 2038 3] by simp
  qed
  then have "4 - length (sprintf_dec64 (word_of_int 2038) []) = 0" by simp
  then show ?thesis unfolding print_d_def print_4d_def ngx_sprintf_num_dec Let_def by simp
qed

lemma cookie_time_2038: "ngx_parse_http_time (ngx_http_cookie_time 2145916800) = NGX_TIME_ERROR"
proof -
  have "ngx_gmtime 2145916800 = \<lparr>tm_sec = 0, tm_min = 0, tm_hour = 0, tm_mday = 1, tm_mon = 1, tm_year = 2038, tm_wday = 5\<rparr>"
    by code_simp
  then have "ngx_http_cookie_time 2145916800 = str_bytes ''Fri, 01-Jan-2038 00:00:00 GMT''"
    by (simp add: ngx_http_cookie_time_def print_d_2038 print_clock_def print_02d_digits print_4d_digits week_def months_def)
  moreover have "ngx_parse_http_time (str_bytes ''Fri, 01-Jan-2038 00:00:00 GMT'') = NGX_TIME_ERROR" by code_simp
  ultimately show ?thesis by simp
qed

section \<open>Properties\<close>

text \<open>
  C27. Whatever the time, also a negative one or one after the year 9999, the fields that
  \<open>ngx_gmtime\<close> computes are a date of the calendar: the month is one of twelve, the day one of the
  month of that year, the clock below 24:00:00, the weekday below seven, and the year has four digits.
\<close>

theorem gmtime_well_formed: "tm_ok (ngx_gmtime t)"
  by (rule gmtime_ok)

text \<open>
  C21. Up to the end of the year 9999 the date is the one that counting gives: the days of the years
  since 1970, of the months before and of the month, and the clock, together are the time again.
\<close>

theorem gmtime_calendar:
  assumes "0 \<le> t" "t \<le> LAST_TIME"
  shows "calendar_days (tm_year (ngx_gmtime t)) (tm_mon (ngx_gmtime t)) (tm_mday (ngx_gmtime t)) * 86400
    + tm_hour (ngx_gmtime t) * 3600 + tm_min (ngx_gmtime t) * 60 + tm_sec (ngx_gmtime t) = t"
proof -
  let ?tm = "ngx_gmtime t"
  note ok = gmtime_date(1) [OF assms, unfolded tm_ok_def]
  obtain tm: "tm_sec ?tm = t mod 86400 mod 3600 mod 60" "tm_min ?tm = t mod 86400 mod 3600 div 60"
      "tm_hour ?tm = t mod 86400 div 3600" using gmtime_parts [OF assms] by blast
  have days: "calendar_days (tm_year ?tm) (tm_mon ?tm) (tm_mday ?tm) = t div 86400"
    using ok by (simp add: calendar_gauss gmtime_date(2) [OF assms])
  show ?thesis unfolding days tm by (rule clock_sum)
qed

theorem gmtime_calendar_witness:
  "calendar_days (tm_year (ngx_gmtime 951782400)) (tm_mon (ngx_gmtime 951782400)) (tm_mday (ngx_gmtime 951782400)) * 86400
    + tm_hour (ngx_gmtime 951782400) * 3600 + tm_min (ngx_gmtime 951782400) * 60 + tm_sec (ngx_gmtime 951782400) = 951782400"
  by (rule gmtime_calendar) (simp_all add: LAST_TIME_def)

text \<open>
  C9. The date of an HTTP header is read back as the time it was printed for, up to the end of the
  year 9999; so an \<open>If-Modified-Since\<close> that repeats a \<open>Last-Modified\<close> compares equal.
\<close>

theorem http_time_roundtrip:
  assumes "0 \<le> t" "t \<le> LAST_TIME"
  shows "ngx_parse_http_time (ngx_http_time t) = t"
proof -
  let ?tm = "ngx_gmtime t"
  have ok: "tm_ok ?tm" by (rule gmtime_ok)
  then have year: "1000 \<le> tm_year ?tm" "tm_year ?tm < 10000" by (simp_all add: tm_ok_def)
  note y = print_4d_facts [OF year]
  have "parse_year rfc822 (print_4d (tm_year ?tm) @ 0x20 # print_clock ?tm) = Some (tm_year ?tm, 0x20 # print_clock ?tm)"
    using y by (simp add: parse_year_def four_digits_list)
  then show ?thesis
    unfolding ngx_http_time_def Let_def
    using read_date_text [OF ok, of rfc822 "0x20" "print_4d (tm_year ?tm)"] y check_date_gmtime [OF assms] by simp
qed

theorem http_time_roundtrip_witness:
  "ngx_http_time 784111777 = str_bytes ''Sun, 06 Nov 1994 08:49:37 GMT''
    \<and> ngx_parse_http_time (ngx_http_time 784111777) = 784111777"
proof
  have "ngx_gmtime 784111777 = \<lparr>tm_sec = 37, tm_min = 49, tm_hour = 8, tm_mday = 6, tm_mon = 11, tm_year = 1994, tm_wday = 0\<rparr>"
    by code_simp
  then show "ngx_http_time 784111777 = str_bytes ''Sun, 06 Nov 1994 08:49:37 GMT''"
    by (simp add: ngx_http_time_def print_clock_def print_02d_digits print_4d_digits week_def months_def)
  show "ngx_parse_http_time (ngx_http_time 784111777) = 784111777"
    by (rule http_time_roundtrip) (simp_all add: LAST_TIME_def)
qed

text \<open>
  The date of a cookie, with two digits of the year, is read back as the time it was printed for
  as long as the year is not after 2037; later ones, with four digits, are refused by the reader.
\<close>

theorem cookie_time_roundtrip:
  assumes "0 \<le> t" "t < 2145916800"
  shows "ngx_parse_http_time (ngx_http_cookie_time t) = t \<and>
    ngx_parse_http_time (ngx_http_cookie_time 2145916800) = NGX_TIME_ERROR"
proof
  let ?tm = "ngx_gmtime t"
  have ok: "tm_ok ?tm" by (rule gmtime_ok)
  have year: "1970 \<le> tm_year ?tm" "tm_year ?tm \<le> 2037" using ok tm_year_37 [OF assms] by (simp_all add: tm_ok_def)
  have r: "0 \<le> tm_year ?tm mod 100" "tm_year ?tm mod 100 < 100" by simp_all
  have T: "t \<le> LAST_TIME" using assms(2) by (simp add: LAST_TIME_def)
  show "ngx_parse_http_time (ngx_http_cookie_time t) = t"
    unfolding ngx_http_cookie_time_def Let_def
    using read_date_text [OF ok, of rfc850 "0x2d" "print_02d (tm_year ?tm mod 100)"] parse_year_850 [OF year]
      print_02d_facts [OF r] year check_date_gmtime [OF assms(1) T] by simp
  show "ngx_parse_http_time (ngx_http_cookie_time 2145916800) = NGX_TIME_ERROR" by (rule cookie_time_2038)
qed

theorem cookie_time_roundtrip_witness:
  "ngx_parse_http_time (ngx_http_cookie_time 1000000000) = 1000000000"
  using cookie_time_roundtrip [of 1000000000] by simp


end
