(* ===== verification/Spec2Isabelle.thy ===== *)
theory Spec2Isabelle
  imports Ngx_Number Ngx_Encoding Upstream_RR Http_Chunked Http_Request_Line Http_Header_Line
    Http_Complex_Uri
    Ngx_Rwlock Ngx_Shmtx Ngx_Radix_Tree H2_Headers Http_Location_Search Ngx_Proxy_Protocol Ngx_Times
begin

text \<open>
  A verification development for nginx 1.16.0, the C server under \<open>src/nginx-1.16.0/src\<close>. Paths below
  are relative to that directory.

  \<^bold>\<open>The program.\<close> nginx is a master process and workers. A worker runs an event loop; what an event
  brings, bytes from a client or from a server behind nginx, goes through readers that are state
  machines and keep their state in the connection or the request between two events. A request
  line, its URI and its header lines are read (\<open>http/ngx_http_parse.c\<close>), or for HTTP/2 a compressed
  header block (\<open>http/v2\<close>); the URI chooses a location of the configuration
  (\<open>http/ngx_http_core_module.c\<close>); the body is decoded (\<open>http/ngx_http_request_body.c\<close>); a balancer
  chooses a server to pass the request to (\<open>http/ngx_http_upstream_round_robin.c\<close>). Workers share
  memory under locks (\<open>core/ngx_rwlock.c\<close>, \<open>core/ngx_shmtx.c\<close>). Below all of it are the readers and
  printers of numbers, encodings, addresses and dates (\<open>core\<close>). These are the parts that decide
  something on their own; the rest moves data between them, the kernel and libraries.

  \<^bold>\<open>Conventions.\<close> Definitions carry the names of the C functions, or of a loop, a case of a switch or
  a block of one; they are executable. A machine word is a \<open>word\<close> where the code relies on its width
  and wrap-around, a bounded \<open>int\<close> or \<open>nat\<close> where it checks for overflow, with the check written out.
  A pointer into a buffer is a position in a list of bytes. A return code is a value of a datatype.
  A C structure is a record. The platform has 64-bit words. What the code gets from elsewhere is an
  argument: whether and what an allocator answers, the current time, a compiled regular expression,
  what a request does with a header. Loops are recursive functions with a measure. The walk down a
  radix tree takes one step for each bit of a key; its result is \<open>None\<close> when the tree goes on below the
  last bit, and the theorems say that this does not happen. The loop of the HTTP/2 reader, whose
  handlers may pass the input on unread, and the search for a location, which goes on in nested
  ones, are a \<open>partial_function\<close>; \<open>h2_read_ends\<close> and \<open>location_search_correct\<close> say that they end.

  \<^bold>\<open>Shared theories.\<close>
  \<^item> \<open>Prelude\<close>: the machine types, and the proof of a fact about bytes by going through all of them.
  \<^item> \<open>Http_Scan\<close>: the loop all HTTP readers share, and the interface \<open>byte_scanner\<close>, which asks that a
    step looks at no byte behind the current one; from it follows that a reader can be stopped and
    resumed anywhere. It is interpreted on the steps of the request line and the header line.
  \<^item> \<open>Step_Machine\<close>: processes that interleave, with the interface \<open>step_invariant\<close>, interpreted on the
    two locks.

  \<^bold>\<open>Texts and numbers.\<close>
  \<^item> \<open>Ngx_Number\<close> (\<open>core/ngx_string.c\<close>, \<open>core/ngx_parse.c\<close>): readers of decimal, hexadecimal and
    fixed-point numbers, of sizes and of times, and the number printer of \<open>ngx_vslprintf\<close>. The guards
    against overflow are exact, and readers give back what the printer wrote.
  \<^item> \<open>Ngx_Encoding\<close> (\<open>core/ngx_string.c\<close>): base64, UTF-8, the escaping of URIs, HTML and JSON, with the
    tables of the source. The interface \<open>base64_variant\<close> holds for both alphabets. Round trips,
    sizes that the callers allocate, rejected inputs.
  \<^item> \<open>Ngx_Times\<close> (\<open>core/ngx_times.c\<close>, \<open>core/ngx_parse_time.c\<close>): the Gregorian calendar and the dates of
    HTTP. The date computed from a number of seconds is that of a calendar counted day by day; what
    is printed is read back.
  \<^item> \<open>Ngx_Inet\<close> (\<open>core/ngx_inet.c\<close>): IPv4 and IPv6 addresses and blocks of them. What is printed is
    read back, with the one exception that the code has, and a block matches a client when the
    leading bits agree.
  \<^item> \<open>Ngx_Proxy_Protocol\<close> (\<open>core/ngx_proxy_protocol.c\<close>): the writer and the readers of the PROXY header.
    What one server writes the next one reads; no reader leaves its buffer.

  \<^bold>\<open>HTTP/1.\<close>
  \<^item> \<open>Http_Request_Line\<close>, \<open>Http_Header_Line\<close>, \<open>Http_Complex_Uri\<close> (\<open>http/ngx_http_parse.c\<close>,
    \<open>http/ngx_http_request.c\<close>): one definition for each state of the three machines. Invariants of
    the pointers and of what lies between them, acceptance of what clients send, resumption, and for
    the URI that the result is a normalised path.
  \<^item> \<open>Http_Chunked\<close> (\<open>http/ngx_http_parse.c\<close>, \<open>http/ngx_http_request_body.c\<close>,
    \<open>http/modules/ngx_http_chunked_filter_module.c\<close>): the decoder of chunked bodies, the filters that
    call it for each buffer, and the encoder. Round trip over any cutting into calls and buffers, no
    overflow, and the body limit over all calls.

  \<^bold>\<open>HTTP/2 header blocks.\<close>
  \<^item> \<open>H2_Huffman_Table\<close>, \<open>H2_Huffman\<close> (\<open>http/v2/ngx_http_v2_huff_decode.c\<close>, \<open>..._encode.c\<close>): the tables of
    the source, checked against each other by evaluation, and the decoder and the encoder, which
    handle four bits and 64 bits at a time, against the codes.
  \<^item> \<open>H2_Encode\<close> (\<open>http/v2/ngx_http_v2_encode.c\<close>): integers and strings.
  \<^item> \<open>H2_Header_Table\<close> (\<open>http/v2/ngx_http_v2_table.c\<close>): the dynamic table in a ring of bytes with a
    growing ring of pointers. \<open>table_view\<close> is what the code keeps as a list; \<open>rfc_table\<close> is the table
    of RFC 7541. They differ in one point, a size that is set before the first insertion, which the
    code forgets (\<open>hpack_size_forgotten\<close>); elsewhere the refinement holds.
  \<^item> \<open>H2_Headers\<close> (\<open>http/v2/ngx_http_v2.c\<close>, from \<open>ngx_http_v2_state_header_block\<close> to
    \<open>ngx_http_v2_state_header_complete\<close>): the handlers that read a block in any pieces, through
    CONTINUATION frames and padding. Blocks written as RFC 7541 says, with its own integers, packed
    code strings and table, are decoded to their headers.

  \<^bold>\<open>Decisions.\<close>
  \<^item> \<open>Ngx_Queue\<close>, \<open>Http_Location\<close>, \<open>Http_Location_Config\<close>, \<open>Http_Location_Search\<close> (\<open>core/ngx_queue.c\<close>,
    \<open>http/ngx_http.c\<close>, \<open>http/ngx_http_core_module.c\<close>): the locations of a level are sorted, split and
    put into a tree by their names; the search walks it and goes on in nested locations and regular
    expressions. Tree and search together give the documented choice for every configuration.
  \<^item> \<open>Upstream_RR\<close> (\<open>http/ngx_http_upstream_round_robin.c\<close>): the smooth weighted round robin. Fairness
    (the interface \<open>smooth_scheduler\<close>, interpreted on the handler), bounds of the weights, accounting
    of connections, and the tries of one request, interleaved with those of others.
  \<^item> \<open>Ngx_Radix_Tree\<close> (\<open>core/ngx_radix_tree.c\<close>): trees of 32 and 128 bits on a heap of nodes with a free
    list and pages, against a map from prefixes to values; both are instances of \<open>prefix_tree\<close>.

  \<^bold>\<open>Locks.\<close>
  \<^item> \<open>Ngx_Rwlock\<close> (\<open>core/ngx_rwlock.c\<close>), \<open>Ngx_Shmtx\<close> (\<open>core/ngx_shmtx.c\<close>): every access to shared memory is
    a step of a process, and any number of processes interleave. Exclusion, and for the mutex that
    no wakeup of a sleeping process is lost, also when processes die outside of the calls.

  \<^bold>\<open>Bounds.\<close> Dates go up to the year 9999.
  Location names are shorter than 256 bytes; the code cuts longer ones. Integers of header blocks
  have at most four octets, tables at most 4096 bytes, as the code demands. Each limit stands in the
  statement of the theorem that needs it.

  \<^bold>\<open>Not modelled.\<close> Memory pools and slabs, sockets, files, processes, the event loop and timers work on
  system calls or raw memory. TLS, compression, regular expressions, image and script modules call
  libraries. The phase engine, the filters of responses and the upstream module are glue around the
  parts above; the mail and the stream servers repeat them. The configuration parser, the hash tables,
  the digests, the red-black tree and the frames and streams of HTTP/2 are not modelled yet.
\<close>

end
